(* ===== verification/Prelude.thy ===== *)
theory Prelude
  imports Main "HOL-Library.Word"
begin

text \<open>
  Shared vocabulary of the development: the machine types of the C sources, the
  state-and-exception programs that model C functions with side effects, the error counters of
  \<^verbatim>\<open>shared/src/error.c\<close>, and the generic facts on words, lists and programs that the component
  theories use through the collections declared here.
\<close>

unbundle bit_operations_syntax

named_theorems unat_simps \<open>unsigned value of a word operation\<close>
named_theorems prog_simps \<open>unfolding of the program combinators\<close>

section \<open>Machine types\<close>

text \<open>
  \<^verbatim>\<open>ByteT\<close> and \<^verbatim>\<open>char\<close> are 8 bits wide, \<^verbatim>\<open>unsigned\<close> is 32 bits wide; \<^verbatim>\<open>size_t\<close> counts objects in
  memory and is a natural number. A C string (\<^verbatim>\<open>char *\<close>) is the list of the bytes in front of its
  terminating null byte.
\<close>

type_synonym byte = "8 word"
type_synonym cuint = "32 word"
type_synonym cstring = "byte list"

definition UINT_MAX :: cuint where
  "UINT_MAX = - 1"

text \<open>The bytes of a string literal of the source (ASCII).\<close>

definition str :: "string \<Rightarrow> byte list" where
  "str s = map of_char s"

definition chr :: "char \<Rightarrow> byte" where
  "chr c = of_char c"

section \<open>Words\<close>

lemma unat_less_256: "unat (b::byte) < 256"
  using unsigned_less[of b, where ?'a = nat] by simp

lemma unat_less_2_32: "unat (w::cuint) < 4294967296"
  using unsigned_less[of w, where ?'a = nat] by simp

lemma unat_UINT_MAX [unat_simps]: "unat UINT_MAX = 4294967295"
  by (simp add: UINT_MAX_def unsigned_minus_1_eq_mask mask_eq_exp_minus_1)

lemma unat_take_bit [unat_simps]: "unat (take_bit n x) = unat (x::'a::len word) mod 2 ^ n"
  by (simp add: unsigned_take_bit_eq flip: take_bit_eq_mod[of n "unat x"])

lemma unat_and_mask: "unat (x AND mask n) = unat (x::'a::len word) mod 2 ^ n"
  using unat_take_bit[of n x] by (simp only: take_bit_eq_mask)

lemma unat_drop_bit [unat_simps]: "unat (drop_bit n (x::'a::len word)) = unat x div 2 ^ n"
  using unat_drop_bit_eq[of n x] by (simp only: drop_bit_eq_div[of n "unat x"])

lemma unat_push_bit [unat_simps]:
  "unat (push_bit n (x::'a::len word)) = (unat x * 2 ^ n) mod 2 ^ LENGTH('a)"
proof -
  have "unat (push_bit n x) = take_bit LENGTH('a) (push_bit n (unat x))"
    by (rule unsigned_push_bit_eq)
  also have "\<dots> = (unat x * 2 ^ n) mod 2 ^ LENGTH('a)"
    by (simp only: take_bit_eq_mod push_bit_eq_mult)
  finally show ?thesis .
qed

lemma unat_ucast_8_32 [unat_simps]: "unat (ucast (b::byte) :: cuint) = unat b"
  using unat_less_256[of b] by (simp add: unsigned_ucast_eq take_bit_eq_mod)

lemma unat_ucast_32_8 [unat_simps]: "unat (ucast (w::cuint) :: byte) = unat w mod 256"
  by (simp add: unsigned_ucast_eq take_bit_eq_mod)

lemma unat_and_15 [unat_simps]: "unat (x AND 15) = unat (x::cuint) mod 16"
  using unat_and_mask[of x 4] by (simp add: mask_eq_exp_minus_1)

lemma unat_and_7 [unat_simps]: "unat (x AND 7) = unat (x::cuint) mod 8"
  using unat_and_mask[of x 3] by (simp add: mask_eq_exp_minus_1)

lemma unat_byte_and_15 [unat_simps]: "unat (x AND 15) = unat (x::byte) mod 16"
  using unat_and_mask[of x 4] by (simp add: mask_eq_exp_minus_1)

lemma unat_or_disjoint: "x AND y = 0 \<Longrightarrow> unat (x OR y) = unat x + unat (y::'a::len word)"
proof -
  assume "x AND y = 0"
  then have "unat x AND unat y = 0" by (metis unsigned_and_eq unsigned_0)
  then show ?thesis by (simp add: unsigned_or_eq disjunctive_add_eq_or)
qed

lemma word_eq_unatI: "unat x = unat y \<Longrightarrow> x = (y::'a::len word)"
  by (rule word_unat_eq_iff [THEN iffD2])

section \<open>Lists\<close>

lemma filter_update_le:
  "i < length xs \<Longrightarrow> (P y \<Longrightarrow> P (xs ! i)) \<Longrightarrow> length (filter P (xs[i := y])) \<le> length (filter P xs)"
proof (induction xs arbitrary: i)
  case (Cons x xs)
  then show ?case by (cases i) auto
qed simp

lemma filter_update_less:
  "i < length xs \<Longrightarrow> P (xs ! i) \<Longrightarrow> \<not> P y \<Longrightarrow> length (filter P (xs[i := y])) < length (filter P xs)"
proof (induction xs arbitrary: i)
  case (Cons x xs)
  then show ?case by (cases i) auto
qed simp

lemma filter_mono_length:
  "(\<And>x. x \<in> set xs \<Longrightarrow> P x \<Longrightarrow> Q x) \<Longrightarrow> length (filter P xs) \<le> length (filter Q xs)"
  by (induction xs) (auto simp: le_Suc_eq)

lemma filter_strict_length:
  "(\<And>x. x \<in> set xs \<Longrightarrow> P x \<Longrightarrow> Q x) \<Longrightarrow> x \<in> set xs \<Longrightarrow> Q x \<Longrightarrow> \<not> P x \<Longrightarrow> length (filter P xs) < length (filter Q xs)"
proof (induction xs)
  case (Cons y xs)
  show ?case
  proof (cases "x \<in> set xs")
    case True
    then show ?thesis using Cons by (auto simp: less_Suc_eq)
  next
    case False
    then have "y = x" using Cons.prems(2) by simp
    then show ?thesis using Cons.prems filter_mono_length[of xs P Q] by auto
  qed
qed simp

section \<open>Programs\<close>

text \<open>
  A C function that reads and changes a state of type \<open>'s\<close> is a function from the state before
  the call to its outcome and the state after it. The outcome is the returned value or the reason
  why control does not come back to the caller: an exception thrown by \<^verbatim>\<open>THROW\<close>, the end of the
  process (\<^verbatim>\<open>exit(EXIT_FAILURE)\<close>), or behaviour the C language leaves undefined (a failed
  \<^verbatim>\<open>assert\<close>, a null or out of range pointer). The state is kept in every case: what a function
  wrote before it threw an exception stays written.
\<close>

datatype exn =
    XX_tdf_read_error
  | XX_capsule_error
  | XX_library_error
  | XX_istream_read_error
  | XX_bistream_read_error
  | XX_bostream_write_error
  | XX_ostream_write_error
  | Exit_Failure
  | Undefined

datatype 'a outcome = Ret 'a | Raise exn

type_synonym ('s, 'a) prog = "'s \<Rightarrow> 'a outcome \<times> 's"

definition ret :: "'a \<Rightarrow> ('s, 'a) prog" where
  [prog_simps]: "ret x s = (Ret x, s)"

definition raise :: "exn \<Rightarrow> ('s, 'a) prog" where
  [prog_simps]: "raise e s = (Raise e, s)"

definition bind :: "('s, 'a) prog \<Rightarrow> ('a \<Rightarrow> ('s, 'b) prog) \<Rightarrow> ('s, 'b) prog" where
  "bind m f s = (case m s of (Ret x, t) \<Rightarrow> f x t | (Raise e, t) \<Rightarrow> (Raise e, t))"

definition seq :: "('s, 'a) prog \<Rightarrow> ('s, 'b) prog \<Rightarrow> ('s, 'b) prog" where
  [prog_simps]: "seq m k = bind m (\<lambda>_. k)"

definition gets :: "('s \<Rightarrow> 'a) \<Rightarrow> ('s, 'a) prog" where
  [prog_simps]: "gets f s = (Ret (f s), s)"

definition modify :: "('s \<Rightarrow> 's) \<Rightarrow> ('s, unit) prog" where
  [prog_simps]: "modify f s = (Ret (), f s)"

definition check :: "bool \<Rightarrow> ('s, unit) prog" where
  [prog_simps]: "check b s = (if b then Ret () else Raise Undefined, s)"

text \<open>The value of a partial operation: \<^verbatim>\<open>None\<close> is undefined behaviour.\<close>

definition defined :: "'a option \<Rightarrow> ('s, 'a) prog" where
  [prog_simps]: "defined x s = (case x of None \<Rightarrow> (Raise Undefined, s) | Some y \<Rightarrow> (Ret y, s))"

text \<open>An element of a vector: an index out of range is undefined.\<close>

definition index :: "'a list \<Rightarrow> nat \<Rightarrow> ('s, 'a) prog" where
  [prog_simps]: "index xs i s = (if i < length xs then (Ret (xs ! i), s) else (Raise Undefined, s))"

text \<open>\<^verbatim>\<open>HANDLE { m } WITH { h e } END_HANDLE\<close>: exits and undefined behaviour are not caught.\<close>

definition handle :: "('s, 'a) prog \<Rightarrow> (exn \<Rightarrow> ('s, 'a) prog) \<Rightarrow> ('s, 'a) prog" where
  [prog_simps]: "handle m h s =
     (case m s of
        (Ret x, t) \<Rightarrow> (Ret x, t)
      | (Raise e, t) \<Rightarrow> if e = Exit_Failure \<or> e = Undefined then (Raise e, t) else h e t)"

text \<open>\<^verbatim>\<open>for\<close> loops over the elements of a list, and over an index range with one result each.\<close>

fun for_each :: "'a list \<Rightarrow> ('a \<Rightarrow> ('s, unit) prog) \<Rightarrow> ('s, unit) prog" where
  "for_each [] body = ret ()"
| "for_each (x # xs) body = bind (body x) (\<lambda>_. for_each xs body)"

fun collect :: "'a list \<Rightarrow> ('a \<Rightarrow> ('s, 'b) prog) \<Rightarrow> ('s, 'b list) prog" where
  "collect [] body = ret []"
| "collect (x # xs) body =
     bind (body x) (\<lambda>y. bind (collect xs body) (\<lambda>ys. ret (y # ys)))"

lemma bind_Ret [simp]: "m s = (Ret x, t) \<Longrightarrow> bind m f s = f x t"
  by (simp add: bind_def)

lemma bind_Raise [simp]: "m s = (Raise e, t) \<Longrightarrow> bind m f s = (Raise e, t)"
  by (simp add: bind_def)

lemma bind_assoc: "bind (bind m f) g = bind m (\<lambda>x. bind (f x) g)"
  by (auto simp: bind_def fun_eq_iff split: prod.splits outcome.splits)

text \<open>For the termination of loops written with \<^const>\<open>bind\<close>.\<close>

lemma bind_fundef_cong [fundef_cong]:
  "m s = m' s' \<Longrightarrow> (\<And>x t. m' s' = (Ret x, t) \<Longrightarrow> f x t = f' x t) \<Longrightarrow> bind m f s = bind m' f' s'"
  by (auto simp: bind_def split: prod.splits outcome.splits)

lemma bind_Ret_iff: "bind m f s = (Ret y, u) \<longleftrightarrow> (\<exists>x t. m s = (Ret x, t) \<and> f x t = (Ret y, u))"
  by (auto simp: bind_def split: prod.splits outcome.splits)

lemma defined_simps [simp]:
  "defined (Some x) s = (Ret x, s)" "defined None s = (Raise Undefined, s)"
  "bind (defined (Some x)) f = f x" "bind (ret x) f = f x"
  by (simp_all add: defined_def bind_def ret_def fun_eq_iff)

lemma for_each_append: "for_each (xs @ ys) f = bind (for_each xs f) (\<lambda>_. for_each ys f)"
  by (induction xs) (simp_all add: bind_assoc)

lemma for_each_concat: "for_each xss (\<lambda>xs. for_each xs f) = for_each (concat xss) f"
  by (induction xss) (simp_all add: for_each_append)

lemma index_simps [simp]:
  "i < length xs \<Longrightarrow> index xs i s = (Ret (xs ! i), s)" "i < length xs \<Longrightarrow> bind (index xs i) f = f (xs ! i)"
  by (simp_all add: index_def bind_def fun_eq_iff)

lemma bind_cases:
  assumes "bind m f s = (r, u)"
  obtains (Ret) x t where "m s = (Ret x, t)" "f x t = (r, u)"
        | (Raise) e where "m s = (Raise e, u)" "r = Raise e"
  using assms by (auto simp: bind_def split: prod.splits outcome.splits)

subsection \<open>Triples\<close>

text \<open>
  \<open>valid P m Q X\<close>: from a state with \<open>P\<close> the program \<open>m\<close> either returns \<open>x\<close> in a state with
  \<open>Q x\<close> or leaves by an exception \<open>e\<close> in a state with \<open>X e\<close>.
\<close>

definition valid ::
  "('s \<Rightarrow> bool) \<Rightarrow> ('s, 'a) prog \<Rightarrow> ('a \<Rightarrow> 's \<Rightarrow> bool) \<Rightarrow> (exn \<Rightarrow> 's \<Rightarrow> bool) \<Rightarrow> bool" where
  "valid P m Q X \<longleftrightarrow>
     (\<forall>s. P s \<longrightarrow> (case m s of (Ret x, t) \<Rightarrow> Q x t | (Raise e, t) \<Rightarrow> X e t))"

named_theorems valid_intros \<open>rules for triples\<close>

lemma validI:
  assumes "\<And>s x t. P s \<Longrightarrow> m s = (Ret x, t) \<Longrightarrow> Q x t"
    and "\<And>s e t. P s \<Longrightarrow> m s = (Raise e, t) \<Longrightarrow> X e t"
  shows "valid P m Q X"
  using assms by (auto simp: valid_def split: prod.splits outcome.splits)

lemma validD:
  "valid P m Q X \<Longrightarrow> P s \<Longrightarrow> m s = (Ret x, t) \<Longrightarrow> Q x t"
  by (auto simp: valid_def dest!: spec [of _ s])

lemma validD_Raise:
  "valid P m Q X \<Longrightarrow> P s \<Longrightarrow> m s = (Raise e, t) \<Longrightarrow> X e t"
  by (auto simp: valid_def dest!: spec [of _ s])

lemma valid_pre: "valid P' m Q X \<Longrightarrow> (\<And>s. P s \<Longrightarrow> P' s) \<Longrightarrow> valid P m Q X"
  by (auto simp: valid_def)

lemma valid_post:
  "valid P m Q' X \<Longrightarrow> (\<And>x s. Q' x s \<Longrightarrow> Q x s) \<Longrightarrow> valid P m Q X"
  by (fastforce simp: valid_def split: prod.splits outcome.splits)

lemma valid_exn:
  "valid P m Q X' \<Longrightarrow> (\<And>e s. X' e s \<Longrightarrow> X e s) \<Longrightarrow> valid P m Q X"
  by (fastforce simp: valid_def split: prod.splits outcome.splits)

lemma valid_ret: "(\<And>s. P s \<Longrightarrow> Q x s) \<Longrightarrow> valid P (ret x) Q X"
  by (simp add: valid_def ret_def)

lemma valid_raise: "(\<And>s. P s \<Longrightarrow> X e s) \<Longrightarrow> valid P (raise e) Q X"
  by (simp add: valid_def raise_def)

lemma valid_gets: "(\<And>s. P s \<Longrightarrow> Q (f s) s) \<Longrightarrow> valid P (gets f) Q X"
  by (simp add: valid_def gets_def)

lemma valid_modify: "(\<And>s. P s \<Longrightarrow> Q () (f s)) \<Longrightarrow> valid P (modify f) Q X"
  by (simp add: valid_def modify_def)

lemma valid_check: "(\<And>s. P s \<Longrightarrow> b) \<Longrightarrow> valid P (check b) (\<lambda>_. P) X"
  by (simp add: valid_def check_def)

lemma valid_bind:
  "valid P m R X \<Longrightarrow> (\<And>x. valid (R x) (f x) Q X) \<Longrightarrow> valid P (bind m f) Q X"
  by (fastforce simp: valid_def bind_def split: prod.splits outcome.splits)

lemma valid_if:
  "(b \<Longrightarrow> valid P m Q X) \<Longrightarrow> (\<not> b \<Longrightarrow> valid P k Q X) \<Longrightarrow> valid P (if b then m else k) Q X"
  by simp

text \<open>A fact that follows from the precondition may be assumed.\<close>

lemma valid_assume: "(\<And>s. P s \<Longrightarrow> A) \<Longrightarrow> (A \<Longrightarrow> valid P m Q X) \<Longrightarrow> valid P m Q X"
  by (auto simp: valid_def)

lemma valid_handle:
  "valid P m Q X' \<Longrightarrow> (\<And>e. valid (X' e) (h e) Q X) \<Longrightarrow> (\<And>s. X' Exit_Failure s \<Longrightarrow> X Exit_Failure s)
     \<Longrightarrow> (\<And>s. X' Undefined s \<Longrightarrow> X Undefined s) \<Longrightarrow> valid P (handle m h) Q X"
  by (fastforce simp: valid_def handle_def split: prod.splits outcome.splits)

lemma valid_for_each:
  "(\<And>x. x \<in> set xs \<Longrightarrow> valid I (body x) (\<lambda>_. I) X) \<Longrightarrow> valid I (for_each xs body) (\<lambda>_. I) X"
proof (induction xs)
  case Nil
  show ?case by (simp add: valid_def ret_def)
next
  case (Cons x xs)
  then show ?case by (auto intro!: valid_bind [where R = "\<lambda>_. I"])
qed

text \<open>A program that keeps \<open>I\<close> whether it returns or throws.\<close>

definition keeps :: "('s \<Rightarrow> bool) \<Rightarrow> ('s, 'a) prog \<Rightarrow> bool" where
  "keeps I m \<longleftrightarrow> (\<forall>s. I s \<longrightarrow> I (snd (m s)))"

named_theorems keeps_intros \<open>rules for invariants kept by programs\<close>

lemma keepsD: "keeps I m \<Longrightarrow> I s \<Longrightarrow> m s = (r, t) \<Longrightarrow> I t"
  by (fastforce simp: keeps_def)

lemma keepsI: "(\<And>s r t. I s \<Longrightarrow> m s = (r, t) \<Longrightarrow> I t) \<Longrightarrow> keeps I m"
  by (auto simp: keeps_def intro: prod.collapse [symmetric])

lemma keeps_ret [keeps_intros]: "keeps I (ret x)"
  by (simp add: keeps_def ret_def)

lemma keeps_raise [keeps_intros]: "keeps I (raise e)"
  by (simp add: keeps_def raise_def)

lemma keeps_gets [keeps_intros]: "keeps I (gets f)"
  by (simp add: keeps_def gets_def)

lemma keeps_check [keeps_intros]: "keeps I (check b)"
  by (simp add: keeps_def check_def)

lemma keeps_defined [keeps_intros]: "keeps I (defined x)"
  by (cases x) (simp_all add: keeps_def defined_def)

lemma keeps_index [keeps_intros]: "keeps I (index xs i)"
  by (simp add: keeps_def index_def)

lemma keeps_modify: "(\<And>s. I s \<Longrightarrow> I (f s)) \<Longrightarrow> keeps I (modify f)"
  by (simp add: keeps_def modify_def)

lemma keeps_bind [keeps_intros]: "keeps I m \<Longrightarrow> (\<And>x. keeps I (f x)) \<Longrightarrow> keeps I (bind m f)"
  by (fastforce simp: keeps_def bind_def split: prod.splits outcome.splits)

lemma keeps_seq [keeps_intros]: "keeps I m \<Longrightarrow> keeps I k \<Longrightarrow> keeps I (seq m k)"
  by (simp add: seq_def keeps_bind)

lemma keeps_if [keeps_intros]: "(b \<Longrightarrow> keeps I m) \<Longrightarrow> (\<not> b \<Longrightarrow> keeps I k) \<Longrightarrow> keeps I (if b then m else k)"
  by simp

lemma keeps_for_each [keeps_intros]:
  "(\<And>x. x \<in> set xs \<Longrightarrow> keeps I (body x)) \<Longrightarrow> keeps I (for_each xs body)"
  by (induction xs) (auto intro!: keeps_intros)

lemma keeps_collect [keeps_intros]:
  "(\<And>x. x \<in> set xs \<Longrightarrow> keeps I (body x)) \<Longrightarrow> keeps I (collect xs body)"
  by (induction xs) (auto intro!: keeps_intros)

lemma keeps_handle [keeps_intros]:
  "keeps I m \<Longrightarrow> (\<And>e. keeps I (h e)) \<Longrightarrow> keeps I (handle m h)"
  by (fastforce simp: keeps_def handle_def split: prod.splits outcome.splits)

text \<open>From invariants to triples.\<close>

lemma valid_keeps: "keeps I m \<Longrightarrow> valid I m (\<lambda>_. I) (\<lambda>_. I)"
  by (fastforce simp: valid_def keeps_def split: prod.splits outcome.splits)

lemma keeps_valid: "keeps I m \<longleftrightarrow> valid I m (\<lambda>_. I) (\<lambda>_. I)"
proof
  show "keeps I m \<Longrightarrow> valid I m (\<lambda>_. I) (\<lambda>_. I)" by (rule valid_keeps)
next
  assume v: "valid I m (\<lambda>_. I) (\<lambda>_. I)"
  show "keeps I m"
  proof (rule keepsI)
    fix s r t
    assume s: "I s" and r: "m s = (r, t)"
    show "I t"
    proof (cases r)
      case (Ret x)
      from validD[OF v s r [unfolded Ret]] show ?thesis .
    next
      case (Raise e)
      from validD_Raise[OF v s r [unfolded Raise]] show ?thesis .
    qed
  qed
qed

section \<open>Lists\<close>

lemma drop_eq_Cons_nth: "n < length xs \<Longrightarrow> drop n xs = xs ! n # drop (Suc n) xs"
  by (rule Cons_nth_drop_Suc [symmetric])

lemma list_update_take_drop:
  "n < length xs \<Longrightarrow> xs[n := y] = take n xs @ y # drop (Suc n) xs"
  by (rule upd_conv_take_nth_drop)

end
