(* ===== verification/Errors.thy ===== *)
theory Errors
  imports Prelude
begin

text \<open>
  Error reporting. The linker reports through \<^verbatim>\<open>error\<close> and \<^verbatim>\<open>error_posn\<close> of
  \<^verbatim>\<open>shared/src/error.c\<close>, whose state is the exit status and the number of serious errors, and asks
  \<^verbatim>\<open>error_max_reported_severity\<close> of \<^verbatim>\<open>libexds/src/error.c\<close> whether to stop, whose state is the
  greatest severity passed to \<^verbatim>\<open>error_report\<close>. Message texts are not modelled.
\<close>

datatype error_severity = ERR_WARN | ERR_SERIOUS | ERR_USAGE | ERR_INTERNAL | ERR_FATAL

datatype ESeverityT =
    ERROR_SEVERITY_INFORMATION
  | ERROR_SEVERITY_WARNING
  | ERROR_SEVERITY_ERROR
  | ERROR_SEVERITY_FATAL
  | ERROR_SEVERITY_INTERNAL

text \<open>The enumeration's values, so that severities compare as in C.\<close>

primrec severity_value :: "ESeverityT \<Rightarrow> nat" where
  "severity_value ERROR_SEVERITY_INFORMATION = 0"
| "severity_value ERROR_SEVERITY_WARNING = 1"
| "severity_value ERROR_SEVERITY_ERROR = 2"
| "severity_value ERROR_SEVERITY_FATAL = 3"
| "severity_value ERROR_SEVERITY_INTERNAL = 4"

instantiation ESeverityT :: linorder
begin

definition less_eq_ESeverityT :: "ESeverityT \<Rightarrow> ESeverityT \<Rightarrow> bool" where
  "less_eq_ESeverityT a b \<longleftrightarrow> severity_value a \<le> severity_value b"

definition less_ESeverityT :: "ESeverityT \<Rightarrow> ESeverityT \<Rightarrow> bool" where
  "less_ESeverityT a b \<longleftrightarrow> severity_value a < severity_value b"

instance
proof
  fix a b :: ESeverityT
  show "a \<le> b \<Longrightarrow> b \<le> a \<Longrightarrow> a = b"
    by (cases a; cases b; simp add: less_eq_ESeverityT_def)
qed (auto simp: less_eq_ESeverityT_def less_ESeverityT_def)

end

record error_state =
  exit_status :: bool
  number_errors :: nat
  max_reported :: ESeverityT

text \<open>Initial values of the static variables.\<close>

definition error_start :: error_state where
  "error_start = \<lparr>exit_status = False, number_errors = 0, max_reported = ERROR_SEVERITY_INFORMATION\<rparr>"

definition maximum_errors :: nat where
  "maximum_errors = 20"

text \<open>
  \<^verbatim>\<open>error_msg\<close> behind \<^verbatim>\<open>error\<close> and \<^verbatim>\<open>error_posn\<close>. \<open>exit_status\<close> is true for \<^verbatim>\<open>EXIT_FAILURE\<close>.
  The nested call that reports too many errors has severity \<^verbatim>\<open>ERR_FATAL\<close> and exits.
\<close>

definition error_msg :: "error_severity \<Rightarrow> ('z error_state_scheme, unit) prog" where
  "error_msg e = bind (modify (\<lambda>s. case e of
       ERR_WARN \<Rightarrow> s
     | ERR_FATAL \<Rightarrow> s\<lparr>exit_status := True\<rparr>
     | ERR_USAGE \<Rightarrow> s\<lparr>exit_status := True\<rparr>
     | ERR_INTERNAL \<Rightarrow> s\<lparr>exit_status := True, number_errors := number_errors s + 1\<rparr>
     | ERR_SERIOUS \<Rightarrow> s\<lparr>exit_status := True, number_errors := number_errors s + 1\<rparr>)) (\<lambda>_.
     if e = ERR_FATAL \<or> e = ERR_USAGE then raise Exit_Failure
     else bind (gets number_errors) (\<lambda>n.
       if n \<ge> maximum_errors \<and> maximum_errors \<noteq> 0
       then bind (modify (\<lambda>s. s\<lparr>exit_status := True\<rparr>)) (\<lambda>_. raise Exit_Failure)
       else ret ()))"

definition error_max_reported_severity :: "('z error_state_scheme, ESeverityT) prog" where
  "error_max_reported_severity = gets max_reported"

text \<open>
  \<^verbatim>\<open>error_report\<close> of libexds, without the printing. \<open>abort\<close> and \<open>exit\<close> both end the process.
\<close>

definition error_report :: "ESeverityT \<Rightarrow> ('z error_state_scheme, unit) prog" where
  "error_report severity = bind (modify (\<lambda>s.
       if severity > max_reported s then s\<lparr>max_reported := severity\<rparr> else s)) (\<lambda>_.
     if severity \<ge> ERROR_SEVERITY_FATAL then raise Exit_Failure else ret ())"

text \<open>The guard at the end of every phase of the linker's front ends.\<close>

definition exit_on_error :: "('z error_state_scheme, unit) prog" where
  "exit_on_error = bind error_max_reported_severity (\<lambda>m.
     if m \<ge> ERROR_SEVERITY_ERROR then raise Exit_Failure else ret ())"

text \<open>A serious error followed by \<^verbatim>\<open>THROW\<close>.\<close>

definition error_throw :: "exn \<Rightarrow> ('z error_state_scheme, 'a) prog" where
  "error_throw e = bind (error_msg ERR_SERIOUS) (\<lambda>_. raise e)"

lemma error_msg_max_reported [simp]:
  "max_reported (snd (error_msg e s)) = max_reported s"
  by (cases e) (simp_all add: error_msg_def bind_def prog_simps)

lemma error_msg_warn [simp]: "number_errors s < maximum_errors \<Longrightarrow> error_msg ERR_WARN s = (Ret (), s)"
  by (simp add: error_msg_def bind_def prog_simps)

lemma error_msg_serious:
  "error_msg ERR_SERIOUS s =
     (if number_errors s + 1 < maximum_errors then Ret () else Raise Exit_Failure,
      s\<lparr>exit_status := True, number_errors := number_errors s + 1\<rparr>)"
  by (simp add: error_msg_def bind_def prog_simps maximum_errors_def)

lemma error_msg_fatal:
  "error_msg ERR_FATAL s = (Raise Exit_Failure, s\<lparr>exit_status := True\<rparr>)"
  by (simp add: error_msg_def bind_def prog_simps)

lemma error_throw_eq:
  "error_throw e s =
     (Raise (if number_errors s + 1 < maximum_errors then e else Exit_Failure),
      s\<lparr>exit_status := True, number_errors := number_errors s + 1\<rparr>)"
  by (simp add: error_throw_def error_msg_serious bind_def raise_def)

end
