(* ===== verification/Exds_String.thy ===== *)
theory Exds_String
  imports Prelude "HOL-Library.List_Lexorder"
begin

text \<open>
  The string types of libexds: length-counted strings (\<^verbatim>\<open>NStringT\<close>), growing strings
  (\<^verbatim>\<open>DStringT\<close>) and C strings, from \<^verbatim>\<open>dstring.c\<close>, \<^verbatim>\<open>cstring.c\<close> and \<^verbatim>\<open>syntax.c\<close>.
  An \<^verbatim>\<open>NStringT\<close> owns exactly \<^verbatim>\<open>length\<close> bytes and is that list of bytes; the pointer \<^verbatim>\<open>contents\<close>, which is null
  for the empty string, is not modelled. Where the code passes it to \<^verbatim>\<open>memcpy\<close>, \<^verbatim>\<open>memcmp\<close>, \<^verbatim>\<open>fread\<close> or \<^verbatim>\<open>fwrite\<close>
  the length is then zero, and the model takes such a call as one that does nothing, as implementations do; the
  standard asks for a valid pointer even there. A \<^verbatim>\<open>DStringT\<close> keeps its
  buffer, of which only the first \<^verbatim>\<open>length\<close> bytes are meaningful; a write outside the buffer is
  \<open>None\<close>, and the lemmas show that it does not happen. Plain \<^verbatim>\<open>char\<close> is signed.
\<close>

section \<open>The C library\<close>

fun memcmp :: "byte list \<Rightarrow> byte list \<Rightarrow> nat \<Rightarrow> int" where
  "memcmp (x # xs) (y # ys) (Suc n) =
     (if x < y then - 1 else if x > y then 1 else memcmp xs ys n)"
| "memcmp xs ys n = 0"

definition memcpy :: "byte list \<Rightarrow> nat \<Rightarrow> byte list \<Rightarrow> byte list option" where
  "memcpy buf off bs =
     (if off + length bs \<le> length buf
      then Some (take off buf @ bs @ drop (off + length bs) buf) else None)"

definition toupper :: "byte \<Rightarrow> byte" where
  "toupper c = (if 97 \<le> c \<and> c \<le> 122 then c - 32 else c)"

text \<open>The C string found at the start of a block of memory.\<close>

definition cstring_at :: "byte list \<Rightarrow> cstring" where
  "cstring_at mem = takeWhile (\<lambda>b. b \<noteq> 0) mem"

section \<open>syntax.c\<close>

definition SYNTAX_NO_VALUE :: int where
  "SYNTAX_NO_VALUE = - 1"

definition syntax_value :: "byte \<Rightarrow> int" where
  "syntax_value c =
     (if 48 \<le> c \<and> c \<le> 57 then int (unat c) - 48
      else if 65 \<le> c \<and> c \<le> 90 then int (unat c) - 65 + 10
      else if 97 \<le> c \<and> c \<le> 122 then int (unat c) - 97 + 10
      else SYNTAX_NO_VALUE)"

section \<open>NStringT\<close>

type_synonym NStringT = "byte list"

datatype CmpT = CMP_LT | CMP_EQ | CMP_GT

definition nstring_init :: NStringT where
  "nstring_init = []"

text \<open>The allocator clears what it returns.\<close>

definition nstring_init_length :: "nat \<Rightarrow> NStringT" where
  "nstring_init_length n = replicate n 0"

definition nstring_assign :: "NStringT \<Rightarrow> NStringT" where
  "nstring_assign from = from"

definition nstring_copy_cstring :: "cstring \<Rightarrow> NStringT" where
  "nstring_copy_cstring c = (if length c > 0 then take (length c) c else [])"

definition nstring_insert_cstring :: "NStringT \<Rightarrow> byte list \<Rightarrow> NStringT option" where
  "nstring_insert_cstring ns mem =
     (if length ns > 0 then
        (if length ns \<le> length mem then memcpy ns 0 (take (length ns) mem) else None)
      else Some ns)"

definition nstring_copy :: "NStringT \<Rightarrow> NStringT" where
  "nstring_copy from = (if length from > 0 then take (length from) from else [])"

definition nstring_to_cstring :: "NStringT \<Rightarrow> cstring" where
  "nstring_to_cstring ns = cstring_at (ns @ [0])"

fun nstring_hash_value :: "NStringT \<Rightarrow> cuint" where
  "nstring_hash_value [] = 0"
| "nstring_hash_value (c # cs) = scast c + nstring_hash_value cs"

definition nstring_compare :: "NStringT \<Rightarrow> NStringT \<Rightarrow> CmpT" where
  "nstring_compare a b =
     (let len = (if length a > length b then length b else length a);
          status = memcmp a b len
      in if status < 0 then CMP_LT
         else if status > 0 then CMP_GT
         else if length a < length b then CMP_LT
         else if length a > length b then CMP_GT
         else CMP_EQ)"

definition nstring_equal :: "NStringT \<Rightarrow> NStringT \<Rightarrow> bool" where
  "nstring_equal a b \<longleftrightarrow> length a = length b \<and> memcmp a b (length a) = 0"

fun nstring_ci_loop :: "byte list \<Rightarrow> byte list \<Rightarrow> bool" where
  "nstring_ci_loop (x # xs) (y # ys) = (if toupper x = toupper y then nstring_ci_loop xs ys else False)"
| "nstring_ci_loop _ _ = True"

definition nstring_ci_equal :: "NStringT \<Rightarrow> NStringT \<Rightarrow> bool" where
  "nstring_ci_equal a b = (if length a = length b then nstring_ci_loop a b else False)"

definition nstring_contains :: "NStringT \<Rightarrow> byte \<Rightarrow> bool" where
  "nstring_contains ns c = (c \<in> set ns)"

definition nstring_is_prefix :: "NStringT \<Rightarrow> NStringT \<Rightarrow> bool" where
  "nstring_is_prefix a b \<longleftrightarrow> length b < length a \<and> memcmp a b (length b) = 0"

section \<open>DStringT\<close>

record DStringT =
  ds_length :: nat
  ds_max_length :: nat
  ds_contents :: "byte list"

definition DSTRING_CHUNK_SIZE :: nat where
  "DSTRING_CHUNK_SIZE = 32"

definition dstring_init :: DStringT where
  "dstring_init = \<lparr>ds_length = 0, ds_max_length = DSTRING_CHUNK_SIZE,
     ds_contents = replicate DSTRING_CHUNK_SIZE 0\<rparr>"

text \<open>The new buffer of \<open>m\<close> bytes into which the old contents are copied.\<close>

definition dstring_regrow :: "DStringT \<Rightarrow> nat \<Rightarrow> DStringT option" where
  "dstring_regrow d m =
     map_option (\<lambda>tmp. d\<lparr>ds_max_length := m, ds_contents := tmp\<rparr>)
       (memcpy (replicate m 0) 0 (take (ds_length d) (ds_contents d)))"

definition dstring_append_char :: "DStringT \<Rightarrow> byte \<Rightarrow> DStringT option" where
  "dstring_append_char d c =
     Option.bind
       (if ds_length d \<ge> ds_max_length d
        then dstring_regrow d (ds_max_length d + DSTRING_CHUNK_SIZE) else Some d)
       (\<lambda>d. map_option (\<lambda>buf. d\<lparr>ds_contents := buf, ds_length := ds_length d + 1\<rparr>)
              (memcpy (ds_contents d) (ds_length d) [c]))"

text \<open>\<^verbatim>\<open>while (max_length < length) max_length += DSTRING_CHUNK_SIZE\<close>\<close>

function dstring_enlarge :: "nat \<Rightarrow> nat \<Rightarrow> nat" where
  "dstring_enlarge m len = (if m < len then dstring_enlarge (m + DSTRING_CHUNK_SIZE) len else m)"
  by pat_completeness auto
termination
  by (relation "measure (\<lambda>(m, len). len - m)") (auto simp: DSTRING_CHUNK_SIZE_def)

declare dstring_enlarge.simps [simp del]

definition dstring_append_bytes :: "DStringT \<Rightarrow> byte list \<Rightarrow> DStringT option" where
  "dstring_append_bytes d bs =
     (let len = length bs + ds_length d in
      Option.bind
        (if len > ds_max_length d
         then dstring_regrow d (dstring_enlarge (ds_max_length d) len) else Some d)
        (\<lambda>d. map_option (\<lambda>buf. d\<lparr>ds_contents := buf, ds_length := len\<rparr>)
               (memcpy (ds_contents d) (ds_length d) bs)))"

definition dstring_append_cstring :: "DStringT \<Rightarrow> cstring \<Rightarrow> DStringT option" where
  "dstring_append_cstring d c = dstring_append_bytes d c"

definition dstring_append_nstring :: "DStringT \<Rightarrow> NStringT \<Rightarrow> DStringT option" where
  "dstring_append_nstring d ns = dstring_append_bytes d ns"

definition dstring_last_char_equal :: "DStringT \<Rightarrow> byte \<Rightarrow> bool" where
  "dstring_last_char_equal d c \<longleftrightarrow> ds_length d \<noteq> 0 \<and> ds_contents d ! (ds_length d - 1) = c"

definition dstring_to_nstring :: "DStringT \<Rightarrow> NStringT" where
  "dstring_to_nstring d = (if ds_length d > 0 then take (ds_length d) (ds_contents d) else [])"

definition dstring_to_cstring :: "DStringT \<Rightarrow> cstring" where
  "dstring_to_cstring d = cstring_at (take (ds_length d) (ds_contents d) @ [0])"

definition dstring_destroy_to_cstring :: "DStringT \<Rightarrow> (cstring \<times> DStringT) option" where
  "dstring_destroy_to_cstring d =
     Option.bind
       (if ds_length d \<ge> ds_max_length d
        then memcpy (replicate (ds_length d + 1) 0) 0 (take (ds_length d) (ds_contents d))
        else Some (ds_contents d))
       (\<lambda>tmp. map_option
          (\<lambda>tmp. (cstring_at tmp, \<lparr>ds_length = 0, ds_max_length = 0, ds_contents = []\<rparr>))
          (memcpy tmp (ds_length d) [0]))"

section \<open>C strings\<close>

definition cstring_duplicate :: "cstring \<Rightarrow> cstring" where
  "cstring_duplicate c = cstring_at (c @ [0])"

definition cstring_duplicate_prefix :: "cstring \<Rightarrow> nat \<Rightarrow> cstring" where
  "cstring_duplicate_prefix c prefix =
     (if length c \<le> prefix then cstring_at (c @ [0]) else cstring_at (take prefix c @ [0]))"

fun cstring_hash_value :: "cstring \<Rightarrow> cuint" where
  "cstring_hash_value [] = 0"
| "cstring_hash_value (c # cs) = scast c + cstring_hash_value cs"

text \<open>The head of the list is the character pointed at; past the end it is the null byte.\<close>

fun cstring_ci_equal :: "cstring \<Rightarrow> cstring \<Rightarrow> bool" where
  "cstring_ci_equal [] [] = True"
| "cstring_ci_equal [] (y # ys) = (toupper y = 0)"
| "cstring_ci_equal (x # xs) [] = (toupper x = 0)"
| "cstring_ci_equal (x # xs) (y # ys) =
     (if toupper x \<noteq> 0 \<and> toupper y \<noteq> 0 \<and> toupper x = toupper y then cstring_ci_equal xs ys
      else toupper x = toupper y)"

fun cstring_to_unsigned_loop :: "cuint \<Rightarrow> cstring \<Rightarrow> cuint option" where
  "cstring_to_unsigned_loop number [] = Some number"
| "cstring_to_unsigned_loop number (c # cs) =
     (let value = syntax_value c in
      if value = SYNTAX_NO_VALUE \<or> value \<ge> 10 \<or> (UINT_MAX - word_of_int value) div 10 < number
      then None
      else cstring_to_unsigned_loop (number * 10 + word_of_int value) cs)"

definition cstring_to_unsigned :: "cstring \<Rightarrow> cuint option" where
  "cstring_to_unsigned c = (if c = [] then None else cstring_to_unsigned_loop 0 c)"

fun cstring_starts :: "cstring \<Rightarrow> cstring \<Rightarrow> bool" where
  "cstring_starts c [] = True"
| "cstring_starts [] (y # ys) = (y = 0)"
| "cstring_starts (x # xs) (y # ys) = (if x \<noteq> y then False else if x = 0 then True else cstring_starts xs ys)"

text \<open>\<^verbatim>\<open>strrchr\<close>: what follows the last slash.\<close>

definition cstring_find_basename :: "cstring \<Rightarrow> cstring" where
  "cstring_find_basename c =
     (if chr CHR ''/'' \<in> set c then rev (takeWhile (\<lambda>b. b \<noteq> chr CHR ''/'') (rev c)) else c)"

section \<open>Facts on NStringT\<close>

lemma memcmp_0_iff:
  "length xs = length ys \<Longrightarrow> memcmp xs ys (length xs) = 0 \<longleftrightarrow> xs = ys"
  by (induction xs ys rule: list_induct2) auto

lemma nstring_equal_iff [simp]: "nstring_equal a b \<longleftrightarrow> a = b"
  using memcmp_0_iff[of a b] by (auto simp: nstring_equal_def)

lemma nstring_copy_id [simp]: "nstring_copy a = a" "nstring_copy_cstring a = a" "nstring_assign a = a"
  by (auto simp: nstring_copy_def nstring_copy_cstring_def nstring_assign_def)

lemma nstring_insert_cstring_eq:
  "length ns \<le> length mem \<Longrightarrow> nstring_insert_cstring ns mem = Some (take (length ns) mem)"
  by (auto simp: nstring_insert_cstring_def memcpy_def)

lemma nstring_compare_Cons:
  "nstring_compare (x # xs) (y # ys) =
     (if x < y then CMP_LT else if y < x then CMP_GT else nstring_compare xs ys)"
  by (auto simp: nstring_compare_def Let_def)

lemma nstring_compare_lex:
  "nstring_compare a b = (if a < b then CMP_LT else if b < a then CMP_GT else CMP_EQ)"
proof (induction a arbitrary: b)
  case Nil
  show ?case by (cases b) (simp_all add: nstring_compare_def)
next
  case (Cons x xs)
  show ?case
  proof (cases b)
    case Nil
    then show ?thesis by (simp add: nstring_compare_def)
  next
    case (Cons y ys)
    then show ?thesis using Cons.IH[of ys] by (auto simp: nstring_compare_Cons)
  qed
qed

lemma memcmp_prefix:
  "length b \<le> length a \<Longrightarrow> memcmp a b (length b) = 0 \<longleftrightarrow> take (length b) a = b"
proof (induction a arbitrary: b)
  case Nil
  then show ?case by simp
next
  case (Cons x xs)
  then show ?case by (cases b) auto
qed

section \<open>Facts on DStringT\<close>

definition dstring_wf :: "DStringT \<Rightarrow> bool" where
  "dstring_wf d \<longleftrightarrow> ds_length d \<le> ds_max_length d \<and> length (ds_contents d) = ds_max_length d"

definition dstring_abs :: "DStringT \<Rightarrow> byte list" where
  "dstring_abs d = take (ds_length d) (ds_contents d)"

lemma dstring_wf_init [simp]: "dstring_wf dstring_init" "dstring_abs dstring_init = []"
  by (simp_all add: dstring_wf_def dstring_abs_def dstring_init_def)

lemma dstring_regrow_ok:
  assumes "dstring_wf d" "ds_length d \<le> m"
  shows "\<exists>d'. dstring_regrow d m = Some d' \<and> dstring_wf d' \<and> dstring_abs d' = dstring_abs d
    \<and> ds_length d' = ds_length d \<and> ds_max_length d' = m"
  using assms by (auto simp: dstring_regrow_def memcpy_def dstring_wf_def dstring_abs_def)

lemma dstring_enlarge_ge: "len \<le> dstring_enlarge m len \<and> m \<le> dstring_enlarge m len"
proof (induction m len rule: dstring_enlarge.induct)
  case (1 m len)
  show ?case
  proof (cases "m < len")
    case True
    with 1 have "len \<le> dstring_enlarge (m + DSTRING_CHUNK_SIZE) len"
      "m \<le> dstring_enlarge (m + DSTRING_CHUNK_SIZE) len" by auto
    with True show ?thesis by (subst (1 2) dstring_enlarge.simps) simp
  next
    case False
    then show ?thesis by (subst (1 2) dstring_enlarge.simps) simp
  qed
qed

text \<open>Writing \<open>bs\<close> behind the contents of a buffer with enough room.\<close>

lemma dstring_store_ok:
  assumes "dstring_wf d" "ds_length d + length bs \<le> ds_max_length d"
  shows "\<exists>buf. memcpy (ds_contents d) (ds_length d) bs = Some buf
    \<and> dstring_wf (d\<lparr>ds_contents := buf, ds_length := ds_length d + length bs\<rparr>)
    \<and> dstring_abs (d\<lparr>ds_contents := buf, ds_length := ds_length d + length bs\<rparr>) = dstring_abs d @ bs"
  using assms by (auto simp: memcpy_def dstring_wf_def dstring_abs_def)

lemma dstring_append_char_ok:
  assumes wf: "dstring_wf d"
  shows "\<exists>d'. dstring_append_char d c = Some d' \<and> dstring_wf d' \<and> dstring_abs d' = dstring_abs d @ [c]"
proof -
  have "ds_length d \<le> ds_max_length d + DSTRING_CHUNK_SIZE"
    using wf by (simp add: dstring_wf_def)
  then obtain e where e: "(if ds_length d \<ge> ds_max_length d
        then dstring_regrow d (ds_max_length d + DSTRING_CHUNK_SIZE) else Some d) = Some e"
    "dstring_wf e" "dstring_abs e = dstring_abs d" "ds_length e + 1 \<le> ds_max_length e"
    using wf dstring_regrow_ok[OF wf, of "ds_max_length d + DSTRING_CHUNK_SIZE"]
    by (cases "ds_length d \<ge> ds_max_length d") (auto simp: dstring_wf_def DSTRING_CHUNK_SIZE_def)
  with dstring_store_ok[of e "[c]"] show ?thesis
    by (auto simp: dstring_append_char_def)
qed

lemma dstring_append_bytes_ok:
  assumes wf: "dstring_wf d"
  shows "\<exists>d'. dstring_append_bytes d bs = Some d' \<and> dstring_wf d' \<and> dstring_abs d' = dstring_abs d @ bs"
proof -
  let ?len = "length bs + ds_length d"
  obtain e where e: "(if ?len > ds_max_length d
        then dstring_regrow d (dstring_enlarge (ds_max_length d) ?len) else Some d) = Some e"
    "dstring_wf e" "dstring_abs e = dstring_abs d" "ds_length e = ds_length d"
    "ds_length e + length bs \<le> ds_max_length e"
    using wf dstring_regrow_ok[OF wf, of "dstring_enlarge (ds_max_length d) ?len"]
      dstring_enlarge_ge[of ?len "ds_max_length d"]
    by (cases "?len > ds_max_length d") auto
  with dstring_store_ok[of e bs] show ?thesis
    by (auto simp: dstring_append_bytes_def Let_def add.commute)
qed

lemma dstring_to_nstring_abs [simp]: "dstring_to_nstring d = dstring_abs d"
  by (simp add: dstring_to_nstring_def dstring_abs_def)

lemma dstring_destroy_to_cstring_ok:
  assumes "dstring_wf d"
  shows "\<exists>d'. dstring_destroy_to_cstring d = Some (cstring_at (dstring_abs d), d') \<and> dstring_wf d' \<and> dstring_abs d' = []"
proof -
  have at: "cstring_at (xs @ 0 # ys) = cstring_at xs" for xs ys
    by (induction xs) (auto simp: cstring_at_def)
  show ?thesis
    using assms by (auto simp: dstring_destroy_to_cstring_def memcpy_def dstring_wf_def dstring_abs_def at)
qed

text \<open>
  What the lexers and parsers rely on: a buffer to which characters are appended one at a time
  holds exactly those characters. Their models keep the contents in place of the buffer.
\<close>

locale char_buffer =
  fixes init :: 'd
    and append :: "'d \<Rightarrow> byte \<Rightarrow> 'd option"
    and contents :: "'d \<Rightarrow> byte list"
    and invar :: "'d \<Rightarrow> bool"
  assumes init: "invar init" "contents init = []"
    and append: "invar d \<Longrightarrow> \<exists>d'. append d c = Some d' \<and> invar d' \<and> contents d' = contents d @ [c]"
begin

fun append_all :: "'d \<Rightarrow> byte list \<Rightarrow> 'd option" where
  "append_all d [] = Some d"
| "append_all d (c # cs) = Option.bind (append d c) (\<lambda>d. append_all d cs)"

lemma append_all:
  "invar d \<Longrightarrow> \<exists>d'. append_all d cs = Some d' \<and> invar d' \<and> contents d' = contents d @ cs"
proof (induction cs arbitrary: d)
  case Nil
  then show ?case by simp
next
  case (Cons c cs)
  obtain e where "append d c = Some e" "invar e" "contents e = contents d @ [c]"
    using append[OF Cons.prems] by blast
  with Cons.IH[of e] show ?case by auto
qed

lemma append_all_init: "\<exists>d. append_all init cs = Some d \<and> contents d = cs"
  using append_all[OF init(1), of cs] init(2) by auto

end

interpretation dstring: char_buffer dstring_init dstring_append_char dstring_abs dstring_wf
  by unfold_locales (simp_all add: dstring_append_char_ok)

section \<open>Decimal numbers\<close>

text \<open>The value of a decimal digit string, and which characters are digits.\<close>

definition is_digit :: "byte \<Rightarrow> bool" where
  "is_digit c \<longleftrightarrow> 48 \<le> c \<and> c \<le> 57"

definition decimal_value :: "nat \<Rightarrow> cstring \<Rightarrow> nat" where
  "decimal_value n c = foldl (\<lambda>n b. n * 10 + (unat b - 48)) n c"

lemma decimal_value_ge: "n \<le> decimal_value n c"
proof (induction c arbitrary: n)
  case (Cons b c)
  have "n \<le> n * 10 + (unat b - 48)" by simp
  also have "\<dots> \<le> decimal_value (n * 10 + (unat b - 48)) c" by (rule Cons.IH)
  finally show ?case by (simp add: decimal_value_def)
qed (simp add: decimal_value_def)

lemma syntax_value_digit:
  "syntax_value c = SYNTAX_NO_VALUE \<or> syntax_value c \<ge> 10 \<longleftrightarrow> \<not> is_digit c"
  "is_digit c \<Longrightarrow> syntax_value c = int (unat c - 48)"
  "is_digit c \<Longrightarrow> unat c - 48 < 10"
proof -
  show "syntax_value c = SYNTAX_NO_VALUE \<or> syntax_value c \<ge> 10 \<longleftrightarrow> \<not> is_digit c"
    by (auto simp: syntax_value_def SYNTAX_NO_VALUE_def is_digit_def word_le_def)
  show "is_digit c \<Longrightarrow> unat c - 48 < 10"
    by (auto simp: is_digit_def word_le_nat_alt)
  assume d: "is_digit c"
  then have "48 \<le> unat c" by (simp add: is_digit_def word_le_nat_alt)
  with d show "syntax_value c = int (unat c - 48)"
    by (simp add: syntax_value_def is_digit_def of_nat_diff)
qed

lemma uint_max_div_10:
  assumes "v < 10"
  shows "(UINT_MAX - of_nat v) div 10 < (number::cuint) \<longleftrightarrow> unat number * 10 + v \<ge> 4294967296"
proof -
  have "unat (UINT_MAX - of_nat v) = 4294967295 - v"
    using assms by (simp add: unat_UINT_MAX unat_sub_if_size unat_of_nat word_size word_le_nat_alt)
  then have "unat ((UINT_MAX - of_nat v) div 10) = (4294967295 - v) div 10"
    by (simp add: unat_div)
  then show ?thesis
    using assms by (simp add: word_less_nat_alt) arith
qed


lemma cstring_to_unsigned_loop_eq:
  "cstring_to_unsigned_loop number cs =
     (if (\<forall>b\<in>set cs. is_digit b) \<and> decimal_value (unat number) cs < 4294967296
      then Some (of_nat (decimal_value (unat number) cs)) else None)"
proof (induction cs arbitrary: number)
  case Nil
  show ?case using unat_less_2_32[of number] by (simp add: decimal_value_def)
next
  case (Cons b cs)
  show ?case
  proof (cases "is_digit b")
    case False
    with syntax_value_digit(1)[of b] show ?thesis by auto
  next
    case True
    let ?v = "unat b - 48"
    have v: "syntax_value b = int ?v" "?v < 10" "\<not> (syntax_value b = SYNTAX_NO_VALUE \<or> syntax_value b \<ge> 10)"
      using True syntax_value_digit[of b] by auto
    note guard = uint_max_div_10[OF v(2), of number]
    show ?thesis
    proof (cases "unat number * 10 + ?v < 4294967296")
      case True
      have "unat (number * 10 + of_nat ?v) = unat number * 10 + ?v"
        using True v(2) by (simp add: unat_word_ariths unat_of_nat)
      with True v guard Cons.IH[of "number * 10 + of_nat ?v"] \<open>is_digit b\<close> show ?thesis
        by (auto simp: Let_def decimal_value_def)
    next
      case False
      with v guard decimal_value_ge[of "unat number * 10 + ?v" cs] show ?thesis
        by (auto simp: Let_def decimal_value_def)
    qed
  qed
qed

end
