(* ===== verification/Tables.thy ===== *)
theory Tables
  imports Errors Exds_String "HOL-Library.Multiset"
begin

text \<open>
  Chained hash tables. The map, unit set, shape and name tables of \<^verbatim>\<open>tld/src/adt\<close> are arrays of
  buckets, each a chain of entries linked through their \<^verbatim>\<open>next\<close> fields. Here a table owns its
  entries: a pointer to an entry is its index in allocation order, and a chain is the list of the
  pointers met by following \<^verbatim>\<open>next\<close>. The locale at the end is the contract the four tables share;
  each component interprets it on its own operations.
\<close>

section \<open>Representation\<close>

record 'e table =
  entries :: "'e list"
  contents :: "nat list list"

definition table_create :: "nat \<Rightarrow> 'e table" where
  "table_create n = \<lparr>entries = [], contents = replicate n []\<rparr>"

text \<open>\<^verbatim>\<open>ALLOCATE\<close> of an entry, and the two ways the sources link one into its bucket.\<close>

definition table_alloc :: "'e \<Rightarrow> 'e table \<Rightarrow> nat \<times> 'e table" where
  "table_alloc e t = (length (entries t), t\<lparr>entries := entries t @ [e]\<rparr>)"

definition table_prepend :: "nat \<Rightarrow> nat \<Rightarrow> 'e table \<Rightarrow> 'e table" where
  "table_prepend i r t = t\<lparr>contents := (contents t)[i := r # contents t ! i]\<rparr>"

definition table_append :: "nat \<Rightarrow> nat \<Rightarrow> 'e table \<Rightarrow> 'e table" where
  "table_append i r t = t\<lparr>contents := (contents t)[i := contents t ! i @ [r]]\<rparr>"

definition table_set :: "nat \<Rightarrow> 'e \<Rightarrow> 'e table \<Rightarrow> 'e table" where
  "table_set r e t = t\<lparr>entries := (entries t)[r := e]\<rparr>"

text \<open>Walking a chain until an entry satisfies the test.\<close>

fun chain_find :: "('e \<Rightarrow> bool) \<Rightarrow> 'e list \<Rightarrow> nat list \<Rightarrow> nat option" where
  "chain_find p es [] = None"
| "chain_find p es (r # rs) = (if p (es ! r) then Some r else chain_find p es rs)"

text \<open>The order in which the \<^verbatim>\<open>_iter\<close> functions visit a table: bucket by bucket.\<close>

definition table_order :: "'e table \<Rightarrow> nat list" where
  "table_order t = concat (contents t)"

section \<open>Contract\<close>

text \<open>
  A table is well formed when every entry is linked exactly once, into the bucket of its key, and
  no two entries have the same key.
\<close>

definition table_wf :: "('e \<Rightarrow> 'k) \<Rightarrow> ('k \<Rightarrow> nat) \<Rightarrow> nat \<Rightarrow> 'e table \<Rightarrow> bool" where
  "table_wf key slot n t \<longleftrightarrow>
     length (contents t) = n \<and> distinct (map key (entries t)) \<and>
     (\<forall>i<n. distinct (contents t ! i) \<and>
       set (contents t ! i) = {r. r < length (entries t) \<and> slot (key (entries t ! r)) = i})"

lemma chain_find_Some:
  "chain_find p es rs = Some r \<Longrightarrow> r \<in> set rs \<and> p (es ! r)"
  by (induction rs) (auto split: if_splits)

lemma chain_find_None: "chain_find p es rs = None \<longleftrightarrow> (\<forall>r\<in>set rs. \<not> p (es ! r))"
  by (induction rs) auto

lemma table_alloc_simps [simp]:
  "fst (table_alloc e t) = length (entries t)"
  "entries (snd (table_alloc e t)) = entries t @ [e]"
  "contents (snd (table_alloc e t)) = contents t"
  by (simp_all add: table_alloc_def)

lemma entries_link [simp]:
  "entries (table_prepend i r t) = entries t" "entries (table_append i r t) = entries t"
  by (simp_all add: table_prepend_def table_append_def)

lemma table_set_simps [simp]:
  "entries (table_set r e t) = (entries t)[r := e]" "contents (table_set r e t) = contents t"
  by (simp_all add: table_set_def)

lemma map_list_update_same: "r < length xs \<Longrightarrow> f x = f (xs ! r) \<Longrightarrow> map f (xs[r := x]) = map f xs"
  by (metis list_update_id map_update)

lemma distinct_concat_nth:
  "(\<And>i. i < length xs \<Longrightarrow> distinct (xs ! i)) \<Longrightarrow>
   (\<And>i j. i < j \<Longrightarrow> j < length xs \<Longrightarrow> set (xs ! i) \<inter> set (xs ! j) = {}) \<Longrightarrow> distinct (concat xs)"
proof (induction xs)
  case (Cons x xs)
  have "distinct (concat xs)"
  proof (rule Cons.IH)
    show "distinct (xs ! i)" if "i < length xs" for i
      using Cons.prems(1)[of "Suc i"] that by simp
    show "set (xs ! i) \<inter> set (xs ! j) = {}" if "i < j" "j < length xs" for i j
      using Cons.prems(2)[of "Suc i" "Suc j"] that by simp
  qed
  moreover have "set x \<inter> set y = {}" if "y \<in> set xs" for y
  proof -
    from that obtain j where "j < length xs" "y = xs ! j" by (auto simp: in_set_conv_nth)
    then show ?thesis using Cons.prems(2)[of 0 "Suc j"] by simp
  qed
  ultimately show ?case using Cons.prems(1)[of 0] by auto
qed simp

locale chained_table =
  fixes key :: "'e \<Rightarrow> 'k"
    and slot :: "'k \<Rightarrow> nat"
    and n :: nat
    and link :: "nat \<Rightarrow> nat \<Rightarrow> 'e table \<Rightarrow> 'e table"
    and get :: "'e table \<Rightarrow> 'k \<Rightarrow> nat option"
  assumes slot_less: "slot k < n"
    and entries_linked: "entries (link i r t) = entries t"
    and contents_linked: "i < length (contents t) \<Longrightarrow>
      \<exists>chain. contents (link i r t) = (contents t)[i := chain]
        \<and> set chain = insert r (set (contents t ! i))
        \<and> (r \<notin> set (contents t ! i) \<longrightarrow> distinct (contents t ! i) \<longrightarrow> distinct chain)"
    and get_walks: "get t k = chain_find (\<lambda>e. key e = k) (entries t) (contents t ! slot k)"
begin

abbreviation wf :: "'e table \<Rightarrow> bool" where
  "wf \<equiv> table_wf key slot n"

lemma create_wf: "wf (table_create n)"
  by (simp add: table_wf_def table_create_def)

lemma get_create: "get (table_create n) k = None"
  using slot_less[of k] by (simp add: get_walks table_create_def)

lemma get_Some_iff:
  assumes "wf t"
  shows "get t k = Some r \<longleftrightarrow> r < length (entries t) \<and> key (entries t ! r) = k"
proof -
  have s: "set (contents t ! slot k) = {r. r < length (entries t) \<and> slot (key (entries t ! r)) = slot k}"
    using assms slot_less[of k] by (simp add: table_wf_def)
  have uniq: "r = r'" if "r < length (entries t)" "r' < length (entries t)"
    "key (entries t ! r) = key (entries t ! r')" for r r'
    using assms that by (simp add: table_wf_def distinct_conv_nth) metis
  show ?thesis
  proof
    assume "get t k = Some r"
    then show "r < length (entries t) \<and> key (entries t ! r) = k"
      using s by (auto simp: get_walks dest: chain_find_Some)
  next
    assume r: "r < length (entries t) \<and> key (entries t ! r) = k"
    then obtain r' where r': "get t k = Some r'"
      using s by (cases "get t k") (auto simp: get_walks chain_find_None)
    then have "r' < length (entries t) \<and> key (entries t ! r') = k"
      using s by (auto simp: get_walks dest: chain_find_Some)
    with r r' uniq show "get t k = Some r" by auto
  qed
qed

lemma get_None_iff: "wf t \<Longrightarrow> get t k = None \<longleftrightarrow> k \<notin> key ` set (entries t)"
proof -
  assume wf: "wf t"
  have "k \<in> key ` set (entries t) \<longleftrightarrow> (\<exists>r. r < length (entries t) \<and> key (entries t ! r) = k)"
    by (metis (no_types, opaque_lifting) image_iff in_set_conv_nth)
  also have "\<dots> \<longleftrightarrow> (\<exists>r. get t k = Some r)" by (simp add: get_Some_iff[OF wf])
  finally show ?thesis by auto
qed

text \<open>Insertion: allocate an entry with a new key and link it.\<close>

definition insert_entry :: "'e \<Rightarrow> 'e table \<Rightarrow> 'e table" where
  "insert_entry e t = link (slot (key e)) (length (entries t)) (snd (table_alloc e t))"

lemma insert_entries [simp]: "entries (insert_entry e t) = entries t @ [e]"
  by (simp add: insert_entry_def entries_linked)

lemma insert_wf:
  assumes wf: "wf t" and new: "get t (key e) = None"
  shows "wf (insert_entry e t)"
proof -
  let ?i = "slot (key e)" and ?r = "length (entries t)"
  have len: "length (contents t) = n" using wf by (simp add: table_wf_def)
  obtain chain where c: "contents (insert_entry e t) = (contents t)[?i := chain]"
    "set chain = insert ?r (set (contents t ! ?i))"
    "?r \<notin> set (contents t ! ?i) \<longrightarrow> distinct (contents t ! ?i) \<longrightarrow> distinct chain"
    using contents_linked[of ?i "snd (table_alloc e t)" ?r] slot_less[of "key e"] len
    by (auto simp: insert_entry_def)
  have sets: "distinct (contents t ! i)"
    "set (contents t ! i) = {r. r < length (entries t) \<and> slot (key (entries t ! r)) = i}" if "i < n" for i
    using wf that by (simp_all add: table_wf_def)
  have "distinct (map key (entries t @ [e]))"
    using wf new get_None_iff[OF wf] by (simp add: table_wf_def)
  moreover have "distinct (contents (insert_entry e t) ! i) \<and> set (contents (insert_entry e t) ! i)
      = {r. r < Suc (length (entries t)) \<and> slot (key ((entries t @ [e]) ! r)) = i}" if "i < n" for i
  proof (cases "i = ?i")
    case True
    with sets[OF that] c len that show ?thesis
      by (auto simp: nth_append less_Suc_eq)
  next
    case False
    with sets[OF that] c len that show ?thesis
      by (auto simp: nth_append less_Suc_eq)
  qed
  ultimately show ?thesis
    using c(1) len by (simp add: table_wf_def)
qed

lemma get_insert:
  assumes "wf t" "get t (key e) = None"
  shows "get (insert_entry e t) k = (if k = key e then Some (length (entries t)) else get t k)"
proof (cases "k = key e")
  case True
  then show ?thesis
    using get_Some_iff[OF insert_wf[OF assms], of k "length (entries t)"] by simp
next
  case False
  have "get (insert_entry e t) k = Some r \<longleftrightarrow> get t k = Some r" for r
    using False get_Some_iff[OF insert_wf[OF assms], of k r] get_Some_iff[OF assms(1), of k r]
    by (auto simp: nth_append less_Suc_eq)
  with False show ?thesis by (metis not_Some_eq)
qed

text \<open>Changing an entry in place, its key apart, changes no lookup.\<close>

lemma set_wf: "wf t \<Longrightarrow> r < length (entries t) \<Longrightarrow> key e = key (entries t ! r) \<Longrightarrow> wf (table_set r e t)"
  by (auto simp: table_wf_def map_list_update_same nth_list_update split: if_splits)

lemma get_set:
  assumes "wf t" "r < length (entries t)" "key e = key (entries t ! r)"
  shows "get (table_set r e t) k = get t k"
proof -
  have "get (table_set r e t) k = Some q \<longleftrightarrow> get t k = Some q" for q
    using get_Some_iff[OF set_wf[OF assms], of k q] get_Some_iff[OF assms(1), of k q] assms
    by (auto simp: nth_list_update)
  then show ?thesis by (metis not_Some_eq)
qed

text \<open>Iteration visits every entry exactly once.\<close>

lemma order_distinct: "wf t \<Longrightarrow> distinct (table_order t)"
  unfolding table_order_def
  by (rule distinct_concat_nth) (auto simp: table_wf_def)

lemma order_set: "wf t \<Longrightarrow> set (table_order t) = {..<length (entries t)}"
proof -
  assume wf: "wf t"
  have "set (table_order t) = (\<Union>i<n. set (contents t ! i))"
    using wf set_conv_nth[of "contents t"] by (auto simp: table_order_def table_wf_def)
  also have "\<dots> = (\<Union>i<n. {r. r < length (entries t) \<and> slot (key (entries t ! r)) = i})"
    using wf by (simp add: table_wf_def)
  also have "\<dots> = {..<length (entries t)}" using slot_less by auto
  finally show ?thesis .
qed

lemma order_mset: "wf t \<Longrightarrow> mset (table_order t) = mset [0..<length (entries t)]"
  by (rule set_eq_iff_mset_eq_distinct [THEN iffD1]) (simp_all add: order_distinct order_set atLeast_upt)

end

section \<open>The two disciplines\<close>

lemma contents_prepend:
  "i < length (contents t) \<Longrightarrow> \<exists>chain. contents (table_prepend i r t) = (contents t)[i := chain]
     \<and> set chain = insert r (set (contents t ! i))
     \<and> (r \<notin> set (contents t ! i) \<longrightarrow> distinct (contents t ! i) \<longrightarrow> distinct chain)"
  by (rule exI [of _ "r # contents t ! i"]) (simp add: table_prepend_def)

lemma contents_append:
  "i < length (contents t) \<Longrightarrow> \<exists>chain. contents (table_append i r t) = (contents t)[i := chain]
     \<and> set chain = insert r (set (contents t ! i))
     \<and> (r \<notin> set (contents t ! i) \<longrightarrow> distinct (contents t ! i) \<longrightarrow> distinct chain)"
  by (rule exI [of _ "contents t ! i @ [r]"]) (simp add: table_append_def)

end
