(* ===== verification/Exds_Stream.thy ===== *)
theory Exds_Stream
  imports Exds_String
begin

text \<open>
  The binary streams of libexds, \<^verbatim>\<open>bistream.c\<close> and \<^verbatim>\<open>bostream.c\<close>, over a model of the standard
  library's files. An input file is its bytes, the position of the next read and, for a device that
  fails, the position from which every read fails. An output file is the bytes written to it and,
  for a device that fills up, the number of bytes it accepts and the number of bytes that the stream buffers:
  a write fails when it goes beyond both, and what is still in the buffer when the file is closed or flushed
  is lost when it goes beyond the first.
\<close>

section \<open>Files\<close>

record ifile =
  if_data :: "byte list"
  if_pos :: nat
  if_fail :: "nat option"

record ofile =
  of_data :: "byte list"
  of_limit :: "(nat \<times> nat) option"

text \<open>The number of bytes that can be read from the file before its end or its failure.\<close>

definition if_avail :: "ifile \<Rightarrow> nat" where
  "if_avail f = (case if_fail f of None \<Rightarrow> length (if_data f) | Some k \<Rightarrow> min k (length (if_data f))) - if_pos f"

text \<open>Whether reading one byte more than is available fails (and does not merely meet the end).\<close>

definition if_ferror :: "ifile \<Rightarrow> bool" where
  "if_ferror f = (case if_fail f of None \<Rightarrow> False | Some k \<Rightarrow> k \<le> length (if_data f))"

definition fread :: "nat \<Rightarrow> ifile \<Rightarrow> byte list \<times> bool \<times> ifile" where
  "fread n f =
     (let cnt = min n (if_avail f) in
      (take cnt (drop (if_pos f) (if_data f)), cnt < n \<and> if_ferror f, f\<lparr>if_pos := if_pos f + cnt\<rparr>))"

definition fwrite :: "byte list \<Rightarrow> ofile \<Rightarrow> bool \<times> ofile" where
  "fwrite bs f =
     (case of_limit f of
        None \<Rightarrow> (True, f\<lparr>of_data := of_data f @ bs\<rparr>)
      | Some (k, buffer) \<Rightarrow>
          if length (of_data f) + length bs \<le> k + buffer then (True, f\<lparr>of_data := of_data f @ bs\<rparr>)
          else (False, f\<lparr>of_data := of_data f @ take (k + buffer - length (of_data f)) bs\<rparr>))"

text \<open>Whether \<^verbatim>\<open>fclose\<close> and \<^verbatim>\<open>fflush\<close> succeed.\<close>

definition fclose :: "ofile \<Rightarrow> bool" where
  "fclose f = (case of_limit f of None \<Rightarrow> True | Some (k, buffer) \<Rightarrow> length (of_data f) \<le> k)"

section \<open>bistream.c\<close>

record BIStreamT =
  bi_file :: ifile
  bi_bytes :: nat
  bi_name :: "cstring option"

definition bistream_open :: "(cstring \<Rightarrow> ifile option) \<Rightarrow> cstring \<Rightarrow> BIStreamT option" where
  "bistream_open fs name =
     (case fs name of
        None \<Rightarrow> None
      | Some f \<Rightarrow> Some \<lparr>bi_file = f\<lparr>if_pos := 0\<rparr>, bi_bytes = 0, bi_name = Some name\<rparr>)"

definition bistream_read_chars :: "nat \<Rightarrow> (BIStreamT, byte list) prog" where
  "bistream_read_chars n b =
     (case fread n (bi_file b) of (bs, ferror, f) \<Rightarrow>
        if length bs = 0 \<and> ferror then (Raise XX_bistream_read_error, b\<lparr>bi_file := f\<rparr>)
        else (Ret bs, b\<lparr>bi_file := f, bi_bytes := bi_bytes b + length bs\<rparr>))"

text \<open>\<^verbatim>\<open>fgetc\<close> returns \<^verbatim>\<open>EOF\<close> with the error or the end-of-file indicator set.\<close>

definition bistream_read_byte :: "(BIStreamT, byte option) prog" where
  "bistream_read_byte b =
     (case fread 1 (bi_file b) of (bs, ferror, f) \<Rightarrow>
        (case bs of
           [] \<Rightarrow> if ferror then (Raise XX_bistream_read_error, b\<lparr>bi_file := f\<rparr>)
                 else (Ret None, b\<lparr>bi_file := f\<rparr>)
         | c # _ \<Rightarrow> (Ret (Some c), b\<lparr>bi_file := f, bi_bytes := bi_bytes b + 1\<rparr>)))"

definition bistream_byte :: "BIStreamT \<Rightarrow> nat" where
  "bistream_byte b = bi_bytes b"

text \<open>Rewinding the file does not reset the byte count.\<close>

definition bistream_rewind :: "BIStreamT \<Rightarrow> BIStreamT" where
  "bistream_rewind b = b\<lparr>bi_file := (bi_file b)\<lparr>if_pos := 0\<rparr>\<rparr>"

definition bistream_close :: "BIStreamT \<Rightarrow> BIStreamT" where
  "bistream_close b = b\<lparr>bi_name := None\<rparr>"

section \<open>bostream.c\<close>

record BOStreamT =
  bo_file :: ofile
  bo_name :: "cstring option"

definition bostream_open :: "(cstring \<Rightarrow> ofile option) \<Rightarrow> cstring \<Rightarrow> BOStreamT option" where
  "bostream_open fs name =
     (case fs name of
        None \<Rightarrow> None
      | Some f \<Rightarrow> Some \<lparr>bo_file = f\<lparr>of_data := []\<rparr>, bo_name = Some name\<rparr>)"

definition bostream_write_chars :: "byte list \<Rightarrow> (BOStreamT, unit) prog" where
  "bostream_write_chars bs b =
     (case fwrite bs (bo_file b) of (ok, f) \<Rightarrow>
        (if ok then Ret () else Raise XX_bostream_write_error, b\<lparr>bo_file := f\<rparr>))"

definition bostream_write_byte :: "byte \<Rightarrow> (BOStreamT, unit) prog" where
  "bostream_write_byte c b =
     (case fwrite [c] (bo_file b) of (ok, f) \<Rightarrow>
        (if ok then Ret () else Raise XX_bostream_write_error, b\<lparr>bo_file := f\<rparr>))"

definition bostream_init :: "BOStreamT \<Rightarrow> BOStreamT" where
  "bostream_init b = b\<lparr>bo_name := None\<rparr>"

definition bostream_close :: "(BOStreamT, unit) prog" where
  "bostream_close = bind (gets (\<lambda>b. fclose (bo_file b))) (\<lambda>ok.
     if \<not> ok then raise XX_bostream_write_error else modify bostream_init)"

section \<open>Facts\<close>

text \<open>What is left to read, and streams on devices that do not fail.\<close>

definition bi_rest :: "BIStreamT \<Rightarrow> byte list" where
  "bi_rest b = drop (if_pos (bi_file b)) (if_data (bi_file b))"

definition bi_sound :: "BIStreamT \<Rightarrow> bool" where
  "bi_sound b \<longleftrightarrow> if_fail (bi_file b) = None"

definition bo_sound :: "BOStreamT \<Rightarrow> bool" where
  "bo_sound b \<longleftrightarrow> of_limit (bo_file b) = None"

definition bo_data :: "BOStreamT \<Rightarrow> byte list" where
  "bo_data b = of_data (bo_file b)"

lemma bistream_read_byte_sound:
  assumes "bi_sound b"
  shows "bi_rest b = c # cs \<Longrightarrow>
      \<exists>b'. bistream_read_byte b = (Ret (Some c), b') \<and> bi_rest b' = cs \<and> bi_sound b'
         \<and> bi_bytes b' = bi_bytes b + 1 \<and> bi_name b' = bi_name b"
    and "bi_rest b = [] \<Longrightarrow> bistream_read_byte b = (Ret None, b)"
proof -
  assume r: "bi_rest b = c # cs"
  then have "if_pos (bi_file b) < length (if_data (bi_file b))"
    by (metis bi_rest_def drop_all list.distinct(1) not_less)
  moreover from this r have "drop (Suc (if_pos (bi_file b))) (if_data (bi_file b)) = cs"
    "if_data (bi_file b) ! if_pos (bi_file b) = c"
    by (simp_all add: bi_rest_def drop_eq_Cons_nth)
  ultimately show "\<exists>b'. bistream_read_byte b = (Ret (Some c), b') \<and> bi_rest b' = cs \<and> bi_sound b'
      \<and> bi_bytes b' = bi_bytes b + 1 \<and> bi_name b' = bi_name b"
    using assms
    by (simp add: bistream_read_byte_def fread_def if_avail_def Let_def bi_sound_def bi_rest_def
        drop_eq_Cons_nth min_def)
next
  assume "bi_rest b = []"
  with assms show "bistream_read_byte b = (Ret None, b)"
    by (simp add: bistream_read_byte_def fread_def if_avail_def Let_def bi_sound_def bi_rest_def
        if_ferror_def)
qed

lemma bistream_read_chars_sound:
  assumes "bi_sound b"
  shows "\<exists>b'. bistream_read_chars n b = (Ret (take n (bi_rest b)), b')
    \<and> bi_rest b' = drop n (bi_rest b) \<and> bi_sound b'
    \<and> bi_bytes b' = bi_bytes b + length (take n (bi_rest b)) \<and> bi_name b' = bi_name b"
  using assms
  by (simp add: bistream_read_chars_def fread_def if_avail_def if_ferror_def Let_def bi_sound_def
      bi_rest_def min_def add.commute)

lemma bostream_write_sound:
  assumes "bo_sound b"
  shows "\<exists>b'. bostream_write_chars bs b = (Ret (), b') \<and> bo_sound b' \<and> bo_data b' = bo_data b @ bs
      \<and> bo_name b' = bo_name b"
    and "\<exists>b'. bostream_write_byte c b = (Ret (), b') \<and> bo_sound b' \<and> bo_data b' = bo_data b @ [c]
      \<and> bo_name b' = bo_name b"
  using assms
  by (simp_all add: bostream_write_chars_def bostream_write_byte_def fwrite_def bo_sound_def bo_data_def)

lemma bostream_close_sound:
  assumes "bo_sound b"
  shows "bostream_close b = (Ret (), bostream_init b)"
  using assms by (simp add: bostream_close_def bo_sound_def fclose_def bind_def prog_simps)

section \<open>Byte sources\<close>

text \<open>
  What the binary and the text input stream promise alike: the bytes of the file one after the
  other, then the end of the file again and again.
\<close>

fun next_bytes :: "('i, byte option) prog \<Rightarrow> nat \<Rightarrow> ('i, byte option list) prog" where
  "next_bytes nxt 0 = ret []"
| "next_bytes nxt (Suc n) = bind nxt (\<lambda>c. bind (next_bytes nxt n) (\<lambda>cs. ret (c # cs)))"

locale byte_source =
  fixes nxt :: "('i, byte option) prog" and rest :: "'i \<Rightarrow> byte list" and sound :: "'i \<Rightarrow> bool"
  assumes next_Cons: "sound i \<Longrightarrow> rest i = c # cs \<Longrightarrow> \<exists>j. nxt i = (Ret (Some c), j) \<and> sound j \<and> rest j = cs"
    and next_Nil: "sound i \<Longrightarrow> rest i = [] \<Longrightarrow> \<exists>j. nxt i = (Ret None, j) \<and> sound j \<and> rest j = []"
begin

lemma next_bytes_rest:
  "sound i \<Longrightarrow> \<exists>j. next_bytes nxt n i = (Ret (map Some (take n (rest i)) @ replicate (n - length (rest i)) None), j)
     \<and> sound j \<and> rest j = drop n (rest i)"
proof (induction n arbitrary: i)
  case 0
  then show ?case by (simp add: ret_def)
next
  case (Suc n)
  show ?case
  proof (cases "rest i")
    case Nil
    from next_Nil[OF Suc.prems Nil] obtain j where "nxt i = (Ret None, j)" "sound j" "rest j = []" by blast
    with Suc.IH[of j] Nil show ?thesis by (auto simp: bind_def ret_def)
  next
    case (Cons c cs)
    from next_Cons[OF Suc.prems Cons] obtain j where "nxt i = (Ret (Some c), j)" "sound j" "rest j = cs" by blast
    with Suc.IH[of j] Cons show ?thesis by (auto simp: bind_def ret_def)
  qed
qed

end

interpretation bistream: byte_source bistream_read_byte bi_rest bi_sound
proof
  fix i :: BIStreamT and c cs
  assume i: "bi_sound i"
  show "bi_rest i = c # cs \<Longrightarrow> \<exists>j. bistream_read_byte i = (Ret (Some c), j) \<and> bi_sound j \<and> bi_rest j = cs"
    using bistream_read_byte_sound(1)[OF i] by blast
  show "bi_rest i = [] \<Longrightarrow> \<exists>j. bistream_read_byte i = (Ret None, j) \<and> bi_sound j \<and> bi_rest j = []"
    using bistream_read_byte_sound(2)[OF i] i by simp
qed

end
