(* ===== verification/Exds_Istream.thy ===== *)
theory Exds_Istream
  imports Exds_String Exds_Stream
begin

text \<open>
  The text input stream of \<^verbatim>\<open>libexds/src/istream.c\<close> and the macros of \<^verbatim>\<open>istream.h\<close>. The buffer is the list
  of the characters from \<^verbatim>\<open>buffer\<close> to \<^verbatim>\<open>end\<close>, the null character behind the data included, so \<^verbatim>\<open>end\<close> is
  its length and \<^verbatim>\<open>limit\<close> is \<^verbatim>\<open>ISTREAM_BUFSIZE\<close>. Reading at or behind \<^verbatim>\<open>end\<close> is undefined.
\<close>

section \<open>Model\<close>

definition ISTREAM_BUFSIZE :: nat where
  "ISTREAM_BUFSIZE = 8193"

record IStreamT =
  is_file :: ifile
  is_buffer :: "byte list"
  is_current :: nat
  is_line :: cuint
  is_name :: "cstring option"
  is_read_last :: bool

definition istream_init :: "IStreamT \<Rightarrow> IStreamT" where
  "istream_init istream = istream\<lparr>is_name := None\<rparr>"

definition X__istream_fill_buffer :: "(IStreamT, unit) prog" where
  "X__istream_fill_buffer i =
     (case fread (ISTREAM_BUFSIZE - 1) (is_file i) of (bs, ferror, f) \<Rightarrow>
        if length bs = 0 \<and> ferror then (Raise XX_istream_read_error, i\<lparr>is_file := f\<rparr>)
        else (Ret (), i\<lparr>is_file := f, is_buffer := bs @ [0], is_current := 0, is_read_last := False\<rparr>))"

definition istream_open :: "(cstring \<Rightarrow> ifile option) \<Rightarrow> cstring \<Rightarrow> (IStreamT, bool) prog" where
  "istream_open fs name i =
     (case fs name of
        None \<Rightarrow> (Ret False, i)
      | Some f \<Rightarrow>
          bind X__istream_fill_buffer (\<lambda>_. ret True)
            (i\<lparr>is_file := f\<lparr>if_pos := 0\<rparr>, is_buffer := [], is_line := 1, is_name := Some name\<rparr>))"

definition istream_is_open :: "IStreamT \<Rightarrow> bool" where
  "istream_is_open i = (is_name i \<noteq> None)"

definition ISTREAM_READ_CHAR :: "(IStreamT, byte) prog" where
  "ISTREAM_READ_CHAR i =
     (if is_current i < length (is_buffer i)
      then (Ret (is_buffer i ! is_current i), i\<lparr>is_read_last := True, is_current := is_current i + 1\<rparr>)
      else (Raise Undefined, i))"

definition ISTREAM_PEEK_CHAR :: "(IStreamT, byte) prog" where
  "ISTREAM_PEEK_CHAR i =
     (if is_current i < length (is_buffer i)
      then (Ret (is_buffer i ! is_current i), i\<lparr>is_read_last := False\<rparr>)
      else (Raise Undefined, i))"

text \<open>The three ways out of \<^verbatim>\<open>ISTREAM_HANDLE_NULL\<close>: falling through and its two labels.\<close>

datatype null_exit = Null_Char | Redo | Eof

definition ISTREAM_HANDLE_NULL :: "(IStreamT, null_exit) prog" where
  "ISTREAM_HANDLE_NULL i =
     (if is_read_last i then
        if is_current i = length (is_buffer i) then
          if length (is_buffer i) = ISTREAM_BUFSIZE then bind X__istream_fill_buffer (\<lambda>_. ret Redo) i
          else (Ret Eof, i\<lparr>is_current := is_current i - 1\<rparr>)
        else (Ret Null_Char, i)
      else
        if is_current i = length (is_buffer i) - 1 then
          if length (is_buffer i) = ISTREAM_BUFSIZE then bind X__istream_fill_buffer (\<lambda>_. ret Redo) i
          else (Ret Eof, i)
        else (Ret Null_Char, i))"

text \<open>
  What every caller does with the macros: a null character is handled and either read, or read
  again behind the label \<^verbatim>\<open>redo\<close>, or the end of the file. The second reading never meets \<^verbatim>\<open>redo\<close> again.
\<close>

lemma fill_buffer_Ret:
  "X__istream_fill_buffer i = (Ret x, i') \<Longrightarrow> is_current i' = 0 \<and>
     length (is_buffer i') = Suc (min (ISTREAM_BUFSIZE - 1) (if_avail (is_file i))) \<and>
     is_file i' = (is_file i)\<lparr>if_pos := if_pos (is_file i) + min (ISTREAM_BUFSIZE - 1) (if_avail (is_file i))\<rparr>"
  by (auto simp: X__istream_fill_buffer_def fread_def Let_def if_avail_def split: prod.splits if_splits option.splits)

lemma handle_null_redo:
  "ISTREAM_HANDLE_NULL i = (Ret Redo, i') \<Longrightarrow> X__istream_fill_buffer i = (Ret (), i') \<and>
     length (is_buffer i) = ISTREAM_BUFSIZE \<and> is_current i = length (is_buffer i) - (if is_read_last i then 0 else 1)"
  by (auto simp: ISTREAM_HANDLE_NULL_def bind_Ret_iff ret_def split: if_splits)

lemma read_char_Ret:
  "ISTREAM_READ_CHAR i = (Ret c, j) \<longleftrightarrow> is_current i < length (is_buffer i) \<and> c = is_buffer i ! is_current i \<and>
     j = i\<lparr>is_read_last := True, is_current := is_current i + 1\<rparr>"
  by (auto simp: ISTREAM_READ_CHAR_def)

lemma peek_char_Ret:
  "ISTREAM_PEEK_CHAR i = (Ret c, j) \<longleftrightarrow> is_current i < length (is_buffer i) \<and> c = is_buffer i ! is_current i \<and>
     j = i\<lparr>is_read_last := False\<rparr>"
  by (auto simp: ISTREAM_PEEK_CHAR_def)

definition at_sentinel :: "IStreamT \<Rightarrow> bool" where
  "at_sentinel i \<longleftrightarrow> is_current i + 1 = length (is_buffer i) \<and> length (is_buffer i) = ISTREAM_BUFSIZE"

lemma redo_sentinel:
  assumes "ISTREAM_HANDLE_NULL j = (Ret Redo, k)"
  shows "ISTREAM_READ_CHAR i = (Ret c, j) \<Longrightarrow> at_sentinel i \<and> \<not> at_sentinel k"
    and "ISTREAM_PEEK_CHAR i = (Ret c, j) \<Longrightarrow> at_sentinel i \<and> \<not> at_sentinel k"
proof -
  have k: "\<not> at_sentinel k"
    using handle_null_redo[OF assms] fill_buffer_Ret[of j "()" k] by (auto simp: at_sentinel_def ISTREAM_BUFSIZE_def)
  show "ISTREAM_READ_CHAR i = (Ret c, j) \<Longrightarrow> at_sentinel i \<and> \<not> at_sentinel k"
    using k handle_null_redo[OF assms] by (auto simp: read_char_Ret at_sentinel_def)
  show "ISTREAM_PEEK_CHAR i = (Ret c, j) \<Longrightarrow> at_sentinel i \<and> \<not> at_sentinel k"
    using k handle_null_redo[OF assms] by (auto simp: peek_char_Ret at_sentinel_def)
qed

function istream_next :: "IStreamT \<Rightarrow> byte option outcome \<times> IStreamT" where
  "istream_next i = bind ISTREAM_READ_CHAR (\<lambda>c j.
     if c = 0 then bind ISTREAM_HANDLE_NULL (\<lambda>e k. case e of
         Null_Char \<Rightarrow> (Ret (Some 0), k) | Redo \<Rightarrow> istream_next k | Eof \<Rightarrow> (Ret None, k)) j
     else (Ret (Some c), j)) i"
  by pat_completeness auto
termination
  by (relation "measure (\<lambda>i. if at_sentinel i then 1 else 0)") (auto dest: redo_sentinel(1))

function istream_look :: "IStreamT \<Rightarrow> byte option outcome \<times> IStreamT" where
  "istream_look i = bind ISTREAM_PEEK_CHAR (\<lambda>c j.
     if c = 0 then bind ISTREAM_HANDLE_NULL (\<lambda>e k. case e of
         Null_Char \<Rightarrow> (Ret (Some 0), k) | Redo \<Rightarrow> istream_look k | Eof \<Rightarrow> (Ret None, k)) j
     else (Ret (Some c), j)) i"
  by pat_completeness auto
termination
  by (relation "measure (\<lambda>i. if at_sentinel i then 1 else 0)") (auto dest: redo_sentinel(2))

declare istream_next.simps [simp del] istream_look.simps [simp del]

definition istream_inc_line :: "IStreamT \<Rightarrow> IStreamT" where
  "istream_inc_line i = i\<lparr>is_line := is_line i + 1\<rparr>"

definition istream_line :: "IStreamT \<Rightarrow> cuint" where
  "istream_line i = is_line i"

definition istream_read_char :: "(IStreamT, byte option) prog" where
  "istream_read_char = bind istream_next (\<lambda>c.
     bind (if c = Some 10 then modify istream_inc_line else ret ()) (\<lambda>_. ret c))"

definition istream_peek_char :: "(IStreamT, byte option) prog" where
  "istream_peek_char = istream_look"

datatype IStreamStatusT = ISTREAM_STAT_READ_CHAR byte | ISTREAM_STAT_NO_CHAR | ISTREAM_STAT_SYNTAX_ERROR

text \<open>One digit; \<^verbatim>\<open>None\<close> stands for the return of \<^verbatim>\<open>ISTREAM_STAT_SYNTAX_ERROR\<close>.\<close>

definition istream_read_hex_digit :: "(IStreamT, int option) prog" where
  "istream_read_hex_digit = bind istream_next (\<lambda>c. case c of
       None \<Rightarrow> ret None
     | Some c \<Rightarrow>
         if c = 0 then ret None
         else if c = 10 then bind (modify istream_inc_line) (\<lambda>_. ret None)
         else if syntax_value c = SYNTAX_NO_VALUE \<or> syntax_value c \<ge> 16 then ret None
         else ret (Some (syntax_value c)))"

definition istream_read_hex_char :: "(IStreamT, IStreamStatusT) prog" where
  "istream_read_hex_char = bind istream_read_hex_digit (\<lambda>tmp. case tmp of
       None \<Rightarrow> ret ISTREAM_STAT_SYNTAX_ERROR
     | Some tmp \<Rightarrow> bind istream_read_hex_digit (\<lambda>value. case value of
         None \<Rightarrow> ret ISTREAM_STAT_SYNTAX_ERROR
       | Some value \<Rightarrow> ret (ISTREAM_STAT_READ_CHAR (word_of_int (tmp * 16 + value)))))"

definition istream_read_escaped_char :: "(IStreamT, IStreamStatusT) prog" where
  "istream_read_escaped_char = bind istream_next (\<lambda>c. case c of
       None \<Rightarrow> ret ISTREAM_STAT_SYNTAX_ERROR
     | Some c \<Rightarrow>
         if c = 0 then ret (ISTREAM_STAT_READ_CHAR c)
         else if c = 10 then bind (modify istream_inc_line) (\<lambda>_. ret ISTREAM_STAT_NO_CHAR)
         else if c = 48 then ret (ISTREAM_STAT_READ_CHAR 0)
         else if c = 102 \<or> c = 70 then ret (ISTREAM_STAT_READ_CHAR 12)
         else if c = 110 \<or> c = 78 then ret (ISTREAM_STAT_READ_CHAR 10)
         else if c = 114 \<or> c = 82 then ret (ISTREAM_STAT_READ_CHAR 13)
         else if c = 116 \<or> c = 84 then ret (ISTREAM_STAT_READ_CHAR 9)
         else if c = 120 \<or> c = 88 then istream_read_hex_char
         else ret (ISTREAM_STAT_READ_CHAR c))"

definition istream_close :: "IStreamT \<Rightarrow> IStreamT" where
  "istream_close i = istream_init i"

section \<open>Facts\<close>

text \<open>
  The characters still to be read: those of the buffer, without the null character behind them,
  and those of the file. A buffer that is not full holds the end of the file.
\<close>

definition is_rest :: "IStreamT \<Rightarrow> byte list" where
  "is_rest i = drop (is_current i) (butlast (is_buffer i)) @ drop (if_pos (is_file i)) (if_data (is_file i))"

definition is_sound :: "IStreamT \<Rightarrow> bool" where
  "is_sound i \<longleftrightarrow> if_fail (is_file i) = None \<and> is_current i < length (is_buffer i) \<and> last (is_buffer i) = 0 \<and>
     (length (is_buffer i) \<noteq> ISTREAM_BUFSIZE \<longrightarrow> length (if_data (is_file i)) \<le> if_pos (is_file i))"

text \<open>Filling the buffer changes nothing but where the characters are.\<close>

lemma fill_buffer_sound:
  assumes "if_fail (is_file i) = None"
  shows "\<exists>j. X__istream_fill_buffer i = (Ret (), j) \<and> is_sound j \<and> is_current j = 0 \<and>
     is_rest j = drop (if_pos (is_file i)) (if_data (is_file i)) \<and> is_line j = is_line i \<and> is_name j = is_name i"
proof -
  let ?f = "is_file i"
  define n where "n = min (ISTREAM_BUFSIZE - 1) (length (if_data ?f) - if_pos ?f)"
  define j where "j = i\<lparr>is_file := ?f\<lparr>if_pos := if_pos ?f + n\<rparr>, is_buffer := take n (drop (if_pos ?f) (if_data ?f)) @ [0],
      is_current := 0, is_read_last := False\<rparr>"
  have "X__istream_fill_buffer i = (Ret (), j)"
    using assms by (simp add: X__istream_fill_buffer_def fread_def Let_def if_avail_def if_ferror_def j_def n_def)
  moreover have "is_rest j = drop (if_pos ?f) (if_data ?f)"
    by (simp add: is_rest_def j_def butlast_append) (metis add.commute append_take_drop_id drop_drop)
  moreover have "is_sound j"
    using assms by (auto simp: is_sound_def j_def n_def ISTREAM_BUFSIZE_def)
  ultimately show ?thesis by (auto simp: j_def)
qed

lemma butlast_nth_drop:
  "n + 1 < length xs \<Longrightarrow> drop n (butlast xs) = xs ! n # drop (Suc n) (butlast xs)"
  by (simp add: drop_eq_Cons_nth nth_butlast)

text \<open>Inside the buffer a read takes the next character, whether it is null or not.\<close>

lemma next_inside:
  assumes "is_sound i" "is_current i + 1 < length (is_buffer i)"
  shows "\<exists>j. istream_next i = (Ret (Some (is_buffer i ! is_current i)), j) \<and> is_sound j \<and> is_line j = is_line i \<and>
     is_name j = is_name i \<and> is_rest i = is_buffer i ! is_current i # is_rest j"
proof -
  let ?j = "i\<lparr>is_read_last := True, is_current := is_current i + 1\<rparr>"
  have "ISTREAM_HANDLE_NULL ?j = (Ret Null_Char, ?j)" using assms(2) by (simp add: ISTREAM_HANDLE_NULL_def)
  moreover have "ISTREAM_READ_CHAR i = (Ret (is_buffer i ! is_current i), ?j)" using assms(2) by (simp add: ISTREAM_READ_CHAR_def)
  ultimately have "istream_next i = (Ret (Some (is_buffer i ! is_current i)), ?j)"
    by (simp add: istream_next.simps [of i] bind_def)
  moreover have "is_rest i = is_buffer i ! is_current i # is_rest ?j"
    using assms butlast_nth_drop[of "is_current i" "is_buffer i"] by (auto simp: is_rest_def is_sound_def)
  ultimately show ?thesis using assms by (auto simp: is_sound_def)
qed

text \<open>At the null character behind the data the buffer is filled, or the file is at its end.\<close>

lemma next_at_end:
  assumes "is_sound i" "is_current i + 1 = length (is_buffer i)"
  shows "length (is_buffer i) = ISTREAM_BUFSIZE \<Longrightarrow> \<exists>k. istream_next i = istream_next k \<and> is_sound k \<and>
      is_current k = 0 \<and> is_rest k = is_rest i \<and> is_line k = is_line i \<and> is_name k = is_name i"
    and "length (is_buffer i) \<noteq> ISTREAM_BUFSIZE \<Longrightarrow> is_rest i = [] \<and> istream_next i = (Ret None, i\<lparr>is_read_last := True\<rparr>)"
proof -
  let ?j = "i\<lparr>is_read_last := True, is_current := is_current i + 1\<rparr>"
  have z: "is_buffer i ! is_current i = 0"
    using assms by (metis One_nat_def Suc_eq_plus1 diff_Suc_1 is_sound_def last_conv_nth length_greater_0_conv zero_less_Suc)
  have r: "is_rest i = drop (if_pos (is_file i)) (if_data (is_file i))"
    using assms(2) by (simp add: is_rest_def flip: assms(2))
  have n: "istream_next i = bind ISTREAM_HANDLE_NULL (\<lambda>e k. case e of
      Null_Char \<Rightarrow> (Ret (Some 0), k) | Redo \<Rightarrow> istream_next k | Eof \<Rightarrow> (Ret None, k)) ?j"
    using assms(2) z by (simp add: istream_next.simps [of i] bind_def ISTREAM_READ_CHAR_def)
  show "\<exists>k. istream_next i = istream_next k \<and> is_sound k \<and> is_current k = 0 \<and> is_rest k = is_rest i \<and> is_line k = is_line i
      \<and> is_name k = is_name i"
    if full: "length (is_buffer i) = ISTREAM_BUFSIZE"
  proof -
    have "if_fail (is_file ?j) = None" using assms by (simp add: is_sound_def)
    from fill_buffer_sound[OF this] obtain k where k: "X__istream_fill_buffer ?j = (Ret (), k)" "is_sound k" "is_current k = 0"
      "is_rest k = is_rest i" "is_line k = is_line i" "is_name k = is_name i" using r by auto
    have "ISTREAM_HANDLE_NULL ?j = (Ret Redo, k)"
      using assms(2) full k(1) by (simp add: ISTREAM_HANDLE_NULL_def bind_def ret_def)
    with n k show ?thesis by (auto simp: bind_def)
  qed
  show "is_rest i = [] \<and> istream_next i = (Ret None, i\<lparr>is_read_last := True\<rparr>)" if "length (is_buffer i) \<noteq> ISTREAM_BUFSIZE"
    using assms that n r by (simp add: ISTREAM_HANDLE_NULL_def bind_def is_sound_def)
qed

lemma istream_next_sound:
  assumes "is_sound i"
  shows "is_rest i = c # cs \<Longrightarrow> \<exists>j. istream_next i = (Ret (Some c), j) \<and> is_sound j \<and> is_rest j = cs \<and> is_line j = is_line i
      \<and> is_name j = is_name i"
    and "is_rest i = [] \<Longrightarrow> \<exists>j. istream_next i = (Ret None, j) \<and> is_sound j \<and> is_rest j = [] \<and> is_line j = is_line i
      \<and> is_name j = is_name i"
proof -
  consider (inside) "is_current i + 1 < length (is_buffer i)"
    | (full) "is_current i + 1 = length (is_buffer i)" "length (is_buffer i) = ISTREAM_BUFSIZE"
    | (finish) "is_current i + 1 = length (is_buffer i)" "length (is_buffer i) \<noteq> ISTREAM_BUFSIZE"
    using assms by (fastforce simp: is_sound_def)
  note c = this
  let ?post = "\<lambda>i. case is_rest i of
      c # cs \<Rightarrow> \<exists>j. istream_next i = (Ret (Some c), j) \<and> is_sound j \<and> is_rest j = cs \<and> is_line j = is_line i \<and> is_name j = is_name i
    | [] \<Rightarrow> \<exists>j. istream_next i = (Ret None, j) \<and> is_sound j \<and> is_rest j = [] \<and> is_line j = is_line i \<and> is_name j = is_name i"
  have i: "?post i" if "is_sound i" "is_current i + 1 < length (is_buffer i)" for i
    using next_inside[OF that] by auto
  have e: "?post i" if "is_sound i" "is_current i + 1 = length (is_buffer i)" "length (is_buffer i) \<noteq> ISTREAM_BUFSIZE" for i
    using next_at_end(2)[OF that] that by (auto simp: is_sound_def is_rest_def)
  have "?post i"
    using c
  proof cases
    case inside
    with i[OF assms] show ?thesis .
  next
    case full
    from next_at_end(1)[OF assms full] obtain k where k: "istream_next i = istream_next k" "is_sound k" "is_current k = 0"
      "is_rest k = is_rest i" "is_line k = is_line i" "is_name k = is_name i" by blast
    have "?post k"
    proof (cases "1 < length (is_buffer k)")
      case True
      with i[OF k(2)] k(3) show ?thesis by simp
    next
      case False
      moreover have "0 < length (is_buffer k)" using k(2) by (auto simp: is_sound_def)
      ultimately have "is_current k + 1 = length (is_buffer k)" "length (is_buffer k) \<noteq> ISTREAM_BUFSIZE"
        using k(3) unfolding ISTREAM_BUFSIZE_def by linarith+
      from e[OF k(2) this] show ?thesis .
    qed
    then show ?thesis unfolding k(1,4-6) .
  next
    case finish
    from e[OF assms finish] show ?thesis .
  qed
  then show "is_rest i = c # cs \<Longrightarrow> \<exists>j. istream_next i = (Ret (Some c), j) \<and> is_sound j \<and> is_rest j = cs \<and> is_line j = is_line i
      \<and> is_name j = is_name i"
    and "is_rest i = [] \<Longrightarrow> \<exists>j. istream_next i = (Ret None, j) \<and> is_sound j \<and> is_rest j = [] \<and> is_line j = is_line i
      \<and> is_name j = is_name i"
    by (auto split: list.splits)
qed

interpretation istream: byte_source istream_next is_rest is_sound
  using istream_next_sound by unfold_locales blast+

text \<open>\<^verbatim>\<open>istream_read_char\<close> counts the newlines it passes.\<close>

lemma istream_read_char_sound:
  assumes "is_sound i"
  shows "is_rest i = c # cs \<Longrightarrow> \<exists>j. istream_read_char i = (Ret (Some c), j) \<and> is_sound j \<and> is_rest j = cs \<and>
      is_line j = is_line i + (if c = 10 then 1 else 0)"
    and "is_rest i = [] \<Longrightarrow> \<exists>j. istream_read_char i = (Ret None, j) \<and> is_sound j \<and> is_rest j = [] \<and> is_line j = is_line i"
proof -
  have inc: "is_sound (istream_inc_line j) = is_sound j" "is_rest (istream_inc_line j) = is_rest j"
    "is_line (istream_inc_line j) = is_line j + 1" for j
    by (simp_all add: is_sound_def is_rest_def istream_inc_line_def)
  assume "is_rest i = c # cs"
  with istream_next_sound(1)[OF assms this] show "\<exists>j. istream_read_char i = (Ret (Some c), j) \<and> is_sound j \<and> is_rest j = cs \<and>
      is_line j = is_line i + (if c = 10 then 1 else 0)"
    by (auto simp: istream_read_char_def bind_def ret_def modify_def inc)
next
  assume "is_rest i = []"
  with istream_next_sound(2)[OF assms this] show "\<exists>j. istream_read_char i = (Ret None, j) \<and> is_sound j \<and> is_rest j = [] \<and> is_line j = is_line i"
    by (auto simp: istream_read_char_def bind_def ret_def)
qed

interpretation istream_chars: byte_source istream_read_char is_rest is_sound
  using istream_read_char_sound by unfold_locales blast+

lemma read_chars_line:
  "is_sound i \<Longrightarrow> next_bytes istream_read_char n i = (Ret cs, j) \<Longrightarrow>
   is_line j = is_line i + of_nat (length (filter (\<lambda>c. c = 10) (take n (is_rest i))))"
proof (induction n arbitrary: i cs)
  case 0
  then show ?case by (simp add: ret_def)
next
  case (Suc n)
  show ?case
  proof (cases "is_rest i")
    case Nil
    from istream_read_char_sound(2)[OF Suc.prems(1) this] obtain k where
      k: "istream_read_char i = (Ret None, k)" "is_sound k" "is_rest k = []" "is_line k = is_line i" by blast
    with Suc.prems(2) obtain ds where "next_bytes istream_read_char n k = (Ret ds, j)"
      by (auto simp: bind_Ret_iff ret_def)
    from Suc.IH[OF k(2) this] k Nil show ?thesis by simp
  next
    case (Cons c ds)
    from istream_read_char_sound(1)[OF Suc.prems(1) this] obtain k where
      k: "istream_read_char i = (Ret (Some c), k)" "is_sound k" "is_rest k = ds" "is_line k = is_line i + (if c = 10 then 1 else 0)" by blast
    with Suc.prems(2) obtain es where "next_bytes istream_read_char n k = (Ret es, j)"
      by (auto simp: bind_Ret_iff ret_def)
    from Suc.IH[OF k(2) this] k Cons show ?thesis by simp
  qed
qed

end
