(* ===== verification/Name_Key.thy ===== *)
theory Name_Key
  imports Exds_String
begin

text \<open>
  External name keys of the linker, \<^verbatim>\<open>tld/src/adt/name-key.c\<close>: their parser for command line
  arguments, their printer, equality, hashing, and the lists of keys and key pairs the options
  build. A pointer into a C string is the rest of the string; reading its head past the end gives
  the null byte, and moving further than that is \<open>PUndef\<close>. The \<^verbatim>\<open>DStringT\<close> in which the parser
  collects characters is represented by its contents (theory \<open>Exds_String\<close>, locale
  \<open>char_buffer\<close>).
\<close>

datatype NameKeyT = KT_STRING NStringT | KT_UNIQUE "NStringT list"

datatype 'a parse = PUndef | PFail | POk 'a

section \<open>Parsing\<close>

definition name_key_parse_hex_char :: "byte list \<Rightarrow> byte option" where
  "name_key_parse_hex_char name =
     (case name of
        [] \<Rightarrow> None
      | c # cs \<Rightarrow>
          if syntax_value c \<noteq> SYNTAX_NO_VALUE then
            (case cs of
               [] \<Rightarrow> None
             | d # _ \<Rightarrow>
                 if syntax_value d \<noteq> SYNTAX_NO_VALUE
                 then Some (push_bit 4 (word_of_int (syntax_value c)) OR word_of_int (syntax_value d))
                 else None)
          else None)"

text \<open>\<open>name\<close> points at the backslash; the result is the character and the rest of the string.\<close>

definition name_key_parse_escaped :: "byte list \<Rightarrow> (byte \<times> byte list) parse" where
  "name_key_parse_escaped name =
     (case tl name of
        [] \<Rightarrow> PFail
      | c # cs \<Rightarrow>
          if c = chr CHR ''x'' \<or> c = chr CHR ''X'' then
            (case name_key_parse_hex_char (c # cs) of
               None \<Rightarrow> PFail
             | Some r \<Rightarrow> if 3 \<le> length (c # cs) then POk (r, drop 3 (c # cs)) else PUndef)
          else if c = chr CHR ''n'' \<or> c = chr CHR ''N'' then POk (10, cs)
          else if c = chr CHR ''r'' \<or> c = chr CHR ''R'' then POk (13, cs)
          else if c = chr CHR ''t'' \<or> c = chr CHR ''T'' then POk (9, cs)
          else if c = chr CHR ''0'' then POk (0, cs)
          else if c \<in> {92, 46, 91, 93} then POk (c, cs)
          else PFail)"

lemma name_key_parse_escaped_shorter [termination_simp]:
  "name_key_parse_escaped name = POk (c, rest) \<Longrightarrow> length rest < length name"
  by (cases name; cases "tl name")
    (auto simp: name_key_parse_escaped_def split: if_splits option.splits)

text \<open>One component of a unique name: everything up to a full stop or a closing bracket.\<close>

function name_key_parse_component :: "byte list \<Rightarrow> byte list \<Rightarrow> (NStringT \<times> byte list) parse" where
  "name_key_parse_component acc [] = PFail"
| "name_key_parse_component acc (c # cs) =
     (if c = 46 \<or> c = 93 then POk (acc, c # cs)
      else if c = 91 then PFail
      else if c = 92 then
        (case name_key_parse_escaped (c # cs) of
           PUndef \<Rightarrow> PUndef
         | PFail \<Rightarrow> PFail
         | POk (d, rest) \<Rightarrow> name_key_parse_component (acc @ [d]) rest)
      else name_key_parse_component (acc @ [c]) cs)"
  by pat_completeness auto
termination
  by (relation "measure (\<lambda>(acc, name). length name)")
    (auto dest: name_key_parse_escaped_shorter)

lemma name_key_parse_component_shorter [termination_simp]:
  "name_key_parse_component acc name = POk (ns, rest) \<Longrightarrow> rest \<noteq> [] \<and> length rest \<le> length name
     \<and> (hd rest = 46 \<or> hd rest = 93)"
proof (induction acc name rule: name_key_parse_component.induct)
  case (2 acc c cs)
  show ?case
  proof (cases "c = 92")
    case True
    with "2.prems" obtain d r where e: "name_key_parse_escaped (c # cs) = POk (d, r)"
      and k: "name_key_parse_component (acc @ [d]) r = POk (ns, rest)"
      by (auto split: parse.splits prod.splits)
    from "2.IH"(1) True e k have "rest \<noteq> [] \<and> length rest \<le> length r \<and> (hd rest = 46 \<or> hd rest = 93)"
      by simp
    with name_key_parse_escaped_shorter[OF e] show ?thesis by simp
  next
    case False
    with 2 show ?thesis by (auto split: if_splits)
  qed
qed simp

text \<open>
  \<^verbatim>\<open>name_key_parse_cstring_unique\<close>: \<open>name\<close> points at the opening bracket or at a full stop. The
  string pointed at after the loop starts with the closing bracket, and is compared with the empty
  string as it is.
\<close>

function name_key_parse_cstring_unique :: "NStringT list \<Rightarrow> byte list \<Rightarrow> NameKeyT parse" where
  "name_key_parse_cstring_unique components name =
     (case name of
        [] \<Rightarrow> PUndef
      | _ # name1 \<Rightarrow>
          (case name_key_parse_component [] name1 of
             PUndef \<Rightarrow> PUndef
           | PFail \<Rightarrow> PFail
           | POk (ns, rest) \<Rightarrow>
               if hd rest = 93 then
                 (if rest \<noteq> [] then PFail else POk (KT_UNIQUE (components @ [ns])))
               else name_key_parse_cstring_unique (components @ [ns]) rest))"
  by pat_completeness auto
termination
  by (relation "measure (\<lambda>(components, name). length name)")
    (auto dest!: name_key_parse_component_shorter)

declare name_key_parse_cstring_unique.simps [simp del]

function name_key_parse_cstring_string :: "byte list \<Rightarrow> byte list \<Rightarrow> NameKeyT parse" where
  "name_key_parse_cstring_string acc [] = POk (KT_STRING acc)"
| "name_key_parse_cstring_string acc (c # cs) =
     (if c = 91 \<or> c = 93 \<or> c = 46 then PFail
      else if c = 92 then
        (case name_key_parse_escaped (c # cs) of
           PUndef \<Rightarrow> PUndef
         | PFail \<Rightarrow> PFail
         | POk (d, rest) \<Rightarrow> name_key_parse_cstring_string (acc @ [d]) rest)
      else name_key_parse_cstring_string (acc @ [c]) cs)"
  by pat_completeness auto
termination
  by (relation "measure (\<lambda>(acc, name). length name)")
    (auto dest: name_key_parse_escaped_shorter)

definition name_key_parse_cstring :: "cstring \<Rightarrow> NameKeyT parse" where
  "name_key_parse_cstring name =
     (if name \<noteq> [] \<and> hd name = 91 then name_key_parse_cstring_unique [] name
      else name_key_parse_cstring_string [] name)"

section \<open>Printing\<close>

fun write_name_key_1 :: "NStringT \<Rightarrow> byte list" where
  "write_name_key_1 [] = []"
| "write_name_key_1 (b # bs) =
     (if b \<in> {91, 93, 46, 92} then [92, b] else [b]) @ write_name_key_1 bs"

fun write_name_key_components :: "byte \<Rightarrow> NStringT list \<Rightarrow> byte list" where
  "write_name_key_components sep [] = []"
| "write_name_key_components sep (ns # rest) =
     sep # write_name_key_1 ns @ write_name_key_components 46 rest"

fun write_name_key :: "NameKeyT \<Rightarrow> byte list" where
  "write_name_key (KT_STRING ns) = write_name_key_1 ns"
| "write_name_key (KT_UNIQUE comps) = write_name_key_components 91 comps @ [93]"

section \<open>Access, equality, hashing\<close>

definition name_key_init_string :: "NStringT \<Rightarrow> NameKeyT" where
  "name_key_init_string ns = KT_STRING (nstring_assign ns)"

definition name_key_init_unique :: "nat \<Rightarrow> NameKeyT" where
  "name_key_init_unique n = KT_UNIQUE (replicate n [])"

definition name_key_set_component :: "NameKeyT \<Rightarrow> nat \<Rightarrow> NStringT \<Rightarrow> NameKeyT option" where
  "name_key_set_component key i ns =
     (case key of
        KT_STRING _ \<Rightarrow> None
      | KT_UNIQUE comps \<Rightarrow>
          if i < length comps then Some (KT_UNIQUE (comps[i := nstring_assign ns])) else None)"

fun name_key_hash_components :: "NStringT list \<Rightarrow> cuint" where
  "name_key_hash_components [] = 0"
| "name_key_hash_components (ns # rest) = nstring_hash_value ns + name_key_hash_components rest"

fun name_key_hash_value :: "NameKeyT \<Rightarrow> cuint" where
  "name_key_hash_value (KT_STRING ns) = nstring_hash_value ns"
| "name_key_hash_value (KT_UNIQUE comps) = of_nat (length comps) + name_key_hash_components comps"

fun name_key_equal :: "NameKeyT \<Rightarrow> NameKeyT \<Rightarrow> bool" where
  "name_key_equal (KT_STRING a) (KT_STRING b) = nstring_equal a b"
| "name_key_equal (KT_UNIQUE as) (KT_UNIQUE bs) =
     (if length as \<noteq> length bs then False
      else list_all (\<lambda>(a, b). nstring_equal a b) (zip as bs))"
| "name_key_equal _ _ = False"

fun name_key_assign :: "NameKeyT \<Rightarrow> NameKeyT" where
  "name_key_assign (KT_STRING ns) = KT_STRING (nstring_assign ns)"
| "name_key_assign (KT_UNIQUE comps) = KT_UNIQUE comps"

fun name_key_copy :: "NameKeyT \<Rightarrow> NameKeyT" where
  "name_key_copy (KT_STRING ns) = KT_STRING (nstring_copy ns)"
| "name_key_copy (KT_UNIQUE comps) = KT_UNIQUE (map nstring_copy comps)"

section \<open>Lists of keys\<close>

text \<open>The head of the list is the entry at \<^verbatim>\<open>list->head\<close>.\<close>

definition name_key_list_add :: "NameKeyT list \<Rightarrow> NameKeyT \<Rightarrow> NameKeyT list" where
  "name_key_list_add list key =
     (if list_ex (name_key_equal key) list then list else name_key_assign key # list)"

definition name_key_pair_list_add ::
  "(NameKeyT \<times> NameKeyT) list \<Rightarrow> NameKeyT \<Rightarrow> NameKeyT \<Rightarrow> (NameKeyT \<times> NameKeyT) list option" where
  "name_key_pair_list_add list from to =
     (if list_ex (\<lambda>entry. name_key_equal from (fst entry)) list then None
      else Some ((name_key_assign from, name_key_assign to) # list))"

section \<open>Facts\<close>

lemma name_key_equal_iff [simp]: "name_key_equal a b \<longleftrightarrow> a = b"
  by (cases a; cases b) (auto simp: list_eq_iff_zip_eq list_all_iff split_beta)

lemma name_key_copy_id [simp]: "name_key_copy k = k" "name_key_assign k = k"
  by (cases k; simp add: map_idI)+

lemma name_key_parse_escaped_special:
  "b \<in> {91, 93, 46, 92} \<Longrightarrow> name_key_parse_escaped (92 # b # cs) = POk (b, cs)"
  by (auto simp: name_key_parse_escaped_def chr_def)

lemma name_key_parse_write_1:
  "name_key_parse_cstring_string acc (write_name_key_1 ns) = POk (KT_STRING (acc @ ns))"
proof (induction ns arbitrary: acc)
  case (Cons b ns)
  then show ?case
    using name_key_parse_escaped_special[of b "write_name_key_1 ns"] by auto
qed simp

lemma name_key_parse_cstring_write:
  "name_key_parse_cstring (write_name_key (KT_STRING ns)) = POk (KT_STRING ns)"
proof -
  have "\<not> (write_name_key_1 ns \<noteq> [] \<and> hd (write_name_key_1 ns) = 91)"
    by (cases ns) auto
  then show ?thesis by (auto simp: name_key_parse_cstring_def name_key_parse_write_1)
qed

lemma name_key_parse_cstring_unique_never:
  "name_key_parse_cstring_unique components name \<noteq> POk key"
proof (induction components name rule: name_key_parse_cstring_unique.induct)
  case (1 components name)
  then show ?case
    by (subst name_key_parse_cstring_unique.simps)
      (auto split: list.splits parse.splits dest: name_key_parse_component_shorter)
qed

end
