(* ===== verification/Tdf_Io.thy ===== *)
theory Tdf_Io
  imports Exds_Istream Name_Key Errors
begin

text \<open>
  The linker's reader and writer of TDF bytes, \<^verbatim>\<open>tld/src/adt/tdf-read.c\<close>,
  \<^verbatim>\<open>tld/src/adt/tdf-write.c\<close> and \<^verbatim>\<open>tld/src/tdf.c\<close>: half bytes, integers in octal half bytes,
  aligned byte strings, external names. The state holds the reader of the capsule or library being
  read, the writer of the one being written, the text stream of a rename or unit set file, the files that can be opened, and the files closed
  after writing.
\<close>

section \<open>State\<close>

record string_source =
  rs_contents :: "byte list"
  rs_current :: nat
  rs_limit :: nat
  rs_name :: cstring
  rs_byte :: nat

datatype reader_source = RT_STREAM BIStreamT | RT_STRING string_source

record TDFReaderT =
  rd_u :: reader_source
  rd_byte :: byte
  rd_new_byte :: bool

record TDFWriterT =
  wr_bostream :: BOStreamT
  wr_byte :: byte
  wr_new_byte :: bool

record io_state = error_state +
  files_in :: "cstring \<Rightarrow> ifile option"
  files_out :: "cstring \<Rightarrow> ofile option"
  reader :: TDFReaderT
  writer :: TDFWriterT
  text_in :: IStreamT
  written :: "(cstring \<times> byte list) list"

section \<open>tdf-read.c\<close>

definition tdf_read_nibble :: "('z io_state_scheme, cuint) prog" where
  "tdf_read_nibble s =
     (let r = reader s in
      if rd_new_byte r then
        (case rd_u r of
           RT_STREAM b \<Rightarrow>
             (case bistream_read_byte b of
                (Ret (Some c), b') \<Rightarrow>
                  (Ret (drop_bit 4 (ucast c) AND 15),
                   s\<lparr>reader := r\<lparr>rd_u := RT_STREAM b', rd_byte := c, rd_new_byte := False\<rparr>\<rparr>)
              | (Ret None, b') \<Rightarrow>
                  error_throw XX_tdf_read_error (s\<lparr>reader := r\<lparr>rd_u := RT_STREAM b'\<rparr>\<rparr>)
              | (Raise e, b') \<Rightarrow> (Raise e, s\<lparr>reader := r\<lparr>rd_u := RT_STREAM b'\<rparr>\<rparr>))
         | RT_STRING q \<Rightarrow>
             if rs_current q < rs_limit q then
               (let c = rs_contents q ! rs_current q in
                (Ret (drop_bit 4 (ucast c) AND 15),
                 s\<lparr>reader := r\<lparr>rd_u := RT_STRING (q\<lparr>rs_current := rs_current q + 1, rs_byte := rs_byte q + 1\<rparr>),
                               rd_byte := c, rd_new_byte := False\<rparr>\<rparr>))
             else error_throw XX_tdf_read_error s)
      else (Ret (ucast (rd_byte r) AND 15), s\<lparr>reader := r\<lparr>rd_new_byte := True\<rparr>\<rparr>))"

text \<open>The fields of a reader that \<^verbatim>\<open>tdf_reader_open\<close> leaves alone start cleared.\<close>

definition tdf_reader_open :: "cstring \<Rightarrow> ('z io_state_scheme, bool) prog" where
  "tdf_reader_open name s =
     (case bistream_open (files_in s) name of
        None \<Rightarrow> (Ret False, s)
      | Some b \<Rightarrow> (Ret True, s\<lparr>reader := \<lparr>rd_u = RT_STREAM b, rd_byte = 0, rd_new_byte = True\<rparr>\<rparr>))"

definition tdf_reader_open_string :: "cstring \<Rightarrow> NStringT \<Rightarrow> ('z io_state_scheme, unit) prog" where
  "tdf_reader_open_string name bytes = modify (\<lambda>s. s\<lparr>reader :=
     \<lparr>rd_u = RT_STRING \<lparr>rs_contents = bytes, rs_current = 0, rs_limit = length bytes,
                       rs_name = name, rs_byte = 0\<rparr>,
      rd_byte = 0, rd_new_byte = True\<rparr>\<rparr>)"

definition rd_bytes :: "TDFReaderT \<Rightarrow> nat" where
  "rd_bytes r = (case rd_u r of RT_STREAM b \<Rightarrow> bistream_byte b | RT_STRING q \<Rightarrow> rs_byte q)"

definition tdf_reader_byte :: "('z io_state_scheme, nat) prog" where
  "tdf_reader_byte = gets (\<lambda>s. rd_bytes (reader s))"

text \<open>The half bytes that the reader can still deliver bound the loop of \<^verbatim>\<open>tdf_read_int\<close>.\<close>

definition rd_rest :: "TDFReaderT \<Rightarrow> byte list" where
  "rd_rest r = (case rd_u r of
     RT_STREAM b \<Rightarrow> bi_rest b | RT_STRING q \<Rightarrow> take (rs_limit q - rs_current q) (drop (rs_current q) (rs_contents q)))"

definition rd_left :: "TDFReaderT \<Rightarrow> nat" where
  "rd_left r = (case rd_u r of
     RT_STREAM b \<Rightarrow> 2 * length (bi_rest b) | RT_STRING q \<Rightarrow> 2 * (rs_limit q - rs_current q))
     + (if rd_new_byte r then 0 else 1)"

lemma bistream_read_byte_Some:
  "bistream_read_byte b = (Ret (Some c), b') \<Longrightarrow> bi_rest b = c # bi_rest b'"
proof -
  let ?f = "bi_file b"
  assume a: "bistream_read_byte b = (Ret (Some c), b')"
  then have av: "0 < if_avail ?f"
    by (cases "if_avail ?f = 0") (auto simp: bistream_read_byte_def fread_def Let_def split: if_splits)
  then have lt: "if_pos ?f < length (if_data ?f)"
    by (auto simp: if_avail_def split: option.splits)
  with a av show ?thesis
    by (auto simp: bistream_read_byte_def fread_def Let_def bi_rest_def drop_eq_Cons_nth min_def
        split: if_splits)
qed

lemma tdf_read_nibble_left:
  "tdf_read_nibble s = (Ret n, t) \<Longrightarrow> rd_left (reader t) < rd_left (reader s)"
  by (auto simp: tdf_read_nibble_def rd_left_def Let_def error_throw_def bind_def raise_def
      split: if_splits reader_source.splits prod.splits outcome.splits option.splits
      dest: bistream_read_byte_Some)

function tdf_read_int_loop :: "cuint \<Rightarrow> ('z io_state_scheme, cuint) prog" where
  "tdf_read_int_loop value s =
     (case tdf_read_nibble s of
        (Raise e, t) \<Rightarrow> (Raise e, t)
      | (Ret nibble, t) \<Rightarrow>
          if value > drop_bit 3 UINT_MAX then error_throw XX_tdf_read_error t
          else let value = push_bit 3 value OR (nibble AND 7) in
               if nibble AND 8 \<noteq> 0 then (Ret value, t) else tdf_read_int_loop value t)"
  by pat_completeness auto
termination
  by (relation "measure (\<lambda>(value, s). rd_left (reader s))") (auto dest: tdf_read_nibble_left [OF sym])

declare tdf_read_int_loop.simps [simp del]

definition tdf_read_int :: "('z io_state_scheme, cuint) prog" where
  "tdf_read_int = tdf_read_int_loop 0"

definition tdf_read_align :: "('z io_state_scheme, unit) prog" where
  "tdf_read_align = modify (\<lambda>s. s\<lparr>reader := (reader s)\<lparr>rd_new_byte := True\<rparr>\<rparr>)"

definition tdf_read_bytes :: "NStringT \<Rightarrow> ('z io_state_scheme, NStringT) prog" where
  "tdf_read_bytes nstring = bind tdf_read_align (\<lambda>_ s.
     let r = reader s; len = length nstring in
     case rd_u r of
       RT_STREAM b \<Rightarrow>
         (case bistream_read_chars len b of
            (Ret chars, b') \<Rightarrow>
              let t = s\<lparr>reader := r\<lparr>rd_u := RT_STREAM b'\<rparr>\<rparr> in
              if length chars \<noteq> len then error_throw XX_tdf_read_error t else (Ret chars, t)
          | (Raise e, b') \<Rightarrow> (Raise e, s\<lparr>reader := r\<lparr>rd_u := RT_STREAM b'\<rparr>\<rparr>))
     | RT_STRING q \<Rightarrow>
         if rs_current q + len > rs_limit q then error_throw XX_tdf_read_error s
         else (case nstring_insert_cstring nstring (drop (rs_current q) (rs_contents q)) of
                 None \<Rightarrow> (Raise Undefined, s)
               | Some ns \<Rightarrow>
                   (Ret ns, s\<lparr>reader := r\<lparr>rd_u := RT_STRING
                      (q\<lparr>rs_current := rs_current q + len, rs_byte := rs_byte q + len\<rparr>)\<rparr>\<rparr>)))"

definition tdf_read_string :: "('z io_state_scheme, NStringT) prog" where
  "tdf_read_string = bind tdf_read_int (\<lambda>size.
     if size \<noteq> 8 then error_throw XX_tdf_read_error
     else bind tdf_read_int (\<lambda>len. tdf_read_bytes (nstring_init_length (unat len))))"

definition tdf_read_name :: "('z io_state_scheme, NameKeyT) prog" where
  "tdf_read_name = bind tdf_read_nibble (\<lambda>nibble.
     let type = drop_bit 2 nibble AND 3 in
     bind tdf_read_align (\<lambda>_.
     if type = 1 then bind tdf_read_string (\<lambda>ns. ret (name_key_init_string ns))
     else if type = 2 then bind tdf_read_int (\<lambda>components.
       bind (collect [0..<unat components] (\<lambda>i. tdf_read_string)) (\<lambda>cs. ret (KT_UNIQUE cs)))
     else error_throw XX_tdf_read_error))"

definition tdf_read_eof :: "('z io_state_scheme, unit) prog" where
  "tdf_read_eof s =
     (let r = reader s in
      case rd_u r of
        RT_STREAM b \<Rightarrow>
          (case bistream_read_byte b of
             (Ret None, b') \<Rightarrow> (Ret (), s\<lparr>reader := r\<lparr>rd_u := RT_STREAM b'\<rparr>\<rparr>)
           | (Ret (Some c), b') \<Rightarrow>
               error_throw XX_tdf_read_error (s\<lparr>reader := r\<lparr>rd_u := RT_STREAM b'\<rparr>\<rparr>)
           | (Raise e, b') \<Rightarrow> (Raise e, s\<lparr>reader := r\<lparr>rd_u := RT_STREAM b'\<rparr>\<rparr>))
      | RT_STRING q \<Rightarrow>
          if rs_current q < rs_limit q then error_throw XX_tdf_read_error s else (Ret (), s))"

definition tdf_reader_rewind :: "('z io_state_scheme, unit) prog" where
  "tdf_reader_rewind = modify (\<lambda>s. s\<lparr>reader := (reader s)\<lparr>rd_u :=
     (case rd_u (reader s) of
        RT_STREAM b \<Rightarrow> RT_STREAM (bistream_rewind b)
      | RT_STRING q \<Rightarrow> RT_STRING (q\<lparr>rs_current := 0\<rparr>))\<rparr>\<rparr>)"

definition tdf_reader_close :: "('z io_state_scheme, unit) prog" where
  "tdf_reader_close = modify (\<lambda>s. s\<lparr>reader := (reader s)\<lparr>rd_u :=
     (case rd_u (reader s) of
        RT_STREAM b \<Rightarrow> RT_STREAM (bistream_close b)
      | RT_STRING q \<Rightarrow> RT_STRING q)\<rparr>\<rparr>)"

section \<open>tdf-write.c and tdf.c\<close>

text \<open>A call on the writer's output stream.\<close>

definition on_bostream :: "(BOStreamT, unit) prog \<Rightarrow> ('z io_state_scheme, unit) prog" where
  "on_bostream m s =
     (case m (wr_bostream (writer s)) of (r, b) \<Rightarrow> (r, s\<lparr>writer := (writer s)\<lparr>wr_bostream := b\<rparr>\<rparr>))"

definition tdf_write_nibble :: "cuint \<Rightarrow> ('z io_state_scheme, unit) prog" where
  "tdf_write_nibble nibble s =
     (let w = writer s in
      if wr_new_byte w then
        (Ret (), s\<lparr>writer := w\<lparr>wr_new_byte := False, wr_byte := ucast (push_bit 4 (nibble AND 15))\<rparr>\<rparr>)
      else
        (let c = wr_byte w OR ucast (nibble AND 15) in
         on_bostream (bostream_write_byte c) (s\<lparr>writer := w\<lparr>wr_new_byte := True, wr_byte := c\<rparr>\<rparr>)))"

definition tdf_writer_open :: "cstring \<Rightarrow> ('z io_state_scheme, bool) prog" where
  "tdf_writer_open name s =
     (case bostream_open (files_out s) name of
        None \<Rightarrow> (Ret False, s)
      | Some b \<Rightarrow> (Ret True, s\<lparr>writer := \<lparr>wr_bostream = b, wr_byte = 0, wr_new_byte = True\<rparr>\<rparr>))"

text \<open>\<^verbatim>\<open>while (tmp & mask) { tmp >>= 3; shift++; }\<close> with \<^verbatim>\<open>mask = ~0x07\<close>\<close>

function tdf_int_shift :: "cuint \<Rightarrow> nat \<Rightarrow> nat" where
  "tdf_int_shift tmp shift =
     (if tmp AND NOT 7 \<noteq> 0 then tdf_int_shift (drop_bit 3 tmp) (shift + 1) else shift)"
  by pat_completeness auto
termination
proof (relation "measure (\<lambda>(tmp, shift). unat tmp)")
  fix tmp :: cuint and shift :: nat
  assume "tmp AND NOT 7 \<noteq> 0"
  then have "unat tmp \<noteq> 0" by (metis and_zero_eq unat_0 unat_eq_zero zero_and_eq)
  then show "((drop_bit 3 tmp, shift + 1), tmp, shift) \<in> measure (\<lambda>(tmp, shift). unat tmp)"
    by (simp add: unat_simps)
qed simp

declare tdf_int_shift.simps [simp del]

fun tdf_write_digits :: "cuint \<Rightarrow> nat \<Rightarrow> ('z io_state_scheme, unit) prog" where
  "tdf_write_digits value 0 = ret ()"
| "tdf_write_digits value (Suc shift) =
     bind (tdf_write_nibble (drop_bit (3 * Suc shift) value AND 7)) (\<lambda>_. tdf_write_digits value shift)"

definition tdf_write_int :: "cuint \<Rightarrow> ('z io_state_scheme, unit) prog" where
  "tdf_write_int value = bind (tdf_write_digits value (tdf_int_shift value 0)) (\<lambda>_.
     tdf_write_nibble ((value AND 7) OR 8))"

definition tdf_write_align :: "('z io_state_scheme, unit) prog" where
  "tdf_write_align s =
     (if \<not> wr_new_byte (writer s) then
        bind (on_bostream (bostream_write_byte (wr_byte (writer s))))
          (\<lambda>_. modify (\<lambda>s. s\<lparr>writer := (writer s)\<lparr>wr_new_byte := True\<rparr>\<rparr>)) s
      else (Ret (), s))"

definition tdf_write_bytes :: "NStringT \<Rightarrow> ('z io_state_scheme, unit) prog" where
  "tdf_write_bytes ns = bind tdf_write_align (\<lambda>_. on_bostream (bostream_write_chars ns))"

definition tdf_write_string :: "NStringT \<Rightarrow> ('z io_state_scheme, unit) prog" where
  "tdf_write_string ns = bind (tdf_write_int 8) (\<lambda>_.
     bind (tdf_write_int (of_nat (length ns))) (\<lambda>_. tdf_write_bytes ns))"

definition tdf_write_name :: "NameKeyT \<Rightarrow> ('z io_state_scheme, unit) prog" where
  "tdf_write_name name =
     (case name of
        KT_STRING ns \<Rightarrow> bind (tdf_write_nibble (push_bit 2 1)) (\<lambda>_.
          bind tdf_write_align (\<lambda>_. tdf_write_string ns))
      | KT_UNIQUE cs \<Rightarrow> bind (tdf_write_nibble (push_bit 2 2)) (\<lambda>_.
          bind tdf_write_align (\<lambda>_.
          bind (tdf_write_int (of_nat (length cs))) (\<lambda>_.
          for_each cs tdf_write_string))))"

text \<open>Closing records the finished file, unless what is left in the buffer cannot be written.\<close>

definition tdf_writer_close :: "('z io_state_scheme, unit) prog" where
  "tdf_writer_close = bind tdf_write_align (\<lambda>_. bind (gets (\<lambda>s. wr_bostream (writer s))) (\<lambda>b.
     bind (on_bostream bostream_close) (\<lambda>_. modify (\<lambda>s.
     s\<lparr>written := (case bo_name b of None \<Rightarrow> written s | Some name \<Rightarrow> written s @ [(name, bo_data b)])\<rparr>))))"

text \<open>\<^verbatim>\<open>tdf_int_size\<close>: \<^verbatim>\<open>while (value >>= 3) size++\<close>\<close>

function tdf_int_size_loop :: "cuint \<Rightarrow> nat \<Rightarrow> nat" where
  "tdf_int_size_loop value sz =
     (if drop_bit 3 value \<noteq> 0 then tdf_int_size_loop (drop_bit 3 value) (sz + 1) else sz)"
  by pat_completeness auto
termination
proof (relation "measure (\<lambda>(value, sz). unat value)")
  fix v :: cuint and sz :: nat
  assume "drop_bit 3 v \<noteq> 0"
  then have "unat (drop_bit 3 v) \<noteq> 0" by (simp add: unat_eq_zero)
  then show "((drop_bit 3 v, sz + 1), v, sz) \<in> measure (\<lambda>(value, sz). unat value)"
    by (simp add: unat_simps)
qed simp

declare tdf_int_size_loop.simps [simp del]

definition tdf_int_size :: "cuint \<Rightarrow> nat" where
  "tdf_int_size value = tdf_int_size_loop value 1"

end
