(* ===== verification/Tdf_Codec.thy ===== *)
theory Tdf_Codec
  imports Tdf_Io
begin

text \<open>
  What the reader and the writer of \<^verbatim>\<open>tdf-read.c\<close> and \<^verbatim>\<open>tdf-write.c\<close> do on sound devices, stated on
  the sequence of half bytes of a file; a calculus of encodings in which a sequence of writing
  calls and the matching sequence of reading calls compose; and the contract of a codec.
\<close>

section \<open>Half bytes\<close>

definition byte_nibbles :: "byte \<Rightarrow> nat list" where
  "byte_nibbles b = [unat b div 16, unat b mod 16]"

definition bytes_nibbles :: "byte list \<Rightarrow> nat list" where
  "bytes_nibbles bs = concat (map byte_nibbles bs)"

lemma bytes_nibbles_simps [simp]:
  "bytes_nibbles [] = []"
  "bytes_nibbles (b # bs) = unat b div 16 # unat b mod 16 # bytes_nibbles bs"
  "bytes_nibbles (as @ bs) = bytes_nibbles as @ bytes_nibbles bs"
  by (simp_all add: bytes_nibbles_def byte_nibbles_def)

lemma length_bytes_nibbles [simp]: "length (bytes_nibbles bs) = 2 * length bs"
  by (induction bs) auto

lemma bytes_nibbles_inject: "bytes_nibbles as = bytes_nibbles bs \<longleftrightarrow> as = bs"
proof (induction as arbitrary: bs)
  case Nil
  then show ?case by (cases bs) auto
next
  case (Cons a as)
  show ?case
  proof (cases bs)
    case (Cons b bs')
    have "unat a div 16 = unat b div 16 \<and> unat a mod 16 = unat b mod 16 \<longleftrightarrow> a = b"
      by (metis div_mult_mod_eq word_eq_unatI)
    with Cons Cons.IH[of bs'] show ?thesis by auto
  qed simp
qed

section \<open>Readers on sound sources\<close>

definition rd_sound :: "TDFReaderT \<Rightarrow> bool" where
  "rd_sound r = (case rd_u r of
     RT_STREAM b \<Rightarrow> bi_sound b
   | RT_STRING q \<Rightarrow> rs_limit q = length (rs_contents q) \<and> rs_current q \<le> rs_limit q)"

text \<open>The half bytes still to be read, and the bytes read or still to be read.\<close>

definition rd_nibbles :: "TDFReaderT \<Rightarrow> nat list" where
  "rd_nibbles r = (if rd_new_byte r then [] else [unat (rd_byte r) mod 16]) @ bytes_nibbles (rd_rest r)"

definition rd_total :: "TDFReaderT \<Rightarrow> nat" where
  "rd_total r = rd_bytes r + length (rd_rest r)"

lemma rd_new_byte_even: "rd_new_byte r \<longleftrightarrow> even (length (rd_nibbles r))"
  by (simp add: rd_nibbles_def)

text \<open>\<open>r'\<close> is \<open>r\<close> after \<open>ns\<close> has been read.\<close>

definition advances :: "TDFReaderT \<Rightarrow> nat list \<Rightarrow> TDFReaderT \<Rightarrow> bool" where
  "advances r ns r' \<longleftrightarrow>
     rd_nibbles r = ns @ rd_nibbles r' \<and> rd_sound r' \<and> rd_total r' = rd_total r"

lemma advances_trans: "advances r ns r1 \<Longrightarrow> advances r1 ms r2 \<Longrightarrow> advances r (ns @ ms) r2"
  by (simp add: advances_def)

lemma advances_rest: "advances r ns r' \<Longrightarrow> rd_nibbles r = ns @ rest \<Longrightarrow> rd_nibbles r' = rest"
  by (simp add: advances_def)

lemma advances_aligned: "advances r ns r' \<Longrightarrow> rd_new_byte r' \<longleftrightarrow> (rd_new_byte r \<longleftrightarrow> even (length ns))"
  by (auto simp: advances_def rd_new_byte_even)

lemma rd_new_byte_update [simp]:
  "rd_rest (r\<lparr>rd_new_byte := x\<rparr>) = rd_rest r" "rd_bytes (r\<lparr>rd_new_byte := x\<rparr>) = rd_bytes r"
  "rd_sound (r\<lparr>rd_new_byte := x\<rparr>) = rd_sound r"
  by (simp_all add: rd_rest_def rd_bytes_def rd_sound_def)

lemma ucast_high: "unat (drop_bit 4 (ucast (c::byte)) AND 15 :: cuint) = unat c div 16"
  using unat_less_256[of c] by (simp add: unat_simps)

lemma ucast_low: "unat (ucast (c::byte) AND 15 :: cuint) = unat c mod 16"
  by (simp add: unat_simps)

lemma tdf_read_nibble_sound:
  assumes snd: "rd_sound (reader s)" and ns: "rd_nibbles (reader s) = n # rest"
  shows "\<exists>r v. tdf_read_nibble s = (Ret v, s\<lparr>reader := r\<rparr>) \<and> unat v = n \<and> advances (reader s) [n] r"
proof (cases "rd_new_byte (reader s)")
  case False
  let ?r = "(reader s)\<lparr>rd_new_byte := True\<rparr>"
  from False have "tdf_read_nibble s = (Ret (ucast (rd_byte (reader s)) AND 15), s\<lparr>reader := ?r\<rparr>)"
    by (simp add: tdf_read_nibble_def Let_def)
  moreover have "advances (reader s) [n] ?r"
    using False snd ns by (simp add: advances_def rd_nibbles_def rd_total_def)
  ultimately show ?thesis
    using False ns by (auto simp: ucast_low rd_nibbles_def intro!: exI [of _ ?r])
next
  case True
  then obtain c cs where c: "rd_rest (reader s) = c # cs" "n = unat c div 16" "rest = unat c mod 16 # bytes_nibbles cs"
    using ns by (cases "rd_rest (reader s)") (auto simp: rd_nibbles_def)
  show ?thesis
  proof (cases "rd_u (reader s)")
    case (RT_STREAM b)
    with snd c bistream_read_byte_sound(1)[of b c cs] obtain b' where b:
      "bistream_read_byte b = (Ret (Some c), b')" "bi_rest b' = cs" "bi_sound b'" "bi_bytes b' = bi_bytes b + 1"
      by (auto simp: rd_sound_def rd_rest_def)
    let ?r = "(reader s)\<lparr>rd_u := RT_STREAM b', rd_byte := c, rd_new_byte := False\<rparr>"
    have "tdf_read_nibble s = (Ret (drop_bit 4 (ucast c) AND 15), s\<lparr>reader := ?r\<rparr>)"
      using True RT_STREAM b(1) by (simp add: tdf_read_nibble_def Let_def)
    moreover have "advances (reader s) [n] ?r"
      using True RT_STREAM b c
      by (simp add: advances_def rd_nibbles_def rd_sound_def rd_total_def rd_rest_def rd_bytes_def
          bistream_byte_def)
    ultimately show ?thesis using c(2) ucast_high by blast
  next
    case (RT_STRING q)
    with snd c have q: "rs_limit q = length (rs_contents q)" "drop (rs_current q) (rs_contents q) = c # cs"
      by (simp_all add: rd_sound_def rd_rest_def)
    then have lt: "rs_current q < length (rs_contents q)"
      by (cases "rs_current q < length (rs_contents q)") simp_all
    with q have q': "rs_contents q ! rs_current q = c" "drop (Suc (rs_current q)) (rs_contents q) = cs"
      by (simp_all add: drop_eq_Cons_nth)
    let ?r = "(reader s)\<lparr>rd_u := RT_STRING (q\<lparr>rs_current := rs_current q + 1, rs_byte := rs_byte q + 1\<rparr>),
                rd_byte := c, rd_new_byte := False\<rparr>"
    have "tdf_read_nibble s = (Ret (drop_bit 4 (ucast c) AND 15), s\<lparr>reader := ?r\<rparr>)"
      using True RT_STRING q q' lt by (simp add: tdf_read_nibble_def Let_def)
    moreover have "advances (reader s) [n] ?r"
      using True RT_STRING q q' lt c
      by (simp add: advances_def rd_nibbles_def rd_sound_def rd_total_def rd_rest_def rd_bytes_def)
    ultimately show ?thesis using c(2) ucast_high by blast
  qed
qed

lemma tdf_read_nibble_eof:
  assumes snd: "rd_sound (reader s)" and ns: "rd_nibbles (reader s) = []"
  shows "tdf_read_nibble s = error_throw XX_tdf_read_error s"
proof -
  have nb: "rd_new_byte (reader s)" "rd_rest (reader s) = []"
    using ns by (auto simp: rd_nibbles_def split: if_splits) (metis bytes_nibbles_inject bytes_nibbles_simps(1))
  show ?thesis
  proof (cases "rd_u (reader s)")
    case (RT_STREAM b)
    then have e: "s\<lparr>reader := (reader s)\<lparr>rd_u := RT_STREAM b\<rparr>\<rparr> = s" by simp
    from RT_STREAM snd nb bistream_read_byte_sound(2)[of b]
    have "tdf_read_nibble s = error_throw XX_tdf_read_error (s\<lparr>reader := (reader s)\<lparr>rd_u := RT_STREAM b\<rparr>\<rparr>)"
      by (simp add: tdf_read_nibble_def Let_def rd_sound_def rd_rest_def)
    then show ?thesis by (simp only: e)
  next
    case (RT_STRING q)
    with snd nb show ?thesis
      by (auto simp: tdf_read_nibble_def Let_def rd_sound_def rd_rest_def)
  qed
qed

section \<open>Writers on sound devices\<close>

definition wr_sound :: "TDFWriterT \<Rightarrow> bool" where
  "wr_sound w \<longleftrightarrow> bo_sound (wr_bostream w) \<and> (\<not> wr_new_byte w \<longrightarrow> unat (wr_byte w) mod 16 = 0)"

definition wr_nibbles :: "TDFWriterT \<Rightarrow> nat list" where
  "wr_nibbles w = bytes_nibbles (bo_data (wr_bostream w))
     @ (if wr_new_byte w then [] else [unat (wr_byte w) div 16])"

lemma wr_new_byte_even: "wr_new_byte w \<longleftrightarrow> even (length (wr_nibbles w))"
  by (simp add: wr_nibbles_def)

text \<open>\<open>w'\<close> is \<open>w\<close> after \<open>ns\<close> has been written.\<close>

definition emits :: "TDFWriterT \<Rightarrow> nat list \<Rightarrow> TDFWriterT \<Rightarrow> bool" where
  "emits w ns w' \<longleftrightarrow> wr_nibbles w' = wr_nibbles w @ ns \<and> wr_sound w'
     \<and> bo_name (wr_bostream w') = bo_name (wr_bostream w)"

lemma emits_trans: "emits w ns w1 \<Longrightarrow> emits w1 ms w2 \<Longrightarrow> emits w (ns @ ms) w2"
  by (simp add: emits_def)

lemma emits_refl: "wr_sound w \<Longrightarrow> emits w [] w"
  by (simp add: emits_def)

lemma emits_sound: "emits w ns w' \<Longrightarrow> wr_sound w'"
  by (simp add: emits_def)

lemma emits_aligned: "emits w ns w' \<Longrightarrow> wr_new_byte w' \<longleftrightarrow> (wr_new_byte w \<longleftrightarrow> even (length ns))"
  by (auto simp: emits_def wr_new_byte_even)

lemma byte_or_nibble:
  assumes "unat b mod 16 = 0"
  shows "unat (b OR ucast (n AND 15 :: cuint)) = unat (b::byte) + unat n mod 16"
proof -
  have u: "unat (ucast (n AND 15) :: byte) = unat n mod 16"
    by (simp add: unat_simps)
  have hi: "b AND 15 = 0"
    using assms by (metis unat_byte_and_15 unat_eq_zero)
  have lo: "(ucast (n AND 15) :: byte) AND 15 = ucast (n AND 15)"
    by (rule word_eq_unatI) (simp add: unat_simps)
  have "b AND ucast (n AND 15) = b AND (ucast (n AND 15) AND 15)"
    by (simp only: lo)
  also have "\<dots> = (b AND 15) AND ucast (n AND 15)"
    by (simp only: ac_simps)
  finally have "b AND ucast (n AND 15) = 0" by (simp only: hi and_zero_eq zero_and_eq)
  then show ?thesis by (simp add: unat_or_disjoint u)
qed

lemma nibble_split:
  assumes "(b::nat) mod 16 = 0"
  shows "(b + n mod 16) div 16 = b div 16" "(b + n mod 16) mod 16 = n mod 16"
proof -
  from assms obtain q where "b = 16 * q" by auto
  then show "(b + n mod 16) div 16 = b div 16" "(b + n mod 16) mod 16 = n mod 16" by simp_all
qed

lemma tdf_write_nibble_sound:
  assumes "wr_sound (writer s)"
  shows "\<exists>w. tdf_write_nibble n s = (Ret (), s\<lparr>writer := w\<rparr>) \<and> emits (writer s) [unat n mod 16] w"
proof (cases "wr_new_byte (writer s)")
  case True
  have "unat (ucast (push_bit 4 (n AND 15)) :: byte) = (unat n mod 16 * 2 ^ 4) mod 2 ^ LENGTH(32) mod 256"
    by (simp only: unat_simps)
  then have u: "unat (ucast (push_bit 4 (n AND 15)) :: byte) = (unat n mod 16) * 16"
    by simp
  with True assms show ?thesis
    by (auto simp: tdf_write_nibble_def Let_def emits_def wr_nibbles_def wr_sound_def)
next
  case False
  let ?c = "wr_byte (writer s) OR ucast (n AND 15)"
  have "unat ?c = unat (wr_byte (writer s)) + unat n mod 16"
    using False assms by (simp add: wr_sound_def byte_or_nibble)
  moreover have "unat (wr_byte (writer s)) mod 16 = 0"
    using False assms by (simp add: wr_sound_def)
  ultimately have c: "unat ?c div 16 = unat (wr_byte (writer s)) div 16" "unat ?c mod 16 = unat n mod 16"
    using nibble_split by metis+
  have "bo_sound (wr_bostream (writer s))" using assms by (simp add: wr_sound_def)
  from bostream_write_sound(2)[OF this, of ?c] obtain b where b:
    "bostream_write_byte ?c (wr_bostream (writer s)) = (Ret (), b)" "bo_sound b"
    "bo_data b = bo_data (wr_bostream (writer s)) @ [?c]" "bo_name b = bo_name (wr_bostream (writer s))"
    by blast
  let ?w = "(writer s)\<lparr>wr_new_byte := True, wr_byte := ?c, wr_bostream := b\<rparr>"
  have "tdf_write_nibble n s = (Ret (), s\<lparr>writer := ?w\<rparr>)"
    using False b(1) by (simp add: tdf_write_nibble_def Let_def on_bostream_def)
  moreover have "emits (writer s) [unat n mod 16] ?w"
    using False b c by (simp add: emits_def wr_nibbles_def wr_sound_def)
  ultimately show ?thesis by blast
qed

lemma tdf_write_align_sound:
  assumes "wr_sound (writer s)"
  shows "\<exists>w. tdf_write_align s = (Ret (), s\<lparr>writer := w\<rparr>)
    \<and> emits (writer s) (if wr_new_byte (writer s) then [] else [0]) w \<and> wr_new_byte w"
proof (cases "wr_new_byte (writer s)")
  case True
  with assms show ?thesis
    by (auto simp: tdf_write_align_def emits_def intro!: exI [of _ "writer s"])
next
  case False
  have "bo_sound (wr_bostream (writer s))" using assms by (simp add: wr_sound_def)
  from bostream_write_sound(2)[OF this, of "wr_byte (writer s)"] obtain b where b:
    "bostream_write_byte (wr_byte (writer s)) (wr_bostream (writer s)) = (Ret (), b)" "bo_sound b"
    "bo_data b = bo_data (wr_bostream (writer s)) @ [wr_byte (writer s)]"
    "bo_name b = bo_name (wr_bostream (writer s))"
    by blast
  let ?w = "(writer s)\<lparr>wr_bostream := b, wr_new_byte := True\<rparr>"
  have "tdf_write_align s = (Ret (), s\<lparr>writer := ?w\<rparr>)"
    using False b(1) by (simp add: tdf_write_align_def on_bostream_def bind_def prog_simps)
  moreover have "emits (writer s) [0] ?w"
    using False b assms by (simp add: emits_def wr_nibbles_def wr_sound_def)
  ultimately show ?thesis using False by auto
qed

lemma tdf_write_bytes_sound:
  assumes "wr_sound (writer s)"
  shows "\<exists>w. tdf_write_bytes bs s = (Ret (), s\<lparr>writer := w\<rparr>)
    \<and> emits (writer s) ((if wr_new_byte (writer s) then [] else [0]) @ bytes_nibbles bs) w"
proof -
  obtain w where w: "tdf_write_align s = (Ret (), s\<lparr>writer := w\<rparr>)"
    "emits (writer s) (if wr_new_byte (writer s) then [] else [0]) w" "wr_new_byte w"
    using tdf_write_align_sound[OF assms] by blast
  have "bo_sound (wr_bostream w)" using w(2) by (simp add: emits_def wr_sound_def)
  from bostream_write_sound(1)[OF this, of bs] obtain b where b:
    "bostream_write_chars bs (wr_bostream w) = (Ret (), b)" "bo_sound b"
    "bo_data b = bo_data (wr_bostream w) @ bs" "bo_name b = bo_name (wr_bostream w)"
    by blast
  let ?w = "w\<lparr>wr_bostream := b\<rparr>"
  have "tdf_write_bytes bs s = (Ret (), s\<lparr>writer := ?w\<rparr>)"
    using w(1) b(1) by (simp add: tdf_write_bytes_def on_bostream_def)
  moreover have "emits w (bytes_nibbles bs) ?w"
    using w(3) b by (simp add: emits_def wr_nibbles_def wr_sound_def)
  ultimately show ?thesis using emits_trans[OF w(2)] by blast
qed

section \<open>Integers\<close>

text \<open>The octal digits of a number, most significant first, and the half bytes that encode it.\<close>

fun octal :: "nat \<Rightarrow> nat list" where
  "octal n = (if n < 8 then [n] else octal (n div 8) @ [n mod 8])"

declare octal.simps [simp del]

definition int_nibbles :: "nat \<Rightarrow> nat list" where
  "int_nibbles n = (if n < 8 then [] else octal (n div 8)) @ [n mod 8 + 8]"

definition octal_value :: "nat \<Rightarrow> nat list \<Rightarrow> nat" where
  "octal_value v ds = foldl (\<lambda>v d. v * 8 + d) v ds"

lemma octal_value_ge: "v \<le> octal_value v ds"
proof (induction ds arbitrary: v)
  case (Cons d ds)
  have "v \<le> v * 8 + d" by simp
  also have "\<dots> \<le> octal_value (v * 8 + d) ds" by (rule Cons.IH)
  finally show ?case by (simp add: octal_value_def)
qed (simp add: octal_value_def)

lemma octal_value_octal: "octal_value 0 (octal n) = n"
proof (induction n rule: octal.induct)
  case (1 n)
  show ?case
  proof (cases "n < 8")
    case False
    with 1 have "octal_value 0 (octal (n div 8)) = n div 8" by simp
    with False show ?thesis by (subst octal.simps) (simp add: octal_value_def)
  qed (subst octal.simps, simp add: octal_value_def)
qed

lemma octal_digits: "d \<in> set (octal n) \<Longrightarrow> d < 8"
proof (induction n rule: octal.induct)
  case (1 n)
  show ?case
  proof (cases "n < 8")
    case False
    with 1 show ?thesis by (subst (asm) (2) octal.simps) auto
  next
    case True
    with 1 show ?thesis by (subst (asm) (2) octal.simps) auto
  qed
qed

lemma push_bit_or_digit:
  assumes "unat v < 536870912"
  shows "unat (push_bit 3 v OR (n AND 7) :: cuint) = unat v * 8 + unat n mod 8"
proof -
  have p: "unat (push_bit 3 v) = unat v * 8"
    using assms by (simp add: unat_push_bit)
  have "n AND 7 = take_bit 3 n" by (simp add: take_bit_eq_mask mask_eq_exp_minus_1)
  then have "push_bit 3 v AND (n AND 7) = 0"
    by (simp only:) (rule bit_eqI, auto simp only: bit_and_iff bit_push_bit_iff bit_take_bit_iff bit_0_eq)
  then show ?thesis by (simp add: unat_or_disjoint p unat_and_7)
qed

lemma and_8_iff: "(n::cuint) AND 8 \<noteq> 0 \<longleftrightarrow> unat n div 8 mod 2 = 1"
proof -
  have "n AND 8 \<noteq> 0 \<longleftrightarrow> bit n 3"
    using and_exp_eq_0_iff_not_bit[of n 3] by simp
  also have "\<dots> \<longleftrightarrow> bit (unat n) 3" by (simp add: bit_unsigned_iff)
  also have "\<dots> \<longleftrightarrow> odd (unat n div 8)" using bit_iff_odd[of "unat n" 3] by simp
  finally show ?thesis by (simp add: odd_iff_mod_2_eq_one)
qed


lemma drop_bit_UINT_MAX: "v > drop_bit 3 UINT_MAX \<longleftrightarrow> 536870912 \<le> unat (v::cuint)"
  by (auto simp: word_less_nat_alt unat_simps)

lemma tdf_read_int_loop_sound:
  assumes "rd_sound (reader s)" "rd_nibbles (reader s) = ds @ (d + 8) # rest"
    and "\<forall>x\<in>set ds. x < 8" "d < 8" "octal_value (unat v) (ds @ [d]) < 4294967296"
  shows "\<exists>r w. tdf_read_int_loop v s = (Ret w, s\<lparr>reader := r\<rparr>)
    \<and> unat w = octal_value (unat v) (ds @ [d]) \<and> advances (reader s) (ds @ [d + 8]) r"
  using assms
proof (induction ds arbitrary: v s)
  case Nil
  obtain r n where n: "tdf_read_nibble s = (Ret n, s\<lparr>reader := r\<rparr>)" "unat n = d + 8"
    "advances (reader s) [d + 8] r"
    using tdf_read_nibble_sound[of s "d + 8" rest] Nil by auto
  have v: "unat v < 536870912" using Nil.prems by (simp add: octal_value_def)
  have "n AND 8 \<noteq> 0" using Nil.prems n(2) by (simp add: and_8_iff)
  with v n have "tdf_read_int_loop v s = (Ret (push_bit 3 v OR (n AND 7)), s\<lparr>reader := r\<rparr>)"
    by (subst tdf_read_int_loop.simps) (simp add: drop_bit_UINT_MAX Let_def)
  moreover have "unat (push_bit 3 v OR (n AND 7)) = octal_value (unat v) [d]"
    using push_bit_or_digit[OF v, of n] n(2) Nil.prems by (simp add: octal_value_def)
  ultimately show ?case using n(3) by auto
next
  case (Cons x ds)
  obtain r n where n: "tdf_read_nibble s = (Ret n, s\<lparr>reader := r\<rparr>)" "unat n = x"
    "advances (reader s) [x] r"
    using tdf_read_nibble_sound[of s x "ds @ (d + 8) # rest"] Cons.prems by auto
  have ge: "octal_value (unat v * 8 + x) (ds @ [d]) = octal_value (unat v) ((x # ds) @ [d])"
    by (simp add: octal_value_def)
  have "unat v * 8 + x \<le> octal_value (unat v) ((x # ds) @ [d])"
    using octal_value_ge[of "unat v * 8 + x" "ds @ [d]"] by (simp only: ge)
  then have v: "unat v < 536870912" using Cons.prems by simp
  let ?v = "push_bit 3 v OR (n AND 7)"
  have uv: "unat ?v = unat v * 8 + x"
    using push_bit_or_digit[OF v, of n] n(2) Cons.prems by simp
  have "\<not> n AND 8 \<noteq> 0" using Cons.prems n(2) by (simp only: and_8_iff) simp
  with v n have step: "tdf_read_int_loop v s = tdf_read_int_loop ?v (s\<lparr>reader := r\<rparr>)"
    by (subst tdf_read_int_loop.simps) (simp add: drop_bit_UINT_MAX Let_def)
  have "rd_sound r" "rd_nibbles r = ds @ (d + 8) # rest"
    using n(3) Cons.prems by (simp_all add: advances_def)
  then obtain r' w where w: "tdf_read_int_loop ?v (s\<lparr>reader := r\<rparr>) = (Ret w, s\<lparr>reader := r'\<rparr>)"
    "unat w = octal_value (unat v) ((x # ds) @ [d])" "advances r (ds @ [d + 8]) r'"
    using Cons.IH[of "s\<lparr>reader := r\<rparr>" ?v] Cons.prems by (auto simp: uv ge)
  have "advances (reader s) ((x # ds) @ [d + 8]) r'"
    using advances_trans[OF n(3) w(3)] by simp
  with step w show ?case by auto
qed

lemma tdf_read_int_loop_overflow:
  assumes "rd_sound (reader s)" "rd_nibbles (reader s) = ds @ (d + 8) # rest"
    and "\<forall>x\<in>set ds. x < 8" "d < 8" "4294967296 \<le> octal_value (unat v) (ds @ [d])"
  shows "\<exists>r. tdf_read_int_loop v s = error_throw XX_tdf_read_error (s\<lparr>reader := r\<rparr>)"
  using assms
proof (induction ds arbitrary: v s)
  case Nil
  obtain r n where n: "tdf_read_nibble s = (Ret n, s\<lparr>reader := r\<rparr>)"
    using tdf_read_nibble_sound[of s "d + 8" rest] Nil by auto
  have v: "v > drop_bit 3 UINT_MAX" using Nil.prems by (simp add: octal_value_def drop_bit_UINT_MAX)
  with n show ?case
    by (subst tdf_read_int_loop.simps) auto
next
  case (Cons x ds)
  obtain r n where n: "tdf_read_nibble s = (Ret n, s\<lparr>reader := r\<rparr>)" "unat n = x"
    "advances (reader s) [x] r"
    using tdf_read_nibble_sound[of s x "ds @ (d + 8) # rest"] Cons.prems by auto
  show ?case
  proof (cases "unat v < 536870912")
    case v: True
    let ?v = "push_bit 3 v OR (n AND 7)"
    have uv: "unat ?v = unat v * 8 + x"
      using push_bit_or_digit[OF v, of n] n(2) Cons.prems by simp
    have "\<not> n AND 8 \<noteq> 0" using Cons.prems n(2) by (simp only: and_8_iff) simp
    with v n have step: "tdf_read_int_loop v s = tdf_read_int_loop ?v (s\<lparr>reader := r\<rparr>)"
      by (subst tdf_read_int_loop.simps) (simp add: drop_bit_UINT_MAX Let_def)
    have "rd_sound r" "rd_nibbles r = ds @ (d + 8) # rest"
      using n(3) Cons.prems by (simp_all add: advances_def)
    moreover have "4294967296 \<le> octal_value (unat ?v) (ds @ [d])"
      using Cons.prems(5) by (simp only: uv) (simp add: octal_value_def)
    ultimately show ?thesis
      using Cons.IH[of "s\<lparr>reader := r\<rparr>" ?v] Cons.prems by (simp add: step)
  next
    case False
    then have "v > drop_bit 3 UINT_MAX" by (simp add: drop_bit_UINT_MAX)
    with n show ?thesis
      by (subst tdf_read_int_loop.simps) auto
  qed
qed


lemma tdf_read_int_loop_unterminated:
  assumes "rd_sound (reader s)" "\<forall>x\<in>set (rd_nibbles (reader s)). x < 8"
  shows "\<exists>r. tdf_read_int_loop v s = error_throw XX_tdf_read_error (s\<lparr>reader := r\<rparr>)"
  using assms
proof (induction "rd_nibbles (reader s)" arbitrary: v s)
  case Nil
  then have "tdf_read_int_loop v s = error_throw XX_tdf_read_error (s\<lparr>reader := reader s\<rparr>)"
    by (subst tdf_read_int_loop.simps) (simp add: tdf_read_nibble_eof error_throw_eq)
  then show ?case by blast
next
  case (Cons x ds)
  obtain r n where n: "tdf_read_nibble s = (Ret n, s\<lparr>reader := r\<rparr>)" "unat n = x"
    "advances (reader s) [x] r"
    using tdf_read_nibble_sound[of s x ds] Cons.prems Cons.hyps by auto
  have "x < 8" using Cons.prems Cons.hyps(2) by (metis list.set_intros(1))
  then have "\<not> n AND 8 \<noteq> 0" using n(2) by (simp only: and_8_iff div_less mod_0 not_False_eq_True)
  then have step: "tdf_read_int_loop v s =
    (if v > drop_bit 3 UINT_MAX then error_throw XX_tdf_read_error (s\<lparr>reader := r\<rparr>)
     else tdf_read_int_loop (push_bit 3 v OR (n AND 7)) (s\<lparr>reader := r\<rparr>))"
    using n by (subst tdf_read_int_loop.simps) (simp add: Let_def)
  have r: "rd_sound r" "ds = rd_nibbles r"
    using n(3) Cons.hyps(2) by (simp_all add: advances_def)
  moreover have "\<forall>x\<in>set (rd_nibbles r). x < 8"
    using Cons.prems Cons.hyps(2) r by (metis list.set_intros(2))
  ultimately show ?case
    using Cons.hyps(1)[of "s\<lparr>reader := r\<rparr>" "push_bit 3 v OR (n AND 7)"] step by auto
qed

lemma octal_nonempty [simp]: "octal n \<noteq> []"
  by (subst octal.simps) simp

lemma octal_small: "n < 8 \<Longrightarrow> octal n = [n]"
  by (subst octal.simps) simp

lemma octal_big: "\<not> n < 8 \<Longrightarrow> octal n = octal (n div 8) @ [n mod 8]"
  by (subst octal.simps) simp

text \<open>The digits that \<^verbatim>\<open>tdf_write_int\<close> shifts out before the last one.\<close>

fun octal_upto :: "nat \<Rightarrow> nat \<Rightarrow> nat list" where
  "octal_upto n 0 = []"
| "octal_upto n (Suc k) = (n div 8 ^ Suc k mod 8) # octal_upto n k"

lemma octal_upto_div: "octal_upto n (Suc k) = octal_upto (n div 8) k @ [n div 8 mod 8]"
proof (induction k)
  case (Suc k)
  have "octal_upto n (Suc (Suc k)) = (n div 8 ^ Suc (Suc k) mod 8) # octal_upto n (Suc k)"
    by (rule octal_upto.simps)
  with Suc show ?case by (simp add: div_mult2_eq [symmetric] mult.assoc)
qed simp

lemma octal_upto_octal:
  "octal_upto n (length (octal n) - 1) = (if n < 8 then [] else octal (n div 8))"
proof (induction n rule: octal.induct)
  case (1 n)
  show ?case
  proof (cases "n < 8")
    case False
    then have l: "length (octal n) - 1 = Suc (length (octal (n div 8)) - 1)"
      by (simp add: octal_big)
    have "octal_upto n (length (octal n) - 1)
        = octal_upto (n div 8) (length (octal (n div 8)) - 1) @ [n div 8 mod 8]"
      by (simp only: l octal_upto_div)
    also have "\<dots> = (if n div 8 < 8 then [] else octal (n div 8 div 8)) @ [n div 8 mod 8]"
      using 1 False by simp
    also have "\<dots> = octal (n div 8)" by (auto simp: octal_small octal_big)
    finally show ?thesis using False by simp
  qed (simp add: octal_small)
qed

lemma and_not_eq_0_iff: "v AND NOT m = 0 \<longleftrightarrow> v AND m = (v::'a::len word)"
  by (auto simp: bit_eq_iff bit_and_iff bit_not_iff)

lemma tdf_int_shift_octal: "tdf_int_shift v k = k + (length (octal (unat v)) - 1)"
proof (induction v k rule: tdf_int_shift.induct)
  case (1 v k)
  have "v AND NOT 7 = 0 \<longleftrightarrow> v AND 7 = v"
    by (rule and_not_eq_0_iff)
  also have "\<dots> \<longleftrightarrow> unat v < 8"
    by (simp add: word_unat_eq_iff unat_and_7)
      (metis mod_less mod_less_divisor zero_less_numeral)
  finally have m: "v AND - 8 = 0 \<longleftrightarrow> unat v < 8" by simp
  show ?case
  proof (cases "unat v < 8")
    case True
    then show ?thesis by (subst tdf_int_shift.simps) (simp add: m octal_small)
  next
    case False
    then have "tdf_int_shift v k = tdf_int_shift (drop_bit 3 v) (k + 1)"
      by (subst tdf_int_shift.simps) (simp add: m)
    with 1 False show ?thesis
      by (simp add: m octal_big unat_drop_bit)
  qed
qed


lemma tdf_write_digits_sound:
  assumes "wr_sound (writer s)"
  shows "\<exists>w. tdf_write_digits v k s = (Ret (), s\<lparr>writer := w\<rparr>)
    \<and> emits (writer s) (octal_upto (unat v) k) w"
  using assms
proof (induction k arbitrary: s)
  case 0
  then show ?case by (auto simp: ret_def emits_refl intro!: exI [of _ "writer s"])
next
  case (Suc k)
  let ?n = "drop_bit (3 * Suc k) v AND 7"
  have "unat ?n mod 16 = unat v div 8 ^ Suc k mod 8"
    by (simp only: unat_simps power_mult) simp
  then obtain w where w: "tdf_write_nibble ?n s = (Ret (), s\<lparr>writer := w\<rparr>)"
    "emits (writer s) [unat v div 8 ^ Suc k mod 8] w"
    using tdf_write_nibble_sound[OF Suc.prems, of ?n] by auto
  moreover obtain w' where w': "tdf_write_digits v k (s\<lparr>writer := w\<rparr>) = (Ret (), s\<lparr>writer := w'\<rparr>)"
    "emits w (octal_upto (unat v) k) w'"
    using Suc.IH[of "s\<lparr>writer := w\<rparr>"] emits_sound[OF w(2)] by auto
  ultimately show ?case using emits_trans[OF w(2) w'(2)] by auto
qed

lemma tdf_write_int_sound:
  assumes "wr_sound (writer s)"
  shows "\<exists>w. tdf_write_int v s = (Ret (), s\<lparr>writer := w\<rparr>)
    \<and> emits (writer s) (int_nibbles (unat v)) w"
proof -
  obtain w where w: "tdf_write_digits v (tdf_int_shift v 0) s = (Ret (), s\<lparr>writer := w\<rparr>)"
    "emits (writer s) (if unat v < 8 then [] else octal (unat v div 8)) w"
    using tdf_write_digits_sound[OF assms, of v "tdf_int_shift v 0"]
    by (simp only: tdf_int_shift_octal add_0 octal_upto_octal) blast
  have "unat (v AND 7 OR 8) = unat (v AND 7) + 8"
  proof -
    have z: "(v AND 7) AND 8 = 0" by (simp add: and.assoc)
    show ?thesis by (subst unat_or_disjoint [OF z]) simp
  qed
  then have "unat (v AND 7 OR 8) mod 16 = unat v mod 8 + 8" by (simp add: unat_and_7)
  then obtain w' where w': "tdf_write_nibble (v AND 7 OR 8) (s\<lparr>writer := w\<rparr>) = (Ret (), s\<lparr>writer := w'\<rparr>)"
    "emits w [unat v mod 8 + 8] w'"
    using tdf_write_nibble_sound[of "s\<lparr>writer := w\<rparr>" "v AND 7 OR 8"] emits_sound[OF w(2)] by auto
  show ?thesis
    using w(1) w'(1) emits_trans[OF w(2) w'(2)] by (auto simp: tdf_write_int_def int_nibbles_def)
qed

lemma length_int_nibbles: "length (int_nibbles n) = length (octal n)"
  by (auto simp: int_nibbles_def octal_small octal_big)

lemma tdf_int_size_loop_octal: "tdf_int_size_loop v k = k + (length (octal (unat v)) - 1)"
proof (induction v k rule: tdf_int_size_loop.induct)
  case (1 v k)
  have m: "drop_bit 3 v = 0 \<longleftrightarrow> unat v < 8"
    by (simp add: word_unat_eq_iff unat_drop_bit) auto
  show ?case
  proof (cases "unat v < 8")
    case True
    then show ?thesis by (subst tdf_int_size_loop.simps) (simp add: m octal_small)
  next
    case False
    then have "tdf_int_size_loop v k = tdf_int_size_loop (drop_bit 3 v) (k + 1)"
      by (subst tdf_int_size_loop.simps) (simp add: m)
    with 1 False show ?thesis
      by (simp add: m octal_big unat_drop_bit)
  qed
qed

lemma tdf_int_size_nibbles: "tdf_int_size v = length (int_nibbles (unat v))"
  unfolding tdf_int_size_def
  by (simp add: tdf_int_size_loop_octal length_int_nibbles)

text \<open>Reading a written integer.\<close>

lemma int_nibbles_octal:
  obtains ds where "int_nibbles n = ds @ [n mod 8 + 8]" "\<forall>x\<in>set ds. x < 8"
    "octal_value 0 (ds @ [n mod 8]) = n"
proof (cases "n < 8")
  case True
  then show ?thesis using that[of "[]"] by (simp add: int_nibbles_def octal_value_def)
next
  case False
  have "octal_value 0 (octal (n div 8) @ [n mod 8]) = n"
    using octal_value_octal[of n] by (simp only: octal_big [OF False])
  moreover have "\<forall>x\<in>set (octal (n div 8)). x < 8" using octal_digits by blast
  ultimately show ?thesis using that[of "octal (n div 8)"] False by (simp add: int_nibbles_def)
qed

lemma tdf_read_int_sound:
  assumes "rd_sound (reader s)" "rd_nibbles (reader s) = int_nibbles (unat v) @ rest"
  shows "\<exists>r. tdf_read_int s = (Ret v, s\<lparr>reader := r\<rparr>) \<and> advances (reader s) (int_nibbles (unat v)) r"
proof -
  obtain ds where ds: "int_nibbles (unat v) = ds @ [unat v mod 8 + 8]" "\<forall>x\<in>set ds. x < 8"
    "octal_value 0 (ds @ [unat v mod 8]) = unat v"
    by (rule int_nibbles_octal)
  have "\<exists>r w. tdf_read_int_loop 0 s = (Ret w, s\<lparr>reader := r\<rparr>)
    \<and> unat w = octal_value (unat (0::cuint)) (ds @ [unat v mod 8])
    \<and> advances (reader s) (ds @ [unat v mod 8 + 8]) r"
    by (rule tdf_read_int_loop_sound [of _ _ _ rest])
      (use assms ds unat_less_2_32[of v] in auto)
  then show ?thesis using ds by (auto simp: tdf_read_int_def dest: word_eq_unatI)
qed


section \<open>A calculus of encodings\<close>

text \<open>
  What a sequence of calls writes depends on whether it starts at a byte boundary, so an encoding
  maps that flag to half bytes.
\<close>

type_synonym enc = "bool \<Rightarrow> nat list"

definition code_empty :: enc where
  "code_empty a = []"

definition code_seq :: "enc \<Rightarrow> enc \<Rightarrow> enc" where
  "code_seq f g a = f a @ g (a = even (length (f a)))"

definition code_pad :: enc where
  "code_pad a = (if a then [] else [0])"

fun code_list :: "('a \<Rightarrow> enc) \<Rightarrow> 'a list \<Rightarrow> enc" where
  "code_list f [] = code_empty"
| "code_list f (x # xs) = code_seq (f x) (code_list f xs)"

definition writes :: "('z io_state_scheme, unit) prog \<Rightarrow> enc \<Rightarrow> bool" where
  "writes m f \<longleftrightarrow> (\<forall>s. wr_sound (writer s) \<longrightarrow>
     (\<exists>w. m s = (Ret (), s\<lparr>writer := w\<rparr>) \<and> emits (writer s) (f (wr_new_byte (writer s))) w))"

definition reads :: "('z io_state_scheme, 'a) prog \<Rightarrow> enc \<Rightarrow> 'a \<Rightarrow> bool" where
  "reads m f x \<longleftrightarrow> (\<forall>s rest. rd_sound (reader s) \<longrightarrow>
     rd_nibbles (reader s) = f (rd_new_byte (reader s)) @ rest \<longrightarrow>
     (\<exists>r. m s = (Ret x, s\<lparr>reader := r\<rparr>) \<and> advances (reader s) (f (rd_new_byte (reader s))) r))"

named_theorems codec_intros \<open>composition of encodings\<close>

lemma writesD:
  assumes "writes m f" "wr_sound (writer s)"
  obtains w where "m s = (Ret (), s\<lparr>writer := w\<rparr>)" "emits (writer s) (f (wr_new_byte (writer s))) w"
  using assms by (auto simp: writes_def)

lemma readsD:
  assumes "reads m f x" "rd_sound (reader s)" "rd_nibbles (reader s) = f (rd_new_byte (reader s)) @ rest"
  obtains r where "m s = (Ret x, s\<lparr>reader := r\<rparr>)" "advances (reader s) (f (rd_new_byte (reader s))) r"
  using assms by (auto simp: reads_def)

lemma writes_ret [codec_intros]: "writes (ret ()) code_empty"
  unfolding writes_def
proof (intro allI impI)
  fix s :: "'a io_state_scheme"
  assume "wr_sound (writer s)"
  then have "ret () s = (Ret (), s\<lparr>writer := writer s\<rparr>)
    \<and> emits (writer s) (code_empty (wr_new_byte (writer s))) (writer s)"
    by (simp add: ret_def code_empty_def emits_refl)
  then show "\<exists>w. ret () s = (Ret (), s\<lparr>writer := w\<rparr>)
    \<and> emits (writer s) (code_empty (wr_new_byte (writer s))) w" by blast
qed

lemma reads_ret [codec_intros]: "reads (ret x) code_empty x"
  unfolding reads_def
proof (intro allI impI)
  fix s :: "'a io_state_scheme" and rest
  assume "rd_sound (reader s)"
  then have "ret x s = (Ret x, s\<lparr>reader := reader s\<rparr>)
    \<and> advances (reader s) (code_empty (rd_new_byte (reader s))) (reader s)"
    by (simp add: ret_def code_empty_def advances_def)
  then show "\<exists>r. ret x s = (Ret x, s\<lparr>reader := r\<rparr>)
    \<and> advances (reader s) (code_empty (rd_new_byte (reader s))) r" by blast
qed

lemma writes_bind [codec_intros]:
  assumes "writes m f" "writes k g"
  shows "writes (bind m (\<lambda>_. k)) (code_seq f g)"
  unfolding writes_def
proof (intro allI impI)
  fix s :: "'a io_state_scheme"
  assume "wr_sound (writer s)"
  with assms(1) obtain w where w: "m s = (Ret (), s\<lparr>writer := w\<rparr>)"
    "emits (writer s) (f (wr_new_byte (writer s))) w" by (rule writesD)
  have "wr_sound (writer (s\<lparr>writer := w\<rparr>))" using emits_sound[OF w(2)] by simp
  with assms(2) obtain w' where w': "k (s\<lparr>writer := w\<rparr>) = (Ret (), s\<lparr>writer := w\<rparr>\<lparr>writer := w'\<rparr>)"
    "emits w (g (wr_new_byte w)) w'" by (rule writesD) simp
  with w emits_trans[OF w(2) w'(2)] show "\<exists>w. bind m (\<lambda>_. k) s = (Ret (), s\<lparr>writer := w\<rparr>)
     \<and> emits (writer s) (code_seq f g (wr_new_byte (writer s))) w"
    by (auto simp: code_seq_def emits_aligned[OF w(2)])
qed

lemma reads_bind [codec_intros]:
  assumes "reads m f x" "reads (k x) g y"
  shows "reads (bind m k) (code_seq f g) y"
  unfolding reads_def
proof (intro allI impI)
  fix s :: "'a io_state_scheme" and rest
  let ?a = "rd_new_byte (reader s)"
  assume s: "rd_sound (reader s)" "rd_nibbles (reader s) = code_seq f g ?a @ rest"
  let ?rest = "g (?a = even (length (f ?a))) @ rest"
  from s have "rd_nibbles (reader s) = f ?a @ ?rest" by (simp add: code_seq_def)
  from readsD[OF assms(1) s(1) this] obtain r where r: "m s = (Ret x, s\<lparr>reader := r\<rparr>)"
    "advances (reader s) (f ?a) r" .
  have a: "rd_new_byte r = (?a = even (length (f ?a)))" using advances_aligned[OF r(2)] .
  have "rd_sound (reader (s\<lparr>reader := r\<rparr>))"
    "rd_nibbles (reader (s\<lparr>reader := r\<rparr>)) = g (rd_new_byte (reader (s\<lparr>reader := r\<rparr>))) @ rest"
    using r(2) s(2) a by (simp_all add: advances_def code_seq_def)
  from readsD[OF assms(2) this] obtain r' where
    "k x (s\<lparr>reader := r\<rparr>) = (Ret y, s\<lparr>reader := r'\<rparr>)" "advances r (g (rd_new_byte r)) r'"
    by auto
  with r a advances_trans[OF r(2)] show "\<exists>r. bind m k s = (Ret y, s\<lparr>reader := r\<rparr>)
     \<and> advances (reader s) (code_seq f g ?a) r"
    by (auto simp: code_seq_def)
qed

lemma code_seq_empty [simp]: "code_seq f code_empty = f" "code_seq code_empty f = f"
  by (auto simp: code_seq_def code_empty_def)

lemma reads_bind_ret: "reads m f x \<Longrightarrow> reads (bind m (\<lambda>x. ret (h x))) f (h x)"
  using reads_bind[OF _ reads_ret, of m f x "h"] by simp

lemma writes_for_each [codec_intros]:
  "(\<And>x. x \<in> set xs \<Longrightarrow> writes (body x) (f x)) \<Longrightarrow> writes (for_each xs body) (code_list f xs)"
  by (induction xs) (auto intro!: codec_intros)

lemma reads_collect [codec_intros]:
  "length is = length xs \<Longrightarrow> (\<And>i x. x \<in> set xs \<Longrightarrow> reads (body i) (f x) x)
     \<Longrightarrow> reads (collect is body) (code_list f xs) xs"
proof (induction "is" xs rule: list_induct2)
  case (Cons i "is" x xs)
  then have "reads (body i) (f x) x" "reads (collect is body) (code_list f xs) xs" by simp_all
  then show ?case
    using reads_bind[of "body i" "f x" x "\<lambda>y. bind (collect is body) (\<lambda>ys. ret (y # ys))"]
      reads_bind_ret[of "collect is body" "code_list f xs" xs "\<lambda>ys. x # ys"]
    by simp
qed (simp add: reads_ret)

definition code_int :: "cuint \<Rightarrow> enc" where
  "code_int v a = int_nibbles (unat v)"

definition code_nibble :: "cuint \<Rightarrow> enc" where
  "code_nibble n a = [unat n]"

definition code_bytes :: "byte list \<Rightarrow> enc" where
  "code_bytes bs = code_seq code_pad (\<lambda>a. bytes_nibbles bs)"

lemma writes_int [codec_intros]: "writes (tdf_write_int v) (code_int v)"
  using tdf_write_int_sound by (auto simp: writes_def code_int_def)

lemma reads_int [codec_intros]: "reads tdf_read_int (code_int v) v"
  using tdf_read_int_sound by (auto simp: reads_def code_int_def)

lemma writes_nibble [codec_intros]: "unat n < 16 \<Longrightarrow> writes (tdf_write_nibble n) (code_nibble n)"
  using tdf_write_nibble_sound[of _ n] by (auto simp: writes_def code_nibble_def)

lemma reads_nibble [codec_intros]: "reads tdf_read_nibble (code_nibble n) n"
  using tdf_read_nibble_sound by (fastforce simp: reads_def code_nibble_def dest: word_eq_unatI)

lemma writes_align [codec_intros]: "writes tdf_write_align code_pad"
  using tdf_write_align_sound by (fastforce simp: writes_def code_pad_def)

lemma tdf_read_align_sound:
  assumes "rd_sound (reader s)"
  shows "\<exists>r p. tdf_read_align s = (Ret (), s\<lparr>reader := r\<rparr>) \<and> rd_new_byte r
    \<and> advances (reader s) (if rd_new_byte (reader s) then [] else [p]) r"
  using assms by (auto simp: tdf_read_align_def modify_def advances_def rd_nibbles_def rd_total_def)

lemma reads_align [codec_intros]: "reads tdf_read_align code_pad ()"
  unfolding reads_def code_pad_def
proof (intro allI impI)
  fix s :: "'a io_state_scheme" and rest
  assume s: "rd_sound (reader s)"
    "rd_nibbles (reader s) = (if rd_new_byte (reader s) then [] else [0]) @ rest"
  with tdf_read_align_sound[OF s(1)] show "\<exists>r. tdf_read_align s = (Ret (), s\<lparr>reader := r\<rparr>)
    \<and> advances (reader s) (if rd_new_byte (reader s) then [] else [0]) r"
    by (auto simp: advances_def split: if_splits)
qed

lemma writes_bytes [codec_intros]: "writes (tdf_write_bytes bs) (code_bytes bs)"
  using tdf_write_bytes_sound by (fastforce simp: writes_def code_bytes_def code_pad_def code_seq_def)


lemma bytes_nibbles_split:
  assumes "bytes_nibbles xs = bytes_nibbles bs @ rest"
  shows "take (length bs) xs = bs \<and> bytes_nibbles (drop (length bs) xs) = rest \<and> length bs \<le> length xs"
proof -
  have "2 * length xs = 2 * length bs + length rest"
    using arg_cong[OF assms, of length] by simp
  then have le: "length bs \<le> length xs" by simp
  have "bytes_nibbles (take (length bs) xs) @ bytes_nibbles (drop (length bs) xs) = bytes_nibbles bs @ rest"
    using assms by (simp flip: bytes_nibbles_simps(3))
  with le show ?thesis by (simp add: append_eq_append_conv bytes_nibbles_inject)
qed

lemma tdf_read_bytes_aligned:
  assumes snd: "rd_sound (reader s)" and nb: "rd_new_byte (reader s)"
    and rest: "rd_nibbles (reader s) = bytes_nibbles bs @ rest" and len: "length ns = length bs"
  shows "\<exists>r. tdf_read_bytes ns s = (Ret bs, s\<lparr>reader := r\<rparr>) \<and> advances (reader s) (bytes_nibbles bs) r"
proof -
  have split: "take (length bs) (rd_rest (reader s)) = bs"
    "bytes_nibbles (drop (length bs) (rd_rest (reader s))) = rest" "length bs \<le> length (rd_rest (reader s))"
    using bytes_nibbles_split[of "rd_rest (reader s)" bs rest] nb rest by (simp_all add: rd_nibbles_def)
  have al: "tdf_read_align s = (Ret (), s)"
    using nb by (simp add: tdf_read_align_def modify_def)
  show ?thesis
  proof (cases "rd_u (reader s)")
    case (RT_STREAM b)
    with snd have bs: "bi_sound b" and rr: "rd_rest (reader s) = bi_rest b"
      by (simp_all add: rd_sound_def rd_rest_def)
    from bistream_read_chars_sound[OF bs, of "length bs"] obtain b' where b:
      "bistream_read_chars (length bs) b = (Ret bs, b')" "bi_rest b' = drop (length bs) (bi_rest b)"
      "bi_sound b'" "bi_bytes b' = bi_bytes b + length bs"
      using split(1,3) rr by (auto simp: min_def)
    let ?r = "(reader s)\<lparr>rd_u := RT_STREAM b'\<rparr>"
    have "tdf_read_bytes ns s = (Ret bs, s\<lparr>reader := ?r\<rparr>)"
      using al RT_STREAM b(1) len by (simp add: tdf_read_bytes_def Let_def)
    moreover have "advances (reader s) (bytes_nibbles bs) ?r"
      using nb rest RT_STREAM b split rr
      by (simp add: advances_def rd_nibbles_def rd_sound_def rd_total_def rd_rest_def rd_bytes_def
          bistream_byte_def)
    ultimately show ?thesis by blast
  next
    case (RT_STRING q)
    let ?c = "drop (rs_current q) (rs_contents q)"
    from RT_STRING snd have q: "rs_limit q = length (rs_contents q)" "rs_current q \<le> length (rs_contents q)"
      and rr: "rd_rest (reader s) = ?c"
      by (simp_all add: rd_sound_def rd_rest_def)
    have ins: "nstring_insert_cstring ns ?c = Some bs"
      using split rr len by (simp add: nstring_insert_cstring_eq)
    let ?r = "(reader s)\<lparr>rd_u := RT_STRING (q\<lparr>rs_current := rs_current q + length bs,
      rs_byte := rs_byte q + length bs\<rparr>)\<rparr>"
    have "tdf_read_bytes ns s = (Ret bs, s\<lparr>reader := ?r\<rparr>)"
      using al RT_STRING ins len q split(3) rr
      by (auto simp: tdf_read_bytes_def Let_def)
    moreover have "advances (reader s) (bytes_nibbles bs) ?r"
      using nb rest RT_STRING q split rr
      by (simp add: advances_def rd_nibbles_def rd_sound_def rd_total_def rd_rest_def rd_bytes_def add.commute)
    ultimately show ?thesis by blast
  qed
qed

lemma tdf_read_align_twice: "bind tdf_read_align (\<lambda>_. bind tdf_read_align k) = bind tdf_read_align k"
  by (rule ext) (simp add: tdf_read_align_def bind_def modify_def)

lemma tdf_read_bytes_align: "tdf_read_bytes ns = bind tdf_read_align (\<lambda>_. tdf_read_bytes ns)"
  unfolding tdf_read_bytes_def by (rule tdf_read_align_twice [symmetric])

lemma code_pad_aligns: "a = even (length (code_pad a))"
  by (simp add: code_pad_def)

lemma reads_bytes [codec_intros]:
  assumes "length ns = length bs"
  shows "reads (tdf_read_bytes ns) (code_bytes bs) bs"
  unfolding reads_def
proof (intro allI impI)
  fix s :: "'a io_state_scheme" and rest
  let ?a = "rd_new_byte (reader s)"
  assume s: "rd_sound (reader s)" "rd_nibbles (reader s) = code_bytes bs ?a @ rest"
  from s(2) have "rd_nibbles (reader s) = code_pad ?a @ (bytes_nibbles bs @ rest)"
    by (simp add: code_bytes_def code_seq_def)
  from readsD[OF reads_align s(1) this] obtain r where r: "tdf_read_align s = (Ret (), s\<lparr>reader := r\<rparr>)"
    "advances (reader s) (code_pad ?a) r" .
  have "rd_new_byte r" using advances_aligned[OF r(2)] code_pad_aligns[of ?a] by simp
  moreover have "rd_sound r" "rd_nibbles r = bytes_nibbles bs @ rest"
    using r(2) s(2) by (simp_all add: advances_def code_bytes_def code_seq_def)
  ultimately obtain r' where r': "tdf_read_bytes ns (s\<lparr>reader := r\<rparr>) = (Ret bs, s\<lparr>reader := r'\<rparr>)"
    "advances r (bytes_nibbles bs) r'"
    using tdf_read_bytes_aligned[of "s\<lparr>reader := r\<rparr>" bs rest ns] assms by auto
  have "tdf_read_bytes ns s = (Ret bs, s\<lparr>reader := r'\<rparr>)"
    by (subst tdf_read_bytes_align) (simp add: r r')
  with advances_trans[OF r(2) r'(2)] show "\<exists>r. tdf_read_bytes ns s = (Ret bs, s\<lparr>reader := r\<rparr>)
    \<and> advances (reader s) (code_bytes bs ?a) r"
    by (auto simp: code_bytes_def code_seq_def)
qed

definition code_string :: "NStringT \<Rightarrow> enc" where
  "code_string ns = code_seq (code_int 8) (code_seq (code_int (of_nat (length ns))) (code_bytes ns))"

fun code_name :: "NameKeyT \<Rightarrow> enc" where
  "code_name (KT_STRING ns) = code_seq (code_nibble 4) (code_seq code_pad (code_string ns))"
| "code_name (KT_UNIQUE cs) = code_seq (code_nibble 8) (code_seq code_pad
     (code_seq (code_int (of_nat (length cs))) (code_list code_string cs)))"

text \<open>Lengths must fit the \<^verbatim>\<open>unsigned\<close> that carries them.\<close>

definition string_ok :: "NStringT \<Rightarrow> bool" where
  "string_ok ns \<longleftrightarrow> length ns < 2 ^ 32"

fun name_ok :: "NameKeyT \<Rightarrow> bool" where
  "name_ok (KT_STRING ns) = string_ok ns"
| "name_ok (KT_UNIQUE cs) = (length cs < 2 ^ 32 \<and> (\<forall>c\<in>set cs. string_ok c))"

lemma unat_of_nat_cuint: "n < 2 ^ 32 \<Longrightarrow> unat (of_nat n :: cuint) = n"
  by (simp add: unat_of_nat take_bit_nat_eq_self)

lemma writes_string [codec_intros]: "writes (tdf_write_string ns) (code_string ns)"
  unfolding tdf_write_string_def code_string_def by (intro codec_intros)

lemma reads_string [codec_intros]:
  assumes "string_ok ns"
  shows "reads tdf_read_string (code_string ns) ns"
  unfolding tdf_read_string_def code_string_def
proof (rule reads_bind [OF reads_int])
  have "reads (bind tdf_read_int (\<lambda>len. tdf_read_bytes (nstring_init_length (unat len))))
    (code_seq (code_int (of_nat (length ns))) (code_bytes ns)) ns"
    using assms
    by (intro reads_bind [OF reads_int] reads_bytes)
      (simp add: string_ok_def nstring_init_length_def unat_of_nat_cuint)
  then show "reads (if (8::cuint) \<noteq> 8 then error_throw XX_tdf_read_error
      else bind tdf_read_int (\<lambda>len. tdf_read_bytes (nstring_init_length (unat len))))
    (code_seq (code_int (of_nat (length ns))) (code_bytes ns)) ns" by simp
qed

lemma writes_name [codec_intros]: "writes (tdf_write_name n) (code_name n)"
  by (cases n) (auto simp: tdf_write_name_def intro!: codec_intros)

lemma reads_name [codec_intros]:
  assumes "name_ok n"
  shows "reads tdf_read_name (code_name n) n"
proof (cases n)
  case (KT_STRING ns)
  with assms have "reads (bind tdf_read_align (\<lambda>_. bind tdf_read_string (\<lambda>ns. ret (name_key_init_string ns))))
    (code_seq code_pad (code_string ns)) n"
    by (auto simp: name_key_init_string_def intro!: codec_intros reads_bind_ret [where h = KT_STRING])
  then show ?thesis
    by (simp add: tdf_read_name_def KT_STRING) (rule reads_bind [OF reads_nibble], simp)
next
  case (KT_UNIQUE cs)
  let ?k = "\<lambda>components::cuint. bind (collect [0..<unat components] (\<lambda>i. tdf_read_string)) (\<lambda>cs. ret (KT_UNIQUE cs))"
  have l: "length [0..<unat (of_nat (length cs) :: cuint)] = length cs"
    using assms KT_UNIQUE unat_of_nat_cuint[of "length cs"] by simp
  have "reads (?k (of_nat (length cs))) (code_list code_string cs) n"
    unfolding KT_UNIQUE using assms KT_UNIQUE
    by (intro reads_bind_ret reads_collect [OF l] reads_string) simp
  then have "reads (bind tdf_read_align (\<lambda>_. bind tdf_read_int ?k))
    (code_seq code_pad (code_seq (code_int (of_nat (length cs))) (code_list code_string cs))) n"
    by (intro reads_bind [OF reads_align] reads_bind [OF reads_int])
  then show ?thesis
    by (simp add: tdf_read_name_def KT_UNIQUE) (rule reads_bind [OF reads_nibble], simp)
qed


section \<open>Codecs\<close>

text \<open>
  The contract between a writing function and the reading function of the same datum, and what
  follows from it for whole files: what is written, padded to a byte boundary, is read back.
\<close>

lemma codec_file_roundtrip:
  assumes wf: "writes w f" and rf: "reads r f x"
    and w: "wr_sound (writer s)" "wr_new_byte (writer s)" "bo_data (wr_bostream (writer s)) = []"
  shows "\<exists>s'. bind w (\<lambda>_. tdf_write_align) s = (Ret (), s') \<and>
    (\<forall>t rest. rd_sound (reader t) \<and> rd_new_byte (reader t) \<and> rd_rest (reader t) = bo_data (wr_bostream (writer s')) @ rest \<longrightarrow>
      (\<exists>t'. bind r (\<lambda>x. bind tdf_read_align (\<lambda>_. ret x)) t = (Ret x, t') \<and> rd_rest (reader t') = rest))"
proof -
  have "writes (bind w (\<lambda>_. tdf_write_align)) (code_seq f code_pad)"
    by (intro codec_intros wf)
  from writesD[OF this w(1)] obtain w' where w': "bind w (\<lambda>_. tdf_write_align) s = (Ret (), s\<lparr>writer := w'\<rparr>)"
    "emits (writer s) (code_seq f code_pad True) w'" using w(2) by auto
  have al: "even (length (code_seq f code_pad True))"
    by (simp add: code_seq_def code_pad_def)
  then have d: "bytes_nibbles (bo_data (wr_bostream w')) = code_seq f code_pad True"
    using w'(2) w emits_aligned[OF w'(2)] by (simp add: emits_def wr_nibbles_def)
  have rp: "reads (bind r (\<lambda>x. bind tdf_read_align (\<lambda>_. ret x))) (code_seq f code_pad) x"
    using reads_bind[OF rf reads_bind[OF reads_align reads_ret]] by simp
  have "\<exists>t'. bind r (\<lambda>x. bind tdf_read_align (\<lambda>_. ret x)) t = (Ret x, t') \<and> rd_rest (reader t') = rest"
    if r: "rd_sound (reader t)" "rd_new_byte (reader t)" and eq: "rd_rest (reader t) = bo_data (wr_bostream w') @ rest" for t rest
  proof -
    have "rd_nibbles (reader t) = code_seq f code_pad (rd_new_byte (reader t)) @ bytes_nibbles rest"
      using r(2) eq d by (simp add: rd_nibbles_def)
    from readsD[OF rp r(1) this] obtain r' where
      r': "bind r (\<lambda>x. bind tdf_read_align (\<lambda>_. ret x)) t = (Ret x, t\<lparr>reader := r'\<rparr>)"
      "advances (reader t) (code_seq f code_pad True) r'" using r(2) by auto
    have "rd_new_byte r'" using advances_aligned[OF r'(2)] al r(2) by simp
    then have "rd_rest r' = rest"
      using r'(2) r(2) eq d by (simp add: advances_def rd_nibbles_def bytes_nibbles_inject)
    with r'(1) show ?thesis by auto
  qed
  with w'(1) show ?thesis by auto
qed

locale tdf_codec =
  fixes wr :: "'a \<Rightarrow> ('z io_state_scheme, unit) prog"
    and rd :: "('z io_state_scheme, 'a) prog"
    and enc :: "'a \<Rightarrow> enc"
    and ok :: "'a \<Rightarrow> bool"
  assumes writes_enc: "ok x \<Longrightarrow> writes (wr x) (enc x)"
    and reads_enc: "ok x \<Longrightarrow> reads rd (enc x) x"
begin

lemma writes_list: "list_all ok xs \<Longrightarrow> writes (for_each xs wr) (code_list enc xs)"
  by (rule writes_for_each) (simp add: writes_enc list_all_iff)

lemma reads_list: "list_all ok xs \<Longrightarrow> length is = length xs \<Longrightarrow> reads (collect is (\<lambda>_. rd)) (code_list enc xs) xs"
  by (rule reads_collect) (simp_all add: reads_enc list_all_iff)

text \<open>A file that holds a sequence of data delivers the data, and nothing is left but padding.\<close>

lemma file_roundtrip:
  assumes "list_all ok xs" "wr_sound (writer s)" "wr_new_byte (writer s)" "bo_data (wr_bostream (writer s)) = []"
  shows "\<exists>s'. bind (for_each xs wr) (\<lambda>_. tdf_write_align) s = (Ret (), s') \<and>
    (\<forall>t rest. rd_sound (reader t) \<and> rd_new_byte (reader t) \<and> rd_rest (reader t) = bo_data (wr_bostream (writer s')) @ rest \<longrightarrow>
      (\<exists>t'. bind (collect xs (\<lambda>_. rd)) (\<lambda>x. bind tdf_read_align (\<lambda>_. ret x)) t = (Ret xs, t') \<and> rd_rest (reader t') = rest))"
  by (rule codec_file_roundtrip [OF writes_list reads_list]) (use assms in simp_all)

end

interpretation int_codec: tdf_codec tdf_write_int tdf_read_int code_int "\<lambda>_. True"
  by unfold_locales (rule writes_int, rule reads_int)

interpretation string_codec: tdf_codec tdf_write_string tdf_read_string code_string string_ok
  by unfold_locales (rule writes_string, rule reads_string)

interpretation name_codec: tdf_codec tdf_write_name tdf_read_name code_name name_ok
  by unfold_locales (rule writes_name, rule reads_name)

end
