(* ===== verification/Names.thy ===== *)
theory Names
  imports Tables Tdf_Codec
begin

text \<open>
  External names: \<^verbatim>\<open>tld/src/adt/name-entry.c\<close> and \<^verbatim>\<open>tld/src/adt/name-table.c\<close>, with the fields
  and operations of a shape entry (\<^verbatim>\<open>shape-entry.c\<close>) that names use: the identifier counter and the
  queue of names still to be resolved. A pointer to a name entry is an index into the name table
  that owns it; the definition of a name is a reference to a capsule, the library definition a
  reference to a library capsule.
\<close>

section \<open>Data\<close>

record NameDirectT =
  nd_id :: cuint
  nd_use :: cuint
  nd_definition :: "nat option"
  nd_lib_definition :: "nat option"

datatype NameEntryTypeT =
    NT_INDIRECT nat
  | NT_INDIRECT_CYCLING nat
  | NT_INDIRECT_DONE "nat option"
  | NT_DIRECT NameDirectT
  | NT_PLACEHOLDER

record NameEntryT =
  ne_key :: NameKeyT
  ne_u :: NameEntryTypeT

type_synonym NameTableT = "NameEntryT table"

definition NAME_TABLE_SIZE :: nat where
  "NAME_TABLE_SIZE = 31"

text \<open>The list from \<^verbatim>\<open>head\<close> to \<^verbatim>\<open>tail\<close> through \<^verbatim>\<open>list_next\<close> is \<open>se_queue\<close>.\<close>

record ShapeEntryT =
  se_key :: NStringT
  se_names :: NameTableT
  se_id_count :: cuint
  se_non_empty :: bool
  se_num_lib_names :: cuint
  se_queue :: "nat list"

text \<open>Usages, \<^verbatim>\<open>tdf.h\<close>.\<close>

definition U_USED :: cuint where "U_USED = 1"
definition U_DECD :: cuint where "U_DECD = 2"
definition U_DEFD :: cuint where "U_DEFD = 4"
definition U_MULT :: cuint where "U_MULT = 8"
definition U_HIDE :: cuint where "U_HIDE = 16"

lemmas usage_defs = U_USED_def U_DECD_def U_DEFD_def U_MULT_def U_HIDE_def

definition write_usage :: "cuint \<Rightarrow> byte list" where
  "write_usage use =
     (let d = use AND U_DEFD \<noteq> 0; m = use AND U_MULT \<noteq> 0; c = use AND U_DECD \<noteq> 0; u = use AND U_USED \<noteq> 0 in
      str ''{'' @ (if d then str ''DEFD'' else [])
      @ (if m then (if d then str '', '' else []) @ str ''MULT'' else [])
      @ (if c then (if d \<or> m then str '', '' else []) @ str ''DECD'' else [])
      @ (if u then (if d \<or> m \<or> c then str '', '' else []) @ str ''USED'' else []) @ str ''}'')"

section \<open>Shape entry: identifiers and queue\<close>

definition shape_entry_next_id :: "ShapeEntryT \<Rightarrow> ('z error_state_scheme, cuint \<times> ShapeEntryT) prog" where
  "shape_entry_next_id entry =
     bind (if se_id_count entry = UINT_MAX then error_msg ERR_FATAL else ret ()) (\<lambda>_.
     ret (se_id_count entry, entry\<lparr>se_id_count := se_id_count entry + 1\<rparr>))"

definition shape_entry_add_to_list :: "ShapeEntryT \<Rightarrow> nat \<Rightarrow> ShapeEntryT" where
  "shape_entry_add_to_list entry name_entry = entry\<lparr>se_queue := se_queue entry @ [name_entry]\<rparr>"

definition shape_entry_get_from_list :: "ShapeEntryT \<Rightarrow> nat option \<times> ShapeEntryT" where
  "shape_entry_get_from_list entry =
     (case se_queue entry of
        [] \<Rightarrow> (None, entry)
      | name_entry # list_next \<Rightarrow> (Some name_entry, entry\<lparr>se_queue := list_next\<rparr>))"

section \<open>name-entry.c\<close>

definition name_entry_create_direct ::
  "NameKeyT \<Rightarrow> ShapeEntryT \<Rightarrow> ('z error_state_scheme, nat \<times> ShapeEntryT) prog" where
  "name_entry_create_direct key shape_entry =
     bind (shape_entry_next_id shape_entry) (\<lambda>(id, shape_entry).
     let (entry, names) = table_alloc \<lparr>ne_key = name_key_copy key, ne_u = NT_DIRECT
           \<lparr>nd_id = id, nd_use = 0, nd_definition = None, nd_lib_definition = None\<rparr>\<rparr> (se_names shape_entry) in
     ret (entry, shape_entry_add_to_list (shape_entry\<lparr>se_names := names\<rparr>) entry))"

definition name_entry_create_indirect :: "NameKeyT \<Rightarrow> nat \<Rightarrow> NameTableT \<Rightarrow> nat \<times> NameTableT" where
  "name_entry_create_indirect key indirect = table_alloc \<lparr>ne_key = name_key_copy key, ne_u = NT_INDIRECT indirect\<rparr>"

definition name_entry_create_place :: "NameKeyT \<Rightarrow> NameTableT \<Rightarrow> nat \<times> NameTableT" where
  "name_entry_create_place key = table_alloc \<lparr>ne_key = name_key_copy key, ne_u = NT_PLACEHOLDER\<rparr>"

definition name_entry_is_direct :: "NameEntryT \<Rightarrow> bool" where
  "name_entry_is_direct entry = (case ne_u entry of NT_DIRECT _ \<Rightarrow> True | _ \<Rightarrow> False)"

definition name_entry_is_indirect :: "NameEntryT \<Rightarrow> bool" where
  "name_entry_is_indirect entry = (case ne_u entry of
     NT_INDIRECT _ \<Rightarrow> True | NT_INDIRECT_CYCLING _ \<Rightarrow> True | NT_INDIRECT_DONE _ \<Rightarrow> True | _ \<Rightarrow> False)"

definition name_entry_is_place :: "NameEntryT \<Rightarrow> bool" where
  "name_entry_is_place entry = (ne_u entry = NT_PLACEHOLDER)"

definition name_entry_make_direct ::
  "nat \<Rightarrow> ShapeEntryT \<Rightarrow> ('z error_state_scheme, ShapeEntryT) prog" where
  "name_entry_make_direct entry shape_entry =
     bind (check (name_entry_is_place (entries (se_names shape_entry) ! entry))) (\<lambda>_.
     bind (shape_entry_next_id shape_entry) (\<lambda>(id, shape_entry).
     let e = entries (se_names shape_entry) ! entry;
         e' = e\<lparr>ne_u := NT_DIRECT \<lparr>nd_id = id, nd_use = 0, nd_definition = None, nd_lib_definition = None\<rparr>\<rparr> in
     ret (shape_entry_add_to_list (shape_entry\<lparr>se_names := table_set entry e' (se_names shape_entry)\<rparr>) entry)))"

definition name_entry_make_indirect :: "nat \<Rightarrow> nat \<Rightarrow> NameTableT \<Rightarrow> NameTableT option" where
  "name_entry_make_indirect entry indirect t =
     (if name_entry_is_place (entries t ! entry)
      then Some (table_set entry ((entries t ! entry)\<lparr>ne_u := NT_INDIRECT indirect\<rparr>) t) else None)"

text \<open>The union member \<^verbatim>\<open>indirect\<close>, and the member \<^verbatim>\<open>direct\<close> behind its assertion.\<close>

definition name_entry_get_indirect :: "NameEntryT \<Rightarrow> nat option option" where
  "name_entry_get_indirect entry = (case ne_u entry of
     NT_INDIRECT r \<Rightarrow> Some (Some r) | NT_INDIRECT_CYCLING r \<Rightarrow> Some (Some r)
   | NT_INDIRECT_DONE r \<Rightarrow> Some r | _ \<Rightarrow> None)"

definition direct :: "NameEntryT \<Rightarrow> NameDirectT option" where
  "direct entry = (case ne_u entry of NT_DIRECT d \<Rightarrow> Some d | _ \<Rightarrow> None)"

definition direct_update :: "(NameDirectT \<Rightarrow> NameDirectT) \<Rightarrow> NameEntryT \<Rightarrow> NameEntryT option" where
  "direct_update f entry = map_option (\<lambda>d. entry\<lparr>ne_u := NT_DIRECT (f d)\<rparr>) (direct entry)"

definition name_entry_id :: "NameEntryT \<Rightarrow> cuint option" where
  "name_entry_id entry = map_option nd_id (direct entry)"

definition name_entry_merge_use :: "cuint \<Rightarrow> NameEntryT \<Rightarrow> NameEntryT option" where
  "name_entry_merge_use use = direct_update (\<lambda>d. d\<lparr>nd_use := nd_use d OR use\<rparr>)"

definition name_entry_get_use :: "NameEntryT \<Rightarrow> cuint option" where
  "name_entry_get_use entry =
     map_option (\<lambda>d. nd_use d AND (U_DEFD OR U_DECD OR U_MULT OR U_USED)) (direct entry)"

definition name_entry_hide :: "NameEntryT \<Rightarrow> NameEntryT option" where
  "name_entry_hide = direct_update (\<lambda>d. d\<lparr>nd_use := nd_use d OR U_HIDE\<rparr>)"

definition name_entry_unhide :: "NameEntryT \<Rightarrow> NameEntryT option" where
  "name_entry_unhide = direct_update (\<lambda>d. d\<lparr>nd_use := nd_use d AND NOT U_HIDE\<rparr>)"

definition name_entry_is_hidden :: "NameEntryT \<Rightarrow> bool option" where
  "name_entry_is_hidden entry = map_option (\<lambda>d. nd_use d AND U_HIDE = U_HIDE) (direct entry)"

definition name_entry_set_definition :: "nat option \<Rightarrow> NameEntryT \<Rightarrow> NameEntryT option" where
  "name_entry_set_definition capsule = direct_update (\<lambda>d. d\<lparr>nd_definition := capsule\<rparr>)"

definition name_entry_get_definition :: "NameEntryT \<Rightarrow> nat option option" where
  "name_entry_get_definition entry = map_option nd_definition (direct entry)"

definition name_entry_set_lib_definition :: "nat option \<Rightarrow> NameEntryT \<Rightarrow> NameEntryT option" where
  "name_entry_set_lib_definition capsule = direct_update (\<lambda>d. d\<lparr>nd_lib_definition := capsule\<rparr>)"

definition name_entry_get_lib_definition :: "NameEntryT \<Rightarrow> nat option option" where
  "name_entry_get_lib_definition entry = map_option nd_lib_definition (direct entry)"

text \<open>
  Following renames. The entries on the path from the first call are marked \<^verbatim>\<open>NT_INDIRECT_CYCLING\<close>;
  each call turns one \<^verbatim>\<open>NT_INDIRECT\<close> entry into another kind, which bounds the recursion.
\<close>

definition indirects :: "NameTableT \<Rightarrow> nat" where
  "indirects t = card {r. r < length (entries t) \<and> (\<exists>q. ne_u (entries t ! r) = NT_INDIRECT q)}"

definition set_u :: "nat \<Rightarrow> NameEntryTypeT \<Rightarrow> NameTableT \<Rightarrow> NameTableT" where
  "set_u r u t = table_set r ((entries t ! r)\<lparr>ne_u := u\<rparr>) t"

lemma indirects_less:
  assumes "r < length (entries t)" "ne_u (entries t ! r) = NT_INDIRECT q" "\<nexists>q. u = NT_INDIRECT q"
  shows "indirects (set_u r u t) < indirects t"
  unfolding indirects_def
proof (rule psubset_card_mono)
  let ?A = "\<lambda>t. {r. r < length (entries t) \<and> (\<exists>q. ne_u (entries t ! r) = NT_INDIRECT q)}"
  show "finite (?A t)" by simp
  have "r \<in> ?A t" "r \<notin> ?A (set_u r u t)" "?A (set_u r u t) \<subseteq> ?A t"
    using assms by (auto simp: set_u_def nth_list_update split: if_splits)
  then show "?A (set_u r u t) \<subset> ?A t" by blast
qed

function name_entry_resolve_renames ::
  "bool \<Rightarrow> NameTableT \<Rightarrow> nat \<Rightarrow> ('z error_state_scheme, nat option \<times> NameTableT) prog" where
  "name_entry_resolve_renames report t entry s =
     (if entry < length (entries t) then
        (case ne_u (entries t ! entry) of
           NT_PLACEHOLDER \<Rightarrow> (Ret (Some entry, t), s)
         | NT_DIRECT _ \<Rightarrow> (Ret (Some entry, t), s)
         | NT_INDIRECT_DONE r \<Rightarrow> (Ret (r, t), s)
         | NT_INDIRECT_CYCLING _ \<Rightarrow>
             bind (if report then error_msg ERR_SERIOUS else ret ()) (\<lambda>_. ret (None, t)) s
         | NT_INDIRECT q \<Rightarrow>
             (case name_entry_resolve_renames report (set_u entry (NT_INDIRECT_CYCLING q) t) q s of
                (Ret (r, t'), s') \<Rightarrow> (Ret (r, set_u entry (NT_INDIRECT_DONE r) t'), s')
              | (Raise e, s') \<Rightarrow> (Raise e, s')))
      else (Raise Undefined, s))"
  by pat_completeness auto
termination
  by (relation "measure (\<lambda>(report, t, entry, s). indirects t)") (auto intro: indirects_less)

declare name_entry_resolve_renames.simps [simp del]

section \<open>name-table.c\<close>

definition name_table_slot :: "NameKeyT \<Rightarrow> nat" where
  "name_table_slot key = unat (name_key_hash_value key mod of_nat NAME_TABLE_SIZE)"

definition name_table_create :: NameTableT where
  "name_table_create = table_create NAME_TABLE_SIZE"

text \<open>The walk of a bucket that every operation starts with.\<close>

definition name_table_find :: "NameTableT \<Rightarrow> NameKeyT \<Rightarrow> nat option" where
  "name_table_find table key =
     chain_find (\<lambda>e. name_key_equal key (ne_key e)) (entries table) (contents table ! name_table_slot key)"

definition name_table_add_rename :: "NameKeyT \<Rightarrow> NameKeyT \<Rightarrow> NameTableT \<Rightarrow> NameTableT option" where
  "name_table_add_rename from to table =
     (let (to_entry, table) =
        (case name_table_find table to of
           Some to_entry \<Rightarrow> (to_entry, table)
         | None \<Rightarrow> let (to_entry, table) = name_entry_create_place to table in
                   (to_entry, table_append (name_table_slot to) to_entry table)) in
      case name_table_find table from of
        Some from_entry \<Rightarrow> name_entry_make_indirect from_entry to_entry table
      | None \<Rightarrow> let (from_entry, table) = name_entry_create_indirect from to_entry table in
                Some (table_append (name_table_slot from) from_entry table))"

fun name_table_resolve_chain ::
  "bool \<Rightarrow> nat list \<Rightarrow> NameTableT \<Rightarrow> ('z error_state_scheme, NameTableT) prog" where
  "name_table_resolve_chain report [] table = ret table"
| "name_table_resolve_chain report (entry # rest) table =
     bind (name_entry_resolve_renames report table entry) (\<lambda>(_, table).
     name_table_resolve_chain report rest table)"

definition name_table_resolve_renames ::
  "bool \<Rightarrow> NameTableT \<Rightarrow> ('z error_state_scheme, NameTableT) prog" where
  "name_table_resolve_renames report table = name_table_resolve_chain report (table_order table) table"

text \<open>
  A null pointer reached through a rename is dereferenced: after a rename cycle, adding or getting
  a name on it is undefined.
\<close>

definition name_table_add ::
  "NameKeyT \<Rightarrow> ShapeEntryT \<Rightarrow> ('z error_state_scheme, nat \<times> ShapeEntryT) prog" where
  "name_table_add key shape_entry =
     (let table = se_names shape_entry in
      case name_table_find table key of
        Some entry \<Rightarrow>
          bind (if name_entry_is_indirect (entries table ! entry)
                then bind (defined (name_entry_get_indirect (entries table ! entry))) defined
                else ret entry) (\<lambda>entry.
          if name_entry_is_place (entries table ! entry)
          then bind (name_entry_make_direct entry shape_entry) (\<lambda>shape_entry. ret (entry, shape_entry))
          else ret (entry, shape_entry))
      | None \<Rightarrow>
          bind (name_entry_create_direct key shape_entry) (\<lambda>(entry, shape_entry).
          ret (entry, shape_entry\<lparr>se_names :=
            table_append (name_table_slot key) entry (se_names shape_entry)\<rparr>)))"

definition name_table_get :: "NameTableT \<Rightarrow> NameKeyT \<Rightarrow> nat option option" where
  "name_table_get table key =
     (case name_table_find table key of
        None \<Rightarrow> Some None
      | Some entry \<Rightarrow>
          case (if name_entry_is_indirect (entries table ! entry)
                then Option.bind (name_entry_get_indirect (entries table ! entry)) id else Some entry) of
            None \<Rightarrow> None
          | Some entry \<Rightarrow> if name_entry_is_place (entries table ! entry) then Some None else Some (Some entry))"

text \<open>
  Iteration: the procedure gets the entry and its closure, and may change both.
\<close>

fun name_table_iter_chain ::
  "(NameEntryT \<Rightarrow> 'a \<Rightarrow> ('s, NameEntryT \<times> 'a) prog) \<Rightarrow> nat list \<Rightarrow> NameTableT \<Rightarrow> 'a
     \<Rightarrow> ('s, NameTableT \<times> 'a) prog" where
  "name_table_iter_chain proc [] table closure = ret (table, closure)"
| "name_table_iter_chain proc (r # rs) table closure =
     (if name_entry_is_direct (entries table ! r) then
        bind (proc (entries table ! r) closure) (\<lambda>(entry, closure).
        name_table_iter_chain proc rs (table_set r entry table) closure)
      else name_table_iter_chain proc rs table closure)"

definition name_table_iter ::
  "NameTableT \<Rightarrow> (NameEntryT \<Rightarrow> 'a \<Rightarrow> ('s, NameEntryT \<times> 'a) prog) \<Rightarrow> 'a \<Rightarrow> ('s, NameTableT \<times> 'a) prog" where
  "name_table_iter table proc closure = name_table_iter_chain proc (table_order table) table closure"

section \<open>name-entry.c: procedures for iteration\<close>

definition name_entry_do_count :: "NameEntryT \<Rightarrow> cuint \<Rightarrow> ('s, NameEntryT \<times> cuint) prog" where
  "name_entry_do_count entry num = bind (defined (name_entry_is_hidden entry)) (\<lambda>hidden.
     ret (entry, if \<not> hidden then num + 1 else num))"

definition name_entry_write_name :: "NameEntryT \<Rightarrow> unit \<Rightarrow> ('z io_state_scheme, NameEntryT \<times> unit) prog" where
  "name_entry_write_name entry _ = bind (defined (name_entry_is_hidden entry)) (\<lambda>hidden.
     if \<not> hidden then
       bind (defined (name_entry_id entry)) (\<lambda>id.
       bind (tdf_write_int id) (\<lambda>_.
       bind (tdf_write_name (ne_key entry)) (\<lambda>_. ret (entry, ()))))
     else ret (entry, ()))"

definition name_entry_compute_tld_size :: "NameEntryT \<Rightarrow> nat \<Rightarrow> ('s, NameEntryT \<times> nat) prog" where
  "name_entry_compute_tld_size entry sz = bind (defined (name_entry_is_hidden entry)) (\<lambda>hidden.
     if \<not> hidden then bind (defined (name_entry_get_use entry)) (\<lambda>use. ret (entry, sz + tdf_int_size use))
     else ret (entry, sz))"

definition name_entry_write_tld :: "NameEntryT \<Rightarrow> unit \<Rightarrow> ('z io_state_scheme, NameEntryT \<times> unit) prog" where
  "name_entry_write_tld entry _ = bind (defined (name_entry_is_hidden entry)) (\<lambda>hidden.
     if \<not> hidden then
       bind (defined (name_entry_get_use entry)) (\<lambda>use.
       bind (tdf_write_int use) (\<lambda>_. ret (entry, ())))
     else ret (entry, ()))"

definition name_entry_check_multi_defs ::
  "NameEntryT \<Rightarrow> unit \<Rightarrow> ('z error_state_scheme, NameEntryT \<times> unit) prog" where
  "name_entry_check_multi_defs entry _ =
     bind (defined (name_entry_get_use entry)) (\<lambda>use.
     bind (defined (name_entry_get_definition entry)) (\<lambda>definition.
     bind (if use AND U_MULT \<noteq> 0 \<and> definition = None then error_msg ERR_SERIOUS else ret ()) (\<lambda>_.
     ret (entry, ()))))"

definition name_entry_do_lib_count :: "NameEntryT \<Rightarrow> cuint \<Rightarrow> ('s, NameEntryT \<times> cuint) prog" where
  "name_entry_do_lib_count entry num_names = bind (defined (name_entry_get_definition entry)) (\<lambda>definition.
     ret (entry, if definition \<noteq> None then num_names + 1 else num_names))"

text \<open>\<open>capsule_get_index\<close> is the index field of the capsule.\<close>

definition name_entry_do_lib_write ::
  "(nat \<Rightarrow> cuint) \<Rightarrow> NameEntryT \<Rightarrow> unit \<Rightarrow> ('z io_state_scheme, NameEntryT \<times> unit) prog" where
  "name_entry_do_lib_write capsule_get_index entry _ = bind (defined (name_entry_get_definition entry)) (\<lambda>definition.
     case definition of
       None \<Rightarrow> ret (entry, ())
     | Some capsule \<Rightarrow>
         bind (defined (name_entry_get_use entry)) (\<lambda>use.
         bind (tdf_write_name (ne_key entry)) (\<lambda>_.
         bind (tdf_write_int use) (\<lambda>_.
         bind (tdf_write_int (capsule_get_index capsule)) (\<lambda>_. ret (entry, ()))))))"

definition name_entry_suppress :: "NameEntryT \<Rightarrow> unit \<Rightarrow> ('s, NameEntryT \<times> unit) prog" where
  "name_entry_suppress entry _ = bind (defined (name_entry_set_lib_definition None entry)) (\<lambda>entry. ret (entry, ()))"

definition name_entry_builder_suppress :: "NameEntryT \<Rightarrow> unit \<Rightarrow> ('s, NameEntryT \<times> unit) prog" where
  "name_entry_builder_suppress entry _ = bind (defined (name_entry_set_definition None entry)) (\<lambda>entry. ret (entry, ()))"

definition name_entry_hide_defd :: "NameEntryT \<Rightarrow> unit \<Rightarrow> ('s, NameEntryT \<times> unit) prog" where
  "name_entry_hide_defd entry _ = bind (defined (name_entry_get_use entry)) (\<lambda>use.
     if use AND U_DEFD \<noteq> 0 then bind (defined (name_entry_hide entry)) (\<lambda>entry. ret (entry, ()))
     else ret (entry, ()))"

definition name_entry_keep :: "NameEntryT \<Rightarrow> unit \<Rightarrow> ('s, NameEntryT \<times> unit) prog" where
  "name_entry_keep entry _ = bind (defined (name_entry_unhide entry)) (\<lambda>entry. ret (entry, ()))"

definition name_entry_suppress_mult :: "NameEntryT \<Rightarrow> unit \<Rightarrow> ('s, NameEntryT \<times> unit) prog" where
  "name_entry_suppress_mult entry _ = bind (defined (name_entry_get_use entry)) (\<lambda>use.
     if use AND (U_DEFD OR U_MULT) = U_MULT
     then bind (defined (name_entry_set_definition None entry)) (\<lambda>entry. ret (entry, ()))
     else ret (entry, ()))"

definition name_entry_lib_suppress_mult :: "NameEntryT \<Rightarrow> unit \<Rightarrow> ('s, NameEntryT \<times> unit) prog" where
  "name_entry_lib_suppress_mult entry _ = bind (defined (name_entry_get_use entry)) (\<lambda>use.
     if use AND (U_DEFD OR U_MULT) = U_MULT
     then bind (defined (name_entry_set_lib_definition None entry)) (\<lambda>entry. ret (entry, ()))
     else ret (entry, ()))"

text \<open>
  The output is collected in the closure; \<open>lib_capsule_name\<close> is the name field of a library
  capsule, and a name without a library definition dereferences a null pointer.
\<close>

definition name_entry_show_content ::
  "(nat \<Rightarrow> cstring) \<Rightarrow> NameEntryT \<Rightarrow> byte list \<Rightarrow> ('s, NameEntryT \<times> byte list) prog" where
  "name_entry_show_content lib_capsule_name entry out =
     bind (defined (name_entry_get_lib_definition entry)) (\<lambda>capsule.
     bind (defined (name_entry_get_use entry)) (\<lambda>use.
     bind (defined capsule) (\<lambda>capsule.
     ret (entry, out @ str ''  '' @ write_name_key (ne_key entry) @ str '' '' @ write_usage use
            @ str '' '' @ [39] @ lib_capsule_name capsule @ [39, 10]))))"

end
