(* ===== verification/Renames.thy ===== *)
theory Renames
  imports Names
begin

text \<open>
  Facts about renaming in name tables: the name table meets the contract of \<^verbatim>\<open>Tables\<close>, and the
  resolution of renames follows every chain of renames to its end and reports exactly the cycles.
\<close>

section \<open>The name table is a chained table\<close>

interpretation name_tbl: chained_table ne_key name_table_slot NAME_TABLE_SIZE table_append name_table_find
proof
  fix t :: NameTableT and k i r
  show "name_table_slot k < NAME_TABLE_SIZE"
    by (simp add: name_table_slot_def NAME_TABLE_SIZE_def unat_mod)
  show "entries (table_append i r t) = entries t" by simp
  show "name_table_find t k = chain_find (\<lambda>e. ne_key e = k) (entries t) (contents t ! name_table_slot k)"
    by (simp add: name_table_find_def eq_commute)
qed (rule contents_append)

abbreviation name_table_wf :: "NameTableT \<Rightarrow> bool" where
  "name_table_wf \<equiv> table_wf ne_key name_table_slot NAME_TABLE_SIZE"

section \<open>Where a chain of renames leads\<close>

definition rename_step :: "NameTableT \<Rightarrow> (nat \<times> nat) set" where
  "rename_step t = {(r, q). r < length (entries t) \<and> ne_u (entries t ! r) = NT_INDIRECT q}"

inductive leads :: "NameTableT \<Rightarrow> nat \<Rightarrow> nat \<Rightarrow> bool" for t where
  final: "r < length (entries t) \<Longrightarrow> \<not> name_entry_is_indirect (entries t ! r) \<Longrightarrow> leads t r r"
| step: "(r, q) \<in> rename_step t \<Longrightarrow> leads t q x \<Longrightarrow> leads t r x"

inductive_cases leadsE: "leads t r x"

text \<open>A table that holds names and unresolved renames only, with pointers in range.\<close>

definition renames_fresh :: "NameTableT \<Rightarrow> bool" where
  "renames_fresh t \<longleftrightarrow> (\<forall>r<length (entries t). case ne_u (entries t ! r) of
     NT_INDIRECT q \<Rightarrow> q < length (entries t) | NT_INDIRECT_CYCLING _ \<Rightarrow> False
   | NT_INDIRECT_DONE _ \<Rightarrow> False | _ \<Rightarrow> True)"

lemma leads_indirect:
  assumes "(r, q) \<in> rename_step t"
  shows "leads t r x \<longleftrightarrow> leads t q x"
proof
  assume "leads t r x"
  then show "leads t q x"
    by (cases rule: leads.cases) (use assms in \<open>auto simp: rename_step_def name_entry_is_indirect_def\<close>)
qed (rule leads.step [OF assms])

lemma leads_final:
  assumes "r < length (entries t)" "\<not> name_entry_is_indirect (entries t ! r)"
  shows "leads t r y \<longleftrightarrow> y = r"
proof
  assume "leads t r y"
  then show "y = r"
    by (cases rule: leads.cases) (use assms in \<open>auto simp: rename_step_def name_entry_is_indirect_def\<close>)
qed (use assms in \<open>auto intro: leads.final\<close>)

lemma cycle_leads_nowhere:
  assumes "leads t r x" shows "(r, r) \<notin> (rename_step t)\<^sup>+"
  using assms
proof (induction rule: leads.induct)
  case (final r)
  then have "(r, q) \<notin> rename_step t" for q
    by (auto simp: rename_step_def name_entry_is_indirect_def)
  then show ?case by (meson tranclD)
next
  case (step r q x)
  show ?case
  proof
    assume "(r, r) \<in> (rename_step t)\<^sup>+"
    then obtain q' where q': "(r, q') \<in> rename_step t" "(q', r) \<in> (rename_step t)\<^sup>*" by (meson tranclD)
    with step(1) have "q' = q" by (auto simp: rename_step_def)
    with q' step(1) have "(q, q) \<in> (rename_step t)\<^sup>+" by (meson rtrancl_into_trancl1)
    with step.IH show False ..
  qed
qed

section \<open>Resolution\<close>

text \<open>A stage of the resolution of \<open>t0\<close>: some renames are being followed, some are resolved.\<close>

definition resolved_as :: "NameTableT \<Rightarrow> nat \<Rightarrow> nat option \<Rightarrow> bool" where
  "resolved_as t0 r x \<longleftrightarrow> (\<forall>y. x = Some y \<longleftrightarrow> leads t0 r y)"

definition stage :: "NameTableT \<Rightarrow> NameTableT \<Rightarrow> bool" where
  "stage t0 t \<longleftrightarrow> length (entries t) = length (entries t0) \<and> contents t = contents t0 \<and>
     (\<forall>r<length (entries t0). ne_key (entries t ! r) = ne_key (entries t0 ! r) \<and>
       (ne_u (entries t ! r) = ne_u (entries t0 ! r) \<or>
        (\<exists>q. ne_u (entries t0 ! r) = NT_INDIRECT q \<and> ne_u (entries t ! r) = NT_INDIRECT_CYCLING q) \<or>
        (\<exists>q x. ne_u (entries t0 ! r) = NT_INDIRECT q \<and> ne_u (entries t ! r) = NT_INDIRECT_DONE x
           \<and> resolved_as t0 r x)))"

definition cycling :: "NameTableT \<Rightarrow> nat set" where
  "cycling t = {r. r < length (entries t) \<and> (\<exists>q. ne_u (entries t ! r) = NT_INDIRECT_CYCLING q)}"

definition pending :: "NameTableT \<Rightarrow> nat set" where
  "pending t = {r. r < length (entries t) \<and> (\<exists>q. ne_u (entries t ! r) = NT_INDIRECT q)}"

lemma set_u_simps [simp]:
  "length (entries (set_u r u t)) = length (entries t)" "contents (set_u r u t) = contents t"
  "r < length (entries t) \<Longrightarrow> entries (set_u r u t) ! q
     = (if q = r then (entries t ! r)\<lparr>ne_u := u\<rparr> else entries t ! q)"
  by (auto simp: set_u_def nth_list_update)

lemma stage_refl: "stage t t"
  by (simp add: stage_def)

lemma stage_pending:
  "stage t0 t \<Longrightarrow> r < length (entries t) \<Longrightarrow> ne_u (entries t ! r) = NT_INDIRECT q \<Longrightarrow> (r, q) \<in> rename_step t0"
  by (auto simp: stage_def rename_step_def)

lemma stage_cycling:
  assumes "stage t0 t" "r < length (entries t)" "ne_u (entries t ! r) = NT_INDIRECT q"
  shows "stage t0 (set_u r (NT_INDIRECT_CYCLING q) t)"
    "cycling (set_u r (NT_INDIRECT_CYCLING q) t) = insert r (cycling t)"
  using assms stage_pending[OF assms] by (auto simp: stage_def cycling_def rename_step_def)

lemma stage_done:
  assumes "stage t0 t" "(r, q) \<in> rename_step t0" "resolved_as t0 r x"
  shows "stage t0 (set_u r (NT_INDIRECT_DONE x) t)"
    "cycling (set_u r (NT_INDIRECT_DONE x) t) = cycling t - {r}"
    "pending (set_u r (NT_INDIRECT_DONE x) t) = pending t - {r}"
  using assms by (auto simp: stage_def cycling_def rename_step_def pending_def split: if_splits)

lemma resolve_renames_stage:
  assumes "renames_fresh t0" "stage t0 t" "r < length (entries t0)"
    "\<forall>c\<in>cycling t. (c, r) \<in> (rename_step t0)\<^sup>+"
    "name_entry_resolve_renames report t r s = (Ret (x, t'), s')"
  shows "resolved_as t0 r x \<and> stage t0 t' \<and> cycling t' = cycling t \<and> pending t' \<subseteq> pending t - {r}"
  using assms
proof (induction report t r s arbitrary: x t' s' rule: name_entry_resolve_renames.induct)
  case (1 report t r s)
  have lt: "r < length (entries t)" using 1 by (simp add: stage_def)
  note st = 1(3)[unfolded stage_def, THEN conjunct2, THEN conjunct2, rule_format, OF 1(4)]
  show ?case
  proof (cases "ne_u (entries t ! r)")
    case (NT_INDIRECT q)
    note ind = this
    have rq: "(r, q) \<in> rename_step t0" using stage_pending[OF 1(3) lt ind] .
    let ?t1 = "set_u r (NT_INDIRECT_CYCLING q) t"
    obtain t2 where rec: "name_entry_resolve_renames report ?t1 q s = (Ret (x, t2), s')"
      and t': "t' = set_u r (NT_INDIRECT_DONE x) t2"
      using 1(6) lt ind
      by (subst (asm) name_entry_resolve_renames.simps) (auto split: prod.splits outcome.splits)
    have q: "q < length (entries t0)"
      using rq 1(2) by (auto simp: rename_step_def renames_fresh_def)
    have cyc: "\<forall>c\<in>cycling ?t1. (c, q) \<in> (rename_step t0)\<^sup>+"
      using 1(5) rq stage_cycling(2)[OF 1(3) lt ind] by (auto intro: trancl_into_trancl)
    have r2: "resolved_as t0 q x \<and> stage t0 t2 \<and> cycling t2 = cycling ?t1 \<and> pending t2 \<subseteq> pending ?t1 - {q}"
      by (rule 1(1)[OF lt ind 1(2) stage_cycling(1)[OF 1(3) lt ind] q cyc rec])
    have res: "resolved_as t0 r x"
      using r2 leads_indirect[OF rq] by (simp add: resolved_as_def)
    have "r \<notin> cycling t" using ind by (simp add: cycling_def)
    moreover have "pending ?t1 \<subseteq> pending t - {r}"
      using lt by (auto simp: pending_def split: if_splits)
    ultimately show ?thesis
      using stage_done[of t0 t2 r q x] r2 rq res t' stage_cycling(2)[OF 1(3) lt ind] by auto
  next
    case (NT_INDIRECT_CYCLING q)
    then have "r \<in> cycling t" using lt by (simp add: cycling_def)
    then have "\<not> leads t0 r y" for y using 1(5) cycle_leads_nowhere by blast
    moreover have "x = None" "t' = t"
      using 1(6) lt NT_INDIRECT_CYCLING
      by (subst (asm) name_entry_resolve_renames.simps, auto simp: bind_Ret_iff ret_def split: if_splits)+
    ultimately show ?thesis
      using 1(3) lt NT_INDIRECT_CYCLING by (auto simp: resolved_as_def pending_def)
  next
    case (NT_INDIRECT_DONE y)
    then have "x = y" "t' = t"
      using 1(6) lt by (subst (asm) name_entry_resolve_renames.simps, simp)+
    moreover have "ne_u (entries t0 ! r) \<noteq> NT_INDIRECT_DONE y"
      using 1(2,4) by (fastforce simp: renames_fresh_def)
    then have "resolved_as t0 r y" using st NT_INDIRECT_DONE by auto
    ultimately show ?thesis
      using 1(3) NT_INDIRECT_DONE by (auto simp: pending_def)
  next
    case (NT_DIRECT d)
    then have "x = Some r" "t' = t"
      using 1(6) lt by (subst (asm) name_entry_resolve_renames.simps, simp)+
    moreover have "ne_u (entries t0 ! r) = ne_u (entries t ! r)" using st NT_DIRECT by auto
    then have "leads t0 r y \<longleftrightarrow> y = r" for y
      using NT_DIRECT 1(4) by (intro leads_final) (simp_all add: name_entry_is_indirect_def)
    ultimately show ?thesis
      using 1(3) NT_DIRECT by (auto simp: resolved_as_def pending_def)
  next
    case NT_PLACEHOLDER
    then have "x = Some r" "t' = t"
      using 1(6) lt by (subst (asm) name_entry_resolve_renames.simps, simp)+
    moreover have "ne_u (entries t0 ! r) = ne_u (entries t ! r)" using st NT_PLACEHOLDER by auto
    then have "leads t0 r y \<longleftrightarrow> y = r" for y
      using NT_PLACEHOLDER 1(4) by (intro leads_final) (simp_all add: name_entry_is_indirect_def)
    ultimately show ?thesis
      using 1(3) NT_PLACEHOLDER by (auto simp: resolved_as_def pending_def)
  qed
qed


text \<open>Resolution never dereferences a bad pointer, and reports an error exactly when it meets a cycle.\<close>

lemma resolve_renames_returns:
  assumes "renames_fresh t0" "stage t0 t" "r < length (entries t0)"
  shows "(\<exists>x t'. name_entry_resolve_renames False t r s = (Ret (x, t'), s))
    \<and> ((\<exists>y. leads t0 r y) \<longrightarrow> (\<forall>c\<in>cycling t. (c, r) \<in> (rename_step t0)\<^sup>+)
        \<longrightarrow> (\<exists>x t'. name_entry_resolve_renames report t r s = (Ret (x, t'), s)))"
  using assms
proof (induction report t r s rule: name_entry_resolve_renames.induct)
  case (1 report t r s)
  have lt: "r < length (entries t)" using 1 by (simp add: stage_def)
  show ?case
  proof (cases "ne_u (entries t ! r)")
    case (NT_INDIRECT q)
    note ind = this
    have rq: "(r, q) \<in> rename_step t0" using stage_pending[OF 1(3) lt ind] .
    let ?t1 = "set_u r (NT_INDIRECT_CYCLING q) t"
    have q: "q < length (entries t0)"
      using rq 1(2) by (auto simp: rename_step_def renames_fresh_def)
    note IH = 1(1)[OF lt ind 1(2) stage_cycling(1)[OF 1(3) lt ind] q]
    have "\<exists>x t'. name_entry_resolve_renames b t r s = (Ret (x, t'), s)"
      if "\<exists>x t'. name_entry_resolve_renames b ?t1 q s = (Ret (x, t'), s)" for b
      using that lt ind by (subst name_entry_resolve_renames.simps) auto
    moreover have "\<forall>c\<in>cycling ?t1. (c, q) \<in> (rename_step t0)\<^sup>+" if "\<forall>c\<in>cycling t. (c, r) \<in> (rename_step t0)\<^sup>+"
      using that rq stage_cycling(2)[OF 1(3) lt ind] by (auto intro: trancl_into_trancl)
    ultimately show ?thesis using IH leads_indirect[OF rq] by blast
  next
    case (NT_INDIRECT_CYCLING q)
    then have "r \<in> cycling t" using lt by (simp add: cycling_def)
    then have "\<not> leads t0 r y" if "\<forall>c\<in>cycling t. (c, r) \<in> (rename_step t0)\<^sup>+" for y
      using that cycle_leads_nowhere by blast
    moreover have "name_entry_resolve_renames False t r s = (Ret (None, t), s)"
      using lt NT_INDIRECT_CYCLING
      by (subst name_entry_resolve_renames.simps) (simp add: ret_def)
    ultimately show ?thesis by blast
  qed (use lt in \<open>subst (1 2) name_entry_resolve_renames.simps, simp\<close>)+
qed

lemma resolve_chain_stage:
  assumes "renames_fresh t0" "stage t0 t" "cycling t = {}" "\<forall>r\<in>set rs. r < length (entries t0)"
    "name_table_resolve_chain report rs t s = (Ret t', s')"
  shows "stage t0 t' \<and> cycling t' = {} \<and> pending t' \<subseteq> pending t - set rs"
  using assms
proof (induction rs arbitrary: t s)
  case Nil
  then show ?case by (simp add: ret_def)
next
  case (Cons r rs)
  from Cons.prems(5) obtain x t1 s1 where
    r: "name_entry_resolve_renames report t r s = (Ret (x, t1), s1)"
    and rs: "name_table_resolve_chain report rs t1 s1 = (Ret t', s')"
    by (auto simp: bind_Ret_iff)
  have t1: "stage t0 t1" "cycling t1 = {}" "pending t1 \<subseteq> pending t - {r}"
    using resolve_renames_stage[OF Cons.prems(1,2) _ _ r] Cons.prems by auto
  from Cons.IH[OF Cons.prems(1) t1(1,2) _ rs] Cons.prems(4) t1(3) show ?case by auto
qed

lemma resolve_chain_returns:
  assumes "renames_fresh t0" "stage t0 t" "cycling t = {}" "\<forall>r\<in>set rs. r < length (entries t0)"
    "report \<longrightarrow> (\<forall>r\<in>set rs. \<exists>y. leads t0 r y)"
  shows "\<exists>t'. name_table_resolve_chain report rs t s = (Ret t', s)"
  using assms
proof (induction rs arbitrary: t)
  case Nil
  then show ?case by (simp add: ret_def)
next
  case (Cons r rs)
  obtain x t1 where r: "name_entry_resolve_renames report t r s = (Ret (x, t1), s)"
    using resolve_renames_returns[OF Cons.prems(1,2), of r s report] Cons.prems
    by (cases report) auto
  have "stage t0 t1" "cycling t1 = {}"
    using resolve_renames_stage[OF Cons.prems(1,2) _ _ r] Cons.prems by auto
  from Cons.IH[OF Cons.prems(1) this] Cons.prems(4,5) r show ?case by auto
qed

text \<open>After the walk over the whole table every rename is resolved.\<close>

definition renames_resolved :: "NameTableT \<Rightarrow> NameTableT \<Rightarrow> bool" where
  "renames_resolved t0 t \<longleftrightarrow> contents t = contents t0 \<and> length (entries t) = length (entries t0) \<and>
     (\<forall>r<length (entries t0). ne_key (entries t ! r) = ne_key (entries t0 ! r) \<and>
       (case ne_u (entries t0 ! r) of
          NT_INDIRECT q \<Rightarrow> \<exists>x. ne_u (entries t ! r) = NT_INDIRECT_DONE x \<and> resolved_as t0 r x
        | u \<Rightarrow> ne_u (entries t ! r) = u))"

lemma stage_resolved:
  assumes "renames_fresh t0" "stage t0 t" "cycling t = {}" "pending t = {}"
  shows "renames_resolved t0 t"
proof -
  have "case ne_u (entries t0 ! r) of
          NT_INDIRECT q \<Rightarrow> \<exists>x. ne_u (entries t ! r) = NT_INDIRECT_DONE x \<and> resolved_as t0 r x
        | u \<Rightarrow> ne_u (entries t ! r) = u" if "r < length (entries t0)" for r
  proof -
    have "ne_u (entries t ! r) \<noteq> NT_INDIRECT q" "ne_u (entries t ! r) \<noteq> NT_INDIRECT_CYCLING q" for q
      using assms that by (auto simp: cycling_def pending_def stage_def)
    moreover have "ne_u (entries t0 ! r) \<noteq> NT_INDIRECT_CYCLING q" for q
      using assms(1) that by (fastforce simp: renames_fresh_def)
    moreover note assms(2)[unfolded stage_def, THEN conjunct2, THEN conjunct2, rule_format, OF that]
    ultimately show ?thesis
      by (cases "ne_u (entries t0 ! r)") auto
  qed
  with assms(2) show ?thesis by (simp add: renames_resolved_def stage_def)
qed

lemma name_table_resolve_renames_resolved:
  assumes "name_table_wf t" "renames_fresh t" "name_table_resolve_renames report t s = (Ret t', s')"
  shows "renames_resolved t t'"
proof -
  have c: "cycling t = {}" using assms(2) by (fastforce simp: cycling_def renames_fresh_def)
  have o: "set (table_order t) = {..<length (entries t)}" by (rule name_tbl.order_set [OF assms(1)])
  have "stage t t' \<and> cycling t' = {} \<and> pending t' \<subseteq> pending t - set (table_order t)"
    using assms(3) o unfolding name_table_resolve_renames_def
    by (intro resolve_chain_stage [OF assms(2) stage_refl c]) auto
  moreover have "pending t \<subseteq> {..<length (entries t)}" by (auto simp: pending_def)
  ultimately have "stage t t'" "cycling t' = {}" "pending t' = {}" using o by auto
  then show ?thesis by (rule stage_resolved [OF assms(2)])
qed

lemma name_table_resolve_renames_returns:
  assumes "name_table_wf t" "renames_fresh t"
    and "report \<longrightarrow> (\<forall>r<length (entries t). \<exists>y. leads t r y)"
  shows "\<exists>t'. name_table_resolve_renames report t s = (Ret t', s)"
proof -
  have c: "cycling t = {}" using assms(2) by (fastforce simp: cycling_def renames_fresh_def)
  show ?thesis unfolding name_table_resolve_renames_def
    using assms name_tbl.order_set[OF assms(1)]
    by (intro resolve_chain_returns [OF assms(2) stage_refl c]) auto
qed


section \<open>From rename options to a table\<close>

text \<open>The loop of \<^verbatim>\<open>linker_rename_1\<close> on one table.\<close>

fun name_table_add_renames :: "(NameKeyT \<times> NameKeyT) list \<Rightarrow> NameTableT \<Rightarrow> NameTableT option" where
  "name_table_add_renames [] table = Some table"
| "name_table_add_renames ((from, to) # names) table =
     Option.bind (name_table_add_rename from to table) (name_table_add_renames names)"

text \<open>\<open>t\<close> represents the renaming relation \<open>R\<close>.\<close>

definition rename_entry :: "NameKeyT rel \<Rightarrow> NameTableT \<Rightarrow> NameKeyT \<Rightarrow> nat \<Rightarrow> bool" where
  "rename_entry R t k r \<longleftrightarrow>
     (\<exists>k' q. (k, k') \<in> R \<and> ne_u (entries t ! r) = NT_INDIRECT q \<and> name_table_find t k' = Some q)
     \<or> k \<notin> Domain R \<and> ne_u (entries t ! r) = NT_PLACEHOLDER"

definition rename_table :: "NameKeyT rel \<Rightarrow> NameTableT \<Rightarrow> bool" where
  "rename_table R t \<longleftrightarrow> name_table_wf t \<and> (\<forall>k. name_table_find t k = None \<longleftrightarrow> k \<notin> Field R) \<and>
     (\<forall>k r. name_table_find t k = Some r \<longrightarrow> rename_entry R t k r)"

lemma name_table_link:
  "table_append (name_table_slot (ne_key e)) (length (entries t)) (t\<lparr>entries := entries t @ [e]\<rparr>)
     = name_tbl.insert_entry e t"
  by (simp add: name_tbl.insert_entry_def table_alloc_def)

lemma name_table_find_lt:
  "name_table_wf t \<Longrightarrow> name_table_find t k = Some r \<Longrightarrow> r < length (entries t) \<and> ne_key (entries t ! r) = k"
  by (simp add: name_tbl.get_Some_iff)

lemma rename_entry_mono:
  assumes "rename_entry R t k r" "ne_u (entries t' ! r) = ne_u (entries t ! r)"
    and "\<And>k' q. name_table_find t k' = Some q \<Longrightarrow> name_table_find t' k' = Some q"
  shows "rename_entry R t' k r"
  using assms unfolding rename_entry_def by metis

text \<open>The first half of \<^verbatim>\<open>name_table_add_rename\<close>: the new name has an entry.\<close>

definition ensure_place :: "NameKeyT \<Rightarrow> NameTableT \<Rightarrow> NameTableT" where
  "ensure_place k t = (if name_table_find t k = None
     then name_tbl.insert_entry \<lparr>ne_key = k, ne_u = NT_PLACEHOLDER\<rparr> t else t)"

lemma ensure_place_find:
  assumes "name_table_wf t"
  shows "name_table_wf (ensure_place k t)"
    "name_table_find (ensure_place k t) k' =
       (if k' = k \<and> name_table_find t k = None then Some (length (entries t)) else name_table_find t k')"
    "name_table_find t k' = Some r \<Longrightarrow> entries (ensure_place k t) ! r = entries t ! r"
    "name_table_find t k = None \<Longrightarrow> ne_u (entries (ensure_place k t) ! length (entries t)) = NT_PLACEHOLDER"
  using assms name_tbl.insert_wf[OF assms] name_tbl.get_insert[OF assms] name_table_find_lt[OF assms]
  by (auto simp: ensure_place_def nth_append)

lemma name_table_add_rename_eq:
  "name_table_add_rename from to t =
     (let t1 = ensure_place to t; q = the (name_table_find t1 to) in
      case name_table_find t1 from of
        Some r \<Rightarrow> name_entry_make_indirect r q t1
      | None \<Rightarrow> Some (name_tbl.insert_entry \<lparr>ne_key = from, ne_u = NT_INDIRECT q\<rparr> t1))"
  if "name_table_wf t"
proof (cases "name_table_find t to")
  case None
  have "name_table_find (name_tbl.insert_entry \<lparr>ne_key = to, ne_u = NT_PLACEHOLDER\<rparr> t) to
      = Some (length (entries t))"
    using name_tbl.get_insert[OF that] None by simp
  with None show ?thesis
    using name_table_link[of "\<lparr>ne_key = to, ne_u = NT_PLACEHOLDER\<rparr>" t]
    by (simp add: name_table_add_rename_def ensure_place_def name_entry_create_place_def Let_def
        name_entry_create_indirect_def table_alloc_def name_table_link [symmetric] cong: option.case_cong)
next
  case (Some q)
  then show ?thesis
    by (simp add: name_table_add_rename_def ensure_place_def Let_def
        name_entry_create_indirect_def table_alloc_def name_table_link [symmetric] cong: option.case_cong)
qed

lemma name_table_add_rename_table:
  assumes R: "rename_table R t" and new: "from \<notin> Domain R"
  shows "\<exists>t'. name_table_add_rename from to t = Some t' \<and> rename_table (insert (from, to) R) t'"
proof -
  let ?t1 = "ensure_place to t" and ?R = "insert (from, to) R"
  have wf: "name_table_wf t" using R by (simp add: rename_table_def)
  note ep = ensure_place_find[OF wf, where k = to]
  have found: "name_table_find t k = None \<longleftrightarrow> k \<notin> Field R" for k using R by (simp add: rename_table_def)
  obtain q where q: "name_table_find ?t1 to = Some q" using ep(2)[of to] by (cases "name_table_find t to") auto
  have e1: "rename_entry R ?t1 k r" if "name_table_find ?t1 k = Some r" for k r
  proof (cases "k = to \<and> name_table_find t to = None")
    case True
    then show ?thesis using that ep(2,4) found by (auto simp: rename_entry_def Field_def)
  next
    case False
    then have k: "name_table_find t k = Some r" using that ep(2) by auto
    then have "rename_entry R t k r" using R by (simp add: rename_table_def)
    then show ?thesis by (rule rename_entry_mono) (auto simp: ep(2) ep(3)[OF k])
  qed
  show ?thesis
  proof (cases "name_table_find ?t1 from")
    case (Some r)
    have pl: "ne_u (entries ?t1 ! r) = NT_PLACEHOLDER"
      using e1[OF Some] new by (auto simp: rename_entry_def)
    let ?e = "(entries ?t1 ! r)\<lparr>ne_u := NT_INDIRECT q\<rparr>"
    let ?t2 = "table_set r ?e ?t1"
    have r: "r < length (entries ?t1)" "ne_key (entries ?t1 ! r) = from"
      using name_table_find_lt[OF ep(1) Some] by auto
    have f2: "name_table_find ?t2 k = name_table_find ?t1 k" for k
      using r by (intro name_tbl.get_set [OF ep(1)]) auto
    have "rename_entry ?R ?t2 k r'" if "name_table_find ?t2 k = Some r'" for k r'
    proof (cases "k = from")
      case True
      then show ?thesis using that q r Some f2 by (auto simp: rename_entry_def)
    next
      case False
      have "name_table_find ?t1 k = Some r'" using that f2 by simp
      moreover from this have "r' \<noteq> r" using False name_table_find_lt[OF ep(1)] r by auto
      ultimately show ?thesis using e1[of k r'] False f2 by (auto simp: rename_entry_def)
    qed
    moreover have "name_table_wf ?t2" using r by (intro name_tbl.set_wf [OF ep(1)]) auto
    moreover have "name_table_find ?t2 k = None \<longleftrightarrow> k \<notin> Field ?R" for k
    proof -
      have "name_table_find ?t2 k = None \<longleftrightarrow> k \<noteq> to \<and> name_table_find t k = None"
        by (simp add: f2 ep(2) split: if_splits) (use q ep(2)[of to] in auto)
      moreover have "name_table_find t from = None \<Longrightarrow> from = to" using Some ep(2)[of "from"] by (auto split: if_splits)
      ultimately show ?thesis using found by (auto simp: Field_def)
    qed
    moreover have "name_table_add_rename from to t = Some ?t2"
      using Some q pl by (simp add: name_table_add_rename_eq[OF wf] Let_def name_entry_make_indirect_def
          name_entry_is_place_def)
    ultimately show ?thesis by (auto simp: rename_table_def)
  next
    case None
    let ?e = "\<lparr>ne_key = from, ne_u = NT_INDIRECT q\<rparr>"
    let ?t2 = "name_tbl.insert_entry ?e ?t1"
    have f2: "name_table_find ?t2 k = (if k = from then Some (length (entries ?t1)) else name_table_find ?t1 k)" for k
      using name_tbl.get_insert[OF ep(1), of ?e k] None by simp
    have ne: "from \<noteq> to" using None q by auto
    have "rename_entry ?R ?t2 k r'" if "name_table_find ?t2 k = Some r'" for k r'
    proof (cases "k = from")
      case True
      then show ?thesis using that q f2 ne by (auto simp: rename_entry_def intro!: exI [of _ to])
    next
      case False
      then have k: "name_table_find ?t1 k = Some r'" using that f2 by simp
      then have "r' < length (entries ?t1)" using name_table_find_lt[OF ep(1)] by auto
      moreover have "k' \<noteq> from" if "(k, k') \<in> R" for k'
        using that None found ep(2)[of "from"] by (auto simp: Field_def split: if_splits)
      ultimately show ?thesis using e1[OF k] False f2 by (auto simp: rename_entry_def nth_append)
    qed
    moreover have "name_table_wf ?t2" using None by (intro name_tbl.insert_wf [OF ep(1)]) simp
    moreover have "name_table_find ?t2 k = None \<longleftrightarrow> k \<notin> Field ?R" for k
    proof -
      have "name_table_find ?t2 k = None \<longleftrightarrow> k \<noteq> from \<and> k \<noteq> to \<and> name_table_find t k = None"
        by (simp add: f2 ep(2) split: if_splits) (use q ep(2)[of to] in auto)
      then show ?thesis using found by (auto simp: Field_def)
    qed
    moreover have "name_table_add_rename from to t = Some ?t2"
      using None q by (simp add: name_table_add_rename_eq[OF wf] Let_def)
    ultimately show ?thesis by (auto simp: rename_table_def)
  qed
qed


lemma name_table_add_renames_table:
  assumes "rename_table R t" "distinct (map fst names)" "Domain R \<inter> fst ` set names = {}"
  shows "\<exists>t'. name_table_add_renames names t = Some t' \<and> rename_table (R \<union> set names) t'"
  using assms
proof (induction names arbitrary: R t)
  case (Cons p names)
  obtain "from" to where p: "p = (from, to)" by fastforce
  obtain t1 where t1: "name_table_add_rename from to t = Some t1" "rename_table (insert p R) t1"
    using name_table_add_rename_table[OF Cons.prems(1), of "from" to] Cons.prems(3) p by auto
  then obtain t2 where "name_table_add_renames names t1 = Some t2" "rename_table (insert p R \<union> set names) t2"
    using Cons.IH[OF t1(2)] Cons.prems p by auto
  with t1 p show ?case by auto
qed simp

lemma rename_table_create: "rename_table {} name_table_create"
  by (simp add: rename_table_def name_table_create_def name_tbl.create_wf name_tbl.get_create Field_def)

lemma rename_table_lookup:
  assumes R: "rename_table R t" and r: "r < length (entries t)"
  shows "rename_entry R t (ne_key (entries t ! r)) r"
  using assms name_tbl.get_Some_iff[of t "ne_key (entries t ! r)" r] by (simp add: rename_table_def)

lemma rename_table_fresh:
  assumes "rename_table R t" shows "renames_fresh t"
proof -
  have wf: "name_table_wf t" using assms by (simp add: rename_table_def)
  show ?thesis
    using rename_table_lookup[OF assms] name_table_find_lt[OF wf]
    by (fastforce simp: renames_fresh_def rename_entry_def)
qed

text \<open>Following renames in the table is following the relation to its end.\<close>

lemma rename_table_leads:
  assumes R: "rename_table R t" "single_valued R" and k: "name_table_find t k = Some r"
  shows "leads t r q \<longleftrightarrow> (\<exists>k'. (k, k') \<in> R\<^sup>* \<and> k' \<notin> Domain R \<and> name_table_find t k' = Some q)"
proof
  have wf: "name_table_wf t" using R by (simp add: rename_table_def)
  assume "leads t r q"
  then show "\<exists>k'. (k, k') \<in> R\<^sup>* \<and> k' \<notin> Domain R \<and> name_table_find t k' = Some q"
    using k
  proof (induction arbitrary: k rule: leads.induct)
    case (final r)
    have "rename_entry R t k r" using R(1) final by (simp add: rename_table_def)
    then have "k \<notin> Domain R"
      using final by (auto simp: rename_entry_def name_entry_is_indirect_def)
    with final show ?case by blast
  next
    case (step r q x)
    have "rename_entry R t k r" using R(1) step.prems by (simp add: rename_table_def)
    with step(1) obtain k' where "(k, k') \<in> R" "name_table_find t k' = Some q"
      by (auto simp: rename_entry_def rename_step_def)
    with step.IH show ?case by (meson converse_rtrancl_into_rtrancl)
  qed
next
  have wf: "name_table_wf t" using R by (simp add: rename_table_def)
  assume "\<exists>k'. (k, k') \<in> R\<^sup>* \<and> k' \<notin> Domain R \<and> name_table_find t k' = Some q"
  then obtain k' where k': "(k, k') \<in> R\<^sup>*" "k' \<notin> Domain R" "name_table_find t k' = Some q" by blast
  from k'(1) k show "leads t r q"
  proof (induction arbitrary: r rule: converse_rtrancl_induct)
    case base
    then have "rename_entry R t k' q" "r = q" using R(1) k'(3) by (simp_all add: rename_table_def)
    with k' name_table_find_lt[OF wf k'(3)] show ?case
      by (auto simp: rename_entry_def name_entry_is_indirect_def intro!: leads.final)
  next
    case (step k k1)
    have "rename_entry R t k r" using R(1) step.prems by (simp add: rename_table_def)
    with step(1) R(2) obtain q1 where "ne_u (entries t ! r) = NT_INDIRECT q1" "name_table_find t k1 = Some q1"
      by (auto simp: rename_entry_def single_valued_def)
    with step.IH name_table_find_lt[OF wf step.prems] show ?case
      by (auto simp: rename_step_def intro: leads.step)
  qed
qed

lemma name_table_find_resolved:
  assumes "renames_resolved t t'" "name_table_wf t"
  shows "name_table_find t' k = name_table_find t k" "name_table_wf t'"
proof -
  have keys: "map ne_key (entries t') = map ne_key (entries t)"
    using assms by (auto simp: renames_resolved_def intro: nth_equalityI)
  have c: "contents t' = contents t" and l: "length (entries t') = length (entries t)"
    using assms by (simp_all add: renames_resolved_def)
  have k: "ne_key (entries t' ! r) = ne_key (entries t ! r)" if "r < length (entries t)" for r
    using assms(1) that by (simp add: renames_resolved_def)
  show wf: "name_table_wf t'"
    using assms(2) k unfolding table_wf_def keys c l by (simp cong: conj_cong)
  have "name_table_find t' k = Some r \<longleftrightarrow> name_table_find t k = Some r" for r
    using k l by (auto simp: name_tbl.get_Some_iff[OF wf] name_tbl.get_Some_iff[OF assms(2)])
  then show "name_table_find t' k = name_table_find t k" by (metis not_Some_eq)
qed


section \<open>Errors\<close>

definition unresolved :: "NameTableT \<Rightarrow> bool" where
  "unresolved t \<longleftrightarrow> (\<exists>r<length (entries t). ne_u (entries t ! r) = NT_INDIRECT_DONE None)"

lemma resolve_renames_errors:
  assumes "name_entry_resolve_renames True t r s = (Ret (x, t'), s')"
  shows "number_errors s \<le> number_errors s' \<and>
    (x = None \<or> unresolved t' \<longrightarrow> unresolved t \<or> number_errors s < number_errors s')"
  using assms
proof (induction True t r s arbitrary: x t' s' rule: name_entry_resolve_renames.induct)
  case (1 t r s)
  from 1(2) have lt: "r < length (entries t)"
    by (subst (asm) name_entry_resolve_renames.simps) (auto split: if_splits)
  show ?case
  proof (cases "ne_u (entries t ! r)")
    case (NT_INDIRECT q)
    let ?t1 = "set_u r (NT_INDIRECT_CYCLING q) t"
    obtain t2 where rec: "name_entry_resolve_renames True ?t1 q s = (Ret (x, t2), s')"
      and t': "t' = set_u r (NT_INDIRECT_DONE x) t2"
      using 1(2) lt NT_INDIRECT
      by (subst (asm) name_entry_resolve_renames.simps) (auto split: prod.splits outcome.splits)
    have "unresolved ?t1 \<Longrightarrow> unresolved t"
      using lt by (auto simp: unresolved_def split: if_splits)
    moreover have "unresolved t' \<Longrightarrow> x = None \<or> unresolved t2"
      unfolding t' by (cases "r < length (entries t2)")
        (auto simp: unresolved_def set_u_def nth_list_update split: if_splits)
    ultimately show ?thesis using 1(1)[OF lt NT_INDIRECT rec] by auto
  next
    case (NT_INDIRECT_CYCLING q)
    with 1(2) lt show ?thesis
      by (subst (asm) name_entry_resolve_renames.simps)
        (auto simp: error_msg_serious bind_def ret_def split: if_splits)
  next
    case (NT_INDIRECT_DONE y)
    with 1(2) lt show ?thesis
      by (subst (asm) name_entry_resolve_renames.simps) (auto simp: unresolved_def)
  qed (use 1(2) lt in \<open>subst (asm) name_entry_resolve_renames.simps, auto\<close>)+
qed

lemma resolve_chain_errors:
  assumes "name_table_resolve_chain True rs t s = (Ret t', s')"
  shows "number_errors s \<le> number_errors s' \<and>
    (unresolved t' \<longrightarrow> unresolved t \<or> number_errors s < number_errors s')"
  using assms
proof (induction rs arbitrary: t s)
  case Nil
  then show ?case by (simp add: ret_def)
next
  case (Cons r rs)
  from Cons.prems obtain x t1 s1 where
    r: "name_entry_resolve_renames True t r s = (Ret (x, t1), s1)"
    and rs: "name_table_resolve_chain True rs t1 s1 = (Ret t', s')"
    by (auto simp: bind_Ret_iff)
  from resolve_renames_errors[OF r] Cons.IH[OF rs] show ?case by auto
qed

text \<open>Resolution with reporting can stop in one way only: the limit of errors is reached.\<close>

definition stops_at_limit :: "'z error_state_scheme \<Rightarrow> exn \<Rightarrow> 'z error_state_scheme \<Rightarrow> bool" where
  "stops_at_limit s e s' \<longleftrightarrow> e = Exit_Failure \<and> number_errors s < number_errors s' \<and> maximum_errors \<le> number_errors s'"

lemma resolve_renames_stops:
  assumes "renames_fresh t0" "stage t0 t" "r < length (entries t0)"
    "name_entry_resolve_renames True t r s = (Raise e, s')"
  shows "stops_at_limit s e s'"
  using assms
proof (induction True t r s rule: name_entry_resolve_renames.induct)
  case (1 t r s)
  have lt: "r < length (entries t)" using 1 by (simp add: stage_def)
  show ?case
  proof (cases "ne_u (entries t ! r)")
    case (NT_INDIRECT q)
    have "q < length (entries t0)"
      using stage_pending[OF "1.prems"(2) lt NT_INDIRECT] "1.prems"(1) by (auto simp: rename_step_def renames_fresh_def)
    moreover have "name_entry_resolve_renames True (set_u r (NT_INDIRECT_CYCLING q) t) q s = (Raise e, s')"
      using "1.prems"(4) lt NT_INDIRECT
      by (subst (asm) name_entry_resolve_renames.simps) (auto split: prod.splits outcome.splits)
    ultimately show ?thesis
      using "1.hyps"[OF lt NT_INDIRECT "1.prems"(1) stage_cycling(1)[OF "1.prems"(2) lt NT_INDIRECT]] by blast
  next
    case (NT_INDIRECT_CYCLING q)
    with "1.prems"(4) lt show ?thesis
      by (subst (asm) name_entry_resolve_renames.simps)
        (auto simp: stops_at_limit_def error_msg_serious bind_def ret_def split: if_splits)
  qed (use "1.prems"(4) lt in \<open>subst (asm) name_entry_resolve_renames.simps, simp\<close>)+
qed

lemma resolve_chain_stops:
  assumes "renames_fresh t0" "stage t0 t" "cycling t = {}" "\<forall>r\<in>set rs. r < length (entries t0)"
    "name_table_resolve_chain True rs t s = (Raise e, s')"
  shows "stops_at_limit s e s'"
  using assms
proof (induction rs arbitrary: t s)
  case Nil
  then show ?case by (simp add: ret_def)
next
  case (Cons r rs)
  have lt: "r < length (entries t0)" using Cons.prems by simp
  obtain o1 s1 where r: "name_entry_resolve_renames True t r s = (o1, s1)" by fastforce
  show ?case
  proof (cases o1)
    case (Raise x)
    with r Cons.prems(5) have "x = e" "s1 = s'" by (simp_all add: bind_def)
    with resolve_renames_stops[OF Cons.prems(1,2) lt] r Raise show ?thesis by simp
  next
    case (Ret v)
    obtain x t1 where v: "v = (x, t1)" by fastforce
    note r' = r[unfolded Ret v]
    have "stage t0 t1" "cycling t1 = {}"
      using resolve_renames_stage[OF Cons.prems(1,2) lt _ r'] Cons.prems(3) by auto
    moreover have "name_table_resolve_chain True rs t1 s1 = (Raise e, s')"
      using Cons.prems(5) r' by (simp add: bind_def)
    ultimately have "stops_at_limit s1 e s'" using Cons.IH[OF Cons.prems(1)] Cons.prems(4) by simp
    with resolve_renames_errors[OF r'] show ?thesis by (auto simp: stops_at_limit_def)
  qed
qed

section \<open>Properties\<close>

lemma single_valued_renames: "distinct (map fst names) \<Longrightarrow> single_valued (set names)"
  by (auto simp: single_valued_def dest: eq_key_imp_eq_value)

lemma renames_built:
  assumes "distinct (map fst names)"
  obtains t where "name_table_add_renames names name_table_create = Some t" "rename_table (set names) t"
  using name_table_add_renames_table[OF rename_table_create assms] by auto

lemma renames_end:
  assumes R: "rename_table R t" "single_valued R"
    and res: "name_table_resolve_renames report t s = (Ret t', s')" and k: "(k, k1) \<in> R"
  shows "\<exists>r x. name_table_find t' k = Some r \<and> ne_u (entries t' ! r) = NT_INDIRECT_DONE x \<and>
     (\<forall>k'. (\<exists>q. x = Some q \<and> ne_key (entries t' ! q) = k') \<longleftrightarrow> (k, k') \<in> R\<^sup>* \<and> k' \<notin> Domain R)"
proof -
  have wf: "name_table_wf t" using R by (simp add: rename_table_def)
  have rr: "renames_resolved t t'"
    by (rule name_table_resolve_renames_resolved [OF wf rename_table_fresh[OF R(1)] res])
  note find' = name_table_find_resolved[OF rr wf]
  have "name_table_find t k \<noteq> None" using R(1) k by (auto simp: rename_table_def Field_def)
  then obtain r where r: "name_table_find t k = Some r" by blast
  have rlt: "r < length (entries t)" using name_table_find_lt[OF wf r] by simp
  have "rename_entry R t k r" using R(1) r by (simp add: rename_table_def)
  with k obtain q where "ne_u (entries t ! r) = NT_INDIRECT q" by (auto simp: rename_entry_def)
  with rr rlt obtain x where x: "ne_u (entries t' ! r) = NT_INDIRECT_DONE x" "resolved_as t r x"
    by (fastforce simp: renames_resolved_def)
  have "(\<exists>q. x = Some q \<and> ne_key (entries t' ! q) = k') \<longleftrightarrow> (k, k') \<in> R\<^sup>* \<and> k' \<notin> Domain R" for k'
  proof
    assume "\<exists>q. x = Some q \<and> ne_key (entries t' ! q) = k'"
    then obtain q where q: "x = Some q" "ne_key (entries t' ! q) = k'" by blast
    then obtain k2 where k2: "(k, k2) \<in> R\<^sup>*" "k2 \<notin> Domain R" "name_table_find t k2 = Some q"
      using x(2) rename_table_leads[OF R r, of q] by (auto simp: resolved_as_def)
    have "k2 = k'" using k2(3) q find' name_table_find_lt[OF find'(2)] by metis
    with k2 show "(k, k') \<in> R\<^sup>* \<and> k' \<notin> Domain R" by simp
  next
    assume k': "(k, k') \<in> R\<^sup>* \<and> k' \<notin> Domain R"
    then have "k' \<in> Field R" using k by (metis FieldI2 Domain.DomainI rtrancl.cases Field_def Un_iff Range.intros)
    then obtain q where q: "name_table_find t k' = Some q" using R(1) by (fastforce simp: rename_table_def)
    then have "leads t r q" using rename_table_leads[OF R r] k' by blast
    then show "\<exists>q. x = Some q \<and> ne_key (entries t' ! q) = k'"
      using x(2) q find' name_table_find_lt[OF find'(2)] by (metis resolved_as_def)
  qed
  with r x(1) find'(1) show ?thesis by auto
qed

lemma acyclic_leads:
  assumes R: "rename_table R t" "single_valued R" "acyclic R" "finite R" and r: "r < length (entries t)"
  shows "\<exists>y. leads t r y"
proof -
  have wf: "name_table_wf t" using R by (simp add: rename_table_def)
  let ?k = "ne_key (entries t ! r)"
  have k: "name_table_find t ?k = Some r" using r by (simp add: name_tbl.get_Some_iff[OF wf])
  have "wf ((R\<inverse>))" using R(3,4) by (simp add: finite_acyclic_wf_converse)
  then have "\<exists>k'. (k, k') \<in> R\<^sup>* \<and> k' \<notin> Domain R" for k
  proof (induction k rule: wf_induct_rule)
    case (less k)
    show ?case
    proof (cases "k \<in> Domain R")
      case True
      then obtain k1 where k1: "(k, k1) \<in> R" by blast
      then obtain k' where "(k1, k') \<in> R\<^sup>*" "k' \<notin> Domain R" using less[of k1] by auto
      with k1 show ?thesis by (meson converse_rtrancl_into_rtrancl)
    qed blast
  qed
  then obtain k' where k': "(?k, k') \<in> R\<^sup>*" "k' \<notin> Domain R" by blast
  have "name_table_find t k' \<noteq> None"
  proof (cases "k' = ?k")
    case False
    with k'(1) have "k' \<in> Field R" by (metis FieldI2 rtranclE)
    with R(1) show ?thesis by (simp add: rename_table_def)
  qed (use k in simp)
  with k' rename_table_leads[OF R(1,2) k] show ?thesis by blast
qed


lemma cycle_has_no_end:
  assumes "single_valued R" "(k, k) \<in> R\<^sup>+" "(k, k') \<in> R\<^sup>*"
  shows "k' \<in> Domain R"
proof -
  have "(k', k') \<in> R\<^sup>+"
    using assms(3)
  proof (induction rule: rtrancl_induct)
    case (step y z)
    then obtain u where "(y, u) \<in> R" "(u, y) \<in> R\<^sup>*" by (meson tranclD)
    with step(2) assms(1) show ?case by (metis rtrancl_into_trancl1 single_valuedD)
  qed (rule assms(2))
  then show ?thesis by (meson DomainI tranclD)
qed

text \<open>C2: Renaming. Whatever renames with distinct old names are given, building the table never fails
  an assertion, resolution terminates without a report when none is asked for, and after any
  resolution that returns, each renamed name has an entry that points directly to the last name of
  its chain of renames (a name that is not itself renamed), or to nothing when the chain never
  ends.\<close>

theorem rename_resolution_correct:
  assumes "distinct (map fst names)"
  shows "\<exists>t. name_table_add_renames names name_table_create = Some t
    \<and> (\<exists>t'. name_table_resolve_renames False t (s::'z error_state_scheme) = (Ret t', s))
    \<and> (\<forall>report t' s'. name_table_resolve_renames report t s = (Ret t', s') \<longrightarrow>
         (\<forall>k\<in>fst ` set names. \<exists>r x. name_table_find t' k = Some r
           \<and> ne_u (entries t' ! r) = NT_INDIRECT_DONE x
           \<and> (\<forall>k'. (\<exists>q. x = Some q \<and> ne_key (entries t' ! q) = k')
                 \<longleftrightarrow> (k, k') \<in> (set names)\<^sup>* \<and> k' \<notin> fst ` set names)))"
proof -
  obtain t where t: "name_table_add_renames names name_table_create = Some t" "rename_table (set names) t"
    using renames_built[OF assms] .
  have "name_table_wf t" using t(2) by (simp add: rename_table_def)
  then have "\<exists>t'. name_table_resolve_renames False t s = (Ret t', s)"
    using name_table_resolve_renames_returns[OF _ rename_table_fresh[OF t(2)], of False s] by simp
  moreover have "\<exists>r x. name_table_find t' k = Some r \<and> ne_u (entries t' ! r) = NT_INDIRECT_DONE x
      \<and> (\<forall>k'. (\<exists>q. x = Some q \<and> ne_key (entries t' ! q) = k')
            \<longleftrightarrow> (k, k') \<in> (set names)\<^sup>* \<and> k' \<notin> fst ` set names)"
    if "name_table_resolve_renames report t s = (Ret t', s')" "k \<in> fst ` set names" for report t' s' k
    using renames_end[OF t(2) single_valued_renames[OF assms] that(1)] that(2)
    by (auto simp: Domain_fst)
  ultimately show ?thesis using t(1) by blast
qed

theorem rename_resolution_correct_witness:
  "\<exists>t. name_table_add_renames [(KT_STRING [97], KT_STRING [98]), (KT_STRING [98], KT_STRING [99])]
         name_table_create = Some t
    \<and> (\<exists>t'. name_table_resolve_renames False t error_start = (Ret t', error_start))"
  using rename_resolution_correct[of "[(KT_STRING [97], KT_STRING [98]), (KT_STRING [98], KT_STRING [99])]"
      "error_start"] by fastforce

text \<open>C30: Rename cycles. When no chain of renames comes back to its start, resolution with reporting
  returns and reports nothing. When one does, at least one serious error is counted: resolution
  either returns, with the errors it has counted, or ends the program because the limit of errors is
  reached. It does nothing else: in particular it never loops or dereferences a bad pointer.\<close>

theorem rename_cycle_reported:
  assumes "distinct (map fst names)" "name_table_add_renames names name_table_create = Some t"
  shows "if acyclic (set names) then \<exists>t'. name_table_resolve_renames True t s = (Ret t', s)
    else case name_table_resolve_renames True t s of
        (Ret t', s') \<Rightarrow> number_errors s < number_errors s'
      | (Raise e, s') \<Rightarrow> e = Exit_Failure \<and> number_errors s < number_errors s' \<and> maximum_errors \<le> number_errors s'"
proof -
  have R: "rename_table (set names) t" using renames_built[OF assms(1)] assms(2) by auto
  have sv: "single_valued (set names)" by (rule single_valued_renames [OF assms(1)])
  have wf: "name_table_wf t" using R by (simp add: rename_table_def)
  note fresh = rename_table_fresh[OF R]
  have none: "\<exists>t'. name_table_resolve_renames True t s = (Ret t', s)" if "acyclic (set names)"
    using acyclic_leads[OF R sv that]
    by (intro name_table_resolve_renames_returns [OF wf fresh]) simp
  have errors: "number_errors s < number_errors s'"
    if cyc: "\<not> acyclic (set names)" and res: "name_table_resolve_renames True t s = (Ret t', s')" for t' s'
  proof -
    from cyc obtain k where k: "(k, k) \<in> (set names)\<^sup>+" by (auto simp: acyclic_def)
    then obtain k1 where "(k, k1) \<in> set names" by (meson tranclD)
    from renames_end[OF R sv res this] obtain r x where r: "name_table_find t' k = Some r"
      "ne_u (entries t' ! r) = NT_INDIRECT_DONE x"
      "\<forall>k'. (\<exists>q. x = Some q \<and> ne_key (entries t' ! q) = k') \<longleftrightarrow> (k, k') \<in> (set names)\<^sup>* \<and> k' \<notin> Domain (set names)"
      by (elim exE conjE) (rule that)
    have "x = None"
    proof (rule ccontr)
      assume "x \<noteq> None"
      then obtain q where "x = Some q" by blast
      with r(3) cycle_has_no_end[OF sv k] show False by blast
    qed
    moreover have "name_table_wf t'"
      using name_table_find_resolved(2)[OF name_table_resolve_renames_resolved[OF wf fresh res] wf] .
    ultimately have "unresolved t'"
      using r(1,2) name_table_find_lt by (fastforce simp: unresolved_def)
    moreover have "\<not> unresolved t"
      using fresh by (fastforce simp: unresolved_def renames_fresh_def)
    ultimately show ?thesis
      using resolve_chain_errors[of "table_order t" t s t' s'] res by (simp add: name_table_resolve_renames_def)
  qed
  have c: "cycling t = {}" using fresh by (fastforce simp: cycling_def renames_fresh_def)
  have o: "\<forall>r\<in>set (table_order t). r < length (entries t)" by (simp add: name_tbl.order_set[OF wf])
  have "stops_at_limit s e s'" if "name_table_resolve_renames True t s = (Raise e, s')" for e s'
    using resolve_chain_stops[OF fresh stage_refl c o] that by (simp add: name_table_resolve_renames_def)
  with none errors show ?thesis by (auto simp: stops_at_limit_def split: prod.splits outcome.splits)
qed

text \<open>One rename, and two that exchange their names.\<close>

theorem rename_cycle_reported_witness:
  "(\<exists>t t'. name_table_add_renames [(KT_STRING [97], KT_STRING [98])] name_table_create = Some t
     \<and> name_table_resolve_renames True t error_start = (Ret t', error_start)) \<and>
   (\<exists>t. name_table_add_renames [(KT_STRING [97], KT_STRING [98]), (KT_STRING [98], KT_STRING [97])] name_table_create = Some t
     \<and> number_errors (snd (name_table_resolve_renames True t error_start)) > 0)"
proof -
  let ?names = "[(KT_STRING [97], KT_STRING [98])]"
  let ?cycle = "[(KT_STRING [97], KT_STRING [98]), (KT_STRING [98], KT_STRING [97])]"
  obtain t where t: "name_table_add_renames ?names name_table_create = Some t"
    using renames_built[of ?names] by auto
  have "acyclic (set ?names)"
    by (simp add: acyclic_insert acyclicI)
  with t rename_cycle_reported[of ?names t error_start]
  have 1: "\<exists>t'. name_table_resolve_renames True t error_start = (Ret t', error_start)" by auto
  obtain c where c: "name_table_add_renames ?cycle name_table_create = Some c"
    using renames_built[of ?cycle] by auto
  have "(KT_STRING [97], KT_STRING [97]) \<in> (set ?cycle)\<^sup>+"
    by (rule trancl_trans [OF r_into_trancl r_into_trancl, of _ "KT_STRING [98]"]) simp_all
  then have "\<not> acyclic (set ?cycle)" by (auto simp only: acyclic_def)
  with c rename_cycle_reported[of ?cycle c error_start]
  have "number_errors (snd (name_table_resolve_renames True c error_start)) > 0"
    by (auto split: prod.splits outcome.splits)
  with 1 t c show ?thesis by blast
qed

end
