(* ===== verification/Maps.thy ===== *)
theory Maps
  imports Tables
begin

text \<open>
  Mapping tables of units: \<^verbatim>\<open>tld/src/adt/map-entry.c\<close> and \<^verbatim>\<open>tld/src/adt/map-table.c\<close>. A mapping
  entry holds, for one shape, the number of unit scope identifiers and the links from unit scope to
  capsule scope identifiers. Fields that \<^verbatim>\<open>map_entry_create\<close> does not set start empty, and vector
  elements that no call has set are zero.
\<close>

record MapLinkT =
  ml_internal :: cuint
  ml_external :: cuint

record MapEntryT =
  me_key :: NStringT
  me_count :: cuint
  me_num_links :: cuint
  me_links :: "MapLinkT list"

type_synonym MapTableT = "MapEntryT table"

definition MAP_TABLE_SIZE :: nat where
  "MAP_TABLE_SIZE = 11"

definition map_entry_create :: "NStringT \<Rightarrow> cuint \<Rightarrow> MapTableT \<Rightarrow> nat \<times> MapTableT" where
  "map_entry_create key num = table_alloc \<lparr>me_key = nstring_copy key, me_count = num, me_num_links = 0, me_links = []\<rparr>"

definition map_entry_set_num_links :: "cuint \<Rightarrow> MapEntryT \<Rightarrow> MapEntryT" where
  "map_entry_set_num_links num_links entry =
     entry\<lparr>me_num_links := num_links,
           me_links := replicate (unat num_links) \<lparr>ml_internal = 0, ml_external = 0\<rparr>\<rparr>"

definition map_entry_set_link :: "cuint \<Rightarrow> cuint \<Rightarrow> cuint \<Rightarrow> MapEntryT \<Rightarrow> MapEntryT option" where
  "map_entry_set_link link internal external entry =
     (if link < me_num_links entry
      then Some (entry\<lparr>me_links := (me_links entry)[unat link := \<lparr>ml_internal = internal, ml_external = external\<rparr>]\<rparr>)
      else None)"

definition map_entry_get_link :: "cuint \<Rightarrow> MapEntryT \<Rightarrow> (cuint \<times> cuint) option" where
  "map_entry_get_link link entry =
     (if link < me_num_links entry
      then Some (ml_internal (me_links entry ! unat link), ml_external (me_links entry ! unat link)) else None)"

definition map_table_slot :: "NStringT \<Rightarrow> nat" where
  "map_table_slot key = unat (nstring_hash_value key mod of_nat MAP_TABLE_SIZE)"

definition map_table_create :: MapTableT where
  "map_table_create = table_create MAP_TABLE_SIZE"

definition map_table_add :: "MapTableT \<Rightarrow> NStringT \<Rightarrow> cuint \<Rightarrow> nat \<times> MapTableT" where
  "map_table_add table key num =
     (let (entry, table) = map_entry_create key num table in
      (entry, table_prepend (map_table_slot key) entry table))"

definition map_table_get :: "MapTableT \<Rightarrow> NStringT \<Rightarrow> nat option" where
  "map_table_get table key =
     chain_find (\<lambda>e. nstring_equal key (me_key e)) (entries table) (contents table ! map_table_slot key)"

fun map_table_iter_chain :: "(MapEntryT \<Rightarrow> 'a \<Rightarrow> ('s, 'a) prog) \<Rightarrow> nat list \<Rightarrow> MapTableT \<Rightarrow> 'a \<Rightarrow> ('s, 'a) prog" where
  "map_table_iter_chain proc [] table closure = ret closure"
| "map_table_iter_chain proc (r # rs) table closure =
     bind (proc (entries table ! r) closure) (map_table_iter_chain proc rs table)"

definition map_table_iter :: "MapTableT \<Rightarrow> (MapEntryT \<Rightarrow> 'a \<Rightarrow> ('s, 'a) prog) \<Rightarrow> 'a \<Rightarrow> ('s, 'a) prog" where
  "map_table_iter table proc closure = map_table_iter_chain proc (table_order table) table closure"

section \<open>Facts\<close>

interpretation map_tbl: chained_table me_key map_table_slot MAP_TABLE_SIZE table_prepend map_table_get
proof
  fix t :: MapTableT and k i r
  show "map_table_slot k < MAP_TABLE_SIZE"
    by (simp add: map_table_slot_def MAP_TABLE_SIZE_def unat_mod)
  show "entries (table_prepend i r t) = entries t" by simp
  show "map_table_get t k = chain_find (\<lambda>e. me_key e = k) (entries t) (contents t ! map_table_slot k)"
    by (simp add: map_table_get_def eq_commute)
qed (rule contents_prepend)

abbreviation map_table_wf :: "MapTableT \<Rightarrow> bool" where
  "map_table_wf \<equiv> table_wf me_key map_table_slot MAP_TABLE_SIZE"

lemma map_table_add_eq:
  "map_table_add t key num = (length (entries t),
     map_tbl.insert_entry \<lparr>me_key = key, me_count = num, me_num_links = 0, me_links = []\<rparr> t)"
  by (simp add: map_table_add_def map_entry_create_def map_tbl.insert_entry_def table_alloc_def)

definition map_entry_wf :: "MapEntryT \<Rightarrow> bool" where
  "map_entry_wf e \<longleftrightarrow> length (me_links e) = unat (me_num_links e)"

lemma map_entry_set_num_links_wf: "map_entry_wf (map_entry_set_num_links num e)"
  by (simp add: map_entry_wf_def map_entry_set_num_links_def)

lemma map_entry_set_link_wf:
  "map_entry_wf e \<Longrightarrow> map_entry_set_link link i x e = Some e' \<Longrightarrow>
     map_entry_wf e' \<and> me_key e' = me_key e \<and> me_count e' = me_count e \<and> me_num_links e' = me_num_links e"
  by (auto simp: map_entry_wf_def map_entry_set_link_def split: if_splits)

lemma map_entry_get_set_link:
  "map_entry_wf e \<Longrightarrow> map_entry_set_link link i x e = Some e' \<Longrightarrow>
     map_entry_get_link l e' = (if l = link then Some (i, x) else map_entry_get_link l e)"
  by (auto simp: map_entry_wf_def map_entry_set_link_def map_entry_get_link_def nth_list_update
      word_less_nat_alt split: if_splits dest: word_eq_unatI)

end
