(* ===== verification/Shapes.thy ===== *)
theory Shapes
  imports Renames Maps
begin

text \<open>
  Shapes and their tables: \<^verbatim>\<open>tld/src/adt/shape-entry.c\<close> and \<^verbatim>\<open>tld/src/adt/shape-table.c\<close>. A shape
  entry owns the name table of its external names, the counter of capsule scope identifiers and the
  queue of names still to be resolved; the shape table is a chained table that caches the entries
  of the shapes \<^verbatim>\<open>token\<close> and \<^verbatim>\<open>tag\<close>.
\<close>

section \<open>shape-table.c\<close>

record ShapeTableT =
  st_table :: "ShapeEntryT table"
  st_token_entry :: "nat option"
  st_tag_entry :: "nat option"

definition SHAPE_TABLE_SIZE :: nat where
  "SHAPE_TABLE_SIZE = 11"

definition shape_table_slot :: "NStringT \<Rightarrow> nat" where
  "shape_table_slot key = unat (nstring_hash_value key mod of_nat SHAPE_TABLE_SIZE)"

definition shape_table_create :: ShapeTableT where
  "shape_table_create = \<lparr>st_table = table_create SHAPE_TABLE_SIZE, st_token_entry = None, st_tag_entry = None\<rparr>"

definition shape_entry_create :: "NStringT \<Rightarrow> ShapeEntryT" where
  "shape_entry_create key = \<lparr>se_key = nstring_copy key, se_names = name_table_create, se_id_count = 0,
     se_non_empty = False, se_num_lib_names = 0, se_queue = []\<rparr>"

definition shape_find :: "ShapeEntryT table \<Rightarrow> NStringT \<Rightarrow> nat option" where
  "shape_find t key =
     chain_find (\<lambda>e. nstring_equal key (se_key e)) (entries t) (contents t ! shape_table_slot key)"

definition shape_table_add :: "ShapeTableT \<Rightarrow> NStringT \<Rightarrow> nat \<times> ShapeTableT" where
  "shape_table_add table key =
     (case shape_find (st_table table) key of
        Some entry \<Rightarrow> (entry, table)
      | None \<Rightarrow> let (entry, t) = table_alloc (shape_entry_create key) (st_table table) in
                (entry, table\<lparr>st_table := table_append (shape_table_slot key) entry t\<rparr>))"

definition shape_table_get :: "ShapeTableT \<Rightarrow> NStringT \<Rightarrow> nat option" where
  "shape_table_get table key = shape_find (st_table table) key"

definition shape_table_get_token_entry :: "ShapeTableT \<Rightarrow> nat option \<times> ShapeTableT" where
  "shape_table_get_token_entry table =
     (let table = (if st_token_entry table = None
                   then table\<lparr>st_token_entry := shape_table_get table (nstring_copy_cstring (str ''token''))\<rparr>
                   else table) in
      (st_token_entry table, table))"

definition shape_table_get_tag_entry :: "ShapeTableT \<Rightarrow> nat option \<times> ShapeTableT" where
  "shape_table_get_tag_entry table =
     (let table = (if st_tag_entry table = None
                   then table\<lparr>st_tag_entry := shape_table_get table (nstring_copy_cstring (str ''tag''))\<rparr>
                   else table) in
      (st_tag_entry table, table))"

definition shape_entry_at :: "ShapeTableT \<Rightarrow> nat \<Rightarrow> ShapeEntryT" where
  "shape_entry_at table r = entries (st_table table) ! r"

definition shape_entry_put :: "nat \<Rightarrow> ShapeEntryT \<Rightarrow> ShapeTableT \<Rightarrow> ShapeTableT" where
  "shape_entry_put r e table = table\<lparr>st_table := table_set r e (st_table table)\<rparr>"

text \<open>
  Iteration with a procedure that changes the visited entry and its closure only.
\<close>

fun shape_table_iter_chain ::
  "(ShapeEntryT \<Rightarrow> 'a \<Rightarrow> ('s, ShapeEntryT \<times> 'a) prog) \<Rightarrow> nat list \<Rightarrow> ShapeTableT \<Rightarrow> 'a
     \<Rightarrow> ('s, ShapeTableT \<times> 'a) prog" where
  "shape_table_iter_chain proc [] table closure = ret (table, closure)"
| "shape_table_iter_chain proc (r # rs) table closure =
     bind (proc (shape_entry_at table r) closure) (\<lambda>(entry, closure).
     shape_table_iter_chain proc rs (shape_entry_put r entry table) closure)"

definition shape_table_iter ::
  "ShapeTableT \<Rightarrow> (ShapeEntryT \<Rightarrow> 'a \<Rightarrow> ('s, ShapeEntryT \<times> 'a) prog) \<Rightarrow> 'a \<Rightarrow> ('s, ShapeTableT \<times> 'a) prog" where
  "shape_table_iter table proc closure =
     shape_table_iter_chain proc (table_order (st_table table)) table closure"

section \<open>shape-entry.c\<close>

definition shape_entry_set_non_empty :: "ShapeEntryT \<Rightarrow> ShapeEntryT" where
  "shape_entry_set_non_empty entry = entry\<lparr>se_non_empty := True\<rparr>"

definition shape_entry_do_count :: "ShapeEntryT \<Rightarrow> cuint \<Rightarrow> ('s, ShapeEntryT \<times> cuint) prog" where
  "shape_entry_do_count entry num =
     (if se_id_count entry > 0 \<or> se_non_empty entry
      then ret (shape_entry_set_non_empty entry, num + 1) else ret (entry, num))"

definition shape_entry_write_shape :: "ShapeEntryT \<Rightarrow> unit \<Rightarrow> ('z io_state_scheme, ShapeEntryT \<times> unit) prog" where
  "shape_entry_write_shape entry _ =
     bind (if se_non_empty entry
           then bind (tdf_write_string (se_key entry)) (\<lambda>_. tdf_write_int (se_id_count entry))
           else ret ()) (\<lambda>_. ret (entry, ()))"

text \<open>An iteration whose procedure only writes or counts leaves the table as it is.\<close>

definition shape_entry_write_externs :: "ShapeEntryT \<Rightarrow> unit \<Rightarrow> ('z io_state_scheme, ShapeEntryT \<times> unit) prog" where
  "shape_entry_write_externs entry _ =
     (if se_non_empty entry then
        bind (name_table_iter (se_names entry) name_entry_do_count 0) (\<lambda>(names, num_externs).
        bind (tdf_write_int num_externs) (\<lambda>_.
        bind (name_table_iter names name_entry_write_name ()) (\<lambda>(names, _).
        ret (entry\<lparr>se_names := names\<rparr>, ()))))
      else ret (entry, ()))"

definition shape_entry_compute_tld_size :: "ShapeEntryT \<Rightarrow> nat \<Rightarrow> ('s, ShapeEntryT \<times> nat) prog" where
  "shape_entry_compute_tld_size entry sz =
     (if se_non_empty entry then
        bind (name_table_iter (se_names entry) name_entry_compute_tld_size sz) (\<lambda>(names, sz).
        ret (entry\<lparr>se_names := names\<rparr>, sz))
      else ret (entry, sz))"

definition shape_entry_write_tld :: "ShapeEntryT \<Rightarrow> unit \<Rightarrow> ('z io_state_scheme, ShapeEntryT \<times> unit) prog" where
  "shape_entry_write_tld entry _ =
     (if se_non_empty entry then
        bind (name_table_iter (se_names entry) name_entry_write_tld ()) (\<lambda>(names, _).
        ret (entry\<lparr>se_names := names\<rparr>, ()))
      else ret (entry, ()))"

definition shape_entry_write_count ::
  "MapTableT \<Rightarrow> ShapeEntryT \<Rightarrow> unit \<Rightarrow> ('z io_state_scheme, ShapeEntryT \<times> unit) prog" where
  "shape_entry_write_count table entry _ =
     bind (if se_non_empty entry
           then tdf_write_int (case map_table_get table (se_key entry) of
                  Some map_entry \<Rightarrow> me_count (entries table ! map_entry) | None \<Rightarrow> 0)
           else ret ()) (\<lambda>_. ret (entry, ()))"

definition shape_entry_write_links ::
  "MapTableT \<Rightarrow> ShapeEntryT \<Rightarrow> unit \<Rightarrow> ('z io_state_scheme, ShapeEntryT \<times> unit) prog" where
  "shape_entry_write_links table entry _ =
     bind (if se_non_empty entry then
             (case map_table_get table (se_key entry) of
                Some r \<Rightarrow>
                  (let map_entry = entries table ! r; num_links = me_num_links map_entry in
                   bind (tdf_write_int num_links) (\<lambda>_.
                   for_each [0..<unat num_links] (\<lambda>i.
                     bind (defined (map_entry_get_link (of_nat i) map_entry)) (\<lambda>(internal, external).
                     bind (tdf_write_int internal) (\<lambda>_. tdf_write_int external)))))
              | None \<Rightarrow> tdf_write_int 0)
           else ret ()) (\<lambda>_. ret (entry, ()))"

definition shape_entry_check_multi_defs ::
  "ShapeEntryT \<Rightarrow> unit \<Rightarrow> ('z error_state_scheme, ShapeEntryT \<times> unit) prog" where
  "shape_entry_check_multi_defs entry _ =
     bind (name_table_iter (se_names entry) name_entry_check_multi_defs ()) (\<lambda>(names, _).
     ret (entry\<lparr>se_names := names\<rparr>, ()))"

definition shape_entry_do_lib_count :: "ShapeEntryT \<Rightarrow> cuint \<Rightarrow> ('s, ShapeEntryT \<times> cuint) prog" where
  "shape_entry_do_lib_count entry num_shapes =
     bind (name_table_iter (se_names entry) name_entry_do_lib_count 0) (\<lambda>(names, num_names).
     ret (entry\<lparr>se_names := names, se_num_lib_names := num_names\<rparr>,
          if num_names > 0 then num_shapes + 1 else num_shapes))"

definition shape_entry_do_lib_write ::
  "(nat \<Rightarrow> cuint) \<Rightarrow> ShapeEntryT \<Rightarrow> unit \<Rightarrow> ('z io_state_scheme, ShapeEntryT \<times> unit) prog" where
  "shape_entry_do_lib_write capsule_get_index entry _ =
     (if se_num_lib_names entry > 0 then
        bind (tdf_write_string (se_key entry)) (\<lambda>_.
        bind (tdf_write_int (se_num_lib_names entry)) (\<lambda>_.
        bind (name_table_iter (se_names entry) (name_entry_do_lib_write capsule_get_index) ()) (\<lambda>(names, _).
        ret (entry\<lparr>se_names := names\<rparr>, ()))))
      else ret (entry, ()))"

definition shape_entry_hide_all_defd :: "ShapeEntryT \<Rightarrow> unit \<Rightarrow> ('s, ShapeEntryT \<times> unit) prog" where
  "shape_entry_hide_all_defd entry _ =
     bind (name_table_iter (se_names entry) name_entry_hide_defd ()) (\<lambda>(names, _).
     ret (entry\<lparr>se_names := names\<rparr>, ()))"

definition shape_entry_suppress_mult :: "ShapeEntryT \<Rightarrow> unit \<Rightarrow> ('s, ShapeEntryT \<times> unit) prog" where
  "shape_entry_suppress_mult entry _ =
     bind (name_table_iter (se_names entry) name_entry_suppress_mult ()) (\<lambda>(names, _).
     ret (entry\<lparr>se_names := names\<rparr>, ()))"

definition shape_entry_lib_suppress_mult :: "ShapeEntryT \<Rightarrow> unit \<Rightarrow> ('s, ShapeEntryT \<times> unit) prog" where
  "shape_entry_lib_suppress_mult entry _ =
     bind (name_table_iter (se_names entry) name_entry_lib_suppress_mult ()) (\<lambda>(names, _).
     ret (entry\<lparr>se_names := names\<rparr>, ()))"

definition shape_entry_show_content ::
  "(nat \<Rightarrow> cstring) \<Rightarrow> ShapeEntryT \<Rightarrow> byte list \<Rightarrow> ('s, ShapeEntryT \<times> byte list) prog" where
  "shape_entry_show_content lib_capsule_name entry out =
     bind (name_table_iter (se_names entry) (name_entry_show_content lib_capsule_name)
       (out @ se_key entry @ [58, 10])) (\<lambda>(names, out).
     ret (entry\<lparr>se_names := names\<rparr>, out))"

text \<open>\<^verbatim>\<open>map_entry_check_non_empty\<close> of \<^verbatim>\<open>map-entry.c\<close>: a shape that is not in the table is a null pointer.\<close>

definition map_entry_check_non_empty :: "MapEntryT \<Rightarrow> ShapeTableT \<Rightarrow> ('s, ShapeTableT) prog" where
  "map_entry_check_non_empty entry table =
     (if me_count entry > 0 then
        bind (defined (shape_table_get table (me_key entry))) (\<lambda>shape_entry.
        ret (shape_entry_put shape_entry (shape_entry_set_non_empty (shape_entry_at table shape_entry)) table))
      else ret table)"

section \<open>The shape table is a chained table\<close>

interpretation shape_tbl: chained_table se_key shape_table_slot SHAPE_TABLE_SIZE table_append shape_find
proof
  fix t :: "ShapeEntryT table" and k i r
  show "shape_table_slot k < SHAPE_TABLE_SIZE"
    by (simp add: shape_table_slot_def SHAPE_TABLE_SIZE_def unat_mod)
  show "entries (table_append i r t) = entries t" by simp
  show "shape_find t k = chain_find (\<lambda>e. se_key e = k) (entries t) (contents t ! shape_table_slot k)"
    by (simp add: shape_find_def eq_commute)
qed (rule contents_append)

abbreviation shape_tbl_wf :: "ShapeEntryT table \<Rightarrow> bool" where
  "shape_tbl_wf \<equiv> table_wf se_key shape_table_slot SHAPE_TABLE_SIZE"

end
