(* ===== verification/Units.thy ===== *)
theory Units
  imports Shapes
begin

text \<open>
  Unit sets: \<^verbatim>\<open>tld/src/adt/unit-entry.c\<close> and \<^verbatim>\<open>tld/src/adt/unit-table.c\<close>. The units of a set, linked
  from \<^verbatim>\<open>head\<close> to \<^verbatim>\<open>tail\<close>, are a list; \<^verbatim>\<open>unit_set_contents\<close> fills the contents that
  \<^verbatim>\<open>unit_entry_add_unit\<close> leaves unset.
\<close>

record UnitT =
  un_map_table :: "MapTableT option"
  un_contents :: NStringT

record UnitEntryT =
  ue_key :: NStringT
  ue_order :: cuint
  ue_units :: "UnitT list"

type_synonym UnitTableT = "UnitEntryT table"

definition UNIT_TABLE_SIZE :: nat where
  "UNIT_TABLE_SIZE = 11"

section \<open>unit-table.c\<close>

definition unit_table_slot :: "NStringT \<Rightarrow> nat" where
  "unit_table_slot key = unat (nstring_hash_value key mod of_nat UNIT_TABLE_SIZE)"

definition unit_table_create :: UnitTableT where
  "unit_table_create = table_create UNIT_TABLE_SIZE"

definition unit_entry_create :: "NStringT \<Rightarrow> cuint \<Rightarrow> UnitTableT \<Rightarrow> nat \<times> UnitTableT" where
  "unit_entry_create key order = table_alloc \<lparr>ue_key = nstring_copy key, ue_order = order, ue_units = []\<rparr>"

definition unit_table_add :: "UnitTableT \<Rightarrow> NStringT \<Rightarrow> cuint \<Rightarrow> nat \<times> UnitTableT" where
  "unit_table_add table key order =
     (let (entry, table) = unit_entry_create key order table in
      (entry, table_prepend (unit_table_slot key) entry table))"

definition unit_table_get :: "UnitTableT \<Rightarrow> NStringT \<Rightarrow> nat option" where
  "unit_table_get table key =
     chain_find (\<lambda>e. nstring_equal key (ue_key e)) (entries table) (contents table ! unit_table_slot key)"

fun unit_table_iter_chain :: "(UnitEntryT \<Rightarrow> 'a \<Rightarrow> ('s, 'a) prog) \<Rightarrow> nat list \<Rightarrow> UnitTableT \<Rightarrow> 'a \<Rightarrow> ('s, 'a) prog" where
  "unit_table_iter_chain proc [] table closure = ret closure"
| "unit_table_iter_chain proc (r # rs) table closure =
     bind (proc (entries table ! r) closure) (unit_table_iter_chain proc rs table)"

definition unit_table_iter :: "UnitTableT \<Rightarrow> (UnitEntryT \<Rightarrow> 'a \<Rightarrow> ('s, 'a) prog) \<Rightarrow> 'a \<Rightarrow> ('s, 'a) prog" where
  "unit_table_iter table proc closure = unit_table_iter_chain proc (table_order table) table closure"

section \<open>unit-entry.c\<close>

text \<open>A read-only pass over the shapes, which returns the table unchanged.\<close>

definition unit_write :: "UnitT \<Rightarrow> ShapeTableT \<Rightarrow> cuint \<Rightarrow> ('z io_state_scheme, ShapeTableT) prog" where
  "unit_write unit shapes num_shapes =
     bind (case un_map_table unit of
             Some table \<Rightarrow>
               bind (tdf_write_int num_shapes) (\<lambda>_.
               bind (shape_table_iter shapes (shape_entry_write_count table) ()) (\<lambda>(shapes, _).
               bind (tdf_write_int num_shapes) (\<lambda>_.
               bind (shape_table_iter shapes (shape_entry_write_links table) ()) (\<lambda>(shapes, _).
               ret shapes))))
           | None \<Rightarrow> bind (tdf_write_int 0) (\<lambda>_. bind (tdf_write_int 0) (\<lambda>_. ret shapes))) (\<lambda>shapes.
     bind (tdf_write_int (of_nat (length (un_contents unit)))) (\<lambda>_.
     bind (tdf_write_bytes (un_contents unit)) (\<lambda>_. ret shapes)))"

definition unit_set_contents :: "NStringT \<Rightarrow> UnitT \<Rightarrow> UnitT" where
  "unit_set_contents nstring unit = unit\<lparr>un_contents := nstring_assign nstring\<rparr>"

text \<open>The new unit is the last of its set.\<close>

definition unit_entry_add_unit :: "cuint \<Rightarrow> UnitEntryT \<Rightarrow> UnitEntryT" where
  "unit_entry_add_unit num_counts entry =
     entry\<lparr>ue_units := ue_units entry @
       [\<lparr>un_map_table = (if num_counts \<noteq> 0 then Some map_table_create else None), un_contents = []\<rparr>]\<rparr>"

fun unit_count_maps :: "UnitT list \<Rightarrow> ShapeTableT \<Rightarrow> ('s, ShapeTableT) prog" where
  "unit_count_maps [] shapes = ret shapes"
| "unit_count_maps (unit # units) shapes =
     bind (case un_map_table unit of
             Some table \<Rightarrow> map_table_iter table map_entry_check_non_empty shapes
           | None \<Rightarrow> ret shapes) (unit_count_maps units)"

definition unit_entry_do_count :: "UnitEntryT \<Rightarrow> cuint \<times> ShapeTableT \<Rightarrow> ('s, cuint \<times> ShapeTableT) prog" where
  "unit_entry_do_count entry closure =
     (case closure of (num_unit_sets, shapes) \<Rightarrow>
        if ue_units entry \<noteq> []
        then bind (unit_count_maps (ue_units entry) shapes) (\<lambda>shapes. ret (num_unit_sets + 1, shapes))
        else ret (num_unit_sets, shapes))"

text \<open>\<open>is_tld\<close> stands for \<^verbatim>\<open>entry == tld_entry\<close>.\<close>

definition unit_entry_write_unit_set :: "bool \<Rightarrow> UnitEntryT \<Rightarrow> ('z io_state_scheme, unit) prog" where
  "unit_entry_write_unit_set is_tld entry =
     (if ue_units entry \<noteq> [] \<or> is_tld then tdf_write_string (ue_key entry) else ret ())"

definition unit_entry_write_tld_unit :: "ShapeTableT \<Rightarrow> ('z io_state_scheme, ShapeTableT) prog" where
  "unit_entry_write_tld_unit shapes =
     bind (tdf_write_int 1) (\<lambda>_.
     bind (tdf_write_int 0) (\<lambda>_.
     bind (tdf_write_int 0) (\<lambda>_.
     bind (shape_table_iter shapes shape_entry_compute_tld_size (tdf_int_size 1 + 1)) (\<lambda>(shapes, sz).
     let sz = sz div 2 in
     bind (tdf_write_int (of_nat sz)) (\<lambda>_.
     bind tdf_write_align (\<lambda>_.
     bind (tdf_write_int 1) (\<lambda>_.
     bind (shape_table_iter shapes shape_entry_write_tld ()) (\<lambda>(shapes, _).
     bind tdf_write_align (\<lambda>_. ret shapes)))))))))"

fun unit_entry_write_each :: "UnitT list \<Rightarrow> ShapeTableT \<Rightarrow> cuint \<Rightarrow> ('z io_state_scheme, ShapeTableT) prog" where
  "unit_entry_write_each [] shapes num_shapes = ret shapes"
| "unit_entry_write_each (unit # units) shapes num_shapes =
     bind (unit_write unit shapes num_shapes) (\<lambda>shapes. unit_entry_write_each units shapes num_shapes)"

definition unit_entry_write_units ::
  "UnitEntryT \<Rightarrow> ShapeTableT \<Rightarrow> cuint \<Rightarrow> ('z io_state_scheme, ShapeTableT) prog" where
  "unit_entry_write_units entry shapes num_shapes =
     (let num_units = of_nat (length (ue_units entry)) :: cuint in
      if num_units > 0 then
        bind (tdf_write_int num_units) (\<lambda>_. unit_entry_write_each (ue_units entry) shapes num_shapes)
      else ret shapes)"

section \<open>The unit table is a chained table\<close>

interpretation unit_tbl: chained_table ue_key unit_table_slot UNIT_TABLE_SIZE table_prepend unit_table_get
proof
  fix t :: UnitTableT and k i r
  show "unit_table_slot k < UNIT_TABLE_SIZE"
    by (simp add: unit_table_slot_def UNIT_TABLE_SIZE_def unat_mod)
  show "entries (table_prepend i r t) = entries t" by simp
  show "unit_table_get t k = chain_find (\<lambda>e. ue_key e = k) (entries t) (contents t ! unit_table_slot k)"
    by (simp add: unit_table_get_def eq_commute)
qed (rule contents_prepend)

abbreviation unit_table_wf :: "UnitTableT \<Rightarrow> bool" where
  "unit_table_wf \<equiv> table_wf ue_key unit_table_slot UNIT_TABLE_SIZE"

lemma unit_table_add_eq:
  "unit_table_add t key order =
     (length (entries t), unit_tbl.insert_entry \<lparr>ue_key = key, ue_order = order, ue_units = []\<rparr> t)"
  by (simp add: unit_table_add_def unit_entry_create_def unit_tbl.insert_entry_def table_alloc_def)

end
