(* ===== verification/Capsule.thy ===== *)
theory Capsule
  imports Units
begin

text \<open>
  Capsules: \<^verbatim>\<open>tld/src/adt/capsule.c\<close>, without the reader of unit set files. The state adds to the
  readers, writers and error counters the unit table, the shape table, the capsules created so far
  (a pointer to one is its index) and the static variables of the file. Local vectors of the C
  functions are lists handed from call to call.
\<close>

section \<open>State\<close>

datatype CapsuleTypeT = CT_INPUT | CT_OUTPUT

record CapsuleT =
  cp_type :: CapsuleTypeT
  cp_contents :: NStringT
  cp_index :: cuint
  cp_name :: cstring
  cp_complete :: bool

record UnitSetT =
  us_name :: NStringT
  us_entry :: "nat option"

record ShapeDataT =
  sd_entry :: nat
  sd_num_ids :: cuint
  sd_id_maps :: "cuint list"

record capsule_state = io_state +
  cs_units :: UnitTableT
  cs_shapes :: ShapeTableT
  cs_capsules :: "CapsuleT list"
  cs_need_setup :: bool
  cs_unit_sets :: "UnitSetT list option"
  cs_tld_index :: cuint
  cs_tld2_index :: cuint
  cs_unit_length :: nat
  cs_unit_offset :: nat
  cs_major_version :: cuint
  cs_minor_version :: cuint

definition capsule_default_unit_set_names :: "cstring list" where
  "capsule_default_unit_set_names = map str
     [''tld'', ''tld2'', ''versions'', ''tokdec'', ''tokdef'', ''aldef'', ''diagtype'', ''tagdec'',
      ''diagdef'', ''dgcompunit'', ''tagdef'', ''linkinfo'']"

text \<open>
  Calls that work on one shape entry, one name entry, one unit or one mapping entry of the tables in
  the state, through a pointer; a pointer to no entry is undefined.
\<close>

definition on_shape ::
  "nat \<Rightarrow> (ShapeEntryT \<Rightarrow> ('z capsule_state_scheme, 'a \<times> ShapeEntryT) prog) \<Rightarrow> ('z capsule_state_scheme, 'a) prog" where
  "on_shape r m = bind (gets (\<lambda>s. entries (st_table (cs_shapes s)))) (\<lambda>es. bind (index es r) (\<lambda>e.
     bind (m e) (\<lambda>(x, e').
     bind (modify (\<lambda>s. s\<lparr>cs_shapes := shape_entry_put r e' (cs_shapes s)\<rparr>)) (\<lambda>_. ret x))))"

definition on_name ::
  "nat \<Rightarrow> nat \<Rightarrow> (NameEntryT \<Rightarrow> ('z capsule_state_scheme, 'a \<times> NameEntryT) prog) \<Rightarrow> ('z capsule_state_scheme, 'a) prog" where
  "on_name r n m = on_shape r (\<lambda>e. bind (index (entries (se_names e)) n) (\<lambda>n0.
     bind (m n0) (\<lambda>(x, n1). ret (x, e\<lparr>se_names := table_set n n1 (se_names e)\<rparr>))))"

definition on_unit :: "nat \<Rightarrow> nat \<Rightarrow> (UnitT \<Rightarrow> ('z capsule_state_scheme, 'a \<times> UnitT) prog) \<Rightarrow> ('z capsule_state_scheme, 'a) prog" where
  "on_unit ue j m = bind (gets (\<lambda>s. entries (cs_units s))) (\<lambda>es. bind (index es ue) (\<lambda>e.
     bind (index (ue_units e) j) (\<lambda>u. bind (m u) (\<lambda>(x, u').
     bind (modify (\<lambda>s. s\<lparr>cs_units := table_set ue (e\<lparr>ue_units := (ue_units e)[j := u']\<rparr>) (cs_units s)\<rparr>)) (\<lambda>_. ret x)))))"

definition on_map_entry ::
  "nat \<Rightarrow> nat \<Rightarrow> nat \<Rightarrow> (MapEntryT \<Rightarrow> MapEntryT option) \<Rightarrow> ('z capsule_state_scheme, unit) prog" where
  "on_map_entry ue j m f = on_unit ue j (\<lambda>u. bind (defined (un_map_table u)) (\<lambda>table.
     bind (index (entries table) m) (\<lambda>e. bind (defined (f e)) (\<lambda>e'.
     ret ((), u\<lparr>un_map_table := Some (table_set m e' table)\<rparr>)))))"

section \<open>Setup\<close>

definition capsule_setup_defaults :: "('z capsule_state_scheme, unit) prog" where
  "capsule_setup_defaults = modify (\<lambda>s. case cs_unit_sets s of
     None \<Rightarrow> s\<lparr>cs_unit_sets := Some (map (\<lambda>name. \<lparr>us_name = nstring_copy_cstring name, us_entry = None\<rparr>)
                capsule_default_unit_set_names)\<rparr>
   | Some _ \<Rightarrow> s)"

fun capsule_setup_units :: "nat \<Rightarrow> UnitSetT list \<Rightarrow> UnitTableT \<Rightarrow> UnitSetT list \<times> UnitTableT" where
  "capsule_setup_units i [] units = ([], units)"
| "capsule_setup_units i (us # uss) units =
     (let (entry, units) = unit_table_add units (us_name us) (of_nat i);
          (uss, units) = capsule_setup_units (i + 1) uss units in
      (us\<lparr>us_entry := Some entry\<rparr> # uss, units))"

definition capsule_setup :: "('z capsule_state_scheme, unit) prog" where
  "capsule_setup = bind (gets cs_need_setup) (\<lambda>need_setup.
     if need_setup then
       bind capsule_setup_defaults (\<lambda>_.
       modify (\<lambda>s. case capsule_setup_units 0 (the (cs_unit_sets s)) (cs_units s) of
         (unit_sets, units) \<Rightarrow> s\<lparr>cs_unit_sets := Some unit_sets, cs_units := units, cs_need_setup := False\<rparr>))
     else ret ())"

text \<open>\<^verbatim>\<open>capsule_unit_sets[capsule_tld_index].entry\<close>, and the same for \<^verbatim>\<open>tld2\<close> where \<^verbatim>\<open>UINT_MAX\<close> is none.\<close>

definition capsule_tld_entry :: "('z capsule_state_scheme, nat option) prog" where
  "capsule_tld_entry = bind (gets cs_unit_sets) (\<lambda>sets. bind (gets cs_tld_index) (\<lambda>i.
     bind (defined sets) (\<lambda>sets. bind (check (unat i < length sets)) (\<lambda>_. ret (us_entry (sets ! unat i))))))"

definition capsule_tld2_entry :: "('z capsule_state_scheme, nat option) prog" where
  "capsule_tld2_entry = bind (gets cs_unit_sets) (\<lambda>sets. bind (gets cs_tld2_index) (\<lambda>i.
     if i = UINT_MAX then ret None
     else bind (defined sets) (\<lambda>sets. bind (check (unat i < length sets)) (\<lambda>_. ret (us_entry (sets ! unat i))))))"

section \<open>Reading\<close>

definition capsule_magic :: NStringT where
  "capsule_magic = nstring_copy_cstring (str ''TDFC'')"

definition capsule_read_header :: "('z capsule_state_scheme, unit) prog" where
  "capsule_read_header = bind (tdf_read_bytes (nstring_init_length 4)) (\<lambda>magic.
     if \<not> nstring_equal magic capsule_magic then error_throw XX_capsule_error
     else bind tdf_read_int (\<lambda>major. bind tdf_read_int (\<lambda>minor.
       bind (gets cs_major_version) (\<lambda>capsule_major. bind (gets cs_minor_version) (\<lambda>capsule_minor.
       bind (if major < 4 then error_throw XX_capsule_error
             else if capsule_major = 0
               then modify (\<lambda>s. s\<lparr>cs_major_version := major, cs_minor_version := minor\<rparr>)
             else if capsule_major \<noteq> major then error_throw XX_capsule_error
             else if capsule_minor < minor then modify (\<lambda>s. s\<lparr>cs_minor_version := minor\<rparr>)
             else ret ()) (\<lambda>_.
       tdf_read_align))))))"

text \<open>\<open>order\<close> of every unit set read so far against the one just read.\<close>

fun capsule_check_order :: "UnitTableT \<Rightarrow> nat \<Rightarrow> nat list \<Rightarrow> ('z capsule_state_scheme, unit) prog" where
  "capsule_check_order units entry [] = ret ()"
| "capsule_check_order units entry (u # units_vec) =
     (if entry = u then error_throw XX_capsule_error
      else if ue_order (entries units ! entry) < ue_order (entries units ! u) then error_throw XX_capsule_error
      else capsule_check_order units entry units_vec)"

fun capsule_read_unit_set_names_loop ::
  "nat option \<Rightarrow> nat option \<Rightarrow> nat \<Rightarrow> bool \<Rightarrow> nat list \<Rightarrow> ('z capsule_state_scheme, bool \<times> nat list) prog" where
  "capsule_read_unit_set_names_loop tld_entry tld2_entry 0 has_tld_unit units_vec = ret (has_tld_unit, units_vec)"
| "capsule_read_unit_set_names_loop tld_entry tld2_entry (Suc n) has_tld_unit units_vec =
     bind tdf_read_string (\<lambda>nstring. bind (gets cs_units) (\<lambda>units.
     case unit_table_get units nstring of
       None \<Rightarrow> error_throw XX_capsule_error
     | Some entry \<Rightarrow>
         bind (capsule_check_order units entry units_vec) (\<lambda>_.
         bind (if Some entry = tld2_entry then error_msg ERR_SERIOUS else ret ()) (\<lambda>_.
         if Some entry = tld_entry \<or> Some entry = tld2_entry then
           if has_tld_unit then error_throw XX_capsule_error
           else capsule_read_unit_set_names_loop tld_entry tld2_entry n True (units_vec @ [entry])
         else capsule_read_unit_set_names_loop tld_entry tld2_entry n has_tld_unit (units_vec @ [entry])))))"

definition capsule_read_unit_set_names :: "('z capsule_state_scheme, nat list) prog" where
  "capsule_read_unit_set_names = bind tdf_read_int (\<lambda>num_unit_sets.
     bind capsule_tld_entry (\<lambda>tld_entry. bind capsule_tld2_entry (\<lambda>tld2_entry.
     bind (capsule_read_unit_set_names_loop tld_entry tld2_entry (unat num_unit_sets) False []) (\<lambda>(has_tld_unit, units_vec).
     bind (if \<not> has_tld_unit then error_msg ERR_WARN else ret ()) (\<lambda>_. ret units_vec)))))"

definition capsule_shape_add :: "NStringT \<Rightarrow> ('z capsule_state_scheme, nat) prog" where
  "capsule_shape_add nstring s =
     (case shape_table_add (cs_shapes s) nstring of (entry, shapes) \<Rightarrow> (Ret entry, s\<lparr>cs_shapes := shapes\<rparr>))"

fun capsule_read_shapes_loop :: "nat \<Rightarrow> ShapeDataT list \<Rightarrow> ('z capsule_state_scheme, ShapeDataT list) prog" where
  "capsule_read_shapes_loop 0 shapes_vec = ret shapes_vec"
| "capsule_read_shapes_loop (Suc n) shapes_vec =
     bind tdf_read_string (\<lambda>nstring. bind tdf_read_int (\<lambda>num_ids.
     bind (capsule_shape_add nstring) (\<lambda>entry.
     if entry \<in> set (map sd_entry shapes_vec) then error_throw XX_capsule_error
     else capsule_read_shapes_loop n (shapes_vec @
       [\<lparr>sd_entry = entry, sd_num_ids = num_ids, sd_id_maps = replicate (unat num_ids) UINT_MAX\<rparr>]))))"

definition capsule_read_shapes :: "('z capsule_state_scheme, ShapeDataT list) prog" where
  "capsule_read_shapes = bind tdf_read_int (\<lambda>num_shapes. capsule_read_shapes_loop (unat num_shapes) [])"

fun capsule_read_external_names_loop ::
  "nat \<Rightarrow> ShapeDataT \<Rightarrow> nat list \<Rightarrow> ('z capsule_state_scheme, nat list \<times> ShapeDataT) prog" where
  "capsule_read_external_names_loop 0 shape names_vec = ret (names_vec, shape)"
| "capsule_read_external_names_loop (Suc n) shape names_vec =
     bind tdf_read_int (\<lambda>id. bind tdf_read_name (\<lambda>name.
     if id \<ge> sd_num_ids shape then error_throw XX_capsule_error
     else bind (on_shape (sd_entry shape) (name_table_add name)) (\<lambda>name_entry.
       bind (index (sd_id_maps shape) (unat id)) (\<lambda>id_map.
       if id_map \<noteq> UINT_MAX then error_throw XX_capsule_error
       else bind (on_name (sd_entry shape) name_entry (\<lambda>e.
              bind (defined (name_entry_id e)) (\<lambda>name_id. ret (name_id, e)))) (\<lambda>name_id.
         capsule_read_external_names_loop n
           (shape\<lparr>sd_id_maps := (sd_id_maps shape)[unat id := name_id]\<rparr>) (names_vec @ [name_entry]))))))"

definition capsule_read_external_names_1 ::
  "ShapeDataT \<Rightarrow> ('z capsule_state_scheme, nat list \<times> ShapeDataT) prog" where
  "capsule_read_external_names_1 shape = bind tdf_read_int (\<lambda>num_this_shape.
     capsule_read_external_names_loop (unat num_this_shape) shape [])"

fun capsule_read_external_names_each ::
  "ShapeDataT list \<Rightarrow> ('z capsule_state_scheme, nat list list \<times> ShapeDataT list) prog" where
  "capsule_read_external_names_each [] = ret ([], [])"
| "capsule_read_external_names_each (shape # shapes_vec) =
     bind (capsule_read_external_names_1 shape) (\<lambda>(names_vec, shape).
     bind (capsule_read_external_names_each shapes_vec) (\<lambda>(names_vec_vec, shapes_vec).
     ret (names_vec # names_vec_vec, shape # shapes_vec)))"

definition capsule_read_external_names ::
  "ShapeDataT list \<Rightarrow> ('z capsule_state_scheme, nat list list \<times> ShapeDataT list) prog" where
  "capsule_read_external_names shapes_vec = bind tdf_read_int (\<lambda>num_names.
     if unat num_names \<noteq> length shapes_vec then error_throw XX_capsule_error
     else capsule_read_external_names_each shapes_vec)"

text \<open>The position of an entry in the vector; a null entry is nowhere.\<close>

fun capsule_entry_index :: "nat option \<Rightarrow> nat \<Rightarrow> ShapeDataT list \<Rightarrow> nat option" where
  "capsule_entry_index entry i [] = None"
| "capsule_entry_index entry i (sd # shapes_vec) =
     (if Some (sd_entry sd) = entry then Some i else capsule_entry_index entry (i + 1) shapes_vec)"

definition capsule_get_token_index :: "ShapeDataT list \<Rightarrow> ('z capsule_state_scheme, nat option) prog" where
  "capsule_get_token_index shapes_vec s =
     (case shape_table_get_token_entry (cs_shapes s) of (token_entry, shapes) \<Rightarrow>
        (Ret (capsule_entry_index token_entry 0 shapes_vec), s\<lparr>cs_shapes := shapes\<rparr>))"

definition capsule_get_tag_index :: "ShapeDataT list \<Rightarrow> ('z capsule_state_scheme, nat option) prog" where
  "capsule_get_tag_index shapes_vec s =
     (case shape_table_get_tag_entry (cs_shapes s) of (tag_entry, shapes) \<Rightarrow>
        (Ret (capsule_entry_index tag_entry 0 shapes_vec), s\<lparr>cs_shapes := shapes\<rparr>))"

text \<open>The body of the loop of \<^verbatim>\<open>capsule_read_usage\<close> after the usage has been read.\<close>

definition capsule_merge_usage ::
  "nat \<Rightarrow> bool \<Rightarrow> bool \<Rightarrow> cuint \<Rightarrow> NameEntryT \<Rightarrow> ('z error_state_scheme, NameEntryT) prog" where
  "capsule_merge_usage capsule need_dec no_mult use name_entry =
     bind (defined (name_entry_get_use name_entry)) (\<lambda>name_use.
     if use AND NOT (U_USED OR U_DECD OR U_DEFD OR U_MULT) \<noteq> 0 then error_throw XX_capsule_error
     else if no_mult \<and> use AND U_MULT \<noteq> 0 then error_throw XX_capsule_error
     else if need_dec \<and> (use AND (U_DEFD OR U_DECD) = U_DEFD \<or> use AND (U_MULT OR U_DECD) = U_MULT)
       then error_throw XX_capsule_error
     else
       bind (if use AND U_DEFD \<noteq> 0 \<and> name_use AND U_DEFD \<noteq> 0 then
               bind (defined (name_entry_get_definition name_entry)) (\<lambda>definition.
               bind (defined definition) (\<lambda>_.
               bind (error_msg ERR_SERIOUS) (\<lambda>_. ret name_entry)))
             else if use AND U_MULT \<noteq> 0 \<and> name_use AND U_MULT \<noteq> 0 \<and> use AND U_DEFD = 0 \<and> name_use AND U_DEFD = 0
               then defined (name_entry_set_definition None name_entry)
             else if use AND U_DEFD \<noteq> 0 \<or> (use AND U_MULT \<noteq> 0 \<and> name_use AND (U_MULT OR U_DEFD) = 0)
               then defined (name_entry_set_definition (Some capsule) name_entry)
             else ret name_entry) (\<lambda>name_entry.
       defined (name_entry_merge_use use name_entry)))"

definition capsule_read_usage ::
  "nat \<Rightarrow> nat \<Rightarrow> nat list \<Rightarrow> bool \<Rightarrow> bool \<Rightarrow> ('z capsule_state_scheme, unit) prog" where
  "capsule_read_usage capsule shape names_vec need_dec no_mult =
     for_each names_vec (\<lambda>name_entry. bind tdf_read_int (\<lambda>use.
       on_name shape name_entry (\<lambda>e.
         bind (capsule_merge_usage capsule need_dec no_mult use e) (\<lambda>e. ret ((), e)))))"

definition capsule_read_tld_type_0_unit ::
  "nat \<Rightarrow> ShapeDataT list \<Rightarrow> nat list list \<Rightarrow> ('z capsule_state_scheme, unit) prog" where
  "capsule_read_tld_type_0_unit capsule shapes_vec names_vec_vec =
     bind (capsule_get_token_index shapes_vec) (\<lambda>token.
     bind (case token of
             None \<Rightarrow> ret ()
           | Some i \<Rightarrow> bind (index names_vec_vec i) (\<lambda>names_vec.
               capsule_read_usage capsule (sd_entry (shapes_vec ! i)) names_vec False True)) (\<lambda>_.
     bind (capsule_get_tag_index shapes_vec) (\<lambda>tag.
     case tag of
       None \<Rightarrow> ret ()
     | Some i \<Rightarrow> bind (index names_vec_vec i) (\<lambda>names_vec.
         capsule_read_usage capsule (sd_entry (shapes_vec ! i)) names_vec True False))))"

definition capsule_read_tld_type_1_unit ::
  "nat \<Rightarrow> ShapeDataT list \<Rightarrow> nat list list \<Rightarrow> ('z capsule_state_scheme, unit) prog" where
  "capsule_read_tld_type_1_unit capsule shapes_vec names_vec_vec =
     bind (capsule_get_token_index shapes_vec) (\<lambda>token.
     bind (capsule_get_tag_index shapes_vec) (\<lambda>tag.
     for_each [0..<length shapes_vec] (\<lambda>i. bind (index names_vec_vec i) (\<lambda>names_vec.
       capsule_read_usage capsule (sd_entry (shapes_vec ! i)) names_vec (Some i = tag) (Some i = token)))))"

definition capsule_read_tld_unit_header :: "('z capsule_state_scheme, unit) prog" where
  "capsule_read_tld_unit_header =
     bind tdf_read_int (\<lambda>n. if n \<noteq> 1 then error_throw XX_capsule_error else
     bind tdf_read_int (\<lambda>n. if n \<noteq> 0 then error_throw XX_capsule_error else
     bind tdf_read_int (\<lambda>n. if n \<noteq> 0 then error_throw XX_capsule_error else
     bind tdf_read_int (\<lambda>len.
     bind (modify (\<lambda>s. s\<lparr>cs_unit_length := unat len\<rparr>)) (\<lambda>_.
     bind tdf_read_align (\<lambda>_.
     bind tdf_reader_byte (\<lambda>offset. modify (\<lambda>s. s\<lparr>cs_unit_offset := offset\<rparr>))))))))"

definition capsule_read_tld_unit_trailer :: "('z capsule_state_scheme, unit) prog" where
  "capsule_read_tld_unit_trailer =
     bind tdf_reader_byte (\<lambda>offset.
     bind (gets (\<lambda>s. cs_unit_offset s + cs_unit_length s)) (\<lambda>correct.
     bind tdf_read_align (\<lambda>_.
     if correct \<noteq> offset then error_throw XX_capsule_error else ret ())))"

definition capsule_read_tld2_units ::
  "nat \<Rightarrow> ShapeDataT list \<Rightarrow> nat list list \<Rightarrow> ('z capsule_state_scheme, unit) prog" where
  "capsule_read_tld2_units capsule shapes_vec names_vec_vec =
     bind (gets cs_tld2_index) (\<lambda>i. bind (check (i \<noteq> UINT_MAX)) (\<lambda>_.
     bind capsule_read_tld_unit_header (\<lambda>_.
     bind (capsule_read_tld_type_0_unit capsule shapes_vec names_vec_vec) (\<lambda>_.
     capsule_read_tld_unit_trailer))))"

definition capsule_read_tld_units ::
  "nat \<Rightarrow> ShapeDataT list \<Rightarrow> nat list list \<Rightarrow> ('z capsule_state_scheme, unit) prog" where
  "capsule_read_tld_units capsule shapes_vec names_vec_vec =
     bind capsule_read_tld_unit_header (\<lambda>_.
     bind tdf_read_int (\<lambda>unit_type.
     bind (if unit_type = 0 then capsule_read_tld_type_0_unit capsule shapes_vec names_vec_vec
           else if unit_type = 1 then capsule_read_tld_type_1_unit capsule shapes_vec names_vec_vec
           else error_throw XX_capsule_error) (\<lambda>_.
     capsule_read_tld_unit_trailer)))"

text \<open>A unit is reached through its set and its position in it.\<close>

definition capsule_read_unit_counts ::
  "ShapeDataT list \<Rightarrow> cuint \<Rightarrow> nat \<Rightarrow> nat \<Rightarrow> ('z capsule_state_scheme, nat list) prog" where
  "capsule_read_unit_counts shapes_vec num_counts unit_entry unit =
     (if num_counts \<noteq> 0 \<and> unat num_counts \<noteq> length shapes_vec then error_throw XX_capsule_error
      else if num_counts \<noteq> 0 then
        collect shapes_vec (\<lambda>shape.
          bind tdf_read_int (\<lambda>num.
          bind (on_shape (sd_entry shape) (\<lambda>e. ret (se_key e, e))) (\<lambda>key.
          on_unit unit_entry unit (\<lambda>u. bind (defined (un_map_table u)) (\<lambda>table.
            case map_table_add table key num of
              (entry, table) \<Rightarrow> ret (entry, u\<lparr>un_map_table := Some table\<rparr>))))))
      else ret [])"

fun capsule_read_links ::
  "nat \<Rightarrow> nat \<Rightarrow> nat \<Rightarrow> nat list \<Rightarrow> ShapeDataT \<Rightarrow> ('z capsule_state_scheme, ShapeDataT) prog" where
  "capsule_read_links unit_entry unit map_entry [] shape = ret shape"
| "capsule_read_links unit_entry unit map_entry (j # js) shape =
     bind tdf_read_int (\<lambda>internal. bind tdf_read_int (\<lambda>external.
     if external \<ge> sd_num_ids shape then error_throw XX_capsule_error
     else bind (index (sd_id_maps shape) (unat external)) (\<lambda>id_map.
       bind (if id_map = UINT_MAX then on_shape (sd_entry shape) shape_entry_next_id else ret id_map) (\<lambda>id.
       bind (on_map_entry unit_entry unit map_entry (map_entry_set_link (of_nat j) internal id)) (\<lambda>_.
       capsule_read_links unit_entry unit map_entry js
         (shape\<lparr>sd_id_maps := (sd_id_maps shape)[unat external := id]\<rparr>))))))"

fun capsule_read_unit_maps_each ::
  "nat \<Rightarrow> nat \<Rightarrow> nat list \<Rightarrow> ShapeDataT list \<Rightarrow> ('z capsule_state_scheme, ShapeDataT list) prog" where
  "capsule_read_unit_maps_each unit_entry unit (m # map_entries) (shape # shapes_vec) =
     bind tdf_read_int (\<lambda>num_links.
     bind (on_map_entry unit_entry unit m (\<lambda>e. Some (map_entry_set_num_links num_links e))) (\<lambda>_.
     bind (capsule_read_links unit_entry unit m [0..<unat num_links] shape) (\<lambda>shape.
     bind (capsule_read_unit_maps_each unit_entry unit map_entries shapes_vec) (\<lambda>shapes_vec.
     ret (shape # shapes_vec)))))"
| "capsule_read_unit_maps_each unit_entry unit _ shapes_vec = ret shapes_vec"

definition capsule_read_unit_maps ::
  "cuint \<Rightarrow> ShapeDataT list \<Rightarrow> nat \<Rightarrow> nat \<Rightarrow> nat list \<Rightarrow> ('z capsule_state_scheme, ShapeDataT list) prog" where
  "capsule_read_unit_maps num_counts shapes_vec unit_entry unit map_entries =
     bind tdf_read_int (\<lambda>num_link_shapes.
     if num_link_shapes \<noteq> num_counts then error_throw XX_capsule_error
     else capsule_read_unit_maps_each unit_entry unit map_entries shapes_vec)"

definition capsule_add_unit :: "nat \<Rightarrow> cuint \<Rightarrow> ('z capsule_state_scheme, nat) prog" where
  "capsule_add_unit unit_entry num_counts = bind (gets (\<lambda>s. entries (cs_units s))) (\<lambda>es.
     bind (index es unit_entry) (\<lambda>e.
     bind (modify (\<lambda>s. s\<lparr>cs_units := table_set unit_entry (unit_entry_add_unit num_counts e) (cs_units s)\<rparr>)) (\<lambda>_.
     ret (length (ue_units e)))))"

definition capsule_read_unit ::
  "ShapeDataT list \<Rightarrow> nat \<Rightarrow> ('z capsule_state_scheme, ShapeDataT list) prog" where
  "capsule_read_unit shapes_vec unit_entry =
     bind tdf_read_int (\<lambda>num_counts.
     bind (capsule_add_unit unit_entry num_counts) (\<lambda>unit.
     bind (capsule_read_unit_counts shapes_vec num_counts unit_entry unit) (\<lambda>map_entries.
     bind (capsule_read_unit_maps num_counts shapes_vec unit_entry unit map_entries) (\<lambda>shapes_vec.
     bind tdf_read_int (\<lambda>sz.
     bind (tdf_read_bytes (nstring_init_length (unat sz))) (\<lambda>nstring.
     bind (on_unit unit_entry unit (\<lambda>u. ret ((), unit_set_contents nstring u))) (\<lambda>_.
     ret shapes_vec)))))))"

fun capsule_read_units_loop ::
  "nat \<Rightarrow> ShapeDataT list \<Rightarrow> nat \<Rightarrow> ('z capsule_state_scheme, ShapeDataT list) prog" where
  "capsule_read_units_loop 0 shapes_vec unit_entry = ret shapes_vec"
| "capsule_read_units_loop (Suc n) shapes_vec unit_entry =
     bind (capsule_read_unit shapes_vec unit_entry) (\<lambda>shapes_vec. capsule_read_units_loop n shapes_vec unit_entry)"

definition capsule_read_units ::
  "ShapeDataT list \<Rightarrow> nat \<Rightarrow> ('z capsule_state_scheme, ShapeDataT list) prog" where
  "capsule_read_units shapes_vec unit_entry =
     bind tdf_read_int (\<lambda>num_units. capsule_read_units_loop (unat num_units) shapes_vec unit_entry)"

fun capsule_read_unit_sets_each ::
  "nat \<Rightarrow> nat option \<Rightarrow> nat option \<Rightarrow> nat list \<Rightarrow> ShapeDataT list \<Rightarrow> nat list list
     \<Rightarrow> ('z capsule_state_scheme, ShapeDataT list) prog" where
  "capsule_read_unit_sets_each capsule tld_entry tld2_entry [] shapes_vec names_vec_vec = ret shapes_vec"
| "capsule_read_unit_sets_each capsule tld_entry tld2_entry (u # units_vec) shapes_vec names_vec_vec =
     bind (if Some u = tld_entry
             then bind (capsule_read_tld_units capsule shapes_vec names_vec_vec) (\<lambda>_. ret shapes_vec)
           else if Some u = tld2_entry
             then bind (capsule_read_tld2_units capsule shapes_vec names_vec_vec) (\<lambda>_. ret shapes_vec)
           else capsule_read_units shapes_vec u) (\<lambda>shapes_vec.
     capsule_read_unit_sets_each capsule tld_entry tld2_entry units_vec shapes_vec names_vec_vec)"

definition capsule_read_unit_sets ::
  "nat \<Rightarrow> nat list \<Rightarrow> ShapeDataT list \<Rightarrow> nat list list \<Rightarrow> ('z capsule_state_scheme, ShapeDataT list) prog" where
  "capsule_read_unit_sets capsule units_vec shapes_vec names_vec_vec =
     bind capsule_tld_entry (\<lambda>tld_entry. bind capsule_tld2_entry (\<lambda>tld2_entry.
     bind tdf_read_int (\<lambda>num_units.
     if unat num_units \<noteq> length units_vec then error_throw XX_capsule_error
     else capsule_read_unit_sets_each capsule tld_entry tld2_entry units_vec shapes_vec names_vec_vec)))"

text \<open>The region between \<^verbatim>\<open>HANDLE\<close> and \<^verbatim>\<open>WITH\<close>, and the whole of \<^verbatim>\<open>capsule_read\<close>.\<close>

definition capsule_read_body :: "nat \<Rightarrow> ('z capsule_state_scheme, unit) prog" where
  "capsule_read_body capsule =
     bind capsule_read_header (\<lambda>_.
     bind capsule_read_unit_set_names (\<lambda>units_vec.
     bind capsule_read_shapes (\<lambda>shapes_vec.
     bind (capsule_read_external_names shapes_vec) (\<lambda>(names_vec_vec, shapes_vec).
     bind (capsule_read_unit_sets capsule units_vec shapes_vec names_vec_vec) (\<lambda>_.
     bind tdf_read_eof (\<lambda>_.
     modify (\<lambda>s. s\<lparr>cs_capsules := (cs_capsules s)[capsule := (cs_capsules s ! capsule)\<lparr>cp_complete := True\<rparr>]\<rparr>)))))))"

definition capsule_read :: "nat \<Rightarrow> ('z capsule_state_scheme, unit) prog" where
  "capsule_read capsule =
     bind (gets (\<lambda>s. cp_type (cs_capsules s ! capsule))) (\<lambda>type. bind (check (type = CT_INPUT)) (\<lambda>_.
     bind capsule_setup (\<lambda>_.
     handle (capsule_read_body capsule) (\<lambda>exception.
       if exception \<noteq> XX_capsule_error \<and> exception \<noteq> XX_tdf_read_error then raise exception else ret ()))))"

section \<open>Creating and closing\<close>

definition capsule_add :: "CapsuleTypeT \<Rightarrow> cstring \<Rightarrow> ('z capsule_state_scheme, nat) prog" where
  "capsule_add type name s = (Ret (length (cs_capsules s)), s\<lparr>cs_capsules := cs_capsules s @
     [\<lparr>cp_type = type, cp_contents = [], cp_index = 0, cp_name = name, cp_complete = False\<rparr>]\<rparr>)"

definition capsule_create_stream_input :: "cstring \<Rightarrow> ('z capsule_state_scheme, nat option) prog" where
  "capsule_create_stream_input name = bind (tdf_reader_open name) (\<lambda>ok.
     if \<not> ok then ret None else bind (capsule_add CT_INPUT name) (\<lambda>capsule. ret (Some capsule)))"

definition capsule_create_string_input :: "cstring \<Rightarrow> NStringT \<Rightarrow> ('z capsule_state_scheme, nat) prog" where
  "capsule_create_string_input name nstring = bind (tdf_reader_open_string name nstring) (\<lambda>_.
     capsule_add CT_INPUT name)"

definition capsule_create_stream_output :: "cstring \<Rightarrow> ('z capsule_state_scheme, nat option) prog" where
  "capsule_create_stream_output name = bind (tdf_writer_open name) (\<lambda>ok.
     if \<not> ok then ret None else bind (capsule_add CT_OUTPUT name) (\<lambda>capsule. ret (Some capsule)))"

definition capsule_store_contents :: "nat \<Rightarrow> ('z capsule_state_scheme, unit) prog" where
  "capsule_store_contents capsule = bind (gets (\<lambda>s. cp_complete (cs_capsules s ! capsule))) (\<lambda>complete.
     if complete then
       bind tdf_reader_byte (\<lambda>len.
       bind tdf_reader_rewind (\<lambda>_.
       bind (tdf_read_bytes (nstring_init_length len)) (\<lambda>nstring.
       bind (modify (\<lambda>s. s\<lparr>cs_capsules :=
         (cs_capsules s)[capsule := (cs_capsules s ! capsule)\<lparr>cp_contents := nstring\<rparr>]\<rparr>)) (\<lambda>_.
       tdf_read_eof))))
     else ret ())"

definition capsule_set_index :: "nat \<Rightarrow> cuint \<Rightarrow> ('z capsule_state_scheme, unit) prog" where
  "capsule_set_index capsule i = modify (\<lambda>s. s\<lparr>cs_capsules :=
     (cs_capsules s)[capsule := (cs_capsules s ! capsule)\<lparr>cp_index := i\<rparr>]\<rparr>)"

definition capsule_close :: "nat \<Rightarrow> ('z capsule_state_scheme, unit) prog" where
  "capsule_close capsule = bind (gets (\<lambda>s. cp_type (cs_capsules s ! capsule))) (\<lambda>type.
     case type of CT_INPUT \<Rightarrow> tdf_reader_close | CT_OUTPUT \<Rightarrow> tdf_writer_close)"

section \<open>Writing\<close>

definition capsule_write_header :: "('z capsule_state_scheme, unit) prog" where
  "capsule_write_header = bind (tdf_write_bytes capsule_magic) (\<lambda>_.
     bind (gets cs_major_version) (\<lambda>major. bind (gets cs_minor_version) (\<lambda>minor.
     bind (check (major \<ge> 4)) (\<lambda>_.
     bind (tdf_write_int major) (\<lambda>_.
     bind (tdf_write_int minor) (\<lambda>_.
     tdf_write_align))))))"

definition put_shapes :: "('z capsule_state_scheme, ShapeTableT) prog \<Rightarrow> ('z capsule_state_scheme, unit) prog" where
  "put_shapes m = bind m (\<lambda>shapes. modify (\<lambda>s. s\<lparr>cs_shapes := shapes\<rparr>))"

definition iter_shapes ::
  "(ShapeEntryT \<Rightarrow> 'a \<Rightarrow> ('z capsule_state_scheme, ShapeEntryT \<times> 'a) prog) \<Rightarrow> 'a \<Rightarrow> ('z capsule_state_scheme, 'a) prog" where
  "iter_shapes proc closure = bind (gets cs_shapes) (\<lambda>shapes.
     bind (shape_table_iter shapes proc closure) (\<lambda>(shapes, closure).
     bind (modify (\<lambda>s. s\<lparr>cs_shapes := shapes\<rparr>)) (\<lambda>_. ret closure)))"

definition capsule_write :: "('z capsule_state_scheme, unit) prog" where
  "capsule_write =
     bind capsule_tld_entry (\<lambda>tld_entry.
     bind (gets cs_unit_sets) (\<lambda>sets. bind (defined sets) (\<lambda>sets.
     bind capsule_write_header (\<lambda>_.
     bind (gets cs_units) (\<lambda>units. bind (gets cs_shapes) (\<lambda>shapes.
     bind (unit_table_iter units unit_entry_do_count (1, shapes)) (\<lambda>(num_unit_sets, shapes).
     bind (modify (\<lambda>s. s\<lparr>cs_shapes := shapes\<rparr>)) (\<lambda>_.
     bind (tdf_write_int num_unit_sets) (\<lambda>_.
     bind (for_each sets (\<lambda>us. bind (defined (us_entry us)) (\<lambda>entry.
       unit_entry_write_unit_set (Some entry = tld_entry) (entries units ! entry)))) (\<lambda>_.
     bind (iter_shapes shape_entry_do_count 0) (\<lambda>num_shapes.
     bind (tdf_write_int num_shapes) (\<lambda>_.
     bind (iter_shapes shape_entry_write_shape ()) (\<lambda>_.
     bind (tdf_write_int num_shapes) (\<lambda>_.
     bind (iter_shapes shape_entry_write_externs ()) (\<lambda>_.
     bind (tdf_write_int num_unit_sets) (\<lambda>_.
     for_each sets (\<lambda>us. bind (defined (us_entry us)) (\<lambda>entry.
       bind (gets cs_shapes) (\<lambda>shapes.
       put_shapes
         (if Some entry = tld_entry then unit_entry_write_tld_unit shapes
          else unit_entry_write_units (entries units ! entry) shapes num_shapes))))))))))))))))))))"

end
