(* ===== verification/Exds_Ostream.thy ===== *)
theory Exds_Ostream
  imports Exds_Stream
begin

text \<open>
  The text output stream of libexds, \<^verbatim>\<open>ostream.c\<close>, over the output files of the byte streams. The
  indicator \<open>os_error\<close> is the one \<^verbatim>\<open>ferror\<close> reads: it stays set once a write has failed. A failing
  device is noticed at the write and not when the buffer of the standard library is flushed.
\<close>

section \<open>Streams\<close>

record OStreamT =
  os_file :: ofile
  os_error :: bool
  os_name :: "cstring option"
  os_gen_name :: cstring
  os_line :: cuint
  os_no :: nat

text \<open>Decimal digits, as \<^verbatim>\<open>%u\<close> and \<^verbatim>\<open>%d\<close> print them.\<close>

fun decimal :: "nat \<Rightarrow> byte list" where
  "decimal n = (if n < 10 then [of_nat (48 + n)] else decimal (n div 10) @ [of_nat (48 + n mod 10)])"

declare decimal.simps [simp del]

definition ostream_init :: "OStreamT \<Rightarrow> OStreamT" where
  "ostream_init ostream = ostream\<lparr>os_name := None\<rparr>"

text \<open>
  A name with an at sign stands for a family of files: the last at sign is replaced by the number of
  the file, which is counted up whether or not the file can be opened.
\<close>

definition ostream_open ::
  "(cstring \<Rightarrow> ofile option) \<Rightarrow> cstring \<Rightarrow> OStreamT \<Rightarrow> bool \<times> OStreamT" where
  "ostream_open fs name ostream =
     (let numbered = 64 \<in> set name;
          suffix = rev (takeWhile (\<lambda>b. b \<noteq> 64) (rev name));
          prefix = take (length name - length suffix - 1) name;
          ostream = (if numbered then ostream\<lparr>os_no := os_no ostream + 1\<rparr> else ostream);
          oname = (if numbered then prefix @ decimal (os_no ostream) @ suffix else name) in
      case fs oname of
        None \<Rightarrow> (False, ostream)
      | Some f \<Rightarrow> (True, ostream\<lparr>os_file := f\<lparr>of_data := []\<rparr>, os_error := False, os_name := Some oname,
                                  os_gen_name := name, os_line := 1\<rparr>))"

definition ostream_is_open :: "OStreamT \<Rightarrow> bool" where
  "ostream_is_open ostream \<longleftrightarrow> os_name ostream \<noteq> None"

definition ostream_close :: "(OStreamT, unit) prog" where
  "ostream_close = bind (gets (\<lambda>os. fclose (os_file os))) (\<lambda>ok.
     if \<not> ok then raise XX_ostream_write_error else modify ostream_init)"

definition ostream_flush :: "(OStreamT, unit) prog" where
  "ostream_flush = bind (gets (\<lambda>os. fclose (os_file os))) (\<lambda>ok.
     if \<not> ok then raise XX_ostream_write_error else ret ())"

section \<open>Writing\<close>

text \<open>One call of the standard library, and \<^verbatim>\<open>OSTREAM_WRITE_ERROR_CHECK\<close>.\<close>

definition os_put :: "byte list \<Rightarrow> (OStreamT, unit) prog" where
  "os_put bs = modify (\<lambda>os. case fwrite bs (os_file os) of (ok, f) \<Rightarrow>
     os\<lparr>os_file := f, os_error := (os_error os \<or> \<not> ok)\<rparr>)"

definition ostream_write_error_check :: "(OStreamT, unit) prog" where
  "ostream_write_error_check = bind (gets os_error) (\<lambda>e. if e then raise XX_ostream_write_error else ret ())"

definition os_count_lines :: "byte list \<Rightarrow> (OStreamT, unit) prog" where
  "os_count_lines bs = modify (\<lambda>os. os\<lparr>os_line := os_line os + of_nat (count_list bs 10)\<rparr>)"

definition write_newline :: "(OStreamT, unit) prog" where
  "write_newline = bind (modify (\<lambda>os. os\<lparr>os_line := os_line os + 1\<rparr>)) (\<lambda>_.
     bind (os_put [10]) (\<lambda>_. ostream_write_error_check))"

definition write_tab :: "(OStreamT, unit) prog" where
  "write_tab = bind (os_put [9]) (\<lambda>_. ostream_write_error_check)"

definition write_char :: "byte \<Rightarrow> (OStreamT, unit) prog" where
  "write_char c = bind (if c = 10 then modify (\<lambda>os. os\<lparr>os_line := os_line os + 1\<rparr>) else ret ()) (\<lambda>_.
     bind (os_put [c]) (\<lambda>_. ostream_write_error_check))"

text \<open>\<^verbatim>\<open>isprint\<close> of the C locale, and the two hexadecimal digits of \<^verbatim>\<open>%02x\<close>.\<close>

definition isprint :: "byte \<Rightarrow> bool" where
  "isprint c \<longleftrightarrow> 32 \<le> c \<and> c < 127"

definition hex_digit :: "byte \<Rightarrow> byte" where
  "hex_digit d = (if d < 10 then 48 + d else 87 + d)"

definition escaped_char :: "byte \<Rightarrow> byte list" where
  "escaped_char c =
     (if c = 0 then [92, 48] else if c = 12 then [92, 102] else if c = 10 then [10]
      else if c = 13 then [92, 114] else if c = 9 then [9] else if c = 92 then [92, 92]
      else if isprint c then [c]
      else [92, 120, hex_digit (drop_bit 4 c), hex_digit (c AND 15)])"

definition write_escaped_char :: "byte \<Rightarrow> (OStreamT, unit) prog" where
  "write_escaped_char c = bind (if c = 10 then modify (\<lambda>os. os\<lparr>os_line := os_line os + 1\<rparr>) else ret ()) (\<lambda>_.
     bind (os_put (escaped_char c)) (\<lambda>_. ostream_write_error_check))"

definition write_int :: "int \<Rightarrow> (OStreamT, unit) prog" where
  "write_int i = bind (os_put (if i < 0 then 45 # decimal (nat (- i)) else decimal (nat i))) (\<lambda>_.
     ostream_write_error_check)"

definition write_unsigned :: "cuint \<Rightarrow> (OStreamT, unit) prog" where
  "write_unsigned i = bind (os_put (decimal (unat i))) (\<lambda>_. ostream_write_error_check)"

definition write_cstring :: "cstring \<Rightarrow> (OStreamT, unit) prog" where
  "write_cstring string = bind (os_count_lines string) (\<lambda>_.
     bind (os_put string) (\<lambda>_. ostream_write_error_check))"

definition write_chars :: "byte list \<Rightarrow> (OStreamT, unit) prog" where
  "write_chars bs = for_each bs write_char"

definition write_escaped_chars :: "byte list \<Rightarrow> (OStreamT, unit) prog" where
  "write_escaped_chars bs = for_each bs write_escaped_char"

section \<open>Facts\<close>

text \<open>What a stream on a device that does not fill up has written, and its line.\<close>

definition os_sound :: "OStreamT \<Rightarrow> bool" where
  "os_sound os \<longleftrightarrow> of_limit (os_file os) = None \<and> \<not> os_error os"

definition os_written :: "byte list \<Rightarrow> OStreamT \<Rightarrow> OStreamT" where
  "os_written bs os = os\<lparr>os_file := (os_file os)\<lparr>of_data := of_data (os_file os) @ bs\<rparr>,
     os_line := os_line os + of_nat (count_list bs 10)\<rparr>"

lemma os_sound_written [simp]: "os_sound (os_written bs os) = os_sound os"
  by (simp add: os_sound_def os_written_def)

lemma os_written_append: "os_written cs (os_written bs os) = os_written (bs @ cs) os"
  by (simp add: os_written_def)

lemma os_written_Nil [simp]: "os_written [] os = os"
  by (simp add: os_written_def)

lemma os_put_sound:
  "os_sound os \<Longrightarrow> os_put bs os = (Ret (), os\<lparr>os_file := (os_file os)\<lparr>of_data := of_data (os_file os) @ bs\<rparr>\<rparr>)"
  by (simp add: os_put_def modify_def fwrite_def os_sound_def)

lemmas os_write_simps = bind_def modify_def gets_def ret_def ostream_write_error_check_def os_put_sound

lemma write_cstring_sound: "os_sound os \<Longrightarrow> write_cstring bs os = (Ret (), os_written bs os)"
proof -
  assume "os_sound os"
  then have "os_sound (os\<lparr>os_line := os_line os + of_nat (count_list bs 10)\<rparr>)" by (simp add: os_sound_def)
  then show ?thesis
    by (simp add: write_cstring_def os_count_lines_def os_write_simps os_written_def) (simp add: os_sound_def)
qed

lemma write_char_sound: "os_sound os \<Longrightarrow> write_char c os = (Ret (), os_written [c] os)"
proof -
  assume "os_sound os"
  then have "os_sound (os\<lparr>os_line := os_line os + 1\<rparr>)" "os_sound os" by (simp_all add: os_sound_def)
  then show ?thesis
    by (auto simp: write_char_def os_write_simps os_written_def os_sound_def)
qed

lemma write_newline_sound: "os_sound os \<Longrightarrow> write_newline os = (Ret (), os_written [10] os)"
proof -
  assume "os_sound os"
  then have "os_sound (os\<lparr>os_line := os_line os + 1\<rparr>)" by (simp add: os_sound_def)
  then show ?thesis
    by (simp add: write_newline_def os_write_simps os_written_def) (simp add: os_sound_def)
qed

lemma write_chars_sound: "os_sound os \<Longrightarrow> write_chars bs os = (Ret (), os_written bs os)"
proof (induction bs arbitrary: os)
  case (Cons c cs)
  then show ?case
    by (simp add: write_chars_def bind_def write_char_sound os_written_append)
qed (simp add: write_chars_def ret_def)

lemma digit_byte: "d < 10 \<Longrightarrow> unat (of_nat (48 + d) :: byte) = 48 + d"
  by (simp add: unat_of_nat del: of_nat_add)

lemma decimal_digits: "\<forall>b\<in>set (decimal n). is_digit b"
proof (induction n rule: decimal.induct)
  case (1 n)
  have "is_digit (of_nat (48 + d))" if "d < 10" for d
    using digit_byte[OF that] that by (simp add: is_digit_def word_le_nat_alt del: of_nat_add)
  with 1 show ?case by (subst decimal.simps) (simp del: of_nat_add)
qed

lemma decimal_value_decimal: "decimal_value 0 (decimal n) = n"
proof (induction n rule: decimal.induct)
  case (1 n)
  show ?case
  proof (cases "n < 10")
    case True
    then show ?thesis
      by (subst decimal.simps) (simp add: decimal_value_def digit_byte del: of_nat_add)
  next
    case False
    with 1 have "decimal_value 0 (decimal (n div 10)) = n div 10" by simp
    with False show ?thesis
      by (subst decimal.simps) (simp add: decimal_value_def digit_byte del: of_nat_add)
  qed
qed

end
