(* ===== verification/Args.thy ===== *)
theory Args
  imports Capsule Exds_Ostream
begin

text \<open>
  Command line data, \<^verbatim>\<open>tld/src/adt/arg-data.c\<close>, and file names, \<^verbatim>\<open>tld/src/file-name.c\<close>. Linked lists
  of the command line are lists, with the head first; a control entry is reached by its position.
  The list of library files and the vector it is turned into when all arguments are read are the same
  list here. Setting the unit set file, which reads it, is part of \<open>Tld_Main\<close>.
\<close>

section \<open>Control lists\<close>

record ShapeControlEntryT =
  sc_shape :: NStringT
  sc_all :: bool
  sc_names :: "NameKeyT list"

record RenameControlEntryT =
  rc_shape :: NStringT
  rc_names :: "(NameKeyT \<times> NameKeyT) list"

type_synonym ShapeControlT = "ShapeControlEntryT list"
type_synonym RenameControlT = "RenameControlEntryT list"

fun position :: "('a \<Rightarrow> bool) \<Rightarrow> 'a list \<Rightarrow> nat option" where
  "position p [] = None"
| "position p (x # xs) = (if p x then Some 0 else map_option Suc (position p xs))"

definition shape_control_find :: "ShapeControlT \<Rightarrow> cstring \<Rightarrow> nat \<times> ShapeControlT" where
  "shape_control_find control shape =
     (let nstring = nstring_copy_cstring shape in
      case position (\<lambda>entry. nstring_equal nstring (sc_shape entry)) control of
        Some i \<Rightarrow> (i, control)
      | None \<Rightarrow> (0, \<lparr>sc_shape = nstring_assign nstring, sc_all = False, sc_names = []\<rparr> # control))"

text \<open>A value that \<^verbatim>\<open>name_key_parse_cstring\<close> cannot parse is reported; reading past a string is undefined.\<close>

definition shape_control_entry_add_name ::
  "ShapeControlEntryT \<Rightarrow> cstring \<Rightarrow> ('z error_state_scheme, ShapeControlEntryT) prog" where
  "shape_control_entry_add_name entry name =
     (case name_key_parse_cstring name of
        POk key \<Rightarrow> ret (entry\<lparr>sc_names := name_key_list_add (sc_names entry) key\<rparr>)
      | PFail \<Rightarrow> bind (error_msg ERR_SERIOUS) (\<lambda>_. ret entry)
      | PUndef \<Rightarrow> raise Undefined)"

definition shape_control_entry_set :: "ShapeControlEntryT \<Rightarrow> ShapeControlEntryT" where
  "shape_control_entry_set entry = entry\<lparr>sc_all := True\<rparr>"

definition rename_control_find :: "RenameControlT \<Rightarrow> NStringT \<Rightarrow> nat \<times> RenameControlT" where
  "rename_control_find control shape =
     (case position (\<lambda>entry. nstring_equal shape (rc_shape entry)) control of
        Some i \<Rightarrow> (i, control)
      | None \<Rightarrow> (0, \<lparr>rc_shape = nstring_copy shape, rc_names = []\<rparr> # control))"

definition rename_control_entry_parse_pair ::
  "RenameControlEntryT \<Rightarrow> cstring \<Rightarrow> cstring \<Rightarrow> ('z error_state_scheme, RenameControlEntryT) prog" where
  "rename_control_entry_parse_pair entry from to =
     (case name_key_parse_cstring from of
        PUndef \<Rightarrow> raise Undefined
      | PFail \<Rightarrow> bind (error_msg ERR_SERIOUS) (\<lambda>_. ret entry)
      | POk from_key \<Rightarrow>
          (case name_key_parse_cstring to of
             PUndef \<Rightarrow> raise Undefined
           | PFail \<Rightarrow> bind (error_msg ERR_SERIOUS) (\<lambda>_. ret entry)
           | POk to_key \<Rightarrow>
               (case name_key_pair_list_add (rc_names entry) from_key to_key of
                  None \<Rightarrow> bind (error_msg ERR_SERIOUS) (\<lambda>_. ret entry)
                | Some names \<Rightarrow> ret (entry\<lparr>rc_names := names\<rparr>))))"

definition shape_control_iter ::
  "ShapeControlT \<Rightarrow> (NStringT \<Rightarrow> bool \<Rightarrow> NameKeyT list \<Rightarrow> ('s, unit) prog) \<Rightarrow> ('s, unit) prog" where
  "shape_control_iter control proc =
     for_each control (\<lambda>entry. proc (sc_shape entry) (sc_all entry) (sc_names entry))"

definition rename_control_iter ::
  "RenameControlT \<Rightarrow> (NStringT \<Rightarrow> (NameKeyT \<times> NameKeyT) list \<Rightarrow> ('s, unit) prog) \<Rightarrow> ('s, unit) prog" where
  "rename_control_iter control proc = for_each control (\<lambda>entry. proc (rc_shape entry) (rc_names entry))"

section \<open>Argument data\<close>

record ArgDataT =
  ad_all_hide_defined :: bool
  ad_suppress_mult :: bool
  ad_hides :: ShapeControlT
  ad_keeps :: ShapeControlT
  ad_suppresses :: ShapeControlT
  ad_renames :: RenameControlT
  ad_extract_all :: bool
  ad_extract_basename :: bool
  ad_extract_match_base :: bool
  ad_content_index :: bool
  ad_content_size :: bool
  ad_content_version :: bool
  ad_missing_definitions :: bool
  ad_debug_file :: OStreamT
  ad_default_output_file :: "cstring option"
  ad_output_file :: "cstring option"
  ad_library_files :: "cstring list"
  ad_library_paths :: "cstring list"
  ad_unit_file :: "cstring option"
  ad_files :: "cstring list"

text \<open>A stream in static storage.\<close>

definition ostream_static :: OStreamT where
  "ostream_static = \<lparr>os_file = \<lparr>of_data = [], of_limit = None\<rparr>, os_error = False, os_name = None,
     os_gen_name = [], os_line = 0, os_no = 0\<rparr>"

definition arg_data_init :: "cstring option \<Rightarrow> ArgDataT" where
  "arg_data_init default_output_file =
     \<lparr>ad_all_hide_defined = False, ad_suppress_mult = False, ad_hides = [], ad_keeps = [],
      ad_suppresses = [], ad_renames = [], ad_extract_all = False, ad_extract_basename = False,
      ad_extract_match_base = False, ad_content_index = False, ad_content_size = False,
      ad_content_version = False, ad_missing_definitions = False,
      ad_debug_file = ostream_init ostream_static,
      ad_default_output_file = default_output_file, ad_output_file = None,
      ad_library_files = [], ad_library_paths = [], ad_unit_file = None, ad_files = []\<rparr>"

definition arg_data_set_all_hide_defd :: "bool \<Rightarrow> ArgDataT \<Rightarrow> ArgDataT" where
  "arg_data_set_all_hide_defd enable arg_data = arg_data\<lparr>ad_all_hide_defined := enable\<rparr>"

definition arg_data_set_suppress_mult :: "bool \<Rightarrow> ArgDataT \<Rightarrow> ArgDataT" where
  "arg_data_set_suppress_mult enable arg_data = arg_data\<lparr>ad_suppress_mult := enable\<rparr>"

definition arg_data_set_extract_all :: "bool \<Rightarrow> ArgDataT \<Rightarrow> ArgDataT" where
  "arg_data_set_extract_all enable arg_data = arg_data\<lparr>ad_extract_all := enable\<rparr>"

definition arg_data_set_extract_basename :: "bool \<Rightarrow> ArgDataT \<Rightarrow> ArgDataT" where
  "arg_data_set_extract_basename enable arg_data = arg_data\<lparr>ad_extract_basename := enable\<rparr>"

definition arg_data_set_extract_match_base :: "bool \<Rightarrow> ArgDataT \<Rightarrow> ArgDataT" where
  "arg_data_set_extract_match_base enable arg_data = arg_data\<lparr>ad_extract_match_base := enable\<rparr>"

definition arg_data_set_content_index :: "bool \<Rightarrow> ArgDataT \<Rightarrow> ArgDataT" where
  "arg_data_set_content_index enable arg_data = arg_data\<lparr>ad_content_index := enable\<rparr>"

definition arg_data_set_content_size :: "bool \<Rightarrow> ArgDataT \<Rightarrow> ArgDataT" where
  "arg_data_set_content_size enable arg_data = arg_data\<lparr>ad_content_size := enable\<rparr>"

definition arg_data_set_content_version :: "bool \<Rightarrow> ArgDataT \<Rightarrow> ArgDataT" where
  "arg_data_set_content_version enable arg_data = arg_data\<lparr>ad_content_version := enable\<rparr>"

definition arg_data_set_missing_definitions :: "bool \<Rightarrow> ArgDataT \<Rightarrow> ArgDataT" where
  "arg_data_set_missing_definitions enable arg_data = arg_data\<lparr>ad_missing_definitions := enable\<rparr>"

definition arg_data_set_debug_file :: "cstring \<Rightarrow> ArgDataT \<Rightarrow> ('z io_state_scheme, ArgDataT) prog" where
  "arg_data_set_debug_file debug_file arg_data =
     bind (if ostream_is_open (ad_debug_file arg_data) then error_msg ERR_FATAL else ret ()) (\<lambda>_.
     bind (gets (\<lambda>s. ostream_open (files_out s) debug_file (ad_debug_file arg_data))) (\<lambda>(opened, ostream).
     bind (if \<not> opened then error_msg ERR_FATAL else ret ()) (\<lambda>_.
     ret (arg_data\<lparr>ad_debug_file := ostream\<rparr>))))"

text \<open>Adding a name to, or setting, the entry of a shape in a control list.\<close>

definition shape_control_add ::
  "ShapeControlT \<Rightarrow> cstring \<Rightarrow> cstring \<Rightarrow> ('z error_state_scheme, ShapeControlT) prog" where
  "shape_control_add control shape name =
     (let (i, control) = shape_control_find control shape in
      bind (shape_control_entry_add_name (control ! i) name) (\<lambda>entry. ret (control[i := entry])))"

definition shape_control_set :: "ShapeControlT \<Rightarrow> cstring \<Rightarrow> ShapeControlT" where
  "shape_control_set control shape =
     (let (i, control) = shape_control_find control shape in control[i := shape_control_entry_set (control ! i)])"

definition arg_data_add_hide :: "cstring \<Rightarrow> cstring \<Rightarrow> ArgDataT \<Rightarrow> ('z error_state_scheme, ArgDataT) prog" where
  "arg_data_add_hide shape name arg_data =
     bind (shape_control_add (ad_hides arg_data) shape name) (\<lambda>c. ret (arg_data\<lparr>ad_hides := c\<rparr>))"

definition arg_data_add_hide_defined :: "cstring \<Rightarrow> ArgDataT \<Rightarrow> ArgDataT" where
  "arg_data_add_hide_defined shape arg_data = arg_data\<lparr>ad_hides := shape_control_set (ad_hides arg_data) shape\<rparr>"

definition arg_data_add_keep :: "cstring \<Rightarrow> cstring \<Rightarrow> ArgDataT \<Rightarrow> ('z error_state_scheme, ArgDataT) prog" where
  "arg_data_add_keep shape name arg_data =
     bind (shape_control_add (ad_keeps arg_data) shape name) (\<lambda>c. ret (arg_data\<lparr>ad_keeps := c\<rparr>))"

definition arg_data_add_keep_all :: "cstring \<Rightarrow> ArgDataT \<Rightarrow> ArgDataT" where
  "arg_data_add_keep_all shape arg_data = arg_data\<lparr>ad_keeps := shape_control_set (ad_keeps arg_data) shape\<rparr>"

definition arg_data_add_suppress :: "cstring \<Rightarrow> cstring \<Rightarrow> ArgDataT \<Rightarrow> ('z error_state_scheme, ArgDataT) prog" where
  "arg_data_add_suppress shape name arg_data =
     bind (shape_control_add (ad_suppresses arg_data) shape name) (\<lambda>c. ret (arg_data\<lparr>ad_suppresses := c\<rparr>))"

definition arg_data_add_suppress_all :: "cstring \<Rightarrow> ArgDataT \<Rightarrow> ArgDataT" where
  "arg_data_add_suppress_all shape arg_data =
     arg_data\<lparr>ad_suppresses := shape_control_set (ad_suppresses arg_data) shape\<rparr>"

definition arg_data_add_rename ::
  "NStringT \<Rightarrow> NameKeyT \<Rightarrow> NameKeyT \<Rightarrow> ArgDataT \<Rightarrow> ('z error_state_scheme, ArgDataT) prog" where
  "arg_data_add_rename shape from to arg_data =
     (let (i, control) = rename_control_find (ad_renames arg_data) shape in
      case name_key_pair_list_add (rc_names (control ! i)) from to of
        None \<Rightarrow> bind (error_msg ERR_SERIOUS) (\<lambda>_. ret (arg_data\<lparr>ad_renames := control\<rparr>))
      | Some names \<Rightarrow> ret (arg_data\<lparr>ad_renames := control[i := (control ! i)\<lparr>rc_names := names\<rparr>]\<rparr>))"

definition arg_data_parse_rename ::
  "cstring \<Rightarrow> cstring \<Rightarrow> cstring \<Rightarrow> ArgDataT \<Rightarrow> ('z error_state_scheme, ArgDataT) prog" where
  "arg_data_parse_rename shape from to arg_data =
     (let (i, control) = rename_control_find (ad_renames arg_data) (nstring_copy_cstring shape) in
      bind (rename_control_entry_parse_pair (control ! i) from to) (\<lambda>entry.
      ret (arg_data\<lparr>ad_renames := control[i := entry]\<rparr>)))"

definition arg_data_set_output_file :: "cstring \<Rightarrow> ArgDataT \<Rightarrow> ('z error_state_scheme, ArgDataT) prog" where
  "arg_data_set_output_file output_file arg_data =
     bind (if ad_output_file arg_data \<noteq> None then error_msg ERR_FATAL else ret ()) (\<lambda>_.
     ret (arg_data\<lparr>ad_output_file := Some output_file\<rparr>))"

definition arg_data_get_output_file :: "ArgDataT \<Rightarrow> cstring option" where
  "arg_data_get_output_file arg_data =
     (case ad_output_file arg_data of Some f \<Rightarrow> Some f | None \<Rightarrow> ad_default_output_file arg_data)"

definition cstring_list_append :: "cstring list \<Rightarrow> cstring \<Rightarrow> cstring list" where
  "cstring_list_append list string = list @ [string]"

fun cstring_list_contains :: "cstring list \<Rightarrow> cstring \<Rightarrow> bool" where
  "cstring_list_contains [] string = False"
| "cstring_list_contains (entry # list) string = (string = entry \<or> cstring_list_contains list string)"

definition arg_data_add_library_file :: "cstring \<Rightarrow> ArgDataT \<Rightarrow> ArgDataT" where
  "arg_data_add_library_file library_file arg_data =
     (if \<not> cstring_list_contains (ad_library_files arg_data) library_file
      then arg_data\<lparr>ad_library_files := cstring_list_append (ad_library_files arg_data) library_file\<rparr>
      else arg_data)"

definition arg_data_add_library_path :: "cstring \<Rightarrow> ArgDataT \<Rightarrow> ArgDataT" where
  "arg_data_add_library_path directory arg_data =
     arg_data\<lparr>ad_library_paths := cstring_list_append (ad_library_paths arg_data) directory\<rparr>"

definition arg_data_set_files :: "cstring list \<Rightarrow> ArgDataT \<Rightarrow> ArgDataT" where
  "arg_data_set_files files arg_data = arg_data\<lparr>ad_files := files\<rparr>"

section \<open>File names\<close>

text \<open>The part of a path behind and in front of its last slash.\<close>

definition after_last :: "byte \<Rightarrow> byte list \<Rightarrow> byte list" where
  "after_last c path = rev (takeWhile (\<lambda>b. b \<noteq> c) (rev path))"

definition file_name_basename :: "cstring \<Rightarrow> cstring" where
  "file_name_basename path = (if 47 \<in> set path then after_last 47 path else path)"

definition file_name_dirname :: "cstring \<Rightarrow> cstring" where
  "file_name_dirname path =
     (if 47 \<in> set path then take (length path - length (after_last 47 path) - 1) path else path)"

definition file_name_expand :: "cstring \<Rightarrow> cstring \<Rightarrow> cstring option \<Rightarrow> cstring" where
  "file_name_expand dir name suffix =
     (if dir \<noteq> [] then dir @ (if last dir \<noteq> 47 then [47] else []) else []) @ name
     @ (case suffix of Some suf \<Rightarrow> 46 # suf | None \<Rightarrow> [])"

definition file_name_is_basename :: "cstring \<Rightarrow> bool" where
  "file_name_is_basename path \<longleftrightarrow> 47 \<notin> set path"

definition file_name_is_absolute :: "cstring \<Rightarrow> bool" where
  "file_name_is_absolute path \<longleftrightarrow> path \<noteq> [] \<and> hd path = 47"

section \<open>Facts\<close>

lemma position_Some: "position p xs = Some i \<Longrightarrow> i < length xs \<and> p (xs ! i)"
  by (induction xs arbitrary: i) (auto split: if_splits)

lemma position_None: "position p xs = None \<longleftrightarrow> (\<forall>x\<in>set xs. \<not> p x)"
  by (induction xs) auto

lemma cstring_list_contains_iff [simp]: "cstring_list_contains list s \<longleftrightarrow> s \<in> set list"
  by (induction list) auto

text \<open>What the control lists keep: one entry per shape, no old name twice in one entry.\<close>

definition renames_wf :: "RenameControlT \<Rightarrow> bool" where
  "renames_wf control \<longleftrightarrow> distinct (map rc_shape control) \<and> (\<forall>e\<in>set control. distinct (map fst (rc_names e)))"

definition shapes_wf :: "ShapeControlT \<Rightarrow> bool" where
  "shapes_wf control \<longleftrightarrow> distinct (map sc_shape control)"

lemma rename_control_find_wf:
  assumes "renames_wf c" "rename_control_find c shape = (i, c')"
  shows "renames_wf c' \<and> i < length c' \<and> rc_shape (c' ! i) = shape"
  using assms
  by (auto simp: rename_control_find_def renames_wf_def position_None split: option.splits dest: position_Some)

lemma renames_wf_update:
  assumes "renames_wf c" "i < length c" "rc_shape e = rc_shape (c ! i)" "distinct (map fst (rc_names e))"
  shows "renames_wf (c[i := e])"
  using assms set_update_subset_insert[of c i e]
  by (auto simp: renames_wf_def map_list_update_same)

lemma name_key_pair_list_add_distinct:
  "distinct (map fst list) \<Longrightarrow> name_key_pair_list_add list from to = Some list' \<Longrightarrow> distinct (map fst list')"
  by (auto simp: name_key_pair_list_add_def list_ex_iff split: if_splits)

lemma shape_control_find_wf:
  assumes "shapes_wf c" "shape_control_find c shape = (i, c')"
  shows "shapes_wf c' \<and> i < length c' \<and> sc_shape (c' ! i) = shape"
  using assms
  by (auto simp: shape_control_find_def shapes_wf_def position_None Let_def split: option.splits dest: position_Some)

end
