(* ===== verification/Library.thy ===== *)
theory Library
  imports Args
begin

text \<open>
  TDF libraries: \<^verbatim>\<open>tld/src/adt/library.c\<close>. The state adds the libraries and library capsules
  created so far (pointers are indices) and the shape table that holds library indices. A library
  owns a range of library capsules, which is empty when its header could not be read (the library is allocated
  cleared); an element of the vector that has not been filled in yet, whose pointers are null, is
  \<^verbatim>\<open>None\<close>. Directories created by
  \<^verbatim>\<open>file_name_populate\<close> are not modelled; text sent to the standard output is collected.
\<close>

section \<open>State\<close>

datatype LibraryTypeT = LT_INPUT | LT_OUTPUT

record LibCapsuleT =
  lc_library :: nat
  lc_name :: cstring
  lc_contents :: NStringT
  lc_loaded :: bool

record LibraryT =
  lb_type :: LibraryTypeT
  lb_name :: cstring
  lb_capsules :: "nat \<times> cuint"
  lb_major :: cuint
  lb_minor :: cuint
  lb_complete :: bool

record library_state = capsule_state +
  ls_shapes :: ShapeTableT
  ls_libraries :: "LibraryT list"
  ls_capsules :: "LibCapsuleT option list"
  ls_output :: "byte list"

definition library_update :: "nat \<Rightarrow> (LibraryT \<Rightarrow> LibraryT) \<Rightarrow> ('z library_state_scheme, unit) prog" where
  "library_update library f = modify (\<lambda>s. s\<lparr>ls_libraries :=
     (ls_libraries s)[library := f (ls_libraries s ! library)]\<rparr>)"

definition lib_capsule_at :: "nat \<Rightarrow> ('z library_state_scheme, LibCapsuleT) prog" where
  "lib_capsule_at r = bind (gets ls_capsules) (\<lambda>cs. bind (check (r < length cs)) (\<lambda>_. defined (cs ! r)))"

definition lib_capsule_put :: "nat \<Rightarrow> LibCapsuleT \<Rightarrow> ('z library_state_scheme, unit) prog" where
  "lib_capsule_put r c = modify (\<lambda>s. s\<lparr>ls_capsules := (ls_capsules s)[r := Some c]\<rparr>)"

definition on_lib_shape ::
  "nat \<Rightarrow> (ShapeEntryT \<Rightarrow> ('z library_state_scheme, 'a \<times> ShapeEntryT) prog) \<Rightarrow> ('z library_state_scheme, 'a) prog" where
  "on_lib_shape r m = bind (gets (\<lambda>s. entries (st_table (ls_shapes s)))) (\<lambda>es. bind (index es r) (\<lambda>e.
     bind (m e) (\<lambda>(x, e').
     bind (modify (\<lambda>s. s\<lparr>ls_shapes := shape_entry_put r e' (ls_shapes s)\<rparr>)) (\<lambda>_. ret x))))"

definition on_lib_name ::
  "nat \<Rightarrow> nat \<Rightarrow> (NameEntryT \<Rightarrow> ('z library_state_scheme, 'a \<times> NameEntryT) prog) \<Rightarrow> ('z library_state_scheme, 'a) prog" where
  "on_lib_name r n m = on_lib_shape r (\<lambda>e. bind (index (entries (se_names e)) n) (\<lambda>n0.
     bind (m n0) (\<lambda>(x, n1). ret (x, e\<lparr>se_names := table_set n n1 (se_names e)\<rparr>))))"

section \<open>Reading\<close>

text \<open>\<^verbatim>\<open>library_check_index_entry\<close> after the name has been added.\<close>

definition library_merge_usage ::
  "nat \<Rightarrow> bool \<Rightarrow> bool \<Rightarrow> cuint \<Rightarrow> NameEntryT \<Rightarrow> ('z error_state_scheme, NameEntryT) prog" where
  "library_merge_usage lib_capsule need_dec no_mult use name_entry =
     bind (defined (name_entry_get_use name_entry)) (\<lambda>name_use.
     if use AND NOT (U_USED OR U_DECD OR U_DEFD OR U_MULT) \<noteq> 0 then error_throw XX_library_error
     else if no_mult \<and> use AND U_MULT \<noteq> 0 then error_throw XX_library_error
     else if need_dec \<and> (use AND (U_DEFD OR U_DECD) = U_DEFD \<or> use AND (U_MULT OR U_DECD) = U_MULT)
       then error_throw XX_library_error
     else
       bind (if use AND U_DEFD \<noteq> 0 \<and> name_use AND U_DEFD \<noteq> 0 then
               bind (defined (name_entry_get_lib_definition name_entry)) (\<lambda>definition.
               bind (defined definition) (\<lambda>_.
               bind (error_msg ERR_SERIOUS) (\<lambda>_. ret name_entry)))
             else if use AND U_MULT \<noteq> 0 \<and> name_use AND U_MULT \<noteq> 0 \<and> use AND U_DEFD = 0 \<and> name_use AND U_DEFD = 0
               then defined (name_entry_set_lib_definition None name_entry)
             else if use AND U_DEFD \<noteq> 0 \<or> (use AND U_MULT \<noteq> 0 \<and> name_use AND (U_MULT OR U_DEFD) = 0)
               then defined (name_entry_set_lib_definition (Some lib_capsule) name_entry)
             else ret name_entry) (\<lambda>name_entry.
       defined (name_entry_merge_use use name_entry)))"

definition library_check_index_entry ::
  "nat \<Rightarrow> bool \<Rightarrow> bool \<Rightarrow> NameKeyT \<Rightarrow> cuint \<Rightarrow> nat \<Rightarrow> ('z library_state_scheme, unit) prog" where
  "library_check_index_entry entry need_dec no_mult key use lib_capsule =
     bind (on_lib_shape entry (name_table_add key)) (\<lambda>name_entry.
     on_lib_name entry name_entry (\<lambda>e.
       bind (library_merge_usage lib_capsule need_dec no_mult use e) (\<lambda>e. ret ((), e))))"

fun library_read_capsules_loop :: "nat \<Rightarrow> nat list \<Rightarrow> ('z library_state_scheme, unit) prog" where
  "library_read_capsules_loop library [] = ret ()"
| "library_read_capsules_loop library (r # rs) =
     bind tdf_read_string (\<lambda>nstring.
     if nstring_contains nstring 0 then error_throw XX_library_error
     else bind tdf_read_int (\<lambda>len.
       bind (tdf_read_bytes (nstring_init_length (unat len))) (\<lambda>nscontents.
       bind (lib_capsule_put r \<lparr>lc_library = library, lc_name = nstring_to_cstring nstring,
              lc_contents = nscontents, lc_loaded = False\<rparr>) (\<lambda>_.
       library_read_capsules_loop library rs))))"

definition library_read_version_0_capsules :: "nat \<Rightarrow> ('z library_state_scheme, nat \<times> cuint) prog" where
  "library_read_version_0_capsules library =
     bind tdf_read_int (\<lambda>num_capsules.
     bind (gets (\<lambda>s. length (ls_capsules s))) (\<lambda>first.
     bind (modify (\<lambda>s. s\<lparr>ls_capsules := ls_capsules s @ replicate (unat num_capsules) None\<rparr>)) (\<lambda>_.
     bind (library_update library (\<lambda>l. l\<lparr>lb_capsules := (first, num_capsules)\<rparr>)) (\<lambda>_.
     bind (library_read_capsules_loop library [first..<first + unat num_capsules]) (\<lambda>_.
     ret (first, num_capsules))))))"

definition library_shape_add :: "NStringT \<Rightarrow> ('z library_state_scheme, nat) prog" where
  "library_shape_add name s =
     (case shape_table_add (ls_shapes s) name of (entry, shapes) \<Rightarrow> (Ret entry, s\<lparr>ls_shapes := shapes\<rparr>))"

definition library_token_entry :: "('z library_state_scheme, nat option) prog" where
  "library_token_entry s =
     (case shape_table_get_token_entry (ls_shapes s) of (entry, shapes) \<Rightarrow> (Ret entry, s\<lparr>ls_shapes := shapes\<rparr>))"

definition library_tag_entry :: "('z library_state_scheme, nat option) prog" where
  "library_tag_entry s =
     (case shape_table_get_tag_entry (ls_shapes s) of (entry, shapes) \<Rightarrow> (Ret entry, s\<lparr>ls_shapes := shapes\<rparr>))"

definition library_read_index_entry ::
  "nat \<Rightarrow> cuint \<Rightarrow> nat \<Rightarrow> bool \<Rightarrow> bool \<Rightarrow> ('z library_state_scheme, unit) prog" where
  "library_read_index_entry first num_capsules entry need_dec no_mult =
     bind tdf_read_name (\<lambda>external_name. bind tdf_read_int (\<lambda>use. bind tdf_read_int (\<lambda>capsule_index.
     if capsule_index \<ge> num_capsules then error_throw XX_library_error
     else library_check_index_entry entry need_dec no_mult external_name use (first + unat capsule_index))))"

definition library_read_shape_index ::
  "nat \<Rightarrow> cuint \<Rightarrow> nat option \<Rightarrow> nat option \<Rightarrow> ('z library_state_scheme, unit) prog" where
  "library_read_shape_index first num_capsules token_entry tag_entry =
     bind tdf_read_string (\<lambda>name.
     bind (library_shape_add name) (\<lambda>entry.
     bind tdf_read_int (\<lambda>num_names.
     for_each [0..<unat num_names] (\<lambda>_.
       library_read_index_entry first num_capsules entry (Some entry = tag_entry) (Some entry = token_entry)))))"

definition library_read_version_0 :: "nat \<Rightarrow> ('z library_state_scheme, unit) prog" where
  "library_read_version_0 library =
     bind (library_read_version_0_capsules library) (\<lambda>(first, num_capsules).
     bind library_token_entry (\<lambda>token_entry.
     bind library_tag_entry (\<lambda>tag_entry.
     bind tdf_read_int (\<lambda>num_shapes.
     bind (for_each [0..<unat num_shapes] (\<lambda>_.
       library_read_shape_index first num_capsules token_entry tag_entry)) (\<lambda>_.
     tdf_read_eof)))))"

definition library_magic :: NStringT where
  "library_magic = nstring_copy_cstring (str ''TDFL'')"

definition library_read_header :: "nat \<Rightarrow> ('z library_state_scheme, unit) prog" where
  "library_read_header library =
     bind (gets cs_major_version) (\<lambda>capsule_major.
     bind (tdf_read_bytes (nstring_init_length 4)) (\<lambda>magic.
     if \<not> nstring_equal magic library_magic then error_throw XX_library_error
     else bind tdf_read_int (\<lambda>major. bind tdf_read_int (\<lambda>minor.
       bind (if major < 4 then error_throw XX_library_error
             else if capsule_major = 0 then modify (\<lambda>s. s\<lparr>cs_major_version := major\<rparr>)
             else if capsule_major \<noteq> major then error_throw XX_library_error
             else ret ()) (\<lambda>_.
       bind (library_update library (\<lambda>l. l\<lparr>lb_major := major, lb_minor := minor\<rparr>)) (\<lambda>_.
       tdf_read_align))))))"

definition library_read_body :: "nat \<Rightarrow> ('z library_state_scheme, unit) prog" where
  "library_read_body library =
     bind (library_read_header library) (\<lambda>_.
     bind tdf_read_int (\<lambda>library_type.
     if library_type \<ge> 1 then error_throw XX_library_error
     else bind (library_read_version_0 library) (\<lambda>_.
       library_update library (\<lambda>l. l\<lparr>lb_complete := True\<rparr>))))"

definition library_read :: "nat \<Rightarrow> ('z library_state_scheme, unit) prog" where
  "library_read library =
     bind (gets (\<lambda>s. lb_type (ls_libraries s ! library))) (\<lambda>type.
     bind (check (type = LT_INPUT)) (\<lambda>_.
     handle (library_read_body library) (\<lambda>exception.
       if exception \<noteq> XX_tdf_read_error \<and> exception \<noteq> XX_library_error then raise exception else ret ())))"

section \<open>Capsules of a library\<close>

definition lib_capsule_full_name :: "nat \<Rightarrow> ('z library_state_scheme, cstring) prog" where
  "lib_capsule_full_name r = bind (lib_capsule_at r) (\<lambda>capsule.
     bind (gets (\<lambda>s. lb_name (ls_libraries s ! lc_library capsule))) (\<lambda>lib_name.
     ret (lib_name @ [40] @ lc_name capsule @ [41])))"

definition lib_capsule_loaded :: "nat \<Rightarrow> ('z library_state_scheme, unit) prog" where
  "lib_capsule_loaded r = bind (lib_capsule_at r) (\<lambda>capsule. lib_capsule_put r (capsule\<lparr>lc_loaded := True\<rparr>))"

definition library_add :: "LibraryTypeT \<Rightarrow> cstring \<Rightarrow> ('z library_state_scheme, nat) prog" where
  "library_add type name s = (Ret (length (ls_libraries s)), s\<lparr>ls_libraries := ls_libraries s @
     [\<lparr>lb_type = type, lb_name = name, lb_capsules = (0, 0), lb_major = 0, lb_minor = 0, lb_complete = False\<rparr>]\<rparr>)"

definition library_create_stream_input :: "cstring \<Rightarrow> ('z library_state_scheme, nat option) prog" where
  "library_create_stream_input name = bind (tdf_reader_open name) (\<lambda>ok.
     if \<not> ok then ret None else bind (library_add LT_INPUT name) (\<lambda>library. ret (Some library)))"

definition library_create_stream_output :: "cstring \<Rightarrow> ('z library_state_scheme, nat option) prog" where
  "library_create_stream_output name = bind (tdf_writer_open name) (\<lambda>ok.
     if \<not> ok then ret None else bind (library_add LT_OUTPUT name) (\<lambda>library. ret (Some library)))"

definition library_num_capsules :: "nat \<Rightarrow> ('z library_state_scheme, cuint) prog" where
  "library_num_capsules library =
     gets (\<lambda>s. snd (lb_capsules (ls_libraries s ! library)))"

definition library_get_capsule :: "nat \<Rightarrow> cuint \<Rightarrow> ('z library_state_scheme, nat) prog" where
  "library_get_capsule library capsule_index =
     bind (gets (\<lambda>s. lb_capsules (ls_libraries s ! library))) (\<lambda>(first, num).
     bind (check (capsule_index < num)) (\<lambda>_. ret (first + unat capsule_index)))"

definition library_close :: "nat \<Rightarrow> ('z library_state_scheme, unit) prog" where
  "library_close library = bind (gets (\<lambda>s. lb_type (ls_libraries s ! library))) (\<lambda>type.
     case type of LT_INPUT \<Rightarrow> tdf_reader_close | LT_OUTPUT \<Rightarrow> tdf_writer_close)"

section \<open>Listing and extraction\<close>

definition library_output :: "byte list \<Rightarrow> ('z library_state_scheme, unit) prog" where
  "library_output bs = modify (\<lambda>s. s\<lparr>ls_output := ls_output s @ bs\<rparr>)"

definition library_fresh_shapes :: "('z library_state_scheme, unit) prog" where
  "library_fresh_shapes = modify (\<lambda>s. s\<lparr>ls_shapes := shape_table_create\<rparr>)"

definition library_content :: "nat \<Rightarrow> bool \<Rightarrow> bool \<Rightarrow> bool \<Rightarrow> ('z library_state_scheme, unit) prog" where
  "library_content library want_index want_size want_version =
     bind library_fresh_shapes (\<lambda>_.
     bind (library_read library) (\<lambda>_.
     bind (gets (\<lambda>s. ls_libraries s ! library)) (\<lambda>l.
     if lb_complete l then
       bind (if want_version then library_output (str ''['' @ decimal (unat (lb_major l)) @ str '', ''
               @ decimal (unat (lb_minor l)) @ [93, 10]) else ret ()) (\<lambda>_.
       bind (ret (lb_capsules l)) (\<lambda>(first, num_capsules).
       bind (for_each [first..<first + unat num_capsules] (\<lambda>r. bind (lib_capsule_at r) (\<lambda>capsule.
         library_output (lc_name capsule @ (if want_size then str '' ('' @
           decimal (length (lc_contents capsule)) @ str '')'' else []) @ [10])))) (\<lambda>_.
       if want_index then
         bind (gets ls_shapes) (\<lambda>shapes. bind (gets ls_capsules) (\<lambda>cs.
         bind (shape_table_iter shapes
           (shape_entry_show_content (\<lambda>r. case cs ! r of Some c \<Rightarrow> lc_name c | None \<Rightarrow> [])) []) (\<lambda>(shapes, out).
         library_output out)))
       else ret ())))
     else ret ())))"

definition library_extract_1 :: "nat \<Rightarrow> bool \<Rightarrow> ('z library_state_scheme, unit) prog" where
  "library_extract_1 r use_basename = bind (lib_capsule_at r) (\<lambda>capsule.
     let name = (if use_basename then file_name_basename (lc_name capsule) else lc_name capsule) in
     bind (tdf_writer_open name) (\<lambda>ok.
     if ok then bind (tdf_write_bytes (lc_contents capsule)) (\<lambda>_. tdf_writer_close)
     else error_msg ERR_FATAL))"

definition library_extract_all :: "nat \<Rightarrow> bool \<Rightarrow> ('z library_state_scheme, unit) prog" where
  "library_extract_all library use_basename =
     bind library_fresh_shapes (\<lambda>_.
     bind (library_read library) (\<lambda>_.
     bind (gets (\<lambda>s. ls_libraries s ! library)) (\<lambda>l.
     if lb_complete l then
       bind (ret (lb_capsules l)) (\<lambda>(first, num_capsules).
       for_each [first..<first + unat num_capsules] (\<lambda>r. library_extract_1 r use_basename))
     else ret ())))"

fun library_extract_matching ::
  "bool \<Rightarrow> bool \<Rightarrow> cstring \<Rightarrow> nat list \<Rightarrow> bool \<Rightarrow> ('z library_state_scheme, bool) prog" where
  "library_extract_matching use_basename match_basename file_name [] matched = ret matched"
| "library_extract_matching use_basename match_basename file_name (r # rs) matched =
     bind (lib_capsule_at r) (\<lambda>capsule.
     if file_name = lc_name capsule \<or> match_basename \<and> file_name = file_name_basename (lc_name capsule)
     then bind (library_extract_1 r use_basename) (\<lambda>_.
       library_extract_matching use_basename match_basename file_name rs True)
     else library_extract_matching use_basename match_basename file_name rs matched)"

definition library_extract ::
  "nat \<Rightarrow> bool \<Rightarrow> bool \<Rightarrow> cstring list \<Rightarrow> ('z library_state_scheme, unit) prog" where
  "library_extract library use_basename match_basename files =
     bind library_fresh_shapes (\<lambda>_.
     bind (library_read library) (\<lambda>_.
     bind (gets (\<lambda>s. ls_libraries s ! library)) (\<lambda>l.
     if lb_complete l then
       bind (ret (lb_capsules l)) (\<lambda>(first, num_capsules).
       for_each files (\<lambda>file_name.
         bind (library_extract_matching use_basename match_basename file_name [first..<first + unat num_capsules] False)
           (\<lambda>matched. if \<not> matched then error_msg ERR_SERIOUS else ret ())))
     else ret ())))"

section \<open>Writing\<close>

definition library_write_header :: "('z library_state_scheme, unit) prog" where
  "library_write_header =
     bind (gets cs_major_version) (\<lambda>major. bind (gets cs_minor_version) (\<lambda>minor.
     bind (tdf_write_bytes library_magic) (\<lambda>_.
     bind (check (major \<ge> 4)) (\<lambda>_.
     bind (tdf_write_int major) (\<lambda>_.
     bind (tdf_write_int minor) (\<lambda>_.
     tdf_write_align))))))"

definition library_write_capsule :: "CapsuleT \<Rightarrow> ('z io_state_scheme, unit) prog" where
  "library_write_capsule capsule =
     bind (tdf_write_string (nstring_copy_cstring (cp_name capsule))) (\<lambda>_.
     bind (tdf_write_int (of_nat (length (cp_contents capsule)))) (\<lambda>_.
     tdf_write_bytes (cp_contents capsule)))"

text \<open>A slot of the capsule vector that was never filled holds no pointer.\<close>

definition library_write :: "cuint \<Rightarrow> nat option list \<Rightarrow> ('z library_state_scheme, unit) prog" where
  "library_write num_capsules capsules =
     bind library_write_header (\<lambda>_.
     bind (tdf_write_int 0) (\<lambda>_.
     bind (tdf_write_int num_capsules) (\<lambda>_.
     bind (for_each [0..<unat num_capsules] (\<lambda>i.
       bind (check (i < length capsules)) (\<lambda>_. bind (defined (capsules ! i)) (\<lambda>c.
       bind (gets (\<lambda>s. cs_capsules s ! c)) library_write_capsule)))) (\<lambda>_.
     bind (iter_shapes shape_entry_do_lib_count 0) (\<lambda>num_shapes.
     bind (tdf_write_int num_shapes) (\<lambda>_.
     bind (gets (\<lambda>s r. cp_index (cs_capsules s ! r))) (\<lambda>capsule_get_index.
     iter_shapes (shape_entry_do_lib_write capsule_get_index) ())))))))"

end
