(* ===== verification/Frames.thy ===== *)
theory Frames
  imports Tdf_Io
begin

text \<open>
  Which parts of the state the readers leave alone: every predicate that does not look at the
  reader or the error counters is kept by all input functions, whether they return or throw.
\<close>

section \<open>Predicates that input does not touch\<close>

definition frame_err :: "('z error_state_scheme \<Rightarrow> bool) \<Rightarrow> bool" where
  "frame_err I \<longleftrightarrow> (\<forall>s n. I s \<longrightarrow> I (s\<lparr>exit_status := True, number_errors := n\<rparr>))"

definition frame_in :: "('z io_state_scheme \<Rightarrow> bool) \<Rightarrow> bool" where
  "frame_in I \<longleftrightarrow> frame_err I \<and> (\<forall>s r. I s \<longrightarrow> I (s\<lparr>reader := r\<rparr>))"

lemma frame_in_err: "frame_in I \<Longrightarrow> frame_err I"
  by (simp add: frame_in_def)

lemma keeps_error_msg: "frame_err I \<Longrightarrow> keeps I (error_msg e)"
proof (rule keepsI)
  fix s r t
  assume I: "frame_err I" "I s" and m: "error_msg e s = (r, t)"
  have eq: "s\<lparr>exit_status := True, number_errors := n\<rparr> = s\<lparr>number_errors := n, exit_status := True\<rparr>" for n
    by simp
  have n: "I (s\<lparr>exit_status := True, number_errors := n\<rparr>)" for n
    using I by (simp add: frame_err_def)
  moreover from n[of "number_errors s"] have "I (s\<lparr>exit_status := True\<rparr>)" by simp
  moreover have "I (s\<lparr>number_errors := n, exit_status := True\<rparr>)" for n
    using n[of n] by (simp only: eq)
  ultimately show "I t"
    using m I(2) by (cases e) (auto simp: error_msg_def bind_def prog_simps split: if_splits)
qed

lemma keeps_error_throw: "frame_err I \<Longrightarrow> keeps I (error_throw e)"
  unfolding error_throw_def by (intro keeps_intros keeps_error_msg)

lemma keeps_tdf_read_nibble:
  assumes "frame_in I" shows "keeps I tdf_read_nibble"
proof (rule keepsI)
  fix s r t
  assume I: "I s" and m: "tdf_read_nibble s = (r, t)"
  have "I (s\<lparr>reader := q\<rparr>)" for q using assms I by (simp add: frame_in_def)
  moreover have "error_throw XX_tdf_read_error u = (r, t) \<Longrightarrow> I u \<Longrightarrow> I t" for u :: "'a io_state_scheme"
    using keeps_error_throw[OF frame_in_err[OF assms]] keepsD by fast
  ultimately show "I t"
    using m I by (auto simp: tdf_read_nibble_def Let_def split: if_splits reader_source.splits
        prod.splits outcome.splits option.splits)
qed

lemma keeps_tdf_read_int:
  assumes "frame_in I" shows "keeps I tdf_read_int"
proof -
  have "I s \<Longrightarrow> tdf_read_int_loop v s = (r, t) \<Longrightarrow> I t" for v s r t
  proof (induction v s arbitrary: r t rule: tdf_read_int_loop.induct)
    case (1 v s)
    obtain o1 t1 where n: "tdf_read_nibble s = (o1, t1)" by fastforce
    have t1: "I t1" using keepsD[OF keeps_tdf_read_nibble[OF assms] 1(2) n] .
    have "error_throw XX_tdf_read_error t1 = (r, t) \<Longrightarrow> I t"
      using keeps_error_throw[OF frame_in_err[OF assms]] t1 keepsD by fast
    with 1 n t1 show ?case
      by (subst (asm) (2) tdf_read_int_loop.simps)
        (auto simp: Let_def split: outcome.splits if_splits)
  qed
  then show ?thesis unfolding tdf_read_int_def by (auto intro: keepsI)
qed

lemma keeps_modify_reader: "frame_in I \<Longrightarrow> (\<And>s. \<exists>r. f s = s\<lparr>reader := r\<rparr>) \<Longrightarrow> keeps I (modify f)"
  by (rule keeps_modify) (metis frame_in_def)

lemma keeps_tdf_read_align: "frame_in I \<Longrightarrow> keeps I tdf_read_align"
  unfolding tdf_read_align_def by (rule keeps_modify_reader) auto

lemma keeps_tdf_read_bytes:
  assumes "frame_in I" shows "keeps I (tdf_read_bytes ns)"
  unfolding tdf_read_bytes_def
proof (intro keeps_intros keeps_tdf_read_align assms keepsI)
  fix x s r t
  assume I: "I s" and m: "(let r = reader s; len = length ns in
     case rd_u r of
       RT_STREAM b \<Rightarrow>
         (case bistream_read_chars len b of
            (Ret chars, b') \<Rightarrow>
              let t = s\<lparr>reader := r\<lparr>rd_u := RT_STREAM b'\<rparr>\<rparr> in
              if length chars \<noteq> len then error_throw XX_tdf_read_error t else (Ret chars, t)
          | (Raise e, b') \<Rightarrow> (Raise e, s\<lparr>reader := r\<lparr>rd_u := RT_STREAM b'\<rparr>\<rparr>))
     | RT_STRING q \<Rightarrow>
         if rs_current q + len > rs_limit q then error_throw XX_tdf_read_error s
         else (case nstring_insert_cstring ns (drop (rs_current q) (rs_contents q)) of
                 None \<Rightarrow> (Raise Undefined, s)
               | Some ns \<Rightarrow>
                   (Ret ns, s\<lparr>reader := r\<lparr>rd_u := RT_STRING
                      (q\<lparr>rs_current := rs_current q + len, rs_byte := rs_byte q + len\<rparr>)\<rparr>\<rparr>))) = (r, t)"
  have "I (s\<lparr>reader := q\<rparr>)" for q using assms I by (simp add: frame_in_def)
  moreover have "error_throw XX_tdf_read_error u = (r, t) \<Longrightarrow> I u \<Longrightarrow> I t" for u :: "'a io_state_scheme"
    using keeps_error_throw[OF frame_in_err[OF assms]] keepsD by fast
  ultimately show "I t"
    using m I by (auto simp: Let_def split: if_splits reader_source.splits
        prod.splits outcome.splits option.splits)
qed

lemma keeps_tdf_read_string: "frame_in I \<Longrightarrow> keeps I tdf_read_string"
  unfolding tdf_read_string_def
  by (intro keeps_intros keeps_tdf_read_int keeps_tdf_read_bytes keeps_error_throw frame_in_err)

lemma keeps_tdf_read_name: "frame_in I \<Longrightarrow> keeps I tdf_read_name"
  unfolding tdf_read_name_def Let_def
  by (intro keeps_intros keeps_tdf_read_int keeps_tdf_read_nibble keeps_tdf_read_align
      keeps_tdf_read_string keeps_error_throw frame_in_err)

lemma keeps_tdf_read_eof:
  assumes "frame_in I" shows "keeps I tdf_read_eof"
proof (rule keepsI)
  fix s r t
  assume I: "I s" and m: "tdf_read_eof s = (r, t)"
  have "I (s\<lparr>reader := q\<rparr>)" for q using assms I by (simp add: frame_in_def)
  moreover have "error_throw XX_tdf_read_error u = (r, t) \<Longrightarrow> I u \<Longrightarrow> I t" for u :: "'a io_state_scheme"
    using keeps_error_throw[OF frame_in_err[OF assms]] keepsD by fast
  ultimately show "I t"
    using m I by (auto simp: tdf_read_eof_def Let_def split: if_splits reader_source.splits
        prod.splits outcome.splits option.splits)
qed

lemma keeps_tdf_reader_byte: "keeps I tdf_reader_byte"
  unfolding tdf_reader_byte_def by (rule keeps_gets)

lemma keeps_tdf_reader_rewind: "frame_in I \<Longrightarrow> keeps I tdf_reader_rewind"
  unfolding tdf_reader_rewind_def by (rule keeps_modify_reader) auto

lemma keeps_tdf_reader_close: "frame_in I \<Longrightarrow> keeps I tdf_reader_close"
  unfolding tdf_reader_close_def by (rule keeps_modify_reader) auto

lemma keeps_tdf_reader_open: "frame_in I \<Longrightarrow> keeps I (tdf_reader_open name)"
  by (auto simp: keeps_def tdf_reader_open_def frame_in_def split: option.splits)

lemma keeps_tdf_reader_open_string: "frame_in I \<Longrightarrow> keeps I (tdf_reader_open_string name bytes)"
  unfolding tdf_reader_open_string_def by (rule keeps_modify_reader) auto

lemmas keeps_input = keeps_tdf_read_nibble keeps_tdf_read_int keeps_tdf_read_align keeps_tdf_read_bytes
  keeps_tdf_read_string keeps_tdf_read_name keeps_tdf_read_eof keeps_tdf_reader_byte
  keeps_tdf_reader_rewind keeps_tdf_reader_close keeps_tdf_reader_open keeps_tdf_reader_open_string

section \<open>Readers in range\<close>

definition rd_ok :: "TDFReaderT \<Rightarrow> bool" where
  "rd_ok r = (case rd_u r of RT_STREAM b \<Rightarrow> True | RT_STRING q \<Rightarrow> rs_limit q \<le> length (rs_contents q))"

text \<open>A program that keeps the reader in range and does not run into undefined behaviour.\<close>

definition rd_safe :: "('z io_state_scheme, 'a) prog \<Rightarrow> bool" where
  "rd_safe m \<longleftrightarrow> valid (\<lambda>s. rd_ok (reader s)) m (\<lambda>_ s. rd_ok (reader s)) (\<lambda>e s. e \<noteq> Undefined \<and> rd_ok (reader s))"

named_theorems rd_safe_intros \<open>programs that read safely\<close>

lemma rd_safeI:
  assumes "\<And>s r t. rd_ok (reader s) \<Longrightarrow> m s = (r, t) \<Longrightarrow> rd_ok (reader t) \<and> r \<noteq> Raise Undefined"
  shows "rd_safe m"
  unfolding rd_safe_def using assms by (intro validI) blast+

lemma rd_safeD: "rd_safe m \<Longrightarrow> rd_ok (reader s) \<Longrightarrow> m s = (r, t) \<Longrightarrow> rd_ok (reader t) \<and> r \<noteq> Raise Undefined"
  unfolding rd_safe_def by (cases r) (auto dest: validD validD_Raise)

lemma rd_safe_bind [rd_safe_intros]: "rd_safe m \<Longrightarrow> (\<And>x. rd_safe (f x)) \<Longrightarrow> rd_safe (bind m f)"
  unfolding rd_safe_def by (rule valid_bind)

lemma rd_safe_ret [rd_safe_intros]: "rd_safe (ret x)" "rd_safe (gets f)"
  by (simp_all add: rd_safe_def valid_def ret_def gets_def)

lemma rd_safe_if [rd_safe_intros]: "rd_safe m \<Longrightarrow> rd_safe k \<Longrightarrow> rd_safe (if b then m else k)"
  by simp

lemma rd_safe_error_msg [rd_safe_intros]: "rd_safe (error_msg e)"
  by (cases e) (auto intro!: rd_safeI simp: error_msg_def bind_def prog_simps split: if_splits)

lemma rd_safe_error [rd_safe_intros]: "x \<noteq> Undefined \<Longrightarrow> rd_safe (error_throw x)"
  unfolding error_throw_def by (rule rd_safe_bind [OF rd_safe_error_msg]) (simp add: rd_safe_def valid_def raise_def)

lemma rd_safe_collect [rd_safe_intros]: "(\<And>x. rd_safe (body x)) \<Longrightarrow> rd_safe (collect xs body)"
  by (induction xs) (auto intro!: rd_safe_intros)

lemma bistream_no_undefined:
  "bistream_read_byte b \<noteq> (Raise Undefined, b')" "bistream_read_chars n b \<noteq> (Raise Undefined, b')"
  by (auto simp: bistream_read_byte_def bistream_read_chars_def split: prod.splits if_splits list.splits)

lemma rd_safe_nibble [rd_safe_intros]: "rd_safe tdf_read_nibble"
proof (rule rd_safeI)
  fix s r t
  assume ok: "rd_ok (reader s)" and m: "tdf_read_nibble s = (r, t)"
  have th: "error_throw XX_tdf_read_error u = (r, t) \<Longrightarrow> rd_ok (reader u) \<Longrightarrow> rd_ok (reader t) \<and> r \<noteq> Raise Undefined"
    for u using rd_safeD[OF rd_safe_error] by blast
  show "rd_ok (reader t) \<and> r \<noteq> Raise Undefined"
    using m ok th bistream_no_undefined
    by (auto simp: tdf_read_nibble_def Let_def rd_ok_def split: if_splits reader_source.splits
        prod.splits outcome.splits option.splits)
qed

lemma rd_safe_int_loop:
  "rd_ok (reader s) \<Longrightarrow> tdf_read_int_loop v s = (r, t) \<Longrightarrow> rd_ok (reader t) \<and> r \<noteq> Raise Undefined"
proof (induction v s arbitrary: r t rule: tdf_read_int_loop.induct)
  case (1 v s)
  obtain o1 t1 where n: "tdf_read_nibble s = (o1, t1)" by fastforce
  have t1: "rd_ok (reader t1)" "o1 \<noteq> Raise Undefined" using rd_safeD[OF rd_safe_nibble 1(2) n] by auto
  have "error_throw XX_tdf_read_error t1 = (r, t) \<Longrightarrow> rd_ok (reader t) \<and> r \<noteq> Raise Undefined"
    using rd_safeD[OF rd_safe_error] t1 by blast
  with 1 n t1 show ?case
    by (subst (asm) (2) tdf_read_int_loop.simps)
      (auto simp: Let_def split: outcome.splits if_splits)
qed

lemma rd_safe_int [rd_safe_intros]: "rd_safe tdf_read_int"
  unfolding tdf_read_int_def by (rule rd_safeI) (rule rd_safe_int_loop)

lemma rd_safe_align [rd_safe_intros]: "rd_safe tdf_read_align" "rd_safe tdf_reader_rewind" "rd_safe tdf_reader_close"
  "rd_safe tdf_reader_byte"
  by (auto intro!: rd_safeI simp: tdf_read_align_def tdf_reader_rewind_def tdf_reader_close_def
      tdf_reader_byte_def modify_def gets_def rd_ok_def split: reader_source.splits)

lemma rd_safe_bytes [rd_safe_intros]: "rd_safe (tdf_read_bytes ns)"
  unfolding tdf_read_bytes_def
proof (intro rd_safe_intros rd_safeI)
  fix x s r t
  assume ok: "rd_ok (reader s)" and m: "(let r = reader s; len = length ns in
     case rd_u r of
       RT_STREAM b \<Rightarrow>
         (case bistream_read_chars len b of
            (Ret chars, b') \<Rightarrow>
              let t = s\<lparr>reader := r\<lparr>rd_u := RT_STREAM b'\<rparr>\<rparr> in
              if length chars \<noteq> len then error_throw XX_tdf_read_error t else (Ret chars, t)
          | (Raise e, b') \<Rightarrow> (Raise e, s\<lparr>reader := r\<lparr>rd_u := RT_STREAM b'\<rparr>\<rparr>))
     | RT_STRING q \<Rightarrow>
         if rs_current q + len > rs_limit q then error_throw XX_tdf_read_error s
         else (case nstring_insert_cstring ns (drop (rs_current q) (rs_contents q)) of
                 None \<Rightarrow> (Raise Undefined, s)
               | Some ns \<Rightarrow>
                   (Ret ns, s\<lparr>reader := r\<lparr>rd_u := RT_STRING
                      (q\<lparr>rs_current := rs_current q + len, rs_byte := rs_byte q + len\<rparr>)\<rparr>\<rparr>))) = (r, t)"
  have th: "error_throw XX_tdf_read_error u = (r, t) \<Longrightarrow> rd_ok (reader u) \<Longrightarrow> rd_ok (reader t) \<and> r \<noteq> Raise Undefined"
    for u using rd_safeD[OF rd_safe_error] by blast
  show "rd_ok (reader t) \<and> r \<noteq> Raise Undefined"
  proof (cases "rd_u (reader s)")
    case (RT_STREAM b)
    with m ok th bistream_no_undefined(2) show ?thesis
      by (auto simp: Let_def rd_ok_def split: if_splits prod.splits outcome.splits)
  next
    case (RT_STRING q)
    have "nstring_insert_cstring ns (drop (rs_current q) (rs_contents q)) \<noteq> None"
      if "\<not> rs_limit q < rs_current q + length ns"
      using that ok RT_STRING nstring_insert_cstring_eq[of ns "drop (rs_current q) (rs_contents q)"]
      by (simp add: rd_ok_def)
    with RT_STRING m ok th show ?thesis
      by (auto simp: Let_def rd_ok_def split: if_splits)
  qed
qed

lemma rd_safe_string [rd_safe_intros]: "rd_safe tdf_read_string"
  unfolding tdf_read_string_def by (intro rd_safe_intros) simp

lemma rd_safe_name [rd_safe_intros]: "rd_safe tdf_read_name"
  unfolding tdf_read_name_def Let_def by (intro rd_safe_intros) simp

lemma rd_safe_eof [rd_safe_intros]: "rd_safe tdf_read_eof"
proof (rule rd_safeI)
  fix s r t
  assume ok: "rd_ok (reader s)" and m: "tdf_read_eof s = (r, t)"
  have th: "error_throw XX_tdf_read_error u = (r, t) \<Longrightarrow> rd_ok (reader u) \<Longrightarrow> rd_ok (reader t) \<and> r \<noteq> Raise Undefined"
    for u using rd_safeD[OF rd_safe_error] by blast
  show "rd_ok (reader t) \<and> r \<noteq> Raise Undefined"
    using m ok th bistream_no_undefined
    by (auto simp: tdf_read_eof_def Let_def rd_ok_def split: if_splits reader_source.splits
        prod.splits outcome.splits option.splits)
qed


section \<open>Input programs\<close>

text \<open>An input program: it reads safely and touches the reader and the error counters only.\<close>

definition input :: "('z io_state_scheme, 'a) prog \<Rightarrow> bool" where
  "input m \<longleftrightarrow> rd_safe m \<and> (\<forall>I. frame_in I \<longrightarrow> keeps I m)"

named_theorems input_intros \<open>programs that only read\<close>

lemma input_bind [input_intros]: "input m \<Longrightarrow> (\<And>x. input (f x)) \<Longrightarrow> input (bind m f)"
  by (simp add: input_def rd_safe_bind keeps_bind)

lemma input_basic [input_intros]:
  "input (ret x)" "input (gets f)" "input (error_msg e)" "e' \<noteq> Undefined \<Longrightarrow> input (error_throw e')"
  by (simp_all add: input_def rd_safe_intros keeps_intros keeps_error_msg keeps_error_throw frame_in_err)

lemma input_if [input_intros]: "(b \<Longrightarrow> input m) \<Longrightarrow> (\<not> b \<Longrightarrow> input k) \<Longrightarrow> input (if b then m else k)"
  by simp

lemma input_tdf [input_intros]:
  "input tdf_read_nibble" "input tdf_read_int" "input tdf_read_align" "input (tdf_read_bytes ns)"
  "input tdf_read_string" "input tdf_read_name" "input tdf_read_eof" "input tdf_reader_byte"
  "input tdf_reader_rewind" "input tdf_reader_close"
  by (simp_all add: input_def rd_safe_intros keeps_input)

lemma valid_input:
  assumes "input m" "frame_in I"
  shows "valid (\<lambda>s. I s \<and> rd_ok (reader s)) m (\<lambda>_ s. I s \<and> rd_ok (reader s))
    (\<lambda>e s. e \<noteq> Undefined \<and> I s \<and> rd_ok (reader s))"
proof (rule validI)
  have k: "keeps I m" and r: "rd_safe m" using assms by (simp_all add: input_def)
  show "I t \<and> rd_ok (reader t)" if "I s \<and> rd_ok (reader s)" "m s = (Ret x, t)" for s x t
    using keepsD[OF k _ that(2)] rd_safeD[OF r _ that(2)] that(1) by simp
  show "e \<noteq> Undefined \<and> I t \<and> rd_ok (reader t)" if "I s \<and> rd_ok (reader s)" "m s = (Raise e, t)" for s e t
    using keepsD[OF k _ that(2)] rd_safeD[OF r _ that(2)] that(1) by simp
qed

end
