(* ===== verification/Capsule_Frame.thy ===== *)
theory Capsule_Frame
  imports Capsule Frames
begin

text \<open>
  What reading a capsule leaves alone. A predicate that only depends on the greatest severity
  reported to libexds and on the part of the state beside the capsules (the libraries, in
  particular) is kept by every step of \<^verbatim>\<open>capsule_read\<close>, also when reading ends in an exception. The two
  instances are the rest of the state itself and the reported severity.
\<close>

named_theorems rest_intros \<open>programs that leave the rest of the state alone\<close>

lemma keeps_option [keeps_intros]:
  "keeps I a \<Longrightarrow> (\<And>x. keeps I (b x)) \<Longrightarrow> keeps I (case o1 of None \<Rightarrow> a | Some x \<Rightarrow> b x)"
  by (cases o1) simp_all

lemma keeps_prod [keeps_intros]: "(\<And>x y. keeps I (f x y)) \<Longrightarrow> keeps I (case p of (x, y) \<Rightarrow> f x y)"
  by (cases p) simp

locale capsule_frame =
  fixes I :: "'z capsule_state_scheme \<Rightarrow> bool"
  assumes only: "I s \<Longrightarrow> max_reported t = max_reported s \<Longrightarrow> capsule_state.more t = capsule_state.more s \<Longrightarrow> I t"
begin

lemma rest_frame: "frame_in I"
  by (auto simp: frame_in_def frame_err_def elim!: only)

lemma rest_err: "frame_err I"
  by (rule frame_in_err [OF rest_frame])

lemma rest_modify:
  "(\<And>s. max_reported (f s) = max_reported s \<and> capsule_state.more (f s) = capsule_state.more s) \<Longrightarrow> keeps I (modify f)"
  by (rule keeps_modify) (auto elim!: only)

lemmas rest_input [rest_intros] = keeps_input(1-7) [OF rest_frame] keeps_input(8) keeps_input(9-12) [OF rest_frame]

lemmas rest_errors [rest_intros] = keeps_error_msg [OF rest_err] keeps_error_throw [OF rest_err]

lemma rest_on_shape [rest_intros]:
  assumes "\<And>e. keeps I (p e)" shows "keeps I (on_shape r p)"
  unfolding on_shape_def by (intro keeps_intros assms rest_modify) simp

lemma rest_on_name [rest_intros]:
  assumes "\<And>e. keeps I (p e)" shows "keeps I (on_name r n p)"
  unfolding on_name_def by (intro keeps_intros rest_on_shape assms)

lemma rest_on_unit [rest_intros]:
  assumes "\<And>e. keeps I (p e)" shows "keeps I (on_unit ue j p)"
  unfolding on_unit_def by (intro keeps_intros assms rest_modify) simp

lemma rest_on_map_entry [rest_intros]: "keeps I (on_map_entry ue j e f)"
  unfolding on_map_entry_def by (intro keeps_intros rest_on_unit)

lemma rest_next_id [rest_intros]: "keeps I (shape_entry_next_id e)"
  unfolding shape_entry_next_id_def by (intro keeps_intros rest_intros)

lemma rest_name_add [rest_intros]: "keeps I (name_table_add key e)"
  unfolding name_table_add_def name_entry_make_direct_def name_entry_create_direct_def Let_def table_alloc_def
  by (intro keeps_intros rest_intros)

lemma rest_merge_usage [rest_intros]: "keeps I (capsule_merge_usage capsule need_dec no_mult use e)"
  unfolding capsule_merge_usage_def by (intro keeps_intros rest_intros)

lemma rest_setup [rest_intros]: "keeps I capsule_setup"
proof -
  have "keeps I capsule_setup_defaults"
    unfolding capsule_setup_defaults_def by (rule rest_modify) (simp split: option.splits)
  then show ?thesis unfolding capsule_setup_def
    by (intro keeps_intros rest_modify) (simp_all split: prod.splits)
qed

lemma rest_header [rest_intros]: "keeps I capsule_read_header"
  unfolding capsule_read_header_def by (intro keeps_intros rest_intros rest_modify) simp_all

lemma rest_tld_entries [rest_intros]: "keeps I capsule_tld_entry" "keeps I capsule_tld2_entry"
  unfolding capsule_tld_entry_def capsule_tld2_entry_def by (intro keeps_intros)+

lemma rest_check_order [rest_intros]: "keeps I (capsule_check_order units entry us)"
  by (induction us) (simp_all add: keeps_intros rest_intros)

lemma rest_unit_set_names_loop [rest_intros]: "keeps I (capsule_read_unit_set_names_loop te t2 n has us)"
proof (induction n arbitrary: has us)
  case 0
  show ?case by (simp add: keeps_intros)
next
  case (Suc n)
  show ?case unfolding capsule_read_unit_set_names_loop.simps by (intro keeps_intros rest_intros Suc)
qed

lemma rest_unit_set_names [rest_intros]: "keeps I capsule_read_unit_set_names"
  unfolding capsule_read_unit_set_names_def by (intro keeps_intros rest_intros)

lemma rest_shape_add [rest_intros]: "keeps I (capsule_shape_add k)"
  by (rule keepsI) (auto simp: capsule_shape_add_def split: prod.splits elim!: only)

lemma rest_shapes_loop [rest_intros]: "keeps I (capsule_read_shapes_loop n sds)"
proof (induction n arbitrary: sds)
  case 0
  show ?case by (simp add: keeps_intros)
next
  case (Suc n)
  show ?case unfolding capsule_read_shapes_loop.simps by (intro keeps_intros rest_intros Suc)
qed

lemma rest_external_names_loop [rest_intros]: "keeps I (capsule_read_external_names_loop n sd ns)"
proof (induction n arbitrary: sd ns)
  case 0
  show ?case by (simp add: keeps_intros)
next
  case (Suc n)
  show ?case unfolding capsule_read_external_names_loop.simps by (intro keeps_intros rest_intros Suc)
qed

lemma rest_external_names_each [rest_intros]: "keeps I (capsule_read_external_names_each sds)"
proof (induction sds)
  case Nil
  show ?case by (simp add: keeps_intros)
next
  case (Cons sd sds)
  show ?case unfolding capsule_read_external_names_each.simps capsule_read_external_names_1_def
    by (intro keeps_intros rest_intros Cons)
qed

lemma rest_token_tag [rest_intros]:
  "keeps I (capsule_get_token_index sds)" "keeps I (capsule_get_tag_index sds)"
  by (rule keepsI, auto simp: capsule_get_token_index_def capsule_get_tag_index_def split: prod.splits elim!: only)+

lemma rest_usage [rest_intros]: "keeps I (capsule_read_usage capsule r ns need_dec no_mult)"
  unfolding capsule_read_usage_def by (intro keeps_intros rest_intros)

lemma rest_tld_types [rest_intros]:
  "keeps I (capsule_read_tld_type_0_unit capsule sds nss)"
  "keeps I (capsule_read_tld_type_1_unit capsule sds nss)"
  unfolding capsule_read_tld_type_0_unit_def capsule_read_tld_type_1_unit_def
  by (intro keeps_intros rest_intros)+

lemma rest_tld_frame [rest_intros]:
  "keeps I capsule_read_tld_unit_header" "keeps I capsule_read_tld_unit_trailer"
  unfolding capsule_read_tld_unit_header_def capsule_read_tld_unit_trailer_def
  by ((intro keeps_intros rest_intros rest_modify)?; simp)+

lemma rest_tld_units [rest_intros]:
  "keeps I (capsule_read_tld_units capsule sds nss)" "keeps I (capsule_read_tld2_units capsule sds nss)"
  unfolding capsule_read_tld_units_def capsule_read_tld2_units_def by (intro keeps_intros rest_intros)+

lemma rest_links [rest_intros]: "keeps I (capsule_read_links ue j e js sd)"
proof (induction js arbitrary: sd)
  case Nil
  show ?case by (simp add: keeps_intros)
next
  case (Cons k js)
  show ?case unfolding capsule_read_links.simps by (intro keeps_intros rest_intros Cons)
qed

lemma rest_unit_maps_each [rest_intros]: "keeps I (capsule_read_unit_maps_each ue j ms sds)"
proof (induction ms arbitrary: sds)
  case Nil
  show ?case by (simp add: keeps_intros)
next
  case (Cons k ms)
  show ?case
    by (cases sds) (simp_all, intro keeps_intros, intro keeps_intros rest_intros Cons)
qed

lemma rest_units_loop [rest_intros]: "keeps I (capsule_read_units_loop n sds ue)"
proof (induction n arbitrary: sds)
  case 0
  show ?case by (simp add: keeps_intros)
next
  case (Suc n)
  show ?case
    unfolding capsule_read_units_loop.simps capsule_read_unit_def capsule_add_unit_def capsule_read_unit_counts_def
      capsule_read_unit_maps_def
    by (intro keeps_intros rest_intros Suc rest_modify) simp
qed

lemma rest_unit_sets_each [rest_intros]: "keeps I (capsule_read_unit_sets_each capsule te t2 us sds nss)"
proof (induction us arbitrary: sds)
  case Nil
  show ?case by (simp add: keeps_intros)
next
  case (Cons u us)
  show ?case unfolding capsule_read_unit_sets_each.simps capsule_read_units_def by (intro keeps_intros rest_intros Cons)
qed

lemma rest_read [rest_intros]: "keeps I (capsule_read capsule)"
  unfolding capsule_read_def capsule_read_body_def capsule_read_shapes_def capsule_read_external_names_def capsule_read_unit_sets_def
  by (intro keeps_intros rest_intros rest_modify) simp

lemma rest_create_string_input [rest_intros]: "keeps I (capsule_create_string_input name ns)"
proof -
  have "keeps I (capsule_add t n)" for t n by (rule keepsI) (auto simp: capsule_add_def elim!: only)
  then show ?thesis unfolding capsule_create_string_input_def by (intro keeps_intros rest_intros)
qed

lemma keeps_tdf_writer_close: "keeps I tdf_writer_close"
proof -
  have "keeps I (on_bostream m)" for m
    by (rule keepsI) (auto simp: on_bostream_def split: prod.splits elim!: only)
  moreover have "keeps I tdf_write_align"
    by (rule keepsI) (auto simp: tdf_write_align_def on_bostream_def bind_def modify_def
        split: if_splits prod.splits outcome.splits elim!: only)
  ultimately show ?thesis unfolding tdf_writer_close_def by (intro keeps_intros rest_modify) simp_all
qed

lemma rest_close [rest_intros]: "keeps I (capsule_close capsule)"
  unfolding capsule_close_def
  by (intro keeps_intros) (auto intro: rest_intros keeps_tdf_writer_close split: CapsuleTypeT.splits)

end

text \<open>The part of the state beside the capsules, and the greatest severity reported to libexds.\<close>

definition rest_is :: "'z \<Rightarrow> 'z capsule_state_scheme \<Rightarrow> bool" where
  "rest_is m s \<longleftrightarrow> capsule_state.more s = m"

definition reported :: "ESeverityT \<Rightarrow> 'z error_state_scheme \<Rightarrow> bool" where
  "reported v s \<longleftrightarrow> max_reported s = v"

interpretation rest: capsule_frame "rest_is m" for m
  by unfold_locales (simp add: rest_is_def)

interpretation reports: capsule_frame "reported v" for v
  by unfold_locales (simp add: reported_def)

end
