(* ===== verification/Resolve.thy ===== *)
theory Resolve
  imports Library Capsule_Frame
begin

text \<open>
  Resolving undefined names from libraries: \<^verbatim>\<open>name_entry_resolve_undefined\<close> of
  \<^verbatim>\<open>tld/src/adt/name-entry.c\<close>, \<^verbatim>\<open>shape_entry_resolve_undefined\<close> of \<^verbatim>\<open>tld/src/adt/shape-entry.c\<close> and
  \<^verbatim>\<open>linker_resolve_undefined\<close> of \<^verbatim>\<open>tld/src/frontend/linker.c\<close>. Loading a library capsule adds shapes and
  names to the tables while they are being iterated, so the three loops are functions of their own,
  and their termination proofs rest on the number of library capsules that are not loaded yet.
\<close>

section \<open>One name\<close>

text \<open>The library capsule to load for a name, if any. \<open>table\<close> is the library's entry of its shape.\<close>

definition name_entry_find_library ::
  "nat option \<Rightarrow> cuint \<Rightarrow> NameKeyT \<Rightarrow> ('z library_state_scheme, nat option) prog" where
  "name_entry_find_library table use key =
     (case table of
        None \<Rightarrow> ret None
      | Some r \<Rightarrow>
          bind (gets (\<lambda>s. entries (st_table (ls_shapes s)))) (\<lambda>es. bind (index es r) (\<lambda>lib_shape.
          bind (defined (name_table_get (se_names lib_shape) key)) (\<lambda>lib_entry.
          case lib_entry of
            None \<Rightarrow> ret None
          | Some n \<Rightarrow>
              bind (index (entries (se_names lib_shape)) n) (\<lambda>e.
              bind (defined (name_entry_get_lib_definition e)) (\<lambda>lib_def.
              bind (defined (name_entry_get_use e)) (\<lambda>lib_use.
              case lib_def of
                None \<Rightarrow> ret None
              | Some c \<Rightarrow> bind (lib_capsule_at c) (\<lambda>capsule.
                  if \<not> lc_loaded capsule \<and> (use AND U_MULT = 0 \<or> lib_use AND U_DEFD \<noteq> 0)
                  then ret (Some c) else ret None))))))))"

definition name_entry_load :: "nat \<Rightarrow> ('z library_state_scheme, unit) prog" where
  "name_entry_load lib_def =
     bind (lib_capsule_full_name lib_def) (\<lambda>name.
     bind (lib_capsule_at lib_def) (\<lambda>c.
     bind (capsule_create_string_input name (lc_contents c)) (\<lambda>capsule.
     bind (capsule_read capsule) (\<lambda>_.
     bind (capsule_close capsule) (\<lambda>_.
     lib_capsule_loaded lib_def)))))"

definition name_entry_resolve_undefined ::
  "nat \<Rightarrow> nat \<Rightarrow> nat option \<Rightarrow> bool \<Rightarrow> ('z library_state_scheme, bool) prog" where
  "name_entry_resolve_undefined shape entry table missing_definitions =
     bind (on_name shape entry (\<lambda>e. bind (defined (name_entry_get_use e)) (\<lambda>use. ret ((use, ne_key e), e)))) (\<lambda>(use, key).
     if use AND U_DEFD \<noteq> 0 \<or> use AND U_USED = 0 then ret False
     else bind (name_entry_find_library table use key) (\<lambda>lib_def.
       case lib_def of
         Some lib_def \<Rightarrow> bind (name_entry_load lib_def) (\<lambda>_. ret True)
       | None \<Rightarrow> bind (if missing_definitions then error_msg ERR_WARN else ret ()) (\<lambda>_. ret False)))"

section \<open>Library capsules not loaded yet\<close>

definition unloaded :: "'z library_state_scheme \<Rightarrow> nat" where
  "unloaded s = length (filter (\<lambda>c. case c of None \<Rightarrow> False | Some c \<Rightarrow> \<not> lc_loaded c) (ls_capsules s))"

lemma more_ls_capsules: "capsule_state.more s = capsule_state.more t \<Longrightarrow> ls_capsules s = ls_capsules t"
  by (cases s, cases t) simp

lemma lib_capsule_at_Ret: "lib_capsule_at r s = (Ret c, t) \<longleftrightarrow> t = s \<and> r < length (ls_capsules s) \<and> ls_capsules s ! r = Some c"
  by (auto simp: lib_capsule_at_def bind_Ret_iff gets_def check_def defined_def split: option.splits if_splits)

lemma find_library_Ret:
  assumes "name_entry_find_library table use key s = (Ret x, t)"
  shows "t = s \<and> (\<forall>c. x = Some c \<longrightarrow> c < length (ls_capsules s) \<and> (\<exists>lc. ls_capsules s ! c = Some lc \<and> \<not> lc_loaded lc))"
proof (cases table)
  case None
  then show ?thesis using assms by (simp add: name_entry_find_library_def ret_def)
next
  case (Some r)
  let ?sh = "entries (st_table (ls_shapes s)) ! r"
  obtain le where le: "r < length (entries (st_table (ls_shapes s)))" "name_table_get (se_names ?sh) key = Some le"
    using assms Some by (auto simp: name_entry_find_library_def bind_Ret_iff gets_def index_def defined_def split: if_splits option.splits)
  show ?thesis
  proof (cases le)
    case None
    then show ?thesis using assms Some le by (simp add: name_entry_find_library_def bind_def gets_def ret_def index_def)
  next
    case n: (Some n)
    let ?e = "entries (se_names ?sh) ! n"
    obtain ld lu where "n < length (entries (se_names ?sh))" "name_entry_get_lib_definition ?e = Some ld"
      "name_entry_get_use ?e = Some lu"
      using assms Some le n by (auto simp: name_entry_find_library_def bind_Ret_iff gets_def index_def defined_def
          split: if_splits option.splits)
    then show ?thesis
      using assms Some le n
      by (cases ld) (auto simp: name_entry_find_library_def bind_Ret_iff gets_def ret_def lib_capsule_at_Ret split: if_splits)
  qed
qed

lemma load_capsules:
  assumes "name_entry_load c s = (Ret x, t)" "ls_capsules s ! c = Some lc"
  shows "ls_capsules t = (ls_capsules s)[c := Some (lc\<lparr>lc_loaded := True\<rparr>)]"
proof -
  obtain name capsule s1 s2 s3 where m: "capsule_create_string_input name (lc_contents lc) s = (Ret capsule, s1)"
    "capsule_read capsule s1 = (Ret (), s2)" "capsule_close capsule s2 = (Ret (), s3)" "lib_capsule_loaded c s3 = (Ret x, t)"
    using assms
    by (auto simp: name_entry_load_def lib_capsule_full_name_def bind_Ret_iff lib_capsule_at_Ret gets_def ret_def)
  have rest: "rest_is (capsule_state.more s) s" by (simp add: rest_is_def)
  have "rest_is (capsule_state.more s) s3"
    using keepsD[OF rest.rest_close keepsD[OF rest.rest_read keepsD[OF rest.rest_create_string_input rest m(1)] m(2)] m(3)] .
  then have eq: "ls_capsules s3 = ls_capsules s" unfolding rest_is_def by (rule more_ls_capsules)
  then show ?thesis
    using m(4) assms(2)
    by (auto simp: lib_capsule_loaded_def bind_Ret_iff lib_capsule_at_Ret lib_capsule_put_def modify_def)
qed

lemma load_Ret:
  assumes "name_entry_load c s = (Ret x, t)" "c < length (ls_capsules s)" "ls_capsules s ! c = Some lc" "\<not> lc_loaded lc"
  shows "unloaded t < unloaded s"
  using load_capsules[OF assms(1,3)] assms by (simp add: unloaded_def filter_update_less)

lemma on_shape_put_same:
  assumes "r < length (entries (st_table (cs_shapes s)))"
  shows "s\<lparr>cs_shapes := shape_entry_put r (entries (st_table (cs_shapes s)) ! r) (cs_shapes s)\<rparr> = s"
  by (simp add: shape_entry_put_def table_set_def)

lemma resolve_True:
  assumes "name_entry_resolve_undefined r n table md s = (Ret True, t)"
  shows "unloaded t < unloaded s"
proof -
  obtain use key s1 c u where m: "on_name r n (\<lambda>e. bind (defined (name_entry_get_use e)) (\<lambda>use. ret ((use, ne_key e), e))) s = (Ret (use, key), s1)"
    "name_entry_find_library table use key s1 = (Ret (Some c), s1)" "name_entry_load c s1 = (Ret u, t)"
    using assms
    by (auto simp: name_entry_resolve_undefined_def bind_Ret_iff ret_def split: if_splits option.splits)
      (use find_library_Ret in blast)+
  have "s1 = s"
    using m(1) by (auto simp: on_name_def on_shape_def bind_Ret_iff gets_def index_def modify_def ret_def defined_def
        on_shape_put_same table_set_def split: option.splits if_splits)
  then show ?thesis using load_Ret[OF m(3)] find_library_Ret[OF m(2)] by auto
qed

lemma resolve_False:
  assumes "name_entry_resolve_undefined r n table md s = (Ret False, t)"
  shows "ls_capsules t = ls_capsules s \<and> cs_shapes t = cs_shapes s"
proof -
  obtain use key s1 where m: "on_name r n (\<lambda>e. bind (defined (name_entry_get_use e)) (\<lambda>use. ret ((use, ne_key e), e))) s = (Ret (use, key), s1)"
    "t = s1 \<or> error_msg ERR_WARN s1 = (Ret (), t)"
    using assms
    by (auto simp: name_entry_resolve_undefined_def bind_Ret_iff ret_def split: if_splits option.splits)
      (use find_library_Ret in blast)+
  have "s1 = s"
    using m(1) by (auto simp: on_name_def on_shape_def bind_Ret_iff gets_def index_def modify_def ret_def defined_def
        on_shape_put_same table_set_def split: option.splits if_splits)
  then show ?thesis using m(2) by (auto simp: error_msg_def bind_Ret_iff modify_def gets_def ret_def raise_def split: if_splits)
qed


section \<open>The names of one shape\<close>

definition queue_length :: "nat \<Rightarrow> 'z capsule_state_scheme \<Rightarrow> nat" where
  "queue_length r s = length (se_queue (shape_entry_at (cs_shapes s) r))"

lemma pop_Ret:
  assumes "on_shape r (\<lambda>e. ret (shape_entry_get_from_list e)) s = (Ret x, t)"
  shows "unloaded t = unloaded s \<and> contents (st_table (cs_shapes t)) = contents (st_table (cs_shapes s))
    \<and> (x \<noteq> None \<longrightarrow> queue_length r t < queue_length r s)"
proof -
  let ?e = "entries (st_table (cs_shapes s)) ! r"
  obtain e' where e': "shape_entry_get_from_list ?e = (x, e')" "r < length (entries (st_table (cs_shapes s)))"
    "t = s\<lparr>cs_shapes := shape_entry_put r e' (cs_shapes s)\<rparr>"
    using assms by (auto simp: on_shape_def bind_Ret_iff gets_def index_def ret_def modify_def split: if_splits prod.splits)
  then show ?thesis
    by (auto simp: unloaded_def shape_entry_put_def queue_length_def shape_entry_at_def shape_entry_get_from_list_def
        split: list.splits)
qed

lemma resolve_step:
  assumes "on_shape r (\<lambda>e. ret (shape_entry_get_from_list e)) s = (Ret (Some n), t)"
    "name_entry_resolve_undefined r n table md t = (Ret b, u)"
  shows "unloaded u < unloaded s \<and> b \<or> unloaded u = unloaded s \<and> queue_length r u < queue_length r s
    \<and> contents (st_table (cs_shapes u)) = contents (st_table (cs_shapes s)) \<and> \<not> b"
  using pop_Ret[OF assms(1)] resolve_True[of r n table md t u] resolve_False[of r n table md t u] assms(2)
  by (cases b) (auto simp: unloaded_def queue_length_def)

text \<open>\<open>did_define\<close> is the field of the closure.\<close>

function shape_entry_resolve_loop ::
  "nat \<Rightarrow> nat option \<Rightarrow> bool \<Rightarrow> bool \<Rightarrow> 'z library_state_scheme \<Rightarrow> bool outcome \<times> 'z library_state_scheme" where
  "shape_entry_resolve_loop entry table missing_definitions did_define s =
     (case on_shape entry (\<lambda>e. ret (shape_entry_get_from_list e)) s of
        (Raise e, t) \<Rightarrow> (Raise e, t)
      | (Ret None, t) \<Rightarrow> (Ret did_define, t)
      | (Ret (Some name_entry), t) \<Rightarrow>
          (case name_entry_resolve_undefined entry name_entry table missing_definitions t of
             (Raise e, u) \<Rightarrow> (Raise e, u)
           | (Ret b, u) \<Rightarrow> shape_entry_resolve_loop entry table missing_definitions (did_define \<or> b) u))"
  by pat_completeness auto

termination
  by (relation "measures [\<lambda>(entry, table, md, did, s). unloaded s, \<lambda>(entry, table, md, did, s). queue_length entry s]")
    (auto dest!: resolve_step [OF sym sym])

declare shape_entry_resolve_loop.simps [simp del]

definition shape_entry_resolve_undefined :: "nat \<Rightarrow> bool \<Rightarrow> bool \<Rightarrow> ('z library_state_scheme, bool) prog" where
  "shape_entry_resolve_undefined entry missing_definitions did_define =
     bind (on_shape entry (\<lambda>e. ret (se_key e, e))) (\<lambda>key.
     bind (gets (\<lambda>s. shape_table_get (ls_shapes s) key)) (\<lambda>lib_entry.
     shape_entry_resolve_loop entry lib_entry missing_definitions did_define))"

text \<open>What a step of resolving leaves: less to load, or the same tables and nothing defined.\<close>

definition progress :: "bool \<Rightarrow> bool \<Rightarrow> 'z library_state_scheme \<Rightarrow> 'z library_state_scheme \<Rightarrow> bool" where
  "progress did did' s t \<longleftrightarrow> unloaded t < unloaded s \<and> did' \<or>
     unloaded t = unloaded s \<and> contents (st_table (cs_shapes t)) = contents (st_table (cs_shapes s)) \<and> did' = did"

lemma progress_trans: "progress a b s t \<Longrightarrow> progress b c t u \<Longrightarrow> progress a c s u"
  by (auto simp: progress_def)

lemma resolve_loop_progress:
  "shape_entry_resolve_loop r table md did s = (Ret did', t) \<Longrightarrow> progress did did' s t"
proof (induction r table md did s arbitrary: did' t rule: shape_entry_resolve_loop.induct)
  case (1 r table md did s)
  obtain x t1 where p: "on_shape r (\<lambda>e. ret (shape_entry_get_from_list e)) s = (x, t1)" by fastforce
  show ?case
  proof (cases x)
    case (Raise e)
    then show ?thesis using 1(2) p by (simp add: shape_entry_resolve_loop.simps)
  next
    case (Ret y)
    show ?thesis
    proof (cases y)
      case None
      then show ?thesis
        using 1(2) p Ret pop_Ret[of r s y t1] by (simp add: shape_entry_resolve_loop.simps progress_def)
    next
      case (Some n)
      obtain z u where z: "name_entry_resolve_undefined r n table md t1 = (z, u)" by fastforce
      obtain b where b: "z = Ret b" using 1(2) p Ret Some z by (cases z) (simp_all add: shape_entry_resolve_loop.simps)
      have rec: "shape_entry_resolve_loop r table md (did \<or> b) u = (Ret did', t)"
        using 1(2) p Ret Some z b by (simp add: shape_entry_resolve_loop.simps [of r table md did s])
      have "progress (did \<or> b) did' u t"
        using 1(1)[OF p [symmetric] Ret Some z [symmetric] b rec] by simp
      moreover have "progress did (did \<or> b) s u"
        using resolve_step[of r s n t1] p Ret Some z b by (auto simp: progress_def)
      ultimately show ?thesis by (rule progress_trans [rotated])
    qed
  qed
qed

lemma shape_resolve_progress:
  assumes "shape_entry_resolve_undefined r md did s = (Ret did', t)"
  shows "progress did did' s t"
proof -
  have "on_shape r (\<lambda>e. ret (se_key e, e)) s = (Ret key, u) \<Longrightarrow> u = s" for key u
    by (auto simp: on_shape_def bind_Ret_iff gets_def index_def ret_def modify_def on_shape_put_same split: if_splits)
  then show ?thesis
    using assms
    by (auto simp: shape_entry_resolve_undefined_def bind_Ret_iff gets_def dest!: resolve_loop_progress)
qed

section \<open>All shapes\<close>

text \<open>
  The pass of \<^verbatim>\<open>shape_table_iter\<close> over the shapes, in bucket \<open>i\<close> at position \<open>j\<close> of its chain. New
  shapes are linked at the end of their chain, so the position stays valid while the table grows.
\<close>

function linker_resolve_pass ::
  "bool \<Rightarrow> nat \<Rightarrow> nat \<Rightarrow> bool \<Rightarrow> 'z library_state_scheme \<Rightarrow> bool outcome \<times> 'z library_state_scheme" where
  "linker_resolve_pass missing_definitions i j did_define s =
     (if i < SHAPE_TABLE_SIZE then
        if j < length (contents (st_table (cs_shapes s)) ! i) then
          (case shape_entry_resolve_undefined (contents (st_table (cs_shapes s)) ! i ! j) missing_definitions did_define s of
             (Raise e, t) \<Rightarrow> (Raise e, t)
           | (Ret did_define, t) \<Rightarrow> linker_resolve_pass missing_definitions i (j + 1) did_define t)
        else linker_resolve_pass missing_definitions (i + 1) 0 did_define s
      else (Ret did_define, s))"
  by pat_completeness auto

termination
  by (relation "measures [\<lambda>(md, i, j, did, s). unloaded s, \<lambda>(md, i, j, did, s). SHAPE_TABLE_SIZE - i,
      \<lambda>(md, i, j, did, s). length (contents (st_table (cs_shapes s)) ! i) - j]")
    (auto dest!: shape_resolve_progress [OF sym] simp: progress_def)

declare linker_resolve_pass.simps [simp del]

lemma resolve_pass_progress:
  "linker_resolve_pass md i j did s = (Ret did', t) \<Longrightarrow> progress did did' s t"
proof (induction md i j did s arbitrary: did' t rule: linker_resolve_pass.induct)
  case (1 md i j did s)
  let ?c = "contents (st_table (cs_shapes s)) ! i"
  consider (shape) "i < SHAPE_TABLE_SIZE" "j < length ?c" | (bucket) "i < SHAPE_TABLE_SIZE" "\<not> j < length ?c"
    | (finish) "\<not> i < SHAPE_TABLE_SIZE" by blast
  then show ?case
  proof cases
    case shape
    obtain x u where x: "shape_entry_resolve_undefined (?c ! j) md did s = (x, u)" by fastforce
    obtain d where d: "x = Ret d"
      using 1(3) shape x by (cases x) (simp_all add: linker_resolve_pass.simps [of md i j])
    with 1(3) shape x have "linker_resolve_pass md i (j + 1) d u = (Ret did', t)"
      by (simp add: linker_resolve_pass.simps [of md i j])
    from 1(1)[OF shape x [symmetric] d this] have "progress d did' u t" .
    with shape_resolve_progress[of "?c ! j" md did s d u] x d show ?thesis
      by (blast intro: progress_trans)
  next
    case bucket
    with 1(3) have "linker_resolve_pass md (i + 1) 0 did s = (Ret did', t)"
      by (simp add: linker_resolve_pass.simps [of md i j])
    from 1(2)[OF bucket this] show ?thesis .
  next
    case finish
    with 1(3) show ?thesis by (simp add: linker_resolve_pass.simps [of md i j] progress_def)
  qed
qed

function linker_resolve_loop :: "bool \<Rightarrow> 'z library_state_scheme \<Rightarrow> unit outcome \<times> 'z library_state_scheme" where
  "linker_resolve_loop missing_definitions s =
     (case linker_resolve_pass missing_definitions 0 0 False s of
        (Raise e, t) \<Rightarrow> (Raise e, t)
      | (Ret did_define, t) \<Rightarrow> if did_define then linker_resolve_loop missing_definitions t else (Ret (), t))"
  by pat_completeness auto

termination
  by (relation "measure (\<lambda>(md, s). unloaded s)") (auto dest!: resolve_pass_progress [OF sym] simp: progress_def)

declare linker_resolve_loop.simps [simp del]

definition linker_resolve_undefined :: "ArgDataT \<Rightarrow> ('z library_state_scheme, unit) prog" where
  "linker_resolve_undefined arg_data =
     bind (linker_resolve_loop (ad_missing_definitions arg_data)) (\<lambda>_. exit_on_error)"

section \<open>Rules for the loops\<close>

text \<open>
  An invariant that taking a name from the queue and resolving it keep is kept by all of
  resolution; \<open>Q n\<close> is what is known of the name that was taken.
\<close>

lemma valid_resolve_loop:
  assumes pop: "valid I (on_shape r (\<lambda>e. ret (shape_entry_get_from_list e))) (\<lambda>x s. I s \<and> (\<forall>n. x = Some n \<longrightarrow> Q n s)) X"
    and res: "\<And>n. valid (\<lambda>s. I s \<and> Q n s) (name_entry_resolve_undefined r n table md) (\<lambda>_. I) X"
  shows "valid I (shape_entry_resolve_loop r table md did) (\<lambda>_. I) X"
proof -
  have "case shape_entry_resolve_loop r table md did s of (Ret x, t) \<Rightarrow> I t | (Raise e, t) \<Rightarrow> X e t" if "I s" for s
    using pop res that
  proof (induction r table md did s rule: shape_entry_resolve_loop.induct)
    case (1 r table md did s)
    obtain x t where p: "on_shape r (\<lambda>e. ret (shape_entry_get_from_list e)) s = (x, t)" by fastforce
    show ?case
    proof (cases x)
      case (Raise e)
      with validD_Raise[OF 1(2) 1(4)] p show ?thesis by (simp add: shape_entry_resolve_loop.simps [of r table md did s])
    next
      case (Ret y)
      note post = validD[OF 1(2) 1(4) p [unfolded Ret]]
      show ?thesis
      proof (cases y)
        case None
        with post p Ret show ?thesis by (simp add: shape_entry_resolve_loop.simps [of r table md did s])
      next
        case (Some n)
        obtain z u where z: "name_entry_resolve_undefined r n table md t = (z, u)" by fastforce
        show ?thesis
        proof (cases z)
          case (Raise e)
          with validD_Raise[OF 1(3)[of n] _ z [unfolded Raise]] post p Ret Some z show ?thesis
            by (simp add: shape_entry_resolve_loop.simps [of r table md did s])
        next
          case (Ret b)
          with validD[OF 1(3)[of n] _ z [unfolded Ret]] post Some have "I u" by simp
          from 1(1)[OF p [symmetric] \<open>x = Ret y\<close> Some z [symmetric] Ret 1(2) 1(3) this] p \<open>x = Ret y\<close> Some z Ret
          show ?thesis by (simp add: shape_entry_resolve_loop.simps [of r table md did s])
        qed
      qed
    qed
  qed
  then show ?thesis by (auto simp: valid_def)
qed

text \<open>The shape a pass has reached is one of the table.\<close>

definition in_table :: "nat \<Rightarrow> 'z capsule_state_scheme \<Rightarrow> bool" where
  "in_table r s \<longleftrightarrow> (\<exists>i<SHAPE_TABLE_SIZE. r \<in> set (contents (st_table (cs_shapes s)) ! i))"

lemma valid_resolve_pass:
  assumes shape: "\<And>r did. valid (\<lambda>s. I s \<and> in_table r s) (shape_entry_resolve_undefined r md did) (\<lambda>_. I) X"
  shows "valid I (linker_resolve_pass md i j did) (\<lambda>_. I) X"
proof -
  have "case linker_resolve_pass md i j did s of (Ret x, t) \<Rightarrow> I t | (Raise e, t) \<Rightarrow> X e t" if "I s" for s
    using shape that
  proof (induction md i j did s rule: linker_resolve_pass.induct)
    case (1 md i j did s)
    let ?c = "contents (st_table (cs_shapes s)) ! i"
    consider (shape) "i < SHAPE_TABLE_SIZE" "j < length ?c" | (bucket) "i < SHAPE_TABLE_SIZE" "\<not> j < length ?c"
      | (finish) "\<not> i < SHAPE_TABLE_SIZE" by blast
    then show ?case
    proof cases
      case shape
      obtain x u where x: "shape_entry_resolve_undefined (?c ! j) md did s = (x, u)" by fastforce
      have pre: "I s \<and> in_table (?c ! j) s" using 1(4) shape by (auto simp: in_table_def)
      show ?thesis
      proof (cases x)
        case (Raise e)
        with validD_Raise[OF 1(3) pre] x shape show ?thesis by (simp add: linker_resolve_pass.simps [of md i j])
      next
        case (Ret d)
        with validD[OF 1(3) pre] x have "I u" by simp
        from 1(1)[OF shape x [symmetric] Ret 1(3) this] x Ret shape show ?thesis
          by (simp add: linker_resolve_pass.simps [of md i j did s])
      qed
    next
      case bucket
      from 1(2)[OF bucket 1(3) 1(4)] bucket show ?thesis by (simp add: linker_resolve_pass.simps [of md i j did s])
    next
      case finish
      with 1(4) show ?thesis by (simp add: linker_resolve_pass.simps [of md i j did s])
    qed
  qed
  then show ?thesis by (auto simp: valid_def)
qed

lemma valid_linker_resolve_loop:
  assumes "\<And>r did. valid (\<lambda>s. I s \<and> in_table r s) (shape_entry_resolve_undefined r md did) (\<lambda>_. I) X"
  shows "valid I (linker_resolve_loop md) (\<lambda>_. I) X"
proof -
  note pass = valid_resolve_pass[OF assms]
  have "case linker_resolve_loop md s of (Ret x, t) \<Rightarrow> I t | (Raise e, t) \<Rightarrow> X e t" if "I s" for s
    using pass that
  proof (induction md s rule: linker_resolve_loop.induct)
    case (1 md s)
    obtain x u where x: "linker_resolve_pass md 0 0 False s = (x, u)" by fastforce
    show ?case
    proof (cases x)
      case (Raise e)
      with validD_Raise[OF 1(2,3)] x show ?thesis by (simp add: linker_resolve_loop.simps [of md s])
    next
      case (Ret d)
      with validD[OF 1(2,3)] x have "I u" by simp
      with 1(1)[OF x [symmetric] Ret _ 1(2)] x Ret show ?thesis
        by (cases d) (simp_all add: linker_resolve_loop.simps [of md s])
    qed
  qed
  then show ?thesis by (auto simp: valid_def)
qed

end
