(* ===== verification/Linker.thy ===== *)
theory Linker
  imports Resolve
begin

text \<open>
  The four modes of the linker: \<^verbatim>\<open>tld/src/frontend/linker.c\<close>, \<^verbatim>\<open>builder.c\<close>, \<^verbatim>\<open>extract.c\<close> and
  \<^verbatim>\<open>contents.c\<close>. The tables the modes create are those of the state; the closures that the iterators
  hand on are arguments.
\<close>

section \<open>Linking: renaming and reading\<close>

definition add_rename_to :: "NameKeyT \<Rightarrow> NameKeyT \<Rightarrow> ShapeEntryT \<Rightarrow> ('s, unit \<times> ShapeEntryT) prog" where
  "add_rename_to from to e =
     bind (defined (name_table_add_rename from to (se_names e))) (\<lambda>table. ret ((), e\<lparr>se_names := table\<rparr>))"

definition resolve_renames_of :: "bool \<Rightarrow> ShapeEntryT \<Rightarrow> ('z error_state_scheme, unit \<times> ShapeEntryT) prog" where
  "resolve_renames_of report e =
     bind (name_table_resolve_renames report (se_names e)) (\<lambda>table. ret ((), e\<lparr>se_names := table\<rparr>))"

definition linker_rename_1 :: "NStringT \<Rightarrow> (NameKeyT \<times> NameKeyT) list \<Rightarrow> ('z library_state_scheme, unit) prog" where
  "linker_rename_1 shape names =
     bind (capsule_shape_add shape) (\<lambda>entry.
     bind (library_shape_add shape) (\<lambda>lib_entry.
     bind (for_each names (\<lambda>(from, to).
       bind (on_shape entry (add_rename_to from to)) (\<lambda>_.
       on_lib_shape lib_entry (add_rename_to from to)))) (\<lambda>_.
     bind (on_shape entry (resolve_renames_of True)) (\<lambda>_.
     on_lib_shape lib_entry (resolve_renames_of False)))))"

definition linker_rename :: "ArgDataT \<Rightarrow> ('z library_state_scheme, unit) prog" where
  "linker_rename arg_data = bind (rename_control_iter (ad_renames arg_data) linker_rename_1) (\<lambda>_. exit_on_error)"

definition linker_read_capsules :: "ArgDataT \<Rightarrow> ('z library_state_scheme, unit) prog" where
  "linker_read_capsules arg_data =
     bind (for_each (ad_files arg_data) (\<lambda>file.
       bind (capsule_create_stream_input file) (\<lambda>capsule.
       case capsule of
         Some capsule \<Rightarrow> bind (capsule_read capsule) (\<lambda>_. capsule_close capsule)
       | None \<Rightarrow> error_msg ERR_SERIOUS))) (\<lambda>_. exit_on_error)"

text \<open>The inner loop over the library paths and its \<^verbatim>\<open>goto found\<close>.\<close>

fun linker_find_library :: "cstring list \<Rightarrow> cstring \<Rightarrow> ('z library_state_scheme, nat option) prog" where
  "linker_find_library [] file = bind (error_msg ERR_SERIOUS) (\<lambda>_. ret None)"
| "linker_find_library (path # paths) file =
     bind (library_create_stream_input (file_name_expand path file (Some (str ''tl'')))) (\<lambda>library.
     case library of
       Some library \<Rightarrow> ret (Some library)
     | None \<Rightarrow> linker_find_library paths file)"

definition linker_load_libraries :: "ArgDataT \<Rightarrow> ('z library_state_scheme, unit) prog" where
  "linker_load_libraries arg_data =
     bind (for_each (ad_library_files arg_data) (\<lambda>file.
       bind (if file_name_is_basename file then linker_find_library (ad_library_paths arg_data) file
             else bind (library_create_stream_input file) (\<lambda>library.
               case library of
                 Some library \<Rightarrow> ret (Some library)
               | None \<Rightarrow> bind (error_msg ERR_SERIOUS) (\<lambda>_. ret None))) (\<lambda>library.
       case library of
         Some library \<Rightarrow> bind (library_read library) (\<lambda>_. library_close library)
       | None \<Rightarrow> ret ()))) (\<lambda>_. exit_on_error)"

section \<open>Linking: suppressing, hiding and keeping\<close>

text \<open>A procedure of \<^verbatim>\<open>name_table_iter\<close> on the names of one shape.\<close>

definition iter_names ::
  "(NameEntryT \<Rightarrow> unit \<Rightarrow> ('s, NameEntryT \<times> unit) prog) \<Rightarrow> ShapeEntryT \<Rightarrow> ('s, unit \<times> ShapeEntryT) prog" where
  "iter_names proc e = bind (name_table_iter (se_names e) proc ()) (\<lambda>(names, _). ret ((), e\<lparr>se_names := names\<rparr>))"

text \<open>
  What the name control loops do with one key: \<open>absent\<close> when the name is not there, \<open>present\<close> on its
  entry otherwise.
\<close>

definition with_name ::
  "NameKeyT \<Rightarrow> ('s, unit) prog \<Rightarrow> (NameEntryT \<Rightarrow> ('s, NameEntryT) prog) \<Rightarrow> ShapeEntryT \<Rightarrow> ('s, unit \<times> ShapeEntryT) prog" where
  "with_name key absent present e =
     bind (defined (name_table_get (se_names e) key)) (\<lambda>name_entry.
     case name_entry of
       None \<Rightarrow> bind absent (\<lambda>_. ret ((), e))
     | Some n \<Rightarrow> bind (index (entries (se_names e)) n) (\<lambda>ne. bind (present ne) (\<lambda>ne.
         ret ((), e\<lparr>se_names := table_set n ne (se_names e)\<rparr>))))"

definition linker_suppress_1 :: "NStringT \<Rightarrow> bool \<Rightarrow> NameKeyT list \<Rightarrow> ('z library_state_scheme, unit) prog" where
  "linker_suppress_1 shape all names =
     bind (gets (\<lambda>s. shape_table_get (ls_shapes s) shape)) (\<lambda>entry.
     case entry of
       None \<Rightarrow> ret ()
     | Some entry \<Rightarrow>
         bind (if all then on_lib_shape entry (iter_names name_entry_suppress) else ret ()) (\<lambda>_.
         for_each names (\<lambda>key. on_lib_shape entry (with_name key (ret ())
           (\<lambda>ne. defined (name_entry_set_lib_definition None ne))))))"

definition linker_suppress :: "ArgDataT \<Rightarrow> ('z library_state_scheme, unit) prog" where
  "linker_suppress arg_data =
     bind (if ad_suppress_mult arg_data then
             bind (gets ls_shapes) (\<lambda>shapes.
             bind (shape_table_iter shapes shape_entry_lib_suppress_mult ()) (\<lambda>(shapes, _).
             modify (\<lambda>s. s\<lparr>ls_shapes := shapes\<rparr>)))
           else ret ()) (\<lambda>_.
     bind (shape_control_iter (ad_suppresses arg_data) linker_suppress_1) (\<lambda>_. exit_on_error))"

definition linker_hide :: "NStringT \<Rightarrow> bool \<Rightarrow> NameKeyT list \<Rightarrow> ('z library_state_scheme, unit) prog" where
  "linker_hide shape all names =
     bind (gets (\<lambda>s. shape_table_get (cs_shapes s) shape)) (\<lambda>entry.
     case entry of
       None \<Rightarrow> error_msg ERR_SERIOUS
     | Some entry \<Rightarrow>
         bind (if all then on_shape entry (iter_names name_entry_hide_defd) else ret ()) (\<lambda>_.
         for_each names (\<lambda>key. on_shape entry (with_name key (error_msg ERR_SERIOUS)
           (\<lambda>ne. bind (defined (name_entry_get_use ne)) (\<lambda>use.
              if use AND U_DEFD \<noteq> 0 then defined (name_entry_hide ne)
              else bind (error_msg ERR_SERIOUS) (\<lambda>_. ret ne)))))))"

definition linker_keep :: "NStringT \<Rightarrow> bool \<Rightarrow> NameKeyT list \<Rightarrow> ('z library_state_scheme, unit) prog" where
  "linker_keep shape all names =
     bind (gets (\<lambda>s. shape_table_get (cs_shapes s) shape)) (\<lambda>entry.
     case entry of
       None \<Rightarrow> error_msg ERR_SERIOUS
     | Some entry \<Rightarrow>
         bind (if all then on_shape entry (iter_names name_entry_keep) else ret ()) (\<lambda>_.
         for_each names (\<lambda>key. on_shape entry (with_name key (error_msg ERR_SERIOUS)
           (\<lambda>ne. defined (name_entry_unhide ne))))))"

definition linker_hide_and_keep :: "ArgDataT \<Rightarrow> ('z library_state_scheme, unit) prog" where
  "linker_hide_and_keep arg_data =
     bind (if ad_all_hide_defined arg_data then iter_shapes shape_entry_hide_all_defd () else ret ()) (\<lambda>_.
     bind (shape_control_iter (ad_hides arg_data) linker_hide) (\<lambda>_.
     bind (shape_control_iter (ad_keeps arg_data) linker_keep) (\<lambda>_. exit_on_error)))"

section \<open>Linking: writing\<close>

definition linker_write_capsule :: "ArgDataT \<Rightarrow> ('z library_state_scheme, unit) prog" where
  "linker_write_capsule arg_data =
     bind (defined (arg_data_get_output_file arg_data)) (\<lambda>output_name.
     bind (capsule_create_stream_output output_name) (\<lambda>capsule.
     bind (case capsule of
             Some capsule \<Rightarrow> bind capsule_write (\<lambda>_. capsule_close capsule)
           | None \<Rightarrow> error_msg ERR_FATAL) (\<lambda>_.
     exit_on_error)))"

definition linker_main :: "ArgDataT \<Rightarrow> ('z library_state_scheme, unit) prog" where
  "linker_main arg_data =
     bind (modify (\<lambda>s. s\<lparr>cs_units := unit_table_create, cs_shapes := shape_table_create\<rparr>)) (\<lambda>_.
     bind library_fresh_shapes (\<lambda>_.
     bind (linker_rename arg_data) (\<lambda>_.
     bind (linker_read_capsules arg_data) (\<lambda>_.
     bind (linker_load_libraries arg_data) (\<lambda>_.
     bind (linker_suppress arg_data) (\<lambda>_.
     bind (linker_resolve_undefined arg_data) (\<lambda>_.
     bind (linker_hide_and_keep arg_data) (\<lambda>_.
     linker_write_capsule arg_data))))))))"

section \<open>Building a library\<close>

text \<open>The libraries, \<^verbatim>\<open>NULL\<close> for one that could not be opened, and their number of capsules.\<close>

fun builder_read_libraries_loop ::
  "cstring list \<Rightarrow> cuint \<Rightarrow> ('z library_state_scheme, nat option list \<times> cuint) prog" where
  "builder_read_libraries_loop [] num_capsules = ret ([], num_capsules)"
| "builder_read_libraries_loop (file # files) num_capsules =
     bind (library_create_stream_input file) (\<lambda>library.
     bind (case library of
             Some library \<Rightarrow>
               bind library_fresh_shapes (\<lambda>_.
               bind (library_read library) (\<lambda>_.
               bind (library_close library) (\<lambda>_.
               bind (library_num_capsules library) (\<lambda>num. ret (num_capsules + num)))))
           | None \<Rightarrow> bind (error_msg ERR_SERIOUS) (\<lambda>_. ret num_capsules)) (\<lambda>num_capsules.
     bind (builder_read_libraries_loop files num_capsules) (\<lambda>(libraries, num_capsules).
     ret (library # libraries, num_capsules))))"

definition builder_read_libraries :: "ArgDataT \<Rightarrow> ('z library_state_scheme, nat option list \<times> cuint) prog" where
  "builder_read_libraries arg_data = builder_read_libraries_loop (ad_library_files arg_data) 0"

text \<open>\<open>capsules\<close> holds the first \<open>capsule_index\<close> elements of the vector, in order.\<close>

definition builder_read_capsule :: "nat \<Rightarrow> nat list \<Rightarrow> ('z library_state_scheme, nat list) prog" where
  "builder_read_capsule capsule capsules =
     bind (gets cs_capsules) (\<lambda>all. bind (index all capsule) (\<lambda>c.
     bind (for_each capsules (\<lambda>i. bind (index all i) (\<lambda>ci.
       if cp_name c = cp_name ci then error_msg ERR_SERIOUS else ret ()))) (\<lambda>_.
     bind (capsule_set_index capsule (of_nat (length capsules))) (\<lambda>_.
     bind (capsule_read capsule) (\<lambda>_.
     bind (capsule_store_contents capsule) (\<lambda>_.
     bind (capsule_close capsule) (\<lambda>_.
     ret (capsules @ [capsule]))))))))"

fun builder_read_lib_capsules ::
  "nat \<Rightarrow> nat list \<Rightarrow> nat list \<Rightarrow> ('z library_state_scheme, nat list) prog" where
  "builder_read_lib_capsules library [] capsules = ret capsules"
| "builder_read_lib_capsules library (j # js) capsules =
     bind (library_get_capsule library (of_nat j)) (\<lambda>r.
     bind (lib_capsule_at r) (\<lambda>lib_capsule.
     bind (capsule_create_string_input (lc_name lib_capsule) (lc_contents lib_capsule)) (\<lambda>capsule.
     bind (builder_read_capsule capsule capsules) (\<lambda>capsules.
     builder_read_lib_capsules library js capsules))))"

fun builder_read_all_libraries ::
  "nat option list \<Rightarrow> nat list \<Rightarrow> ('z library_state_scheme, nat list) prog" where
  "builder_read_all_libraries [] capsules = ret capsules"
| "builder_read_all_libraries (None # libraries) capsules = builder_read_all_libraries libraries capsules"
| "builder_read_all_libraries (Some library # libraries) capsules =
     bind (library_num_capsules library) (\<lambda>num.
     bind (builder_read_lib_capsules library [0..<unat num] capsules) (\<lambda>capsules.
     builder_read_all_libraries libraries capsules))"

fun builder_read_input_files :: "cstring list \<Rightarrow> nat list \<Rightarrow> ('z library_state_scheme, nat list) prog" where
  "builder_read_input_files [] capsules = ret capsules"
| "builder_read_input_files (file # files) capsules =
     bind (capsule_create_stream_input file) (\<lambda>capsule.
     bind (case capsule of
             Some capsule \<Rightarrow> builder_read_capsule capsule capsules
           | None \<Rightarrow> bind (error_msg ERR_SERIOUS) (\<lambda>_. ret capsules)) (\<lambda>capsules.
     builder_read_input_files files capsules))"

text \<open>
  The vector has a slot for every input file and every library capsule; the slots behind the last
  capsule read hold no pointer.
\<close>

definition builder_read_capsules :: "ArgDataT \<Rightarrow> ('z library_state_scheme, cuint \<times> nat option list) prog" where
  "builder_read_capsules arg_data =
     bind (builder_read_libraries arg_data) (\<lambda>(libraries, num_lib_capsules).
     let num_capsules = num_lib_capsules + of_nat (length (ad_files arg_data)) in
     bind (builder_read_all_libraries libraries []) (\<lambda>capsules.
     bind (builder_read_input_files (ad_files arg_data) capsules) (\<lambda>capsules.
     bind exit_on_error (\<lambda>_.
     ret (num_capsules, map Some capsules @ replicate (unat num_capsules - length capsules) None)))))"

definition builder_check_multi_defs :: "('z library_state_scheme, unit) prog" where
  "builder_check_multi_defs = bind (iter_shapes shape_entry_check_multi_defs ()) (\<lambda>_. exit_on_error)"

definition builder_suppress_1 :: "NStringT \<Rightarrow> bool \<Rightarrow> NameKeyT list \<Rightarrow> ('z library_state_scheme, unit) prog" where
  "builder_suppress_1 shape all names =
     bind (gets (\<lambda>s. shape_table_get (cs_shapes s) shape)) (\<lambda>entry.
     case entry of
       None \<Rightarrow> ret ()
     | Some entry \<Rightarrow>
         bind (if all then on_shape entry (iter_names name_entry_builder_suppress) else ret ()) (\<lambda>_.
         for_each names (\<lambda>key. on_shape entry (with_name key (ret ())
           (\<lambda>ne. defined (name_entry_set_definition None ne))))))"

definition builder_suppress :: "ArgDataT \<Rightarrow> ('z library_state_scheme, unit) prog" where
  "builder_suppress arg_data =
     bind (if ad_suppress_mult arg_data then iter_shapes shape_entry_suppress_mult () else ret ()) (\<lambda>_.
     bind (shape_control_iter (ad_suppresses arg_data) builder_suppress_1) (\<lambda>_. exit_on_error))"

definition builder_write_library :: "ArgDataT \<Rightarrow> cuint \<Rightarrow> nat option list \<Rightarrow> ('z library_state_scheme, unit) prog" where
  "builder_write_library arg_data num_capsules capsules =
     bind (defined (arg_data_get_output_file arg_data)) (\<lambda>output_name.
     bind (library_create_stream_output output_name) (\<lambda>library.
     bind (case library of
             Some library \<Rightarrow> bind (library_write num_capsules capsules) (\<lambda>_. library_close library)
           | None \<Rightarrow> error_msg ERR_FATAL) (\<lambda>_.
     exit_on_error)))"

definition builder_main :: "ArgDataT \<Rightarrow> ('z library_state_scheme, unit) prog" where
  "builder_main arg_data =
     bind (modify (\<lambda>s. s\<lparr>cs_units := unit_table_create, cs_shapes := shape_table_create\<rparr>)) (\<lambda>_.
     bind (builder_read_capsules arg_data) (\<lambda>(num_capsules, capsules).
     bind builder_check_multi_defs (\<lambda>_.
     bind (builder_suppress arg_data) (\<lambda>_.
     builder_write_library arg_data num_capsules capsules))))"

section \<open>Extraction and contents\<close>

definition extract_main :: "ArgDataT \<Rightarrow> ('z library_state_scheme, unit) prog" where
  "extract_main arg_data =
     bind (if ad_extract_all arg_data \<and> length (ad_files arg_data) > 1 then error_msg ERR_FATAL
           else if \<not> ad_extract_all arg_data \<and> length (ad_files arg_data) = 1 then error_msg ERR_FATAL
           else ret ()) (\<lambda>_.
     bind (index (ad_files arg_data) 0) (\<lambda>file.
     bind (library_create_stream_input file) (\<lambda>library.
     bind (case library of
             Some library \<Rightarrow>
               bind (if ad_extract_all arg_data then library_extract_all library (ad_extract_basename arg_data)
                     else library_extract library (ad_extract_basename arg_data) (ad_extract_match_base arg_data)
                            (tl (ad_files arg_data))) (\<lambda>_.
               library_close library)
           | None \<Rightarrow> error_msg ERR_SERIOUS) (\<lambda>_.
     exit_on_error))))"

definition contents_main :: "ArgDataT \<Rightarrow> ('z library_state_scheme, unit) prog" where
  "contents_main arg_data =
     bind (if length (ad_files arg_data) \<noteq> 1 then error_msg ERR_FATAL else ret ()) (\<lambda>_.
     bind (index (ad_files arg_data) 0) (\<lambda>file.
     bind (library_create_stream_input file) (\<lambda>library.
     bind (case library of
             Some library \<Rightarrow>
               bind (library_content library (ad_content_index arg_data) (ad_content_size arg_data)
                      (ad_content_version arg_data)) (\<lambda>_.
               library_close library)
           | None \<Rightarrow> error_msg ERR_SERIOUS) (\<lambda>_.
     exit_on_error))))"

end
