(* ===== verification/Io_Properties.thy ===== *)
theory Io_Properties
  imports Tdf_Codec
begin

text \<open>
  What the linker's byte level input and output promises: what is written can be read back, numbers
  that do not fit are refused, and the size that is announced is the size that is written.
\<close>

section \<open>A state to start from\<close>

text \<open>No files, no reader and an empty output.\<close>

definition reader_on :: "byte list \<Rightarrow> TDFReaderT" where
  "reader_on bytes =
     \<lparr>rd_u = RT_STRING \<lparr>rs_contents = bytes, rs_current = 0, rs_limit = length bytes, rs_name = [], rs_byte = 0\<rparr>,
      rd_byte = 0, rd_new_byte = True\<rparr>"

definition writer_empty :: TDFWriterT where
  "writer_empty = \<lparr>wr_bostream = \<lparr>bo_file = \<lparr>of_data = [], of_limit = None\<rparr>, bo_name = None\<rparr>, wr_byte = 0, wr_new_byte = True\<rparr>"

definition text_closed :: IStreamT where
  "text_closed = \<lparr>is_file = \<lparr>if_data = [], if_pos = 0, if_fail = None\<rparr>, is_buffer = [], is_current = 0, is_line = 0,
     is_name = None, is_read_last = False\<rparr>"

definition io_start :: "byte list \<Rightarrow> io_state" where
  "io_start bytes =
     \<lparr>exit_status = False, number_errors = 0, max_reported = ERROR_SEVERITY_INFORMATION,
      files_in = Map.empty, files_out = Map.empty, reader = reader_on bytes, writer = writer_empty, text_in = text_closed, written = []\<rparr>"

lemma io_start_ok [simp]:
  "wr_sound (writer (io_start bs))" "wr_new_byte (writer (io_start bs))" "bo_data (wr_bostream (writer (io_start bs))) = []"
  "rd_sound (reader (io_start bs))" "rd_new_byte (reader (io_start bs))" "rd_rest (reader (io_start bs)) = bs"
  by (simp_all add: io_start_def writer_empty_def reader_on_def wr_sound_def bo_sound_def bo_data_def rd_sound_def rd_rest_def)

section \<open>Round trips\<close>

text \<open>
  C23: Any sequence of integers written by \<^verbatim>\<open>tdf_write_int\<close> and padded to a byte boundary is read back by
  \<^verbatim>\<open>tdf_read_int\<close>, and the reader ends up exactly behind the bytes that were written.
\<close>

theorem tdf_int_roundtrip:
  fixes s :: "'z io_state_scheme"
  assumes "wr_sound (writer s)" "wr_new_byte (writer s)" "bo_data (wr_bostream (writer s)) = []"
  shows "\<exists>s'. bind (for_each ns tdf_write_int) (\<lambda>_. tdf_write_align) s = (Ret (), s') \<and>
    (\<forall>(t :: 'z io_state_scheme) rest. rd_sound (reader t) \<and> rd_new_byte (reader t) \<and> rd_rest (reader t) = bo_data (wr_bostream (writer s')) @ rest \<longrightarrow>
      (\<exists>t'. bind (collect ns (\<lambda>_. tdf_read_int)) (\<lambda>ns. bind tdf_read_align (\<lambda>_. ret ns)) t = (Ret ns, t')
        \<and> rd_rest (reader t') = rest))"
  by (rule int_codec.file_roundtrip) (use assms in \<open>simp_all add: list_all_iff\<close>)

theorem tdf_int_roundtrip_witness:
  "\<exists>bs t'. bind (collect [5, 300, UINT_MAX] (\<lambda>_. tdf_read_int)) (\<lambda>ns. bind tdf_read_align (\<lambda>_. ret ns)) (io_start bs)
     = (Ret [5, 300, UINT_MAX], t') \<and> rd_rest (reader t') = []"
  using tdf_int_roundtrip[of "io_start []" "[5, 300, UINT_MAX]"] io_start_ok
  by (metis append_Nil2)

text \<open>
  C24: Any sequence of octet strings (of fewer than $2^{32}$ bytes each) written by \<^verbatim>\<open>tdf_write_string\<close> is
  read back by \<^verbatim>\<open>tdf_read_string\<close>, wherever in a byte each of them starts.
\<close>

theorem tdf_string_roundtrip:
  fixes s :: "'z io_state_scheme"
  assumes "list_all string_ok ns" "wr_sound (writer s)" "wr_new_byte (writer s)" "bo_data (wr_bostream (writer s)) = []"
  shows "\<exists>s'. bind (for_each ns tdf_write_string) (\<lambda>_. tdf_write_align) s = (Ret (), s') \<and>
    (\<forall>(t :: 'z io_state_scheme) rest. rd_sound (reader t) \<and> rd_new_byte (reader t) \<and> rd_rest (reader t) = bo_data (wr_bostream (writer s')) @ rest \<longrightarrow>
      (\<exists>t'. bind (collect ns (\<lambda>_. tdf_read_string)) (\<lambda>ns. bind tdf_read_align (\<lambda>_. ret ns)) t = (Ret ns, t')
        \<and> rd_rest (reader t') = rest))"
  by (rule string_codec.file_roundtrip) (use assms in simp_all)

theorem tdf_string_roundtrip_witness:
  "\<exists>bs t'. bind (collect [str ''token'', [], str ''tag''] (\<lambda>_. tdf_read_string)) (\<lambda>ns. bind tdf_read_align (\<lambda>_. ret ns))
     (io_start bs) = (Ret [str ''token'', [], str ''tag''], t') \<and> rd_rest (reader t') = []"
proof -
  have "list_all string_ok [str ''token'', [], str ''tag'']" by (simp add: string_ok_def str_def)
  from tdf_string_roundtrip[OF this io_start_ok(1-3)[of "[]"]] io_start_ok(4-6) show ?thesis
    by (metis append_Nil2)
qed

text \<open>
  C22: Any sequence of external names, simple strings and unique names alike, written by \<^verbatim>\<open>tdf_write_name\<close>
  is read back by \<^verbatim>\<open>tdf_read_name\<close>.
\<close>

theorem tdf_name_roundtrip:
  fixes s :: "'z io_state_scheme"
  assumes "list_all name_ok ns" "wr_sound (writer s)" "wr_new_byte (writer s)" "bo_data (wr_bostream (writer s)) = []"
  shows "\<exists>s'. bind (for_each ns tdf_write_name) (\<lambda>_. tdf_write_align) s = (Ret (), s') \<and>
    (\<forall>(t :: 'z io_state_scheme) rest. rd_sound (reader t) \<and> rd_new_byte (reader t) \<and> rd_rest (reader t) = bo_data (wr_bostream (writer s')) @ rest \<longrightarrow>
      (\<exists>t'. bind (collect ns (\<lambda>_. tdf_read_name)) (\<lambda>ns. bind tdf_read_align (\<lambda>_. ret ns)) t = (Ret ns, t')
        \<and> rd_rest (reader t') = rest))"
  by (rule name_codec.file_roundtrip) (use assms in simp_all)

theorem tdf_name_roundtrip_witness:
  "\<exists>bs t'. bind (collect [KT_STRING (str ''main''), KT_UNIQUE [str ''a'', str ''b'']] (\<lambda>_. tdf_read_name))
     (\<lambda>ns. bind tdf_read_align (\<lambda>_. ret ns)) (io_start bs)
     = (Ret [KT_STRING (str ''main''), KT_UNIQUE [str ''a'', str ''b'']], t') \<and> rd_rest (reader t') = []"
proof -
  have "list_all name_ok [KT_STRING (str ''main''), KT_UNIQUE [str ''a'', str ''b'']]" by (simp add: string_ok_def str_def)
  from tdf_name_roundtrip[OF this io_start_ok(1-3)[of "[]"]] io_start_ok(4-6) show ?thesis
    by (metis append_Nil2)
qed

section \<open>Bounds\<close>

text \<open>
  C25: \<^verbatim>\<open>tdf_read_int\<close> on any octal digits: it returns their value when that fits in an unsigned integer,
  and reports an error and throws \<^verbatim>\<open>XX_tdf_read_error\<close> when it does not; the value never wraps around.
\<close>

theorem tdf_read_int_exact:
  assumes "rd_sound (reader s)" "rd_nibbles (reader s) = ds @ (d + 8) # rest" "\<forall>x\<in>set ds. x < 8" "d < 8"
  shows "if octal_value 0 (ds @ [d]) < 2 ^ 32
    then \<exists>r. tdf_read_int s = (Ret (of_nat (octal_value 0 (ds @ [d]))), s\<lparr>reader := r\<rparr>) \<and> rd_nibbles r = rest
    else \<exists>r. tdf_read_int s = error_throw XX_tdf_read_error (s\<lparr>reader := r\<rparr>)"
proof (cases "octal_value 0 (ds @ [d]) < 2 ^ 32")
  case True
  then obtain r w where r: "tdf_read_int_loop 0 s = (Ret w, s\<lparr>reader := r\<rparr>)"
    "unat w = octal_value 0 (ds @ [d])" "advances (reader s) (ds @ [d + 8]) r"
    using tdf_read_int_loop_sound[OF assms, of 0] by auto
  have "w = of_nat (octal_value 0 (ds @ [d]))" using r(2) [symmetric] by auto
  moreover have "rd_nibbles r = rest" using r(3) assms(2) by (simp add: advances_def)
  ultimately show ?thesis using True r(1) by (auto simp: tdf_read_int_def)
next
  case False
  then show ?thesis
    using tdf_read_int_loop_overflow[OF assms, of 0] by (simp add: tdf_read_int_def)
qed

theorem tdf_read_int_exact_witness:
  "(\<exists>r. tdf_read_int (io_start [0x1F, 0x40]) = (Ret 15, (io_start [0x1F, 0x40])\<lparr>reader := r\<rparr>) \<and> rd_nibbles r = [4, 0])
   \<and> (\<exists>r. tdf_read_int (io_start [0x40, 0x00, 0x00, 0x00, 0x00, 0x08]) =
          error_throw XX_tdf_read_error ((io_start [0x40, 0x00, 0x00, 0x00, 0x00, 0x08])\<lparr>reader := r\<rparr>))"
proof
  have n: "rd_nibbles (reader (io_start [0x1F, 0x40])) = [1] @ (7 + 8) # [4, 0]"
    by (simp add: rd_nibbles_def io_start_def reader_on_def rd_rest_def bytes_nibbles_def byte_nibbles_def)
  show "\<exists>r. tdf_read_int (io_start [0x1F, 0x40]) = (Ret 15, (io_start [0x1F, 0x40])\<lparr>reader := r\<rparr>) \<and> rd_nibbles r = [4, 0]"
    using tdf_read_int_exact[OF io_start_ok(4) n] by (simp add: octal_value_def)
  have o: "rd_nibbles (reader (io_start [0x40, 0x00, 0x00, 0x00, 0x00, 0x08])) = [4, 0, 0, 0, 0, 0, 0, 0, 0, 0, 0] @ (0 + 8) # []"
    by (simp add: rd_nibbles_def io_start_def reader_on_def rd_rest_def bytes_nibbles_def byte_nibbles_def)
  show "\<exists>r. tdf_read_int (io_start [0x40, 0x00, 0x00, 0x00, 0x00, 0x08]) =
     error_throw XX_tdf_read_error ((io_start [0x40, 0x00, 0x00, 0x00, 0x00, 0x08])\<lparr>reader := r\<rparr>)"
    using tdf_read_int_exact[OF io_start_ok(4) o] by (simp add: octal_value_def)
qed

text \<open>
  C26: Input that ends before the last digit of an integer is reported as an error, however long the run
  of digits is: \<^verbatim>\<open>tdf_read_int\<close> never returns and never loops.
\<close>

theorem tdf_read_int_unterminated:
  assumes "rd_sound (reader s)" "\<forall>x\<in>set (rd_nibbles (reader s)). x < 8"
  shows "\<exists>r. tdf_read_int s = error_throw XX_tdf_read_error (s\<lparr>reader := r\<rparr>)"
  unfolding tdf_read_int_def by (rule tdf_read_int_loop_unterminated [OF assms])

theorem tdf_read_int_unterminated_witness:
  "\<exists>r. tdf_read_int (io_start [0x12, 0x34]) = error_throw XX_tdf_read_error ((io_start [0x12, 0x34])\<lparr>reader := r\<rparr>)"
  by (rule tdf_read_int_unterminated [OF io_start_ok(4)])
    (simp add: rd_nibbles_def io_start_def reader_on_def rd_rest_def bytes_nibbles_def byte_nibbles_def)

text \<open>
  \<^verbatim>\<open>tdf_int_size\<close> predicts the number of half bytes that \<^verbatim>\<open>tdf_write_int\<close> writes.
\<close>

lemma tdf_int_size_exact:
  assumes "wr_sound (writer s)"
  shows "\<exists>w. tdf_write_int v s = (Ret (), s\<lparr>writer := w\<rparr>) \<and>
    length (wr_nibbles w) = length (wr_nibbles (writer s)) + tdf_int_size v"
proof -
  obtain w where "tdf_write_int v s = (Ret (), s\<lparr>writer := w\<rparr>)" "emits (writer s) (code_int v (wr_new_byte (writer s))) w"
    by (rule writesD [OF writes_int assms])
  then show ?thesis by (auto simp: emits_def code_int_def tdf_int_size_nibbles)
qed

section \<open>Text input\<close>

text \<open>
  C27: The buffered text stream is the file: after \<^verbatim>\<open>istream_open\<close>, any number of calls of
  \<^verbatim>\<open>istream_read_char\<close> return the characters of the file in order, null characters and files longer than
  the buffer included, and then report the end of the file every time; the line number is one more
  than the number of newlines read.
\<close>

theorem istream_reads_file:
  assumes "fs name = Some f" "if_fail f = None"
  shows "\<exists>i' j. istream_open fs name i = (Ret True, i') \<and>
     next_bytes istream_read_char n i' = (Ret (map Some (take n (if_data f)) @ replicate (n - length (if_data f)) None), j) \<and>
     istream_line j = 1 + of_nat (length (filter (\<lambda>c. c = 10) (take n (if_data f))))"
proof -
  let ?i = "i\<lparr>is_file := f\<lparr>if_pos := 0\<rparr>, is_buffer := [], is_line := 1, is_name := Some name\<rparr>"
  obtain i' where i: "X__istream_fill_buffer ?i = (Ret (), i')" "is_sound i'" "is_rest i' = if_data f" "is_line i' = 1"
    using fill_buffer_sound[of ?i] assms(2) by auto
  have "istream_open fs name i = (Ret True, i')"
    using assms(1) i(1) by (simp add: istream_open_def bind_def ret_def)
  with istream_chars.next_bytes_rest[OF i(2), of n] read_chars_line[OF i(2), of n] i(3,4) show ?thesis
    by (auto simp: istream_line_def)
qed

theorem istream_reads_file_witness:
  "\<exists>i' j. istream_open [[114] \<mapsto> \<lparr>if_data = [97, 10, 0], if_pos = 0, if_fail = None\<rparr>] [114] text_closed = (Ret True, i') \<and>
     next_bytes istream_read_char 5 i' = (Ret [Some 97, Some 10, Some 0, None, None], j) \<and> istream_line j = 2"
proof -
  let ?d = "[97, 10, 0] :: byte list"
  have "map Some (take 5 ?d) @ replicate (5 - length ?d) None = [Some 97, Some 10, Some 0, None, None]"
    and "1 + of_nat (length (filter (\<lambda>c. c = 10) (take 5 ?d))) = (2 :: cuint)"
    by code_simp+
  then show ?thesis
    using istream_reads_file[of "[[114] \<mapsto> \<lparr>if_data = ?d, if_pos = 0, if_fail = None\<rparr>]" "[114]" _ text_closed 5] by simp
qed

end
