(* ===== verification/String_Properties.thy ===== *)
theory String_Properties
  imports Name_Key Errors
begin

text \<open>
  What the string layer and the error counters promise their callers.
\<close>

section \<open>Dynamic strings\<close>

text \<open>A call of \<^verbatim>\<open>dstring_append_char\<close> (left) or \<^verbatim>\<open>dstring_append_nstring\<close> (right), and a sequence of calls.\<close>

fun dstring_append_item :: "DStringT \<Rightarrow> byte + NStringT \<Rightarrow> DStringT option" where
  "dstring_append_item d (Inl c) = dstring_append_char d c"
| "dstring_append_item d (Inr ns) = dstring_append_nstring d ns"

fun dstring_append_items :: "DStringT \<Rightarrow> (byte + NStringT) list \<Rightarrow> DStringT option" where
  "dstring_append_items d [] = Some d"
| "dstring_append_items d (i # is) = Option.bind (dstring_append_item d i) (\<lambda>d. dstring_append_items d is)"

definition item_bytes :: "byte + NStringT \<Rightarrow> byte list" where
  "item_bytes i = (case i of Inl c \<Rightarrow> [c] | Inr ns \<Rightarrow> ns)"

text \<open>
  C34: A dynamic string is the list of the bytes appended to it: any sequence of appends, single
  characters and strings mixed, stays inside the buffer it grows and ends with the old contents
  followed by everything appended, in order.
\<close>

theorem dstring_appends:
  assumes "dstring_wf d"
  shows "\<exists>d'. dstring_append_items d is = Some d' \<and> dstring_wf d'
    \<and> dstring_to_nstring d' = dstring_to_nstring d @ concat (map item_bytes is)"
  using assms
proof (induction "is" arbitrary: d)
  case Nil
  then show ?case by simp
next
  case (Cons i "is")
  obtain e where "dstring_append_item d i = Some e" "dstring_wf e" "dstring_abs e = dstring_abs d @ item_bytes i"
    using dstring_append_char_ok[OF Cons.prems] dstring_append_bytes_ok[OF Cons.prems]
    by (cases i) (force simp: item_bytes_def dstring_append_nstring_def)+
  with Cons.IH[of e] show ?case by auto
qed

theorem dstring_appends_witness:
  "\<exists>d'. dstring_append_items dstring_init [Inl 97, Inr (replicate 200 98), Inl 99] = Some d' \<and> dstring_wf d'
    \<and> dstring_to_nstring d' = 97 # replicate 200 98 @ [99]"
  using dstring_appends[OF dstring_wf_init(1), of "[Inl 97, Inr (replicate 200 98), Inl 99]"]
  by (simp add: item_bytes_def)

section \<open>Numbers\<close>

text \<open>
  C35: \<^verbatim>\<open>cstring_to_unsigned\<close> accepts exactly the decimal numerals whose value fits in an unsigned integer,
  and delivers that value: it never wraps around and never accepts another character.
\<close>

theorem cstring_to_unsigned_correct:
  "cstring_to_unsigned cs =
     (if cs \<noteq> [] \<and> list_all is_digit cs \<and> decimal_value 0 cs < 2 ^ 32
      then Some (of_nat (decimal_value 0 cs)) else None)"
  by (simp add: cstring_to_unsigned_def cstring_to_unsigned_loop_eq list_all_iff)

section \<open>Comparison\<close>

text \<open>
  C36: \<^verbatim>\<open>nstring_compare\<close> is the lexicographic order of the unsigned bytes, with \<^verbatim>\<open>CMP_EQ\<close> for equal strings
  only; in particular it agrees with \<^verbatim>\<open>nstring_equal\<close> and swapping the arguments swaps the result.
\<close>

theorem nstring_compare_correct:
  "nstring_compare a b = (if a < b then CMP_LT else if a = b then CMP_EQ else CMP_GT)
   \<and> (nstring_equal a b \<longleftrightarrow> nstring_compare a b = CMP_EQ)
   \<and> (nstring_compare a b = CMP_LT \<longleftrightarrow> nstring_compare b a = CMP_GT)"
  by (auto simp: nstring_compare_lex)

section \<open>Names on the command line\<close>

text \<open>
  C37: A simple external name printed by \<^verbatim>\<open>write_name_key\<close> is parsed back by \<^verbatim>\<open>name_key_parse_cstring\<close>,
  whatever special characters it contains (a byte 0 excepted, which no C string can hold).
\<close>

theorem name_key_print_parse:
  assumes "0 \<notin> set ns"
  shows "name_key_parse_cstring (write_name_key (KT_STRING ns)) = POk (KT_STRING ns)"
  by (rule name_key_parse_cstring_write)

theorem name_key_print_parse_witness:
  "name_key_parse_cstring (write_name_key (KT_STRING (str ''[a.b]''))) = POk (KT_STRING (str ''[a.b]''))"
  by (rule name_key_print_parse) (simp add: str_def)

text \<open>
  C38: No unique name can be given on the command line: whatever follows the opening bracket,
  \<^verbatim>\<open>name_key_parse_cstring\<close> does not deliver a name, because the closing bracket that ends the loop is
  still there when the code checks that the string is used up.
\<close>

theorem name_key_parse_unique_fails:
  "name_key_parse_cstring (91 # cs) \<noteq> POk key"
  using name_key_parse_cstring_unique_never by (simp add: name_key_parse_cstring_def)

section \<open>Errors\<close>

text \<open>
  The twentieth serious error ends the program: of a run of serious errors from the start, fewer
  than twenty are all reported and counted, and with twenty or more the process exits at the
  twentieth.
\<close>

lemma serious_error_limit:
  "for_each [0..<n] (\<lambda>_. error_msg ERR_SERIOUS) error_start =
     (if n < 20 then Ret () else Raise Exit_Failure,
      error_start\<lparr>exit_status := 0 < n, number_errors := min n 20\<rparr>)"
proof -
  have run: "for_each xs (\<lambda>_. error_msg ERR_SERIOUS) s =
     (if number_errors s + length xs < 20 then Ret () else Raise Exit_Failure,
      if xs = [] then s else s\<lparr>exit_status := True, number_errors := min (number_errors s + length xs) 20\<rparr>)"
    if "number_errors s < 20" for xs :: "nat list" and s :: error_state
    using that
  proof (induction xs arbitrary: s)
    case Nil
    then show ?case by (simp add: ret_def)
  next
    case (Cons x xs)
    show ?case
      using Cons.IH[of "s\<lparr>exit_status := True, number_errors := Suc (number_errors s)\<rparr>"] Cons.prems
      by (cases "number_errors s + 1 < 20") (auto simp: error_msg_serious bind_def maximum_errors_def)
  qed
  have "number_errors error_start < 20" by (simp add: error_start_def)
  from run[OF this, of "[0..<n]"] show ?thesis by (cases n) (simp_all add: error_start_def)
qed

end
