(* ===== verification/Shape_Facts.thy ===== *)
theory Shape_Facts
  imports Shapes
begin

text \<open>
  The invariant of shape entries, and that adding a name keeps it.
\<close>

section \<open>Invariant of a shape entry\<close>

text \<open>
  In an entry whose renames have been resolved: names that are direct have different identifiers
  below the counter; a name with the \<^verbatim>\<open>U_DEFD\<close> usage has a definition; a resolved rename points to an
  entry that is not a rename; the queue holds direct names.
\<close>

fun name_wf :: "NameTableT \<Rightarrow> cuint \<Rightarrow> NameEntryTypeT \<Rightarrow> bool" where
  "name_wf t id_count (NT_DIRECT d) \<longleftrightarrow> nd_id d < id_count"
| "name_wf t id_count (NT_INDIRECT_DONE (Some q)) \<longleftrightarrow>
     q < length (entries t) \<and> \<not> name_entry_is_indirect (entries t ! q)"
| "name_wf t id_count (NT_INDIRECT_DONE None) \<longleftrightarrow> True"
| "name_wf t id_count NT_PLACEHOLDER \<longleftrightarrow> True"
| "name_wf t id_count (NT_INDIRECT _) \<longleftrightarrow> False"
| "name_wf t id_count (NT_INDIRECT_CYCLING _) \<longleftrightarrow> False"

definition ids_distinct :: "NameTableT \<Rightarrow> bool" where
  "ids_distinct t \<longleftrightarrow> (\<forall>r<length (entries t). \<forall>r'<length (entries t). \<forall>d d'.
     ne_u (entries t ! r) = NT_DIRECT d \<longrightarrow> ne_u (entries t ! r') = NT_DIRECT d' \<longrightarrow> nd_id d = nd_id d' \<longrightarrow> r = r')"

definition shape_entry_wf :: "ShapeEntryT \<Rightarrow> bool" where
  "shape_entry_wf e \<longleftrightarrow> name_table_wf (se_names e) \<and> ids_distinct (se_names e) \<and>
     (\<forall>r<length (entries (se_names e)). name_wf (se_names e) (se_id_count e) (ne_u (entries (se_names e) ! r))) \<and>
     (\<forall>r\<in>set (se_queue e). r < length (entries (se_names e)) \<and> name_entry_is_direct (entries (se_names e) ! r))"

lemma name_entry_kind_simps [simp]:
  "name_entry_is_direct \<lparr>ne_key = k, ne_u = NT_DIRECT d\<rparr>"
  "name_entry_is_direct (n\<lparr>ne_u := NT_DIRECT d\<rparr>)"
  "\<not> name_entry_is_indirect \<lparr>ne_key = k, ne_u = NT_DIRECT d\<rparr>"
  "\<not> name_entry_is_indirect (n\<lparr>ne_u := NT_DIRECT d\<rparr>)"
  "ne_u n = NT_PLACEHOLDER \<Longrightarrow> \<not> name_entry_is_direct n"
  "ne_u n = NT_PLACEHOLDER \<Longrightarrow> \<not> name_entry_is_indirect n"
  "name_entry_is_direct n \<Longrightarrow> \<not> name_entry_is_indirect n"
  "ne_u n = NT_DIRECT d \<Longrightarrow> name_entry_is_direct n"
  by (simp_all add: name_entry_is_direct_def name_entry_is_indirect_def split: NameEntryTypeT.splits)

lemma is_direct_iff: "name_entry_is_direct n \<longleftrightarrow> (\<exists>d. ne_u n = NT_DIRECT d)"
  by (simp add: name_entry_is_direct_def split: NameEntryTypeT.splits)

lemma shape_entry_next_id_eq:
  "shape_entry_next_id e s = (if se_id_count e = UINT_MAX then (Raise Exit_Failure, s\<lparr>exit_status := True\<rparr>)
     else (Ret (se_id_count e, e\<lparr>se_id_count := se_id_count e + 1\<rparr>), s))"
  by (simp add: shape_entry_next_id_def error_msg_fatal bind_def ret_def)

lemma less_inc_id: "(c::cuint) \<noteq> UINT_MAX \<Longrightarrow> c < c + 1" "c \<noteq> UINT_MAX \<Longrightarrow> x < c \<Longrightarrow> x < c + 1"
proof -
  assume c: "c \<noteq> UINT_MAX"
  then have "unat c \<noteq> unat UINT_MAX" by (metis word_eq_unatI)
  then have "unat c < 4294967295" using unat_less_2_32[of c] by (simp add: unat_UINT_MAX)
  then have u: "unat (c + 1) = unat c + 1" by (simp add: unat_word_ariths)
  then show "c < c + 1" by (simp add: word_less_nat_alt)
  then show "x < c \<Longrightarrow> x < c + 1" by (rule order.strict_trans [rotated])
qed

definition fresh_direct :: "cuint \<Rightarrow> NameDirectT" where
  "fresh_direct c = \<lparr>nd_id = c, nd_use = 0, nd_definition = None, nd_lib_definition = None\<rparr>"

lemma ids_distinct_add:
  assumes "ids_distinct t" "r < length (entries t)"
    and "\<And>r' d. r' < length (entries t) \<Longrightarrow> r' \<noteq> r \<Longrightarrow> ne_u (entries t ! r') = NT_DIRECT d \<Longrightarrow> nd_id d \<noteq> c"
  shows "ids_distinct (table_set r ((entries t ! r)\<lparr>ne_u := NT_DIRECT (fresh_direct c)\<rparr>) t)"
  using assms by (fastforce simp: ids_distinct_def fresh_direct_def nth_list_update split: if_splits)

lemma name_wf_mono:
  assumes "name_wf t c u" "c \<le> c'"
    and "\<And>q. q < length (entries t) \<Longrightarrow> \<not> name_entry_is_indirect (entries t ! q) \<Longrightarrow>
      q < length (entries t') \<and> \<not> name_entry_is_indirect (entries t' ! q)"
  shows "name_wf t' c' u"
  using assms by (induction t c u rule: name_wf.induct) auto

lemma make_direct_wf:
  assumes wf: "shape_entry_wf e" and q: "q < length (entries (se_names e))"
    and pl: "ne_u (entries (se_names e) ! q) = NT_PLACEHOLDER" and c: "se_id_count e \<noteq> UINT_MAX"
  shows "shape_entry_wf (shape_entry_add_to_list (e\<lparr>se_id_count := se_id_count e + 1,
     se_names := table_set q ((entries (se_names e) ! q)\<lparr>ne_u := NT_DIRECT (fresh_direct (se_id_count e))\<rparr>) (se_names e)\<rparr>) q)"
proof -
  let ?t = "se_names e" and ?c = "se_id_count e"
  let ?n = "(entries ?t ! q)\<lparr>ne_u := NT_DIRECT (fresh_direct ?c)\<rparr>"
  let ?t' = "table_set q ?n ?t"
  have nm: "name_wf ?t ?c (ne_u (entries ?t ! r))" if "r < length (entries ?t)" for r
    using wf that by (simp add: shape_entry_wf_def)
  have "name_table_wf ?t'" using wf q by (intro name_tbl.set_wf) (simp_all add: shape_entry_wf_def)
  moreover have "ids_distinct ?t'"
    using wf q nm by (intro ids_distinct_add) (fastforce simp: shape_entry_wf_def)+
  moreover have "name_wf ?t' (?c + 1) (ne_u (entries ?t' ! r))" if "r < length (entries ?t)" for r
  proof (cases "r = q")
    case True
    then show ?thesis using q less_inc_id(1)[OF c] by (simp add: fresh_direct_def)
  next
    case False
    have "name_wf ?t' (?c + 1) (ne_u (entries ?t ! r))"
      using nm[OF that] less_imp_le[OF less_inc_id(1)[OF c]] by (rule name_wf_mono) (use q in \<open>auto simp: nth_list_update\<close>)
    with False show ?thesis by simp
  qed
  moreover have "\<forall>r\<in>set (se_queue e @ [q]). r < length (entries ?t') \<and> name_entry_is_direct (entries ?t' ! r)"
    using wf q by (auto simp: shape_entry_wf_def nth_list_update)
  ultimately show ?thesis
    using wf by (simp add: shape_entry_wf_def shape_entry_add_to_list_def)
qed

lemma create_direct_wf:
  assumes wf: "shape_entry_wf e" and new: "name_table_find (se_names e) k = None" and c: "se_id_count e \<noteq> UINT_MAX"
  shows "shape_entry_wf (shape_entry_add_to_list (e\<lparr>se_id_count := se_id_count e + 1,
     se_names := name_tbl.insert_entry \<lparr>ne_key = k, ne_u = NT_DIRECT (fresh_direct (se_id_count e))\<rparr> (se_names e)\<rparr>)
     (length (entries (se_names e))))"
proof -
  let ?t = "se_names e" and ?c = "se_id_count e"
  let ?n = "\<lparr>ne_key = k, ne_u = NT_DIRECT (fresh_direct ?c)\<rparr>"
  let ?t' = "name_tbl.insert_entry ?n ?t"
  have nm: "name_wf ?t ?c (ne_u (entries ?t ! r))" if "r < length (entries ?t)" for r
    using wf that by (simp add: shape_entry_wf_def)
  have "name_table_wf ?t'" using wf new by (intro name_tbl.insert_wf) (simp_all add: shape_entry_wf_def)
  moreover have "ids_distinct ?t'"
    using wf nm unfolding ids_distinct_def
    by (fastforce simp: shape_entry_wf_def ids_distinct_def nth_append fresh_direct_def less_Suc_eq split: if_splits)
  moreover have "name_wf ?t' (?c + 1) (ne_u (entries ?t' ! r))" if "r < length (entries ?t')" for r
  proof (cases "r = length (entries ?t)")
    case True
    then show ?thesis using less_inc_id(1)[OF c] by (simp add: fresh_direct_def)
  next
    case False
    then have r: "r < length (entries ?t)" using that by simp
    have "name_wf ?t' (?c + 1) (ne_u (entries ?t ! r))"
      using nm[OF r] less_imp_le[OF less_inc_id(1)[OF c]] by (rule name_wf_mono) (auto simp: nth_append)
    with r show ?thesis by (simp add: nth_append)
  qed
  moreover have "\<forall>r\<in>set (se_queue e @ [length (entries ?t)]).
    r < length (entries ?t') \<and> name_entry_is_direct (entries ?t' ! r)"
    using wf by (auto simp: shape_entry_wf_def nth_append)
  ultimately show ?thesis
    using wf by (simp add: shape_entry_wf_def shape_entry_add_to_list_def)
qed


section \<open>Adding a name\<close>

text \<open>How one shape entry may grow into another: entries stay, place holders may become direct.\<close>

definition shape_grows :: "ShapeEntryT \<Rightarrow> ShapeEntryT \<Rightarrow> bool" where
  "shape_grows e e' \<longleftrightarrow> se_key e' = se_key e \<and> se_id_count e \<le> se_id_count e' \<and>
     length (entries (se_names e)) \<le> length (entries (se_names e')) \<and>
     (\<forall>r<length (entries (se_names e)). ne_key (entries (se_names e') ! r) = ne_key (entries (se_names e) ! r) \<and>
        (ne_u (entries (se_names e) ! r) \<noteq> NT_PLACEHOLDER \<longrightarrow>
           ne_u (entries (se_names e') ! r) = ne_u (entries (se_names e) ! r)))"

lemma shape_grows_refl: "shape_grows e e"
  by (simp add: shape_grows_def)

lemma name_table_add_create:
  assumes "name_table_find (se_names e) k = None" "se_id_count e \<noteq> UINT_MAX"
  shows "name_table_add k e s = (Ret (length (entries (se_names e)),
     shape_entry_add_to_list (e\<lparr>se_id_count := se_id_count e + 1,
       se_names := name_tbl.insert_entry \<lparr>ne_key = k, ne_u = NT_DIRECT (fresh_direct (se_id_count e))\<rparr> (se_names e)\<rparr>)
       (length (entries (se_names e)))), s)"
  using assms
  by (simp add: name_table_add_def name_entry_create_direct_def shape_entry_next_id_eq table_alloc_def
      shape_entry_add_to_list_def fresh_direct_def name_table_link [symmetric] bind_def ret_def)

lemma name_entry_make_direct_eq:
  assumes "ne_u (entries (se_names e) ! q) = NT_PLACEHOLDER" "se_id_count e \<noteq> UINT_MAX"
  shows "name_entry_make_direct q e s = (Ret (shape_entry_add_to_list (e\<lparr>se_id_count := se_id_count e + 1,
     se_names := table_set q ((entries (se_names e) ! q)\<lparr>ne_u := NT_DIRECT (fresh_direct (se_id_count e))\<rparr>) (se_names e)\<rparr>) q), s)"
  using assms
  by (simp add: name_entry_make_direct_def shape_entry_next_id_eq bind_def check_def ret_def
      name_entry_is_place_def fresh_direct_def Let_def)

lemma name_entry_make_direct_full:
  "ne_u (entries (se_names e) ! q) = NT_PLACEHOLDER \<Longrightarrow> se_id_count e = UINT_MAX \<Longrightarrow>
     name_entry_make_direct q e s = (Raise Exit_Failure, s\<lparr>exit_status := True\<rparr>)"
  by (simp add: name_entry_make_direct_def shape_entry_next_id_eq bind_def check_def name_entry_is_place_def)

text \<open>Where a name that is already in the table ends up.\<close>

definition name_target :: "NameTableT \<Rightarrow> nat \<Rightarrow> nat option" where
  "name_target t r = (case ne_u (entries t ! r) of NT_INDIRECT_DONE x \<Rightarrow> x | _ \<Rightarrow> Some r)"

lemma name_target_wf:
  assumes "shape_entry_wf e" "name_table_find (se_names e) k = Some r" "name_target (se_names e) r = Some q"
  shows "q < length (entries (se_names e)) \<and> (ne_u (entries (se_names e) ! q) = NT_PLACEHOLDER
     \<or> name_entry_is_direct (entries (se_names e) ! q))"
proof -
  have r: "r < length (entries (se_names e))"
    using name_table_find_lt[of "se_names e"] assms by (auto simp: shape_entry_wf_def)
  have w: "name_wf (se_names e) (se_id_count e) (ne_u (entries (se_names e) ! p))"
    if "p < length (entries (se_names e))" for p
    using assms that by (simp add: shape_entry_wf_def)
  have q: "q < length (entries (se_names e)) \<and> \<not> name_entry_is_indirect (entries (se_names e) ! q)"
    using w[OF r] assms(3) r
    by (cases "ne_u (entries (se_names e) ! r)") (auto simp: name_target_def name_entry_is_indirect_def)
  then show ?thesis
    by (cases "ne_u (entries (se_names e) ! q)") (auto simp: name_entry_is_indirect_def)
qed

lemma name_table_add_found:
  assumes "shape_entry_wf e" "name_table_find (se_names e) k = Some r"
  shows "name_table_add k e s =
     (case name_target (se_names e) r of
        None \<Rightarrow> (Raise Undefined, s)
      | Some q \<Rightarrow> if ne_u (entries (se_names e) ! q) = NT_PLACEHOLDER
                  then bind (name_entry_make_direct q e) (\<lambda>e. ret (q, e)) s else (Ret (q, e), s))"
proof -
  have "r < length (entries (se_names e))"
    using name_table_find_lt[of "se_names e"] assms by (auto simp: shape_entry_wf_def)
  then have "name_wf (se_names e) (se_id_count e) (ne_u (entries (se_names e) ! r))"
    using assms by (simp add: shape_entry_wf_def)
  with assms(2) show ?thesis
    by (cases "ne_u (entries (se_names e) ! r)")
      (auto simp: name_table_add_def name_target_def name_entry_is_indirect_def name_entry_get_indirect_def
        name_entry_is_place_def bind_def ret_def split: option.splits)
qed

text \<open>
  Adding a name: it returns a direct entry which the table then finds under the key, keeps the
  invariant and the other entries, and leaves the error state alone.
\<close>

lemma name_table_add_spec:
  assumes wf: "shape_entry_wf e" and res: "name_table_add k e s = (Ret (r, e'), s')"
  shows "s' = s \<and> shape_entry_wf e' \<and> shape_grows e e' \<and> r < length (entries (se_names e'))
    \<and> name_entry_is_direct (entries (se_names e') ! r) \<and> name_table_get (se_names e') k = Some (Some r)"
proof (cases "name_table_find (se_names e) k")
  case None
  show ?thesis
  proof (cases "se_id_count e = UINT_MAX")
    case True
    with None res show ?thesis
      by (simp add: name_table_add_def name_entry_create_direct_def shape_entry_next_id_eq bind_def)
  next
    case False
    have nwf: "name_table_wf (se_names e)" using wf by (simp add: shape_entry_wf_def)
    let ?n = "\<lparr>ne_key = k, ne_u = NT_DIRECT (fresh_direct (se_id_count e))\<rparr>"
    have "name_table_find (name_tbl.insert_entry ?n (se_names e)) k = Some (length (entries (se_names e)))"
      using name_tbl.get_insert[OF nwf, of ?n k] None by simp
    with create_direct_wf[OF wf None False] res name_table_add_create[OF None False, of s] less_inc_id(1)[OF False]
    show ?thesis
      by (auto simp: shape_grows_def shape_entry_add_to_list_def nth_append name_table_get_def
          name_entry_is_place_def)
  qed
next
  case (Some r0)
  note eq = name_table_add_found[OF wf Some, of s]
  have nwf: "name_table_wf (se_names e)" using wf by (simp add: shape_entry_wf_def)
  from res eq obtain q where q: "name_target (se_names e) r0 = Some q" by (cases "name_target (se_names e) r0") auto
  note qwf = name_target_wf[OF wf Some q]
  have r0: "r0 < length (entries (se_names e))" using name_table_find_lt[OF nwf Some] by simp
  show ?thesis
  proof (cases "ne_u (entries (se_names e) ! q) = NT_PLACEHOLDER")
    case False
    then have dir: "name_entry_is_direct (entries (se_names e) ! q)" using qwf by simp
    have "name_table_get (se_names e) k = Some (Some q)"
      using Some q dir False
      by (auto simp: name_table_get_def name_target_def name_entry_is_indirect_def name_entry_get_indirect_def
          name_entry_is_place_def is_direct_iff split: NameEntryTypeT.splits)
    with False res eq q qwf dir wf show ?thesis by (simp add: shape_grows_refl)
  next
    case pl: True
    show ?thesis
    proof (cases "se_id_count e = UINT_MAX")
      case True
      with pl res eq q show ?thesis by (simp add: name_entry_make_direct_full bind_def)
    next
      case False
      let ?n = "(entries (se_names e) ! q)\<lparr>ne_u := NT_DIRECT (fresh_direct (se_id_count e))\<rparr>"
      let ?e = "shape_entry_add_to_list (e\<lparr>se_id_count := se_id_count e + 1, se_names := table_set q ?n (se_names e)\<rparr>) q"
      have e': "r = q" "e' = ?e" "s' = s"
        using pl res eq q name_entry_make_direct_eq[OF pl False, of s] by (auto simp: bind_def ret_def)
      have "name_table_find (se_names ?e) k = Some r0"
        using Some qwf name_tbl.get_set[OF nwf, of q ?n k] by (simp add: shape_entry_add_to_list_def)
      moreover have "name_target (se_names ?e) r0 = Some q"
        using q qwf by (cases "r0 = q")
          (auto simp: name_target_def shape_entry_add_to_list_def nth_list_update)
      ultimately have "name_table_get (se_names ?e) k = Some (Some q)"
        using qwf r0 by (cases "r0 = q")
          (auto simp: name_table_get_def name_target_def name_entry_is_indirect_def name_entry_get_indirect_def
            name_entry_is_place_def shape_entry_add_to_list_def split: NameEntryTypeT.splits)
      with e' make_direct_wf[OF wf _ pl False] qwf pl less_inc_id(1)[OF False] show ?thesis
        by (auto simp: shape_grows_def shape_entry_add_to_list_def nth_list_update)
    qed
  qed
qed


section \<open>Safe entries\<close>

text \<open>
  An entry on which the operations cannot go wrong: no rename leads nowhere, and a name that is
  marked as defined has a definition.
\<close>

definition shape_entry_safe :: "ShapeEntryT \<Rightarrow> bool" where
  "shape_entry_safe e \<longleftrightarrow> shape_entry_wf e \<and> (\<forall>r<length (entries (se_names e)).
     ne_u (entries (se_names e) ! r) \<noteq> NT_INDIRECT_DONE None \<and>
     (\<forall>d. ne_u (entries (se_names e) ! r) = NT_DIRECT d \<longrightarrow> nd_use d AND U_DEFD \<noteq> 0 \<longrightarrow> nd_definition d \<noteq> None))"

lemma shape_entry_create_safe: "shape_entry_safe (shape_entry_create k)"
  by (simp add: shape_entry_safe_def shape_entry_wf_def shape_entry_create_def name_table_create_def
      name_tbl.create_wf ids_distinct_def) (simp add: table_create_def)

lemma name_table_add_outcome:
  assumes "shape_entry_safe e"
  shows "(\<exists>r e'. name_table_add k e s = (Ret (r, e'), s) \<and> shape_entry_safe e')
    \<or> name_table_add k e s = (Raise Exit_Failure, s\<lparr>exit_status := True\<rparr>)"
proof -
  have wf: "shape_entry_wf e" using assms by (simp add: shape_entry_safe_def)
  have nwf: "name_table_wf (se_names e)" using wf by (simp add: shape_entry_wf_def)
  have safe: "shape_entry_safe e'" if "name_table_add k e s = (Ret (r, e'), s')"
    "\<And>p. p < length (entries (se_names e')) \<Longrightarrow> p < length (entries (se_names e)) \<and> ne_u (entries (se_names e') ! p) = ne_u (entries (se_names e) ! p)
      \<or> ne_u (entries (se_names e') ! p) = NT_DIRECT (fresh_direct (se_id_count e))" for r e' s'
    using name_table_add_spec[OF wf that(1)] that(2) assms
    by (fastforce simp: shape_entry_safe_def fresh_direct_def)
  show ?thesis
  proof (cases "name_table_find (se_names e) k")
    case None
    show ?thesis
    proof (cases "se_id_count e = UINT_MAX")
      case True
      with None show ?thesis
        by (simp add: name_table_add_def name_entry_create_direct_def shape_entry_next_id_eq bind_def)
    next
      case False
      note add = name_table_add_create[OF None False, of s]
      show ?thesis
        using add safe[OF add] by (auto simp: shape_entry_add_to_list_def nth_append)
    qed
  next
    case (Some r0)
    have r0: "r0 < length (entries (se_names e))" using name_table_find_lt[OF nwf Some] by simp
    note eq = name_table_add_found[OF wf Some, of s]
    have "ne_u (entries (se_names e) ! r0) \<noteq> NT_INDIRECT_DONE None"
      using assms r0 by (simp add: shape_entry_safe_def)
    then obtain q where q: "name_target (se_names e) r0 = Some q"
      by (cases "ne_u (entries (se_names e) ! r0)") (auto simp: name_target_def)
    show ?thesis
    proof (cases "ne_u (entries (se_names e) ! q) = NT_PLACEHOLDER")
      case False
      with eq q assms show ?thesis by simp
    next
      case pl: True
      show ?thesis
      proof (cases "se_id_count e = UINT_MAX")
        case True
        with pl eq q show ?thesis by (simp add: name_entry_make_direct_full bind_def)
      next
        case False
        have add: "name_table_add k e s = (Ret (q, shape_entry_add_to_list (e\<lparr>se_id_count := se_id_count e + 1,
            se_names := table_set q ((entries (se_names e) ! q)\<lparr>ne_u := NT_DIRECT (fresh_direct (se_id_count e))\<rparr>) (se_names e)\<rparr>) q), s)"
          using pl eq q name_entry_make_direct_eq[OF pl False, of s] by (simp add: bind_def ret_def)
        show ?thesis
          using add safe[OF add] name_target_wf[OF wf Some q]
          by (auto simp: shape_entry_add_to_list_def nth_list_update)
      qed
    qed
  qed
qed

section \<open>Changing a direct name\<close>

lemma direct_update_Some:
  "direct_update f n = Some n' \<longleftrightarrow> (\<exists>d. ne_u n = NT_DIRECT d \<and> n' = n\<lparr>ne_u := NT_DIRECT (f d)\<rparr>)"
  by (auto simp: direct_update_def direct_def split: NameEntryTypeT.splits)

text \<open>A change that keeps the identifier keeps the invariant.\<close>

lemma shape_entry_wf_direct:
  assumes wf: "shape_entry_wf e" and r: "r < length (entries (se_names e))"
    and d: "ne_u (entries (se_names e) ! r) = NT_DIRECT d" and id: "nd_id d' = nd_id d"
  shows "shape_entry_wf (e\<lparr>se_names := table_set r ((entries (se_names e) ! r)\<lparr>ne_u := NT_DIRECT d'\<rparr>) (se_names e)\<rparr>)"
proof -
  let ?t = "se_names e" and ?n = "(entries (se_names e) ! r)\<lparr>ne_u := NT_DIRECT d'\<rparr>"
  let ?t' = "table_set r ?n ?t"
  have "name_table_wf ?t'" using wf r by (intro name_tbl.set_wf) (simp_all add: shape_entry_wf_def)
  moreover have "ids_distinct ?t'"
    using wf r d id by (fastforce simp: shape_entry_wf_def ids_distinct_def nth_list_update split: if_splits)
  moreover have "name_wf ?t' (se_id_count e) (ne_u (entries ?t' ! p))" if "p < length (entries ?t)" for p
  proof (cases "p = r")
    case True
    have "name_wf ?t (se_id_count e) (NT_DIRECT d)"
      using wf r d by (metis shape_entry_wf_def)
    with True r id show ?thesis by simp
  next
    case False
    have "name_wf ?t (se_id_count e) (ne_u (entries ?t ! p))" using wf that by (simp add: shape_entry_wf_def)
    then have "name_wf ?t' (se_id_count e) (ne_u (entries ?t ! p))"
      by (rule name_wf_mono) (use r in \<open>auto simp: nth_list_update\<close>)
    with False show ?thesis by simp
  qed
  moreover have "\<forall>p\<in>set (se_queue e). p < length (entries ?t') \<and> name_entry_is_direct (entries ?t' ! p)"
    using wf r by (auto simp: shape_entry_wf_def nth_list_update)
  ultimately show ?thesis by (simp add: shape_entry_wf_def)
qed

end
