(* ===== verification/Table_Properties.thy ===== *)
theory Table_Properties
  imports Shape_Facts Units
begin

text \<open>
  What the tables of the linker promise: each is a finite map, iteration meets every entry once, and
  names get identifiers that tell them apart.
\<close>

section \<open>Finite maps\<close>

text \<open>
  C31: \<^verbatim>\<open>shape_table_add\<close> returns the entry of a shape and creates it when the shape is new: afterwards
  \<^verbatim>\<open>shape_table_get\<close> finds it under its name, finds every other shape as before, and no existing entry
  has changed.
\<close>

theorem shape_table_add_correct:
  assumes "shape_tbl_wf (st_table t)" "shape_table_add t k = (r, t')"
  shows "shape_tbl_wf (st_table t') \<and> (\<forall>k'. shape_table_get t' k' = (if k' = k then Some r else shape_table_get t k'))
    \<and> take (length (entries (st_table t))) (entries (st_table t')) = entries (st_table t)
    \<and> shape_entry_at t' r = (if shape_table_get t k = None then shape_entry_create k else shape_entry_at t r)"
proof (cases "shape_find (st_table t) k")
  case None
  have t': "t' = t\<lparr>st_table := shape_tbl.insert_entry (shape_entry_create k) (st_table t)\<rparr>" "r = length (entries (st_table t))"
    using assms(2) None
    by (auto simp: shape_table_add_def shape_tbl.insert_entry_def table_alloc_def shape_entry_create_def)
  have k: "se_key (shape_entry_create k) = k" by (simp add: shape_entry_create_def)
  then show ?thesis
    using None shape_tbl.insert_wf[OF assms(1), of "shape_entry_create k"]
      shape_tbl.get_insert[OF assms(1), of "shape_entry_create k"]
    by (simp add: t' shape_table_get_def shape_entry_at_def)
next
  case (Some p)
  with assms show ?thesis by (auto simp: shape_table_add_def shape_table_get_def)
qed

theorem shape_table_add_correct_witness:
  "\<exists>r t'. shape_table_add shape_table_create (str ''tag'') = (r, t') \<and> shape_table_get t' (str ''tag'') = Some r
     \<and> shape_table_get t' (str ''token'') = shape_table_get shape_table_create (str ''token'')"
proof -
  obtain r t' where a: "shape_table_add shape_table_create (str ''tag'') = (r, t')" by fastforce
  have "shape_tbl_wf (st_table shape_table_create)"
    by (simp add: shape_table_create_def shape_tbl.create_wf)
  from shape_table_add_correct[OF this a] have
    "shape_table_get t' k' = (if k' = str ''tag'' then Some r else shape_table_get shape_table_create k')" for k'
    by blast
  with a show ?thesis by (auto simp: str_def)
qed

text \<open>
  \<^verbatim>\<open>map_table_add\<close> and \<^verbatim>\<open>map_table_get\<close>: after a shape's counts have been added to the mapping table of
  a unit, the table finds that entry under the shape's name and every other shape as before.
\<close>

lemma map_table_add_correct:
  assumes "map_table_wf t" "map_table_get t k = None" "map_table_add t k num = (r, t')"
  shows "map_table_wf t' \<and> (\<forall>k'. map_table_get t' k' = (if k' = k then Some r else map_table_get t k'))
    \<and> entries t' = entries t @ [\<lparr>me_key = k, me_count = num, me_num_links = 0, me_links = []\<rparr>] \<and> r = length (entries t)"
proof -
  let ?e = "\<lparr>me_key = k, me_count = num, me_num_links = 0, me_links = []\<rparr>"
  have "t' = map_tbl.insert_entry ?e t" "r = length (entries t)" using assms(3) by (simp_all add: map_table_add_eq)
  with assms(2) map_tbl.insert_wf[OF assms(1), of ?e] map_tbl.get_insert[OF assms(1), of ?e] show ?thesis by simp
qed

text \<open>
  C33: The unit set table: adding a new unit set with its order makes it the one found under its name and
  leaves every other lookup alone.
\<close>

theorem unit_table_add_correct:
  assumes "unit_table_wf t" "unit_table_get t k = None" "unit_table_add t k n = (r, t')"
  shows "unit_table_wf t' \<and> (\<forall>k'. unit_table_get t' k' = (if k' = k then Some r else unit_table_get t k'))
    \<and> entries t' = entries t @ [\<lparr>ue_key = k, ue_order = n, ue_units = []\<rparr>] \<and> r = length (entries t)"
proof -
  let ?e = "\<lparr>ue_key = k, ue_order = n, ue_units = []\<rparr>"
  have "t' = unit_tbl.insert_entry ?e t" "r = length (entries t)" using assms(3) by (simp_all add: unit_table_add_eq)
  with assms(2) unit_tbl.insert_wf[OF assms(1), of ?e] unit_tbl.get_insert[OF assms(1), of ?e] show ?thesis by simp
qed

theorem unit_table_add_correct_witness:
  "\<exists>r t'. unit_table_add unit_table_create (str ''tld'') 0 = (r, t') \<and> unit_table_get t' (str ''tld'') = Some r"
proof -
  obtain r t' where a: "unit_table_add unit_table_create (str ''tld'') 0 = (r, t')" by fastforce
  have "unit_table_wf unit_table_create" "unit_table_get unit_table_create (str ''tld'') = None"
    by (simp_all add: unit_table_create_def unit_tbl.create_wf unit_tbl.get_create)
  from unit_table_add_correct[OF this a] a show ?thesis by auto
qed

section \<open>Iteration\<close>

text \<open>One call of the procedure for each of the entries, which collects the entries it leaves.\<close>

fun visit_each :: "(ShapeEntryT \<Rightarrow> 'a \<Rightarrow> ('s, ShapeEntryT \<times> 'a) prog) \<Rightarrow> ShapeEntryT list \<Rightarrow> 'a \<Rightarrow> ('s, ShapeEntryT list \<times> 'a) prog" where
  "visit_each proc [] c = ret ([], c)"
| "visit_each proc (e # es) c = bind (proc e c) (\<lambda>(e', c). bind (visit_each proc es c) (\<lambda>(es', c). ret (e' # es', c)))"

definition put_each :: "nat list \<Rightarrow> ShapeEntryT list \<Rightarrow> ShapeTableT \<Rightarrow> ShapeTableT" where
  "put_each rs es t = fold (\<lambda>(r, e). shape_entry_put r e) (zip rs es) t"

lemma put_at: "q \<noteq> r \<Longrightarrow> shape_entry_at (shape_entry_put r e t) q = shape_entry_at t q"
  by (simp add: shape_entry_at_def shape_entry_put_def table_set_def)

lemma iter_chain_visits:
  "distinct rs \<Longrightarrow> shape_table_iter_chain proc rs t c =
     bind (visit_each proc (map (shape_entry_at t) rs) c) (\<lambda>(es, c). ret (put_each rs es t, c))"
proof (induction rs arbitrary: t c)
  case Nil
  show ?case by (simp add: put_each_def fun_eq_iff bind_def ret_def)
next
  case (Cons r rs)
  have at: "map (shape_entry_at (shape_entry_put r e t)) rs = map (shape_entry_at t) rs" for e
  proof (rule map_cong[OF refl])
    fix q assume "q \<in> set rs"
    with Cons.prems show "shape_entry_at (shape_entry_put r e t) q = shape_entry_at t q" by (intro put_at) auto
  qed
  have "shape_table_iter_chain proc rs (shape_entry_put r e t) c =
      bind (visit_each proc (map (shape_entry_at t) rs) c) (\<lambda>(es, c). ret (put_each rs es (shape_entry_put r e t), c))" for e c
    using Cons.IH[of "shape_entry_put r e t" c] Cons.prems at[of e] by simp
  then show ?case
    by (auto simp: put_each_def fun_eq_iff bind_def ret_def split: prod.splits outcome.splits)
qed

lemma put_each_entries:
  "length es = length rs \<Longrightarrow> distinct rs \<Longrightarrow> set rs \<subseteq> {..<length (entries (st_table t))} \<Longrightarrow>
     contents (st_table (put_each rs es t)) = contents (st_table t) \<and>
     length (entries (st_table (put_each rs es t))) = length (entries (st_table t)) \<and>
     (\<forall>r. shape_entry_at (put_each rs es t) r =
        (case map_of (zip rs es) r of None \<Rightarrow> shape_entry_at t r | Some e \<Rightarrow> e))"
proof (induction es rs arbitrary: t rule: list_induct2)
  case Nil
  show ?case by (simp add: put_each_def)
next
  case (Cons e es r rs)
  let ?t = "shape_entry_put r e t"
  have len: "length (entries (st_table ?t)) = length (entries (st_table t))" "contents (st_table ?t) = contents (st_table t)"
    by (simp_all add: shape_entry_put_def table_set_def)
  have r: "shape_entry_at ?t r = e" using Cons.prems by (simp add: shape_entry_at_def shape_entry_put_def table_set_def)
  have "map_of (zip rs es) r = None" using Cons.prems(1) Cons.hyps by (simp add: map_of_zip_is_None)
  with Cons.IH[of ?t] Cons.prems len r put_at[of _ r e t] show ?case
    by (auto simp: put_each_def split: option.splits)
qed

text \<open>
  C32: \<^verbatim>\<open>shape_table_iter\<close> calls the procedure it is given, whatever it is, exactly once for every shape of the
  table, in the order of the buckets and with the closure handed on: its run is that of the calls on the entries
  as they were, and the table it leaves has the entries that the calls have left, each in its place, and the
  same buckets. A call that does not return ends it.
\<close>

theorem shape_table_iter_visits_once:
  assumes "shape_tbl_wf (st_table t)"
  shows "\<exists>order. distinct order \<and> set order = {..<length (entries (st_table t))} \<and>
    shape_table_iter t proc c s =
      (case visit_each proc (map (shape_entry_at t) order) c s of
         (Ret (es, c'), s') \<Rightarrow> (Ret (put_each order es t, c'), s')
       | (Raise x, s') \<Rightarrow> (Raise x, s')) \<and>
    (\<forall>es. length es = length order \<longrightarrow> contents (st_table (put_each order es t)) = contents (st_table t) \<and>
       length (entries (st_table (put_each order es t))) = length (entries (st_table t)) \<and>
       (\<forall>k<length order. shape_entry_at (put_each order es t) (order ! k) = es ! k))"
proof (intro exI conjI allI impI)
  let ?order = "table_order (st_table t)"
  have m: "mset ?order = mset [0..<length (entries (st_table t))]" using shape_tbl.order_mset[OF assms] .
  show d: "distinct ?order" using m by (metis distinct_upt mset_eq_imp_distinct_iff)
  show s: "set ?order = {..<length (entries (st_table t))}" unfolding mset_eq_setD[OF m] by auto
  show "shape_table_iter t proc c s =
      (case visit_each proc (map (shape_entry_at t) ?order) c s of
         (Ret (es, c'), s') \<Rightarrow> (Ret (put_each ?order es t, c'), s')
       | (Raise x, s') \<Rightarrow> (Raise x, s'))"
    by (simp add: shape_table_iter_def iter_chain_visits[OF d] bind_def ret_def split: prod.splits outcome.splits)
  fix es :: "ShapeEntryT list" assume es: "length es = length ?order"
  note put = put_each_entries[OF es d, of t]
  show "contents (st_table (put_each ?order es t)) = contents (st_table t)"
    "length (entries (st_table (put_each ?order es t))) = length (entries (st_table t))" using put s by simp_all
  show "shape_entry_at (put_each ?order es t) (?order ! k) = es ! k" if "k < length ?order" for k
    using put s that map_of_zip_nth[OF es [symmetric] d, of k] es by simp
qed

lemma add_shape_wf:
  assumes "shape_tbl_wf (st_table t)"
  shows "shape_tbl_wf (st_table (snd (shape_table_add t k)))"
proof (cases "shape_find (st_table t) k")
  case None
  then have "shape_find (st_table t) (se_key (shape_entry_create k)) = None" by (simp add: shape_entry_create_def)
  from shape_tbl.insert_wf[OF assms this] None show ?thesis
    by (simp add: shape_table_add_def shape_tbl.insert_entry_def table_alloc_def shape_entry_create_def)
qed (use assms in \<open>simp add: shape_table_add_def\<close>)

text \<open>Two shapes, and a procedure that changes them.\<close>

definition two_shapes :: ShapeTableT where
  "two_shapes = snd (shape_table_add (snd (shape_table_add shape_table_create (str ''tag''))) (str ''token''))"

theorem shape_table_iter_visits_once_witness:
  "\<exists>t ks. shape_table_iter two_shapes (\<lambda>e ks. ret (shape_entry_set_non_empty e, ks @ [se_key e])) [] error_start = (Ret (t, ks), error_start) \<and>
     length ks = 2 \<and> (\<forall>r<2. shape_entry_at t r = shape_entry_set_non_empty (shape_entry_at two_shapes r))"
proof -
  let ?proc = "\<lambda>e ks. ret (shape_entry_set_non_empty e, ks @ [se_key e]) :: (error_state, _) prog"
  have "shape_tbl_wf (st_table shape_table_create)" by (simp add: shape_table_create_def shape_tbl.create_wf)
  then have wf: "shape_tbl_wf (st_table two_shapes)" by (simp add: two_shapes_def add_shape_wf)
  have len: "length (entries (st_table two_shapes)) = 2" by code_simp
  from shape_table_iter_visits_once[OF wf, of ?proc "[]" error_start] obtain order where
    o1: "distinct order" "set order = {..<2}" and
    run: "shape_table_iter two_shapes ?proc [] error_start =
      (case visit_each ?proc (map (shape_entry_at two_shapes) order) [] error_start of
         (Ret (es, c'), s') \<Rightarrow> (Ret (put_each order es two_shapes, c'), s')
       | (Raise x, s') \<Rightarrow> (Raise x, s'))" and
    put: "\<And>es k. length es = length order \<Longrightarrow> k < length order \<Longrightarrow> shape_entry_at (put_each order es two_shapes) (order ! k) = es ! k"
    unfolding len by blast
  have "visit_each ?proc es c s = (Ret (map shape_entry_set_non_empty es, c @ map se_key es), s)" for es c s
    by (induction es arbitrary: c) (simp_all add: bind_def ret_def)
  with run have r: "shape_table_iter two_shapes ?proc [] error_start =
      (Ret (put_each order (map shape_entry_set_non_empty (map (shape_entry_at two_shapes) order)) two_shapes,
        map se_key (map (shape_entry_at two_shapes) order)), error_start)" by simp
  have n: "length order = 2" using o1 distinct_card[of order] by simp
  show ?thesis
  proof (intro exI conjI, rule r)
    show "length (map se_key (map (shape_entry_at two_shapes) order)) = 2" using n by simp
    show "\<forall>q<2. shape_entry_at (put_each order (map shape_entry_set_non_empty (map (shape_entry_at two_shapes) order)) two_shapes) q =
      shape_entry_set_non_empty (shape_entry_at two_shapes q)"
    proof (intro allI impI)
      fix q :: nat assume "q < 2"
      then have "q \<in> set order" using o1(2) by simp
      then obtain k where k: "k < length order" "q = order ! k" by (auto simp: in_set_conv_nth)
      show "shape_entry_at (put_each order (map shape_entry_set_non_empty (map (shape_entry_at two_shapes) order)) two_shapes) q =
        shape_entry_set_non_empty (shape_entry_at two_shapes q)"
        using put[of "map shape_entry_set_non_empty (map (shape_entry_at two_shapes) order)" k] k by simp
    qed
  qed
qed

section \<open>Links\<close>

text \<open>
  The links of a mapping entry are an array: setting link number \<open>link\<close> succeeds exactly when it is
  below the number of links, and then changes what \<^verbatim>\<open>map_entry_get_link\<close> returns for that number only.
\<close>

lemma map_entry_link_array:
  assumes "map_entry_wf e"
  shows "case map_entry_set_link link i x e of
      None \<Rightarrow> me_num_links e \<le> link
    | Some e' \<Rightarrow> link < me_num_links e \<and> map_entry_wf e' \<and> me_num_links e' = me_num_links e
        \<and> (\<forall>l. map_entry_get_link l e' = (if l = link then Some (i, x) else map_entry_get_link l e))"
proof (cases "map_entry_set_link link i x e")
  case None
  then show ?thesis by (simp add: map_entry_set_link_def not_less split: if_splits)
next
  case (Some e')
  moreover have "link < me_num_links e" using Some by (simp add: map_entry_set_link_def split: if_splits)
  ultimately show ?thesis
    using map_entry_set_link_wf[OF assms Some] map_entry_get_set_link[OF assms Some] by simp
qed

section \<open>Identifiers of names\<close>

text \<open>Adding the names of a capsule to a shape, one after the other.\<close>

fun add_names :: "NameKeyT list \<Rightarrow> ShapeEntryT \<Rightarrow> ('z error_state_scheme, nat list \<times> ShapeEntryT) prog" where
  "add_names [] e = ret ([], e)"
| "add_names (k # ks) e =
     bind (name_table_add k e) (\<lambda>(r, e). bind (add_names ks e) (\<lambda>(rs, e). ret (r # rs, e)))"

definition all_direct :: "ShapeEntryT \<Rightarrow> bool" where
  "all_direct e \<longleftrightarrow> shape_entry_wf e \<and> (\<forall>r<length (entries (se_names e)). name_entry_is_direct (entries (se_names e) ! r))"

lemma name_table_add_direct:
  assumes ad: "all_direct e" and res: "name_table_add k e s = (Ret (r, e'), s')"
  shows "all_direct e' \<and> shape_grows e e' \<and> r < length (entries (se_names e')) \<and> ne_key (entries (se_names e') ! r) = k"
proof -
  have wf: "shape_entry_wf e" and nwf: "name_table_wf (se_names e)" using ad by (simp_all add: all_direct_def shape_entry_wf_def)
  note spec = name_table_add_spec[OF wf res]
  show ?thesis
  proof (cases "name_table_find (se_names e) k")
    case None
    then have "se_id_count e \<noteq> UINT_MAX"
      using res by (auto simp: name_table_add_def name_entry_create_direct_def shape_entry_next_id_eq bind_def)
    from res name_table_add_create[OF None this, of s] ad spec show ?thesis
      by (auto simp: all_direct_def shape_entry_add_to_list_def nth_append less_Suc_eq)
  next
    case (Some p)
    have p: "p < length (entries (se_names e))" "ne_key (entries (se_names e) ! p) = k"
      using name_table_find_lt[OF nwf Some] by auto
    then have d: "name_entry_is_direct (entries (se_names e) ! p)" using ad by (simp add: all_direct_def)
    have "r = p" "e' = e"
      using res Some d by (auto simp: name_table_add_def is_direct_iff name_entry_is_indirect_def name_entry_is_place_def ret_def)
    with spec p ad show ?thesis by simp
  qed
qed

lemma shape_grows_trans: "all_direct a \<Longrightarrow> shape_grows a b \<Longrightarrow> shape_grows b c \<Longrightarrow> shape_grows a c"
  by (auto simp: shape_grows_def all_direct_def is_direct_iff)

lemma add_names_spec:
  assumes "all_direct e" "add_names ks e s = (Ret (rs, e'), s')"
  shows "all_direct e' \<and> shape_grows e e' \<and> length rs = length ks \<and>
    (\<forall>i<length ks. rs ! i < length (entries (se_names e')) \<and> ne_key (entries (se_names e') ! (rs ! i)) = ks ! i)"
  using assms
proof (induction ks arbitrary: e s rs)
  case Nil
  then show ?case by (simp add: ret_def shape_grows_refl)
next
  case (Cons k ks)
  obtain r e1 s1 rs1 where a: "name_table_add k e s = (Ret (r, e1), s1)" "add_names ks e1 s1 = (Ret (rs1, e'), s')" "rs = r # rs1"
    using Cons.prems(2) by (auto simp: bind_Ret_iff ret_def split: prod.splits)
  note one = name_table_add_direct[OF Cons.prems(1) a(1)]
  then have ih: "all_direct e' \<and> shape_grows e1 e' \<and> length rs1 = length ks \<and>
    (\<forall>i<length ks. rs1 ! i < length (entries (se_names e')) \<and> ne_key (entries (se_names e') ! (rs1 ! i)) = ks ! i)"
    using Cons.IH[OF _ a(2)] by simp
  have r: "r < length (entries (se_names e'))" "ne_key (entries (se_names e') ! r) = k"
    using one ih by (auto simp: shape_grows_def)
  show ?case
    using one ih r shape_grows_trans[OF Cons.prems(1), of e1 e']
    by (auto simp: a(3) nth_Cons split: nat.splits)
qed

lemma all_direct_create: "all_direct (shape_entry_create sh)"
  using shape_entry_create_safe[of sh]
  by (simp add: all_direct_def shape_entry_safe_def)
    (simp add: shape_entry_create_def name_table_create_def table_create_def)

text \<open>
  C29: The external names of a shape get capsule scope identifiers that are unique and below the shape's
  identifier count: of any sequence of names added to a new shape, two get the same identifier
  exactly when they are the same name.
\<close>

theorem name_ids_unique:
  assumes "add_names ks (shape_entry_create sh) s = (Ret (rs, e), s')" "i < length ks" "j < length ks"
  shows "\<exists>a b. name_entry_id (entries (se_names e) ! (rs ! i)) = Some a \<and> name_entry_id (entries (se_names e) ! (rs ! j)) = Some b
    \<and> a < se_id_count e \<and> (a = b \<longleftrightarrow> ks ! i = ks ! j)"
proof -
  note sp = add_names_spec[OF all_direct_create assms(1)]
  let ?n = "entries (se_names e)"
  have ri: "rs ! i < length ?n" "ne_key (?n ! (rs ! i)) = ks ! i" and rj: "rs ! j < length ?n" "ne_key (?n ! (rs ! j)) = ks ! j"
    using sp assms by auto
  have wf: "shape_entry_wf e" using sp by (simp add: all_direct_def)
  obtain a where a: "ne_u (?n ! (rs ! i)) = NT_DIRECT a" using sp ri by (auto simp: all_direct_def is_direct_iff)
  obtain b where b: "ne_u (?n ! (rs ! j)) = NT_DIRECT b" using sp rj by (auto simp: all_direct_def is_direct_iff)
  have "name_wf (se_names e) (se_id_count e) (ne_u (?n ! (rs ! i)))" using wf ri by (simp add: shape_entry_wf_def)
  then have lt: "nd_id a < se_id_count e" by (simp add: a)
  have ids: "nd_id a = nd_id b \<Longrightarrow> rs ! i = rs ! j"
    using wf ri(1) rj(1) a b unfolding shape_entry_wf_def ids_distinct_def by blast
  have "distinct (map ne_key ?n)" using wf by (simp add: shape_entry_wf_def table_wf_def)
  then have "ks ! i = ks ! j \<Longrightarrow> rs ! i = rs ! j"
    using ri rj by (auto simp: distinct_conv_nth) (metis ri rj)
  then have "nd_id a = nd_id b \<longleftrightarrow> ks ! i = ks ! j" using ids ri(2) rj(2) a b by auto
  with a b lt show ?thesis by (auto simp: name_entry_id_def direct_def)
qed

theorem name_ids_unique_witness:
  "\<exists>rs e a b. add_names [KT_STRING [97], KT_STRING [98]] (shape_entry_create []) error_start = (Ret (rs, e), error_start)
     \<and> name_entry_id (entries (se_names e) ! (rs ! 0)) = Some a \<and> name_entry_id (entries (se_names e) ! (rs ! 1)) = Some b \<and> a \<noteq> b"
proof -
  have "case add_names [KT_STRING [97], KT_STRING [98]] (shape_entry_create []) error_start of
      (Ret (rs, e), t) \<Rightarrow> t = error_start | (Raise x, t) \<Rightarrow> False"
    by code_simp
  then obtain rs e where a: "add_names [KT_STRING [97], KT_STRING [98]] (shape_entry_create []) error_start = (Ret (rs, e), error_start)"
    by (auto split: prod.splits outcome.splits)
  from name_ids_unique[OF a, of 0 1] a show ?thesis by auto
qed

end
