(* ===== verification/Tld_Unit.thy ===== *)
theory Tld_Unit
  imports Units Io_Properties
begin

text \<open>
  The linker information unit that \<^verbatim>\<open>unit_entry_write_tld_unit\<close> writes: its size is computed in one pass
  over the shapes and its contents are written in another, and the two agree.
\<close>

section \<open>The usages that are written\<close>

text \<open>The usage of a name that is neither a rename nor hidden.\<close>

definition name_tld_use :: "NameEntryT \<Rightarrow> cuint list" where
  "name_tld_use n = (case ne_u n of
     NT_DIRECT d \<Rightarrow> if nd_use d AND U_HIDE = U_HIDE then [] else [nd_use d AND (U_DEFD OR U_DECD OR U_MULT OR U_USED)]
   | _ \<Rightarrow> [])"

definition names_tld_uses :: "NameTableT \<Rightarrow> cuint list" where
  "names_tld_uses t = concat (map (\<lambda>r. name_tld_use (entries t ! r)) (table_order t))"

definition shape_tld_uses :: "ShapeEntryT \<Rightarrow> cuint list" where
  "shape_tld_uses e = (if se_non_empty e then names_tld_uses (se_names e) else [])"

definition tld_uses :: "ShapeTableT \<Rightarrow> cuint list" where
  "tld_uses t = concat (map (\<lambda>r. shape_tld_uses (shape_entry_at t r)) (table_order (st_table t)))"

section \<open>Passes that change nothing\<close>

lemma table_set_same: "table_set r (entries t ! r) t = t"
  by (simp add: table_set_def)

lemma shape_put_same: "shape_entry_put r (shape_entry_at t r) t = t"
  by (simp add: shape_entry_put_def shape_entry_at_def table_set_same)

lemma name_tld_steps:
  "\<not> name_entry_is_direct n \<Longrightarrow> name_tld_use n = []"
  "name_entry_is_direct n \<Longrightarrow> name_entry_compute_tld_size n sz s = (Ret (n, sz + sum_list (map tdf_int_size (name_tld_use n))), s)"
  "name_entry_is_direct n \<Longrightarrow> name_entry_write_tld n u = bind (for_each (name_tld_use n) tdf_write_int) (\<lambda>_. ret (n, ()))"
  by (cases "ne_u n"; simp add: name_entry_is_direct_def name_tld_use_def name_entry_compute_tld_size_def name_entry_write_tld_def
      name_entry_is_hidden_def name_entry_get_use_def direct_def ret_def bind_def fun_eq_iff split: prod.splits outcome.splits)+

lemma names_size_pass:
  "name_table_iter_chain name_entry_compute_tld_size rs t sz s =
     (Ret (t, sz + sum_list (map tdf_int_size (concat (map (\<lambda>r. name_tld_use (entries t ! r)) rs)))), s)"
proof (induction rs arbitrary: sz)
  case Nil
  show ?case by (simp add: ret_def)
next
  case (Cons r rs)
  show ?case
    by (cases "name_entry_is_direct (entries t ! r)") (simp_all add: Cons name_tld_steps bind_def table_set_same)
qed

lemma shapes_size_pass:
  "shape_table_iter_chain shape_entry_compute_tld_size rs t sz s =
     (Ret (t, sz + sum_list (map tdf_int_size (concat (map (\<lambda>r. shape_tld_uses (shape_entry_at t r)) rs)))), s)"
proof (induction rs arbitrary: sz)
  case Nil
  show ?case by (simp add: ret_def)
next
  case (Cons r rs)
  have "shape_entry_compute_tld_size (shape_entry_at t r) sz s =
      (Ret (shape_entry_at t r, sz + sum_list (map tdf_int_size (shape_tld_uses (shape_entry_at t r)))), s)"
    by (simp add: shape_entry_compute_tld_size_def name_table_iter_def names_size_pass shape_tld_uses_def names_tld_uses_def
        bind_def ret_def)
  with Cons show ?case by (simp add: bind_def shape_put_same)
qed

lemma names_write_pass:
  "name_table_iter_chain name_entry_write_tld rs t () =
     bind (for_each (concat (map (\<lambda>r. name_tld_use (entries t ! r)) rs)) tdf_write_int) (\<lambda>_. ret (t, ()))"
proof (induction rs)
  case Nil
  show ?case by (simp add: bind_def ret_def fun_eq_iff)
next
  case (Cons r rs)
  show ?case
    by (cases "name_entry_is_direct (entries t ! r)")
      (simp_all add: Cons name_tld_steps bind_assoc table_set_same for_each_append)
qed

lemma shape_write_step:
  "shape_entry_write_tld e u = bind (for_each (shape_tld_uses e) tdf_write_int) (\<lambda>_. ret (e, ()))"
  by (simp add: shape_entry_write_tld_def name_table_iter_def names_write_pass shape_tld_uses_def names_tld_uses_def bind_assoc)

lemma shapes_write_pass:
  "shape_table_iter_chain shape_entry_write_tld rs t () =
     bind (for_each (concat (map (\<lambda>r. shape_tld_uses (shape_entry_at t r)) rs)) tdf_write_int) (\<lambda>_. ret (t, ()))"
proof (induction rs)
  case Nil
  show ?case by (simp add: bind_def ret_def fun_eq_iff)
next
  case (Cons r rs)
  from Cons show ?case by (simp add: shape_write_step bind_assoc shape_put_same for_each_append)
qed

section \<open>The announced size\<close>

definition tld_size :: "ShapeTableT \<Rightarrow> nat" where
  "tld_size t = (tdf_int_size 1 + 1 + sum_list (map tdf_int_size (tld_uses t))) div 2"

lemma write_tld_unit_eq:
  "unit_entry_write_tld_unit shapes =
     bind (for_each [1, 0, 0, of_nat (tld_size shapes)] tdf_write_int) (\<lambda>_.
     bind tdf_write_align (\<lambda>_.
     bind (for_each (1 # tld_uses shapes) tdf_write_int) (\<lambda>_.
     bind tdf_write_align (\<lambda>_. ret shapes))))"
proof -
  have sz: "shape_table_iter shapes shape_entry_compute_tld_size k = ret (shapes, k + sum_list (map tdf_int_size (tld_uses shapes)))" for k
    by (simp add: fun_eq_iff shape_table_iter_def shapes_size_pass tld_uses_def ret_def)
  have wr: "shape_table_iter shapes shape_entry_write_tld () = bind (for_each (tld_uses shapes) tdf_write_int) (\<lambda>_. ret (shapes, ()))"
    by (simp add: shape_table_iter_def shapes_write_pass tld_uses_def)
  show ?thesis
    by (simp add: unit_entry_write_tld_unit_def sz wr bind_assoc Let_def tld_size_def)
qed

lemma length_enc_ints: "length (code_list code_int ns a) = sum_list (map tdf_int_size ns)"
  by (induction ns arbitrary: a) (simp_all add: code_empty_def code_seq_def code_int_def tdf_int_size_nibbles)

lemma length_padded: "even (length (code_seq f code_pad True))" "length (code_seq f code_pad True) div 2 = (length (f True) + 1) div 2"
  by (auto simp: code_seq_def code_pad_def)

lemma emits_bytes:
  assumes "emits w ns w'" "wr_new_byte w" "even (length ns)"
  obtains bs where "bo_data (wr_bostream w') = bo_data (wr_bostream w) @ bs" "bytes_nibbles bs = ns"
proof -
  have "wr_new_byte w'" using emits_aligned[OF assms(1)] assms by simp
  then have "bytes_nibbles (bo_data (wr_bostream w')) = bytes_nibbles (bo_data (wr_bostream w)) @ ns"
    using assms by (simp add: emits_def wr_nibbles_def)
  from bytes_nibbles_split[OF this] show ?thesis using that by (metis append_take_drop_id)
qed

text \<open>
  C21: The linker information unit announces its own length correctly: what
  \<^verbatim>\<open>unit_entry_write_tld_unit\<close> writes is a header with the integers 1, 0, 0 and the number of bytes that
  follow, and then a body of exactly that many bytes, with the unit type and the usages of all
  external names that are not hidden.
\<close>

theorem tld_unit_size_exact:
  assumes "wr_sound (writer s)" "wr_new_byte (writer s)"
  shows "\<exists>s' hdr body. unit_entry_write_tld_unit shapes s = (Ret shapes, s')
    \<and> bo_data (wr_bostream (writer s')) = bo_data (wr_bostream (writer s)) @ hdr @ body
    \<and> bytes_nibbles hdr = code_seq (code_list code_int [1, 0, 0, of_nat (length body)]) code_pad True
    \<and> bytes_nibbles body = code_seq (code_list code_int (1 # tld_uses shapes)) code_pad True"
proof -
  define H where "H = code_seq (code_list code_int [1, 0, 0, of_nat (tld_size shapes)]) code_pad"
  define B where "B = code_seq (code_list code_int (1 # tld_uses shapes)) code_pad"
  have ints: "writes (for_each ns tdf_write_int) (code_list code_int ns)" for ns
    by (rule int_codec.writes_list) (simp add: list_all_iff)
  have wh: "writes (bind (for_each [1, 0, 0, of_nat (tld_size shapes)] tdf_write_int) (\<lambda>_. tdf_write_align)) H"
    and wb: "writes (bind (for_each (1 # tld_uses shapes) tdf_write_int) (\<lambda>_. tdf_write_align)) B"
    unfolding H_def B_def by (intro codec_intros ints)+
  obtain w1 where w1: "bind (for_each [1, 0, 0, of_nat (tld_size shapes)] tdf_write_int) (\<lambda>_. tdf_write_align) s = (Ret (), s\<lparr>writer := w1\<rparr>)"
    "emits (writer s) (H True) w1" using writesD[OF wh assms(1)] assms(2) by auto
  have a1: "wr_new_byte w1" using emits_aligned[OF w1(2)] assms(2) by (simp add: H_def length_padded)
  obtain w2 where w2: "bind (for_each (1 # tld_uses shapes) tdf_write_int) (\<lambda>_. tdf_write_align) (s\<lparr>writer := w1\<rparr>) = (Ret (), s\<lparr>writer := w2\<rparr>)"
    "emits w1 (B True) w2" using writesD[OF wb, of "s\<lparr>writer := w1\<rparr>"] emits_sound[OF w1(2)] a1 by auto
  have a2: "wr_new_byte w2" using emits_aligned[OF w2(2)] a1 by (simp add: B_def length_padded)
  have run: "unit_entry_write_tld_unit shapes s = (Ret shapes, s\<lparr>writer := w2\<rparr>)"
    using w1(1) w2(1) by (simp add: write_tld_unit_eq bind_assoc [symmetric] del: for_each.simps)
      (simp add: bind_def ret_def del: for_each.simps split: prod.splits outcome.splits)
  obtain hdr where hdr: "bo_data (wr_bostream w1) = bo_data (wr_bostream (writer s)) @ hdr" "bytes_nibbles hdr = H True"
    by (rule emits_bytes [OF w1(2) assms(2)]) (simp add: H_def length_padded)
  obtain body where body: "bo_data (wr_bostream w2) = bo_data (wr_bostream w1) @ body" "bytes_nibbles body = B True"
    by (rule emits_bytes [OF w2(2) a1]) (simp add: B_def length_padded)
  have "length body = length (B True) div 2" using body(2) by (metis length_bytes_nibbles nonzero_mult_div_cancel_left zero_neq_numeral)
  also have "\<dots> = tld_size shapes"
    by (simp add: B_def length_padded length_enc_ints tld_size_def del: code_list.simps)
  finally have "length body = tld_size shapes" .
  with run hdr body show ?thesis
    by (intro exI [of _ "s\<lparr>writer := w2\<rparr>"] exI [of _ hdr] exI [of _ body]) (simp add: H_def B_def del: code_list.simps)
qed

theorem tld_unit_size_exact_witness:
  "\<exists>s' hdr body. unit_entry_write_tld_unit shape_table_create (io_start []) = (Ret shape_table_create, s')
    \<and> bo_data (wr_bostream (writer s')) = hdr @ body
    \<and> bytes_nibbles hdr = code_seq (code_list code_int [1, 0, 0, of_nat (length body)]) code_pad True"
proof -
  obtain s' hdr body where "unit_entry_write_tld_unit shape_table_create (io_start []) = (Ret shape_table_create, s')"
    "bo_data (wr_bostream (writer s')) = bo_data (wr_bostream (writer (io_start []))) @ hdr @ body"
    "bytes_nibbles hdr = code_seq (code_list code_int [1, 0, 0, of_nat (length body)]) code_pad True"
    using tld_unit_size_exact[OF io_start_ok(1,2)[of "[]"], of shape_table_create] by (elim exE conjE) (rule that)
  then show ?thesis by (intro exI conjI) (assumption, simp only: io_start_ok append_Nil, assumption)
qed

end
