(* ===== verification/Reading.thy ===== *)
theory Reading
  imports Capsule Frames Shape_Facts
begin

text \<open>
  The steps of reading a capsule: the invariant of the tables, what the local vectors of the reader
  point to, and one triple for every step of \<^verbatim>\<open>tld/src/adt/capsule.c\<close> that changes a shape or a name.
  \<open>capsule_merge_usage_eq\<close> is the closed form of the merging of usages.
\<close>

section \<open>Invariant\<close>

definition shapes_safe :: "ShapeTableT \<Rightarrow> bool" where
  "shapes_safe t \<longleftrightarrow> shape_tbl_wf (st_table t) \<and> (\<forall>e\<in>set (entries (st_table t)). shape_entry_safe e)"

definition sets_ok :: "'z capsule_state_scheme \<Rightarrow> bool" where
  "sets_ok s \<longleftrightarrow> \<not> cs_need_setup s \<and> (\<exists>sets. cs_unit_sets s = Some sets \<and> unat (cs_tld_index s) < length sets
     \<and> (cs_tld2_index s = UINT_MAX \<or> unat (cs_tld2_index s) < length sets))"

definition capsule_inv :: "'z capsule_state_scheme \<Rightarrow> bool" where
  "capsule_inv s \<longleftrightarrow> shapes_safe (cs_shapes s) \<and> unit_table_wf (cs_units s) \<and> sets_ok s"

text \<open>
  While a capsule is read, the local vectors point to shapes \<open>R\<close> and direct names \<open>N\<close>, and \<open>F\<close> is
  known of the unit table and of \<^verbatim>\<open>capsule_tld2_index\<close>. \<open>K\<close> is what is known of the rest of the
  program's state, which reading a capsule never touches.
\<close>

definition shape_refs :: "nat set \<Rightarrow> (nat \<times> nat) set \<Rightarrow> ShapeTableT \<Rightarrow> bool" where
  "shape_refs R N t \<longleftrightarrow> (\<forall>r\<in>R. r < length (entries (st_table t))) \<and>
     (\<forall>(r, n)\<in>N. r < length (entries (st_table t)) \<and> n < length (entries (se_names (shape_entry_at t r)))
        \<and> name_entry_is_direct (entries (se_names (shape_entry_at t r)) ! n))"

definition reading :: "('z \<Rightarrow> bool) \<Rightarrow> nat set \<Rightarrow> (nat \<times> nat) set \<Rightarrow> (cuint \<Rightarrow> UnitTableT \<Rightarrow> bool) \<Rightarrow> 'z capsule_state_scheme \<Rightarrow> bool" where
  "reading K R N F s \<longleftrightarrow> (capsule_inv s \<and> K (capsule_state.more s) \<and> shape_refs R N (cs_shapes s) \<and> F (cs_tld2_index s) (cs_units s)) \<and> rd_ok (reader s)"

text \<open>How reading may end: by an exception, never by undefined behaviour, with the invariant intact.\<close>

definition aborts :: "('z \<Rightarrow> bool) \<Rightarrow> exn \<Rightarrow> 'z capsule_state_scheme \<Rightarrow> bool" where
  "aborts K e s \<longleftrightarrow> e \<noteq> Undefined \<and> capsule_inv s \<and> K (capsule_state.more s) \<and> rd_ok (reader s)"

named_theorems reading_intros \<open>steps of reading a capsule\<close>

lemma reading_input [reading_intros]:
  assumes "input m" shows "valid (reading K R N F) m (\<lambda>_. reading K R N F) (aborts K)"
proof -
  let ?K = "\<lambda>s. capsule_inv s \<and> K (capsule_state.more s) \<and> shape_refs R N (cs_shapes s) \<and> F (cs_tld2_index s) (cs_units s)"
  have "frame_in ?K"
    by (simp add: frame_in_def frame_err_def capsule_inv_def sets_ok_def)
  from valid_input[OF assms this] have "valid (\<lambda>s. ?K s \<and> rd_ok (reader s)) m (\<lambda>_ s. ?K s \<and> rd_ok (reader s)) (aborts K)"
    by (rule valid_exn) (simp add: aborts_def)
  then show ?thesis by (simp add: reading_def [abs_def])
qed

lemma error_throw_not_Ret: "error_throw e s \<noteq> (Ret x, t)"
  by (simp add: error_throw_eq)

lemma reading_throw [reading_intros]:
  assumes "e \<noteq> Undefined" shows "valid (reading K R N F) (error_throw e) Q (aborts K)"
proof (rule validI)
  show "Q x t" if "error_throw e s = (Ret x, t)" for s x t
    using that by (simp add: error_throw_not_Ret)
  show "aborts K e' t" if "reading K R N F s" "error_throw e s = (Raise e', t)" for s e' t
    using validD_Raise[OF reading_input[OF input_basic(4)[OF assms]] that] .
qed

lemma reading_mono:
  "reading K R N F s \<Longrightarrow> R' \<subseteq> R \<Longrightarrow> N' \<subseteq> N \<Longrightarrow> (\<And>i u. F i u \<Longrightarrow> F' i u) \<Longrightarrow> reading K R' N' F' s"
  unfolding reading_def shape_refs_def by auto

lemma reading_ret: "valid (reading K R N F) (ret x) (\<lambda>_. reading K R N F) (aborts K)"
  by (rule valid_ret)

section \<open>Shape table steps\<close>

lemma se_key_create [simp]: "se_key (shape_entry_create k) = k"
  by (simp add: shape_entry_create_def)

lemma shape_table_add_safe:
  assumes "shapes_safe t" "shape_table_add t k = (r, t')"
  shows "shapes_safe t' \<and> r < length (entries (st_table t')) \<and> length (entries (st_table t)) \<le> length (entries (st_table t'))
    \<and> (\<forall>p<length (entries (st_table t)). shape_entry_at t' p = shape_entry_at t p) \<and> se_key (shape_entry_at t' r) = k"
proof (cases "shape_find (st_table t) k")
  case None
  have wf: "shape_tbl_wf (st_table t)" using assms by (simp add: shapes_safe_def)
  have t': "t' = t\<lparr>st_table := shape_tbl.insert_entry (shape_entry_create k) (st_table t)\<rparr>" "r = length (entries (st_table t))"
    using assms(2) None
    by (auto simp: shape_table_add_def shape_tbl.insert_entry_def table_alloc_def shape_entry_create_def)
  have "shape_tbl_wf (st_table t')"
    unfolding t' using None by (simp, intro shape_tbl.insert_wf [OF wf]) (simp add: shape_entry_create_def)
  then show ?thesis
    using assms(1) by (auto simp: t' shapes_safe_def shape_entry_create_safe shape_entry_at_def nth_append)
next
  case (Some p)
  with assms shape_tbl.get_Some_iff[of "st_table t" k p] show ?thesis
    by (auto simp: shape_table_add_def shapes_safe_def shape_entry_at_def)
qed

lemma reading_shape_add:
  "valid (reading K R N F) (capsule_shape_add k) (\<lambda>r. reading K (insert r R) N F) (aborts K)"
proof (rule validI)
  fix s r t
  assume s: "reading K R N F s" and m: "capsule_shape_add k s = (Ret r, t)"
  obtain sh where sh: "shape_table_add (cs_shapes s) k = (r, sh)" "t = s\<lparr>cs_shapes := sh\<rparr>"
    using m by (auto simp: capsule_shape_add_def split: prod.splits)
  have "shapes_safe (cs_shapes s)" using s by (simp add: reading_def capsule_inv_def)
  from shape_table_add_safe[OF this sh(1)] s sh(2) show "reading K (insert r R) N F t"
    by (auto simp: reading_def capsule_inv_def sets_ok_def shape_refs_def split_beta)
qed (simp add: capsule_shape_add_def split: prod.splits)

text \<open>Replacing one entry by a safe one with the same key that keeps its direct names.\<close>

definition shape_keeps :: "ShapeEntryT \<Rightarrow> ShapeEntryT \<Rightarrow> bool" where
  "shape_keeps e e' \<longleftrightarrow> se_key e' = se_key e \<and> length (entries (se_names e)) \<le> length (entries (se_names e')) \<and>
     (\<forall>n<length (entries (se_names e)). name_entry_is_direct (entries (se_names e) ! n) \<longrightarrow>
        name_entry_is_direct (entries (se_names e') ! n))"

lemma shape_grows_keeps: "shape_grows e e' \<Longrightarrow> shape_keeps e e'"
  by (auto simp: shape_grows_def shape_keeps_def is_direct_iff)

lemma shape_put_safe:
  assumes "shapes_safe t" "r < length (entries (st_table t))" "shape_entry_safe e" "se_key e = se_key (shape_entry_at t r)"
  shows "shapes_safe (shape_entry_put r e t)"
  using assms shape_tbl.set_wf[of "st_table t" r e]
  by (auto simp: shapes_safe_def shape_entry_put_def shape_entry_at_def dest: set_update_subset_insert [THEN subsetD])

lemma shape_put_refs:
  assumes "shape_refs R N t" "r < length (entries (st_table t))" "shape_keeps (shape_entry_at t r) e"
  shows "shape_refs R N (shape_entry_put r e t)"
  using assms unfolding shape_refs_def shape_keeps_def
  by (fastforce simp: shape_entry_put_def shape_entry_at_def nth_list_update)

lemma reading_put:
  assumes "reading K R N F s" "r \<in> R" "shape_entry_safe e" "shape_keeps (shape_entry_at (cs_shapes s) r) e"
  shows "reading K R N F (s\<lparr>cs_shapes := shape_entry_put r e (cs_shapes s)\<rparr>)"
proof -
  have r: "r < length (entries (st_table (cs_shapes s)))" using assms by (auto simp: reading_def shape_refs_def)
  have "shapes_safe (cs_shapes s)" "shape_refs R N (cs_shapes s)"
    using assms by (simp_all add: reading_def capsule_inv_def)
  with shape_put_safe[of "cs_shapes s" r e] shape_put_refs[of R N "cs_shapes s" r e] r assms show ?thesis
    by (auto simp: reading_def capsule_inv_def sets_ok_def shape_keeps_def)
qed

lemma reading_entry_safe:
  "reading K R N F s \<Longrightarrow> r \<in> R \<Longrightarrow> shape_entry_safe (shape_entry_at (cs_shapes s) r)"
  by (auto simp: reading_def capsule_inv_def shapes_safe_def shape_refs_def shape_entry_at_def)

lemma on_shape_eq:
  assumes "r < length (entries (st_table (cs_shapes s)))"
  shows "on_shape r m s = bind (m (shape_entry_at (cs_shapes s) r)) (\<lambda>(x, e').
     bind (modify (\<lambda>s. s\<lparr>cs_shapes := shape_entry_put r e' (cs_shapes s)\<rparr>)) (\<lambda>_. ret x)) s"
  using assms by (simp add: on_shape_def gets_def bind_def index_def shape_entry_at_def)

lemma on_shape_Ret:
  "r < length (entries (st_table (cs_shapes s))) \<Longrightarrow>
   on_shape r m s = (Ret x, t) \<longleftrightarrow> (\<exists>e u. m (shape_entry_at (cs_shapes s) r) s = (Ret (x, e), u)
     \<and> t = u\<lparr>cs_shapes := shape_entry_put r e (cs_shapes u)\<rparr>)"
  by (auto simp: on_shape_eq bind_def modify_def ret_def split: prod.splits outcome.splits)

lemma on_shape_Raise:
  "r < length (entries (st_table (cs_shapes s))) \<Longrightarrow>
   on_shape r m s = (Raise e, t) \<longleftrightarrow> m (shape_entry_at (cs_shapes s) r) s = (Raise e, t)"
  by (auto simp: on_shape_eq bind_def modify_def ret_def split: prod.splits outcome.splits)

lemma reading_ref: "reading K R N F s \<Longrightarrow> r \<in> R \<Longrightarrow> r < length (entries (st_table (cs_shapes s)))"
  by (auto simp: reading_def shape_refs_def)

lemma reading_exit: "reading K R N F s \<Longrightarrow> aborts K Exit_Failure (s\<lparr>exit_status := True\<rparr>)"
  by (simp add: reading_def aborts_def capsule_inv_def sets_ok_def)

lemma reading_name_add:
  assumes "r \<in> R"
  shows "valid (reading K R N F) (on_shape r (name_table_add k)) (\<lambda>n. reading K R (insert (r, n) N) F) (aborts K)"
proof (rule validI)
  fix s n t
  assume s: "reading K R N F s" and m: "on_shape r (name_table_add k) s = (Ret n, t)"
  let ?e = "shape_entry_at (cs_shapes s) r"
  obtain e u where e: "name_table_add k ?e s = (Ret (n, e), u)" "t = u\<lparr>cs_shapes := shape_entry_put r e (cs_shapes u)\<rparr>"
    using m by (auto simp: on_shape_Ret [OF reading_ref [OF s assms]])
  have safe: "shape_entry_safe ?e" using reading_entry_safe[OF s assms] .
  then have sp: "u = s" "shape_grows ?e e" "n < length (entries (se_names e))" "name_entry_is_direct (entries (se_names e) ! n)"
    using name_table_add_spec[OF _ e(1)] by (auto simp: shape_entry_safe_def)
  have "shape_entry_safe e" using name_table_add_outcome[OF safe, of k s] e(1) by auto
  from reading_put[OF s assms this shape_grows_keeps[OF sp(2)]]
  have "reading K R N F t" by (simp add: e(2) sp(1))
  moreover have "r < length (entries (st_table (cs_shapes s)))" using s assms by (auto simp: reading_def shape_refs_def)
  ultimately show "reading K R (insert (r, n) N) F t"
    using sp by (auto simp: reading_def shape_refs_def e(2) shape_entry_put_def shape_entry_at_def)
next
  fix s x t
  assume s: "reading K R N F s" and m: "on_shape r (name_table_add k) s = (Raise x, t)"
  then show "aborts K x t"
    using name_table_add_outcome[OF reading_entry_safe[OF s assms], of k s] reading_exit[OF s]
    by (auto simp: on_shape_Raise [OF reading_ref [OF s assms]])
qed

lemma shape_entry_safe_inc:
  assumes "shape_entry_safe e" "se_id_count e \<noteq> UINT_MAX"
  shows "shape_entry_safe (e\<lparr>se_id_count := se_id_count e + 1\<rparr>)"
  using assms name_wf_mono[of "se_names e" "se_id_count e" _ "se_id_count e + 1" "se_names e"]
    less_imp_le[OF less_inc_id(1)[OF assms(2)]]
  by (auto simp: shape_entry_safe_def shape_entry_wf_def)

lemma reading_next_id:
  assumes "r \<in> R"
  shows "valid (reading K R N F) (on_shape r shape_entry_next_id) (\<lambda>_. reading K R N F) (aborts K)"
proof (rule validI)
  fix s x t
  assume s: "reading K R N F s" and m: "on_shape r shape_entry_next_id s = (Ret x, t)"
  let ?e = "shape_entry_at (cs_shapes s) r"
  have c: "se_id_count ?e \<noteq> UINT_MAX" and t: "t = s\<lparr>cs_shapes := shape_entry_put r (?e\<lparr>se_id_count := se_id_count ?e + 1\<rparr>) (cs_shapes s)\<rparr>"
    using m by (auto simp: on_shape_Ret [OF reading_ref [OF s assms]] shape_entry_next_id_eq split: if_splits)
  show "reading K R N F t" unfolding t
    by (rule reading_put [OF s assms shape_entry_safe_inc[OF reading_entry_safe[OF s assms] c]]) (simp add: shape_keeps_def)
next
  fix s x t
  assume s: "reading K R N F s" and m: "on_shape r shape_entry_next_id s = (Raise x, t)"
  then show "aborts K x t" using reading_exit[OF s] by (auto simp: on_shape_Raise [OF reading_ref [OF s assms]] shape_entry_next_id_eq split: if_splits)
qed


section \<open>Merging usages\<close>

lemma usage_masks:
  "(x AND (U_DEFD OR U_DECD OR U_MULT OR U_USED)) AND U_DEFD = x AND U_DEFD"
  "(x AND (U_DEFD OR U_DECD OR U_MULT OR U_USED)) AND U_MULT = x AND U_MULT"
  "(x AND (U_DEFD OR U_DECD OR U_MULT OR U_USED)) AND (U_MULT OR U_DEFD) = x AND (U_MULT OR U_DEFD)"
  by (simp_all add: usage_defs and.assoc)

lemma and_or_eq_0: "(x::cuint) AND (a OR b) = 0 \<longleftrightarrow> x AND a = 0 \<and> x AND b = 0"
  by (simp add: bit.conj_disj_distrib or_eq_0_iff)

lemma or_and_eq_0: "(x OR y) AND (a::cuint) = 0 \<longleftrightarrow> x AND a = 0 \<and> y AND a = 0"
  by (simp add: bit.conj_disj_distrib2 or_eq_0_iff)

text \<open>The usages a capsule or a library index may not carry.\<close>

definition usage_illegal :: "bool \<Rightarrow> bool \<Rightarrow> cuint \<Rightarrow> bool" where
  "usage_illegal need_dec no_mult use \<longleftrightarrow> use AND NOT (U_USED OR U_DECD OR U_DEFD OR U_MULT) \<noteq> 0
     \<or> no_mult \<and> use AND U_MULT \<noteq> 0
     \<or> need_dec \<and> (use AND (U_DEFD OR U_DECD) = U_DEFD \<or> use AND (U_MULT OR U_DECD) = U_MULT)"

text \<open>Which definition a name has after another usage, given the usage and definition it had.\<close>

definition merge_definition :: "nat \<Rightarrow> cuint \<Rightarrow> cuint \<Rightarrow> nat option \<Rightarrow> nat option" where
  "merge_definition capsule use name_use definition =
     (if use AND U_DEFD \<noteq> 0 \<and> name_use AND U_DEFD \<noteq> 0 then definition
      else if use AND U_MULT \<noteq> 0 \<and> name_use AND U_MULT \<noteq> 0 \<and> use AND U_DEFD = 0 \<and> name_use AND U_DEFD = 0 then None
      else if use AND U_DEFD \<noteq> 0 \<or> (use AND U_MULT \<noteq> 0 \<and> name_use AND U_MULT = 0 \<and> name_use AND U_DEFD = 0) then Some capsule
      else definition)"

definition merge_direct :: "nat \<Rightarrow> cuint \<Rightarrow> NameDirectT \<Rightarrow> NameDirectT" where
  "merge_direct capsule use d = d\<lparr>nd_use := nd_use d OR use,
     nd_definition := merge_definition capsule use (nd_use d) (nd_definition d)\<rparr>"

lemma merge_definition_defined:
  assumes "name_use AND U_DEFD \<noteq> 0 \<longrightarrow> definition \<noteq> None"
  shows "(name_use OR use) AND U_DEFD \<noteq> 0 \<longrightarrow> merge_definition capsule use name_use definition \<noteq> None"
  using assms by (auto simp: merge_definition_def or_and_eq_0)

lemma capsule_merge_usage_eq:
  assumes d: "ne_u n = NT_DIRECT d" and df: "nd_use d AND U_DEFD \<noteq> 0 \<longrightarrow> nd_definition d \<noteq> None"
  shows "capsule_merge_usage capsule need_dec no_mult use n s =
    (if usage_illegal need_dec no_mult use then error_throw XX_capsule_error s
     else bind (if use AND U_DEFD \<noteq> 0 \<and> nd_use d AND U_DEFD \<noteq> 0 then error_msg ERR_SERIOUS else ret ())
       (\<lambda>_. ret (n\<lparr>ne_u := NT_DIRECT (merge_direct capsule use d)\<rparr>)) s)"
proof -
  have g: "name_entry_get_use n = Some (nd_use d AND (U_DEFD OR U_DECD OR U_MULT OR U_USED))"
    "name_entry_get_definition n = Some (nd_definition d)"
    "name_entry_set_definition x n = Some (n\<lparr>ne_u := NT_DIRECT (d\<lparr>nd_definition := x\<rparr>)\<rparr>)"
    "name_entry_merge_use use n = Some (n\<lparr>ne_u := NT_DIRECT (d\<lparr>nd_use := nd_use d OR use\<rparr>)\<rparr>)"
    "name_entry_merge_use use (n\<lparr>ne_u := NT_DIRECT d'\<rparr>) = Some (n\<lparr>ne_u := NT_DIRECT (d'\<lparr>nd_use := nd_use d' OR use\<rparr>)\<rparr>)"
    for x d'
    using d by (simp_all add: name_entry_get_use_def name_entry_get_definition_def name_entry_set_definition_def
        name_entry_merge_use_def direct_update_def direct_def)
  show ?thesis
  proof (cases "usage_illegal need_dec no_mult use")
    case True
    then show ?thesis by (auto simp: capsule_merge_usage_def usage_illegal_def g)
  next
    case False
    note legal = this[unfolded usage_illegal_def]
    show ?thesis
    proof (cases "use AND U_DEFD \<noteq> 0 \<and> nd_use d AND U_DEFD \<noteq> 0")
      case True
      then obtain c where c: "nd_definition d = Some c" using df by auto
      have "merge_direct capsule use d = d\<lparr>nd_use := nd_use d OR use\<rparr>"
        using True by (simp add: merge_direct_def merge_definition_def)
      with True c legal False show ?thesis
        by (auto simp: capsule_merge_usage_def g usage_masks bind_def ret_def split: prod.splits outcome.splits)
    next
      case nd: False
      with legal False show ?thesis
        by (auto simp: capsule_merge_usage_def g usage_masks and_or_eq_0 merge_direct_def merge_definition_def
            bind_def ret_def defined_def)
    qed
  qed
qed

lemma shape_entry_safe_direct:
  assumes safe: "shape_entry_safe e" and r: "r < length (entries (se_names e))"
    and d: "ne_u (entries (se_names e) ! r) = NT_DIRECT d" and id: "nd_id d' = nd_id d"
    and df: "nd_use d' AND U_DEFD \<noteq> 0 \<longrightarrow> nd_definition d' \<noteq> None"
  shows "shape_entry_safe (e\<lparr>se_names := table_set r ((entries (se_names e) ! r)\<lparr>ne_u := NT_DIRECT d'\<rparr>) (se_names e)\<rparr>)"
  using shape_entry_wf_direct[OF _ r d id] safe r df
  by (auto simp: shape_entry_safe_def nth_list_update)

lemma shape_keeps_direct:
  "shape_keeps e (e\<lparr>se_names := table_set r ((entries (se_names e) ! r)\<lparr>ne_u := NT_DIRECT d'\<rparr>) (se_names e)\<rparr>)"
  by (cases "r < length (entries (se_names e))") (auto simp: shape_keeps_def nth_list_update)

definition name_ref :: "nat \<Rightarrow> nat \<Rightarrow> 'z capsule_state_scheme \<Rightarrow> bool" where
  "name_ref r n s \<longleftrightarrow> r < length (entries (st_table (cs_shapes s)))
     \<and> n < length (entries (se_names (shape_entry_at (cs_shapes s) r)))"

lemma reading_name_ref: "reading K R N F s \<Longrightarrow> (r, n) \<in> N \<Longrightarrow> name_ref r n s"
  by (auto simp: reading_def shape_refs_def name_ref_def)

lemma on_name_Ret:
  "name_ref r n s \<Longrightarrow> on_name r n m s = (Ret x, t) \<longleftrightarrow>
   (\<exists>n' u. m (entries (se_names (shape_entry_at (cs_shapes s) r)) ! n) s = (Ret (x, n'), u)
     \<and> t = u\<lparr>cs_shapes := shape_entry_put r ((shape_entry_at (cs_shapes s) r)\<lparr>se_names :=
          table_set n n' (se_names (shape_entry_at (cs_shapes s) r))\<rparr>) (cs_shapes u)\<rparr>)"
  by (auto simp: name_ref_def on_name_def on_shape_Ret bind_Ret_iff ret_def)

lemma on_name_Raise:
  "name_ref r n s \<Longrightarrow> on_name r n m s = (Raise e, t) \<longleftrightarrow>
   m (entries (se_names (shape_entry_at (cs_shapes s) r)) ! n) s = (Raise e, t)"
  by (auto simp: name_ref_def on_name_def on_shape_Raise bind_def ret_def split: prod.splits outcome.splits)

lemma bind_ret_Raise: "bind m (\<lambda>x. ret (f x)) s = (Raise e, t) \<longleftrightarrow> m s = (Raise e, t)"
  by (auto simp: bind_def ret_def split: prod.splits outcome.splits)

lemma reading_merge_usage:
  assumes "(r, n) \<in> N"
  shows "valid (reading K R N F) (on_name r n (\<lambda>e. bind (capsule_merge_usage capsule need_dec no_mult use e) (\<lambda>e. ret ((), e)))) (\<lambda>_. reading K R N F) (aborts K)"
proof (rule validI)
  fix s t :: "'a capsule_state_scheme" and x
  let ?e = "shape_entry_at (cs_shapes s) r"
  let ?n = "entries (se_names ?e) ! n"
  assume s: "reading K R N F s"
  have s': "reading K (insert r R) N F s" using s assms by (auto simp: reading_def shape_refs_def)
  have nl: "n < length (entries (se_names ?e))" and dir: "name_entry_is_direct ?n"
    using s assms by (auto simp: reading_def shape_refs_def)
  then obtain d where d: "ne_u ?n = NT_DIRECT d" by (auto simp: is_direct_iff)
  have safe: "shape_entry_safe ?e" using reading_entry_safe[OF s'] by simp
  then have df: "nd_use d AND U_DEFD \<noteq> 0 \<longrightarrow> nd_definition d \<noteq> None"
    using nl d by (simp add: shape_entry_safe_def)
  note eq = capsule_merge_usage_eq[OF d df, of capsule need_dec no_mult use s]
  {
    assume m: "on_name r n (\<lambda>e. bind (capsule_merge_usage capsule need_dec no_mult use e) (\<lambda>e. ret ((), e))) s = (Ret x, t)"
    let ?d = "merge_direct capsule use d"
    have "nd_use ?d AND U_DEFD \<noteq> 0 \<longrightarrow> nd_definition ?d \<noteq> None"
      using merge_definition_defined[OF df] by (simp add: merge_direct_def)
    then have E: "shape_entry_safe (?e\<lparr>se_names := table_set n (?n\<lparr>ne_u := NT_DIRECT ?d\<rparr>) (se_names ?e)\<rparr>)"
      by (intro shape_entry_safe_direct [OF safe nl d]) (simp add: merge_direct_def)
    obtain u where u: "(if use AND U_DEFD \<noteq> 0 \<and> nd_use d AND U_DEFD \<noteq> 0 then error_msg ERR_SERIOUS else ret ()) s = (Ret (), u)"
      "t = u\<lparr>cs_shapes := shape_entry_put r (?e\<lparr>se_names := table_set n (?n\<lparr>ne_u := NT_DIRECT ?d\<rparr>) (se_names ?e)\<rparr>) (cs_shapes u)\<rparr>"
      using m eq by (auto simp: on_name_Ret [OF reading_name_ref [OF s assms]] error_throw_not_Ret bind_Ret_iff ret_def split: if_splits)
    have u': "reading K (insert r R) N F u" "cs_shapes u = cs_shapes s"
      using u(1) s' by (auto simp: ret_def error_msg_serious reading_def capsule_inv_def sets_ok_def split: if_splits)
    have "reading K (insert r R) N F t"
      unfolding u(2) by (rule reading_put [OF u'(1) _ E]) (simp_all only: u'(2) shape_keeps_direct insertI1)
    then show "reading K R N F t" by (rule reading_mono) auto
  next
    fix e'
    assume m: "on_name r n (\<lambda>e. bind (capsule_merge_usage capsule need_dec no_mult use e) (\<lambda>e. ret ((), e))) s = (Raise e', t)"
    then have "(if usage_illegal need_dec no_mult use then error_throw XX_capsule_error s
     else bind (if use AND U_DEFD \<noteq> 0 \<and> nd_use d AND U_DEFD \<noteq> 0 then error_msg ERR_SERIOUS else ret ())
       (\<lambda>_. ret (?n\<lparr>ne_u := NT_DIRECT (merge_direct capsule use d)\<rparr>)) s) = (Raise e', t)"
      by (simp add: on_name_Raise [OF reading_name_ref [OF s assms]] bind_ret_Raise eq)
    moreover have "input (if usage_illegal need_dec no_mult use then error_throw XX_capsule_error
     else bind (if use AND U_DEFD \<noteq> 0 \<and> nd_use d AND U_DEFD \<noteq> 0 then error_msg ERR_SERIOUS else ret ())
       (\<lambda>_. ret (?n\<lparr>ne_u := NT_DIRECT (merge_direct capsule use d)\<rparr>)))" (is "input ?m")
      by (intro input_intros) simp
    ultimately show "aborts K e' t"
      using validD_Raise[OF reading_input s, of ?m e' t] by (simp split: if_splits)
  }
qed

end
