(* ===== verification/Capsule_Safety.thy ===== *)
theory Capsule_Safety
  imports Reading
begin

text \<open>
  Reading a capsule, from the header to the last unit: triples for every function of
  \<^verbatim>\<open>tld/src/adt/capsule.c\<close> that \<^verbatim>\<open>capsule_read\<close> calls. They end in \<open>capsule_read_safe\<close>: whatever
  bytes the input holds, reading returns or throws, never runs into undefined behaviour, and leaves
  the tables well formed.
\<close>

section \<open>Header and unit set names\<close>

lemma reading_modify:
  assumes "\<And>s. cs_shapes (f s) = cs_shapes s" "\<And>s. cs_units (f s) = cs_units s" "\<And>s. cs_unit_sets (f s) = cs_unit_sets s"
    "\<And>s. cs_need_setup (f s) = cs_need_setup s" "\<And>s. capsule_state.more (f s) = capsule_state.more s"
    "\<And>s. cs_tld_index (f s) = cs_tld_index s" "\<And>s. cs_tld2_index (f s) = cs_tld2_index s" "\<And>s. reader (f s) = reader s"
  shows "valid (reading K R N F) (modify f) (\<lambda>_. reading K R N F) (aborts K)"
  by (rule valid_modify) (simp add: reading_def capsule_inv_def sets_ok_def assms)

lemmas reading_steps = reading_input [OF input_tdf(1)] reading_input [OF input_tdf(2)] reading_input [OF input_tdf(3)]
  reading_input [OF input_tdf(4)] reading_input [OF input_tdf(5)] reading_input [OF input_tdf(6)] reading_input [OF input_tdf(7)]
  reading_input [OF input_tdf(8)] reading_input [OF input_basic(2)] reading_input [OF input_basic(3)]

lemma reading_bind:
  "valid (reading K R N F) m (\<lambda>_. reading K R N F) (aborts K) \<Longrightarrow> (\<And>x. valid (reading K R N F) (f x) Q (aborts K)) \<Longrightarrow>
   valid (reading K R N F) (bind m f) Q (aborts K)"
  by (rule valid_bind)

lemma valid_case_prod:
  "(\<And>a b. x = (a, b) \<Longrightarrow> valid (P a b) (f a b) Q X) \<Longrightarrow>
   valid (case x of (a, b) \<Rightarrow> P a b) (case x of (a, b) \<Rightarrow> f a b) Q X"
  by (cases x) simp

lemma reading_header: "valid (reading K R N F) capsule_read_header (\<lambda>_. reading K R N F) (aborts K)"
  unfolding capsule_read_header_def
  by (intro reading_bind reading_steps valid_if reading_throw reading_ret reading_modify) simp_all

lemma reading_tld_entry: "valid (reading K R N F) capsule_tld_entry (\<lambda>_. reading K R N F) (aborts K)"
  by (auto simp: valid_def capsule_tld_entry_def reading_def capsule_inv_def sets_ok_def bind_def gets_def check_def ret_def)

lemma reading_tld2_entry:
  "valid (reading K R N F) capsule_tld2_entry (\<lambda>e. reading K R N (\<lambda>i u. F i u \<and> (e \<noteq> None \<longrightarrow> i \<noteq> UINT_MAX))) (aborts K)"
  by (auto simp: valid_def capsule_tld2_entry_def reading_def capsule_inv_def sets_ok_def bind_def gets_def check_def ret_def)

lemma input_check_order [input_intros]: "input (capsule_check_order units entry us)"
  by (induction us) (simp_all add: input_intros)

definition units_ref :: "nat set \<Rightarrow> cuint \<Rightarrow> UnitTableT \<Rightarrow> bool" where
  "units_ref U i u \<longleftrightarrow> (\<forall>x\<in>U. x < length (entries u))"

lemma reading_gets_units:
  "valid (reading K R N F) (gets cs_units) (\<lambda>u. reading K R N (\<lambda>i u'. u' = u \<and> F i u' \<and> unit_table_wf u')) (aborts K)"
  by (rule valid_gets) (simp add: reading_def capsule_inv_def)

lemma reading_unit_set_names_loop:
  "valid (reading K R N (units_ref (set us))) (capsule_read_unit_set_names_loop te t2 n has us)
     (\<lambda>(_, us'). reading K R N (units_ref (set us'))) (aborts K)"
proof (induction n arbitrary: has us)
  case 0
  show ?case by (simp add: valid_ret)
next
  case (Suc n)
  have step: "valid (reading K R N (\<lambda>i u'. u' = u \<and> units_ref (set us) i u' \<and> unit_table_wf u'))
     (case unit_table_get u ns of
       None \<Rightarrow> error_throw XX_capsule_error
     | Some entry \<Rightarrow>
         bind (capsule_check_order u entry us) (\<lambda>_.
         bind (if Some entry = t2 then error_msg ERR_SERIOUS else ret ()) (\<lambda>_.
         if Some entry = te \<or> Some entry = t2 then
           if has then error_throw XX_capsule_error
           else capsule_read_unit_set_names_loop te t2 n True (us @ [entry])
         else capsule_read_unit_set_names_loop te t2 n has (us @ [entry]))))
     (\<lambda>(_, us'). reading K R N (units_ref (set us'))) (aborts K :: exn \<Rightarrow> 'a capsule_state_scheme \<Rightarrow> bool)" (is "valid (reading K R N ?F) _ _ _") for u ns
  proof (cases "unit_table_get u ns")
    case None
    then show ?thesis by (simp add: reading_throw)
  next
    case (Some entry)
    have ext: "reading K R N ?F s \<Longrightarrow> reading K R N (units_ref (set (us @ [entry]))) s" for s :: "'a capsule_state_scheme"
      using Some by (auto simp: reading_def units_ref_def unit_tbl.get_Some_iff)
    show ?thesis unfolding Some option.case
      by (intro valid_bind [where R = "\<lambda>_. reading K R N ?F"] reading_input input_check_order input_intros valid_if
          reading_throw valid_pre [OF Suc ext]) simp_all
  qed
  show ?case
    by (simp only: capsule_read_unit_set_names_loop.simps)
      (intro valid_bind [OF reading_input [OF input_tdf(5)]] valid_bind [OF reading_gets_units] step)
qed

lemma reading_unit_set_names:
  "valid (reading K R N (units_ref {})) capsule_read_unit_set_names (\<lambda>us. reading K R N (units_ref (set us))) (aborts K)"
proof -
  have fin: "valid (reading K R N (units_ref (set us))) (bind (if \<not> h then error_msg ERR_WARN else ret ()) (\<lambda>_. ret us))
    (\<lambda>us. reading K R N (units_ref (set us))) (aborts K)" for h us
    by (intro valid_bind [where R = "\<lambda>_. reading K R N (units_ref (set us))"] reading_input input_intros) (rule valid_ret)
  have l: "valid (reading K R N (units_ref {})) (capsule_read_unit_set_names_loop te t2 n False [])
     (\<lambda>(_, us'). reading K R N (units_ref (set us'))) (aborts K)" for te t2 n
    using reading_unit_set_names_loop[of K R N "[]"] by simp
  have t2: "valid (reading K R N (units_ref {})) capsule_tld2_entry (\<lambda>_. reading K R N (units_ref {})) (aborts K)"
    by (rule valid_post [OF reading_tld2_entry], erule reading_mono) auto
  show ?thesis unfolding capsule_read_unit_set_names_def
    by (intro valid_bind [OF reading_input [OF input_tdf(2)]] valid_bind [OF reading_tld_entry] valid_bind [OF t2]
        valid_bind [OF l] valid_case_prod fin)
qed

section \<open>Shapes and external names\<close>

definition sd_ok :: "ShapeDataT \<Rightarrow> bool" where
  "sd_ok sd \<longleftrightarrow> length (sd_id_maps sd) = unat (sd_num_ids sd)"

definition sds_ok :: "ShapeDataT list \<Rightarrow> bool" where
  "sds_ok sds \<longleftrightarrow> list_all sd_ok sds"

lemma reading_shapes_loop:
  assumes "sds_ok sds"
  shows "valid (reading K (sd_entry ` set sds) N F) (capsule_read_shapes_loop n sds)
    (\<lambda>sds' s. reading K (sd_entry ` set sds') N F s \<and> sds_ok sds') (aborts K)"
  using assms
proof (induction n arbitrary: sds)
  case 0
  then show ?case by (auto intro: valid_ret)
next
  case (Suc n)
  have step: "valid (reading K (insert entry (sd_entry ` set sds)) N F)
     (if entry \<in> set (map sd_entry sds) then error_throw XX_capsule_error
     else capsule_read_shapes_loop n (sds @
       [\<lparr>sd_entry = entry, sd_num_ids = num_ids, sd_id_maps = replicate (unat num_ids) UINT_MAX\<rparr>]))
    (\<lambda>sds' s. reading K (sd_entry ` set sds') N F s \<and> sds_ok sds') (aborts K :: exn \<Rightarrow> 'a capsule_state_scheme \<Rightarrow> bool)" for entry num_ids
    using Suc.IH[of "sds @ [\<lparr>sd_entry = entry, sd_num_ids = num_ids, sd_id_maps = replicate (unat num_ids) UINT_MAX\<rparr>]"] Suc.prems
    by (intro valid_if reading_throw) (simp_all add: sds_ok_def sd_ok_def)
  show ?case
    by (simp only: capsule_read_shapes_loop.simps)
      (intro valid_bind [OF reading_input [OF input_tdf(5)]] valid_bind [OF reading_input [OF input_tdf(2)]]
        valid_bind [OF reading_shape_add] step)
qed

lemma reading_shapes:
  "valid (reading K {} N F) capsule_read_shapes (\<lambda>sds s. reading K (sd_entry ` set sds) N F s \<and> sds_ok sds) (aborts K)"
  unfolding capsule_read_shapes_def
  by (rule valid_bind [OF reading_input [OF input_tdf(2)]]) (use reading_shapes_loop[of "[]"] in \<open>simp add: sds_ok_def\<close>)

lemma reading_name_id:
  assumes "(r, n) \<in> N"
  shows "valid (reading K R N F) (on_name r n (\<lambda>e. bind (defined (name_entry_id e)) (\<lambda>name_id. ret (name_id, e))))
    (\<lambda>_. reading K R N F) (aborts K)"
proof (rule validI)
  fix s t :: "'a capsule_state_scheme" and x
  let ?e = "shape_entry_at (cs_shapes s) r"
  assume s: "reading K R N F s"
  have ref: "name_ref r n s" using reading_name_ref[OF s assms] .
  have "name_entry_is_direct (entries (se_names ?e) ! n)" using s assms by (auto simp: reading_def shape_refs_def)
  then obtain d where d: "ne_u (entries (se_names ?e) ! n) = NT_DIRECT d" by (auto simp: is_direct_iff)
  {
    assume "on_name r n (\<lambda>e. bind (defined (name_entry_id e)) (\<lambda>name_id. ret (name_id, e))) s = (Ret x, t)"
    then have "t = s\<lparr>cs_shapes := shape_entry_put r ?e (cs_shapes s)\<rparr>"
      by (auto simp: on_name_Ret [OF ref] bind_Ret_iff ret_def defined_def table_set_def split: option.splits)
    also have "\<dots> = s" using ref by (simp add: name_ref_def shape_entry_put_def shape_entry_at_def table_set_def)
    finally show "reading K R N F t" using s by simp
  next
    fix e
    assume "on_name r n (\<lambda>e. bind (defined (name_entry_id e)) (\<lambda>name_id. ret (name_id, e))) s = (Raise e, t)"
    then show "aborts K e t" using d by (simp add: on_name_Raise [OF ref] ret_def name_entry_id_def direct_def)
  }
qed

lemma valid_index:
  "(\<And>s. P s \<Longrightarrow> i < length xs) \<Longrightarrow> (i < length xs \<Longrightarrow> valid P (f (xs ! i)) Q X) \<Longrightarrow> valid P (bind (index xs i) f) Q X"
  by (rule valid_assume [where A = "i < length xs"]) simp_all

lemma reading_external_names_loop:
  assumes "sd_entry sd \<in> R" "sd_ok sd"
  shows "valid (reading K R (N \<union> {sd_entry sd} \<times> set ns) F) (capsule_read_external_names_loop n sd ns)
    (\<lambda>(ns', sd') s. reading K R (N \<union> {sd_entry sd} \<times> set ns') F s \<and> sd_entry sd' = sd_entry sd \<and> sd_ok sd') (aborts K)"
  using assms
proof (induction n arbitrary: sd ns)
  case 0
  then show ?case by (auto intro: valid_ret)
next
  case (Suc n)
  let ?N = "\<lambda>ns. N \<union> {sd_entry sd} \<times> set ns"
  let ?Q = "\<lambda>(ns', sd') (s :: 'a capsule_state_scheme). reading K R (?N ns') F s \<and> sd_entry sd' = sd_entry sd \<and> sd_ok sd'"
  have ins: "insert (sd_entry sd, x) (?N ns) = ?N (ns @ [x])" for x by auto
  have add: "valid (reading K R (?N ns) F) (on_shape (sd_entry sd) (name_table_add k)) (\<lambda>x. reading K R (?N (ns @ [x])) F) (aborts K)" for k
    using reading_name_add[OF Suc.prems(1), of K "?N ns" F k] by (simp only: ins)
  have tail: "valid (reading K R (?N (ns @ [x])) F) (capsule_read_external_names_loop n
           (sd\<lparr>sd_id_maps := (sd_id_maps sd)[unat id := name_id]\<rparr>) (ns @ [x])) ?Q (aborts K)" for x id name_id
    using Suc.IH[of "sd\<lparr>sd_id_maps := (sd_id_maps sd)[unat id := name_id]\<rparr>" "ns @ [x]"] Suc.prems by (simp add: sd_ok_def)
  have idx: "unat id < length (sd_id_maps sd)" if "\<not> sd_num_ids sd \<le> id" for id
    using that Suc.prems(2) by (simp add: sd_ok_def word_le_nat_alt)
  show ?case
    unfolding capsule_read_external_names_loop.simps
    by (intro valid_bind [OF reading_input [OF input_tdf(2)]] valid_bind [OF reading_input [OF input_tdf(6)]]
        valid_if reading_throw valid_bind [OF add] valid_index valid_bind [OF reading_name_id] tail idx) simp_all
qed

text \<open>The names the vectors of names point to.\<close>

definition name_refs :: "ShapeDataT list \<Rightarrow> nat list list \<Rightarrow> (nat \<times> nat) set" where
  "name_refs sds nss = (\<Union>(sd, ns)\<in>set (zip sds nss). {sd_entry sd} \<times> set ns)"

lemma reading_external_names_each:
  assumes "sd_entry ` set sds \<subseteq> R" "sds_ok sds"
  shows "valid (reading K R N F) (capsule_read_external_names_each sds)
    (\<lambda>(nss, sds') s. reading K R (N \<union> name_refs sds' nss) F s \<and> map sd_entry sds' = map sd_entry sds \<and> sds_ok sds'
       \<and> length nss = length sds) (aborts K)"
  using assms
proof (induction sds arbitrary: N)
  case Nil
  then show ?case by (simp add: valid_ret name_refs_def sds_ok_def)
next
  case (Cons sd sds)
  let ?Q = "\<lambda>(nss, sds') (s :: 'a capsule_state_scheme). reading K R (N \<union> name_refs sds' nss) F s \<and> map sd_entry sds' = map sd_entry (sd # sds) \<and> sds_ok sds'
       \<and> length nss = length (sd # sds)"
  have one: "valid (reading K R N F) (capsule_read_external_names_1 sd)
     (\<lambda>(ns, sd') s. reading K R (N \<union> {sd_entry sd} \<times> set ns) F s \<and> sd_entry sd' = sd_entry sd \<and> sd_ok sd') (aborts K)"
    unfolding capsule_read_external_names_1_def
    by (rule valid_bind [OF reading_input [OF input_tdf(2)]])
      (use reading_external_names_loop[of sd R K N "[]" F] Cons.prems in \<open>simp add: sds_ok_def\<close>)
  have rest: "valid (\<lambda>s. reading K R (N \<union> {sd_entry sd} \<times> set ns) F s \<and> sd_entry sd' = sd_entry sd \<and> sd_ok sd')
     (bind (capsule_read_external_names_each sds) (\<lambda>(nss, sds). ret (ns # nss, sd' # sds))) ?Q
     (aborts K :: exn \<Rightarrow> 'a capsule_state_scheme \<Rightarrow> bool)" for ns sd'
  proof (rule valid_assume [where A = "sd_entry sd' = sd_entry sd \<and> sd_ok sd'"], simp)
    assume sd': "sd_entry sd' = sd_entry sd \<and> sd_ok sd'"
    have un: "N \<union> {sd_entry sd} \<times> set ns \<union> name_refs sds' nss = N \<union> name_refs (sd' # sds') (ns # nss)" for sds' nss
      using sd' by (auto simp: name_refs_def)
    have "valid (reading K R (N \<union> {sd_entry sd} \<times> set ns) F)
       (bind (capsule_read_external_names_each sds) (\<lambda>(nss, sds). ret (ns # nss, sd' # sds))) ?Q
       (aborts K :: exn \<Rightarrow> 'a capsule_state_scheme \<Rightarrow> bool)"
      by (rule valid_bind [OF Cons.IH])
        (use Cons.prems sd' in \<open>auto simp: sds_ok_def un intro!: valid_ret\<close>)
    then show "valid (\<lambda>s. reading K R (N \<union> {sd_entry sd} \<times> set ns) F s \<and> sd_entry sd' = sd_entry sd \<and> sd_ok sd')
     (bind (capsule_read_external_names_each sds) (\<lambda>(nss, sds). ret (ns # nss, sd' # sds))) ?Q (aborts K)"
      by (rule valid_pre) simp
  qed
  show ?case unfolding capsule_read_external_names_each.simps
    by (intro valid_bind [OF one] valid_case_prod rest)
qed

lemma reading_external_names:
  assumes "sd_entry ` set sds \<subseteq> R" "sds_ok sds"
  shows "valid (reading K R {} F) (capsule_read_external_names sds)
    (\<lambda>(nss, sds') s. reading K R (name_refs sds' nss) F s \<and> map sd_entry sds' = map sd_entry sds \<and> sds_ok sds'
       \<and> length nss = length sds) (aborts K)"
  unfolding capsule_read_external_names_def
  by (intro reading_bind reading_steps valid_if reading_throw) (use reading_external_names_each[OF assms, of K "{}" F] in simp_all)

section \<open>Linker information units\<close>

lemma reading_usage:
  assumes "{r} \<times> set ns \<subseteq> N"
  shows "valid (reading K R N F) (capsule_read_usage capsule r ns need_dec no_mult) (\<lambda>_. reading K R N F) (aborts K)"
  unfolding capsule_read_usage_def
  by (intro valid_for_each reading_bind reading_steps reading_merge_usage) (use assms in auto)

lemma reading_token_tag:
  "valid (reading K R N F) (capsule_get_token_index sds) (\<lambda>i s. reading K R N F s \<and> (\<forall>j. i = Some j \<longrightarrow> j < length sds)) (aborts K)"
  "valid (reading K R N F) (capsule_get_tag_index sds) (\<lambda>i s. reading K R N F s \<and> (\<forall>j. i = Some j \<longrightarrow> j < length sds)) (aborts K)"
proof -
  have idx: "capsule_entry_index e i sds = Some j \<Longrightarrow> j < i + length sds" for e i j
    by (induction sds arbitrary: i) (fastforce split: if_splits)+
  have upd: "reading K R N F (s\<lparr>cs_shapes := (cs_shapes s)\<lparr>st_token_entry := t\<rparr>\<rparr>) = reading K R N F s"
    "reading K R N F (s\<lparr>cs_shapes := (cs_shapes s)\<lparr>st_tag_entry := t\<rparr>\<rparr>) = reading K R N F s" for s t
    by (simp_all add: reading_def capsule_inv_def sets_ok_def shapes_safe_def shape_refs_def shape_entry_at_def)
  show "valid (reading K R N F) (capsule_get_token_index sds) (\<lambda>i s. reading K R N F s \<and> (\<forall>j. i = Some j \<longrightarrow> j < length sds)) (aborts K)"
    by (auto simp: valid_def capsule_get_token_index_def shape_table_get_token_entry_def Let_def upd dest: idx [where i = 0, simplified])
  show "valid (reading K R N F) (capsule_get_tag_index sds) (\<lambda>i s. reading K R N F s \<and> (\<forall>j. i = Some j \<longrightarrow> j < length sds)) (aborts K)"
    by (auto simp: valid_def capsule_get_tag_index_def shape_table_get_tag_entry_def Let_def upd dest: idx [where i = 0, simplified])
qed

lemma name_refs_nth: "i < length sds \<Longrightarrow> length nss = length sds \<Longrightarrow> {sd_entry (sds ! i)} \<times> set (nss ! i) \<subseteq> name_refs sds nss"
  by (fastforce simp: name_refs_def set_zip)

lemma reading_usage_nth:
  assumes "i < length sds" "length nss = length sds" "name_refs sds nss \<subseteq> N"
  shows "valid (reading K R N F) (bind (index nss i) (\<lambda>ns. capsule_read_usage capsule (sd_entry (sds ! i)) ns nd nm)) (\<lambda>_. reading K R N F) (aborts K)"
  by (intro valid_index reading_usage) (use assms name_refs_nth[OF assms(1,2)] in auto)

lemma reading_tld_types:
  assumes "length nss = length sds" "name_refs sds nss \<subseteq> N"
  shows "valid (reading K R N F) (capsule_read_tld_type_0_unit capsule sds nss) (\<lambda>_. reading K R N F) (aborts K)"
    "valid (reading K R N F) (capsule_read_tld_type_1_unit capsule sds nss) (\<lambda>_. reading K R N F) (aborts K)"
proof -
  have opt: "valid (\<lambda>s. reading K R N F s \<and> (\<forall>j. i = Some j \<longrightarrow> j < length sds))
    (case i of None \<Rightarrow> ret () | Some i \<Rightarrow> bind (index nss i) (\<lambda>ns. capsule_read_usage capsule (sd_entry (sds ! i)) ns nd nm))
    (\<lambda>_. reading K R N F) (aborts K)" for i nd nm
    by (rule valid_assume [where A = "\<forall>j. i = Some j \<longrightarrow> j < length sds"], simp, rule valid_pre [where P' = "reading K R N F"])
      (use reading_usage_nth assms in \<open>auto split: option.splits intro!: valid_ret\<close>)
  show "valid (reading K R N F) (capsule_read_tld_type_0_unit capsule sds nss) (\<lambda>_. reading K R N F) (aborts K)"
    unfolding capsule_read_tld_type_0_unit_def
    by (intro valid_bind [OF reading_token_tag(1)] valid_bind [OF opt] valid_bind [OF reading_token_tag(2)] opt)
  have any: "valid (reading K R N F) (capsule_get_token_index sds) (\<lambda>_. reading K R N F) (aborts K)"
     "valid (reading K R N F) (capsule_get_tag_index sds) (\<lambda>_. reading K R N F) (aborts K)"
    by (rule valid_post [OF reading_token_tag(1)], simp, rule valid_post [OF reading_token_tag(2)], simp)
  show "valid (reading K R N F) (capsule_read_tld_type_1_unit capsule sds nss) (\<lambda>_. reading K R N F) (aborts K)"
    unfolding capsule_read_tld_type_1_unit_def
    by (intro valid_bind [OF any(1)] valid_bind [OF any(2)] valid_for_each reading_usage_nth) (use assms in auto)
qed

lemma reading_tld_header: "valid (reading K R N F) capsule_read_tld_unit_header (\<lambda>_. reading K R N F) (aborts K)"
  unfolding capsule_read_tld_unit_header_def
  by (intro reading_bind reading_steps valid_if reading_throw reading_modify) simp_all

lemma reading_tld_trailer: "valid (reading K R N F) capsule_read_tld_unit_trailer (\<lambda>_. reading K R N F) (aborts K)"
  unfolding capsule_read_tld_unit_trailer_def
  by (intro reading_bind reading_steps valid_if reading_throw reading_ret) simp_all

lemma reading_tld_units:
  assumes "length nss = length sds" "name_refs sds nss \<subseteq> N"
  shows "valid (reading K R N F) (capsule_read_tld_units capsule sds nss) (\<lambda>_. reading K R N F) (aborts K)"
  unfolding capsule_read_tld_units_def
  by (intro reading_bind reading_steps reading_tld_header reading_tld_trailer reading_tld_types [OF assms] valid_if reading_throw)
    simp_all

text \<open>The caller reads a \<^verbatim>\<open>tld2\<close> unit set only when there is one.\<close>

lemma reading_tld2_units:
  assumes "length nss = length sds" "name_refs sds nss \<subseteq> N" "\<And>i u. F i u \<Longrightarrow> i \<noteq> UINT_MAX"
  shows "valid (reading K R N F) (capsule_read_tld2_units capsule sds nss) (\<lambda>_. reading K R N F) (aborts K)"
proof -
  have "valid (reading K R N F) (gets cs_tld2_index) (\<lambda>i s. reading K R N F s \<and> i \<noteq> UINT_MAX) (aborts K)"
    by (rule valid_gets) (use assms(3) in \<open>auto simp: reading_def\<close>)
  note g = valid_bind [OF this]
  have "valid (\<lambda>s. reading K R N F s \<and> i \<noteq> UINT_MAX) (check (i \<noteq> UINT_MAX)) (\<lambda>_. reading K R N F) (aborts K)" for i
    by (simp add: valid_def check_def)
  note c = valid_bind [OF this]
  show ?thesis unfolding capsule_read_tld2_units_def
    by (intro g c reading_bind reading_tld_header reading_tld_types [OF assms(1,2)] reading_tld_trailer)
qed

section \<open>Units\<close>

text \<open>The unit being read: it is there, and \<open>P\<close> holds of its mapping table.\<close>

definition unit_has :: "nat \<Rightarrow> nat \<Rightarrow> (MapTableT option \<Rightarrow> bool) \<Rightarrow> UnitTableT \<Rightarrow> bool" where
  "unit_has ue j P u \<longleftrightarrow> ue < length (entries u) \<and> j < length (ue_units (entries u ! ue)) \<and>
     P (un_map_table (ue_units (entries u ! ue) ! j))"

definition in_unit :: "(cuint \<Rightarrow> nat \<Rightarrow> bool) \<Rightarrow> nat \<Rightarrow> nat \<Rightarrow> (MapTableT option \<Rightarrow> bool) \<Rightarrow> cuint \<Rightarrow> UnitTableT \<Rightarrow> bool" where
  "in_unit G ue j P i u \<longleftrightarrow> G i (length (entries u)) \<and> unit_has ue j P u"

definition with_table :: "(MapTableT \<Rightarrow> bool) \<Rightarrow> MapTableT option \<Rightarrow> bool" where
  "with_table Q t = (case t of None \<Rightarrow> False | Some t \<Rightarrow> Q t)"

lemma unit_set_wf:
  "unit_table_wf u \<Longrightarrow> ue < length (entries u) \<Longrightarrow> ue_key e = ue_key (entries u ! ue) \<Longrightarrow> unit_table_wf (table_set ue e u)"
  by (rule unit_tbl.set_wf)

lemma on_unit_eq:
  assumes "ue < length (entries (cs_units s))" "j < length (ue_units (entries (cs_units s) ! ue))"
  shows "on_unit ue j m s = bind (m (ue_units (entries (cs_units s) ! ue) ! j)) (\<lambda>(x, u').
     bind (modify (\<lambda>t. t\<lparr>cs_units := table_set ue ((entries (cs_units s) ! ue)\<lparr>ue_units :=
        (ue_units (entries (cs_units s) ! ue))[j := u']\<rparr>) (cs_units t)\<rparr>)) (\<lambda>_. ret x)) s"
  using assms by (simp add: on_unit_def gets_def bind_def index_def)

text \<open>A step on the mapping table of the unit being read.\<close>

lemma reading_on_unit:
  assumes m: "\<And>u s. P (un_map_table u) \<Longrightarrow> \<exists>x u'. m u s = (Ret (x, u'), s) \<and> P' x (un_map_table u')"
  shows "valid (reading K R N (in_unit G ue j P)) (on_unit ue j m) (\<lambda>x. reading K R N (in_unit G ue j (P' x))) (aborts K)"
proof -
  have "\<exists>x t. on_unit ue j m s = (Ret x, t) \<and> reading K R N (in_unit G ue j (P' x)) t"
    if s: "reading K R N (in_unit G ue j P) s" for s
  proof -
    let ?e = "entries (cs_units s) ! ue"
    have h: "ue < length (entries (cs_units s))" "j < length (ue_units ?e)" "unit_table_wf (cs_units s)"
      "P (un_map_table (ue_units ?e ! j))"
      using s by (auto simp: reading_def in_unit_def unit_has_def capsule_inv_def)
    obtain x u' where x: "m (ue_units ?e ! j) s = (Ret (x, u'), s)" "P' x (un_map_table u')"
      using m[OF h(4)] by blast
    have "reading K R N (in_unit G ue j (P' x)) (s\<lparr>cs_units := table_set ue (?e\<lparr>ue_units :=
        (ue_units ?e)[j := u']\<rparr>) (cs_units s)\<rparr>)"
      using s h x(2) unit_set_wf[OF h(3,1)]
      by (simp add: reading_def capsule_inv_def sets_ok_def in_unit_def unit_has_def)
    then show ?thesis using x(1) by (simp add: on_unit_eq[OF h(1,2)] bind_def modify_def ret_def)
  qed
  then show ?thesis by (fastforce simp: valid_def split: prod.splits outcome.splits)
qed

lemma reading_on_map_entry:
  assumes "\<And>t. P t \<Longrightarrow> m < length (entries t) \<and> (\<exists>e'. f (entries t ! m) = Some e' \<and> P' (table_set m e' t))"
  shows "valid (reading K R N (in_unit G ue j (with_table P))) (on_map_entry ue j m f)
    (\<lambda>_. reading K R N (in_unit G ue j (with_table P'))) (aborts K)"
  unfolding on_map_entry_def
proof (rule reading_on_unit)
  fix u :: UnitT and s
  assume "with_table P (un_map_table u)"
  then obtain t where t: "un_map_table u = Some t" "P t" by (auto simp: with_table_def split: option.splits)
  with assms[of t] show "\<exists>x u'. bind (defined (un_map_table u)) (\<lambda>table. bind (index (entries table) m) (\<lambda>e.
     bind (defined (f e)) (\<lambda>e'. ret ((), u\<lparr>un_map_table := Some (table_set m e' table)\<rparr>)))) s = (Ret (x, u'), s)
     \<and> with_table P' (un_map_table u')"
    by (auto simp: ret_def with_table_def)
qed

lemma reading_shape_key:
  assumes "r \<in> R"
  shows "valid (reading K R N F) (on_shape r (\<lambda>e. ret (se_key e, e))) (\<lambda>_. reading K R N F) (aborts K)"
proof (rule validI)
  fix s x t
  assume s: "reading K R N F s"
  note ref = reading_ref[OF s assms]
  have id: "s\<lparr>cs_shapes := shape_entry_put r (shape_entry_at (cs_shapes s) r) (cs_shapes s)\<rparr> = s"
    by (simp add: shape_entry_put_def shape_entry_at_def table_set_def)
  { assume "on_shape r (\<lambda>e. ret (se_key e, e)) s = (Ret x, t)"
    then show "reading K R N F t" using s id by (auto simp: on_shape_Ret[OF ref] ret_def)
  next
    fix e assume "on_shape r (\<lambda>e. ret (se_key e, e)) s = (Raise e, t)"
    then show "aborts K e t" by (simp add: on_shape_Raise[OF ref] ret_def) }
qed


definition maps_ref :: "nat set \<Rightarrow> MapTableT \<Rightarrow> bool" where
  "maps_ref M t \<longleftrightarrow> (\<forall>m\<in>M. m < length (entries t))"

lemma reading_map_add:
  "valid (reading K R N (in_unit G ue j (with_table (maps_ref M))))
     (on_unit ue j (\<lambda>u. bind (defined (un_map_table u)) (\<lambda>table.
        case map_table_add table key num of (entry, table) \<Rightarrow> ret (entry, u\<lparr>un_map_table := Some table\<rparr>))))
     (\<lambda>m. reading K R N (in_unit G ue j (with_table (maps_ref (insert m M))))) (aborts K)"
proof (rule reading_on_unit)
  fix u :: UnitT and s
  assume "with_table (maps_ref M) (un_map_table u)"
  then obtain t where "un_map_table u = Some t" "maps_ref M t" by (auto simp: with_table_def split: option.splits)
  then show "\<exists>x u'. bind (defined (un_map_table u)) (\<lambda>table. case map_table_add table key num of
      (entry, table) \<Rightarrow> ret (entry, u\<lparr>un_map_table := Some table\<rparr>)) s = (Ret (x, u'), s)
      \<and> with_table (maps_ref (insert x M)) (un_map_table u')"
    by (auto simp: map_table_add_eq ret_def with_table_def maps_ref_def)
qed

lemma reading_unit_counts_each:
  assumes "sd_entry ` set sds \<subseteq> R"
  shows "valid (reading K R N (in_unit G ue j (with_table (maps_ref M))))
    (collect sds (\<lambda>shape. bind tdf_read_int (\<lambda>num.
          bind (on_shape (sd_entry shape) (\<lambda>e. ret (se_key e, e))) (\<lambda>key.
          on_unit ue j (\<lambda>u. bind (defined (un_map_table u)) (\<lambda>table.
            case map_table_add table key num of
              (entry, table) \<Rightarrow> ret (entry, u\<lparr>un_map_table := Some table\<rparr>)))))))
    (\<lambda>ms. reading K R N (in_unit G ue j (with_table (maps_ref (M \<union> set ms))))) (aborts K)"
  using assms
proof (induction sds arbitrary: M)
  case Nil
  then show ?case by (simp add: valid_ret)
next
  case (Cons sd sds)
  have cl: "valid (reading K R N (in_unit G ue j (with_table (maps_ref (insert m M \<union> set ms))))) (ret (m # ms))
      (\<lambda>ms. reading K R N (in_unit G ue j (with_table (maps_ref (M \<union> set ms))))) (aborts K)" for m ms
    by (rule valid_ret) simp
  show ?case unfolding collect.simps
    by (rule valid_bind [OF reading_bind [OF reading_input [OF input_tdf(2)] reading_bind [OF reading_shape_key reading_map_add]]])
      (use Cons.prems in \<open>auto intro!: valid_bind [OF Cons.IH] cl\<close>)
qed

text \<open>The table that a unit with \<open>num_counts\<close> counts has.\<close>

definition counts_table :: "cuint \<Rightarrow> nat set \<Rightarrow> MapTableT option \<Rightarrow> bool" where
  "counts_table num_counts M t \<longleftrightarrow> (num_counts \<noteq> 0 \<longrightarrow> with_table (maps_ref M) t) \<and> (num_counts = 0 \<longrightarrow> M = {})"

lemma reading_unit_counts:
  assumes "sd_entry ` set sds \<subseteq> R"
  shows "valid (reading K R N (in_unit G ue j (counts_table num_counts {})))
    (capsule_read_unit_counts sds num_counts ue j)
    (\<lambda>ms. reading K R N (in_unit G ue j (counts_table num_counts (set ms)))) (aborts K)"
proof (cases "num_counts = 0")
  case True
  then show ?thesis by (simp add: capsule_read_unit_counts_def valid_ret)
next
  case False
  then have "counts_table num_counts M = with_table (maps_ref M)" for M by (simp add: counts_table_def fun_eq_iff)
  then show ?thesis
    using False by (auto simp: capsule_read_unit_counts_def
        intro!: reading_throw reading_unit_counts_each[OF assms, where M = "{}", simplified])
qed

definition links_ref :: "nat set \<Rightarrow> nat \<Rightarrow> cuint \<Rightarrow> MapTableT \<Rightarrow> bool" where
  "links_ref M m n t \<longleftrightarrow> maps_ref M t \<and> me_num_links (entries t ! m) = n"

lemma reading_id_map:
  assumes "r \<in> R"
  shows "valid (reading K R N F) (if id_map = UINT_MAX then on_shape r shape_entry_next_id else ret id_map) (\<lambda>_. reading K R N F) (aborts K)"
  by (auto intro: valid_ret reading_next_id[OF assms])

lemma reading_links:
  assumes "m \<in> M" "set js \<subseteq> {..<unat n}" "sd_entry sd \<in> R" "sd_ok sd"
  shows "valid (reading K R N (in_unit G ue j (with_table (links_ref M m n)))) (capsule_read_links ue j m js sd)
    (\<lambda>sd' s. reading K R N (in_unit G ue j (with_table (links_ref M m n))) s \<and> sd_entry sd' = sd_entry sd \<and> sd_ok sd') (aborts K)"
  using assms
proof (induction js arbitrary: sd)
  case Nil
  then show ?case by (auto intro: valid_ret)
next
  case (Cons k js)
  let ?F = "in_unit G ue j (with_table (links_ref M m n))"
  have "k < unat n" "unat n < 2 ^ 32" using Cons.prems(2) unsigned_less[of n] by simp_all
  then have k: "(of_nat k :: cuint) < n" by (simp add: word_less_nat_alt unsigned_of_nat take_bit_eq_mod)
  have set_link: "valid (reading K R N ?F) (on_map_entry ue j m (map_entry_set_link (of_nat k) x y))
     (\<lambda>_. reading K R N ?F) (aborts K)" for x y
    by (rule reading_on_map_entry)
      (use k Cons.prems(1) in \<open>auto simp: links_ref_def maps_ref_def map_entry_set_link_def\<close>)
  have idx: "unat ext < length (sd_id_maps sd)" if "\<not> sd_num_ids sd \<le> ext" for ext
    using that Cons.prems(4) by (simp add: sd_ok_def word_le_nat_alt)
  have tail: "valid (reading K R N ?F) (capsule_read_links ue j m js (sd\<lparr>sd_id_maps := (sd_id_maps sd)[unat ext := id]\<rparr>))
    (\<lambda>sd' s. reading K R N ?F s \<and> sd_entry sd' = sd_entry sd \<and> sd_ok sd') (aborts K :: exn \<Rightarrow> 'a capsule_state_scheme \<Rightarrow> bool)" for ext id
    using Cons.IH[of "sd\<lparr>sd_id_maps := (sd_id_maps sd)[unat ext := id]\<rparr>"] Cons.prems by (simp add: sd_ok_def)
  show ?case unfolding capsule_read_links.simps
    by (intro reading_bind reading_steps valid_if reading_throw valid_index reading_id_map set_link tail idx)
      (use Cons.prems in simp_all)
qed


lemma reading_unit_maps_each:
  assumes "set ms \<subseteq> M" "sd_entry ` set sds \<subseteq> R" "sds_ok sds"
  shows "valid (reading K R N (in_unit G ue j (with_table (maps_ref M)))) (capsule_read_unit_maps_each ue j ms sds)
    (\<lambda>sds' s. reading K R N (in_unit G ue j (with_table (maps_ref M))) s \<and> map sd_entry sds' = map sd_entry sds \<and> sds_ok sds') (aborts K)"
  using assms
proof (induction ms arbitrary: sds)
  case Nil
  then show ?case by (auto intro: valid_ret)
next
  case (Cons m ms)
  let ?F = "in_unit G ue j (with_table (maps_ref M))"
  let ?L = "\<lambda>n. in_unit G ue j (with_table (links_ref M m n))"
  show ?case
  proof (cases sds)
    case Nil
    with Cons.prems show ?thesis by (auto intro: valid_ret)
  next
    case sds: (Cons sd sds')
    let ?Q = "\<lambda>sdl (s :: 'a capsule_state_scheme). reading K R N ?F s \<and> map sd_entry sdl = map sd_entry sds \<and> sds_ok sdl"
    have num: "valid (reading K R N ?F) (on_map_entry ue j m (\<lambda>e. Some (map_entry_set_num_links n e)))
       (\<lambda>_. reading K R N (?L n)) (aborts K)" for n
      by (rule reading_on_map_entry)
        (use Cons.prems(1) in \<open>auto simp: links_ref_def maps_ref_def map_entry_set_num_links_def\<close>)
    have links: "valid (reading K R N (?L n)) (capsule_read_links ue j m [0..<unat n] sd)
       (\<lambda>sd' s. reading K R N ?F s \<and> sd_entry sd' = sd_entry sd \<and> sd_ok sd') (aborts K)" for n
      by (rule valid_post [OF reading_links])
        (use Cons.prems sds in \<open>auto simp: sds_ok_def links_ref_def in_unit_def unit_has_def with_table_def
           elim!: reading_mono split: option.splits\<close>)
    have tail: "valid (\<lambda>s. reading K R N ?F s \<and> sd_entry sd' = sd_entry sd \<and> sd_ok sd')
      (bind (capsule_read_unit_maps_each ue j ms sds') (\<lambda>sdl. ret (sd' # sdl))) ?Q (aborts K)" for sd'
      by (rule valid_assume [where A = "sd_entry sd' = sd_entry sd \<and> sd_ok sd'"], simp,
          rule valid_pre [OF valid_bind [OF Cons.IH]])
        (use Cons.prems sds in \<open>auto simp: sds_ok_def intro!: valid_ret\<close>)
    show ?thesis unfolding sds capsule_read_unit_maps_each.simps
      by (intro reading_bind [OF reading_input [OF input_tdf(2)]] valid_bind [OF num] valid_bind [OF links] tail [unfolded sds])
  qed
qed

lemma reading_unit_maps:
  assumes "sd_entry ` set sds \<subseteq> R" "sds_ok sds"
  shows "valid (reading K R N (in_unit G ue j (counts_table num_counts (set ms)))) (capsule_read_unit_maps num_counts sds ue j ms)
    (\<lambda>sds' s. reading K R N (in_unit G ue j (\<lambda>_. True)) s \<and> map sd_entry sds' = map sd_entry sds \<and> sds_ok sds') (aborts K)"
proof -
  let ?F = "in_unit G ue j (counts_table num_counts (set ms))"
  have weak: "reading K R N (in_unit G ue j P) s \<Longrightarrow> reading K R N (in_unit G ue j (\<lambda>_. True)) s" for P s
    by (erule reading_mono) (auto simp: in_unit_def unit_has_def)
  have "valid (reading K R N ?F) (capsule_read_unit_maps_each ue j ms sds)
    (\<lambda>sds' s. reading K R N (in_unit G ue j (\<lambda>_. True)) s \<and> map sd_entry sds' = map sd_entry sds \<and> sds_ok sds') (aborts K)"
  proof (cases "num_counts = 0")
    case True
    show ?thesis
      by (rule valid_assume [where A = "ms = []"])
        (use True assms(2) in \<open>auto simp: reading_def in_unit_def unit_has_def counts_table_def intro!: valid_ret\<close>)
  next
    case False
    then have eq: "counts_table num_counts M = with_table (maps_ref M)" for M by (simp add: counts_table_def fun_eq_iff)
    show ?thesis unfolding eq
      by (rule valid_post [OF reading_unit_maps_each [OF subset_refl assms]]) (auto dest: weak)
  qed
  then show ?thesis unfolding capsule_read_unit_maps_def
    by (intro reading_bind [OF reading_input [OF input_tdf(2)]] valid_if reading_throw) simp_all
qed

text \<open>Between units: the unit sets \<open>U\<close> exist, and a \<^verbatim>\<open>tld2\<close> entry was found only if there is one.\<close>

definition between :: "nat set \<Rightarrow> bool \<Rightarrow> cuint \<Rightarrow> nat \<Rightarrow> bool" where
  "between U t2 i n \<longleftrightarrow> (\<forall>x\<in>U. x < n) \<and> (t2 \<longrightarrow> i \<noteq> UINT_MAX)"

definition unit_sets_ref :: "nat set \<Rightarrow> bool \<Rightarrow> cuint \<Rightarrow> UnitTableT \<Rightarrow> bool" where
  "unit_sets_ref U t2 i u \<longleftrightarrow> between U t2 i (length (entries u))"

lemma reading_add_unit:
  assumes "ue \<in> U"
  shows "valid (reading K R N (unit_sets_ref U t2)) (capsule_add_unit ue num_counts)
    (\<lambda>j. reading K R N (in_unit (between U t2) ue j (counts_table num_counts {}))) (aborts K)"
proof -
  have "\<exists>j t. capsule_add_unit ue num_counts s = (Ret j, t)
      \<and> reading K R N (in_unit (between U t2) ue j (counts_table num_counts {})) t"
    if s: "reading K R N (unit_sets_ref U t2) s" for s
  proof -
    let ?e = "entries (cs_units s) ! ue"
    have h: "ue < length (entries (cs_units s))" "unit_table_wf (cs_units s)"
      using s assms by (auto simp: reading_def unit_sets_ref_def between_def capsule_inv_def)
    have "ue_key (unit_entry_add_unit num_counts ?e) = ue_key ?e" by (simp add: unit_entry_add_unit_def)
    note wf = unit_set_wf[OF h(2,1) this]
    have "reading K R N (in_unit (between U t2) ue (length (ue_units ?e)) (counts_table num_counts {}))
       (s\<lparr>cs_units := table_set ue (unit_entry_add_unit num_counts ?e) (cs_units s)\<rparr>)"
      using s h wf by (simp add: reading_def capsule_inv_def sets_ok_def in_unit_def unit_has_def unit_sets_ref_def
          counts_table_def with_table_def maps_ref_def unit_entry_add_unit_def)
    then show ?thesis using h(1) by (simp add: capsule_add_unit_def bind_def gets_def modify_def ret_def)
  qed
  then show ?thesis by (fastforce simp: valid_def split: prod.splits outcome.splits)
qed

lemma reading_unit:
  assumes "ue \<in> U" "sd_entry ` set sds \<subseteq> R" "sds_ok sds"
  shows "valid (reading K R N (unit_sets_ref U t2)) (capsule_read_unit sds ue)
    (\<lambda>sds' s. reading K R N (unit_sets_ref U t2) s \<and> map sd_entry sds' = map sd_entry sds \<and> sds_ok sds') (aborts K)"
proof -
  let ?J = "\<lambda>j. in_unit (between U t2) ue j (\<lambda>_. True)"
  have fin: "valid (\<lambda>s. reading K R N (?J j) s \<and> map sd_entry sds' = map sd_entry sds \<and> sds_ok sds')
    (bind tdf_read_int (\<lambda>sz. bind (tdf_read_bytes (nstring_init_length (unat sz))) (\<lambda>nstring.
     bind (on_unit ue j (\<lambda>u. ret ((), unit_set_contents nstring u))) (\<lambda>_. ret sds'))))
    (\<lambda>sds' s. reading K R N (unit_sets_ref U t2) s \<and> map sd_entry sds' = map sd_entry sds \<and> sds_ok sds') (aborts K)" for j sds'
  proof (rule valid_assume [where A = "map sd_entry sds' = map sd_entry sds \<and> sds_ok sds'"], simp, rule valid_pre [where P' = "reading K R N (?J j)"])
    assume ok: "map sd_entry sds' = map sd_entry sds \<and> sds_ok sds'"
    have c: "valid (reading K R N (?J j)) (on_unit ue j (\<lambda>u. ret ((), unit_set_contents ns u))) (\<lambda>_. reading K R N (?J j)) (aborts K)" for ns
      by (rule reading_on_unit) (simp add: ret_def)
    have d: "reading K R N (?J j) s \<Longrightarrow> reading K R N (unit_sets_ref U t2) s" for s
      by (erule reading_mono) (auto simp: in_unit_def unit_sets_ref_def)
    show "valid (reading K R N (?J j))
      (bind tdf_read_int (\<lambda>sz. bind (tdf_read_bytes (nstring_init_length (unat sz))) (\<lambda>nstring.
       bind (on_unit ue j (\<lambda>u. ret ((), unit_set_contents nstring u))) (\<lambda>_. ret sds'))))
      (\<lambda>sds' s. reading K R N (unit_sets_ref U t2) s \<and> map sd_entry sds' = map sd_entry sds \<and> sds_ok sds') (aborts K)"
      by (intro reading_bind reading_steps c valid_ret) (use ok d in auto)
  qed simp
  show ?thesis unfolding capsule_read_unit_def
    by (intro reading_bind [OF reading_input [OF input_tdf(2)]] valid_bind [OF reading_add_unit [OF assms(1)]]
        valid_bind [OF reading_unit_counts [OF assms(2)]] valid_bind [OF reading_unit_maps [OF assms(2,3)]] fin)
qed


lemma reading_units_loop:
  assumes "ue \<in> U" "sd_entry ` set sds \<subseteq> R" "sds_ok sds"
  shows "valid (reading K R N (unit_sets_ref U t2)) (capsule_read_units_loop n sds ue)
    (\<lambda>sds' s. reading K R N (unit_sets_ref U t2) s \<and> map sd_entry sds' = map sd_entry sds \<and> sds_ok sds') (aborts K)"
  using assms
proof (induction n arbitrary: sds)
  case 0
  then show ?case by (auto intro: valid_ret)
next
  case (Suc n)
  have "valid (\<lambda>s. reading K R N (unit_sets_ref U t2) s \<and> map sd_entry sds' = map sd_entry sds \<and> sds_ok sds')
    (capsule_read_units_loop n sds' ue)
    (\<lambda>sds' s. reading K R N (unit_sets_ref U t2) s \<and> map sd_entry sds' = map sd_entry sds \<and> sds_ok sds')
    (aborts K :: exn \<Rightarrow> 'a capsule_state_scheme \<Rightarrow> bool)" for sds'
  proof (rule valid_assume [where A = "map sd_entry sds' = map sd_entry sds \<and> sds_ok sds'"], simp)
    assume ok: "map sd_entry sds' = map sd_entry sds \<and> sds_ok sds'"
    then have "sd_entry ` set sds' = sd_entry ` set sds" by (metis image_set)
    with Suc.IH[of sds'] ok Suc.prems show "valid (\<lambda>s. reading K R N (unit_sets_ref U t2) s \<and> map sd_entry sds' = map sd_entry sds \<and> sds_ok sds')
      (capsule_read_units_loop n sds' ue)
      (\<lambda>sds' s. reading K R N (unit_sets_ref U t2) s \<and> map sd_entry sds' = map sd_entry sds \<and> sds_ok sds')
      (aborts K :: exn \<Rightarrow> 'a capsule_state_scheme \<Rightarrow> bool)"
      by simp
  qed
  then show ?case unfolding capsule_read_units_loop.simps by (rule valid_bind [OF reading_unit [OF Suc.prems]])
qed

lemma name_refs_entries: "map sd_entry sds' = map sd_entry sds \<Longrightarrow> name_refs sds' nss = name_refs sds nss"
proof -
  have "name_refs sds nss = (\<Union>(r, ns)\<in>set (zip (map sd_entry sds) nss). {r} \<times> set ns)" for sds
    by (simp add: name_refs_def zip_map1 image_image split_beta)
  then show "map sd_entry sds' = map sd_entry sds \<Longrightarrow> ?thesis" by simp
qed

lemma reading_unit_sets_each:
  assumes "set us \<subseteq> U" "sd_entry ` set sds \<subseteq> R" "sds_ok sds" "length nss = length sds" "name_refs sds nss \<subseteq> N"
  shows "valid (reading K R N (unit_sets_ref U (t2 \<noteq> None))) (capsule_read_unit_sets_each capsule te t2 us sds nss)
    (\<lambda>_. reading K R N (unit_sets_ref U (t2 \<noteq> None))) (aborts K)"
  using assms
proof (induction us arbitrary: sds)
  case Nil
  then show ?case by (auto intro: valid_ret)
next
  case (Cons u us)
  let ?F = "unit_sets_ref U (t2 \<noteq> None)"
  let ?ok = "\<lambda>sds'. map sd_entry sds' = map sd_entry sds \<and> sds_ok sds'"
  have tld: "valid (reading K R N ?F) (bind (capsule_read_tld_units capsule sds nss) (\<lambda>_. ret sds)) (\<lambda>sds' s. reading K R N ?F s \<and> ?ok sds') (aborts K)"
    by (rule valid_bind [OF reading_tld_units [OF Cons.prems(4,5)]], rule valid_ret) (use Cons.prems in simp)
  have tld2: "valid (reading K R N ?F) (bind (capsule_read_tld2_units capsule sds nss) (\<lambda>_. ret sds)) (\<lambda>sds' s. reading K R N ?F s \<and> ?ok sds') (aborts K)"
    if "Some u = t2"
    by (rule valid_bind [OF reading_tld2_units [OF Cons.prems(4,5)]])
      (use Cons.prems that in \<open>auto simp: unit_sets_ref_def between_def intro!: valid_ret\<close>)
  have units: "valid (reading K R N ?F) (capsule_read_units sds u) (\<lambda>sds' s. reading K R N ?F s \<and> ?ok sds') (aborts K)"
    unfolding capsule_read_units_def
    by (intro reading_bind reading_steps reading_units_loop) (use Cons.prems in auto)
  have tail: "valid (\<lambda>s. reading K R N ?F s \<and> ?ok sds') (capsule_read_unit_sets_each capsule te t2 us sds' nss)
     (\<lambda>_. reading K R N ?F) (aborts K :: exn \<Rightarrow> 'a capsule_state_scheme \<Rightarrow> bool)" for sds'
  proof (rule valid_assume [where A = "?ok sds'"], simp, rule valid_pre [where P' = "reading K R N ?F"])
    assume ok: "?ok sds'"
    then have "sd_entry ` set sds' = sd_entry ` set sds" "length sds' = length sds"
      by (metis image_set, metis length_map)
    with ok Cons.prems name_refs_entries[of sds' sds nss]
    show "valid (reading K R N ?F) (capsule_read_unit_sets_each capsule te t2 us sds' nss)
      (\<lambda>_. reading K R N ?F) (aborts K :: exn \<Rightarrow> 'a capsule_state_scheme \<Rightarrow> bool)"
      by (intro Cons.IH) auto
  qed simp
  show ?case unfolding capsule_read_unit_sets_each.simps
    by (rule valid_bind [OF _ tail]) (intro valid_if tld tld2 units)
qed

lemma reading_unit_sets:
  assumes "sd_entry ` set sds \<subseteq> R" "sds_ok sds" "length nss = length sds" "name_refs sds nss \<subseteq> N"
  shows "valid (reading K R N (units_ref (set us))) (capsule_read_unit_sets capsule us sds nss)
    (\<lambda>_. reading K R N (\<lambda>_ _. True)) (aborts K)"
proof -
  have t2: "valid (reading K R N (units_ref (set us))) capsule_tld2_entry (\<lambda>t2. reading K R N (unit_sets_ref (set us) (t2 \<noteq> None))) (aborts K)"
    by (rule valid_post [OF reading_tld2_entry], erule reading_mono) (auto simp: unit_sets_ref_def between_def units_ref_def)
  have each: "valid (reading K R N (unit_sets_ref (set us) (t2 \<noteq> None))) (capsule_read_unit_sets_each capsule te t2 us sds nss)
    (\<lambda>_. reading K R N (\<lambda>_ _. True)) (aborts K)" for te t2
    by (rule valid_post [OF reading_unit_sets_each [OF subset_refl assms]], erule reading_mono) auto
  show ?thesis unfolding capsule_read_unit_sets_def
    by (intro valid_bind [OF reading_tld_entry] valid_bind [OF t2] reading_bind [OF reading_input [OF input_tdf(2)]]
        valid_if reading_throw each) simp_all
qed

section \<open>Reading a capsule\<close>

lemma reading_body:
  "valid (reading K {} {} (units_ref {})) (capsule_read_body capsule) (\<lambda>_. reading K {} {} (\<lambda>_ _. True)) (aborts K)"
proof -
  have fin: "valid (reading K R N (\<lambda>_ _. True)) (bind tdf_read_eof (\<lambda>_.
     modify (\<lambda>s. s\<lparr>cs_capsules := (cs_capsules s)[capsule := (cs_capsules s ! capsule)\<lparr>cp_complete := True\<rparr>]\<rparr>)))
     (\<lambda>_. reading K {} {} (\<lambda>_ _. True)) (aborts K)" for R N
    by (rule reading_bind [OF reading_input [OF input_tdf(7)]], rule valid_post [OF reading_modify])
      (auto elim: reading_mono)
  have sets: "valid (\<lambda>s. reading K (sd_entry ` set sds) (name_refs sds' nss) (units_ref (set us)) s
       \<and> map sd_entry sds' = map sd_entry sds \<and> sds_ok sds' \<and> length nss = length sds)
     (bind (capsule_read_unit_sets capsule us sds' nss) (\<lambda>_. bind tdf_read_eof (\<lambda>_.
       modify (\<lambda>s. s\<lparr>cs_capsules := (cs_capsules s)[capsule := (cs_capsules s ! capsule)\<lparr>cp_complete := True\<rparr>]\<rparr>))))
     (\<lambda>_. reading K {} {} (\<lambda>_ _. True)) (aborts K)" for sds sds' nss us
  proof (rule valid_assume [where A = "map sd_entry sds' = map sd_entry sds \<and> sds_ok sds' \<and> length nss = length sds"], simp,
      rule valid_pre [where P' = "reading K (sd_entry ` set sds) (name_refs sds' nss) (units_ref (set us))"])
    assume ok: "map sd_entry sds' = map sd_entry sds \<and> sds_ok sds' \<and> length nss = length sds"
    then have "sd_entry ` set sds' \<subseteq> sd_entry ` set sds" "length nss = length sds'"
      by (metis image_set subset_refl, metis length_map)
    with ok show "valid (reading K (sd_entry ` set sds) (name_refs sds' nss) (units_ref (set us)))
     (bind (capsule_read_unit_sets capsule us sds' nss) (\<lambda>_. bind tdf_read_eof (\<lambda>_.
       modify (\<lambda>s. s\<lparr>cs_capsules := (cs_capsules s)[capsule := (cs_capsules s ! capsule)\<lparr>cp_complete := True\<rparr>]\<rparr>))))
     (\<lambda>_. reading K {} {} (\<lambda>_ _. True)) (aborts K)"
      by (intro valid_bind [OF reading_unit_sets] fin) auto
  qed simp
  have names: "valid (\<lambda>s. reading K (sd_entry ` set sds) {} (units_ref (set us)) s \<and> sds_ok sds)
     (bind (capsule_read_external_names sds) (\<lambda>(nss, sds). bind (capsule_read_unit_sets capsule us sds nss) (\<lambda>_.
       bind tdf_read_eof (\<lambda>_.
       modify (\<lambda>s. s\<lparr>cs_capsules := (cs_capsules s)[capsule := (cs_capsules s ! capsule)\<lparr>cp_complete := True\<rparr>]\<rparr>)))))
     (\<lambda>_. reading K {} {} (\<lambda>_ _. True)) (aborts K)" for sds us
    by (rule valid_assume [where A = "sds_ok sds"], simp, rule valid_pre [OF valid_bind [OF reading_external_names [OF subset_refl]]])
      (auto intro!: valid_case_prod sets)
  show ?thesis unfolding capsule_read_body_def
    by (intro reading_bind [OF reading_header] valid_bind [OF reading_unit_set_names] valid_bind [OF reading_shapes] names)
qed


text \<open>Before the first capsule is read the unit sets are not yet in the unit table.\<close>

definition capsule_ready :: "'z capsule_state_scheme \<Rightarrow> bool" where
  "capsule_ready s \<longleftrightarrow> rd_ok (reader s) \<and>
     (if cs_need_setup s then
        let sets = (case cs_unit_sets s of None \<Rightarrow> capsule_default_unit_set_names
                    | Some sets \<Rightarrow> map us_name sets) in
        shapes_safe (cs_shapes s) \<and> cs_units s = unit_table_create \<and> distinct sets \<and> unat (cs_tld_index s) < length sets
          \<and> (cs_tld2_index s = UINT_MAX \<or> unat (cs_tld2_index s) < length sets)
      else capsule_inv s)"

lemma capsule_inv_ready: "capsule_inv s \<Longrightarrow> rd_ok (reader s) \<Longrightarrow> capsule_ready s"
  by (simp add: capsule_ready_def capsule_inv_def sets_ok_def)

lemma capsule_setup_units_wf:
  assumes "unit_table_wf u" "distinct (map us_name sets)" "us_name ` set sets \<inter> ue_key ` set (entries u) = {}"
    "capsule_setup_units i sets u = (sets', u')"
  shows "unit_table_wf u' \<and> map us_name sets' = map us_name sets
    \<and> ue_key ` set (entries u') = ue_key ` set (entries u) \<union> us_name ` set sets"
  using assms
proof (induction i sets u arbitrary: sets' u' rule: capsule_setup_units.induct)
  case (1 i units)
  then show ?case by simp
next
  case (2 i us uss units)
  let ?u = "unit_tbl.insert_entry \<lparr>ue_key = us_name us, ue_order = of_nat i, ue_units = []\<rparr> units"
  have add: "unit_table_add units (us_name us) (of_nat i) = (length (entries units), ?u)" by (rule unit_table_add_eq)
  have "unit_table_get units (us_name us) = None"
    using 2(2,4) unit_tbl.get_None_iff[OF 2(2)] by auto
  then have wf: "unit_table_wf ?u" by (intro unit_tbl.insert_wf 2(2)) simp
  obtain uss' where r: "capsule_setup_units (i + 1) uss ?u = (uss', u')" "sets' = us\<lparr>us_entry := Some (length (entries units))\<rparr> # uss'"
    using 2(5) add by (auto simp: Let_def split: prod.splits)
  have "distinct (map us_name uss)" "us_name ` set uss \<inter> ue_key ` set (entries ?u) = {}"
    using 2(3,4) by auto
  with 2(1)[OF add [symmetric] refl wf _ _ r(1)] r(2) show ?case by auto
qed

lemma capsule_setup_ready:
  "valid (\<lambda>s. capsule_ready s \<and> K (capsule_state.more s)) capsule_setup (\<lambda>_. reading K {} {} (units_ref {})) (\<lambda>_ _. False)"
proof -
  have "\<exists>t. capsule_setup s = (Ret (), t) \<and> reading K {} {} (units_ref {}) t" if s: "capsule_ready s" and K: "K (capsule_state.more s)" for s
  proof (cases "cs_need_setup s")
    case False
    with s K show ?thesis
      by (simp add: capsule_setup_def bind_def gets_def ret_def capsule_ready_def reading_def capsule_inv_def
          shape_refs_def units_ref_def)
  next
    case True
    define names where "names = (case cs_unit_sets s of None \<Rightarrow> capsule_default_unit_set_names
                    | Some sets \<Rightarrow> map us_name sets)"
    obtain t where t: "capsule_setup_defaults s = (Ret (), t)" "\<exists>sets. t = s\<lparr>cs_unit_sets := Some sets\<rparr> \<and> map us_name sets = names"
    proof (cases "cs_unit_sets s")
      case None
      then show ?thesis
        by (intro that) (auto simp: capsule_setup_defaults_def modify_def names_def comp_def
            intro!: exI [of _ "map (\<lambda>name. \<lparr>us_name = name, us_entry = None\<rparr>) capsule_default_unit_set_names"])
    next
      case (Some sets)
      then show ?thesis
        by (intro that[of s]) (auto simp: capsule_setup_defaults_def modify_def names_def intro!: exI [of _ sets])
    qed
    then obtain sets where sets: "t = s\<lparr>cs_unit_sets := Some sets\<rparr>" "map us_name sets = names" by blast
    obtain sets' u' where u: "capsule_setup_units 0 sets (cs_units s) = (sets', u')" by fastforce
    have h: "cs_units s = unit_table_create" "distinct names" "unat (cs_tld_index s) < length names"
      "cs_tld2_index s = UINT_MAX \<or> unat (cs_tld2_index s) < length names" "shapes_safe (cs_shapes s)" "rd_ok (reader s)"
      using s True by (simp_all add: capsule_ready_def names_def Let_def)
    have wf: "unit_table_wf (cs_units s)" unfolding h(1) unit_table_create_def by (rule unit_tbl.create_wf)
    have "unit_table_wf u' \<and> map us_name sets' = map us_name sets"
      using capsule_setup_units_wf[OF wf _ _ u] h(1,2) sets(2)
      by (simp add: unit_table_create_def table_create_def)
    then have "unit_table_wf u'" "length sets' = length names" using sets(2) by (simp, metis length_map)
    with h sets u t(1) True K show ?thesis
      by (simp add: capsule_setup_def bind_def gets_def modify_def reading_def capsule_inv_def sets_ok_def
          shape_refs_def units_ref_def)
  qed
  then show ?thesis by (fastforce simp: valid_def split: prod.splits outcome.splits)
qed

lemma capsule_read_safe:
  "valid (\<lambda>s. capsule_ready s \<and> K (capsule_state.more s) \<and> cp_type (cs_capsules s ! capsule) = CT_INPUT) (capsule_read capsule)
     (\<lambda>_ s. capsule_inv s \<and> K (capsule_state.more s) \<and> rd_ok (reader s)) (aborts K)"
proof -
  have h: "valid (reading K {} {} (units_ref {})) (handle (capsule_read_body capsule) (\<lambda>exception.
       if exception \<noteq> XX_capsule_error \<and> exception \<noteq> XX_tdf_read_error then raise exception else ret ()))
     (\<lambda>_ s. capsule_inv s \<and> K (capsule_state.more s) \<and> rd_ok (reader s)) (aborts K)"
    by (rule valid_handle [OF valid_post [OF reading_body]])
      (auto simp: reading_def aborts_def valid_def raise_def ret_def)
  have t: "valid (\<lambda>s. capsule_ready s \<and> K (capsule_state.more s) \<and> cp_type (cs_capsules s ! capsule) = CT_INPUT)
     (gets (\<lambda>s. cp_type (cs_capsules s ! capsule)))
     (\<lambda>type s. (capsule_ready s \<and> K (capsule_state.more s)) \<and> type = CT_INPUT) (aborts K)"
    by (rule valid_gets) simp
  have c: "valid (\<lambda>s. (capsule_ready s \<and> K (capsule_state.more s)) \<and> type = CT_INPUT) (check (type = CT_INPUT))
     (\<lambda>_ s. capsule_ready s \<and> K (capsule_state.more s)) (aborts K)" for type
    by (simp add: valid_def check_def)
  have u: "valid (\<lambda>s. capsule_ready s \<and> K (capsule_state.more s)) capsule_setup (\<lambda>_. reading K {} {} (units_ref {})) (aborts K)"
    by (rule valid_exn [OF capsule_setup_ready]) simp
  show ?thesis unfolding capsule_read_def
    by (intro valid_bind [OF t] valid_bind [OF c] valid_bind [OF u] h)
qed

end
