(* ===== verification/Capsule_Properties.thy ===== *)
theory Capsule_Properties
  imports Capsule_Safety Capsule_Frame Io_Properties
begin

text \<open>
  What reading and writing capsules promises.
\<close>

section \<open>Merging the usages of a name\<close>

text \<open>A name used by one capsule after the other: the loop of \<^verbatim>\<open>capsule_read_usage\<close> over capsules.\<close>

fun merge_usages :: "bool \<Rightarrow> bool \<Rightarrow> (nat \<times> cuint) list \<Rightarrow> NameEntryT \<Rightarrow> ('z error_state_scheme, NameEntryT) prog" where
  "merge_usages need_dec no_mult [] n = ret n"
| "merge_usages need_dec no_mult ((capsule, use) # us) n =
     bind (capsule_merge_usage capsule need_dec no_mult use n) (merge_usages need_dec no_mult us)"

definition definers :: "(nat \<times> cuint) list \<Rightarrow> nat list" where
  "definers us = map fst (filter (\<lambda>(c, use). use AND U_DEFD \<noteq> 0) us)"

definition mult_definers :: "(nat \<times> cuint) list \<Rightarrow> nat list" where
  "mult_definers us = map fst (filter (\<lambda>(c, use). use AND U_MULT \<noteq> 0) us)"

text \<open>The definition a name should end up with.\<close>

definition chosen_definition :: "(nat \<times> cuint) list \<Rightarrow> nat option" where
  "chosen_definition us = (case definers us of
     c # _ \<Rightarrow> Some c
   | [] \<Rightarrow> (case mult_definers us of [c] \<Rightarrow> Some c | _ \<Rightarrow> None))"

fun all_uses :: "(nat \<times> cuint) list \<Rightarrow> cuint" where
  "all_uses [] = 0"
| "all_uses ((c, use) # us) = use OR all_uses us"

definition merged :: "(nat \<times> cuint) list \<Rightarrow> NameDirectT \<Rightarrow> bool" where
  "merged us d \<longleftrightarrow> nd_use d = all_uses us \<and> nd_definition d = chosen_definition us"

lemma all_uses_snoc: "all_uses (us @ [(c, u)]) = all_uses us OR u"
  by (induction us) (auto simp: or.assoc)

lemma all_uses_and: "all_uses us AND m = 0 \<longleftrightarrow> (\<forall>(c, u)\<in>set us. u AND m = 0)"
  by (induction us) (auto simp: or_and_eq_0)

lemma merged_defined: "merged us d \<Longrightarrow> nd_use d AND U_DEFD \<noteq> 0 \<longleftrightarrow> definers us \<noteq> []"
  by (auto simp: merged_def all_uses_and definers_def filter_empty_conv)

lemma merged_mult: "merged us d \<Longrightarrow> nd_use d AND U_MULT \<noteq> 0 \<longleftrightarrow> mult_definers us \<noteq> []"
  by (auto simp: merged_def all_uses_and mult_definers_def filter_empty_conv)

lemma merged_definition: "merged us d \<Longrightarrow> nd_use d AND U_DEFD \<noteq> 0 \<longrightarrow> nd_definition d \<noteq> None"
  using merged_defined[of us d] by (auto simp: merged_def chosen_definition_def split: list.splits)

lemma merged_step:
  assumes "merged us d" shows "merged (us @ [(c, u)]) (merge_direct c u d)"
proof -
  have defs: "definers (us @ [(c, u)]) = definers us @ (if u AND U_DEFD \<noteq> 0 then [c] else [])"
    "mult_definers (us @ [(c, u)]) = mult_definers us @ (if u AND U_MULT \<noteq> 0 then [c] else [])"
    by (simp_all add: definers_def mult_definers_def)
  have "nd_definition (merge_direct c u d) = chosen_definition (us @ [(c, u)])"
    using assms merged_defined[OF assms] merged_mult[OF assms]
    by (auto simp: merge_direct_def merge_definition_def chosen_definition_def defs merged_def
        split: list.splits if_splits)
  with assms show ?thesis by (simp add: merged_def merge_direct_def all_uses_snoc)
qed

text \<open>Every definition but the first is one error.\<close>

definition clashes :: "(nat \<times> cuint) list \<Rightarrow> nat" where
  "clashes us = length (definers us) - 1"

lemma clashes_snoc:
  "clashes (us @ [(c, u)]) = clashes us + (if u AND U_DEFD \<noteq> 0 \<and> definers us \<noteq> [] then 1 else 0)"
  by (cases "definers us") (auto simp: clashes_def definers_def)

lemma clashes_append: "clashes us \<le> clashes (us @ vs)"
  by (auto simp: clashes_def definers_def)

lemma merge_usages_merged:
  assumes "list_all (\<lambda>(c, u). \<not> usage_illegal need_dec no_mult u) vs" "ne_u n = NT_DIRECT d" "merged us d"
    "number_errors s + (clashes (us @ vs) - clashes us) < maximum_errors"
  shows "\<exists>d' s'. merge_usages need_dec no_mult vs n s = (Ret (n\<lparr>ne_u := NT_DIRECT d'\<rparr>), s') \<and> merged (us @ vs) d'
    \<and> nd_id d' = nd_id d \<and> number_errors s' = number_errors s + (clashes (us @ vs) - clashes us)"
  using assms
proof (induction vs arbitrary: us n d s)
  case Nil
  have "n\<lparr>ne_u := NT_DIRECT d\<rparr> = n" using Nil.prems(2) by (metis NameEntryT.surjective NameEntryT.update_convs(2))
  with Nil show ?case by (auto simp: ret_def intro!: exI [of _ d])
next
  case (Cons v vs)
  obtain c u where v: "v = (c, u)" by fastforce
  let ?n = "n\<lparr>ne_u := NT_DIRECT (merge_direct c u d)\<rparr>" and ?us = "us @ [(c, u)]"
  have legal: "\<not> usage_illegal need_dec no_mult u" using Cons.prems(1) v by simp
  have cl: "clashes us \<le> clashes ?us" "clashes ?us \<le> clashes (us @ v # vs)"
    using clashes_append[of ?us vs] clashes_append[of us "[(c, u)]"] v by simp_all
  obtain s1 where m: "capsule_merge_usage c need_dec no_mult u n s = (Ret ?n, s1)"
    "number_errors s1 = number_errors s + (clashes ?us - clashes us)"
    using capsule_merge_usage_eq[OF Cons.prems(2) merged_definition[OF Cons.prems(3)], of c need_dec no_mult u s]
      legal merged_defined[OF Cons.prems(3)] Cons.prems(4) cl
    by (auto simp: error_msg_serious bind_def ret_def clashes_snoc maximum_errors_def split: if_splits)
  have "\<exists>d' s'. merge_usages need_dec no_mult vs ?n s1 = (Ret (?n\<lparr>ne_u := NT_DIRECT d'\<rparr>), s') \<and> merged (?us @ vs) d'
    \<and> nd_id d' = nd_id (merge_direct c u d) \<and> number_errors s' = number_errors s1 + (clashes (?us @ vs) - clashes ?us)"
  proof (rule Cons.IH)
    show "number_errors s1 + (clashes (?us @ vs) - clashes ?us) < maximum_errors"
      using Cons.prems(4) cl m(2) v by simp
  qed (use Cons.prems merged_step[OF Cons.prems(3)] in simp_all)
  then obtain d' s' where "merge_usages need_dec no_mult vs ?n s1 = (Ret (?n\<lparr>ne_u := NT_DIRECT d'\<rparr>), s')"
    "merged (?us @ vs) d'" "nd_id d' = nd_id (merge_direct c u d)"
    "number_errors s' = number_errors s1 + (clashes (?us @ vs) - clashes ?us)" by blast
  with m cl v show ?case by (intro exI [of _ d'] exI [of _ s']) (simp add: merge_direct_def)
qed

text \<open>
  C10: However many capsules use a name, and in whatever order they are read, the name ends with the
  union of their usages and with the right definition: the first capsule that defines it, or else
  the only capsule that has a tentative definition. Every further definition is one reported error.
\<close>

theorem usages_merge_correctly:
  assumes "ne_u n = NT_DIRECT d" "nd_use d = 0" "nd_definition d = None"
    and "list_all (\<lambda>(c, u). \<not> usage_illegal need_dec no_mult u) us" "number_errors s + clashes us < maximum_errors"
  shows "\<exists>d' s'. merge_usages need_dec no_mult us n s = (Ret (n\<lparr>ne_u := NT_DIRECT d'\<rparr>), s')
    \<and> nd_use d' = all_uses us \<and> nd_definition d' = chosen_definition us \<and> nd_id d' = nd_id d
    \<and> number_errors s' = number_errors s + clashes us"
proof -
  have "merged [] d" using assms by (simp add: merged_def chosen_definition_def definers_def mult_definers_def)
  moreover have "clashes [] = 0" by (simp add: clashes_def definers_def)
  ultimately show ?thesis
    using merge_usages_merged[OF assms(4,1), of "[]" s] assms(5) by (simp add: merged_def)
qed

theorem usages_merge_correctly_witness:
  "\<exists>d' s'. merge_usages True False [(0, U_USED), (1, U_MULT OR U_DECD), (2, U_DEFD OR U_DECD)]
      \<lparr>ne_key = KT_STRING [97], ne_u = NT_DIRECT (fresh_direct 0)\<rparr> error_start
    = (Ret \<lparr>ne_key = KT_STRING [97], ne_u = NT_DIRECT d'\<rparr>, s') \<and> nd_definition d' = Some 2"
proof -
  let ?us = "[(0, U_USED), (1, U_MULT OR U_DECD), (2, U_DEFD OR U_DECD)]"
  have 1: "list_all (\<lambda>(c, u). \<not> usage_illegal True False u) ?us"
    by (simp add: usage_illegal_def usage_defs)
  have 2: "number_errors error_start + clashes ?us < maximum_errors" "chosen_definition ?us = Some 2"
    by (simp_all add: clashes_def chosen_definition_def definers_def usage_defs error_start_def maximum_errors_def)
  show ?thesis
    using usages_merge_correctly[of "\<lparr>ne_key = KT_STRING [97], ne_u = NT_DIRECT (fresh_direct 0)\<rparr>", OF _ _ _ 1 2(1)] 2(2)
    by (auto simp: fresh_direct_def)
qed

section \<open>Reading any input\<close>

text \<open>
  The state of the program before any capsule has been read: empty tables, the static variables of
  \<^verbatim>\<open>tld/src/adt/capsule.c\<close> with their initial values, one capsule to be read from the given bytes.
\<close>

definition capsule_start :: "byte list \<Rightarrow> capsule_state" where
  "capsule_start bytes =
     \<lparr>exit_status = False, number_errors = 0, max_reported = ERROR_SEVERITY_INFORMATION,
      files_in = Map.empty, files_out = Map.empty, reader = reader_on bytes, writer = writer_empty, text_in = text_closed, written = [],
      cs_units = unit_table_create, cs_shapes = shape_table_create,
      cs_capsules = [\<lparr>cp_type = CT_INPUT, cp_contents = [], cp_index = 0, cp_name = [], cp_complete = False\<rparr>],
      cs_need_setup = True, cs_unit_sets = None, cs_tld_index = 0, cs_tld2_index = 1, cs_unit_length = 0,
      cs_unit_offset = 0, cs_major_version = 0, cs_minor_version = 0\<rparr>"

lemma capsule_start_ready: "capsule_ready (capsule_start bytes)"
proof -
  have "shapes_safe shape_table_create"
    by (simp add: shapes_safe_def shape_table_create_def shape_tbl.create_wf) (simp add: table_create_def)
  moreover have "distinct capsule_default_unit_set_names"
    by (simp add: capsule_default_unit_set_names_def str_def)
  ultimately show ?thesis
    by (simp add: capsule_ready_def capsule_start_def rd_ok_def reader_on_def Let_def capsule_default_unit_set_names_def)
qed

text \<open>
  C1: Reading a capsule is safe on every input: whatever bytes the file or string holds, \<^verbatim>\<open>capsule_read\<close>
  returns or ends with an exception or with an exit after too many errors; it never dereferences a null
  or dangling pointer, indexes out of range or fails an assertion. It leaves the shape, name and unit
  tables well formed, so the next capsule can be read, and does not touch the rest of the program's
  state. It may start in any state in which the tables are well formed, no name has been renamed into
  a cycle (\<open>NT_INDIRECT_DONE None\<close>, an error that the rename phase reports and then ignores) and the names
  of the unit sets are distinct and have \<^verbatim>\<open>tld\<close> among them. The claim leaves two things open. A string of
  length zero has null contents, which are handed to \<^verbatim>\<open>fread\<close> and \<^verbatim>\<open>memcmp\<close> with the length zero;
  the model, as every C library does, lets these do nothing. And the printing of messages has no model.
\<close>

theorem capsule_read_safe_on_any_input:
  assumes "capsule_ready s" "cp_type (cs_capsules s ! capsule) = CT_INPUT"
  shows "case capsule_read capsule s of (r, t) \<Rightarrow>
    r \<noteq> Raise Undefined \<and> capsule_inv t \<and> capsule_ready t \<and> capsule_state.more t = capsule_state.more s"
proof -
  obtain r t where rt: "capsule_read capsule s = (r, t)" by fastforce
  let ?K = "\<lambda>m. m = capsule_state.more s"
  have pre: "capsule_ready s \<and> ?K (capsule_state.more s) \<and> cp_type (cs_capsules s ! capsule) = CT_INPUT"
    using assms by simp
  have "r \<noteq> Raise Undefined \<and> capsule_inv t \<and> rd_ok (reader t) \<and> capsule_state.more t = capsule_state.more s"
  proof (cases r)
    case (Ret x)
    with validD[OF capsule_read_safe [of ?K] pre] rt show ?thesis by simp
  next
    case (Raise e)
    with validD_Raise[OF capsule_read_safe [of ?K] pre] rt show ?thesis by (simp add: aborts_def)
  qed
  with capsule_inv_ready[of t] rt show ?thesis by simp
qed

theorem capsule_read_safe_on_any_input_witness:
  "case capsule_read 0 (capsule_start (str ''TDFC'' @ [0xCC, 0x18])) of (r, t) \<Rightarrow> r \<noteq> Raise Undefined \<and> capsule_inv t"
proof -
  have "cp_type (cs_capsules (capsule_start (str ''TDFC'' @ [0xCC, 0x18])) ! 0) = CT_INPUT"
    by (simp add: capsule_start_def)
  from capsule_read_safe_on_any_input[OF capsule_start_ready this] show ?thesis by (simp add: split_beta)
qed

section \<open>The header of a capsule\<close>

text \<open>What \<^verbatim>\<open>capsule_write_header\<close> writes for a version.\<close>

definition code_header :: "cuint \<Rightarrow> cuint \<Rightarrow> enc" where
  "code_header major minor = code_seq (code_bytes capsule_magic) (code_seq (code_int major) (code_seq (code_int minor) code_pad))"

lemma write_header_enc:
  assumes "4 \<le> cs_major_version s" "wr_sound (writer s)"
  shows "\<exists>w. capsule_write_header s = (Ret (), s\<lparr>writer := w\<rparr>)
    \<and> emits (writer s) (code_header (cs_major_version s) (cs_minor_version s) (wr_new_byte (writer s))) w"
proof -
  let ?body = "bind (tdf_write_bytes capsule_magic) (\<lambda>_. bind (tdf_write_int (cs_major_version s)) (\<lambda>_.
     bind (tdf_write_int (cs_minor_version s)) (\<lambda>_. tdf_write_align)))"
  obtain w1 where w1: "tdf_write_bytes capsule_magic s = (Ret (), s\<lparr>writer := w1\<rparr>)"
    by (rule writesD [OF writes_bytes assms(2)])
  then have "capsule_write_header s = ?body s"
    using assms(1) by (simp add: capsule_write_header_def bind_def gets_def check_def)
  moreover have "writes ?body (code_header (cs_major_version s) (cs_minor_version s))"
    unfolding code_header_def by (intro codec_intros)
  ultimately show ?thesis using writesD[OF _ assms(2)] by metis
qed

text \<open>The versions that a reader accepts beside its own.\<close>

definition version_compatible :: "cuint \<Rightarrow> 'z capsule_state_scheme \<Rightarrow> bool" where
  "version_compatible major t \<longleftrightarrow> cs_major_version t = 0 \<or> cs_major_version t = major"

definition version_after :: "cuint \<Rightarrow> 'z capsule_state_scheme \<Rightarrow> cuint" where
  "version_after minor t = (if cs_major_version t = 0 \<or> cs_minor_version t < minor then minor else cs_minor_version t)"

lemma read_header_fields:
  assumes "rd_sound (reader t)" "rd_nibbles (reader t) = code_header major minor (rd_new_byte (reader t)) @ rest"
  obtains r t1 t2 t3 where "tdf_read_bytes (nstring_init_length 4) t = (Ret capsule_magic, t1)"
    "tdf_read_int t1 = (Ret major, t2)" "tdf_read_int t2 = (Ret minor, t3)" "tdf_read_align t3 = (Ret (), t\<lparr>reader := r\<rparr>)"
    "advances (reader t) (code_header major minor (rd_new_byte (reader t))) r"
    "t3\<lparr>reader := (reader t3)\<lparr>rd_new_byte := True\<rparr>\<rparr> = t\<lparr>reader := r\<rparr>"
proof -
  have len: "length (nstring_init_length 4) = length capsule_magic"
    by (simp add: nstring_init_length_def capsule_magic_def str_def)
  let ?m = "bind (tdf_read_bytes (nstring_init_length 4)) (\<lambda>magic. bind tdf_read_int (\<lambda>major. bind tdf_read_int (\<lambda>minor.
     bind tdf_read_align (\<lambda>_. ret (magic, major, minor)))))"
  have "reads ?m (code_header major minor) (capsule_magic, major, minor)"
    unfolding code_header_def
    using reads_bind[OF reads_bytes[OF len] reads_bind[OF reads_int reads_bind[OF reads_int reads_bind[OF reads_align reads_ret]]]]
    by simp
  from readsD[OF this assms] obtain r where
    r: "?m t = (Ret (capsule_magic, major, minor), t\<lparr>reader := r\<rparr>)" "advances (reader t) (code_header major minor (rd_new_byte (reader t))) r"
    by blast
  obtain t1 t2 t3 where st: "tdf_read_bytes (nstring_init_length 4) t = (Ret capsule_magic, t1)" "tdf_read_int t1 = (Ret major, t2)"
    "tdf_read_int t2 = (Ret minor, t3)" "tdf_read_align t3 = (Ret (), t\<lparr>reader := r\<rparr>)"
    using r(1) by (auto simp: bind_Ret_iff ret_def)
  have "t3\<lparr>reader := (reader t3)\<lparr>rd_new_byte := True\<rparr>\<rparr> = t\<lparr>reader := r\<rparr>"
    using st(4) by (simp add: tdf_read_align_def modify_def)
  with that st r(2) show ?thesis by blast
qed

lemma read_header_enc:
  assumes "4 \<le> major" "version_compatible major t" "rd_sound (reader t)"
    "rd_nibbles (reader t) = code_header major minor (rd_new_byte (reader t)) @ rest"
  shows "\<exists>t'. capsule_read_header t = (Ret (), t') \<and> cs_major_version t' = major \<and> cs_minor_version t' = version_after minor t
    \<and> advances (reader t) (code_header major minor (rd_new_byte (reader t))) (reader t')"
proof -
  obtain r t1 t2 t3 where st: "tdf_read_bytes (nstring_init_length 4) t = (Ret capsule_magic, t1)" "tdf_read_int t1 = (Ret major, t2)"
    "tdf_read_int t2 = (Ret minor, t3)" "tdf_read_align t3 = (Ret (), t\<lparr>reader := r\<rparr>)"
    and r: "advances (reader t) (code_header major minor (rd_new_byte (reader t))) r"
    and t3: "t3\<lparr>reader := (reader t3)\<lparr>rd_new_byte := True\<rparr>\<rparr> = t\<lparr>reader := r\<rparr>"
    using read_header_fields[OF assms(3,4)] .
  have ver: "cs_major_version t3 = cs_major_version t" "cs_minor_version t3 = cs_minor_version t"
    using arg_cong[OF t3, of cs_major_version] arg_cong[OF t3, of cs_minor_version] by simp_all
  have rd: "(reader t3)\<lparr>rd_new_byte := True\<rparr> = r" using arg_cong[OF t3, of reader] by simp
  have "major \<noteq> 0" "\<not> major < 4" using assms(1) by (auto simp: word_le_nat_alt word_less_nat_alt)
  then show ?thesis
    using st assms(2) r ver rd
    by (auto simp: capsule_read_header_def bind_def gets_def version_compatible_def version_after_def tdf_read_align_def
        modify_def ret_def)
qed

text \<open>How a header of the wrong major version is refused: an error is counted and no version changes.\<close>

definition header_refused :: "'z capsule_state_scheme \<Rightarrow> bool" where
  "header_refused t \<longleftrightarrow> (case capsule_read_header t of (r, t') \<Rightarrow>
     r = Raise (if number_errors t + 1 < maximum_errors then XX_capsule_error else Exit_Failure) \<and>
     number_errors t' = number_errors t + 1 \<and> exit_status t' \<and>
     cs_major_version t' = cs_major_version t \<and> cs_minor_version t' = cs_minor_version t)"

lemma read_header_mismatch:
  assumes "\<not> version_compatible major t" "rd_sound (reader t)"
    "rd_nibbles (reader t) = code_header major minor (rd_new_byte (reader t)) @ rest"
  shows "header_refused t"
proof -
  obtain r t1 t2 t3 where st: "tdf_read_bytes (nstring_init_length 4) t = (Ret capsule_magic, t1)" "tdf_read_int t1 = (Ret major, t2)"
    "tdf_read_int t2 = (Ret minor, t3)"
    and t3: "t3\<lparr>reader := (reader t3)\<lparr>rd_new_byte := True\<rparr>\<rparr> = t\<lparr>reader := r\<rparr>"
    using read_header_fields[OF assms(2,3)] .
  have "cs_major_version t3 = cs_major_version t" "cs_minor_version t3 = cs_minor_version t" "number_errors t3 = number_errors t"
    using arg_cong[OF t3, of cs_major_version] arg_cong[OF t3, of cs_minor_version] arg_cong[OF t3, of number_errors] by simp_all
  then show ?thesis
    using st assms(1)
    by (auto simp: header_refused_def capsule_read_header_def bind_def gets_def version_compatible_def error_throw_eq)
qed

text \<open>
  C28: The header of a capsule: what \<^verbatim>\<open>capsule_write_header\<close> writes is accepted by \<^verbatim>\<open>capsule_read_header\<close> of a
  linker that has seen no capsule yet, or only capsules of the same major version, and gives it that
  major version and the larger of the minor versions; reading stops exactly behind the header. A linker
  that has seen capsules of another major version counts an error, throws \<^verbatim>\<open>XX_capsule_error\<close> (or exits, when
  the limit of errors is reached) and keeps its versions.
\<close>

theorem capsule_header_roundtrip:
  fixes s :: "'z capsule_state_scheme"
  assumes "4 \<le> cs_major_version s" "wr_sound (writer s)" "wr_new_byte (writer s)" "bo_data (wr_bostream (writer s)) = []"
  shows "\<exists>s'. capsule_write_header s = (Ret (), s') \<and>
    (\<forall>(t :: 'z capsule_state_scheme) rest. rd_sound (reader t) \<and> rd_new_byte (reader t)
       \<and> rd_rest (reader t) = bo_data (wr_bostream (writer s')) @ rest \<longrightarrow>
      (if version_compatible (cs_major_version s) t
       then \<exists>t'. capsule_read_header t = (Ret (), t') \<and> cs_major_version t' = cs_major_version s
         \<and> cs_minor_version t' = version_after (cs_minor_version s) t \<and> rd_rest (reader t') = rest
       else header_refused t))"
proof -
  let ?H = "code_header (cs_major_version s) (cs_minor_version s) True"
  obtain w where w: "capsule_write_header s = (Ret (), s\<lparr>writer := w\<rparr>)" "emits (writer s) ?H w"
    using write_header_enc[OF assms(1,2)] assms(3) by auto
  have even: "even (length ?H)" by (auto simp: code_header_def code_seq_def code_pad_def)
  then have d: "bytes_nibbles (bo_data (wr_bostream w)) = ?H"
    using w(2) assms(3,4) emits_aligned[OF w(2)] by (simp add: emits_def wr_nibbles_def)
  have nb: "rd_nibbles (reader t) = code_header (cs_major_version s) (cs_minor_version s) (rd_new_byte (reader t)) @ bytes_nibbles rest"
    if "rd_new_byte (reader t)" "rd_rest (reader t) = bo_data (wr_bostream w) @ rest" for t :: "'z capsule_state_scheme" and rest
    using that d by (simp add: rd_nibbles_def)
  have "\<exists>t'. capsule_read_header t = (Ret (), t') \<and> cs_major_version t' = cs_major_version s
        \<and> cs_minor_version t' = version_after (cs_minor_version s) t \<and> rd_rest (reader t') = rest"
    if r: "rd_sound (reader t)" "rd_new_byte (reader t)" and eq: "rd_rest (reader t) = bo_data (wr_bostream w) @ rest"
      and v: "version_compatible (cs_major_version s) t" for t :: "'z capsule_state_scheme" and rest
  proof -
    from read_header_enc[OF assms(1) v r(1) nb[OF r(2) eq]] obtain t' where t': "capsule_read_header t = (Ret (), t')"
      "cs_major_version t' = cs_major_version s" "cs_minor_version t' = version_after (cs_minor_version s) t"
      "advances (reader t) ?H (reader t')" using r(2) by auto
    have "rd_new_byte (reader t')" using advances_aligned[OF t'(4)] even r(2) by simp
    then have "rd_rest (reader t') = rest"
      using t'(4) r(2) eq d by (simp add: advances_def rd_nibbles_def bytes_nibbles_inject)
    with t' show ?thesis by blast
  qed
  moreover have "header_refused t"
    if "rd_sound (reader t)" "rd_new_byte (reader t)" "rd_rest (reader t) = bo_data (wr_bostream w) @ rest"
      "\<not> version_compatible (cs_major_version s) t" for t :: "'z capsule_state_scheme" and rest
    using read_header_mismatch[OF that(4,1) nb[OF that(2,3)]] .
  ultimately show ?thesis using w(1) by auto
qed

text \<open>A header of version 4.1 for a new linker, and for one that has seen a capsule of version 5.\<close>

theorem capsule_header_roundtrip_witness:
  "\<exists>bs t'. capsule_read_header (capsule_start bs) = (Ret (), t') \<and> cs_major_version t' = 4 \<and> cs_minor_version t' = 1
     \<and> rd_rest (reader t') = []
     \<and> header_refused ((capsule_start bs)\<lparr>cs_major_version := 5\<rparr>)"
proof -
  let ?s = "(capsule_start [])\<lparr>cs_major_version := 4, cs_minor_version := 1\<rparr>"
  have w: "4 \<le> cs_major_version ?s" "wr_sound (writer ?s)" "wr_new_byte (writer ?s)" "bo_data (wr_bostream (writer ?s)) = []"
    by (simp_all add: capsule_start_def writer_empty_def wr_sound_def bo_sound_def bo_data_def)
  obtain s' :: capsule_state where "\<forall>(t :: capsule_state) rest. rd_sound (reader t) \<and> rd_new_byte (reader t)
       \<and> rd_rest (reader t) = bo_data (wr_bostream (writer s')) @ rest \<longrightarrow>
      (if version_compatible (cs_major_version ?s) t
       then \<exists>t'. capsule_read_header t = (Ret (), t') \<and> cs_major_version t' = cs_major_version ?s
         \<and> cs_minor_version t' = version_after (cs_minor_version ?s) t \<and> rd_rest (reader t') = rest
       else header_refused t)"
    using capsule_header_roundtrip[OF w] by blast
  then have s': "\<forall>t rest. rd_sound (reader t) \<and> rd_new_byte (reader t)
       \<and> rd_rest (reader t) = bo_data (wr_bostream (writer s')) @ rest \<longrightarrow>
      (if version_compatible 4 t
       then \<exists>t'. capsule_read_header t = (Ret (), t') \<and> cs_major_version t' = 4
         \<and> cs_minor_version t' = version_after 1 t \<and> rd_rest (reader t') = rest
       else header_refused (t :: capsule_state))"
    by (simp cong: if_cong)
  let ?t = "capsule_start (bo_data (wr_bostream (writer s')))"
  have r: "rd_sound (reader ?t)" "rd_new_byte (reader ?t)" "rd_rest (reader ?t) = bo_data (wr_bostream (writer s')) @ []"
    "version_compatible 4 ?t" "version_after 1 ?t = 1" "\<not> version_compatible 4 (?t\<lparr>cs_major_version := 5\<rparr>)"
    "reader (?t\<lparr>cs_major_version := 5\<rparr>) = reader ?t"
    by (simp_all add: capsule_start_def reader_on_def rd_sound_def rd_rest_def version_compatible_def version_after_def)
  have "header_refused (?t\<lparr>cs_major_version := 5\<rparr>)"
    using s'[rule_format, of "?t\<lparr>cs_major_version := 5\<rparr>" "[]"] r by simp
  moreover have "\<exists>t'. capsule_read_header ?t = (Ret (), t') \<and> cs_major_version t' = 4
         \<and> cs_minor_version t' = 1 \<and> rd_rest (reader t') = []"
    using s'[rule_format, of ?t "[]"] r by simp
  ultimately show ?thesis by blast
qed

end
