(* ===== verification/Link_Properties.thy ===== *)
theory Link_Properties
  imports Linker Capsule_Properties
begin

text \<open>
  What the front ends promise.
\<close>

section \<open>Resolving one name\<close>

text \<open>
  What the index of the libraries says: capsule \<open>c\<close> is named by the entry of \<open>key\<close> in the library's shape
  \<open>table\<close> as its definition, it has not been loaded yet, and a tentative definition (\<open>use\<close> has \<open>U_MULT\<close>)
  is only replaced by one that the index calls a definition.
\<close>

definition library_offers :: "nat option \<Rightarrow> cuint \<Rightarrow> NameKeyT \<Rightarrow> 'z library_state_scheme \<Rightarrow> nat \<Rightarrow> LibCapsuleT \<Rightarrow> bool" where
  "library_offers table use key s c lc \<longleftrightarrow> (\<exists>i k names e lib_use.
     names = se_names (entries (st_table (ls_shapes s)) ! i) \<and> e = entries names ! k \<and>
     table = Some i \<and> name_table_get names key = Some (Some k) \<and> name_entry_get_lib_definition e = Some (Some c) \<and>
     name_entry_get_use e = Some lib_use \<and> (use AND U_MULT = 0 \<or> lib_use AND U_DEFD \<noteq> 0) \<and>
     ls_capsules s ! c = Some lc \<and> \<not> lc_loaded lc)"

text \<open>Loading it: its contents are read as a capsule, to the end, and it is marked as loaded.\<close>

definition library_capsule_read :: "nat \<Rightarrow> LibCapsuleT \<Rightarrow> 'z library_state_scheme \<Rightarrow> 'z library_state_scheme \<Rightarrow> bool" where
  "library_capsule_read c lc s t \<longleftrightarrow> (\<exists>capsule s1 s2 s3.
     capsule_create_string_input (lb_name (ls_libraries s ! lc_library lc) @ str ''('' @ lc_name lc @ str '')'') (lc_contents lc) s
       = (Ret capsule, s1) \<and>
     capsule_read capsule s1 = (Ret (), s2) \<and> capsule_close capsule s2 = (Ret (), s3) \<and>
     t = s3\<lparr>ls_capsules := (ls_capsules s)[c := Some (lc\<lparr>lc_loaded := True\<rparr>)]\<rparr>)"

lemma find_library_cases:
  assumes "name_entry_find_library table use key s = (Ret x, t)"
  shows "t = s \<and> (case x of None \<Rightarrow> \<forall>c lc. \<not> library_offers table use key s c lc
     | Some c \<Rightarrow> \<exists>lc. ls_capsules s ! c = Some lc \<and> library_offers table use key s c lc)"
proof (cases table)
  case None
  then show ?thesis using assms by (simp add: name_entry_find_library_def ret_def library_offers_def)
next
  case (Some r)
  let ?sh = "entries (st_table (ls_shapes s)) ! r"
  obtain le where le: "r < length (entries (st_table (ls_shapes s)))" "name_table_get (se_names ?sh) key = Some le"
    using assms Some by (auto simp: name_entry_find_library_def bind_Ret_iff gets_def index_def defined_def split: if_splits option.splits)
  show ?thesis
  proof (cases le)
    case None
    then show ?thesis
      using assms Some le by (simp add: name_entry_find_library_def bind_def gets_def ret_def index_def library_offers_def)
  next
    case n: (Some n)
    let ?e = "entries (se_names ?sh) ! n"
    obtain ld lu where "n < length (entries (se_names ?sh))" "name_entry_get_lib_definition ?e = Some ld"
      "name_entry_get_use ?e = Some lu"
      using assms Some le n by (auto simp: name_entry_find_library_def bind_Ret_iff gets_def index_def defined_def
          split: if_splits option.splits)
    then show ?thesis
      using assms Some le n
      by (cases ld) (auto simp: name_entry_find_library_def bind_Ret_iff gets_def ret_def lib_capsule_at_Ret library_offers_def
          split: if_splits)
  qed
qed

lemma load_reads:
  assumes "name_entry_load c s = (Ret x, t)" "ls_capsules s ! c = Some lc"
  shows "library_capsule_read c lc s t"
proof -
  let ?name = "lb_name (ls_libraries s ! lc_library lc) @ str ''('' @ lc_name lc @ str '')''"
  obtain capsule s1 s2 s3 where m: "capsule_create_string_input ?name (lc_contents lc) s = (Ret capsule, s1)"
    "capsule_read capsule s1 = (Ret (), s2)" "capsule_close capsule s2 = (Ret (), s3)" "lib_capsule_loaded c s3 = (Ret x, t)"
    using assms
    by (auto simp: name_entry_load_def lib_capsule_full_name_def bind_Ret_iff lib_capsule_at_Ret gets_def ret_def str_def)
  have rest: "rest_is (capsule_state.more s) s" by (simp add: rest_is_def)
  have "rest_is (capsule_state.more s) s3"
    using keepsD[OF rest.rest_close keepsD[OF rest.rest_read keepsD[OF rest.rest_create_string_input rest m(1)] m(2)] m(3)] .
  then have "ls_capsules s3 = ls_capsules s" unfolding rest_is_def by (rule more_ls_capsules)
  then have "t = s3\<lparr>ls_capsules := (ls_capsules s)[c := Some (lc\<lparr>lc_loaded := True\<rparr>)]\<rparr>"
    using m(4) assms(2)
    by (auto simp: lib_capsule_loaded_def bind_Ret_iff lib_capsule_at_Ret lib_capsule_put_def modify_def)
  with m show ?thesis unfolding library_capsule_read_def by blast
qed

lemma warning_changes_nothing: "error_msg ERR_WARN s = (Ret x, t) \<Longrightarrow> t = s"
  by (auto simp: error_msg_def bind_Ret_iff modify_def gets_def ret_def raise_def split: if_splits)


text \<open>
  An example: the name \<open>a\<close> of the shape \<open>t\<close> is used, and the index of a library with one capsule says
  that this capsule defines it.
\<close>

definition example_shapes :: "cuint \<Rightarrow> nat option \<Rightarrow> ShapeTableT" where
  "example_shapes use lib_definition =
     \<lparr>st_table = \<lparr>entries = [\<lparr>se_key = [116],
         se_names = \<lparr>entries = [\<lparr>ne_key = KT_STRING [97], ne_u = NT_DIRECT
             \<lparr>nd_id = 0, nd_use = use, nd_definition = None, nd_lib_definition = lib_definition\<rparr>\<rparr>],
           contents = (replicate NAME_TABLE_SIZE [])[name_table_slot (KT_STRING [97]) := [0]]\<rparr>,
         se_id_count = 1, se_non_empty = False, se_num_lib_names = 0, se_queue = [0]\<rparr>],
       contents = (replicate SHAPE_TABLE_SIZE [])[shape_table_slot [116] := [0]]\<rparr>,
      st_token_entry = None, st_tag_entry = None\<rparr>"

definition example_state :: library_state where
  "example_state = capsule_state.extend ((capsule_start [])\<lparr>cs_shapes := example_shapes U_USED None, cs_need_setup := False\<rparr>)
     (library_state.fields (example_shapes U_DEFD (Some 0))
        [\<lparr>lb_type = LT_INPUT, lb_name = [108], lb_capsules = (0, 1), lb_major = 4, lb_minor = 0, lb_complete = True\<rparr>]
        [Some \<lparr>lc_library = 0, lc_name = [99], lc_contents = [], lc_loaded = False\<rparr>] [])"


section \<open>The end of resolution\<close>

abbreviation chains :: "'z capsule_state_scheme \<Rightarrow> nat list list" where
  "chains s \<equiv> contents (st_table (cs_shapes s))"

text \<open>No name of shape \<open>r\<close> waits to be looked at.\<close>

definition drained :: "nat \<Rightarrow> 'z capsule_state_scheme \<Rightarrow> bool" where
  "drained r s \<longleftrightarrow> se_queue (shape_entry_at (cs_shapes s) r) = []"

text \<open>Shape \<open>r\<close> is drained, and nothing else changes in the shapes.\<close>

definition drains :: "nat \<Rightarrow> 'z capsule_state_scheme \<Rightarrow> 'z capsule_state_scheme \<Rightarrow> bool" where
  "drains r s t \<longleftrightarrow> r < length (entries (st_table (cs_shapes s))) \<and>
     cs_shapes t = shape_entry_put r ((shape_entry_at (cs_shapes s) r)\<lparr>se_queue := []\<rparr>) (cs_shapes s)"

lemma pop_cases:
  assumes "on_shape r (\<lambda>e. ret (shape_entry_get_from_list e)) s = (Ret x, t)"
  obtains "x = None" "t = s" "drained r s" "r < length (entries (st_table (cs_shapes s)))"
    | n ns where "x = Some n" "r < length (entries (st_table (cs_shapes s)))"
        "cs_shapes t = shape_entry_put r ((shape_entry_at (cs_shapes s) r)\<lparr>se_queue := ns\<rparr>) (cs_shapes s)"
proof -
  let ?e = "entries (st_table (cs_shapes s)) ! r"
  obtain e' where e': "shape_entry_get_from_list ?e = (x, e')" "r < length (entries (st_table (cs_shapes s)))"
    "t = s\<lparr>cs_shapes := shape_entry_put r e' (cs_shapes s)\<rparr>"
    using assms by (auto simp: on_shape_def bind_Ret_iff gets_def index_def ret_def modify_def split: if_splits prod.splits)
  show ?thesis
  proof (cases "se_queue ?e")
    case Nil
    with e' have "x = None" "e' = ?e" by (simp_all add: shape_entry_get_from_list_def)
    with e' Nil that(1) on_shape_put_same[OF e'(2)] show ?thesis by (simp add: drained_def shape_entry_at_def)
  next
    case (Cons n ns)
    with e' have "x = Some n" "e' = ?e\<lparr>se_queue := ns\<rparr>" by (simp_all add: shape_entry_get_from_list_def)
    with e' that(2) show ?thesis by (simp add: shape_entry_at_def)
  qed
qed

lemma drains_again:
  assumes "r < length (entries (st_table (cs_shapes s)))" "drains r t u"
    "cs_shapes t = shape_entry_put r ((shape_entry_at (cs_shapes s) r)\<lparr>se_queue := ns\<rparr>) (cs_shapes s)"
  shows "drains r s u"
  using assms by (simp add: drains_def shape_entry_put_def shape_entry_at_def table_set_def)

lemma drained_drains: "drained r s \<Longrightarrow> r < length (entries (st_table (cs_shapes s))) \<Longrightarrow> drains r s s"
proof -
  assume q: "drained r s" and r: "r < length (entries (st_table (cs_shapes s)))"
  from q have "(shape_entry_at (cs_shapes s) r)\<lparr>se_queue := []\<rparr> = shape_entry_at (cs_shapes s) r"
    unfolding drained_def by (cases "shape_entry_at (cs_shapes s) r") simp
  with r show ?thesis
    by (simp add: drains_def shape_entry_put_def shape_entry_at_def table_set_def)
qed

lemma resolve_loop_drains:
  "shape_entry_resolve_loop r table md did s = (Ret did', t) \<Longrightarrow> unloaded t = unloaded s \<Longrightarrow> drains r s t"
proof (induction r table md did s arbitrary: did' t rule: shape_entry_resolve_loop.induct)
  case (1 r table md did s)
  obtain x t1 where p: "on_shape r (\<lambda>e. ret (shape_entry_get_from_list e)) s = (Ret x, t1)"
    using 1(2) by (subst (asm) shape_entry_resolve_loop.simps) (auto split: prod.splits outcome.splits)
  from p show ?case
  proof (cases rule: pop_cases)
    case 1
    with \<open>shape_entry_resolve_loop r table md did s = (Ret did', t)\<close> p have "t = s"
      by (simp add: shape_entry_resolve_loop.simps [of r table md did s])
    with 1 show ?thesis by (simp add: drained_drains)
  next
    case (2 n ns)
    obtain b u where z: "name_entry_resolve_undefined r n table md t1 = (Ret b, u)"
      and rec: "shape_entry_resolve_loop r table md (did \<or> b) u = (Ret did', t)"
      using \<open>shape_entry_resolve_loop r table md did s = (Ret did', t)\<close> p 2(1)
      by (subst (asm) shape_entry_resolve_loop.simps) (auto split: prod.splits outcome.splits)
    have "unloaded t \<le> unloaded u" using resolve_loop_progress[OF rec] by (auto simp: progress_def)
    with resolve_step[OF p [unfolded 2(1)] z] 1(3) have nb: "\<not> b" "unloaded u = unloaded s" by auto
    have sh: "cs_shapes u = cs_shapes t1" using resolve_False[of r n table md t1 u] z nb by simp
    have "drains r u t" using 1(1)[OF p [symmetric] refl 2(1) z [symmetric] refl rec] 1(3) nb by simp
    with sh have "drains r t1 t" by (simp add: drains_def)
    from drains_again[OF 2(2) this 2(3)] show ?thesis .
  qed
qed

lemma shape_resolve_drains:
  assumes "shape_entry_resolve_undefined r md did s = (Ret did', t)" "unloaded t = unloaded s"
  shows "drains r s t"
proof -
  have "on_shape r (\<lambda>e. ret (se_key e, e)) s = (Ret key, u) \<Longrightarrow> u = s" for key u
    by (auto simp: on_shape_def bind_Ret_iff gets_def index_def ret_def modify_def on_shape_put_same split: if_splits)
  then show ?thesis
    using assms by (auto simp: shape_entry_resolve_undefined_def bind_Ret_iff gets_def intro: resolve_loop_drains)
qed

lemma drains_drained:
  assumes "drains r s t"
  shows "chains t = chains s" "drained r t" "drained r' s \<Longrightarrow> drained r' t"
  using assms by (auto simp: drains_def drained_def shape_entry_put_def shape_entry_at_def nth_list_update)

text \<open>A pass that loads nothing drains every shape from bucket \<open>i\<close>, position \<open>j\<close> on.\<close>

lemma resolve_pass_drains:
  "linker_resolve_pass md i j did s = (Ret did', t) \<Longrightarrow> unloaded t = unloaded s \<Longrightarrow>
   chains t = chains s \<and> (\<forall>r. drained r s \<longrightarrow> drained r t) \<and>
   (\<forall>i'<SHAPE_TABLE_SIZE. \<forall>j'<length (chains s ! i'). i < i' \<or> i = i' \<and> j \<le> j' \<longrightarrow> drained (chains s ! i' ! j') t)"
proof (induction md i j did s arbitrary: did' t rule: linker_resolve_pass.induct)
  case (1 md i j did s)
  let ?c = "chains s ! i"
  consider (shape) "i < SHAPE_TABLE_SIZE" "j < length ?c" | (bucket) "i < SHAPE_TABLE_SIZE" "\<not> j < length ?c"
    | (finish) "\<not> i < SHAPE_TABLE_SIZE" by blast
  then show ?case
  proof cases
    case shape
    obtain d u where x: "shape_entry_resolve_undefined (?c ! j) md did s = (Ret d, u)"
      and rec: "linker_resolve_pass md i (j + 1) d u = (Ret did', t)"
      using 1(3) shape by (subst (asm) linker_resolve_pass.simps) (auto split: prod.splits outcome.splits)
    have "unloaded t \<le> unloaded u" "unloaded u \<le> unloaded s"
      using resolve_pass_progress[OF rec] shape_resolve_progress[OF x] by (auto simp: progress_def)
    then have eq: "unloaded u = unloaded s" "unloaded t = unloaded u" using 1(4) by simp_all
    note dr = drains_drained[OF shape_resolve_drains[OF x eq(1)]]
    note ih = 1(1)[OF shape x [symmetric] refl rec eq(2)]
    have "i < i' \<or> i = i' \<and> j + 1 \<le> j' \<or> i = i' \<and> j = j'" if "i < i' \<or> i = i' \<and> j \<le> j'" for i' j'
      using that by auto
    with ih dr show ?thesis by metis
  next
    case bucket
    with 1(3) have rec: "linker_resolve_pass md (i + 1) 0 did s = (Ret did', t)"
      by (simp add: linker_resolve_pass.simps [of md i j])
    have "i + 1 < i' \<or> i + 1 = i' \<and> 0 \<le> j'" if "i < i' \<or> i = i' \<and> j \<le> j'" "j' < length (chains s ! i')" for i' j'
      using that bucket(2) by (cases "i = i'") auto
    with 1(2)[OF bucket rec 1(4)] show ?thesis by blast
  next
    case finish
    with 1(3) have "t = s" by (simp add: linker_resolve_pass.simps [of md i j])
    with finish show ?thesis by auto
  qed
qed

text \<open>
  What resolution may do, as a run of steps: take the first name off the queue of a shape and hand it,
  with the library's entry of that shape, to \<^verbatim>\<open>name_entry_resolve_undefined\<close>. The trace lists the shape,
  the name and the answer of every call; a run ends normally, or with what a call raises, or at a
  shape that does not exist.
\<close>

definition take_name :: "nat \<Rightarrow> 'z library_state_scheme \<Rightarrow> (nat \<times> 'z library_state_scheme) option" where
  "take_name r s = (let e = shape_entry_at (cs_shapes s) r in
     case se_queue e of
       [] \<Rightarrow> None
     | n # ns \<Rightarrow> Some (n, s\<lparr>cs_shapes := shape_entry_put r (e\<lparr>se_queue := ns\<rparr>) (cs_shapes s)\<rparr>))"

inductive names_looked_at ::
  "bool \<Rightarrow> nat \<Rightarrow> nat option \<Rightarrow> 'z library_state_scheme \<Rightarrow> (nat \<times> nat \<times> bool) list \<Rightarrow> unit outcome \<times> 'z library_state_scheme \<Rightarrow> bool"
  for md r table where
  no_more: "names_looked_at md r table s [] (Ret (), s)"
| no_shape: "\<not> r < length (entries (st_table (cs_shapes s))) \<Longrightarrow> names_looked_at md r table s [] (Raise Undefined, s)"
| raised: "take_name r s = Some (n, s') \<Longrightarrow> name_entry_resolve_undefined r n table md s' = (Raise e, t) \<Longrightarrow>
    names_looked_at md r table s [] (Raise e, t)"
| looked: "take_name r s = Some (n, s') \<Longrightarrow> name_entry_resolve_undefined r n table md s' = (Ret b, u) \<Longrightarrow>
    names_looked_at md r table u w res \<Longrightarrow> names_looked_at md r table s ((r, n, b) # w) res"

definition library_entry_of :: "nat \<Rightarrow> 'z library_state_scheme \<Rightarrow> nat option" where
  "library_entry_of r s = shape_table_get (ls_shapes s) (se_key (shape_entry_at (cs_shapes s) r))"

inductive shapes_looked_at ::
  "bool \<Rightarrow> 'z library_state_scheme \<Rightarrow> (nat \<times> nat \<times> bool) list \<Rightarrow> unit outcome \<times> 'z library_state_scheme \<Rightarrow> bool"
  for md where
  all_shapes: "shapes_looked_at md s [] (Ret (), s)"
| broken: "names_looked_at md r (library_entry_of r s) s w (Raise e, t) \<Longrightarrow> shapes_looked_at md s w (Raise e, t)"
| shape: "names_looked_at md r (library_entry_of r s) s w (Ret (), u) \<Longrightarrow> shapes_looked_at md u w' res \<Longrightarrow>
    shapes_looked_at md s (w @ w') res"

lemma shapes_looked_at_trans:
  "shapes_looked_at md s w x \<Longrightarrow> x = (Ret (), u) \<Longrightarrow> shapes_looked_at md u w' res \<Longrightarrow> shapes_looked_at md s (w @ w') res"
proof (induction arbitrary: u rule: shapes_looked_at.induct)
  case (shape r s w v w2 x)
  from shapes_looked_at.shape [OF shape.hyps(1) shape.IH [OF shape.prems]] show ?case by simp
qed simp_all

text \<open>The loops are such runs.\<close>

lemma pop_taken:
  "on_shape r (\<lambda>e. ret (shape_entry_get_from_list e)) s =
     (if r < length (entries (st_table (cs_shapes s))) then
        case take_name r s of None \<Rightarrow> (Ret None, s) | Some (n, s') \<Rightarrow> (Ret (Some n), s')
      else (Raise Undefined, s))"
  by (auto simp: on_shape_def bind_def gets_def index_def check_def ret_def raise_def modify_def take_name_def Let_def
      shape_entry_at_def shape_entry_get_from_list_def on_shape_put_same split: list.splits)

lemma resolve_loop_looks:
  "\<exists>w. names_looked_at md r table s w (map_prod (map_outcome (\<lambda>_. ())) id (shape_entry_resolve_loop r table md did s))"
proof (induction r table md did s rule: shape_entry_resolve_loop.induct)
  case (1 r table md did s)
  show ?case
  proof (cases "r < length (entries (st_table (cs_shapes s)))")
    case False
    then show ?thesis
      using no_shape[of r s md table] by (auto simp: shape_entry_resolve_loop.simps [of r table md did s] pop_taken)
  next
    case r: True
    show ?thesis
    proof (cases "take_name r s")
      case None
      then show ?thesis
        using r no_more[of md r table s] by (auto simp: shape_entry_resolve_loop.simps [of r table md did s] pop_taken)
    next
      case (Some p)
      obtain n s' where p: "p = (n, s')" by fastforce
      have pop: "on_shape r (\<lambda>e. ret (shape_entry_get_from_list e)) s = (Ret (Some n), s')"
        using r Some p by (simp add: pop_taken)
      obtain z u where z: "name_entry_resolve_undefined r n table md s' = (z, u)" by fastforce
      show ?thesis
      proof (cases z)
        case (Raise e)
        then have "names_looked_at md r table s [] (Raise e, u)" using raised[of r s n s' table md] Some p z by simp
        then show ?thesis using pop z Raise by (auto simp: shape_entry_resolve_loop.simps [of r table md did s])
      next
        case (Ret b)
        have "shape_entry_resolve_loop r table md did s = shape_entry_resolve_loop r table md (did \<or> b) u"
          using pop z Ret by (simp add: shape_entry_resolve_loop.simps [of r table md did s])
        moreover obtain w where w: "names_looked_at md r table u w
            (map_prod (map_outcome (\<lambda>_. ())) id (shape_entry_resolve_loop r table md (did \<or> b) u))"
          using 1 [OF pop [symmetric] refl refl z [symmetric] Ret] by blast
        have "take_name r s = Some (n, s')" "name_entry_resolve_undefined r n table md s' = (Ret b, u)"
          using Some p z Ret by simp_all
        from looked[OF this w] have "names_looked_at md r table s ((r, n, b) # w)
            (map_prod (map_outcome (\<lambda>_. ())) id (shape_entry_resolve_loop r table md (did \<or> b) u))" .
        ultimately show ?thesis by (simp only:) (rule exI)
      qed
    qed
  qed
qed

lemma shape_resolve_looks:
  "\<exists>w. names_looked_at md r (library_entry_of r s) s w
     (map_prod (map_outcome (\<lambda>_. ())) id (shape_entry_resolve_undefined r md did s))"
proof (cases "r < length (entries (st_table (cs_shapes s)))")
  case True
  then have "shape_entry_resolve_undefined r md did s = shape_entry_resolve_loop r (library_entry_of r s) md did s"
    by (simp add: shape_entry_resolve_undefined_def on_shape_def bind_def gets_def index_def check_def ret_def modify_def
        on_shape_put_same library_entry_of_def shape_entry_at_def)
  then show ?thesis using resolve_loop_looks by metis
next
  case False
  then have "shape_entry_resolve_undefined r md did s = (Raise Undefined, s)"
    by (simp add: shape_entry_resolve_undefined_def on_shape_def bind_def gets_def index_def check_def ret_def raise_def)
  then show ?thesis using no_shape[OF False] by auto
qed

lemma resolve_pass_looks:
  "\<exists>w. shapes_looked_at md s w (map_prod (map_outcome (\<lambda>_. ())) id (linker_resolve_pass md i j did s))"
proof (induction md i j did s rule: linker_resolve_pass.induct)
  case (1 md i j did s)
  let ?c = "chains s ! i"
  consider (shape) "i < SHAPE_TABLE_SIZE" "j < length ?c" | (bucket) "i < SHAPE_TABLE_SIZE" "\<not> j < length ?c"
    | (finish) "\<not> i < SHAPE_TABLE_SIZE" by blast
  then show ?case
  proof cases
    case shape
    obtain x u where x: "shape_entry_resolve_undefined (?c ! j) md did s = (x, u)" by fastforce
    obtain w where w: "names_looked_at md (?c ! j) (library_entry_of (?c ! j) s) s w (map_outcome (\<lambda>_. ()) x, u)"
      using shape_resolve_looks[of md "?c ! j" s did] x by auto
    show ?thesis
    proof (cases x)
      case (Raise e)
      with w have "shapes_looked_at md s w (Raise e, u)" by (simp add: broken)
      then show ?thesis using shape x Raise by (auto simp: linker_resolve_pass.simps [of md i j did s])
    next
      case (Ret d)
      have "linker_resolve_pass md i j did s = linker_resolve_pass md i (j + 1) d u"
        using shape x Ret by (simp add: linker_resolve_pass.simps [of md i j did s])
      moreover obtain w' where w': "shapes_looked_at md u w'
          (map_prod (map_outcome (\<lambda>_. ())) id (linker_resolve_pass md i (j + 1) d u))"
        using 1(1) [OF shape x [symmetric] Ret] by blast
      have "names_looked_at md (?c ! j) (library_entry_of (?c ! j) s) s w (Ret (), u)" using w Ret by simp
      from shapes_looked_at.shape [OF this w'] have "shapes_looked_at md s (w @ w')
          (map_prod (map_outcome (\<lambda>_. ())) id (linker_resolve_pass md i (j + 1) d u))" .
      ultimately show ?thesis by (simp only:) (rule exI)
    qed
  next
    case bucket
    with 1(2) [OF bucket] show ?thesis by (simp add: linker_resolve_pass.simps [of md i j did s])
  next
    case finish
    then show ?thesis using all_shapes[of md s] by (auto simp: linker_resolve_pass.simps [of md i j did s])
  qed
qed

lemma resolve_all_looks: "\<exists>w. shapes_looked_at md s w (linker_resolve_loop md s)"
proof (induction md s rule: linker_resolve_loop.induct)
  case (1 md s)
  obtain x u where p: "linker_resolve_pass md 0 0 False s = (x, u)" by fastforce
  obtain w where w: "shapes_looked_at md s w (map_outcome (\<lambda>_. ()) x, u)"
    using resolve_pass_looks[of md s 0 0 False] p by auto
  show ?case
  proof (cases x)
    case (Raise e)
    with w p show ?thesis by (auto simp: linker_resolve_loop.simps [of md s])
  next
    case (Ret d)
    show ?thesis
    proof (cases d)
      case True
      obtain w' where "shapes_looked_at md u w' (linker_resolve_loop md u)" using 1 [OF p [symmetric] Ret True] by blast
      from shapes_looked_at_trans [OF w _ this] Ret True p show ?thesis
        by (auto simp: linker_resolve_loop.simps [of md s])
    next
      case False
      with w p Ret show ?thesis by (auto simp: linker_resolve_loop.simps [of md s])
    qed
  qed
qed

text \<open>Every call that loads a capsule leaves one less to load.\<close>

definition loads :: "(nat \<times> nat \<times> bool) list \<Rightarrow> nat" where
  "loads w = length (filter (\<lambda>(r, n, b). b) w)"

lemma loads_simps [simp]: "loads [] = 0" "loads ((r, n, b) # w) = (if b then 1 else 0) + loads w" "loads (w @ w') = loads w + loads w'"
  by (simp_all add: loads_def)

lemma names_looked_at_loads:
  "names_looked_at md r table s w (x, t) \<Longrightarrow> loads w \<le> unloaded s \<and> (x = Ret () \<longrightarrow> loads w + unloaded t \<le> unloaded s)"
proof (induction s w "(x, t)" rule: names_looked_at.induct)
  case (looked s n s' b u w)
  have "unloaded s' = unloaded s"
    using looked.hyps(1) by (auto simp: take_name_def Let_def unloaded_def split: list.splits)
  moreover have "unloaded u + (if b then 1 else 0) \<le> unloaded s'"
    using looked.hyps(2) resolve_True[of r n table md s' u] resolve_False[of r n table md s' u]
    by (cases b) (auto simp: unloaded_def)
  ultimately show ?case using looked.hyps(4) by auto
qed auto

lemma shapes_looked_at_loads: "shapes_looked_at md s w res \<Longrightarrow> loads w \<le> unloaded s"
proof (induction rule: shapes_looked_at.induct)
  case (shape r s w u w' res)
  with names_looked_at_loads[OF shape.hyps(1)] show ?case by simp
qed (simp_all add: names_looked_at_loads [THEN conjunct1])

lemma resolve_loop_drained:
  assumes "linker_resolve_loop md s = (Ret (), t)"
  shows "\<forall>i<SHAPE_TABLE_SIZE. \<forall>r\<in>set (chains t ! i). drained r t"
proof -
  have "linker_resolve_loop md s = (Ret (), t) \<Longrightarrow> \<forall>i<SHAPE_TABLE_SIZE. \<forall>r\<in>set (chains t ! i). drained r t"
  proof (induction md s arbitrary: t rule: linker_resolve_loop.induct)
    case (1 md s)
    obtain d u where p: "linker_resolve_pass md 0 0 False s = (Ret d, u)"
      using 1(2) by (subst (asm) linker_resolve_loop.simps) (auto split: prod.splits outcome.splits)
    show ?case
    proof (cases d)
      case True
      with 1(2) p have "linker_resolve_loop md u = (Ret (), t)" by (simp add: linker_resolve_loop.simps [of md s])
      with 1(1)[OF p [symmetric] refl True] show ?thesis by blast
    next
      case False
      with 1(2) p have t: "t = u" by (simp add: linker_resolve_loop.simps [of md s])
      have "unloaded t = unloaded s" using resolve_pass_progress[OF p] False t by (auto simp: progress_def)
      from resolve_pass_drains[OF p [folded t] this] have c: "chains t = chains s"
        "\<forall>i'<SHAPE_TABLE_SIZE. \<forall>j'<length (chains s ! i'). drained (chains s ! i' ! j') t" by auto
      then show ?thesis by (metis in_set_conv_nth)
    qed
  qed
  with assms show ?thesis by simp
qed

text \<open>
  C12: Resolution ends, has looked at every name it took, and leaves none. Whatever the shapes, the libraries
  and the capsules loaded on the way, the whole loop is a run of calls of \<^verbatim>\<open>name_entry_resolve_undefined\<close>, one for
  each name taken off the queue of its shape, with the library's entry of that shape; at most as many of
  them load a capsule as there were library capsules not loaded. If no call raises an exception or
  exits, the queue of every shape of the table is empty at the end, those of the shapes and names
  that the loaded capsules brought in included; otherwise the loop ends with what the first such call
  raised.
\<close>

theorem resolve_leaves_no_name:
  "\<exists>w. shapes_looked_at md s w (linker_resolve_loop md s) \<and> loads w \<le> unloaded s \<and>
     (case linker_resolve_loop md s of
        (Ret _, t) \<Rightarrow> \<forall>i<SHAPE_TABLE_SIZE. \<forall>r\<in>set (contents (st_table (cs_shapes t)) ! i). se_queue (shape_entry_at (cs_shapes t) r) = []
      | (Raise e, t) \<Rightarrow> True)"
proof -
  obtain w where w: "shapes_looked_at md s w (linker_resolve_loop md s)" using resolve_all_looks by blast
  have "\<forall>i<SHAPE_TABLE_SIZE. \<forall>r\<in>set (chains t ! i). se_queue (shape_entry_at (cs_shapes t) r) = []"
    if "linker_resolve_loop md s = (Ret (), t)" for t
    using resolve_loop_drained[OF that] by (simp add: drained_def)
  with w shapes_looked_at_loads[OF w] show ?thesis by (intro exI [of _ w]) (auto split: prod.splits outcome.splits)
qed

text \<open>The example: its one name is looked at, which loads the capsule of the library.\<close>

theorem resolve_leaves_no_name_witness:
  "\<exists>w t. shapes_looked_at False example_state w (Ret (), t) \<and> loads w \<le> 1 \<and> se_queue (shape_entry_at (cs_shapes t) 0) = []"
proof -
  have "case linker_resolve_loop False example_state of (r, t) \<Rightarrow> r = Ret () \<and> 0 \<in> set (contents (st_table (cs_shapes t)) ! shape_table_slot [116])"
    by code_simp
  then obtain t where t: "linker_resolve_loop False example_state = (Ret (), t)"
    "0 \<in> set (contents (st_table (cs_shapes t)) ! shape_table_slot [116])"
    by (auto split: prod.splits)
  have "shape_table_slot [116] < SHAPE_TABLE_SIZE"
    by (simp add: shape_table_slot_def SHAPE_TABLE_SIZE_def unat_mod)
  moreover have "unloaded example_state = 1" by (simp add: unloaded_def example_state_def capsule_state.extend_def library_state.fields_def)
  ultimately show ?thesis using resolve_leaves_no_name[of False example_state] t by auto
qed

end
