(* ===== verification/Reporting.thy ===== *)
theory Reporting
  imports Linker Capsule_Properties
begin

text \<open>
  The severity that the guards of the front ends test. No function that the four modes of the linker
  call changes it: errors are counted by \<^verbatim>\<open>shared/src/error.c\<close>, and the guards ask
  \<^verbatim>\<open>libexds/src/error.c\<close>. So each mode is equal to the mode without its guards, phase by phase.
\<close>

named_theorems report_intros \<open>programs that report nothing to libexds\<close>

lemma reported_modify: "(\<And>s. max_reported (f s) = max_reported s) \<Longrightarrow> keeps (reported v) (modify f)"
  by (rule keeps_modify) (simp add: reported_def)

lemma reported_step: "(\<And>s. max_reported (snd (m s)) = max_reported s) \<Longrightarrow> keeps (reported v) m"
  by (simp add: keeps_def reported_def)

lemma reported_error [report_intros]:
  "keeps (reported v) (error_msg e)" "keeps (reported v) (error_throw x)"
proof -
  show "keeps (reported v) (error_msg e)" by (rule keeps_error_msg) (simp add: frame_err_def reported_def)
  show "keeps (reported v) (error_throw x)" by (rule keeps_error_throw) (simp add: frame_err_def reported_def)
qed

lemma reported_guard [report_intros]: "keeps (reported v) exit_on_error"
  unfolding exit_on_error_def error_max_reported_severity_def by (intro keeps_intros)

section \<open>Output\<close>

lemma reported_on_bostream [report_intros]: "keeps (reported v) (on_bostream m)"
  by (rule reported_step) (simp add: on_bostream_def split: prod.splits)

lemma reported_nibble [report_intros]: "keeps (reported v) (tdf_write_nibble n)"
  by (rule reported_step) (simp add: tdf_write_nibble_def on_bostream_def Let_def split: prod.splits)

lemma reported_align [report_intros]: "keeps (reported v) tdf_write_align"
  by (rule reported_step) (auto simp: tdf_write_align_def on_bostream_def bind_def modify_def split: prod.splits outcome.splits)

lemma reported_digits [report_intros]: "keeps (reported v) (tdf_write_digits x n)"
  by (induction n) (simp_all add: keeps_intros report_intros)

lemma reported_write [report_intros]:
  "keeps (reported v) (tdf_write_int x)" "keeps (reported v) (tdf_write_bytes ns)" "keeps (reported v) (tdf_write_string ns)"
  unfolding tdf_write_int_def tdf_write_bytes_def tdf_write_string_def by (intro keeps_intros report_intros)+

lemma reported_write_name [report_intros]: "keeps (reported v) (tdf_write_name k)"
  unfolding tdf_write_name_def by (cases k) (auto intro!: keeps_intros report_intros)

lemma reported_writer [report_intros]: "keeps (reported v) (tdf_writer_open name)" "keeps (reported v) tdf_writer_close"
proof -
  show "keeps (reported v) (tdf_writer_open name)"
    by (rule reported_step) (simp add: tdf_writer_open_def split: option.splits)
  show "keeps (reported v) tdf_writer_close"
    unfolding tdf_writer_close_def by (intro keeps_intros report_intros reported_modify) simp
qed

section \<open>Tables\<close>

lemma keeps_shape_table_iter [keeps_intros]:
  assumes "\<And>e c. keeps I (proc e c)" shows "keeps I (shape_table_iter t proc c)"
proof -
  have "keeps I (shape_table_iter_chain proc rs t c)" for rs t c
    by (induction rs arbitrary: t c) (auto intro!: keeps_intros assms)
  then show ?thesis by (simp add: shape_table_iter_def)
qed

lemma keeps_name_table_iter [keeps_intros]:
  assumes "\<And>e c. keeps I (proc e c)" shows "keeps I (name_table_iter t proc c)"
proof -
  have "keeps I (name_table_iter_chain proc rs t c)" for rs t c
    by (induction rs arbitrary: t c) (auto intro!: keeps_intros assms)
  then show ?thesis by (simp add: name_table_iter_def)
qed

lemma keeps_unit_table_iter [keeps_intros]:
  assumes "\<And>e c. keeps I (proc e c)" shows "keeps I (unit_table_iter t proc c)"
proof -
  have "keeps I (unit_table_iter_chain proc rs t c)" for rs c
    by (induction rs arbitrary: c) (auto intro!: keeps_intros assms)
  then show ?thesis by (simp add: unit_table_iter_def)
qed

lemma keeps_map_table_iter [keeps_intros]:
  assumes "\<And>e c. keeps I (proc e c)" shows "keeps I (map_table_iter t proc c)"
proof -
  have "keeps I (map_table_iter_chain proc rs t c)" for rs c
    by (induction rs arbitrary: c) (auto intro!: keeps_intros assms)
  then show ?thesis by (simp add: map_table_iter_def)
qed

lemma reported_counts [report_intros]:
  "keeps (reported v) (map_entry_check_non_empty m t)" "keeps (reported v) (unit_count_maps us t)"
  "keeps (reported v) (unit_entry_do_count ue c)"
proof -
  show m: "keeps (reported v) (map_entry_check_non_empty m t)" for m t
    unfolding map_entry_check_non_empty_def by (intro keeps_intros)
  show u: "keeps (reported v) (unit_count_maps us t)" for us t
    by (induction us arbitrary: t) (auto intro!: keeps_intros m split: option.splits)
  show "keeps (reported v) (unit_entry_do_count ue c)"
    unfolding unit_entry_do_count_def by (intro keeps_intros u)
qed

lemma reported_names [report_intros]:
  "keeps (reported v) (name_entry_do_count n c)" "keeps (reported v) (name_entry_write_name n u)"
  "keeps (reported v) (name_entry_compute_tld_size n sz)" "keeps (reported v) (name_entry_write_tld n u)"
  "keeps (reported v) (name_entry_check_multi_defs n u)" "keeps (reported v) (name_entry_do_lib_count n c)"
  "keeps (reported v) (name_entry_do_lib_write g n u)" "keeps (reported v) (name_entry_suppress n u)"
  "keeps (reported v) (name_entry_builder_suppress n u)" "keeps (reported v) (name_entry_hide_defd n u)"
  "keeps (reported v) (name_entry_keep n u)" "keeps (reported v) (name_entry_suppress_mult n u)"
  "keeps (reported v) (name_entry_lib_suppress_mult n u)" "keeps (reported v) (name_entry_show_content f n out)"
  unfolding name_entry_do_count_def name_entry_write_name_def name_entry_compute_tld_size_def name_entry_write_tld_def
    name_entry_check_multi_defs_def name_entry_do_lib_count_def name_entry_do_lib_write_def name_entry_suppress_def
    name_entry_builder_suppress_def name_entry_hide_defd_def name_entry_keep_def name_entry_suppress_mult_def
    name_entry_lib_suppress_mult_def name_entry_show_content_def
  by (intro keeps_intros report_intros)+

lemma reported_shapes [report_intros]:
  "keeps (reported v) (shape_entry_do_count e c)" "keeps (reported v) (shape_entry_write_shape e u)"
  "keeps (reported v) (shape_entry_write_externs e u)" "keeps (reported v) (shape_entry_compute_tld_size e sz)"
  "keeps (reported v) (shape_entry_write_tld e u)" "keeps (reported v) (shape_entry_write_count t e u)"
  "keeps (reported v) (shape_entry_write_links t e u)" "keeps (reported v) (shape_entry_check_multi_defs e u)"
  "keeps (reported v) (shape_entry_do_lib_count e c)" "keeps (reported v) (shape_entry_do_lib_write g e u)"
  "keeps (reported v) (shape_entry_hide_all_defd e u)" "keeps (reported v) (shape_entry_suppress_mult e u)"
  "keeps (reported v) (shape_entry_lib_suppress_mult e u)" "keeps (reported v) (shape_entry_show_content f e out)"
  unfolding shape_entry_do_count_def shape_entry_write_shape_def shape_entry_write_externs_def
    shape_entry_compute_tld_size_def shape_entry_write_tld_def shape_entry_write_count_def shape_entry_write_links_def
    shape_entry_check_multi_defs_def shape_entry_do_lib_count_def shape_entry_do_lib_write_def
    shape_entry_hide_all_defd_def shape_entry_suppress_mult_def shape_entry_lib_suppress_mult_def
    shape_entry_show_content_def Let_def
  by (intro keeps_intros report_intros)+

lemma reported_unit_write [report_intros]: "keeps (reported v) (unit_write u t n)"
  unfolding unit_write_def by (intro keeps_intros report_intros)

lemma reported_units [report_intros]:
  "keeps (reported v) (unit_entry_write_unit_set b ue)" "keeps (reported v) (unit_entry_write_tld_unit t)"
  "keeps (reported v) (unit_entry_write_units ue t n)"
proof -
  have "keeps (reported v) (unit_entry_write_each us t n)" for us t
    by (induction us arbitrary: t) (auto intro!: keeps_intros report_intros)
  then show "keeps (reported v) (unit_entry_write_units ue t n)"
    unfolding unit_entry_write_units_def Let_def by (intro keeps_intros report_intros)
qed (unfold unit_entry_write_unit_set_def unit_entry_write_tld_unit_def Let_def, intro keeps_intros report_intros,
  intro keeps_intros report_intros)

section \<open>Capsules\<close>

lemma reported_iter_shapes [report_intros]:
  assumes "\<And>e c. keeps (reported v) (proc e c)" shows "keeps (reported v) (iter_shapes proc c)"
  unfolding iter_shapes_def by (intro keeps_intros assms reported_modify) simp

lemma reported_capsule_write [report_intros]: "keeps (reported v) capsule_write"
  unfolding capsule_write_def capsule_write_header_def put_shapes_def
  by (intro keeps_intros report_intros rest_intros reported_modify) simp_all

lemma reported_capsule_streams [report_intros]:
  "keeps (reported v) (capsule_create_stream_input name)" "keeps (reported v) (capsule_create_stream_output name)"
  "keeps (reported v) (capsule_store_contents capsule)" "keeps (reported v) (capsule_set_index capsule i)"
proof -
  have a: "keeps (reported v) (capsule_add t n)" for t n by (rule reported_step) (simp add: capsule_add_def)
  show "keeps (reported v) (capsule_create_stream_input name)" "keeps (reported v) (capsule_create_stream_output name)"
    unfolding capsule_create_stream_input_def capsule_create_stream_output_def
    by (intro keeps_intros report_intros rest_intros a)+
  show "keeps (reported v) (capsule_store_contents capsule)" "keeps (reported v) (capsule_set_index capsule i)"
    unfolding capsule_store_contents_def capsule_set_index_def
    by (intro keeps_intros report_intros rest_intros reported_modify; simp)+
qed

section \<open>Libraries\<close>

lemma reported_on_lib [report_intros]:
  assumes "\<And>e. keeps (reported v) (p e)" shows "keeps (reported v) (on_lib_shape r p)"
  unfolding on_lib_shape_def by (intro keeps_intros assms reported_modify) simp

lemma reported_on_lib_name [report_intros]:
  assumes "\<And>e. keeps (reported v) (p e)" shows "keeps (reported v) (on_lib_name r n p)"
  unfolding on_lib_name_def by (intro keeps_intros assms report_intros)

lemma reported_lib_basics [report_intros]:
  "keeps (reported v) (library_update library f)" "keeps (reported v) (lib_capsule_at r)"
  "keeps (reported v) (lib_capsule_put r c)" "keeps (reported v) (library_shape_add name)"
  "keeps (reported v) library_token_entry" "keeps (reported v) library_tag_entry"
  "keeps (reported v) (library_output bs)" "keeps (reported v) library_fresh_shapes"
  "keeps (reported v) (library_add t name)"
  by (auto simp: library_update_def lib_capsule_at_def lib_capsule_put_def library_shape_add_def library_token_entry_def
      library_tag_entry_def library_output_def library_fresh_shapes_def library_add_def keeps_def reported_def
      bind_def gets_def check_def defined_def modify_def split: prod.splits option.splits)

lemma reported_library_merge_usage [report_intros]: "keeps (reported v) (library_merge_usage c nd nm use e)"
  unfolding library_merge_usage_def by (intro keeps_intros report_intros)

lemma reported_library_capsules [report_intros]: "keeps (reported v) (library_read_version_0_capsules library)"
proof -
  have "keeps (reported v) (library_read_capsules_loop library rs)" for rs
    by (induction rs) (auto intro!: keeps_intros report_intros rest_intros)
  then show ?thesis
    unfolding library_read_version_0_capsules_def by (intro keeps_intros report_intros rest_intros reported_modify) simp
qed

lemma reported_library_read [report_intros]: "keeps (reported v) (library_read library)"
proof -
  have i: "keeps (reported v) (library_read_index_entry first num e nd nm)" for first num e nd nm
    unfolding library_read_index_entry_def library_check_index_entry_def
    by (intro keeps_intros report_intros rest_intros)
  show ?thesis
    unfolding library_read_def library_read_body_def library_read_version_0_def library_read_shape_index_def
    by (intro keeps_intros report_intros rest_intros i)
      (unfold library_read_header_def, intro keeps_intros report_intros rest_intros reported_modify, simp)
qed

lemma reported_library_calls [report_intros]:
  "keeps (reported v) (library_create_stream_input name)" "keeps (reported v) (library_create_stream_output name)"
  "keeps (reported v) (library_num_capsules library)" "keeps (reported v) (library_get_capsule library i)"
  "keeps (reported v) (library_close library)" "keeps (reported v) (lib_capsule_full_name r)"
  "keeps (reported v) (lib_capsule_loaded r)"
  unfolding library_create_stream_input_def library_create_stream_output_def library_num_capsules_def
    library_get_capsule_def library_close_def lib_capsule_full_name_def lib_capsule_loaded_def
  by ((intro keeps_intros report_intros rest_intros; simp split: LibraryTypeT.splits add: report_intros rest_intros)+)

lemma reported_library_extract_1 [report_intros]: "keeps (reported v) (library_extract_1 r b)"
  unfolding library_extract_1_def Let_def by (intro keeps_intros report_intros)

lemma reported_library_modes [report_intros]:
  "keeps (reported v) (library_content library a b c)" "keeps (reported v) (library_extract_all library a)"
  "keeps (reported v) (library_extract library a b files)" "keeps (reported v) (library_write n cs)"
proof -
  have "keeps (reported v) (library_extract_matching a b f rs m)" for a b f rs m
    by (induction rs arbitrary: m) (auto intro!: keeps_intros report_intros)
  then show "keeps (reported v) (library_extract library a b files)"
    unfolding library_extract_def by (intro keeps_intros report_intros)
  show "keeps (reported v) (library_write n cs)"
    unfolding library_write_def library_write_header_def library_write_capsule_def by (intro keeps_intros report_intros)
qed (unfold library_content_def library_extract_all_def, intro keeps_intros report_intros, intro keeps_intros report_intros)

section \<open>Front ends\<close>

lemma reported_resolve_name [report_intros]: "keeps (reported v) (name_entry_resolve_undefined r n table md)"
  unfolding name_entry_resolve_undefined_def name_entry_load_def name_entry_find_library_def
  by (intro keeps_intros report_intros rest_intros)

lemma reported_resolve_shape [report_intros]: "keeps (reported v) (shape_entry_resolve_undefined r md did)"
proof -
  have "keeps (reported v) (shape_entry_resolve_loop r table md did)" for table
    unfolding keeps_valid
  proof (rule valid_resolve_loop [where Q = "\<lambda>_ _. True"])
    show "valid (reported v) (on_shape r (\<lambda>e. ret (shape_entry_get_from_list e)))
      (\<lambda>x s. reported v s \<and> (\<forall>n. x = Some n \<longrightarrow> True)) (\<lambda>_. reported v)"
      by (simp flip: keeps_valid) (intro keeps_intros rest_intros)
    show "valid (\<lambda>s. reported v s \<and> True) (name_entry_resolve_undefined r n table md) (\<lambda>_. reported v) (\<lambda>_. reported v)" for n
      by (simp flip: keeps_valid add: report_intros)
  qed
  then show ?thesis unfolding shape_entry_resolve_undefined_def by (intro keeps_intros rest_intros)
qed

lemma reported_resolve [report_intros]:
  "keeps (reported v) (linker_resolve_loop md)" "keeps (reported v) (linker_resolve_undefined arg_data)"
proof -
  show "keeps (reported v) (linker_resolve_loop md)" for md
    unfolding keeps_valid
    by (rule valid_linker_resolve_loop, rule valid_pre, rule valid_keeps, rule reported_resolve_shape) simp
  then show "keeps (reported v) (linker_resolve_undefined arg_data)"
    unfolding linker_resolve_undefined_def by (intro keeps_intros report_intros)
qed

lemma reported_renames [report_intros]: "keeps (reported v) (name_table_resolve_renames report t)"
proof -
  have "keeps (reported v) (name_entry_resolve_renames report t r)" for t r
  proof -
    have "max_reported (snd (name_entry_resolve_renames report t r s)) = max_reported s" for s
    proof (induction report t r s rule: name_entry_resolve_renames.induct)
      case (1 report t r s)
      have e: "max_reported (snd (bind (if report then error_msg ERR_SERIOUS else ret ()) (\<lambda>_. ret (None, t)) s)) = max_reported s"
        by (auto simp: bind_def ret_def error_msg_serious split: prod.splits outcome.splits)
      from 1 e show ?case
        by (subst name_entry_resolve_renames.simps) (auto split: NameEntryTypeT.splits prod.splits outcome.splits)
    qed
    then show ?thesis by (rule reported_step)
  qed
  then have "keeps (reported v) (name_table_resolve_chain report rs t)" for rs
    by (induction rs arbitrary: t) (auto intro!: keeps_intros)
  then show ?thesis by (simp add: name_table_resolve_renames_def)
qed

lemma reported_control [keeps_intros]:
  "(\<And>sh all ns. keeps I (p sh all ns)) \<Longrightarrow> keeps I (shape_control_iter control p)"
  "(\<And>sh ns. keeps I (q sh ns)) \<Longrightarrow> keeps I (rename_control_iter renames q)"
  unfolding shape_control_iter_def rename_control_iter_def by (intro keeps_intros, assumption)+

lemma reported_with_name [report_intros]:
  assumes "keeps I a" "\<And>e. keeps I (p e)" shows "keeps I (with_name k a p e)"
  unfolding with_name_def by (intro keeps_intros assms)

lemma reported_iter_names [report_intros]:
  assumes "\<And>n u. keeps I (p n u)" shows "keeps I (iter_names p e)"
  unfolding iter_names_def by (intro keeps_intros assms)

lemma reported_shape_add [report_intros]: "keeps (reported v) (capsule_shape_add name)"
  by (rule reports.rest_shape_add)

lemma reported_linker_parts [report_intros]:
  "keeps (reported v) (linker_rename_1 sh names)" "keeps (reported v) (linker_find_library paths f)"
  "keeps (reported v) (linker_suppress_1 sh all ks)" "keeps (reported v) (linker_hide sh all ks)"
  "keeps (reported v) (linker_keep sh all ks)" "keeps (reported v) (builder_suppress_1 sh all ks)"
proof -
  show "keeps (reported v) (linker_find_library paths f)"
    by (induction paths) (auto intro!: keeps_intros report_intros)
qed (unfold linker_rename_1_def add_rename_to_def resolve_renames_of_def linker_suppress_1_def linker_hide_def
    linker_keep_def builder_suppress_1_def, (intro keeps_intros report_intros rest_intros)+)

lemma reported_linker_phases [report_intros]:
  "keeps (reported v) (linker_rename a)" "keeps (reported v) (linker_read_capsules a)"
  "keeps (reported v) (linker_load_libraries a)" "keeps (reported v) (linker_suppress a)"
  "keeps (reported v) (linker_hide_and_keep a)" "keeps (reported v) (linker_write_capsule a)"
proof -
  show "keeps (reported v) (linker_rename a)"
    unfolding linker_rename_def by (intro keeps_intros report_intros)
  show "keeps (reported v) (linker_read_capsules a)"
    unfolding linker_read_capsules_def by (intro keeps_intros report_intros rest_intros)
  show "keeps (reported v) (linker_load_libraries a)"
    unfolding linker_load_libraries_def by (intro keeps_intros report_intros)
  show "keeps (reported v) (linker_suppress a)"
    unfolding linker_suppress_def by (intro keeps_intros report_intros reported_modify) simp
  show "keeps (reported v) (linker_hide_and_keep a)"
    unfolding linker_hide_and_keep_def by (intro keeps_intros report_intros)
  show "keeps (reported v) (linker_write_capsule a)"
    unfolding linker_write_capsule_def by (intro keeps_intros report_intros rest_intros)
qed

lemma reported_builder_parts [report_intros]:
  "keeps (reported v) (builder_read_libraries a)" "keeps (reported v) (builder_read_all_libraries libs cs)"
  "keeps (reported v) (builder_read_input_files fs cs)"
proof -
  have l: "keeps (reported v) (builder_read_libraries_loop fs n)" for fs n
    by (induction fs arbitrary: n) (auto intro!: keeps_intros report_intros)
  then show "keeps (reported v) (builder_read_libraries a)" by (simp add: builder_read_libraries_def)
  have c: "keeps (reported v) (builder_read_capsule capsule cs)" for capsule cs
    unfolding builder_read_capsule_def by (intro keeps_intros report_intros rest_intros)
  have j: "keeps (reported v) (builder_read_lib_capsules library js cs)" for library js cs
    by (induction js arbitrary: cs) (auto intro!: keeps_intros report_intros rest_intros c)
  show "keeps (reported v) (builder_read_all_libraries libs cs)"
    by (induction libs cs rule: builder_read_all_libraries.induct) (auto intro!: keeps_intros report_intros j)
  show "keeps (reported v) (builder_read_input_files fs cs)"
    by (induction fs arbitrary: cs) (auto intro!: keeps_intros report_intros c)
qed

lemma reported_builder_phases [report_intros]:
  "keeps (reported v) (builder_read_capsules a)" "keeps (reported v) builder_check_multi_defs"
  "keeps (reported v) (builder_suppress a)" "keeps (reported v) (builder_write_library a n cs)"
  unfolding builder_read_capsules_def builder_check_multi_defs_def builder_suppress_def builder_write_library_def Let_def
  by (intro keeps_intros report_intros)+

lemma reported_modes:
  "keeps (reported v) (linker_main a)" "keeps (reported v) (builder_main a)"
  "keeps (reported v) (extract_main a)" "keeps (reported v) (contents_main a)"
  unfolding linker_main_def builder_main_def extract_main_def contents_main_def
  by ((intro keeps_intros report_intros reported_modify; simp)+)

section \<open>The modes without their guards\<close>

text \<open>Each phase as the code has it, without the guard that ends it, and the modes made of these.\<close>

definition unguarded_rename :: "ArgDataT \<Rightarrow> ('z library_state_scheme, unit) prog" where
  "unguarded_rename arg_data = rename_control_iter (ad_renames arg_data) linker_rename_1"

definition unguarded_read_capsules :: "ArgDataT \<Rightarrow> ('z library_state_scheme, unit) prog" where
  "unguarded_read_capsules arg_data = for_each (ad_files arg_data) (\<lambda>file.
     bind (capsule_create_stream_input file) (\<lambda>capsule.
     case capsule of
       Some capsule \<Rightarrow> bind (capsule_read capsule) (\<lambda>_. capsule_close capsule)
     | None \<Rightarrow> error_msg ERR_SERIOUS))"

definition unguarded_load_libraries :: "ArgDataT \<Rightarrow> ('z library_state_scheme, unit) prog" where
  "unguarded_load_libraries arg_data = for_each (ad_library_files arg_data) (\<lambda>file.
     bind (if file_name_is_basename file then linker_find_library (ad_library_paths arg_data) file
           else bind (library_create_stream_input file) (\<lambda>library.
             case library of
               Some library \<Rightarrow> ret (Some library)
             | None \<Rightarrow> bind (error_msg ERR_SERIOUS) (\<lambda>_. ret None))) (\<lambda>library.
     case library of
       Some library \<Rightarrow> bind (library_read library) (\<lambda>_. library_close library)
     | None \<Rightarrow> ret ()))"

definition unguarded_suppress :: "ArgDataT \<Rightarrow> ('z library_state_scheme, unit) prog" where
  "unguarded_suppress arg_data =
     bind (if ad_suppress_mult arg_data then
             bind (gets ls_shapes) (\<lambda>shapes.
             bind (shape_table_iter shapes shape_entry_lib_suppress_mult ()) (\<lambda>(shapes, _).
             modify (\<lambda>s. s\<lparr>ls_shapes := shapes\<rparr>)))
           else ret ()) (\<lambda>_.
     shape_control_iter (ad_suppresses arg_data) linker_suppress_1)"

definition unguarded_hide_and_keep :: "ArgDataT \<Rightarrow> ('z library_state_scheme, unit) prog" where
  "unguarded_hide_and_keep arg_data =
     bind (if ad_all_hide_defined arg_data then iter_shapes shape_entry_hide_all_defd () else ret ()) (\<lambda>_.
     bind (shape_control_iter (ad_hides arg_data) linker_hide) (\<lambda>_.
     shape_control_iter (ad_keeps arg_data) linker_keep))"

definition unguarded_write_capsule :: "ArgDataT \<Rightarrow> ('z library_state_scheme, unit) prog" where
  "unguarded_write_capsule arg_data =
     bind (defined (arg_data_get_output_file arg_data)) (\<lambda>output_name.
     bind (capsule_create_stream_output output_name) (\<lambda>capsule.
     case capsule of
       Some capsule \<Rightarrow> bind capsule_write (\<lambda>_. capsule_close capsule)
     | None \<Rightarrow> error_msg ERR_FATAL))"

definition unguarded_linker_main :: "ArgDataT \<Rightarrow> ('z library_state_scheme, unit) prog" where
  "unguarded_linker_main arg_data =
     bind (modify (\<lambda>s. s\<lparr>cs_units := unit_table_create, cs_shapes := shape_table_create\<rparr>)) (\<lambda>_.
     bind library_fresh_shapes (\<lambda>_.
     bind (unguarded_rename arg_data) (\<lambda>_.
     bind (unguarded_read_capsules arg_data) (\<lambda>_.
     bind (unguarded_load_libraries arg_data) (\<lambda>_.
     bind (unguarded_suppress arg_data) (\<lambda>_.
     bind (linker_resolve_loop (ad_missing_definitions arg_data)) (\<lambda>_.
     bind (unguarded_hide_and_keep arg_data) (\<lambda>_.
     unguarded_write_capsule arg_data))))))))"

definition unguarded_builder_read_capsules :: "ArgDataT \<Rightarrow> ('z library_state_scheme, cuint \<times> nat option list) prog" where
  "unguarded_builder_read_capsules arg_data =
     bind (builder_read_libraries arg_data) (\<lambda>(libraries, num_lib_capsules).
     let num_capsules = num_lib_capsules + of_nat (length (ad_files arg_data)) in
     bind (builder_read_all_libraries libraries []) (\<lambda>capsules.
     bind (builder_read_input_files (ad_files arg_data) capsules) (\<lambda>capsules.
     ret (num_capsules, map Some capsules @ replicate (unat num_capsules - length capsules) None))))"

definition unguarded_builder_suppress :: "ArgDataT \<Rightarrow> ('z library_state_scheme, unit) prog" where
  "unguarded_builder_suppress arg_data =
     bind (if ad_suppress_mult arg_data then iter_shapes shape_entry_suppress_mult () else ret ()) (\<lambda>_.
     shape_control_iter (ad_suppresses arg_data) builder_suppress_1)"

definition unguarded_write_library :: "ArgDataT \<Rightarrow> cuint \<Rightarrow> nat option list \<Rightarrow> ('z library_state_scheme, unit) prog" where
  "unguarded_write_library arg_data num_capsules capsules =
     bind (defined (arg_data_get_output_file arg_data)) (\<lambda>output_name.
     bind (library_create_stream_output output_name) (\<lambda>library.
     case library of
       Some library \<Rightarrow> bind (library_write num_capsules capsules) (\<lambda>_. library_close library)
     | None \<Rightarrow> error_msg ERR_FATAL))"

definition unguarded_builder_main :: "ArgDataT \<Rightarrow> ('z library_state_scheme, unit) prog" where
  "unguarded_builder_main arg_data =
     bind (modify (\<lambda>s. s\<lparr>cs_units := unit_table_create, cs_shapes := shape_table_create\<rparr>)) (\<lambda>_.
     bind (unguarded_builder_read_capsules arg_data) (\<lambda>(num_capsules, capsules).
     bind (iter_shapes shape_entry_check_multi_defs ()) (\<lambda>_.
     bind (unguarded_builder_suppress arg_data) (\<lambda>_.
     unguarded_write_library arg_data num_capsules capsules))))"

definition unguarded_extract_main :: "ArgDataT \<Rightarrow> ('z library_state_scheme, unit) prog" where
  "unguarded_extract_main arg_data =
     bind (if ad_extract_all arg_data \<and> length (ad_files arg_data) > 1 then error_msg ERR_FATAL
           else if \<not> ad_extract_all arg_data \<and> length (ad_files arg_data) = 1 then error_msg ERR_FATAL
           else ret ()) (\<lambda>_.
     bind (index (ad_files arg_data) 0) (\<lambda>file.
     bind (library_create_stream_input file) (\<lambda>library.
     case library of
       Some library \<Rightarrow>
         bind (if ad_extract_all arg_data then library_extract_all library (ad_extract_basename arg_data)
               else library_extract library (ad_extract_basename arg_data) (ad_extract_match_base arg_data)
                      (tl (ad_files arg_data))) (\<lambda>_.
         library_close library)
     | None \<Rightarrow> error_msg ERR_SERIOUS)))"

definition unguarded_contents_main :: "ArgDataT \<Rightarrow> ('z library_state_scheme, unit) prog" where
  "unguarded_contents_main arg_data =
     bind (if length (ad_files arg_data) \<noteq> 1 then error_msg ERR_FATAL else ret ()) (\<lambda>_.
     bind (index (ad_files arg_data) 0) (\<lambda>file.
     bind (library_create_stream_input file) (\<lambda>library.
     case library of
       Some library \<Rightarrow>
         bind (library_content library (ad_content_index arg_data) (ad_content_size arg_data)
                (ad_content_version arg_data)) (\<lambda>_.
         library_close library)
     | None \<Rightarrow> error_msg ERR_SERIOUS)))"

text \<open>Programs that do the same from every state in which an invariant holds.\<close>

definition same_from :: "('s \<Rightarrow> bool) \<Rightarrow> ('s, 'a) prog \<Rightarrow> ('s, 'a) prog \<Rightarrow> bool" where
  "same_from I m k \<longleftrightarrow> (\<forall>s. I s \<longrightarrow> m s = k s)"

lemma same_fromD: "same_from I m k \<Longrightarrow> I s \<Longrightarrow> m s = k s"
  by (simp add: same_from_def)

lemma same_refl: "same_from I m m"
  by (simp add: same_from_def)

lemma same_bind:
  assumes "same_from I m m'" "keeps I m" "\<And>x. same_from I (f x) (f' x)"
  shows "same_from I (bind m f) (bind m' f')"
  using assms by (auto simp: same_from_def bind_def keeps_def split: prod.splits outcome.splits)

lemma guard_passes: "v < ERROR_SEVERITY_ERROR \<Longrightarrow> reported v s \<Longrightarrow> exit_on_error s = (Ret (), s)"
  by (simp add: exit_on_error_def error_max_reported_severity_def bind_def gets_def ret_def reported_def linorder_not_le [symmetric])

lemma same_guard: "v < ERROR_SEVERITY_ERROR \<Longrightarrow> same_from (reported v) exit_on_error (ret ())"
  by (simp add: same_from_def guard_passes ret_def)

lemma same_end:
  assumes "v < ERROR_SEVERITY_ERROR" "keeps (reported v) m"
  shows "same_from (reported v) (bind m (\<lambda>_. exit_on_error)) m"
proof -
  have "same_from (reported v) (bind m (\<lambda>_. exit_on_error)) (bind m (\<lambda>_. ret ()))"
    by (intro same_bind same_refl same_guard assms)
  moreover have "bind m (\<lambda>_. ret ()) = m"
    by (rule ext) (simp add: bind_def ret_def split: prod.splits outcome.splits)
  ultimately show ?thesis by (simp only:)
qed

lemma same_pair: "(\<And>x y. same_from I (f x y) (g x y)) \<Longrightarrow> same_from I (case p of (x, y) \<Rightarrow> f x y) (case p of (x, y) \<Rightarrow> g x y)"
  by (cases p) simp

lemma same_phases:
  assumes "v < ERROR_SEVERITY_ERROR"
  shows "same_from (reported v) (linker_rename a) (unguarded_rename a)"
    and "same_from (reported v) (linker_read_capsules a) (unguarded_read_capsules a)"
    and "same_from (reported v) (linker_load_libraries a) (unguarded_load_libraries a)"
    and "same_from (reported v) (linker_suppress a) (unguarded_suppress a)"
    and "same_from (reported v) (linker_resolve_undefined a) (linker_resolve_loop (ad_missing_definitions a))"
    and "same_from (reported v) (linker_hide_and_keep a) (unguarded_hide_and_keep a)"
    and "same_from (reported v) (linker_write_capsule a) (unguarded_write_capsule a)"
    and "same_from (reported v) builder_check_multi_defs (iter_shapes shape_entry_check_multi_defs ())"
    and "same_from (reported v) (builder_suppress a) (unguarded_builder_suppress a)"
    and "same_from (reported v) (builder_write_library a n cs) (unguarded_write_library a n cs)"
proof -
  show "same_from (reported v) (linker_rename a) (unguarded_rename a)"
    unfolding linker_rename_def unguarded_rename_def by (intro same_end assms keeps_intros report_intros rest_intros)
  show "same_from (reported v) (linker_read_capsules a) (unguarded_read_capsules a)"
    unfolding linker_read_capsules_def unguarded_read_capsules_def by (intro same_end assms keeps_intros report_intros rest_intros)
  show "same_from (reported v) (linker_load_libraries a) (unguarded_load_libraries a)"
    unfolding linker_load_libraries_def unguarded_load_libraries_def by (intro same_end assms keeps_intros report_intros rest_intros)
  show "same_from (reported v) (linker_resolve_undefined a) (linker_resolve_loop (ad_missing_definitions a))"
    unfolding linker_resolve_undefined_def by (intro same_end assms keeps_intros report_intros rest_intros)
  show "same_from (reported v) builder_check_multi_defs (iter_shapes shape_entry_check_multi_defs ())"
    unfolding builder_check_multi_defs_def by (intro same_end assms keeps_intros report_intros rest_intros)
  show "same_from (reported v) (linker_write_capsule a) (unguarded_write_capsule a)"
    unfolding linker_write_capsule_def unguarded_write_capsule_def by (intro same_bind [OF same_refl] same_end assms keeps_intros report_intros rest_intros)
  show "same_from (reported v) (builder_write_library a n cs) (unguarded_write_library a n cs)"
    unfolding builder_write_library_def unguarded_write_library_def by (intro same_bind [OF same_refl] same_end assms keeps_intros report_intros rest_intros)
  show "same_from (reported v) (linker_suppress a) (unguarded_suppress a)"
    unfolding linker_suppress_def unguarded_suppress_def by (rule same_bind [OF same_refl], (intro keeps_intros report_intros reported_modify, simp)[1], intro same_end assms keeps_intros report_intros)
  show "same_from (reported v) (builder_suppress a) (unguarded_builder_suppress a)"
    unfolding builder_suppress_def unguarded_builder_suppress_def by (rule same_bind [OF same_refl], (intro keeps_intros report_intros)[1], intro same_end assms keeps_intros report_intros)
  show "same_from (reported v) (linker_hide_and_keep a) (unguarded_hide_and_keep a)"
    unfolding linker_hide_and_keep_def unguarded_hide_and_keep_def by (rule same_bind [OF same_refl], (intro keeps_intros report_intros)[1], rule same_bind [OF same_refl],
        (intro keeps_intros report_intros)[1], intro same_end assms keeps_intros report_intros)
qed

lemma same_builder_read:
  assumes "v < ERROR_SEVERITY_ERROR"
  shows "same_from (reported v) (builder_read_capsules a) (unguarded_builder_read_capsules a)"
proof -
  have g: "same_from (reported v) (bind exit_on_error (\<lambda>_. ret x)) (ret x)" for x :: "cuint \<times> nat option list"
    by (simp add: same_from_def bind_def guard_passes [OF assms])
  show ?thesis
    unfolding builder_read_capsules_def unguarded_builder_read_capsules_def Let_def
    by (intro same_bind [OF same_refl] same_pair g keeps_intros report_intros)
qed

lemma same_modes:
  assumes "v < ERROR_SEVERITY_ERROR"
  shows "same_from (reported v) (linker_main a) (unguarded_linker_main a)"
    and "same_from (reported v) (builder_main a) (unguarded_builder_main a)"
    and "same_from (reported v) (extract_main a) (unguarded_extract_main a)"
    and "same_from (reported v) (contents_main a) (unguarded_contents_main a)"
proof -
  have m: "keeps (reported v) (modify (\<lambda>s. s\<lparr>cs_units := unit_table_create, cs_shapes := shape_table_create\<rparr>))"
    by (rule reported_modify) simp
  show "same_from (reported v) (linker_main a) (unguarded_linker_main a)"
    unfolding linker_main_def unguarded_linker_main_def
    by (intro same_bind same_phases [OF assms] report_intros m same_refl)
  show "same_from (reported v) (builder_main a) (unguarded_builder_main a)"
    unfolding builder_main_def unguarded_builder_main_def
    by (intro same_bind same_pair same_phases [OF assms] same_builder_read [OF assms] report_intros m same_refl)
  show "same_from (reported v) (extract_main a) (unguarded_extract_main a)"
    unfolding extract_main_def unguarded_extract_main_def
    by (intro same_bind [OF same_refl] same_end assms keeps_intros report_intros)
  show "same_from (reported v) (contents_main a) (unguarded_contents_main a)"
    unfolding contents_main_def unguarded_contents_main_def
    by (intro same_bind [OF same_refl] same_end assms keeps_intros report_intros)
qed

text \<open>
  C17: The guards at the end of the phases never fire. From any state in which no error of
  \<^verbatim>\<open>libexds/src/error.c\<close> has been reported, the severity that they test is still below
  \<^verbatim>\<open>ERROR_SEVERITY_ERROR\<close> at each guard, whatever the arguments, the input and the errors counted on the
  way: all four modes do exactly what they would do without their guards.
\<close>

theorem guards_never_fire:
  assumes "max_reported s < ERROR_SEVERITY_ERROR"
  shows "linker_main a s = unguarded_linker_main a s \<and> builder_main a s = unguarded_builder_main a s \<and>
    extract_main a s = unguarded_extract_main a s \<and> contents_main a s = unguarded_contents_main a s"
  by (intro conjI same_fromD [OF same_modes(1) [OF assms]] same_fromD [OF same_modes(2) [OF assms]]
      same_fromD [OF same_modes(3) [OF assms]] same_fromD [OF same_modes(4) [OF assms]]) (simp_all add: reported_def)

text \<open>A state in which no file can be read.\<close>

definition nothing_readable :: library_state where
  "nothing_readable = capsule_state.extend ((capsule_start [])
       \<lparr>files_out := (\<lambda>_. Some \<lparr>of_data = [], of_limit = None\<rparr>), cs_capsules := []\<rparr>)
     (library_state.fields shape_table_create [] [] [])"

text \<open>The contents of a library that is not there: an error is counted, and the guard lets the mode end normally.\<close>

theorem guards_never_fire_witness:
  "contents_main ((arg_data_init None)\<lparr>ad_files := [str ''x.tl'']\<rparr>) nothing_readable =
     unguarded_contents_main ((arg_data_init None)\<lparr>ad_files := [str ''x.tl'']\<rparr>) nothing_readable \<and>
   (case contents_main ((arg_data_init None)\<lparr>ad_files := [str ''x.tl'']\<rparr>) nothing_readable of
      (r, s) \<Rightarrow> r = Ret () \<and> number_errors s = 1 \<and> exit_status s)"
proof -
  let ?a = "(arg_data_init None)\<lparr>ad_files := [str ''x.tl'']\<rparr>"
  have r: "max_reported nothing_readable < ERROR_SEVERITY_ERROR"
    by (simp add: nothing_readable_def capsule_start_def capsule_state.extend_def library_state.fields_def less_ESeverityT_def)
  have "case unguarded_contents_main ?a nothing_readable of
      (r, s) \<Rightarrow> r = Ret () \<and> number_errors s = 1 \<and> exit_status s"
    by (simp add: unguarded_contents_main_def arg_data_init_def nothing_readable_def capsule_start_def capsule_state.extend_def
        library_state.fields_def library_create_stream_input_def tdf_reader_open_def bistream_open_def bind_def ret_def
        index_def check_def error_msg_serious maximum_errors_def)
  with guards_never_fire [OF r, of ?a] show ?thesis by simp
qed

section \<open>Linking without readable input\<close>

lemma iter_fresh [simp]: "shape_table_iter shape_table_create proc c s = (Ret (shape_table_create, c), s)"
proof -
  have "table_order (st_table shape_table_create) = []"
    by (simp add: shape_table_create_def table_order_def table_create_def)
  then show ?thesis by (simp add: shape_table_iter_def ret_def)
qed

lemma resolve_pass_fresh:
  "cs_shapes s = shape_table_create \<Longrightarrow> linker_resolve_pass md i j did s = (Ret did, s)"
proof (induction md i j did s rule: linker_resolve_pass.induct)
  case (1 md i j did s)
  then show ?case
    by (subst linker_resolve_pass.simps) (auto simp: shape_table_create_def table_create_def)
qed

lemma resolve_fresh [simp]: "cs_shapes s = shape_table_create \<Longrightarrow> linker_resolve_loop md s = (Ret (), s)"
  by (simp add: linker_resolve_loop.simps [of md s] resolve_pass_fresh)

lemma read_unopenable:
  "list_all (\<lambda>f. files_in s f = None) fs \<Longrightarrow> number_errors s + length fs < maximum_errors \<Longrightarrow>
   for_each fs (\<lambda>file.
       bind (capsule_create_stream_input file) (\<lambda>capsule.
       case capsule of
         Some capsule \<Rightarrow> bind (capsule_read capsule) (\<lambda>_. capsule_close capsule)
       | None \<Rightarrow> error_msg ERR_SERIOUS)) s =
     (Ret (), s\<lparr>exit_status := exit_status s \<or> fs \<noteq> [], number_errors := number_errors s + length fs\<rparr>)"
proof (induction fs arbitrary: s)
  case Nil
  show ?case by (simp add: ret_def)
next
  case (Cons f fs)
  then have "capsule_create_stream_input f s = (Ret None, s)" "number_errors s + 1 < maximum_errors"
    by (simp_all add: capsule_create_stream_input_def tdf_reader_open_def bistream_open_def bind_def ret_def)
  with Cons show ?case
    by (simp add: bind_def error_msg_serious Cons.IH [of "s\<lparr>exit_status := True, number_errors := Suc (number_errors s)\<rparr>"])
qed

text \<open>
  C18: Input that cannot be opened does not stop the linker. With fewer input files than the error limit,
  none of which can be opened, each is reported as a serious error and linking goes on to the
  writing of the output, where it dereferences the null pointer \<^verbatim>\<open>capsule_unit_sets\<close> that only
  \<^verbatim>\<open>capsule_read\<close> sets up.
\<close>

theorem unopenable_inputs_crash:
  assumes "list_all (\<lambda>f. files_in s f = None) files" "number_errors s + length files < maximum_errors"
    and "max_reported s < ERROR_SEVERITY_ERROR" "cs_unit_sets s = None"
    and "files_out s output = Some f"
  shows "\<exists>t. linker_main ((arg_data_init (Some output))\<lparr>ad_files := files\<rparr>) s = (Raise Undefined, t) \<and>
     number_errors t = number_errors s + length files"
proof -
  let ?a = "(arg_data_init (Some output))\<lparr>ad_files := files\<rparr>"
  define u where "u = s\<lparr>cs_units := unit_table_create, cs_shapes := shape_table_create, ls_shapes := shape_table_create\<rparr>"
  define v where "v = u\<lparr>exit_status := exit_status u \<or> files \<noteq> [], number_errors := number_errors u + length files\<rparr>"
  have g: "exit_on_error w = (Ret (), w)" if "max_reported w = max_reported s" for w :: "'a library_state_scheme"
    using assms(3) that by (simp add: exit_on_error_def error_max_reported_severity_def bind_def gets_def ret_def linorder_not_le [symmetric])
  have u: "max_reported u = max_reported s" "cs_shapes u = shape_table_create" "files_in u = files_in s"
    "number_errors u = number_errors s" by (simp_all add: u_def)
  have "linker_rename ?a u = (Ret (), u)"
    using g[OF u(1)] by (simp add: linker_rename_def rename_control_iter_def arg_data_init_def bind_def ret_def)
  moreover have "linker_read_capsules ?a u = (Ret (), v)"
    using read_unopenable[of u files] assms(1,2) u g[of v]
    by (simp add: linker_read_capsules_def arg_data_init_def bind_def v_def)
  moreover have v: "max_reported v = max_reported s" "cs_shapes v = shape_table_create" "cs_unit_sets v = None"
    "files_out v output = Some f" "number_errors v = number_errors s + length files"
    using assms(4,5) by (simp_all add: v_def u_def)
  moreover have "linker_load_libraries ?a v = (Ret (), v)" "linker_suppress ?a v = (Ret (), v)"
    "linker_resolve_undefined ?a v = (Ret (), v)" "linker_hide_and_keep ?a v = (Ret (), v)"
    using g[OF v(1)] v(2) by (simp_all add: linker_load_libraries_def linker_suppress_def shape_control_iter_def
        linker_resolve_undefined_def linker_hide_and_keep_def arg_data_init_def bind_def ret_def)
  moreover have "\<exists>t. linker_write_capsule ?a v = (Raise Undefined, t) \<and> number_errors t = number_errors v"
    using v by (simp add: linker_write_capsule_def arg_data_get_output_file_def arg_data_init_def capsule_create_stream_output_def
        tdf_writer_open_def bostream_open_def capsule_add_def capsule_write_def capsule_tld_entry_def bind_def gets_def ret_def
        defined_def)
  ultimately show ?thesis
    by (simp add: linker_main_def library_fresh_shapes_def bind_def modify_def flip: u_def)
qed

theorem unopenable_inputs_crash_witness:
  "\<exists>t. linker_main ((arg_data_init (Some (str ''a.j'')))\<lparr>ad_files := [str ''x.j'', str ''y.j'']\<rparr>) nothing_readable = (Raise Undefined, t)
     \<and> number_errors t = 2"
  using unopenable_inputs_crash[of nothing_readable "[str ''x.j'', str ''y.j'']" "str ''a.j''"]
  by (simp add: nothing_readable_def capsule_start_def capsule_state.extend_def library_state.fields_def
      maximum_errors_def less_ESeverityT_def numeral_2_eq_2)

end
