(* ===== verification/Text_Input.thy ===== *)
theory Text_Input
  imports Tdf_Io
begin

text \<open>
  The text stream as a part of the linker's state, and the measure by which every loop over it ends:
  reading a character leaves less to read.
\<close>

definition on_text :: "(IStreamT, 'a) prog \<Rightarrow> ('z io_state_scheme, 'a) prog" where
  "on_text m s = (case m (text_in s) of (r, i) \<Rightarrow> (r, s\<lparr>text_in := i\<rparr>))"

text \<open>
  \<^verbatim>\<open>isspace\<close> in the C locale. It is called with a plain \<^verbatim>\<open>char\<close>, which is signed: from 128 on the argument is
  negative, and its value is undefined unless it is \<open>- 1\<close>, the value of \<^verbatim>\<open>EOF\<close>.
\<close>

definition is_white :: "byte \<Rightarrow> bool" where
  "is_white c \<longleftrightarrow> c = 32 \<or> 9 \<le> c \<and> c \<le> 13"

definition isspace :: "byte \<Rightarrow> bool option" where
  "isspace c = (if c < 128 \<or> c = 255 then Some (is_white c) else None)"

lemma isspace_white: "is_white c \<Longrightarrow> isspace c = Some True"
proof -
  assume w: "is_white c"
  then have "c \<le> 32" unfolding is_white_def by (elim disjE) (simp, erule conjE, erule order_trans, simp)
  then have "c < 128" by (rule le_less_trans) simp
  with w show ?thesis by (simp add: isspace_def)
qed

definition is_left :: "IStreamT \<Rightarrow> nat" where
  "is_left i = (length (is_buffer i) - is_current i) + (length (if_data (is_file i)) - if_pos (is_file i))"

abbreviation text_left :: "'z io_state_scheme \<Rightarrow> nat" where
  "text_left s \<equiv> is_left (text_in s)"

lemma if_avail_le: "if_avail f \<le> length (if_data f) - if_pos f"
  by (auto simp: if_avail_def split: option.splits intro: diff_le_mono)

lemma fill_buffer_left:
  assumes "X__istream_fill_buffer i = (Ret x, j)"
  shows "is_left j = Suc (length (if_data (is_file i)) - if_pos (is_file i))"
  using fill_buffer_Ret[OF assms] if_avail_le[of "is_file i"] by (simp add: is_left_def)

lemma istream_next_left:
  "istream_next i = (Ret x, j) \<Longrightarrow> is_left j \<le> is_left i \<and> (x \<noteq> None \<longrightarrow> is_left j < is_left i)"
proof (induction i arbitrary: x j rule: istream_next.induct)
  case (1 i)
  obtain c k where r: "ISTREAM_READ_CHAR i = (Ret c, k)"
    using 1(2) by (subst (asm) istream_next.simps) (auto simp: bind_Ret_iff)
  have k: "is_left k < is_left i" "k = i\<lparr>is_read_last := True, is_current := is_current i + 1\<rparr>" "is_current i < length (is_buffer i)"
    using r by (auto simp: read_char_Ret is_left_def)
  show ?case
  proof (cases "c = 0")
    case False
    then show ?thesis using 1(2) r k by (simp add: istream_next.simps [of i] bind_def)
  next
    case True
    obtain e l where h: "ISTREAM_HANDLE_NULL k = (Ret e, l)"
      using 1(2) r True by (subst (asm) istream_next.simps) (auto simp: bind_Ret_iff)
    have n: "istream_next i = (case e of Null_Char \<Rightarrow> (Ret (Some 0), l) | Redo \<Rightarrow> istream_next l | Eof \<Rightarrow> (Ret None, l))"
      using r True h by (simp add: istream_next.simps [of i] bind_def)
    show ?thesis
    proof (cases e)
      case Null_Char
      with h have "l = k" by (auto simp: ISTREAM_HANDLE_NULL_def bind_Ret_iff ret_def split: if_splits)
      with n 1(2) Null_Char k show ?thesis by simp
    next
      case Redo
      note redo = handle_null_redo[OF h [unfolded Redo]]
      from redo have f: "X__istream_fill_buffer k = (Ret (), l)" ..
      moreover from redo have "is_current i + 1 = length (is_buffer i)" unfolding k(2) by simp
      ultimately have "is_left l = is_left i" using fill_buffer_left[OF f] k(2) by (simp add: is_left_def)
      moreover have "istream_next l = (Ret x, j)" using n 1(2) Redo by simp
      ultimately show ?thesis using 1(1)[OF r True h Redo, of x j] by simp
    next
      case Eof
      with h k have "is_left l = is_left i" by (auto simp: ISTREAM_HANDLE_NULL_def is_left_def bind_Ret_iff ret_def split: if_splits)
      with n 1(2) Eof show ?thesis by simp
    qed
  qed
qed

lemma is_left_inc_line [simp]: "is_left (istream_inc_line i) = is_left i"
  by (simp add: is_left_def istream_inc_line_def)

text \<open>Programs that leave at most as much to read as they find.\<close>

definition consumes :: "('s \<Rightarrow> nat) \<Rightarrow> ('s, 'a) prog \<Rightarrow> bool" where
  "consumes f m \<longleftrightarrow> (\<forall>s x t. m s = (Ret x, t) \<longrightarrow> f t \<le> f s)"

named_theorems consumes_intros \<open>programs that leave at most as much to read as they find\<close>

lemma consumesD: "consumes f m \<Longrightarrow> m s = (Ret x, t) \<Longrightarrow> f t \<le> f s"
  by (simp add: consumes_def)

text \<open>The same of one run, for loops whose induction is about states.\<close>

definition leaves :: "('s \<Rightarrow> nat) \<Rightarrow> 's \<Rightarrow> 'a outcome \<times> 's \<Rightarrow> bool" where
  "leaves f s r \<longleftrightarrow> (\<forall>x t. r = (Ret x, t) \<longrightarrow> f t \<le> f s)"

lemma leaves_simps [simp]: "leaves f s (Ret x, t) \<longleftrightarrow> f t \<le> f s" "leaves f s (Raise e, t)"
  by (simp_all add: leaves_def)

lemma consumes_leaves: "consumes f m \<longleftrightarrow> (\<forall>s. leaves f s (m s))"
  by (simp add: consumes_def leaves_def)

lemma leaves_consumes: "consumes f m \<Longrightarrow> leaves f s (m s)"
  by (simp add: consumes_leaves)

lemma leaves_bind:
  assumes "consumes f m" "\<And>x t. m s = (Ret x, t) \<Longrightarrow> leaves f t (k x t)" shows "leaves f s (bind m k s)"
  unfolding leaves_def
proof (intro allI impI)
  fix y u
  assume "bind m k s = (Ret y, u)"
  then obtain x t where "m s = (Ret x, t)" "k x t = (Ret y, u)" by (auto simp: bind_Ret_iff)
  with assms(2)[of x t] consumesD[OF assms(1)] show "f u \<le> f s" by (fastforce simp: leaves_def)
qed

lemma consumes_ret [consumes_intros]: "consumes f (ret x)"
  by (simp add: consumes_def ret_def)

lemma consumes_bind [consumes_intros]: "consumes f m \<Longrightarrow> (\<And>x. consumes f (k x)) \<Longrightarrow> consumes f (bind m k)"
  by (fastforce simp: consumes_def bind_Ret_iff intro: le_trans)

lemma consumes_defined [consumes_intros]: "consumes f (defined x)"
  by (cases x) (simp_all add: consumes_def defined_def)

lemma consumes_if [consumes_intros]: "consumes f m \<Longrightarrow> consumes f k \<Longrightarrow> consumes f (if b then m else k)"
  by simp

lemma consumes_option [consumes_intros]:
  "consumes f m \<Longrightarrow> (\<And>x. consumes f (k x)) \<Longrightarrow> consumes f (case o1 of None \<Rightarrow> m | Some x \<Rightarrow> k x)"
  by (cases o1) simp_all

lemma consumes_next [consumes_intros]: "consumes is_left istream_next"
  by (simp add: consumes_def istream_next_left)

lemma consumes_inc_line [consumes_intros]: "consumes is_left (modify istream_inc_line)"
  by (simp add: consumes_def modify_def)

lemma consumes_escaped_char [consumes_intros]: "consumes is_left istream_read_escaped_char"
  unfolding istream_read_escaped_char_def istream_read_hex_char_def istream_read_hex_digit_def
  by (intro consumes_intros)

lemma consumes_read_char [consumes_intros]: "consumes is_left istream_read_char"
  unfolding istream_read_char_def by (intro consumes_intros)

text \<open>The same on the whole state.\<close>

lemma on_text_Ret: "on_text m s = (Ret x, t) \<longleftrightarrow> (\<exists>i. m (text_in s) = (Ret x, i) \<and> t = s\<lparr>text_in := i\<rparr>)"
  by (auto simp: on_text_def split: prod.splits)

lemma consumes_on_text [consumes_intros]: "consumes is_left m \<Longrightarrow> consumes text_left (on_text m)"
  by (auto simp: consumes_def on_text_Ret)

lemma consumes_error_msg [consumes_intros]: "consumes text_left (error_msg e)"
  by (cases e) (auto simp: consumes_def error_msg_def bind_Ret_iff prog_simps split: if_splits)

lemma on_next_char: "on_text istream_next s = (Ret (Some c), t) \<Longrightarrow> text_left t < text_left s"
  by (auto simp: on_text_Ret dest!: istream_next_left)

lemma on_read_char:
  assumes "on_text istream_read_char s = (Ret (Some c), t)" shows "text_left t < text_left s"
proof -
  from assms obtain i where "istream_next (text_in s) = (Ret (Some c), i)" "t = s\<lparr>text_in := i\<rparr> \<or> t = s\<lparr>text_in := istream_inc_line i\<rparr>"
    by (auto simp: on_text_Ret istream_read_char_def bind_Ret_iff ret_def modify_def split: if_splits)
  with istream_next_left[of "text_in s"] show ?thesis by auto
qed

end
