(* ===== verification/Rename_File.thy ===== *)
theory Rename_File
  imports Args Text_Input
begin

text \<open>
  The parser of rename files, \<^verbatim>\<open>tld/src/rename-file.c\<close>. Dynamic strings are the lists of the characters
  appended to them. Every loop ends because it reads at least one character a turn.
\<close>

section \<open>Tokens\<close>

datatype RenameTokenT = RTOK_SHAPE NStringT | RTOK_NAME NameKeyT | RTOK_SEMI | RTOK_EOF

function rename_file_skip_white_space ::
  "bool \<Rightarrow> 'z io_state_scheme \<Rightarrow> byte option outcome \<times> 'z io_state_scheme" where
  "rename_file_skip_white_space comment s = bind (on_text istream_next) (\<lambda>c t. case c of
       None \<Rightarrow> (Ret None, t)
     | Some c \<Rightarrow>
         if c = 0 then rename_file_skip_white_space comment t
         else if c = 10 then bind (on_text (modify istream_inc_line)) (\<lambda>_ u. rename_file_skip_white_space False u) t
         else if c = 35 then rename_file_skip_white_space True t
         else if comment then rename_file_skip_white_space comment t
         else (case isspace c of
             None \<Rightarrow> (Raise Undefined, t)
           | Some white \<Rightarrow> if \<not> white then (Ret (Some c), t) else rename_file_skip_white_space comment t)) s"
  by pat_completeness auto
termination
  by (relation "measure (\<lambda>(comment, s). text_left s)")
    (auto dest!: on_next_char consumesD [OF consumes_on_text [OF consumes_inc_line]])

text \<open>The inner switch on an escape sequence: the characters to append.\<close>

definition rename_file_escape :: "('z io_state_scheme, byte list) prog" where
  "rename_file_escape = bind (on_text istream_read_escaped_char) (\<lambda>status. case status of
       ISTREAM_STAT_READ_CHAR c \<Rightarrow> ret [c]
     | ISTREAM_STAT_SYNTAX_ERROR \<Rightarrow> bind (error_msg ERR_SERIOUS) (\<lambda>_. ret [])
     | ISTREAM_STAT_NO_CHAR \<Rightarrow> ret [])"

text \<open>A newline inside a name.\<close>

definition rename_file_newline :: "('z io_state_scheme, unit) prog" where
  "rename_file_newline = bind (on_text (modify istream_inc_line)) (\<lambda>_. error_msg ERR_SERIOUS)"

lemma consumes_escape [consumes_intros]: "consumes text_left rename_file_escape"
proof -
  have "consumes text_left (case status of
       ISTREAM_STAT_READ_CHAR c \<Rightarrow> ret [c]
     | ISTREAM_STAT_SYNTAX_ERROR \<Rightarrow> bind (error_msg ERR_SERIOUS) (\<lambda>_. ret [])
     | ISTREAM_STAT_NO_CHAR \<Rightarrow> ret [])" for status :: IStreamStatusT
    by (cases status) (simp_all add: consumes_intros)
  then show ?thesis unfolding rename_file_escape_def by (intro consumes_intros)
qed

lemma consumes_newline [consumes_intros]: "consumes text_left rename_file_newline"
  unfolding rename_file_newline_def by (intro consumes_intros)

lemmas text_steps = on_next_char consumesD [OF consumes_escape] consumesD [OF consumes_newline]
  consumesD [OF consumes_error_msg] consumesD [OF consumes_on_text [OF consumes_inc_line]]

definition rename_file_eof :: "('z io_state_scheme, RenameTokenT) prog" where
  "rename_file_eof = bind (error_msg ERR_SERIOUS) (\<lambda>_. ret RTOK_EOF)"

text \<open>The loop that moves the components of a unique name into its key.\<close>

fun name_key_set_components :: "NameKeyT \<Rightarrow> nat \<Rightarrow> NStringT list \<Rightarrow> NameKeyT option" where
  "name_key_set_components key i [] = Some key"
| "name_key_set_components key i (component # entry) =
     Option.bind (name_key_set_component key i component) (\<lambda>key. name_key_set_components key (i + 1) entry)"

lemma name_key_set_components_eq:
  "name_key_set_components (KT_UNIQUE (done_comps @ replicate (length cs) [])) (length done_comps) cs = Some (KT_UNIQUE (done_comps @ cs))"
proof (induction cs arbitrary: done_comps)
  case (Cons c cs)
  from Cons[of "done_comps @ [c]"] show ?case
    by (simp add: name_key_set_component_def nstring_assign_def list_update_append)
qed simp

text \<open>\<open>list\<close> holds the finished components, \<open>dstring\<close> the one being read. An opening bracket is skipped.\<close>

function rename_file_read_unique ::
  "NStringT list \<Rightarrow> byte list \<Rightarrow> 'z io_state_scheme \<Rightarrow> RenameTokenT outcome \<times> 'z io_state_scheme" where
  "rename_file_read_unique list dstring s = bind (on_text istream_next) (\<lambda>c t. case c of
       None \<Rightarrow> rename_file_eof t
     | Some c \<Rightarrow>
         if c = 10 then bind rename_file_newline (\<lambda>_ u. rename_file_read_unique list dstring u) t
         else if c = 93 then bind (defined (name_key_set_components (name_key_init_unique (length list + 1)) 0 (list @ [dstring])))
           (\<lambda>key. ret (RTOK_NAME key)) t
         else if c = 91 then rename_file_read_unique list dstring t
         else if c = 46 then rename_file_read_unique (list @ [dstring]) [] t
         else if c = 92 then bind rename_file_escape (\<lambda>cs u. rename_file_read_unique list (dstring @ cs) u) t
         else rename_file_read_unique list (dstring @ [c]) t) s"
  by pat_completeness auto
termination
  by (relation "measure (\<lambda>(list, dstring, s). text_left s)") (auto dest!: text_steps)

function rename_file_read_shape ::
  "byte list \<Rightarrow> 'z io_state_scheme \<Rightarrow> RenameTokenT outcome \<times> 'z io_state_scheme" where
  "rename_file_read_shape dstring s = bind (on_text istream_next) (\<lambda>c t. case c of
       None \<Rightarrow> rename_file_eof t
     | Some c \<Rightarrow>
         if c = 10 then bind rename_file_newline (\<lambda>_ u. rename_file_read_shape dstring u) t
         else if c = 39 then (Ret (RTOK_SHAPE dstring), t)
         else if c = 92 then bind rename_file_escape (\<lambda>cs u. rename_file_read_shape (dstring @ cs) u) t
         else rename_file_read_shape (dstring @ [c]) t) s"
  by pat_completeness auto
termination
  by (relation "measure (\<lambda>(dstring, s). text_left s)") (auto dest!: text_steps)

function rename_file_read_string ::
  "byte list \<Rightarrow> 'z io_state_scheme \<Rightarrow> RenameTokenT outcome \<times> 'z io_state_scheme" where
  "rename_file_read_string dstring s = bind (on_text istream_next) (\<lambda>c t. case c of
       None \<Rightarrow> rename_file_eof t
     | Some c \<Rightarrow>
         if c = 10 then bind rename_file_newline (\<lambda>_ u. rename_file_read_string dstring u) t
         else if c = 34 then (Ret (RTOK_NAME (name_key_init_string dstring)), t)
         else if c = 91 \<or> c = 93 \<or> c = 46 then bind (error_msg ERR_SERIOUS) (\<lambda>_ u. rename_file_read_string dstring u) t
         else if c = 92 then bind rename_file_escape (\<lambda>cs u. rename_file_read_string (dstring @ cs) u) t
         else rename_file_read_string (dstring @ [c]) t) s"
  by pat_completeness auto
termination
  by (relation "measure (\<lambda>(dstring, s). text_left s)") (auto dest!: text_steps)

declare rename_file_skip_white_space.simps [simp del] rename_file_read_unique.simps [simp del]
  rename_file_read_shape.simps [simp del] rename_file_read_string.simps [simp del]

text \<open>What a token costs: every token but the end of the file has been read from the text.\<close>

lemma consumes_eof [consumes_intros]: "consumes text_left rename_file_eof"
  unfolding rename_file_eof_def by (intro consumes_intros)

lemma consumes_skip [consumes_intros]: "consumes text_left (rename_file_skip_white_space comment)"
proof -
  have "leaves text_left s (rename_file_skip_white_space comment s)" for s :: "'a io_state_scheme"
  proof (induction s arbitrary: comment rule: measure_induct_rule [of text_left])
    case (less s)
    show ?case
      by (subst rename_file_skip_white_space.simps, rule leaves_bind)
        (auto intro!: consumes_intros leaves_bind less split: option.splits dest!: text_steps)
  qed
  then show ?thesis by (simp add: consumes_leaves)
qed

lemma consumes_read_shape [consumes_intros]: "consumes text_left (rename_file_read_shape dstring)"
proof -
  have "leaves text_left s (rename_file_read_shape dstring s)" for s :: "'a io_state_scheme"
  proof (induction s arbitrary: dstring rule: measure_induct_rule [of text_left])
    case (less s)
    show ?case
      by (subst rename_file_read_shape.simps, rule leaves_bind)
        (auto intro!: consumes_intros leaves_bind less leaves_consumes [OF consumes_eof] split: option.splits dest!: text_steps)
  qed
  then show ?thesis by (simp add: consumes_leaves)
qed

lemma consumes_read_string [consumes_intros]: "consumes text_left (rename_file_read_string dstring)"
proof -
  have "leaves text_left s (rename_file_read_string dstring s)" for s :: "'a io_state_scheme"
  proof (induction s arbitrary: dstring rule: measure_induct_rule [of text_left])
    case (less s)
    show ?case
      by (subst rename_file_read_string.simps, rule leaves_bind)
        (auto intro!: consumes_intros leaves_bind less leaves_consumes [OF consumes_eof] split: option.splits dest!: text_steps)
  qed
  then show ?thesis by (simp add: consumes_leaves)
qed

lemma consumes_read_unique [consumes_intros]: "consumes text_left (rename_file_read_unique list dstring)"
proof -
  have "leaves text_left s (rename_file_read_unique list dstring s)" for s :: "'a io_state_scheme"
  proof (induction s arbitrary: list dstring rule: measure_induct_rule [of text_left])
    case (less s)
    show ?case
      by (subst rename_file_read_unique.simps, rule leaves_bind)
        (auto intro!: consumes_intros leaves_bind less leaves_consumes [OF consumes_eof] leaves_consumes [OF consumes_ret] split: option.splits dest!: text_steps)
  qed
  then show ?thesis by (simp add: consumes_leaves)
qed

lemma skip_char: "rename_file_skip_white_space comment s = (Ret (Some c), t) \<Longrightarrow> text_left t < text_left s"
proof (induction comment s rule: rename_file_skip_white_space.induct)
  case (1 comment s)
  obtain r u where r: "on_text istream_next s = (r, u)" by fastforce
  have "\<exists>d. r = Ret (Some d)"
  proof (cases r)
    case (Ret x)
    with "1.prems" r show ?thesis by (cases x) (simp_all add: rename_file_skip_white_space.simps [of comment s] bind_def)
  qed (use "1.prems" r in \<open>simp add: rename_file_skip_white_space.simps [of comment s] bind_def\<close>)
  then obtain d where "r = Ret (Some d)" ..
  with r have d: "on_text istream_next s = (Ret (Some d), u)" by simp
  let ?loop = "rename_file_skip_white_space"
  have "leaves text_left u (case Some d of
       None \<Rightarrow> (Ret None, u)
     | Some c \<Rightarrow>
         if c = 0 then ?loop comment u
         else if c = 10 then bind (on_text (modify istream_inc_line)) (\<lambda>_ u. ?loop False u) u
         else if c = 35 then ?loop True u
         else if comment then ?loop comment u
         else (case isspace c of
             None \<Rightarrow> (Raise Undefined, u)
           | Some white \<Rightarrow> if \<not> white then (Ret (Some c), u) else ?loop comment u))"
    by (auto intro!: leaves_bind consumes_intros leaves_consumes [OF consumes_skip] split: option.splits)
  with on_next_char[OF d] "1.prems" d show ?case
    by (simp add: rename_file_skip_white_space.simps [of comment s] bind_def leaves_def)
qed

text \<open>An illegal character is reported and the next token tried.\<close>

function rename_file_next_token :: "'z io_state_scheme \<Rightarrow> RenameTokenT outcome \<times> 'z io_state_scheme" where
  "rename_file_next_token s = bind (rename_file_skip_white_space False) (\<lambda>c t. case c of
       None \<Rightarrow> (Ret RTOK_EOF, t)
     | Some c \<Rightarrow>
         if c = 91 then rename_file_read_unique [] [] t
         else if c = 39 then rename_file_read_shape [] t
         else if c = 34 then rename_file_read_string [] t
         else if c = 59 then (Ret RTOK_SEMI, t)
         else bind (error_msg ERR_SERIOUS) (\<lambda>_ u. rename_file_next_token u) t) s"
  by pat_completeness auto
termination
  by (relation "measure text_left") (auto dest!: skip_char consumesD [OF consumes_error_msg])

declare rename_file_next_token.simps [simp del]

lemma consumes_next_token [consumes_intros]: "consumes text_left (rename_file_next_token)"
proof -
  have "leaves text_left s (rename_file_next_token s)" for s :: "'a io_state_scheme"
  proof (induction s rule: measure_induct_rule [of text_left])
    case (less s)
    show ?case
      by (subst rename_file_next_token.simps, rule leaves_bind)
        (auto intro!: consumes_intros leaves_bind less leaves_consumes [OF consumes_read_unique]
          leaves_consumes [OF consumes_read_shape] leaves_consumes [OF consumes_read_string] split: option.splits dest!: skip_char text_steps)
  qed
  then show ?thesis by (simp add: consumes_leaves)
qed

lemma next_token_less:
  assumes "rename_file_next_token s = (Ret tok, t)" "tok \<noteq> RTOK_EOF" shows "text_left t < text_left s"
proof -
  obtain c u where c: "rename_file_skip_white_space False s = (Ret (Some c), u)"
    using assms by (subst (asm) rename_file_next_token.simps) (auto simp: bind_Ret_iff split: option.splits)
  have "leaves text_left u (case Some c of
       None \<Rightarrow> (Ret RTOK_EOF, u)
     | Some c \<Rightarrow>
         if c = 91 then rename_file_read_unique [] [] u
         else if c = 39 then rename_file_read_shape [] u
         else if c = 34 then rename_file_read_string [] u
         else if c = 59 then (Ret RTOK_SEMI, u)
         else bind (error_msg ERR_SERIOUS) (\<lambda>_ u. rename_file_next_token u) u)"
    by (auto intro!: leaves_bind consumes_intros leaves_consumes)
  with skip_char[OF c] assms c show ?thesis
    by (simp add: rename_file_next_token.simps [of s] bind_def leaves_def)
qed

section \<open>Parsing\<close>

lemma consumes_add_rename [consumes_intros]: "consumes text_left (arg_data_add_rename shape from to arg_data)"
  unfolding arg_data_add_rename_def Let_def
  by (auto intro!: consumes_intros split: prod.splits option.splits)

lemma next_token_left:
  "rename_file_next_token s = (Ret tok, t) \<Longrightarrow> text_left t \<le> text_left s \<and> (tok \<noteq> RTOK_EOF \<longrightarrow> text_left t < text_left s)"
  using next_token_less consumesD[OF consumes_next_token] by blast

lemmas token_steps = next_token_left consumesD [OF consumes_add_rename]
  consumesD [OF consumes_error_msg]

text \<open>The loop of \<^verbatim>\<open>rename_file_parse_names\<close>, with the token it has reached.\<close>

function rename_file_parse_names_loop ::
  "NStringT \<Rightarrow> ArgDataT \<Rightarrow> RenameTokenT \<Rightarrow> 'z io_state_scheme \<Rightarrow> (ArgDataT \<times> RenameTokenT) outcome \<times> 'z io_state_scheme" where
  "rename_file_parse_names_loop shape arg_data token s = (case token of
       RTOK_NAME name \<Rightarrow> bind rename_file_next_token (\<lambda>token t. case token of
           RTOK_NAME to_name \<Rightarrow>
             bind (arg_data_add_rename shape name to_name arg_data) (\<lambda>arg_data. bind rename_file_next_token (\<lambda>token u.
             if token \<noteq> RTOK_SEMI
             then bind (error_msg ERR_SERIOUS) (\<lambda>_ v. rename_file_parse_names_loop shape arg_data token v) u
             else bind rename_file_next_token (\<lambda>token v. rename_file_parse_names_loop shape arg_data token v) u)) t
         | _ \<Rightarrow>
             bind (error_msg ERR_SERIOUS) (\<lambda>_ u.
             if token \<noteq> RTOK_SEMI then (Ret (arg_data, token), u)
             else bind rename_file_next_token (\<lambda>token v. rename_file_parse_names_loop shape arg_data token v) u) t) s
     | _ \<Rightarrow> (Ret (arg_data, token), s))"
  by pat_completeness auto
termination
  by (relation "measure (\<lambda>(shape, arg_data, token, s). text_left s)") (auto dest!: token_steps)

declare rename_file_parse_names_loop.simps [simp del]

definition rename_file_parse_names ::
  "NStringT \<Rightarrow> ArgDataT \<Rightarrow> ('z io_state_scheme, ArgDataT \<times> RenameTokenT) prog" where
  "rename_file_parse_names shape arg_data =
     bind rename_file_next_token (\<lambda>token. rename_file_parse_names_loop shape arg_data token)"

lemma consumes_names_loop [consumes_intros]: "consumes text_left (rename_file_parse_names_loop shape arg_data token)"
proof -
  have "leaves text_left s (rename_file_parse_names_loop shape arg_data token s)" for s :: "'a io_state_scheme"
  proof (induction s arbitrary: arg_data token rule: measure_induct_rule [of text_left])
    case (less s)
    show ?case
      by (subst rename_file_parse_names_loop.simps)
        (auto intro!: consumes_intros leaves_bind less split: RenameTokenT.splits dest!: token_steps)
  qed
  then show ?thesis by (simp add: consumes_leaves)
qed

lemma names_loop_eof: "rename_file_parse_names_loop shape arg_data RTOK_EOF s = (Ret (arg_data, RTOK_EOF), s)"
  by (simp add: rename_file_parse_names_loop.simps)

lemma parse_names_left:
  assumes "rename_file_parse_names shape arg_data s = (Ret (a, tok), t)" "tok \<noteq> RTOK_EOF"
  shows "text_left t < text_left s"
proof -
  from assms(1) obtain tok1 u where n: "rename_file_next_token s = (Ret tok1, u)"
    and l: "rename_file_parse_names_loop shape arg_data tok1 u = (Ret (a, tok), t)"
    by (auto simp: rename_file_parse_names_def bind_Ret_iff)
  from l assms(2) have "tok1 \<noteq> RTOK_EOF" by (auto simp: names_loop_eof)
  with next_token_left[OF n] consumesD[OF consumes_names_loop l] show ?thesis by simp
qed

lemma consumes_parse_names [consumes_intros]: "consumes text_left (rename_file_parse_names shape arg_data)"
  unfolding rename_file_parse_names_def by (intro consumes_intros)

text \<open>The loop of \<^verbatim>\<open>rename_file_parse_1\<close>.\<close>

function rename_file_parse_loop ::
  "ArgDataT \<Rightarrow> bool \<Rightarrow> RenameTokenT \<Rightarrow> 'z io_state_scheme \<Rightarrow> ArgDataT outcome \<times> 'z io_state_scheme" where
  "rename_file_parse_loop arg_data need_error token s = (case token of
       RTOK_EOF \<Rightarrow> (Ret arg_data, s)
     | RTOK_SHAPE shape \<Rightarrow>
         bind (rename_file_parse_names shape arg_data) (\<lambda>r t. case r of
           (arg_data, token) \<Rightarrow> rename_file_parse_loop arg_data True token t) s
     | _ \<Rightarrow>
         bind (if need_error then error_msg ERR_SERIOUS else ret ()) (\<lambda>_.
         bind rename_file_next_token (\<lambda>token t. rename_file_parse_loop arg_data False token t)) s)"
  by pat_completeness auto
termination
proof (relation "measures [\<lambda>(arg_data, need_error, token, s). text_left s, \<lambda>(arg_data, need_error, token, s). if token = RTOK_EOF then 0 else 1]",
    goal_cases)
  case (2 arg_data need_error token s shape x t a tok)
  with consumesD[OF consumes_parse_names 2(2)] parse_names_left[of shape arg_data s a tok t] show ?case by auto
qed (auto dest!: token_steps split: if_splits simp: ret_def)

declare rename_file_parse_loop.simps [simp del]

definition rename_file_parse_1 :: "ArgDataT \<Rightarrow> ('z io_state_scheme, ArgDataT) prog" where
  "rename_file_parse_1 arg_data = bind rename_file_next_token (\<lambda>token. rename_file_parse_loop arg_data True token)"

definition rename_file_parse :: "cstring \<Rightarrow> ArgDataT \<Rightarrow> ('z io_state_scheme, ArgDataT) prog" where
  "rename_file_parse name arg_data =
     bind (gets files_in) (\<lambda>fs. bind (on_text (istream_open fs name)) (\<lambda>ok.
     bind (if ok then bind (rename_file_parse_1 arg_data) (\<lambda>arg_data.
             bind (on_text (modify istream_close)) (\<lambda>_. ret arg_data))
           else bind (error_msg ERR_FATAL) (\<lambda>_. ret arg_data)) (\<lambda>arg_data.
     bind exit_on_error (\<lambda>_. ret arg_data))))"

end
