(* ===== verification/Rename_Properties.thy ===== *)
theory Rename_Properties
  imports Rename_File Io_Properties
begin

text \<open>
  Rename files in the documented format are read as what they say. Each parsing function is shown to
  read a piece of text; the pieces compose along \<^const>\<open>bind\<close>.
\<close>

section \<open>Pieces of text\<close>

text \<open>\<open>m\<close> reads the text \<open>bs\<close>, whatever follows it, returns \<open>x\<close> and touches nothing but the stream.\<close>

definition reads_text :: "('z io_state_scheme, 'a) prog \<Rightarrow> 'a \<Rightarrow> byte list \<Rightarrow> bool" where
  "reads_text m x bs \<longleftrightarrow> (\<forall>i rest. is_sound i \<and> is_rest i = bs @ rest \<longrightarrow>
     (\<exists>j. is_sound j \<and> is_rest j = rest \<and> (\<forall>s. text_in s = i \<longrightarrow> m s = (Ret x, s\<lparr>text_in := j\<rparr>))))"

lemma reads_textI:
  assumes "\<And>i rest. is_sound i \<Longrightarrow> is_rest i = bs @ rest \<Longrightarrow>
     \<exists>j. is_sound j \<and> is_rest j = rest \<and> (\<forall>s. text_in s = i \<longrightarrow> m s = (Ret x, s\<lparr>text_in := j\<rparr>))"
  shows "reads_text m x bs"
  using assms by (simp add: reads_text_def)

lemma reads_textD:
  assumes "reads_text m x bs" "is_sound i" "is_rest i = bs @ rest"
  obtains j where "is_sound j" "is_rest j = rest" "\<And>s. text_in s = i \<Longrightarrow> m s = (Ret x, s\<lparr>text_in := j\<rparr>)"
  using assms unfolding reads_text_def by blast

lemma text_reads_ret: "reads_text (ret x) x []"
  by (auto simp: reads_text_def ret_def)

lemma text_reads_bind:
  assumes "reads_text m x as" "reads_text (k x) y bs"
  shows "reads_text (bind m k) y (as @ bs)"
proof (rule reads_textI)
  fix i rest
  assume i: "is_sound i" "is_rest i = (as @ bs) @ rest"
  obtain j where j: "is_sound j" "is_rest j = bs @ rest" "\<And>s. text_in s = i \<Longrightarrow> m s = (Ret x, s\<lparr>text_in := j\<rparr>)"
    using reads_textD[OF assms(1), of i "bs @ rest"] i by auto
  obtain l where l: "is_sound l" "is_rest l = rest" "\<And>s. text_in s = j \<Longrightarrow> k x s = (Ret y, s\<lparr>text_in := l\<rparr>)"
    using reads_textD[OF assms(2) j(1,2)] by blast
  from j l show "\<exists>j. is_sound j \<and> is_rest j = rest \<and> (\<forall>s. text_in s = i \<longrightarrow> bind m k s = (Ret y, s\<lparr>text_in := j\<rparr>))"
    by (intro exI[of _ l]) (simp add: bind_def)
qed

lemmas text_reads_bind_end = text_reads_bind [where bs = "[]", simplified]

lemmas text_reads_bind_Cons = text_reads_bind [where as = "[d]" for d, simplified]

lemma reads_cong: "(\<And>s. m s = m' s) \<Longrightarrow> reads_text m' x bs \<Longrightarrow> reads_text m x bs"
  by (simp add: reads_text_def)

lemma reads_next: "reads_text (on_text istream_next) (Some c) [c]"
proof (rule reads_textI)
  fix i rest
  assume "is_sound i" "is_rest i = [c] @ rest"
  with istream_next_sound(1)[of i c rest] obtain j where "istream_next i = (Ret (Some c), j)" "is_sound j" "is_rest j = rest"
    by auto
  then show "\<exists>j. is_sound j \<and> is_rest j = rest \<and> (\<forall>s. text_in s = i \<longrightarrow> on_text istream_next s = (Ret (Some c), s\<lparr>text_in := j\<rparr>))"
    by (auto simp: on_text_def)
qed

lemma reads_inc_line: "reads_text (on_text (modify istream_inc_line)) () []"
proof (rule reads_textI)
  fix i rest
  assume "is_sound i" "is_rest i = [] @ rest"
  then have "is_sound (istream_inc_line i) \<and> is_rest (istream_inc_line i) = rest"
    by (simp add: is_sound_def is_rest_def istream_inc_line_def)
  then show "\<exists>j. is_sound j \<and> is_rest j = rest \<and>
      (\<forall>s. text_in s = i \<longrightarrow> on_text (modify istream_inc_line) s = (Ret (), s\<lparr>text_in := j\<rparr>))"
    by (intro exI[of _ "istream_inc_line i"]) (simp add: on_text_def modify_def)
qed

text \<open>A loop that reads a character and goes on with what it stands for.\<close>

lemma reads_step:
  assumes "\<And>s. loop s = bind (on_text istream_next) k s" "reads_text (k (Some c)) x bs"
  shows "reads_text loop x (c # bs)"
  using reads_cong[OF assms(1) text_reads_bind[where k = k, OF reads_next [of c] assms(2)]] by simp

section \<open>Names\<close>

definition esc :: "byte \<Rightarrow> byte list" where
  "esc c = (if c = 10 then [92, 110] else if c \<in> {34, 39, 46, 91, 92, 93} then [92, c] else [c])"

definition esc_text :: "byte list \<Rightarrow> byte list" where
  "esc_text cs = concat (map esc cs)"

lemma esc_plain: "esc c = [c] \<longleftrightarrow> c \<notin> {10, 34, 39, 46, 91, 92, 93}"
  by (auto simp: esc_def)

lemma reads_escaped_char:
  assumes "\<And>i j. istream_next i = (Ret (Some c), j) \<Longrightarrow> istream_read_escaped_char i = (Ret (ISTREAM_STAT_READ_CHAR d), j)"
  shows "reads_text (on_text istream_read_escaped_char) (ISTREAM_STAT_READ_CHAR d) [c]"
proof (rule reads_textI)
  fix i rest
  assume "is_sound i" "is_rest i = [c] @ rest"
  with istream_next_sound(1)[of i c rest] assms show "\<exists>j. is_sound j \<and> is_rest j = rest \<and>
      (\<forall>s. text_in s = i \<longrightarrow> on_text istream_read_escaped_char s = (Ret (ISTREAM_STAT_READ_CHAR d), s\<lparr>text_in := j\<rparr>))"
    by (fastforce simp: on_text_def)
qed

lemma reads_escape:
  "c \<in> {34, 39, 46, 91, 92, 93} \<Longrightarrow> reads_text rename_file_escape [c] [c]" "reads_text rename_file_escape [10] [110]"
proof -
  show "reads_text rename_file_escape [c] [c]" if c: "c \<in> {34, 39, 46, 91, 92, 93}"
    unfolding rename_file_escape_def
  proof (rule text_reads_bind_end [OF reads_escaped_char])
    show "istream_next i = (Ret (Some c), j) \<Longrightarrow> istream_read_escaped_char i = (Ret (ISTREAM_STAT_READ_CHAR c), j)" for i j
      using c by (auto simp: istream_read_escaped_char_def bind_def ret_def)
  qed (simp add: text_reads_ret)
  show "reads_text rename_file_escape [10] [110]"
    unfolding rename_file_escape_def
  proof (rule text_reads_bind_end [OF reads_escaped_char])
    show "istream_next i = (Ret (Some 110), j) \<Longrightarrow> istream_read_escaped_char i = (Ret (ISTREAM_STAT_READ_CHAR 10), j)" for i j
      by (auto simp: istream_read_escaped_char_def bind_def ret_def)
  qed (simp add: text_reads_ret)
qed

text \<open>
  The three loops over the characters of a name have this in common: a plain character is appended,
  and an escape sequence appends what it stands for.
\<close>

locale escaped_loop =
  fixes loop :: "byte list \<Rightarrow> ('z io_state_scheme, RenameTokenT) prog"
  assumes plain: "esc c = [c] \<Longrightarrow> reads_text (loop (acc @ [c])) x bs \<Longrightarrow> reads_text (loop acc) x (c # bs)"
    and escaped: "reads_text (rename_file_escape :: ('z io_state_scheme, byte list) prog) [c] [d] \<Longrightarrow>
      reads_text (loop (acc @ [c])) x bs \<Longrightarrow> reads_text (loop acc) x (92 # d # bs)"
begin

lemma reads_chars: "reads_text (loop (acc @ cs)) x bs \<Longrightarrow> reads_text (loop acc) x (esc_text cs @ bs)"
proof (induction cs arbitrary: acc)
  case Nil
  then show ?case by (simp add: esc_text_def)
next
  case (Cons c cs)
  from Cons.prems have ih: "reads_text (loop (acc @ [c])) x (esc_text cs @ bs)" by (intro Cons.IH) simp
  consider "c = 10" | "c \<in> {34, 39, 46, 91, 92, 93}" | "esc c = [c]" using esc_plain by blast
  then show ?case
  proof cases
    case 1
    with escaped[OF reads_escape(2) ih [unfolded 1]] show ?thesis by (simp add: esc_text_def esc_def)
  next
    case 2
    with escaped[OF reads_escape(1)[OF 2] ih] have "reads_text (loop acc) x ([92, c] @ esc_text cs @ bs)" by simp
    moreover have "esc c = [92, c]" using 2 by (auto simp: esc_def)
    ultimately show ?thesis by (simp add: esc_text_def)
  next
    case 3
    with plain[OF 3 ih] show ?thesis by (simp add: esc_text_def)
  qed
qed

end

interpretation shape_loop: escaped_loop rename_file_read_shape
proof (unfold_locales, goal_cases)
  case (1 c acc x bs)
  then show ?case by (intro reads_step [OF rename_file_read_shape.simps]) (simp add: esc_plain)
next
  case (2 c d acc x bs)
  show ?case by (rule reads_step [OF rename_file_read_shape.simps], simp, rule text_reads_bind_Cons [OF 2(1)], rule 2(2))
qed

interpretation string_loop: escaped_loop rename_file_read_string
proof (unfold_locales, goal_cases)
  case (1 c acc x bs)
  then show ?case by (intro reads_step [OF rename_file_read_string.simps]) (simp add: esc_plain)
next
  case (2 c d acc x bs)
  show ?case by (rule reads_step [OF rename_file_read_string.simps], simp, rule text_reads_bind_Cons [OF 2(1)], rule 2(2))
qed

interpretation unique_loop: escaped_loop "rename_file_read_unique list" for list
proof (unfold_locales, goal_cases)
  case (1 c acc x bs)
  then show ?case by (intro reads_step [OF rename_file_read_unique.simps]) (simp add: esc_plain)
next
  case (2 c d acc x bs)
  show ?case by (rule reads_step [OF rename_file_read_unique.simps], simp, rule text_reads_bind_Cons [OF 2(1)], rule 2(2))
qed

section \<open>Tokens\<close>

fun comps_text :: "NStringT list \<Rightarrow> byte list" where
  "comps_text [] = []"
| "comps_text [c] = esc_text c"
| "comps_text (c # cs) = esc_text c @ 46 # comps_text cs"

fun name_text :: "NameKeyT \<Rightarrow> byte list" where
  "name_text (KT_STRING ns) = 34 # esc_text ns @ [34]"
| "name_text (KT_UNIQUE cs) = 91 # comps_text cs @ [93]"

fun token_text :: "RenameTokenT \<Rightarrow> byte list" where
  "token_text (RTOK_SHAPE ns) = 39 # esc_text ns @ [39]"
| "token_text (RTOK_NAME key) = name_text key"
| "token_text RTOK_SEMI = [59]"
| "token_text RTOK_EOF = []"

lemma reads_shape: "reads_text (rename_file_read_shape []) (RTOK_SHAPE ns) (esc_text ns @ [39])"
proof -
  have "reads_text (rename_file_read_shape ns) (RTOK_SHAPE ns) [39]"
    by (rule reads_step [OF rename_file_read_shape.simps]) (simp add: text_reads_ret [unfolded ret_def])
  then show ?thesis using shape_loop.reads_chars[of "[]" ns] by simp
qed

lemma text_reads_string: "reads_text (rename_file_read_string []) (RTOK_NAME (KT_STRING ns)) (esc_text ns @ [34])"
proof -
  have "reads_text (rename_file_read_string ns) (RTOK_NAME (KT_STRING ns)) [34]"
    by (rule reads_step [OF rename_file_read_string.simps])
      (simp add: text_reads_ret [unfolded ret_def] name_key_init_string_def nstring_assign_def)
  then show ?thesis using string_loop.reads_chars[of "[]" ns] by simp
qed

lemma reads_unique:
  "cs \<noteq> [] \<Longrightarrow> reads_text (rename_file_read_unique list []) (RTOK_NAME (KT_UNIQUE (list @ cs))) (comps_text cs @ [93])"
proof (induction cs arbitrary: list rule: comps_text.induct)
  case (2 c)
  have "name_key_set_components (name_key_init_unique (length list + 1)) 0 (list @ [c]) = Some (KT_UNIQUE (list @ [c]))"
    using name_key_set_components_eq[of "[]" "list @ [c]"] by (simp add: name_key_init_unique_def)
  then have "reads_text (rename_file_read_unique list c) (RTOK_NAME (KT_UNIQUE (list @ [c]))) [93]"
    by (intro reads_step [OF rename_file_read_unique.simps])
      (simp add: bind_def defined_def ret_def text_reads_ret [unfolded ret_def])
  then show ?case using unique_loop.reads_chars[of list "[]" c] by simp
next
  case (3 c d cs)
  note ih = 3(1)[of "list @ [c]", simplified]
  show ?case
    by (simp, rule unique_loop.reads_chars [where acc = "[]", simplified], rule reads_step [OF rename_file_read_unique.simps],
      simp, rule ih)
qed simp

lemma reads_skip:
  assumes "c \<noteq> 0" "c \<noteq> 35" "isspace c = Some False"
  shows "list_all is_white ws \<Longrightarrow> reads_text (rename_file_skip_white_space False) (Some c) (ws @ [c])"
proof (induction ws)
  case Nil
  have "c \<noteq> 10" using assms(3) by (auto simp: isspace_def is_white_def)
  with assms show ?case by (auto intro!: reads_step [OF rename_file_skip_white_space.simps] simp: text_reads_ret [unfolded ret_def])
next
  case (Cons w ws)
  then have ws: "list_all is_white ws" "is_white w" by simp_all
  from ws(2) have w: "w \<noteq> 0" "w \<noteq> 35" by (auto simp: is_white_def)
  note ih = Cons.IH[OF ws(1)]
  show ?case
  proof (cases "w = 10")
    case True
    show ?thesis
      unfolding append_Cons True
      by (rule reads_step [OF rename_file_skip_white_space.simps]) (simp, rule text_reads_bind [OF reads_inc_line, simplified], rule ih)
  next
    case False
    show ?thesis
      unfolding append_Cons
      by (rule reads_step [OF rename_file_skip_white_space.simps]) (simp add: False w isspace_white [OF ws(2)], rule ih)
  qed
qed

fun token_ok :: "RenameTokenT \<Rightarrow> bool" where
  "token_ok (RTOK_NAME (KT_UNIQUE cs)) \<longleftrightarrow> cs \<noteq> []"
| "token_ok RTOK_EOF \<longleftrightarrow> False"
| "token_ok _ \<longleftrightarrow> True"

lemma reads_token:
  assumes "list_all is_white ws" "token_ok tok"
  shows "reads_text rename_file_next_token tok (ws @ token_text tok)"
proof -
  have skip: "reads_text (rename_file_skip_white_space False) (Some c) (ws @ [c])" if "c \<in> {34, 39, 59, 91}" for c
    using that assms(1) by (intro reads_skip) (auto simp: isspace_def is_white_def)
  note next_step = reads_cong [OF rename_file_next_token.simps text_reads_bind]
  show ?thesis
  proof (cases tok)
    case (RTOK_NAME key)
    show ?thesis
    proof (cases key)
      case (KT_STRING ns)
      with RTOK_NAME show ?thesis using next_step [OF skip [of 34], of tok "esc_text ns @ [34]"] text_reads_string[of ns] by simp
    next
      case (KT_UNIQUE cs)
      with RTOK_NAME show ?thesis
        using next_step [OF skip [of 91], of tok "comps_text cs @ [93]"] reads_unique[of cs "[]"] assms(2) by simp
    qed
  next
    case (RTOK_SHAPE ns)
    then show ?thesis using next_step [OF skip [of 39], of tok "esc_text ns @ [39]"] reads_shape[of ns] by simp
  next
    case RTOK_SEMI
    then show ?thesis using next_step [OF skip [of 59], of tok "[]"] by (simp add: text_reads_ret [unfolded ret_def])
  qed (use assms(2) in simp)
qed

section \<open>Files\<close>

text \<open>\<open>m\<close> goes from the text \<open>as\<close> to its end \<open>bs\<close>.\<close>

definition goes :: "('z io_state_scheme, 'a) prog \<Rightarrow> 'a \<Rightarrow> byte list \<Rightarrow> byte list \<Rightarrow> bool" where
  "goes m x as bs \<longleftrightarrow> (\<forall>i. is_sound i \<and> is_rest i = as \<longrightarrow>
     (\<exists>j. is_sound j \<and> is_rest j = bs \<and> (\<forall>s. text_in s = i \<longrightarrow> m s = (Ret x, s\<lparr>text_in := j\<rparr>))))"

lemma reads_goes: "reads_text m x as \<Longrightarrow> goes m x (as @ bs) bs"
  by (simp add: reads_text_def goes_def)

lemma goes_ret: "goes (ret x) x as as"
  by (auto simp: goes_def ret_def)

lemma goes_cong: "(\<And>s. m s = m' s) \<Longrightarrow> goes m' x as bs \<Longrightarrow> goes m x as bs"
  by (simp add: goes_def)

lemma goes_bind:
  assumes "goes m x as bs" "goes (k x) y bs cs" shows "goes (bind m k) y as cs"
  unfolding goes_def
proof (intro allI impI)
  fix i
  assume i: "is_sound i \<and> is_rest i = as"
  with assms(1) obtain j where j: "is_sound j" "is_rest j = bs" "\<forall>s. text_in s = i \<longrightarrow> m s = (Ret x, s\<lparr>text_in := j\<rparr>)"
    unfolding goes_def by blast
  with assms(2) obtain l where l: "is_sound l" "is_rest l = cs" "\<forall>s. text_in s = j \<longrightarrow> k x s = (Ret y, s\<lparr>text_in := l\<rparr>)"
    unfolding goes_def by blast
  with j show "\<exists>j. is_sound j \<and> is_rest j = cs \<and> (\<forall>s. text_in s = i \<longrightarrow> bind m k s = (Ret y, s\<lparr>text_in := j\<rparr>))"
    by (intro exI[of _ l]) (simp add: bind_def)
qed

lemma goes_skip_eof:
  "list_all is_white ws \<Longrightarrow> goes (rename_file_skip_white_space False) None ws []"
proof (induction ws)
  case Nil
  show ?case
    unfolding goes_def
  proof (intro allI impI)
    fix i
    assume "is_sound i \<and> is_rest i = []"
    then obtain j where "istream_next i = (Ret None, j)" "is_sound j" "is_rest j = []" using istream_next_sound(2)[of i] by blast
    then show "\<exists>j. is_sound j \<and> is_rest j = [] \<and>
        (\<forall>s. text_in s = i \<longrightarrow> rename_file_skip_white_space False s = (Ret None, s\<lparr>text_in := j\<rparr>))"
      by (intro exI[of _ j]) (simp add: rename_file_skip_white_space.simps bind_def on_text_def)
  qed
next
  case (Cons w ws)
  then have ws: "list_all is_white ws" "is_white w" by simp_all
  from ws(2) have w: "w \<noteq> 0" "w \<noteq> 35" by (auto simp: is_white_def)
  note ih = Cons.IH[OF ws(1)]
  note step = goes_cong [OF rename_file_skip_white_space.simps goes_bind [OF reads_goes [OF reads_next, simplified]]]
  show ?case
  proof (cases "w = 10")
    case True
    show ?thesis
      unfolding True by (rule step) (simp, rule goes_bind [OF reads_goes [OF reads_inc_line, simplified]], rule ih)
  next
    case False
    show ?thesis by (rule step) (simp add: False w isspace_white [OF ws(2)], rule ih)
  qed
qed

lemma goes_eof:
  assumes "list_all is_white ws" shows "goes rename_file_next_token RTOK_EOF ws []"
  by (rule goes_cong [OF rename_file_next_token.simps goes_bind [OF goes_skip_eof [OF assms]]])
    (simp add: goes_ret [unfolded ret_def])

text \<open>
  The documented layout: a shape on a line of its own, below it its pairs of names, each behind a
  tab and ended by a semicolon.
\<close>

definition pair_text :: "NameKeyT \<times> NameKeyT \<Rightarrow> byte list" where
  "pair_text p = [10, 9] @ name_text (fst p) @ [32] @ name_text (snd p) @ [59]"

definition group_text :: "NStringT \<times> (NameKeyT \<times> NameKeyT) list \<Rightarrow> byte list" where
  "group_text g = [10] @ token_text (RTOK_SHAPE (fst g)) @ concat (map pair_text (snd g))"

fun key_ok :: "NameKeyT \<Rightarrow> bool" where
  "key_ok (KT_STRING ns) \<longleftrightarrow> True"
| "key_ok (KT_UNIQUE cs) \<longleftrightarrow> cs \<noteq> []"

lemma key_token_ok: "key_ok k \<Longrightarrow> token_ok (RTOK_NAME k)"
  by (cases k) simp_all

text \<open>What adding the pairs of a shape leaves in the control list.\<close>

definition group_renames :: "NStringT \<times> (NameKeyT \<times> NameKeyT) list \<Rightarrow> RenameControlT \<Rightarrow> RenameControlT" where
  "group_renames g c = (if snd g = [] then c else \<lparr>rc_shape = fst g, rc_names = rev (snd g)\<rparr> # c)"

text \<open>The control list with the pairs \<open>names\<close> of \<open>sh\<close> added to \<open>c\<close>, newest first.\<close>

definition with_names :: "NStringT \<Rightarrow> (NameKeyT \<times> NameKeyT) list \<Rightarrow> RenameControlT \<Rightarrow> RenameControlT" where
  "with_names sh names c = (if names = [] then c else \<lparr>rc_shape = sh, rc_names = names\<rparr> # c)"

lemma add_rename_fresh:
  assumes "sh \<notin> rc_shape ` set c" "a \<notin> fst ` set names" "ad_renames ad = with_names sh names c"
  shows "arg_data_add_rename sh a b ad = ret (ad\<lparr>ad_renames := with_names sh ((a, b) # names) c\<rparr>)"
proof -
  have "position (\<lambda>entry. sh = rc_shape entry) c = None" using assms(1) by (auto simp: position_None)
  with assms(2,3) show ?thesis
    by (auto simp: arg_data_add_rename_def rename_control_find_def with_names_def name_key_pair_list_add_def list_ex_iff image_iff
        nstring_copy_def split: if_splits)
qed

lemma goes_names:
  assumes tok: "goes (rename_file_next_token :: ('z io_state_scheme, _) prog) tok T T'" "\<And>k. tok \<noteq> RTOK_NAME k"
  shows "ad_renames ad = with_names sh names c \<Longrightarrow> sh \<notin> rc_shape ` set c \<Longrightarrow> distinct (map fst prs) \<Longrightarrow>
    fst ` set names \<inter> fst ` set prs = {} \<Longrightarrow> list_all (\<lambda>(a, b). key_ok a \<and> key_ok b) prs \<Longrightarrow>
    goes (rename_file_parse_names sh ad :: ('z io_state_scheme, _) prog) (ad\<lparr>ad_renames := with_names sh (rev prs @ names) c\<rparr>, tok)
      (concat (map pair_text prs) @ T) T'"
proof (induction prs arbitrary: ad names)
  case Nil
  then have "ad\<lparr>ad_renames := with_names sh names c\<rparr> = ad" by simp
  moreover have "rename_file_parse_names_loop sh ad tok s = ret (ad, tok) s" for s :: "'z io_state_scheme"
    by (cases tok) (use tok(2) in \<open>simp_all add: rename_file_parse_names_loop.simps [of sh ad] ret_def\<close>)
  ultimately show ?case
    by (auto simp: rename_file_parse_names_def intro!: goes_bind [OF tok(1)] intro: goes_cong goes_ret)
next
  case (Cons p prs)
  obtain a b where p: "p = (a, b)" by fastforce
  let ?ad = "ad\<lparr>ad_renames := with_names sh ((a, b) # names) c\<rparr>"
  let ?R = "concat (map pair_text prs) @ T"
  have ok: "token_ok (RTOK_NAME a)" "token_ok (RTOK_NAME b)" using Cons.prems(5) p by (simp_all add: key_token_ok)
  have ih: "goes (rename_file_parse_names sh ?ad :: ('z io_state_scheme, _) prog)
      (?ad\<lparr>ad_renames := with_names sh (rev prs @ (a, b) # names) c\<rparr>, tok) ?R T'"
    using Cons.prems p by (intro Cons.IH) auto
  have add: "arg_data_add_rename sh a b ad = ret ?ad"
    using Cons.prems p by (intro add_rename_fresh) auto
  note token = reads_goes [OF reads_token]
  have "goes (rename_file_parse_names_loop sh ad (RTOK_NAME a) :: ('z io_state_scheme, _) prog)
      (?ad\<lparr>ad_renames := with_names sh (rev prs @ (a, b) # names) c\<rparr>, tok) ([32] @ name_text b @ [59] @ ?R) T'"
    using token[of "[32]" "RTOK_NAME b" "[59] @ ?R"] token[of "[]" RTOK_SEMI ?R] ok(2) ih
    by (intro goes_cong [OF rename_file_parse_names_loop.simps])
      (auto simp: add is_white_def rename_file_parse_names_def intro!: goes_bind goes_ret)
  with token[of "[10, 9]" "RTOK_NAME a" "[32] @ name_text b @ [59] @ ?R"] ok(1) show ?case
    by (auto simp: rename_file_parse_names_def p pair_text_def [of "(a, b)"] is_white_def intro!: goes_bind)
qed

definition group_ok :: "NStringT \<times> (NameKeyT \<times> NameKeyT) list \<Rightarrow> bool" where
  "group_ok g \<longleftrightarrow> distinct (map fst (snd g)) \<and> list_all (\<lambda>(a, b). key_ok a \<and> key_ok b) (snd g)"

lemma group_renames_eq: "group_renames g c = with_names (fst g) (rev (snd g)) c"
  by (simp add: group_renames_def with_names_def)

lemma group_renames_shapes: "rc_shape ` set (group_renames g c) \<subseteq> insert (fst g) (rc_shape ` set c)"
  by (auto simp: group_renames_def)

text \<open>
  The first token of the rest of the file has been read ahead when \<^verbatim>\<open>rename_file_parse_1\<close> gets to it.
\<close>

lemma goes_groups:
  "distinct (map fst gs) \<Longrightarrow> fst ` set gs \<inter> rc_shape ` set c = {} \<Longrightarrow> list_all group_ok gs \<Longrightarrow>
   \<exists>tok T. goes (rename_file_next_token :: ('z io_state_scheme, _) prog) tok (concat (map group_text gs) @ [10]) T \<and>
     (\<forall>k. tok \<noteq> RTOK_NAME k) \<and>
     (\<forall>ad need. ad_renames ad = c \<longrightarrow> goes (rename_file_parse_loop ad need tok :: ('z io_state_scheme, _) prog)
        (ad\<lparr>ad_renames := fold group_renames gs c\<rparr>) T [])"
proof (induction gs arbitrary: c)
  case Nil
  have "goes (rename_file_parse_loop ad need RTOK_EOF :: ('z io_state_scheme, _) prog) (ad\<lparr>ad_renames := c\<rparr>) [] []"
    if "ad_renames ad = c" for ad need
    using that by (intro goes_cong [OF rename_file_parse_loop.simps]) (auto intro!: goes_ret [unfolded ret_def])
  with goes_eof[of "[10]"] show ?case by (intro exI[of _ RTOK_EOF] exI[of _ "[]"]) (simp add: is_white_def)
next
  case (Cons g gs)
  obtain sh prs where g: "g = (sh, prs)" by fastforce
  let ?R = "concat (map group_text gs) @ [10]"
  let ?c = "group_renames g c"
  have fresh: "fst ` set gs \<inter> rc_shape ` set ?c = {}"
  proof -
    have "C \<subseteq> insert x B \<Longrightarrow> x \<notin> A \<Longrightarrow> A \<inter> B = {} \<Longrightarrow> A \<inter> C = {}" for x :: NStringT and A B C by blast
    from this [OF group_renames_shapes] Cons.prems(1,2) show ?thesis by simp
  qed
  have gs: "distinct (map fst gs)" "list_all group_ok gs" using Cons.prems by simp_all
  obtain tok T where t: "goes (rename_file_next_token :: ('z io_state_scheme, _) prog) tok ?R T" "\<And>k. tok \<noteq> RTOK_NAME k"
    "\<And>ad need. ad_renames ad = ?c \<Longrightarrow> goes (rename_file_parse_loop ad need tok :: ('z io_state_scheme, _) prog)
        (ad\<lparr>ad_renames := fold group_renames gs ?c\<rparr>) T []"
    using Cons.IH[OF gs(1) fresh gs(2)] by blast
  have "goes (rename_file_parse_loop ad need (RTOK_SHAPE sh) :: ('z io_state_scheme, _) prog)
      (ad\<lparr>ad_renames := fold group_renames (g # gs) c\<rparr>) (concat (map pair_text prs) @ ?R) []" if "ad_renames ad = c" for ad need
  proof -
    have "goes (rename_file_parse_names sh ad :: ('z io_state_scheme, _) prog) (ad\<lparr>ad_renames := ?c\<rparr>, tok)
        (concat (map pair_text prs) @ ?R) T"
      using goes_names[OF t(1,2), of ad sh "[]" c prs] that Cons.prems g
      by (simp add: group_ok_def group_renames_eq with_names_def [of sh "[]"])
    from goes_bind[OF this, of "\<lambda>r t. case r of (arg_data, token) \<Rightarrow> rename_file_parse_loop arg_data True token t"]
      t(3)[of "ad\<lparr>ad_renames := ?c\<rparr>" True]
    show ?thesis by (intro goes_cong [OF rename_file_parse_loop.simps]) simp
  qed
  moreover have "goes (rename_file_next_token :: ('z io_state_scheme, _) prog) (RTOK_SHAPE sh)
      (group_text g @ ?R) (concat (map pair_text prs) @ ?R)"
    using reads_goes[OF reads_token[of "[10]" "RTOK_SHAPE sh"], of "concat (map pair_text prs) @ ?R"]
    by (simp add: group_text_def g is_white_def)
  ultimately show ?case by (intro exI[of _ "RTOK_SHAPE sh"] exI[of _ "concat (map pair_text prs) @ ?R"]) simp
qed

text \<open>
  C13: A rename file in the documented format is read as what it says. For any shapes, each given once,
  and any pairs of names, simple or unique and of any characters, with distinct old names within a
  shape, the text that quotes and escapes them is parsed without an error, across the boundaries of
  the input buffer, and the renames of the command line data are those pairs, by shape.
\<close>

theorem rename_file_parse_correct:
  fixes s :: "'z io_state_scheme"
  assumes "files_in s name = Some f" "if_fail f = None" "if_data f = concat (map group_text gs) @ [10]"
    and "distinct (map fst gs)" "list_all group_ok gs"
    and "ad_renames ad = []" "max_reported s < ERROR_SEVERITY_ERROR"
  shows "\<exists>i. rename_file_parse name ad s = (Ret (ad\<lparr>ad_renames := fold group_renames gs []\<rparr>), s\<lparr>text_in := i\<rparr>)"
proof -
  let ?i = "(text_in s)\<lparr>is_file := f\<lparr>if_pos := 0\<rparr>, is_buffer := [], is_line := 1, is_name := Some name\<rparr>"
  obtain j where j: "X__istream_fill_buffer ?i = (Ret (), j)" "is_sound j" "is_rest j = concat (map group_text gs) @ [10]"
    using fill_buffer_sound[of ?i] assms(2,3) by auto
  have op: "on_text (istream_open (files_in s) name) s = (Ret True, s\<lparr>text_in := j\<rparr>)"
    using assms(1) j(1) by (simp add: on_text_def istream_open_def bind_def ret_def)
  obtain tok T where t: "goes (rename_file_next_token :: ('z io_state_scheme, _) prog) tok (concat (map group_text gs) @ [10]) T"
    "goes (rename_file_parse_loop ad True tok :: ('z io_state_scheme, _) prog) (ad\<lparr>ad_renames := fold group_renames gs []\<rparr>) T []"
    using goes_groups[of gs "[]", where 'z = 'z] assms(4-6) by auto
  have "goes (rename_file_parse_1 ad :: ('z io_state_scheme, _) prog) (ad\<lparr>ad_renames := fold group_renames gs []\<rparr>)
      (concat (map group_text gs) @ [10]) []"
    unfolding rename_file_parse_1_def by (rule goes_bind [OF t(1), of "\<lambda>token. rename_file_parse_loop ad True token", OF t(2)])
  with j obtain k where k: "\<forall>s::'z io_state_scheme. text_in s = j \<longrightarrow>
      rename_file_parse_1 ad s = (Ret (ad\<lparr>ad_renames := fold group_renames gs []\<rparr>), s\<lparr>text_in := k\<rparr>)"
    unfolding goes_def by blast
  have "exit_on_error t = (Ret (), t)" if "max_reported t = max_reported s" for t :: "'z io_state_scheme"
    using assms(7) that
    by (simp add: exit_on_error_def error_max_reported_severity_def bind_def gets_def ret_def linorder_not_le [symmetric])
  with op k show ?thesis
    by (intro exI[of _ "istream_close k"]) (simp add: rename_file_parse_def bind_def gets_def ret_def on_text_def modify_def)
qed

text \<open>A file with two shapes, a name that needs escaping and a unique name.\<close>

definition sample_renames :: "(NStringT \<times> (NameKeyT \<times> NameKeyT) list) list" where
  "sample_renames = [(str ''tag'', [(KT_STRING (str ''a.b''), KT_STRING (str ''c'')), (KT_STRING [10, 34], KT_UNIQUE [str ''u'', str ''v''])]),
     (str ''token'', [])]"

definition sample_file_state :: io_state where
  "sample_file_state = (io_start [])\<lparr>files_in := [str ''r'' \<mapsto>
     \<lparr>if_data = concat (map group_text sample_renames) @ [10], if_pos = 0, if_fail = None\<rparr>]\<rparr>"

theorem rename_file_parse_correct_witness:
  "\<exists>i. rename_file_parse (str ''r'') (arg_data_init None) sample_file_state =
     (Ret ((arg_data_init None)\<lparr>ad_renames := [\<lparr>rc_shape = str ''tag'',
        rc_names = [(KT_STRING [10, 34], KT_UNIQUE [str ''u'', str ''v'']), (KT_STRING (str ''a.b''), KT_STRING (str ''c''))]\<rparr>]\<rparr>),
      sample_file_state\<lparr>text_in := i\<rparr>)"
proof -
  have "fold group_renames sample_renames [] = [\<lparr>rc_shape = str ''tag'',
      rc_names = [(KT_STRING [10, 34], KT_UNIQUE [str ''u'', str ''v'']), (KT_STRING (str ''a.b''), KT_STRING (str ''c''))]\<rparr>]"
    by (simp add: sample_renames_def group_renames_def)
  moreover have "distinct (map fst sample_renames)" "list_all group_ok sample_renames"
    by (simp_all add: sample_renames_def group_ok_def str_def)
  ultimately show ?thesis
    using rename_file_parse_correct[of sample_file_state "str ''r''" _ sample_renames "arg_data_init None"]
    by (simp add: sample_file_state_def io_start_def arg_data_init_def less_ESeverityT_def)
qed

end
