(* ===== verification/Unit_Set_File.thy ===== *)
theory Unit_Set_File
  imports Capsule_Safety Text_Input Capsule_Frame
begin

text \<open>
  The reader of a unit set file, the part of \<^verbatim>\<open>tld/src/adt/capsule.c\<close> that replaces the default unit
  sets by those the user names. Once it returns, the unit sets are what reading capsules needs them
  to be.
\<close>

section \<open>Model\<close>

text \<open>The loop up to the opening quote: the first character that is not white space.\<close>

function unit_set_skip :: "'z io_state_scheme \<Rightarrow> byte option outcome \<times> 'z io_state_scheme" where
  "unit_set_skip s = bind (on_text istream_read_char) (\<lambda>c t. case c of
       None \<Rightarrow> (Ret None, t)
     | Some c \<Rightarrow> (case isspace c of
           None \<Rightarrow> (Raise Undefined, t)
         | Some white \<Rightarrow> if white then unit_set_skip t else (Ret (Some c), t))) s"
  by pat_completeness auto
termination
  by (relation "measure text_left") (auto dest!: on_read_char)

text \<open>The loop up to the closing quote.\<close>

function unit_set_chars :: "byte list \<Rightarrow> 'z io_state_scheme \<Rightarrow> NStringT outcome \<times> 'z io_state_scheme" where
  "unit_set_chars dstring s = bind (on_text istream_read_char) (\<lambda>c t. case c of
       None \<Rightarrow> bind (error_msg ERR_FATAL) (\<lambda>_. ret dstring) t
     | Some c \<Rightarrow>
         if c = 34 then (Ret dstring, t)
         else if c = 92 then bind (on_text istream_read_escaped_char) (\<lambda>status u. case status of
             ISTREAM_STAT_READ_CHAR c \<Rightarrow> unit_set_chars (dstring @ [c]) u
           | ISTREAM_STAT_NO_CHAR \<Rightarrow> unit_set_chars dstring u
           | ISTREAM_STAT_SYNTAX_ERROR \<Rightarrow> bind (error_msg ERR_FATAL) (\<lambda>_ v. unit_set_chars dstring v) u) t
         else unit_set_chars (dstring @ [c]) t) s"
  by pat_completeness auto
termination
  by (relation "measure (\<lambda>(dstring, s). text_left s)")
    (auto dest!: on_read_char consumesD [OF consumes_on_text [OF consumes_escaped_char]] consumesD [OF consumes_error_msg])

declare unit_set_skip.simps [simp del] unit_set_chars.simps [simp del]

definition capsule_read_unit_set_name :: "('z io_state_scheme, NStringT option) prog" where
  "capsule_read_unit_set_name = bind unit_set_skip (\<lambda>c. case c of
       None \<Rightarrow> ret None
     | Some c \<Rightarrow>
         bind (if c \<noteq> 34 then error_msg ERR_FATAL else ret ()) (\<lambda>_.
         bind (unit_set_chars []) (\<lambda>dstring. ret (Some dstring))))"

lemma consumes_unit_set_skip [consumes_intros]: "consumes text_left unit_set_skip"
proof -
  have "leaves text_left s (unit_set_skip s)" for s :: "'a io_state_scheme"
  proof (induction s rule: measure_induct_rule [of text_left])
    case (less s)
    show ?case
      by (subst unit_set_skip.simps, rule leaves_bind)
        (auto intro!: consumes_intros less split: option.splits dest!: on_read_char)
  qed
  then show ?thesis by (simp add: consumes_leaves)
qed

lemma consumes_unit_set_chars [consumes_intros]: "consumes text_left (unit_set_chars dstring)"
proof -
  have "leaves text_left s (unit_set_chars dstring s)" for s :: "'a io_state_scheme"
  proof (induction s arbitrary: dstring rule: measure_induct_rule [of text_left])
    case (less s)
    show ?case
      by (subst unit_set_chars.simps, rule leaves_bind)
        (auto intro!: consumes_intros leaves_bind less leaves_consumes [OF consumes_ret] split: option.splits IStreamStatusT.splits
          dest!: on_read_char consumesD [OF consumes_on_text [OF consumes_escaped_char]] consumesD [OF consumes_error_msg])
  qed
  then show ?thesis by (simp add: consumes_leaves)
qed

lemma unit_set_skip_char: "unit_set_skip s = (Ret (Some c), t) \<Longrightarrow> text_left t < text_left s"
proof (induction s rule: unit_set_skip.induct)
  case (1 s)
  obtain d u where d: "on_text istream_read_char s = (Ret (Some d), u)"
    using 1(2) by (subst (asm) unit_set_skip.simps) (auto simp: bind_Ret_iff split: option.splits)
  note lt = on_read_char[OF d]
  show ?case
  proof (cases "isspace d")
    case None
    with "1.prems" d show ?thesis by (simp add: unit_set_skip.simps [of s] bind_def)
  next
    case (Some white)
    with "1.prems" d have r: "(if white then unit_set_skip u else (Ret (Some d), u)) = (Ret (Some c), t)"
      by (simp add: unit_set_skip.simps [of s] bind_def)
    show ?thesis
    proof (cases white)
      case True
      with 1(1)[OF d refl Some True] r lt show ?thesis by simp
    qed (use r lt in simp)
  qed
qed

lemma unit_set_name_left: "capsule_read_unit_set_name s = (Ret (Some n), t) \<Longrightarrow> text_left t < text_left s"
proof -
  assume "capsule_read_unit_set_name s = (Ret (Some n), t)"
  then obtain c u where c: "unit_set_skip s = (Ret (Some c), u)"
    and r: "bind (if c \<noteq> 34 then error_msg ERR_FATAL else ret ()) (\<lambda>_.
         bind (unit_set_chars []) (\<lambda>dstring. ret (Some dstring))) u = (Ret (Some n), t)"
    by (auto simp: capsule_read_unit_set_name_def bind_Ret_iff ret_def split: option.splits)
  have "consumes text_left (bind (if c \<noteq> 34 then error_msg ERR_FATAL else ret ()) (\<lambda>_.
         bind (unit_set_chars []) (\<lambda>dstring. ret (Some dstring))))" by (intro consumes_intros)
  from consumesD[OF this r] unit_set_skip_char[OF c] show ?thesis by simp
qed

function unit_set_names :: "NStringT list \<Rightarrow> 'z io_state_scheme \<Rightarrow> NStringT list outcome \<times> 'z io_state_scheme" where
  "unit_set_names names s = bind capsule_read_unit_set_name (\<lambda>name t. case name of
       None \<Rightarrow> (Ret names, t)
     | Some name \<Rightarrow> unit_set_names (names @ [name]) t) s"
  by pat_completeness auto
termination
  by (relation "measure (\<lambda>(names, s). text_left s)") (auto dest!: unit_set_name_left)

declare unit_set_names.simps [simp del]

text \<open>
  \<open>seen\<close> are the names before the current one, so its index is their number.
\<close>

fun capsule_check_unit_sets_loop ::
  "NStringT list \<Rightarrow> NStringT list \<Rightarrow> bool \<Rightarrow> ('z capsule_state_scheme, bool) prog" where
  "capsule_check_unit_sets_loop seen [] tld_found = ret tld_found"
| "capsule_check_unit_sets_loop seen (name # names) tld_found =
     bind (if list_ex (nstring_equal name) seen then error_msg ERR_FATAL else ret ()) (\<lambda>_.
     bind (if nstring_equal name (nstring_copy_cstring (str ''tld'')) then
             bind (modify (\<lambda>s. s\<lparr>cs_tld_index := of_nat (length seen)\<rparr>)) (\<lambda>_. ret True)
           else if nstring_equal name (nstring_copy_cstring (str ''tld2'')) then
             bind (modify (\<lambda>s. s\<lparr>cs_tld2_index := of_nat (length seen)\<rparr>)) (\<lambda>_. ret tld_found)
           else ret tld_found) (\<lambda>tld_found.
     capsule_check_unit_sets_loop (seen @ [name]) names tld_found))"

definition capsule_check_unit_sets :: "('z capsule_state_scheme, unit) prog" where
  "capsule_check_unit_sets =
     bind (modify (\<lambda>s. s\<lparr>cs_tld_index := UINT_MAX, cs_tld2_index := UINT_MAX\<rparr>)) (\<lambda>_.
     bind (gets cs_unit_sets) (\<lambda>sets. bind (defined sets) (\<lambda>sets.
     bind (capsule_check_unit_sets_loop [] (map us_name sets) False) (\<lambda>tld_found.
     if \<not> tld_found then error_msg ERR_FATAL else ret ()))))"

definition capsule_read_unit_set_file_1 :: "('z capsule_state_scheme, unit) prog" where
  "capsule_read_unit_set_file_1 =
     bind (unit_set_names []) (\<lambda>names.
     bind (modify (\<lambda>s. s\<lparr>cs_unit_sets := Some (map (\<lambda>name. \<lparr>us_name = nstring_assign name, us_entry = None\<rparr>) names)\<rparr>)) (\<lambda>_.
     capsule_check_unit_sets))"

definition capsule_read_unit_set_file :: "cstring \<Rightarrow> ('z capsule_state_scheme, unit) prog" where
  "capsule_read_unit_set_file name =
     bind (gets cs_unit_sets) (\<lambda>sets. bind (check (sets = None)) (\<lambda>_.
     bind (gets files_in) (\<lambda>fs. bind (on_text (istream_open fs name)) (\<lambda>ok.
     bind (if \<not> ok then error_msg ERR_FATAL else ret ()) (\<lambda>_.
     bind capsule_read_unit_set_file_1 (\<lambda>_.
     on_text (modify istream_close)))))))"

section \<open>Safety of text input\<close>

text \<open>The stream is inside its buffer, whose last character is null, and all characters have seven bits.\<close>

definition seven_bits :: "byte list \<Rightarrow> bool" where
  "seven_bits cs \<longleftrightarrow> (\<forall>c\<in>set cs. c < 128)"

definition is_safe :: "IStreamT \<Rightarrow> bool" where
  "is_safe i \<longleftrightarrow> is_current i < length (is_buffer i) \<and> last (is_buffer i) = 0 \<and>
     seven_bits (is_buffer i) \<and> seven_bits (if_data (is_file i))"

text \<open>What is read can be given to \<^verbatim>\<open>isspace\<close>.\<close>

definition is_char :: "byte option \<Rightarrow> bool" where
  "is_char x \<longleftrightarrow> (\<forall>c. x = Some c \<longrightarrow> isspace c \<noteq> None)"

abbreviation no_ub :: "exn \<Rightarrow> 's \<Rightarrow> bool" where
  "no_ub \<equiv> \<lambda>e _. e \<noteq> Undefined"

definition runs :: "'a outcome \<times> 's \<Rightarrow> ('a \<Rightarrow> 's \<Rightarrow> bool) \<Rightarrow> (exn \<Rightarrow> 's \<Rightarrow> bool) \<Rightarrow> bool" where
  "runs r Q X \<longleftrightarrow> (case r of (Ret x, t) \<Rightarrow> Q x t | (Raise e, t) \<Rightarrow> X e t)"

lemma runs_simps [simp]: "runs (Ret x, t) Q X = Q x t" "runs (Raise e, t) Q X = X e t"
  by (simp_all add: runs_def)

lemma valid_runs: "valid P m Q X \<longleftrightarrow> (\<forall>s. P s \<longrightarrow> runs (m s) Q X)"
  by (simp add: valid_def runs_def)

lemma runs_valid: "valid P m Q X \<Longrightarrow> P s \<Longrightarrow> runs (m s) Q X"
  by (simp add: valid_runs)

lemma runs_bind:
  assumes "valid P m R X" "P s" "\<And>x t. m s = (Ret x, t) \<Longrightarrow> R x t \<Longrightarrow> runs (k x t) Q X"
  shows "runs (bind m k s) Q X"
  using assms(1) assms(2) assms(3) by (fastforce simp: valid_runs bind_def split: prod.splits outcome.splits dest!: spec [of _ s])

lemma fill_buffer_safe:
  assumes "seven_bits (if_data (is_file i))" shows "runs (X__istream_fill_buffer i) (\<lambda>_. is_safe) no_ub"
  using assms
  by (auto simp: X__istream_fill_buffer_def is_safe_def fread_def Let_def seven_bits_def split: prod.splits
      dest!: in_set_takeD in_set_dropD)

lemma next_safe: "valid is_safe istream_next (\<lambda>x i. is_safe i \<and> is_char x) no_ub"
proof -
  have "is_safe i \<Longrightarrow> runs (istream_next i) (\<lambda>x i. is_safe i \<and> is_char x) no_ub" for i
  proof (induction i rule: istream_next.induct)
    case (1 i)
    let ?j = "i\<lparr>is_read_last := True, is_current := is_current i + 1\<rparr>"
    have r: "ISTREAM_READ_CHAR i = (Ret (is_buffer i ! is_current i), ?j)"
      using 1(2) by (simp add: is_safe_def ISTREAM_READ_CHAR_def)
    have bits: "is_buffer i ! is_current i < 128" using 1(2) by (simp add: is_safe_def seven_bits_def)
    show ?case
    proof (cases "is_buffer i ! is_current i = 0")
      case False
      moreover from this 1(2) have "is_current i + 1 \<noteq> length (is_buffer i)"
        by (metis add_diff_cancel_right' is_safe_def last_conv_nth length_0_conv not_less0)
      ultimately show ?thesis using 1(2) r bits by (simp add: istream_next.simps [of i] bind_def is_safe_def is_char_def isspace_def)
    next
      case True
      obtain e k where h: "ISTREAM_HANDLE_NULL ?j = (e, k)" by fastforce
      have n: "istream_next i = (case e of Raise x \<Rightarrow> (Raise x, k) | Ret Null_Char \<Rightarrow> (Ret (Some 0), k)
          | Ret Redo \<Rightarrow> istream_next k | Ret Eof \<Rightarrow> (Ret None, k))"
        using r True h by (simp add: istream_next.simps [of i] bind_def split: outcome.splits null_exit.splits)
      have "seven_bits (if_data (is_file ?j))" using 1(2) by (simp add: is_safe_def)
      with h 1(2) fill_buffer_safe[of ?j] have k: "runs (e, k) (\<lambda>_. is_safe) no_ub"
        by (auto simp: ISTREAM_HANDLE_NULL_def is_safe_def bind_def ret_def split: if_splits prod.splits outcome.splits)
      show ?thesis
      proof (cases e)
        case (Ret x)
        with k 1(1)[OF r True h [unfolded Ret]] n show ?thesis by (cases x) (simp_all add: is_char_def isspace_def)
      qed (use k n in simp)
    qed
  qed
  then show ?thesis by (simp add: valid_runs)
qed

lemma inc_line_safe [simp]: "is_safe (istream_inc_line i) = is_safe i"
  by (simp add: is_safe_def istream_inc_line_def)

lemma valid_option: "(x = None \<Longrightarrow> valid P m Q X) \<Longrightarrow> (\<And>y. x = Some y \<Longrightarrow> valid P (k y) Q X) \<Longrightarrow>
    valid P (case x of None \<Rightarrow> m | Some y \<Rightarrow> k y) Q X"
  by (cases x) simp_all

lemmas text_valid = valid_option valid_if valid_ret valid_modify valid_bind [where R = "\<lambda>_. is_safe"] valid_post [OF next_safe]

lemma read_char_safe: "valid is_safe istream_read_char (\<lambda>x i. is_safe i \<and> is_char x) no_ub"
  unfolding istream_read_char_def
  by (rule valid_bind [OF next_safe]) (intro valid_if valid_ret valid_bind [where R = "\<lambda>_ i. is_safe i \<and> is_char x" for x] valid_modify; simp)

lemma escaped_char_safe: "valid is_safe istream_read_escaped_char (\<lambda>_. is_safe) no_ub"
proof -
  have d: "valid is_safe istream_read_hex_digit (\<lambda>_. is_safe) no_ub"
    unfolding istream_read_hex_digit_def by (intro text_valid) simp_all
  have "valid is_safe istream_read_hex_char (\<lambda>_. is_safe) no_ub"
    unfolding istream_read_hex_char_def by (intro text_valid d) simp_all
  then show ?thesis unfolding istream_read_escaped_char_def by (intro text_valid) simp_all
qed

text \<open>The same on the whole state, with an invariant \<open>I\<close> that text input does not touch.\<close>

definition text_frame :: "('z io_state_scheme \<Rightarrow> bool) \<Rightarrow> bool" where
  "text_frame I \<longleftrightarrow> frame_err I \<and> (\<forall>s i. I s \<longrightarrow> I (s\<lparr>text_in := i\<rparr>))"

definition texting :: "('z io_state_scheme \<Rightarrow> bool) \<Rightarrow> 'z io_state_scheme \<Rightarrow> bool" where
  "texting I s \<longleftrightarrow> I s \<and> is_safe (text_in s)"

lemma valid_on_text:
  assumes "text_frame I" "valid is_safe m (\<lambda>x i. is_safe i \<and> R x) no_ub"
  shows "valid (texting I) (on_text m) (\<lambda>x s. texting I s \<and> R x) no_ub"
  using assms unfolding valid_def texting_def text_frame_def on_text_def
  by (fastforce split: prod.splits outcome.splits)

lemma valid_text_error:
  assumes "text_frame I" shows "valid (texting I) (error_msg e) (\<lambda>_. texting I) no_ub"
proof -
  have "frame_err (texting I)" using assms by (simp add: frame_err_def text_frame_def texting_def)
  from valid_keeps[OF keeps_error_msg[OF this, of e]] have k: "valid (texting I) (error_msg e) (\<lambda>_. texting I) (\<lambda>_. texting I)" .
  have "error_msg e s \<noteq> (Raise Undefined, t)" for s t
    by (cases e) (auto simp: error_msg_def bind_def prog_simps split: if_splits)
  with validD[OF k] show ?thesis by (fastforce intro: validI)
qed

locale text_invariant =
  fixes I :: "'z io_state_scheme \<Rightarrow> bool"
  assumes text_frame: "text_frame I"
begin

lemma skip_safe: "valid (texting I) unit_set_skip (\<lambda>_. texting I) no_ub"
proof -
  have "texting I s \<Longrightarrow> runs (unit_set_skip s) (\<lambda>_. texting I) no_ub" for s
  proof (induction s rule: measure_induct_rule [of text_left])
    case (less s)
    show ?case
      by (subst unit_set_skip.simps, rule runs_bind [OF valid_on_text [OF text_frame read_char_safe] less.prems])
        (auto split: option.splits intro!: less.IH dest!: on_read_char simp: is_char_def)
  qed
  then show ?thesis by (simp add: valid_runs)
qed

lemma chars_safe: "valid (texting I) (unit_set_chars dstring) (\<lambda>_. texting I) no_ub"
proof -
  note err = valid_text_error [OF text_frame]
  have escaped_safe: "valid is_safe istream_read_escaped_char (\<lambda>x i. is_safe i \<and> True) no_ub"
    using escaped_char_safe by simp
  have "texting I s \<Longrightarrow> runs (unit_set_chars dstring s) (\<lambda>_. texting I) no_ub" for s
  proof (induction s arbitrary: dstring rule: measure_induct_rule [of text_left])
    case (less s)
    have e: "runs (bind (error_msg ERR_FATAL) (\<lambda>_. ret d) t) (\<lambda>_. texting I) no_ub" if "texting I t" for d t
      by (rule runs_bind [OF err that]) (simp add: ret_def)
    have b: "runs (bind (on_text istream_read_escaped_char) (\<lambda>status u. case status of
             ISTREAM_STAT_READ_CHAR c \<Rightarrow> unit_set_chars (dstring @ [c]) u
           | ISTREAM_STAT_NO_CHAR \<Rightarrow> unit_set_chars dstring u
           | ISTREAM_STAT_SYNTAX_ERROR \<Rightarrow> bind (error_msg ERR_FATAL) (\<lambda>_ v. unit_set_chars dstring v) u) t) (\<lambda>_. texting I) no_ub"
      if "texting I t" "text_left t < text_left s" for t
    proof (rule runs_bind [OF valid_on_text [OF text_frame escaped_safe] that(1)])
      fix status u
      assume u0: "on_text istream_read_escaped_char t = (Ret status, u)" "texting I u \<and> True"
      then have u: "on_text istream_read_escaped_char t = (Ret status, u)" "texting I u" by simp_all
      then have l: "text_left u < text_left s"
        using consumesD[OF consumes_on_text[OF consumes_escaped_char] u(1)] that(2) by simp
      have "runs (bind (error_msg ERR_FATAL) (\<lambda>_ v. unit_set_chars dstring v) u) (\<lambda>_. texting I) no_ub"
        by (rule runs_bind [OF err u(2)]) (use l in \<open>auto intro!: less.IH dest!: consumesD [OF consumes_error_msg]\<close>)
      with less.IH[OF l u(2)] show "runs (case status of
             ISTREAM_STAT_READ_CHAR c \<Rightarrow> unit_set_chars (dstring @ [c]) u
           | ISTREAM_STAT_NO_CHAR \<Rightarrow> unit_set_chars dstring u
           | ISTREAM_STAT_SYNTAX_ERROR \<Rightarrow> bind (error_msg ERR_FATAL) (\<lambda>_ v. unit_set_chars dstring v) u) (\<lambda>_. texting I) no_ub"
        by (cases status) simp_all
    qed
    show ?case
      by (subst unit_set_chars.simps, rule runs_bind [OF valid_on_text [OF text_frame read_char_safe] less.prems])
        (auto split: option.splits intro!: less.IH e b dest!: on_read_char)
  qed
  then show ?thesis by (simp add: valid_runs)
qed

lemma name_safe: "valid (texting I) capsule_read_unit_set_name (\<lambda>_. texting I) no_ub"
  unfolding capsule_read_unit_set_name_def
  by (intro valid_bind [where R = "\<lambda>_. texting I"] skip_safe chars_safe valid_option valid_if valid_ret valid_text_error text_frame)

lemma names_safe: "valid (texting I) (unit_set_names names) (\<lambda>_. texting I) no_ub"
proof -
  have "texting I s \<Longrightarrow> runs (unit_set_names names s) (\<lambda>_. texting I) no_ub" for s
  proof (induction s arbitrary: names rule: measure_induct_rule [of text_left])
    case (less s)
    show ?case
      by (subst unit_set_names.simps, rule runs_bind [OF name_safe less.prems])
        (auto split: option.splits intro!: less.IH dest!: unit_set_name_left)
  qed
  then show ?thesis by (simp add: valid_runs)
qed

end

text \<open>Every name takes up some of the text.\<close>

lemma names_length:
  "unit_set_names names s = (Ret ns, t) \<Longrightarrow> length ns \<le> length names + text_left s"
proof (induction names s arbitrary: ns t rule: unit_set_names.induct)
  case (1 names s)
  from 1(2) obtain x u where n: "capsule_read_unit_set_name s = (Ret x, u)"
    and r: "(case x of None \<Rightarrow> (Ret names, u) | Some name \<Rightarrow> unit_set_names (names @ [name]) u) = (Ret ns, t)"
    by (subst (asm) unit_set_names.simps) (auto simp: bind_Ret_iff)
  show ?case
  proof (cases x)
    case None
    with r show ?thesis by simp
  next
    case (Some name)
    with 1(1)[OF n Some] r unit_set_name_left[of s name u] n show ?thesis by fastforce
  qed
qed

section \<open>The unit sets that were read\<close>

definition before_reading :: "'z capsule_state_scheme \<Rightarrow> bool" where
  "before_reading s \<longleftrightarrow> cs_need_setup s \<and> rd_ok (reader s) \<and> shapes_safe (cs_shapes s) \<and> cs_units s = unit_table_create"

interpretation before: text_invariant before_reading
  by unfold_locales (simp add: text_frame_def frame_err_def before_reading_def)

lemma unat_length_less: "n < 2 ^ 32 \<Longrightarrow> unat (of_nat n :: cuint) = n"
  by (simp add: unat_of_nat)

definition tld_at :: "NStringT list \<Rightarrow> bool \<Rightarrow> 'z capsule_state_scheme \<Rightarrow> bool" where
  "tld_at names found s \<longleftrightarrow>
     (found \<longrightarrow> unat (cs_tld_index s) < length names \<and> names ! unat (cs_tld_index s) = str ''tld'') \<and>
     (cs_tld2_index s = UINT_MAX \<or> unat (cs_tld2_index s) < length names)"

lemma tld_at_append: "tld_at names found s \<Longrightarrow> tld_at (names @ ns) found s"
  by (auto simp: tld_at_def nth_append)

lemma check_unit_sets_loop_runs:
  "length (seen @ names) < 2 ^ 32 \<Longrightarrow> distinct seen \<Longrightarrow> tld_at seen found s \<Longrightarrow>
     runs (capsule_check_unit_sets_loop seen names found s) (\<lambda>found t. distinct (seen @ names) \<and> tld_at (seen @ names) found t \<and>
       (\<exists>a b. t = s\<lparr>cs_tld_index := a, cs_tld2_index := b\<rparr>)) no_ub"
proof (induction names arbitrary: seen found s)
  case Nil
  have "\<exists>a b. s = s\<lparr>cs_tld_index := a, cs_tld2_index := b\<rparr>"
    by (intro exI[of _ "cs_tld_index s"] exI[of _ "cs_tld2_index s"]) simp
  with Nil show ?case by (simp add: ret_def)
next
  case (Cons name names)
  show ?case
  proof (cases "name \<in> set seen")
    case True
    then show ?thesis by (simp add: bind_def list_ex_iff error_msg_fatal)
  next
    case False
    have len: "unat (of_nat (length seen) :: cuint) = length seen" using Cons.prems(1) by (intro unat_length_less) simp
    define found' where "found' = (found \<or> name = str ''tld'')"
    define s' where "s' = (if name = str ''tld'' then s\<lparr>cs_tld_index := of_nat (length seen)\<rparr>
      else if name = str ''tld2'' then s\<lparr>cs_tld2_index := of_nat (length seen)\<rparr> else s)"
    have eq: "capsule_check_unit_sets_loop seen (name # names) found s = capsule_check_unit_sets_loop (seen @ [name]) names found' s'"
      using False by (auto simp: bind_def list_ex_iff ret_def modify_def found'_def s'_def)
    have "tld_at (seen @ [name]) found' s'"
      using Cons.prems(3) len by (auto simp: tld_at_def found'_def s'_def nth_append)
    then have ih: "runs (capsule_check_unit_sets_loop (seen @ [name]) names found' s')
       (\<lambda>found t. distinct ((seen @ [name]) @ names) \<and> tld_at ((seen @ [name]) @ names) found t \<and>
       (\<exists>a b. t = s'\<lparr>cs_tld_index := a, cs_tld2_index := b\<rparr>)) no_ub"
      using Cons.prems False by (intro Cons.IH) auto
    have "\<exists>a' b'. s'\<lparr>cs_tld_index := a, cs_tld2_index := b\<rparr> = s\<lparr>cs_tld_index := a', cs_tld2_index := b'\<rparr>" for a b
      by (intro exI[of _ a] exI[of _ b]) (simp add: s'_def)
    with ih show ?thesis unfolding eq by (fastforce simp: runs_def split: prod.splits outcome.splits)
  qed
qed

lemma capsule_ready_text: "capsule_ready (u\<lparr>text_in := k\<rparr>) = capsule_ready u"
  by (simp add: capsule_ready_def capsule_inv_def sets_ok_def)

text \<open>What the linker knows of the unit sets once the file that lists them has been read.\<close>

definition sets_checked :: "'z capsule_state_scheme \<Rightarrow> bool" where
  "sets_checked t = (capsule_ready t \<and> (\<exists>sets. cs_unit_sets t = Some sets \<and> distinct (map us_name sets) \<and>
     map us_name sets ! unat (cs_tld_index t) = str ''tld''))"

abbreviation fresh_sets :: "byte list list \<Rightarrow> UnitSetT list" where
  "fresh_sets names \<equiv> map (\<lambda>name. \<lparr>us_name = nstring_assign name, us_entry = None\<rparr>) names"

lemma check_unit_sets_runs:
  assumes "before_reading t" "cs_unit_sets t = Some (fresh_sets names)" "length names < 2 ^ 32"
  shows "runs (capsule_check_unit_sets t) (\<lambda>_. sets_checked) no_ub"
proof -
  let ?u = "t\<lparr>cs_tld_index := UINT_MAX, cs_tld2_index := UINT_MAX\<rparr>"
  have names: "map us_name (fresh_sets names) = names"
    by (simp add: comp_def nstring_assign_def)
  have "runs (capsule_check_unit_sets_loop [] names False ?u) (\<lambda>found v. distinct names \<and> tld_at names found v \<and>
      (\<exists>a b. v = ?u\<lparr>cs_tld_index := a, cs_tld2_index := b\<rparr>)) no_ub"
    using check_unit_sets_loop_runs[of "[]" names False ?u] assms(3) by (simp add: tld_at_def)
  then show ?thesis
    using assms(1,2) names
    by (auto simp: capsule_check_unit_sets_def bind_def gets_def modify_def ret_def error_msg_fatal runs_def tld_at_def
        before_reading_def capsule_ready_def sets_checked_def split: prod.splits outcome.splits)
qed

lemma read_unit_set_file_1_runs:
  assumes "texting before_reading t" "text_left t < 2 ^ 32"
  shows "runs (capsule_read_unit_set_file_1 t) (\<lambda>_. sets_checked) no_ub"
  unfolding capsule_read_unit_set_file_1_def
proof (rule runs_bind [OF before.names_safe assms(1)])
  fix names u
  assume n: "unit_set_names [] t = (Ret names, u)" "texting before_reading u"
  let ?v = "u\<lparr>cs_unit_sets := Some (fresh_sets names)\<rparr>"
  have "length names < 2 ^ 32" using names_length[OF n(1)] assms(2) by simp
  moreover have "before_reading ?v" using n(2) by (simp add: texting_def before_reading_def)
  ultimately show "runs (bind (modify (\<lambda>s. s\<lparr>cs_unit_sets := Some (fresh_sets names)\<rparr>))
      (\<lambda>_. capsule_check_unit_sets) u) (\<lambda>_. sets_checked) no_ub"
    using check_unit_sets_runs[of ?v names] by (simp add: bind_def modify_def)
qed


text \<open>
  A character of eight bits before a name is given to \<^verbatim>\<open>isspace\<close> as a negative number.
\<close>

lemma eight_bits_undefined:
  assumes "on_text istream_read_char s = (Ret (Some c), t)" "128 \<le> c" "c \<noteq> 255"
  shows "unit_set_skip s = (Raise Undefined, t)"
proof -
  have "\<not> c < 128" using assms(2) by (simp only: not_less)
  with assms(1,3) show ?thesis by (simp add: unit_set_skip.simps [of s] bind_def isspace_def)
qed

text \<open>A file with the unit sets \<open>a\<close> and \<open>tld\<close>.\<close>

definition unit_set_start :: capsule_state where
  "unit_set_start =
     \<lparr>exit_status = False, number_errors = 0, max_reported = ERROR_SEVERITY_INFORMATION,
      files_in = [str ''u'' \<mapsto> \<lparr>if_data = str '' \"a\" \"tld\"'', if_pos = 0, if_fail = None\<rparr>], files_out = Map.empty,
      reader = \<lparr>rd_u = RT_STRING \<lparr>rs_contents = [], rs_current = 0, rs_limit = 0, rs_name = [], rs_byte = 0\<rparr>, rd_byte = 0, rd_new_byte = True\<rparr>,
      writer = \<lparr>wr_bostream = \<lparr>bo_file = \<lparr>of_data = [], of_limit = None\<rparr>, bo_name = None\<rparr>, wr_byte = 0, wr_new_byte = True\<rparr>,
      text_in = \<lparr>is_file = \<lparr>if_data = [], if_pos = 0, if_fail = None\<rparr>, is_buffer = [], is_current = 0, is_line = 0,
        is_name = None, is_read_last = False\<rparr>, written = [],
      cs_units = unit_table_create, cs_shapes = shape_table_create, cs_capsules = [],
      cs_need_setup = True, cs_unit_sets = None, cs_tld_index = 0, cs_tld2_index = 1, cs_unit_length = 0,
      cs_unit_offset = 0, cs_major_version = 0, cs_minor_version = 0\<rparr>"


end
