(* ===== verification/Arg_Parse.thy ===== *)
theory Arg_Parse
  imports Tables Exds_Ostream
begin

text \<open>
  Named strings of \<^verbatim>\<open>libexds/src/error.c\<close> and the command line parser \<^verbatim>\<open>tld/src/arg-parse.c\<close>. An
  option list is the list of the entries in front of \<^verbatim>\<open>ARG_PARSE_END_LIST\<close>. The type of an option and
  the procedure that handles it are one value, because the type says what the procedure is called with.
\<close>

section \<open>Named strings\<close>

record EStringT =
  es_name :: cstring
  es_contents :: cstring

definition STRING_TABLE_SIZE :: nat where
  "STRING_TABLE_SIZE = 127"

definition string_slot :: "cstring \<Rightarrow> nat" where
  "string_slot name = unat (cstring_hash_value name mod of_nat STRING_TABLE_SIZE)"

definition error_lookup_string :: "EStringT table \<Rightarrow> cstring \<Rightarrow> nat option" where
  "error_lookup_string string_table name =
     chain_find (\<lambda>e. es_name e = name) (entries string_table) (contents string_table ! string_slot name)"

text \<open>Defining a string twice fails an assertion.\<close>

definition error_define_string :: "cstring \<Rightarrow> cstring \<Rightarrow> EStringT table \<Rightarrow> (nat \<times> EStringT table) option" where
  "error_define_string name cont string_table =
     (case error_lookup_string string_table name of
        Some r \<Rightarrow> None
      | None \<Rightarrow>
          (let (entry, string_table) = table_alloc \<lparr>es_name = name, es_contents = cont\<rparr> string_table in
           Some (entry, table_append (string_slot name) entry string_table)))"

fun error_intern_strings :: "(cstring \<times> cstring) list \<Rightarrow> EStringT table \<Rightarrow> EStringT table option" where
  "error_intern_strings [] string_table = Some string_table"
| "error_intern_strings ((name, cont) # vector) string_table =
     (case error_define_string name cont string_table of
        None \<Rightarrow> None
      | Some (estring, string_table) \<Rightarrow> error_intern_strings vector string_table)"

definition error_redefine_string :: "cstring \<Rightarrow> cstring \<Rightarrow> EStringT table \<Rightarrow> bool \<times> EStringT table" where
  "error_redefine_string name cont string_table =
     (case error_lookup_string string_table name of
        Some r \<Rightarrow> (True, table_set r ((entries string_table ! r)\<lparr>es_contents := cont\<rparr>) string_table)
      | None \<Rightarrow> (False, string_table))"

definition error_string_contents :: "EStringT table \<Rightarrow> nat \<Rightarrow> cstring" where
  "error_string_contents string_table estring = es_contents (entries string_table ! estring)"

interpretation string_tbl: chained_table es_name string_slot STRING_TABLE_SIZE table_append error_lookup_string
proof
  show "string_slot k < STRING_TABLE_SIZE" for k
    using word_mod_less_divisor[of "of_nat STRING_TABLE_SIZE :: cuint" "cstring_hash_value k"]
    by (simp add: string_slot_def STRING_TABLE_SIZE_def word_less_nat_alt)
qed (simp_all add: contents_append error_lookup_string_def)

section \<open>Options\<close>

text \<open>What \<^verbatim>\<open>write_arg_usage\<close> prints: the usage string and the names and descriptions of the options.\<close>

record ArgUsageT =
  au_usage :: cstring
  au_options :: "(cstring option \<times> byte \<times> cstring) list"

datatype 's ArgTypeT =
    AT_SWITCH "bool \<Rightarrow> 's \<Rightarrow> 's"
  | AT_NEG_SWITCH "bool \<Rightarrow> 's \<Rightarrow> 's"
  | AT_PROC_SWITCH "cstring \<Rightarrow> ArgUsageT \<Rightarrow> bool \<Rightarrow> ('s, unit) prog"
  | AT_IMMEDIATE "cstring \<Rightarrow> ArgUsageT \<Rightarrow> cstring \<Rightarrow> ('s, unit) prog"
  | AT_EITHER "cstring \<Rightarrow> ArgUsageT \<Rightarrow> cstring \<Rightarrow> ('s, unit) prog"
  | AT_FOLLOWING "cstring \<Rightarrow> ArgUsageT \<Rightarrow> cstring \<Rightarrow> ('s, unit) prog"
  | AT_EMPTY "cstring \<Rightarrow> ArgUsageT \<Rightarrow> ('s, unit) prog"
  | AT_FOLLOWING2 "cstring \<Rightarrow> ArgUsageT \<Rightarrow> cstring \<Rightarrow> cstring \<Rightarrow> ('s, unit) prog"
  | AT_FOLLOWING3 "cstring \<Rightarrow> ArgUsageT \<Rightarrow> cstring \<Rightarrow> cstring \<Rightarrow> cstring \<Rightarrow> ('s, unit) prog"

text \<open>The description is the name of a named string until the list has been interned, then its contents.\<close>

record 's ArgListT =
  al_name :: "cstring option"
  al_short_name :: byte
  al_type :: "'s ArgTypeT"
  al_u :: cstring

fun arg_parse_intern_descriptions :: "EStringT table \<Rightarrow> 's ArgListT list \<Rightarrow> 's ArgListT list option" where
  "arg_parse_intern_descriptions string_table [] = Some []"
| "arg_parse_intern_descriptions string_table (arg # arg_list) =
     (case error_lookup_string string_table (al_u arg) of
        None \<Rightarrow> None
      | Some estring \<Rightarrow> map_option (\<lambda>rest. arg\<lparr>al_u := error_string_contents string_table estring\<rparr> # rest)
          (arg_parse_intern_descriptions string_table arg_list))"

definition arg_usage :: "cstring \<Rightarrow> 's ArgListT list \<Rightarrow> ArgUsageT" where
  "arg_usage usage arg_list =
     \<lparr>au_usage = usage, au_options = map (\<lambda>arg. (al_name arg, al_short_name arg, al_u arg)) arg_list\<rparr>"

text \<open>
  The comparison of a long option with the name of an entry: the two characters at which it stops
  (none for the end of the string) and what is left of the option there.
\<close>

fun arg_compare :: "cstring \<Rightarrow> cstring \<Rightarrow> byte option \<times> byte option \<times> cstring" where
  "arg_compare [] arg = (None, (case arg of [] \<Rightarrow> None | argch # _ \<Rightarrow> Some argch), arg)"
| "arg_compare (optch # opt) [] = (Some optch, None, [])"
| "arg_compare (optch # opt) (argch # arg) =
     (if optch = argch then arg_compare opt arg else (Some optch, Some argch, argch # arg))"

definition takes_immediate :: "'s ArgTypeT \<Rightarrow> bool" where
  "takes_immediate type = (case type of AT_IMMEDIATE _ \<Rightarrow> True | AT_EITHER _ \<Rightarrow> True | _ \<Rightarrow> False)"

text \<open>The search for a long option: the entry chosen, the number of matches and the immediate argument.\<close>

fun arg_find_long ::
  "'s ArgListT list \<Rightarrow> cstring \<Rightarrow> 's ArgListT option \<Rightarrow> nat \<Rightarrow> 's ArgListT option \<times> nat \<times> cstring option" where
  "arg_find_long [] arg chosen matches = (chosen, matches, None)"
| "arg_find_long (tmp # tmp_list) arg chosen matches =
     (case al_name tmp of
        None \<Rightarrow> arg_find_long tmp_list arg chosen matches
      | Some opt \<Rightarrow>
          (case arg_compare opt arg of (optch, argch, rest) \<Rightarrow>
             if optch = argch then (Some tmp, 1, Some rest)
             else if optch = None \<and> takes_immediate (al_type tmp) then (Some tmp, 1, Some rest)
             else if argch = None then arg_find_long tmp_list arg (Some tmp) (matches + 1)
             else arg_find_long tmp_list arg chosen matches))"

definition arg_error :: "('z error_state_scheme, 'a) prog" where
  "arg_error = bind (error_msg ERR_FATAL) (\<lambda>_. raise Undefined)"

text \<open>
  The two switches over the type of the chosen option. \<open>c\<close> is the character in front of the option,
  \<open>rest\<close> the arguments behind it; the result is the arguments that are left.
\<close>

definition arg_long ::
  "byte \<Rightarrow> cstring \<Rightarrow> ArgUsageT \<Rightarrow> 'z error_state_scheme ArgTypeT \<Rightarrow> cstring option \<Rightarrow> cstring list
     \<Rightarrow> ('z error_state_scheme, cstring list) prog" where
  "arg_long c option closure type immediate rest =
     (case type of
        AT_SWITCH set_to \<Rightarrow> bind (modify (set_to (c = 45))) (\<lambda>_. ret rest)
      | AT_NEG_SWITCH set_to \<Rightarrow> bind (modify (set_to (c = 43))) (\<lambda>_. ret rest)
      | AT_PROC_SWITCH proc \<Rightarrow> bind (proc option closure (c = 45)) (\<lambda>_. ret rest)
      | AT_IMMEDIATE proc \<Rightarrow>
          (case immediate of
             Some arg \<Rightarrow> bind (proc option closure arg) (\<lambda>_. ret rest)
           | None \<Rightarrow> arg_error)
      | AT_EITHER proc \<Rightarrow>
          (case immediate of
             Some (ch # arg) \<Rightarrow> bind (proc option closure (ch # arg)) (\<lambda>_. ret rest)
           | Some [] \<Rightarrow> (case rest of a # rest' \<Rightarrow> bind (proc option closure a) (\<lambda>_. ret rest') | _ \<Rightarrow> arg_error)
           | None \<Rightarrow> arg_error)
      | AT_FOLLOWING proc \<Rightarrow>
          (case rest of a # rest' \<Rightarrow> bind (proc option closure a) (\<lambda>_. ret rest') | _ \<Rightarrow> arg_error)
      | AT_EMPTY proc \<Rightarrow> bind (proc option closure) (\<lambda>_. ret rest)
      | AT_FOLLOWING2 proc \<Rightarrow>
          (case rest of a # b # rest' \<Rightarrow> bind (proc option closure a b) (\<lambda>_. ret rest') | _ \<Rightarrow> arg_error)
      | AT_FOLLOWING3 proc \<Rightarrow>
          (case rest of a # b # d # rest' \<Rightarrow> bind (proc option closure a b d) (\<lambda>_. ret rest') | _ \<Rightarrow> arg_error))"

text \<open>The loop over a cluster of short options; \<open>opt\<close> is the position in the cluster.\<close>

fun arg_short ::
  "byte \<Rightarrow> ArgUsageT \<Rightarrow> 'z error_state_scheme ArgListT list \<Rightarrow> cstring \<Rightarrow> cstring list
     \<Rightarrow> ('z error_state_scheme, cstring list) prog" where
  "arg_short c closure arg_list [] rest = ret rest"
| "arg_short c closure arg_list (ch # opt) rest =
     (case find (\<lambda>tmp. al_short_name tmp = ch) arg_list of
        None \<Rightarrow> arg_error
      | Some chosen \<Rightarrow>
          (case al_type chosen of
             AT_SWITCH set_to \<Rightarrow> bind (modify (set_to (c = 45))) (\<lambda>_. arg_short c closure arg_list opt rest)
           | AT_NEG_SWITCH set_to \<Rightarrow> bind (modify (set_to (c = 43))) (\<lambda>_. arg_short c closure arg_list opt rest)
           | AT_PROC_SWITCH proc \<Rightarrow>
               bind (proc (ch # opt) closure (c = 45)) (\<lambda>_. arg_short c closure arg_list opt rest)
           | AT_IMMEDIATE proc \<Rightarrow> bind (proc (ch # opt) closure opt) (\<lambda>_. ret rest)
           | AT_EITHER proc \<Rightarrow>
               if opt \<noteq> [] then bind (proc (ch # opt) closure opt) (\<lambda>_. ret rest)
               else (case rest of a # rest' \<Rightarrow> bind (proc (ch # opt) closure a) (\<lambda>_. ret rest') | _ \<Rightarrow> arg_error)
           | AT_FOLLOWING proc \<Rightarrow>
               (case rest of a # rest' \<Rightarrow>
                  bind (proc (ch # opt) closure a) (\<lambda>_. arg_short c closure arg_list opt rest')
                | _ \<Rightarrow> arg_error)
           | AT_EMPTY proc \<Rightarrow> bind (proc (ch # opt) closure) (\<lambda>_. arg_short c closure arg_list opt rest)
           | AT_FOLLOWING2 proc \<Rightarrow>
               (case rest of a # b # rest' \<Rightarrow>
                  bind (proc (ch # opt) closure a b) (\<lambda>_. arg_short c closure arg_list opt rest')
                | _ \<Rightarrow> arg_error)
           | AT_FOLLOWING3 proc \<Rightarrow>
               (case rest of a # b # d # rest' \<Rightarrow>
                  bind (proc (ch # opt) closure a b d) (\<lambda>_. arg_short c closure arg_list opt rest')
                | _ \<Rightarrow> arg_error)))"

text \<open>A character of a C string, the terminating one included.\<close>

definition char_at :: "cstring \<Rightarrow> nat \<Rightarrow> byte" where
  "char_at string i = (if i < length string then string ! i else 0)"

text \<open>
  One turn of the outer loop: either the parser stops, with the arguments that are left, or it goes
  on with them. 45 and 43 are the codes of minus and plus.
\<close>

definition arg_parse_one ::
  "'z error_state_scheme ArgListT list \<Rightarrow> ArgUsageT \<Rightarrow> cstring \<Rightarrow> cstring list
     \<Rightarrow> ('z error_state_scheme, bool \<times> cstring list) prog" where
  "arg_parse_one arg_list closure option rest =
     (let c = char_at option 0 in
      if (c = 45 \<and> char_at option 1 = 45 \<or> c = 43 \<and> char_at option 1 = 43) \<and> char_at option 2 = 0 then ret (True, rest)
      else if c = 45 \<and> char_at option 1 = 45 \<or> c = 43 \<and> char_at option 1 = 43 then
        (case arg_find_long arg_list (drop 2 option) None 0 of (chosen, matches, immediate) \<Rightarrow>
           if matches = 0 then arg_error
           else if matches > 1 then arg_error
           else bind (defined chosen) (\<lambda>chosen.
             bind (arg_long c option closure (al_type chosen) immediate rest) (\<lambda>rest. ret (False, rest))))
      else if c = 45 \<and> char_at option 1 = 43 \<or> c = 43 \<and> char_at option 1 = 45
        \<or> c = 45 \<and> char_at option 1 = 0 \<or> c = 43 \<and> char_at option 1 = 0 then arg_error
      else if c = 45 \<or> c = 43 then
        bind (arg_short c closure arg_list (drop 1 option) rest) (\<lambda>rest. ret (False, rest))
      else ret (True, option # rest))"

lemma arg_long_shorter: "arg_long c option closure type immediate rest s = (Ret rest', t) \<Longrightarrow> length rest' \<le> length rest"
  by (auto simp: arg_long_def bind_def ret_def modify_def arg_error_def raise_def
      split: ArgTypeT.splits option.splits list.splits prod.splits outcome.splits)

lemma arg_short_shorter: "arg_short c closure arg_list opt rest s = (Ret rest', t) \<Longrightarrow> length rest' \<le> length rest"
proof (induction opt arbitrary: rest s)
  case Nil
  then show ?case by (simp add: ret_def)
next
  case (Cons ch opt)
  have err: "arg_error s \<noteq> (Ret rest', t)" by (auto simp: arg_error_def bind_def raise_def split: prod.splits outcome.splits)
  have IH: "arg_short c closure arg_list opt q u = (Ret rest', t) \<Longrightarrow> length rest' \<le> length q" for q u
    by (rule Cons.IH)
  show ?case
    using Cons.prems err
    by (auto simp: bind_Ret_iff ret_def split: option.splits ArgTypeT.splits list.splits if_splits dest: IH)
qed

lemma arg_parse_one_shorter:
  "arg_parse_one arg_list closure option rest s = (Ret (False, rest'), t) \<Longrightarrow> length rest' \<le> length rest"
  by (auto simp: arg_parse_one_def Let_def bind_Ret_iff ret_def arg_error_def raise_def
      split: if_splits prod.splits dest: arg_long_shorter arg_short_shorter)

function arg_parse_loop ::
  "'z error_state_scheme ArgListT list \<Rightarrow> ArgUsageT \<Rightarrow> cstring list \<Rightarrow> ('z error_state_scheme, cstring list) prog" where
  "arg_parse_loop arg_list closure [] s = ret [] s"
| "arg_parse_loop arg_list closure (option # rest) s =
     bind (arg_parse_one arg_list closure option rest) (\<lambda>r t. case r of (finished, rest') \<Rightarrow>
       if finished then ret rest' t else arg_parse_loop arg_list closure rest' t) s"
  by pat_completeness auto
termination
  by (relation "measure (\<lambda>(_, _, argv, _). length argv)") (auto dest: arg_parse_one_shorter)

text \<open>The number of arguments that were parsed.\<close>

definition arg_parse_arguments ::
  "'z error_state_scheme ArgListT list \<Rightarrow> cstring \<Rightarrow> cstring list \<Rightarrow> ('z error_state_scheme, nat) prog" where
  "arg_parse_arguments arg_list usage argv =
     bind (arg_parse_loop arg_list (arg_usage usage arg_list) argv) (\<lambda>rest. ret (length argv - length rest))"

definition write_arg_usage :: "ArgUsageT \<Rightarrow> (OStreamT, unit) prog" where
  "write_arg_usage closure =
     bind (write_cstring (au_usage closure)) (\<lambda>_.
     for_each (au_options closure) (\<lambda>(name, short_name, desc).
       bind (case name of
               Some name \<Rightarrow> bind write_newline (\<lambda>_. bind (write_cstring (str ''    {--|++}'')) (\<lambda>_.
                 bind (write_cstring name) (\<lambda>_. write_cstring desc)))
             | None \<Rightarrow> ret ()) (\<lambda>_.
       if short_name \<noteq> 0 then
         bind write_newline (\<lambda>_. bind (write_cstring (str ''    {-|+}'')) (\<lambda>_.
           bind (write_char short_name) (\<lambda>_. write_cstring desc)))
       else ret ())))"

end
