(* ===== verification/Tld_Main.thy ===== *)
theory Tld_Main
  imports Arg_Parse Rename_File Unit_Set_File Linker
begin

text \<open>
  The main routine of the linker, \<^verbatim>\<open>tld/src/main.c\<close>: the option tables of the four modes, the handlers
  of the options, the choice of the mode and the last handler of exceptions. The state adds the static
  variables of this file, the standard error stream and the table of named strings. The argument
  vector is a list; a pointer behind its last element is null. Where the program ends with
  \<^verbatim>\<open>exit(EXIT_SUCCESS)\<close> the model returns.
\<close>

section \<open>State\<close>

datatype ModeT = MODE_BUILDER | MODE_CONTENTS | MODE_EXTRACT | MODE_LINKER

record main_state = library_state +
  main_used_one_off :: bool
  main_used_other :: bool
  main_arg_data :: ArgDataT
  min_severity :: ESeverityT
  ostream_error :: OStreamT
  string_table :: "EStringT table"

definition on_error_stream :: "(OStreamT, 'a) prog \<Rightarrow> (main_state, 'a) prog" where
  "on_error_stream m s = (case m (ostream_error s) of (r, os) \<Rightarrow> (r, s\<lparr>ostream_error := os\<rparr>))"

definition error_set_min_report_severity :: "ESeverityT \<Rightarrow> (main_state, unit) prog" where
  "error_set_min_report_severity severity = modify (\<lambda>s. s\<lparr>min_severity := severity\<rparr>)"

definition main_print_version :: "(main_state, unit) prog" where
  "main_print_version = on_error_stream (
     bind (write_cstring (str ''tld version 4.0#7'')) (\<lambda>_. bind (write_cstring (str '' ('')) (\<lambda>_.
     bind (write_cstring (str ''LOCAL'')) (\<lambda>_. bind (write_cstring (str '')'')) (\<lambda>_.
     bind (write_cstring []) (\<lambda>_. bind write_newline (\<lambda>_. ostream_flush)))))))"

section \<open>Handlers\<close>

text \<open>What most handlers do: note that an option other than help or version was used, and change the data.\<close>

definition main_change :: "(ArgDataT \<Rightarrow> (main_state, ArgDataT) prog) \<Rightarrow> (main_state, unit) prog" where
  "main_change f =
     bind (modify (\<lambda>s. s\<lparr>main_used_other := True\<rparr>)) (\<lambda>_.
     bind (gets main_arg_data) (\<lambda>a. bind (f a) (\<lambda>a. modify (\<lambda>s. s\<lparr>main_arg_data := a\<rparr>))))"

definition arg_data_set_unit_file :: "cstring \<Rightarrow> ArgDataT \<Rightarrow> ('z capsule_state_scheme, ArgDataT) prog" where
  "arg_data_set_unit_file unit_file arg_data =
     bind (if ad_unit_file arg_data \<noteq> None then error_msg ERR_FATAL else ret ()) (\<lambda>_.
     bind (capsule_read_unit_set_file unit_file) (\<lambda>_. ret (arg_data\<lparr>ad_unit_file := Some unit_file\<rparr>)))"

definition main_handle_all :: "cstring \<Rightarrow> ArgUsageT \<Rightarrow> bool \<Rightarrow> (main_state, unit) prog" where
  "main_handle_all option usage enable = main_change (\<lambda>a. ret (arg_data_set_extract_all enable a))"

definition main_handle_all_hide_defd :: "cstring \<Rightarrow> ArgUsageT \<Rightarrow> bool \<Rightarrow> (main_state, unit) prog" where
  "main_handle_all_hide_defd option usage enable = main_change (\<lambda>a. ret (arg_data_set_all_hide_defd enable a))"

definition main_handle_basename :: "cstring \<Rightarrow> ArgUsageT \<Rightarrow> bool \<Rightarrow> (main_state, unit) prog" where
  "main_handle_basename option usage enable = main_change (\<lambda>a. ret (arg_data_set_extract_basename enable a))"

definition main_handle_index :: "cstring \<Rightarrow> ArgUsageT \<Rightarrow> bool \<Rightarrow> (main_state, unit) prog" where
  "main_handle_index option usage enable = main_change (\<lambda>a. ret (arg_data_set_content_index enable a))"

definition main_handle_match_base :: "cstring \<Rightarrow> ArgUsageT \<Rightarrow> bool \<Rightarrow> (main_state, unit) prog" where
  "main_handle_match_base option usage enable = main_change (\<lambda>a. ret (arg_data_set_extract_match_base enable a))"

definition main_handle_missing_definitions :: "cstring \<Rightarrow> ArgUsageT \<Rightarrow> bool \<Rightarrow> (main_state, unit) prog" where
  "main_handle_missing_definitions option usage enable = main_change (\<lambda>a. ret (arg_data_set_missing_definitions enable a))"

definition main_handle_size :: "cstring \<Rightarrow> ArgUsageT \<Rightarrow> bool \<Rightarrow> (main_state, unit) prog" where
  "main_handle_size option usage enable = main_change (\<lambda>a. ret (arg_data_set_content_size enable a))"

definition main_handle_suppress_mult :: "cstring \<Rightarrow> ArgUsageT \<Rightarrow> bool \<Rightarrow> (main_state, unit) prog" where
  "main_handle_suppress_mult option usage enable = main_change (\<lambda>a. ret (arg_data_set_suppress_mult enable a))"

definition main_handle_tdf_version :: "cstring \<Rightarrow> ArgUsageT \<Rightarrow> bool \<Rightarrow> (main_state, unit) prog" where
  "main_handle_tdf_version option usage enable = main_change (\<lambda>a. ret (arg_data_set_content_version enable a))"

definition main_handle_debug_file :: "cstring \<Rightarrow> ArgUsageT \<Rightarrow> cstring \<Rightarrow> (main_state, unit) prog" where
  "main_handle_debug_file option usage debug_file = main_change (arg_data_set_debug_file debug_file)"

definition main_handle_help :: "cstring \<Rightarrow> ArgUsageT \<Rightarrow> (main_state, unit) prog" where
  "main_handle_help option usage = 
     bind (modify (\<lambda>s. s\<lparr>main_used_one_off := True\<rparr>)) (\<lambda>_. on_error_stream (
     bind (write_arg_usage usage) (\<lambda>_. bind write_newline (\<lambda>_. ostream_flush))))"

definition main_handle_hide :: "cstring \<Rightarrow> ArgUsageT \<Rightarrow> cstring \<Rightarrow> cstring \<Rightarrow> (main_state, unit) prog" where
  "main_handle_hide option usage shape name = main_change (arg_data_add_hide shape name)"

definition main_handle_hide_defined :: "cstring \<Rightarrow> ArgUsageT \<Rightarrow> cstring \<Rightarrow> (main_state, unit) prog" where
  "main_handle_hide_defined option usage shape = main_change (\<lambda>a. ret (arg_data_add_hide_defined shape a))"

definition main_handle_keep :: "cstring \<Rightarrow> ArgUsageT \<Rightarrow> cstring \<Rightarrow> cstring \<Rightarrow> (main_state, unit) prog" where
  "main_handle_keep option usage shape name = main_change (arg_data_add_keep shape name)"

definition main_handle_keep_all :: "cstring \<Rightarrow> ArgUsageT \<Rightarrow> cstring \<Rightarrow> (main_state, unit) prog" where
  "main_handle_keep_all option usage shape = main_change (\<lambda>a. ret (arg_data_add_keep_all shape a))"

definition main_handle_library_file :: "cstring \<Rightarrow> ArgUsageT \<Rightarrow> cstring \<Rightarrow> (main_state, unit) prog" where
  "main_handle_library_file option usage library_file = main_change (\<lambda>a. ret (arg_data_add_library_file library_file a))"

definition main_handle_output_file :: "cstring \<Rightarrow> ArgUsageT \<Rightarrow> cstring \<Rightarrow> (main_state, unit) prog" where
  "main_handle_output_file option usage output_file = main_change (arg_data_set_output_file output_file)"

definition main_handle_library_path :: "cstring \<Rightarrow> ArgUsageT \<Rightarrow> cstring \<Rightarrow> (main_state, unit) prog" where
  "main_handle_library_path option usage directory = main_change (\<lambda>a. ret (arg_data_add_library_path directory a))"

definition main_handle_rename :: "cstring \<Rightarrow> ArgUsageT \<Rightarrow> cstring \<Rightarrow> cstring \<Rightarrow> cstring \<Rightarrow> (main_state, unit) prog" where
  "main_handle_rename option usage shape from to = main_change (arg_data_parse_rename shape from to)"

definition main_handle_rename_file :: "cstring \<Rightarrow> ArgUsageT \<Rightarrow> cstring \<Rightarrow> (main_state, unit) prog" where
  "main_handle_rename_file option usage name = main_change (rename_file_parse name)"

definition main_handle_suppress :: "cstring \<Rightarrow> ArgUsageT \<Rightarrow> cstring \<Rightarrow> cstring \<Rightarrow> (main_state, unit) prog" where
  "main_handle_suppress option usage shape name = main_change (arg_data_add_suppress shape name)"

definition main_handle_suppress_all :: "cstring \<Rightarrow> ArgUsageT \<Rightarrow> cstring \<Rightarrow> (main_state, unit) prog" where
  "main_handle_suppress_all option usage shape = main_change (\<lambda>a. ret (arg_data_add_suppress_all shape a))"

definition main_handle_unit_file :: "cstring \<Rightarrow> ArgUsageT \<Rightarrow> cstring \<Rightarrow> (main_state, unit) prog" where
  "main_handle_unit_file option usage unit_file = main_change (arg_data_set_unit_file unit_file)"

definition main_handle_version :: "cstring \<Rightarrow> ArgUsageT \<Rightarrow> (main_state, unit) prog" where
  "main_handle_version option usage = 
     bind (modify (\<lambda>s. s\<lparr>main_used_one_off := True\<rparr>)) (\<lambda>_. main_print_version)"

definition main_handle_info :: "cstring \<Rightarrow> ArgUsageT \<Rightarrow> bool \<Rightarrow> (main_state, unit) prog" where
  "main_handle_info option usage enable = 
     bind (modify (\<lambda>s. s\<lparr>main_used_other := True\<rparr>)) (\<lambda>_.
     error_set_min_report_severity (if enable then ERROR_SEVERITY_INFORMATION else ERROR_SEVERITY_ERROR))"

definition main_handle_warning :: "cstring \<Rightarrow> ArgUsageT \<Rightarrow> bool \<Rightarrow> (main_state, unit) prog" where
  "main_handle_warning option usage enable = 
     bind (modify (\<lambda>s. s\<lparr>main_used_other := True\<rparr>)) (\<lambda>_.
     error_set_min_report_severity (if enable then ERROR_SEVERITY_WARNING else ERROR_SEVERITY_ERROR))"

section \<open>Tables\<close>

definition main_arg :: "cstring option \<Rightarrow> byte \<Rightarrow> main_state ArgTypeT \<Rightarrow> string \<Rightarrow> main_state ArgListT" where
  "main_arg name short_name type description =
     \<lparr>al_name = name, al_short_name = short_name, al_type = type, al_u = str description\<rparr>"

definition main_usage :: cstring where
  "main_usage = [9] @ str ''usage:[mode][option ...]file ...'' @ [10, 9] @ str ''where mode is one of: '' @ [39] @ str ''-mc'' @ [39] @ str ''(create library), '' @ [39] @ str ''-ml'' @ [39] @ str ''(link capsules),'' @ [10, 9, 39] @ str ''-mt'' @ [39] @ str ''(library table of contents)or '' @ [39] @ str ''-mx'' @ [39] @ str ''(extract from library),'' @ [10, 9] @ str ''and option(for the current mode - default '' @ [39] @ str ''-ml'' @ [39] @ str '')is one of:''"

definition main_description_strings :: "(cstring \<times> cstring) list" where
  "main_description_strings =
    [(str ''description of all'', [10, 9] @ str ''Enable/disable extraction of all capsules.''),
     (str ''description of all-hide-defined'', [10, 9] @ str ''Enable/disable hiding of all external names of any shape that have a definition.''),
     (str ''description of basename'', [10, 9] @ str ''Enable/disable extraction of capsules to their basename.''),
     (str ''description of debug-file'', str '' FILE'' @ [10, 9] @ str ''Write debugging output to FILE.''),
     (str ''description of help'', [10, 9] @ str ''Display an option summary for the current mode.''),
     (str ''description of hide'', str '' SHAPE NAME'' @ [10, 9] @ str ''Hide the external SHAPE NAME.''),
     (str ''description of hide-defined'', str '' SHAPE'' @ [10, 9] @ str ''Hide all external SHAPE names that have a definition.''),
     (str ''description of include-library'', str '' LIBRARY'' @ [10, 9] @ str ''Include the contents of LIBRARY in the output library.''),
     (str ''description of index'', [10, 9] @ str ''Enable/disable the display of the library index as well as the capsule names.''),
     (str ''description of info'', [10, 9] @ str ''Enable/disable informational messages.''),
     (str ''description of keep'', str '' SHAPE NAME'' @ [10, 9] @ str ''Ensure that external SHAPE NAME is not hidden.''),
     (str ''description of keep-all'', str '' SHAPE'' @ [10, 9] @ str ''Ensure that no external SHAPE is hidden.''),
     (str ''description of library-file'', str '' FILE'' @ [10, 9] @ str ''Use FILE as a TDF library.''),
     (str ''description of l'', str ''FILE'' @ [10, 9] @ str ''Use FILE as a TDF library.''),
     (str ''description of match-basename'', [10, 9] @ str ''Enable/disable matching capsules by their basename''),
     (str ''description of missing-definitions'', [10, 9] @ str ''Enable/disable warnings for undefined external linker names.''),
     (str ''description of output-file'', str '' FILE'' @ [10, 9] @ str ''Write output to FILE(default '' @ [39] @ str ''library.tl'' @ [39] @ str '').''),
     (str ''description of path'', str '' DIRECTORY'' @ [10, 9] @ str ''Append DIRECTORY to library search path.''),
     (str ''description of L'', str ''DIRECTORY'' @ [10, 9] @ str ''Append DIRECTORY to library search path.''),
     (str ''description of rename'', str '' SHAPE FROM TO'' @ [10, 9] @ str ''Rename SHAPE FROM to TO.''),
     (str ''description of rename-file'', str '' FILE'' @ [10, 9] @ str ''Parse FILE as a rename file.''),
     (str ''description of size'', [10, 9] @ str ''Enable/disable the display of the size of library capsules as well as their names.''),
     (str ''description of suppress'', str '' SHAPE NAME'' @ [10, 9] @ str ''Do not try to find a definition for SHAPE NAME.''),
     (str ''description of suppress-all'', str '' SHAPE'' @ [10, 9] @ str ''Do not try to find a definition for any SHAPE.''),
     (str ''description of suppress-mult'', [10, 9] @ str ''Enable/disable the suppression of multiple definitions as library definitions.''),
     (str ''description of tdf-version'', [10, 9] @ str ''Enable/disable the display of the version of a TDF library.''),
     (str ''description of unit-file'', str '' FILE'' @ [10, 9] @ str ''Read unit set names from FILE.''),
     (str ''description of version'', [10, 9] @ str ''Display the version number on the standard error.''),
     (str ''description of warning'', [10, 9] @ str ''Enable/disable warning messages.'')]"

definition main_builder_arg_list :: "main_state ArgListT list" where
  "main_builder_arg_list =
    [main_arg (Some (str ''debug-file'')) 100 (AT_FOLLOWING main_handle_debug_file) ''description of debug-file'',
     main_arg (Some (str ''help'')) 63 (AT_EMPTY main_handle_help) ''description of help'',
     main_arg (Some (str ''include-library'')) 105 (AT_FOLLOWING main_handle_library_file) ''description of include-library'',
     main_arg (Some (str ''output-file'')) 111 (AT_FOLLOWING main_handle_output_file) ''description of output-file'',
     main_arg (Some (str ''suppress'')) 115 (AT_FOLLOWING2 main_handle_suppress) ''description of suppress'',
     main_arg (Some (str ''suppress-all'')) 83 (AT_FOLLOWING main_handle_suppress_all) ''description of suppress-all'',
     main_arg (Some (str ''suppress-mult'')) 77 (AT_PROC_SWITCH main_handle_suppress_mult) ''description of suppress-mult'',
     main_arg (Some (str ''unit-file'')) 117 (AT_FOLLOWING main_handle_unit_file) ''description of unit-file'',
     main_arg (Some (str ''version'')) 118 (AT_EMPTY main_handle_version) ''description of version'']"

definition main_contents_arg_list :: "main_state ArgListT list" where
  "main_contents_arg_list =
    [main_arg (Some (str ''debug-file'')) 100 (AT_FOLLOWING main_handle_debug_file) ''description of debug-file'',
     main_arg (Some (str ''help'')) 63 (AT_EMPTY main_handle_help) ''description of help'',
     main_arg (Some (str ''index'')) 105 (AT_PROC_SWITCH main_handle_index) ''description of index'',
     main_arg (Some (str ''size'')) 115 (AT_PROC_SWITCH main_handle_size) ''description of size'',
     main_arg (Some (str ''tdf-version'')) 116 (AT_PROC_SWITCH main_handle_tdf_version) ''description of tdf-version'',
     main_arg (Some (str ''version'')) 118 (AT_EMPTY main_handle_version) ''description of version'']"

definition main_extract_arg_list :: "main_state ArgListT list" where
  "main_extract_arg_list =
    [main_arg (Some (str ''all'')) 97 (AT_PROC_SWITCH main_handle_all) ''description of all'',
     main_arg (Some (str ''basename'')) 98 (AT_PROC_SWITCH main_handle_basename) ''description of basename'',
     main_arg (Some (str ''debug-file'')) 100 (AT_FOLLOWING main_handle_debug_file) ''description of debug-file'',
     main_arg (Some (str ''help'')) 63 (AT_EMPTY main_handle_help) ''description of help'',
     main_arg (Some (str ''info'')) 105 (AT_PROC_SWITCH main_handle_info) ''description of info'',
     main_arg (Some (str ''match-basename'')) 109 (AT_PROC_SWITCH main_handle_match_base) ''description of match-basename'',
     main_arg (Some (str ''version'')) 118 (AT_EMPTY main_handle_version) ''description of version'']"

definition main_linker_arg_list :: "main_state ArgListT list" where
  "main_linker_arg_list =
    [main_arg (Some (str ''all-hide-defined'')) 97 (AT_PROC_SWITCH main_handle_all_hide_defd) ''description of all-hide-defined'',
     main_arg (Some (str ''debug-file'')) 100 (AT_FOLLOWING main_handle_debug_file) ''description of debug-file'',
     main_arg (Some (str ''help'')) 63 (AT_EMPTY main_handle_help) ''description of help'',
     main_arg (Some (str ''hide'')) 104 (AT_FOLLOWING2 main_handle_hide) ''description of hide'',
     main_arg (Some (str ''hide-defined'')) 72 (AT_FOLLOWING main_handle_hide_defined) ''description of hide-defined'',
     main_arg (Some (str ''missing-definitions'')) 105 (AT_PROC_SWITCH main_handle_missing_definitions) ''description of missing-definitions'',
     main_arg (Some (str ''keep'')) 107 (AT_FOLLOWING2 main_handle_keep) ''description of keep'',
     main_arg (Some (str ''keep-all'')) 75 (AT_FOLLOWING main_handle_keep_all) ''description of keep-all'',
     main_arg (Some (str ''library'')) 0 (AT_FOLLOWING main_handle_library_file) ''description of library-file'',
     main_arg (None) 108 (AT_EITHER main_handle_library_file) ''description of l'',
     main_arg (Some (str ''output-file'')) 111 (AT_FOLLOWING main_handle_output_file) ''description of output-file'',
     main_arg (Some (str ''path'')) 0 (AT_FOLLOWING main_handle_library_path) ''description of path'',
     main_arg (None) 76 (AT_EITHER main_handle_library_path) ''description of L'',
     main_arg (Some (str ''rename'')) 114 (AT_FOLLOWING3 main_handle_rename) ''description of rename'',
     main_arg (Some (str ''rename-file'')) 82 (AT_FOLLOWING main_handle_rename_file) ''description of rename-file'',
     main_arg (Some (str ''suppress'')) 115 (AT_FOLLOWING2 main_handle_suppress) ''description of suppress'',
     main_arg (Some (str ''suppress-all'')) 83 (AT_FOLLOWING main_handle_suppress_all) ''description of suppress-all'',
     main_arg (Some (str ''suppress-mult'')) 77 (AT_PROC_SWITCH main_handle_suppress_mult) ''description of suppress-mult'',
     main_arg (Some (str ''unit-file'')) 117 (AT_FOLLOWING main_handle_unit_file) ''description of unit-file'',
     main_arg (Some (str ''version'')) 118 (AT_EMPTY main_handle_version) ''description of version'',
     main_arg (Some (str ''warnings'')) 119 (AT_PROC_SWITCH main_handle_warning) ''description of warning'']"

section \<open>Initialisation\<close>

text \<open>
  The choice of the mode and the \<^verbatim>\<open>goto retry\<close> behind it. The message for an illegal mode prints a
  character of the argument \<^emph>\<open>behind\<close> the mode, for the vector has been advanced.
\<close>

definition main_set_mode :: "cstring option \<Rightarrow> (main_state, unit) prog" where
  "main_set_mode default_output_file = modify (\<lambda>s. s\<lparr>main_arg_data := arg_data_init default_output_file\<rparr>)"

fun main_mode :: "cstring list \<Rightarrow> (main_state, ModeT \<times> main_state ArgListT list \<times> cstring list) prog" where
  "main_mode [] =
     bind (main_set_mode (Some (str ''capsule.j''))) (\<lambda>_. ret (MODE_LINKER, main_linker_arg_list, []))"
| "main_mode (arg # argv) =
     (if char_at arg 0 = 45 \<and> char_at arg 1 = 109 then
        (let c = char_at arg 2 in
         if c = 99 then
           bind (main_set_mode (Some (str ''library.tl''))) (\<lambda>_. ret (MODE_BUILDER, main_builder_arg_list, argv))
         else if c = 116 then
           bind (main_set_mode None) (\<lambda>_. ret (MODE_CONTENTS, main_contents_arg_list, argv))
         else if c = 120 then
           bind (main_set_mode None) (\<lambda>_. ret (MODE_EXTRACT, main_extract_arg_list, argv))
         else if c = 108 then
           bind (main_set_mode (Some (str ''capsule.j''))) (\<lambda>_. ret (MODE_LINKER, main_linker_arg_list, argv))
         else if c = 118 then
           bind (modify (\<lambda>s. s\<lparr>main_used_one_off := True, main_used_other := False\<rparr>)) (\<lambda>_.
           bind main_print_version (\<lambda>_. main_mode argv))
         else
           bind (index argv 0) (\<lambda>behind. bind (check (2 \<le> length behind)) (\<lambda>_. arg_error)))
      else bind (main_set_mode (Some (str ''capsule.j''))) (\<lambda>_. ret (MODE_LINKER, main_linker_arg_list, arg # argv)))"

definition main_define_strings :: "(main_state, unit) prog" where
  "main_define_strings =
     bind (gets string_table) (\<lambda>table.
     bind (defined (error_define_string (str ''tld usage message'') main_usage table)) (\<lambda>(usage_estring, table).
     bind (defined (error_intern_strings main_description_strings table)) (\<lambda>table.
     modify (\<lambda>s. s\<lparr>string_table := table\<rparr>))))"

text \<open>The result is no mode when the program exits, its options having asked for a message only.\<close>

definition main_init :: "cstring list \<Rightarrow> (main_state, ModeT option) prog" where
  "main_init argv =
     bind main_define_strings (\<lambda>_.
     bind (check (argv \<noteq> [])) (\<lambda>_.
     bind (main_mode (tl argv)) (\<lambda>(mode, arg_list, argv).
     bind (gets (\<lambda>s. arg_parse_intern_descriptions (string_table s) arg_list)) (\<lambda>arg_list.
     bind (defined arg_list) (\<lambda>arg_list.
     bind (arg_parse_arguments arg_list main_usage argv) (\<lambda>skip.
     let argv = drop skip argv in
     bind (gets (\<lambda>s. main_used_one_off s \<and> \<not> main_used_other s)) (\<lambda>one_off.
     if one_off \<and> argv = [] then ret None
     else if argv = [] then arg_error
     else
       bind (modify (\<lambda>s. s\<lparr>main_arg_data := arg_data_set_files argv (main_arg_data s)\<rparr>)) (\<lambda>_.
       ret (Some mode)))))))))"

definition main_front_end :: "ModeT \<Rightarrow> ArgDataT \<Rightarrow> (main_state, unit) prog" where
  "main_front_end mode arg_data =
     (case mode of
        MODE_BUILDER \<Rightarrow> builder_main arg_data
      | MODE_CONTENTS \<Rightarrow> contents_main arg_data
      | MODE_EXTRACT \<Rightarrow> extract_main arg_data
      | MODE_LINKER \<Rightarrow> linker_main arg_data)"

definition main :: "cstring list \<Rightarrow> (main_state, unit) prog" where
  "main argv =
     handle
       (bind (main_init argv) (\<lambda>mode.
        case mode of
          None \<Rightarrow> ret ()
        | Some mode \<Rightarrow> bind (gets main_arg_data) (\<lambda>arg_data. main_front_end mode arg_data)))
       (\<lambda>e. if e = XX_istream_read_error \<or> e = XX_bistream_read_error then arg_error
            else if e = XX_ostream_write_error \<or> e = XX_bostream_write_error then arg_error
            else raise e)"

end
