(* ===== verification/Main_Properties.thy ===== *)
theory Main_Properties
  imports Tld_Main
begin

text \<open>
  What the command line of the linker means: which option a long name selects, how a sequence of
  options is carried out, and two inputs that the main routine gets wrong.
\<close>

section \<open>Literals\<close>

lemma unat_of_char: "unat (of_char c :: byte) = of_char c"
proof -
  have "unat (of_nat (of_char c) :: byte) = of_char c"
    using nat_of_char_less_256[of c] by (simp only: unat_of_nat) simp
  then show ?thesis by (simp only: of_nat_of_char)
qed

lemma str_inject: "str a = str b \<longleftrightarrow> a = b"
proof -
  have "inj (of_char :: char \<Rightarrow> byte)"
    by (rule injI) (metis unat_of_char of_char_eq_iff)
  then show ?thesis by (simp add: str_def inj_map_eq_map)
qed

section \<open>Long options\<close>

lemma arg_compare_exact: "arg_compare opt arg = (optch, argch, rest) \<Longrightarrow> optch = argch \<longleftrightarrow> opt = arg"
  by (induction opt arg rule: arg_compare.induct) (auto split: if_splits list.splits)

lemma arg_compare_rest: "arg_compare opt opt = (None, None, [])"
  by (induction opt) auto

definition abbreviates :: "cstring \<Rightarrow> cstring \<Rightarrow> bool" where
  "abbreviates arg opt \<longleftrightarrow> length arg < length opt \<and> take (length arg) opt = arg"

lemma arg_compare_prefix:
  "arg_compare opt arg = (optch, argch, rest) \<Longrightarrow> optch \<noteq> argch \<Longrightarrow> argch = None \<longleftrightarrow> abbreviates arg opt"
  by (induction opt arg rule: arg_compare.induct) (auto simp: abbreviates_def split: if_splits list.splits)

text \<open>No entry with a long name takes an immediate argument.\<close>

definition plain_names :: "'s ArgListT list \<Rightarrow> bool" where
  "plain_names arg_list = list_all (\<lambda>e. al_name e = None \<or> \<not> takes_immediate (al_type e)) arg_list"

definition named :: "'s ArgListT list \<Rightarrow> cstring \<Rightarrow> 's ArgListT list" where
  "named arg_list arg = filter (\<lambda>e. al_name e = Some arg) arg_list"

definition abbreviated :: "'s ArgListT list \<Rightarrow> cstring \<Rightarrow> 's ArgListT list" where
  "abbreviated arg_list arg = filter (\<lambda>e. case al_name e of None \<Rightarrow> False | Some opt \<Rightarrow> abbreviates arg opt) arg_list"

lemma named_Cons: "named (e # es) arg = (if al_name e = Some arg then e # named es arg else named es arg)"
  by (simp add: named_def)

lemma abbreviated_Cons: "abbreviated (e # es) arg =
    (if case al_name e of None \<Rightarrow> False | Some opt \<Rightarrow> abbreviates arg opt then e # abbreviated es arg else abbreviated es arg)"
  by (simp add: abbreviated_def)

lemma arg_find_long_eq:
  assumes "plain_names arg_list"
  shows "arg_find_long arg_list arg chosen matches =
    (case named arg_list arg of
       e # _ \<Rightarrow> (Some e, 1, Some [])
     | [] \<Rightarrow> (if abbreviated arg_list arg = [] then chosen else Some (last (abbreviated arg_list arg)),
              matches + length (abbreviated arg_list arg), None))"
  using assms
proof (induction arg_list arbitrary: chosen matches)
  case Nil
  then show ?case by (simp add: named_def abbreviated_def)
next
  case (Cons tmp arg_list)
  have IH: "arg_find_long arg_list arg chosen matches =
    (case named arg_list arg of
       e # _ \<Rightarrow> (Some e, 1, Some [])
     | [] \<Rightarrow> (if abbreviated arg_list arg = [] then chosen else Some (last (abbreviated arg_list arg)),
              matches + length (abbreviated arg_list arg), None))" for chosen matches
    by (rule Cons.IH) (use Cons.prems in \<open>simp add: plain_names_def\<close>)
  show ?case
  proof (cases "al_name tmp")
    case None
    then show ?thesis by (simp add: IH named_Cons abbreviated_Cons split: list.splits)
  next
    case (Some opt)
    obtain optch argch rest where c: "arg_compare opt arg = (optch, argch, rest)" by (metis prod_cases3)
    have imm: "\<not> takes_immediate (al_type tmp)" using Cons.prems Some by (simp add: plain_names_def)
    show ?thesis
    proof (cases "opt = arg")
      case True
      with Some show ?thesis by (simp add: arg_compare_rest named_Cons)
    next
      case False
      then have ne: "optch \<noteq> argch" using arg_compare_exact[OF c] by simp
      from arg_compare_prefix[OF c ne] Some c imm ne False show ?thesis
        by (auto simp: IH named_Cons abbreviated_Cons split: list.splits)
    qed
  qed
qed

section \<open>Sequences of options\<close>

text \<open>
  A use of an option: its entry, whether it is written in its long form, the sign in front of it, and
  its arguments. \<open>use_words\<close> is how it is written and \<open>use_effect\<close> what it does.
\<close>

record 's option_use =
  use_entry :: "'s ArgListT"
  use_long :: bool
  use_sign :: byte
  use_args :: "cstring list"

definition use_option :: "'s option_use \<Rightarrow> cstring" where
  "use_option u = (if use_long u then use_sign u # use_sign u # the (al_name (use_entry u))
                   else [use_sign u, al_short_name (use_entry u)])"

definition use_words :: "'s option_use \<Rightarrow> cstring list" where
  "use_words u = use_option u # use_args u"

fun use_arity :: "'s ArgTypeT \<Rightarrow> nat option" where
  "use_arity (AT_SWITCH f) = Some 0"
| "use_arity (AT_NEG_SWITCH f) = Some 0"
| "use_arity (AT_PROC_SWITCH p) = Some 0"
| "use_arity (AT_IMMEDIATE p) = None"
| "use_arity (AT_EITHER p) = Some 1"
| "use_arity (AT_FOLLOWING p) = Some 1"
| "use_arity (AT_EMPTY p) = Some 0"
| "use_arity (AT_FOLLOWING2 p) = Some 2"
| "use_arity (AT_FOLLOWING3 p) = Some 3"

fun type_effect :: "'s ArgTypeT \<Rightarrow> bool \<Rightarrow> cstring \<Rightarrow> ArgUsageT \<Rightarrow> cstring list \<Rightarrow> ('s, unit) prog" where
  "type_effect (AT_SWITCH f) on opt closure args = modify (f on)"
| "type_effect (AT_NEG_SWITCH f) on opt closure args = modify (f (\<not> on))"
| "type_effect (AT_PROC_SWITCH p) on opt closure args = p opt closure on"
| "type_effect (AT_IMMEDIATE p) on opt closure args = p opt closure (args ! 0)"
| "type_effect (AT_EITHER p) on opt closure args = p opt closure (args ! 0)"
| "type_effect (AT_FOLLOWING p) on opt closure args = p opt closure (args ! 0)"
| "type_effect (AT_EMPTY p) on opt closure args = p opt closure"
| "type_effect (AT_FOLLOWING2 p) on opt closure args = p opt closure (args ! 0) (args ! 1)"
| "type_effect (AT_FOLLOWING3 p) on opt closure args = p opt closure (args ! 0) (args ! 1) (args ! 2)"

definition use_effect :: "ArgUsageT \<Rightarrow> 's option_use \<Rightarrow> ('s, unit) prog" where
  "use_effect closure u = type_effect (al_type (use_entry u)) (use_sign u = 45)
     (if use_long u then use_option u else [al_short_name (use_entry u)]) closure (use_args u)"

text \<open>An option table in which names and letters are unique, and a use that fits it.\<close>

definition table_ok :: "'s ArgListT list \<Rightarrow> bool" where
  "table_ok arg_list \<longleftrightarrow> plain_names arg_list \<and>
     distinct (filter (\<lambda>n. n \<noteq> None) (map al_name arg_list)) \<and>
     distinct (filter (\<lambda>c. c \<noteq> 0) (map al_short_name arg_list)) \<and>
     list_all (\<lambda>e. case al_name e of None \<Rightarrow> True | Some n \<Rightarrow> n \<noteq> [] \<and> 0 \<notin> set n) arg_list \<and>
     list_all (\<lambda>e. al_short_name e \<noteq> 45 \<and> al_short_name e \<noteq> 43) arg_list"

definition use_ok :: "'s ArgListT list \<Rightarrow> 's option_use \<Rightarrow> bool" where
  "use_ok arg_list u \<longleftrightarrow> use_entry u \<in> set arg_list \<and> (use_sign u = 45 \<or> use_sign u = 43) \<and>
     (if use_long u then al_name (use_entry u) \<noteq> None else al_short_name (use_entry u) \<noteq> 0) \<and>
     use_arity (al_type (use_entry u)) = Some (length (use_args u))"

lemma arg_long_effect:
  assumes "use_arity type = Some (length args)" "\<not> takes_immediate type" "c = 45 \<or> c = 43"
  shows "arg_long c opt closure type immediate (args @ rest) =
     bind (type_effect type (c = 45) opt closure args) (\<lambda>_. ret rest)"
  using assms
  by (cases type) (auto simp: arg_long_def takes_immediate_def Suc_length_conv length_Suc_conv numeral_2_eq_2 numeral_3_eq_3)

lemma arg_short_effect:
  assumes "find (\<lambda>tmp. al_short_name tmp = ch) arg_list = Some e" "use_arity (al_type e) = Some (length args)"
    "c = 45 \<or> c = 43"
  shows "arg_short c closure arg_list [ch] (args @ rest) =
     bind (type_effect (al_type e) (c = 45) [ch] closure args) (\<lambda>_. ret rest)"
  using assms
  by (cases "al_type e") (auto simp: Suc_length_conv length_Suc_conv numeral_2_eq_2 numeral_3_eq_3)

lemma filter_distinct_single:
  assumes "distinct (filter Q (map f xs))" "x \<in> set xs" "Q (f x)"
  shows "filter (\<lambda>y. f y = f x) xs = [x]"
  using assms
proof (induction xs)
  case (Cons y xs)
  show ?case
  proof (cases "y = x")
    case True
    with Cons.prems have "f x \<notin> f ` set xs" by auto
    then have "filter (\<lambda>y. f y = f x) xs = []" by (metis (mono_tags, lifting) filter_False imageI)
    with True show ?thesis by simp
  next
    case False
    with Cons show ?thesis by (auto split: if_splits)
  qed
qed simp

lemma find_distinct_single:
  assumes "distinct (filter Q (map f xs))" "x \<in> set xs" "Q (f x)"
  shows "find (\<lambda>y. f y = f x) xs = Some x"
proof -
  from filter_distinct_single[OF assms] have "filter (\<lambda>y. f y = f x) xs = [x]" .
  then show ?thesis by (induction xs) (auto split: if_splits)
qed

lemma arg_parse_one_use:
  assumes "table_ok arg_list" "use_ok arg_list u"
  shows "arg_parse_one arg_list closure (use_option u) (use_args u @ rest) =
     bind (use_effect closure u) (\<lambda>_. ret (False, rest))"
proof -
  let ?e = "use_entry u" and ?c = "use_sign u"
  have e: "?e \<in> set arg_list" and c: "?c = 45 \<or> ?c = 43"
    and arity: "use_arity (al_type ?e) = Some (length (use_args u))"
    using assms(2) by (simp_all add: use_ok_def)
  show ?thesis
  proof (cases "use_long u")
    case True
    then obtain n where n: "al_name ?e = Some n" using assms(2) by (auto simp: use_ok_def)
    then have n': "n \<noteq> []" "0 \<notin> set n" and imm: "\<not> takes_immediate (al_type ?e)"
      using assms(1) e by (auto simp: table_ok_def list_all_iff plain_names_def split: option.splits)
    have "named arg_list n = [?e]"
      using filter_distinct_single[of "\<lambda>n. n \<noteq> None" al_name arg_list ?e] assms(1) e n
      by (simp add: table_ok_def named_def)
    then have "arg_find_long arg_list n None 0 = (Some ?e, 1, Some [])"
      using arg_find_long_eq[of arg_list n None 0] assms(1) by (simp add: table_ok_def)
    then show ?thesis
      using True n n' c arg_long_effect[OF arity imm c, of "use_option u" closure "Some []" rest]
      by (auto simp: arg_parse_one_def use_option_def use_effect_def char_at_def Let_def nth_Cons' in_set_conv_nth
          bind_assoc)
  next
    case False
    let ?ch = "al_short_name ?e"
    have ch: "?ch \<noteq> 0" "?ch \<noteq> 45" "?ch \<noteq> 43"
      using assms e False by (auto simp: table_ok_def use_ok_def list_all_iff)
    have "find (\<lambda>tmp. al_short_name tmp = ?ch) arg_list = Some ?e"
      using find_distinct_single[of "\<lambda>c. c \<noteq> 0" al_short_name arg_list ?e] assms(1) e ch by (simp add: table_ok_def)
    from arg_short_effect[OF this arity c, of closure rest] show ?thesis
      using False c ch
      by (auto simp: arg_parse_one_def use_option_def use_effect_def char_at_def Let_def bind_assoc)
  qed
qed

lemma arg_parse_loop_uses:
  assumes "table_ok arg_list" "list_all (use_ok arg_list) uses" "arg_parse_loop arg_list closure rest = ret files"
  shows "arg_parse_loop arg_list closure (concat (map use_words uses) @ rest) =
     bind (for_each uses (use_effect closure)) (\<lambda>_. ret files)"
  using assms(2)
proof (induction uses)
  case Nil
  then show ?case by (simp add: assms(3))
next
  case (Cons u uses)
  then have one: "arg_parse_one arg_list closure (use_option u) (use_args u @ more) =
      bind (use_effect closure u) (\<lambda>_. ret (False, more))" for more
    by (intro arg_parse_one_use[OF assms(1)]) simp
  have words: "use_words u @ more = use_option u # use_args u @ more" for more
    by (simp add: use_words_def)
  have "arg_parse_loop arg_list closure (use_words u @ concat (map use_words uses) @ rest) s =
      bind (use_effect closure u) (\<lambda>_. bind (for_each uses (use_effect closure)) (\<lambda>_. ret files)) s" for s
    unfolding words using Cons one by (simp add: bind_def ret_def split: prod.splits outcome.splits)
  then show ?case by (simp add: bind_assoc fun_eq_iff)
qed

text \<open>
  C16: A long option selects the entry of exactly that name if there is one, even where it abbreviates
  another name. Otherwise it selects the one entry whose name it abbreviates; with no such entry or
  with more than one the program ends with an error. This is for tables in which no long name takes an
  immediate argument, which the four tables of the linker are.
\<close>

theorem long_option_selection:
  assumes "plain_names arg_list" "0 \<notin> set arg" "arg \<noteq> []"
  shows "arg_parse_one arg_list closure (45 # 45 # arg) rest s =
    (case named arg_list arg of
       e # _ \<Rightarrow> bind (arg_long 45 (45 # 45 # arg) closure (al_type e) (Some []) rest) (\<lambda>rest. ret (False, rest)) s
     | [] \<Rightarrow>
        (case abbreviated arg_list arg of
           [e] \<Rightarrow> bind (arg_long 45 (45 # 45 # arg) closure (al_type e) None rest) (\<lambda>rest. ret (False, rest)) s
         | _ \<Rightarrow> (Raise Exit_Failure, s\<lparr>exit_status := True\<rparr>)))"
proof -
  have "char_at (45 # 45 # arg) 2 \<noteq> 0" "char_at (45 # 45 # arg) 0 = 45" "char_at (45 # 45 # arg) 1 = 45"
    using assms(2,3) by (cases arg, auto simp: char_at_def)+
  then have "arg_parse_one arg_list closure (45 # 45 # arg) rest =
     (case arg_find_long arg_list arg None 0 of (chosen, matches, immediate) \<Rightarrow>
           if matches = 0 then arg_error
           else if matches > 1 then arg_error
           else bind (defined chosen) (\<lambda>chosen.
             bind (arg_long 45 (45 # 45 # arg) closure (al_type chosen) immediate rest) (\<lambda>rest. ret (False, rest))))"
    by (simp add: arg_parse_one_def Let_def)
  then show ?thesis
    unfolding arg_find_long_eq[OF assms(1)]
    by (auto simp: arg_error_def error_msg_fatal split: list.splits)
qed

text \<open>
  C15: A command line that is written as a sequence of options, in long or short form, each with its
  arguments, closed by a double minus and followed by file names, is carried out option by option in that
  order, and exactly the file names are left. The hypotheses on the table hold for the four modes.
\<close>

theorem options_in_order:
  assumes "table_ok arg_list" "list_all (use_ok arg_list) uses"
  shows "arg_parse_arguments arg_list usage (concat (map use_words uses) @ [45, 45] # files) =
     bind (for_each uses (use_effect (arg_usage usage arg_list)))
       (\<lambda>_. ret (length (concat (map use_words uses)) + 1))"
proof -
  have "arg_parse_loop arg_list closure ([45, 45] # files) s = ret files s" for closure s
    by (simp add: arg_parse_one_def char_at_def ret_def bind_def)
  then have "arg_parse_loop arg_list closure ([45, 45] # files) = ret files" for closure
    by (simp add: fun_eq_iff)
  from arg_parse_loop_uses[OF assms this] show ?thesis
    by (simp add: arg_parse_arguments_def bind_assoc)
qed

text \<open>The tables of the linker.\<close>

lemma tables_ok: "table_ok main_builder_arg_list" "table_ok main_contents_arg_list"
  "table_ok main_extract_arg_list" "table_ok main_linker_arg_list"
  by code_simp+

theorem long_option_selection_witness:
  "\<forall>closure rest s. arg_parse_one main_linker_arg_list closure (str ''--ren'') rest s = (Raise Exit_Failure, s\<lparr>exit_status := True\<rparr>)"
proof (intro allI)
  fix closure rest and s :: main_state
  have "map al_name (named main_linker_arg_list (str ''ren'')) = []"
    "length (abbreviated main_linker_arg_list (str ''ren'')) = 2" "0 \<notin> set (str ''ren'')" "str ''ren'' \<noteq> []"
    by code_simp+
  moreover have "str ''--ren'' = 45 # 45 # str ''ren''" by code_simp
  moreover have "plain_names main_linker_arg_list" using tables_ok by (simp add: table_ok_def)
  ultimately show "arg_parse_one main_linker_arg_list closure (str ''--ren'') rest s = (Raise Exit_Failure, s\<lparr>exit_status := True\<rparr>)"
    using long_option_selection[of main_linker_arg_list "str ''ren''" closure rest s] by (auto split: list.splits)
qed

theorem options_in_order_witness:
  "\<exists>closure. arg_parse_arguments main_linker_arg_list []
      (map str [''--rename'', ''tag'', ''a'', ''b'', ''-l'', ''c'', ''--'', ''x.j'']) =
     bind (main_handle_rename (str ''--rename'') closure (str ''tag'') (str ''a'') (str ''b'')) (\<lambda>_.
     bind (main_handle_library_file (str ''l'') closure (str ''c'')) (\<lambda>_. ret 7))"
proof
  let ?rename = "\<lparr>use_entry = main_linker_arg_list ! 13, use_long = True, use_sign = 45, use_args = map str [''tag'', ''a'', ''b'']\<rparr>"
  let ?library = "\<lparr>use_entry = main_linker_arg_list ! 9, use_long = False, use_sign = 45, use_args = [str ''c'']\<rparr>"
  have "list_all (use_ok main_linker_arg_list) [?rename, ?library]"
    by (simp add: use_ok_def main_linker_arg_list_def main_arg_def)
  moreover have seven: "7 = Suc (Suc (Suc (Suc (Suc (Suc (Suc 0))))))" by simp
  ultimately show "arg_parse_arguments main_linker_arg_list []
      (map str [''--rename'', ''tag'', ''a'', ''b'', ''-l'', ''c'', ''--'', ''x.j'']) =
     bind (main_handle_rename (str ''--rename'') (arg_usage [] main_linker_arg_list) (str ''tag'') (str ''a'') (str ''b'')) (\<lambda>_.
     bind (main_handle_library_file (str ''l'') (arg_usage [] main_linker_arg_list) (str ''c'')) (\<lambda>_. ret 7))"
    using options_in_order[OF tables_ok(4), of "[?rename, ?library]" "[]" "[str ''x.j'']"]
    unfolding seven
    by (simp add: use_words_def use_option_def use_effect_def main_arg_def bind_assoc str_def
        main_linker_arg_list_def [THEN arg_cong [where f = "\<lambda>l. l ! 13"]]
        main_linker_arg_list_def [THEN arg_cong [where f = "\<lambda>l. l ! 9"]])
qed


section \<open>Named strings\<close>

lemma error_define_new:
  assumes "string_tbl.wf t" "error_lookup_string t name = None"
  shows "error_define_string name c t =
    Some (length (entries t), string_tbl.insert_entry \<lparr>es_name = name, es_contents = c\<rparr> t)"
  using assms(2) by (simp add: error_define_string_def string_tbl.insert_entry_def table_alloc_def)

lemma error_intern_new:
  assumes "string_tbl.wf t" "distinct (map fst vec)" "\<And>n. n \<in> fst ` set vec \<Longrightarrow> error_lookup_string t n = None"
  shows "\<exists>t'. error_intern_strings vec t = Some t' \<and>
    (\<forall>n. error_lookup_string t' n \<noteq> None \<longleftrightarrow> n \<in> fst ` set vec \<or> error_lookup_string t n \<noteq> None)"
  using assms
proof (induction vec arbitrary: t)
  case (Cons p vec)
  obtain name c where p: "p = (name, c)" by (cases p)
  let ?e = "\<lparr>es_name = name, es_contents = c\<rparr>"
  let ?t = "string_tbl.insert_entry ?e t"
  have new: "error_lookup_string t (es_name ?e) = None" using Cons.prems(3) p by simp
  have get: "error_lookup_string ?t n = (if n = name then Some (length (entries t)) else error_lookup_string t n)" for n
    using string_tbl.get_insert[OF Cons.prems(1) new] by simp
  have "\<exists>t'. error_intern_strings vec ?t = Some t' \<and>
    (\<forall>n. error_lookup_string t' n \<noteq> None \<longleftrightarrow> n \<in> fst ` set vec \<or> error_lookup_string ?t n \<noteq> None)"
  proof (rule Cons.IH)
    show "string_tbl.wf ?t" by (rule string_tbl.insert_wf[OF Cons.prems(1) new])
    show "distinct (map fst vec)" using Cons.prems(2) by simp
    show "error_lookup_string ?t n = None" if "n \<in> fst ` set vec" for n
      using Cons.prems(2,3) that p by (auto simp: get)
  qed
  then show ?case
    using p error_define_new[OF Cons.prems(1), of name c] new by (auto simp: get)
qed simp

lemma main_define_strings_ok:
  assumes "string_table s = table_create STRING_TABLE_SIZE"
  shows "\<exists>t. main_define_strings s = (Ret (), s\<lparr>string_table := t\<rparr>) \<and>
    (\<forall>n \<in> fst ` set main_description_strings. error_lookup_string t n \<noteq> None)"
proof -
  let ?e = "\<lparr>es_name = str ''tld usage message'', es_contents = main_usage\<rparr>"
  let ?t = "string_tbl.insert_entry ?e (table_create STRING_TABLE_SIZE)"
  have new: "error_lookup_string (table_create STRING_TABLE_SIZE) n = None" for n
    by (rule string_tbl.get_create)
  have get: "error_lookup_string ?t n = None" if "n \<noteq> es_name ?e" for n
    using string_tbl.get_insert[OF string_tbl.create_wf new[of "es_name ?e"], of n] that new by simp
  have "distinct (map fst main_description_strings)" "es_name ?e \<notin> fst ` set main_description_strings"
    unfolding main_description_strings_def by (simp_all add: str_inject)
  then obtain t' where "error_intern_strings main_description_strings ?t = Some t'"
    "\<And>n. n \<in> fst ` set main_description_strings \<Longrightarrow> error_lookup_string t' n \<noteq> None"
    using error_intern_new[of ?t main_description_strings] string_tbl.insert_wf[OF string_tbl.create_wf new[of "es_name ?e"]] get
    by (metis (no_types, lifting))
  then show ?thesis
    using assms error_define_new[OF string_tbl.create_wf new, of "str ''tld usage message''" main_usage]
    by (auto simp: main_define_strings_def bind_def gets_def modify_def)
qed

lemma intern_descriptions_ok:
  "list_all (\<lambda>e. error_lookup_string t (al_u e) \<noteq> None) arg_list \<Longrightarrow>
   \<exists>l. arg_parse_intern_descriptions t arg_list = Some l"
  by (induction arg_list) auto

text \<open>Every description that a table of the linker names is defined.\<close>

lemma descriptions_defined:
  "al_u ` set (main_builder_arg_list @ main_contents_arg_list @ main_extract_arg_list @ main_linker_arg_list)
     \<subseteq> fst ` set main_description_strings"
  unfolding main_description_strings_def main_builder_arg_list_def main_contents_arg_list_def
    main_extract_arg_list_def main_linker_arg_list_def main_arg_def
  by simp

lemma intern_contents:
  assumes "string_table s = table_create STRING_TABLE_SIZE"
  obtains t l where "main_define_strings s = (Ret (), s\<lparr>string_table := t\<rparr>)"
    "arg_parse_intern_descriptions t main_contents_arg_list = Some l"
proof -
  obtain t where t: "main_define_strings s = (Ret (), s\<lparr>string_table := t\<rparr>)"
    "\<forall>n \<in> fst ` set main_description_strings. error_lookup_string t n \<noteq> None"
    using main_define_strings_ok[OF assms] by blast
  have "al_u e \<in> fst ` set main_description_strings" if "e \<in> set main_contents_arg_list" for e
    by (rule subsetD [OF descriptions_defined]) (use that in simp)
  with t(2) have "list_all (\<lambda>e. error_lookup_string t (al_u e) \<noteq> None) main_contents_arg_list"
    unfolding list_all_iff by (intro ballI) (elim bspec)
  with intern_descriptions_ok t(1) that show ?thesis by blast
qed

lemma parse_file_name:
  assumes "char_at name 0 \<noteq> 45" "char_at name 0 \<noteq> 43"
  shows "arg_parse_arguments l usage [name] = ret 0"
  using assms by (simp add: arg_parse_arguments_def arg_parse_one_def Let_def bind_def ret_def fun_eq_iff)

section \<open>Two inputs\<close>

text \<open>The state in which the process starts, with files that can be read and files that can be written.\<close>

definition main_start :: "(cstring \<Rightarrow> ifile option) \<Rightarrow> (cstring \<Rightarrow> ofile option) \<Rightarrow> main_state" where
  "main_start ins outs =
     \<lparr>exit_status = False, number_errors = 0, max_reported = ERROR_SEVERITY_INFORMATION,
      files_in = ins, files_out = outs,
      reader = \<lparr>rd_u = RT_STRING \<lparr>rs_contents = [], rs_current = 0, rs_limit = 0, rs_name = [], rs_byte = 0\<rparr>, rd_byte = 0, rd_new_byte = True\<rparr>,
      writer = \<lparr>wr_bostream = \<lparr>bo_file = \<lparr>of_data = [], of_limit = None\<rparr>, bo_name = None\<rparr>, wr_byte = 0, wr_new_byte = True\<rparr>,
      text_in = \<lparr>is_file = \<lparr>if_data = [], if_pos = 0, if_fail = None\<rparr>, is_buffer = [], is_current = 0, is_line = 0,
        is_name = None, is_read_last = False\<rparr>, written = [],
      cs_units = unit_table_create, cs_shapes = shape_table_create, cs_capsules = [],
      cs_need_setup = True, cs_unit_sets = None, cs_tld_index = 0, cs_tld2_index = 1, cs_unit_length = 0,
      cs_unit_offset = 0, cs_major_version = 0, cs_minor_version = 0,
      ls_shapes = shape_table_create, ls_libraries = [], ls_capsules = [], ls_output = [],
      main_used_one_off = False, main_used_other = False, main_arg_data = arg_data_init None,
      min_severity = ERROR_SEVERITY_ERROR, ostream_error = ostream_static\<lparr>os_name := Some (str ''<stderr>''), os_no := 1\<rparr>,
      string_table = table_create STRING_TABLE_SIZE\<rparr>"

lemma main_start_simps [simp]:
  "string_table (main_start ins outs) = table_create STRING_TABLE_SIZE" "files_in (main_start ins outs) = ins"
  "number_errors (main_start ins outs) = 0" "max_reported (main_start ins outs) = ERROR_SEVERITY_INFORMATION"
  by (simp_all add: main_start_def)

text \<open>
  C20: The message for an illegal mode is not printed when the mode is the only argument: the linker
  dereferences the null pointer at the end of the argument vector.
\<close>

theorem illegal_mode_crashes:
  assumes "string_table s = table_create STRING_TABLE_SIZE" "char_at mode 0 = 45" "char_at mode 1 = 109"
    "char_at mode 2 \<notin> set (str ''ctxlv'')"
  shows "\<exists>t. main [name, mode] s = (Raise Undefined, t)"
proof -
  obtain t l where "main_define_strings s = (Ret (), s\<lparr>string_table := t\<rparr>)"
    using intern_contents[OF assms(1)] by blast
  moreover have "main_mode [mode] s' = (Raise Undefined, s')" for s'
    using assms(2-4) by (simp add: Let_def str_def bind_def index_def)
  ultimately show ?thesis
    by (simp add: main_def main_init_def handle_def bind_def check_def)
qed

theorem illegal_mode_crashes_witness:
  "\<exists>t. main [str ''tld'', str ''-mz''] (main_start Map.empty Map.empty) = (Raise Undefined, t)"
  by (rule illegal_mode_crashes) (simp_all add: char_at_def str_def)

text \<open>
  C19: Listing the contents of a library that cannot be opened reports a serious error, and then the
  program exits with success: the status that the error set is not used.
\<close>

theorem missing_library_exits_with_success:
  assumes "string_table s = table_create STRING_TABLE_SIZE" "files_in s library = None"
    "char_at library 0 \<noteq> 45" "char_at library 0 \<noteq> 43" "number_errors s + 1 < maximum_errors"
    "max_reported s < ERROR_SEVERITY_ERROR"
  shows "\<exists>t. main [name, str ''-mt'', library] s = (Ret (), t) \<and> exit_status t \<and> number_errors t = number_errors s + 1"
proof -
  obtain t l where t: "main_define_strings s = (Ret (), s\<lparr>string_table := t\<rparr>)"
    "arg_parse_intern_descriptions t main_contents_arg_list = Some l"
    using intern_contents[OF assms(1)] by blast
  let ?s = "s\<lparr>string_table := t, main_arg_data := arg_data_init None\<rparr>"
  let ?a = "(arg_data_init None)\<lparr>ad_files := [library]\<rparr>"
  have mode: "main_mode [str ''-mt'', library] u =
      (Ret (MODE_CONTENTS, main_contents_arg_list, [library]), u\<lparr>main_arg_data := arg_data_init None\<rparr>)" for u
    by (simp add: char_at_def str_def main_set_mode_def modify_def bind_def ret_def)
  have "main_init [name, str ''-mt'', library] s = (Ret (Some MODE_CONTENTS), ?s\<lparr>main_arg_data := ?a\<rparr>)"
    by (simp add: t mode parse_file_name[OF assms(3,4)] main_init_def bind_def check_def gets_def ret_def modify_def
        arg_data_set_files_def del: main_mode.simps)
  moreover have "contents_main ?a (?s\<lparr>main_arg_data := ?a\<rparr>) =
      (Ret (), ?s\<lparr>main_arg_data := ?a, exit_status := True, number_errors := number_errors s + 1\<rparr>)"
    using assms(2,5,6)
    by (simp add: contents_main_def bind_def ret_def arg_data_init_def library_create_stream_input_def tdf_reader_open_def
        bistream_open_def error_msg_serious
        exit_on_error_def error_max_reported_severity_def gets_def raise_def)
  ultimately show ?thesis
    by (simp add: main_def handle_def bind_def gets_def main_front_end_def)
qed

theorem missing_library_exits_with_success_witness:
  "\<exists>t. main [str ''tld'', str ''-mt'', str ''x.tl''] (main_start Map.empty Map.empty) = (Ret (), t) \<and> exit_status t
     \<and> number_errors t = 1"
  using missing_library_exits_with_success[of "main_start Map.empty Map.empty" "str ''x.tl''" "str ''tld''"]
  by (simp add: char_at_def str_def maximum_errors_def less_ESeverityT_def)

end
