(* ===== verification/Exds_Bitvec.thy ===== *)
theory Exds_Bitvec
  imports Exds_Ostream
begin

text \<open>
  Bit vectors of libexds, \<^verbatim>\<open>bitvec.c\<close>: sets of small numbers, eight to a byte, all of the one size that
  \<^verbatim>\<open>bitvec_set_size\<close> has set. The parser generator \<^verbatim>\<open>sid\<close> keeps its sets of terminals in them. A vector is
  the list of its bytes; reading or writing outside it, and a bit that fails the assertion, is \<^verbatim>\<open>None\<close>. The
  locale \<open>bounded_set\<close> is the contract of sets of numbers below a bound.
\<close>

section \<open>bitvec.c\<close>

type_synonym BitVecT = "byte list"

record bitvec_ctx =
  bitvec_size :: cuint
  bitvec_valid_bits :: cuint
  bitvec_mask :: byte

definition NUM_BITS :: cuint where
  "NUM_BITS = 8"

fun bitvec_mask_loop :: "nat \<Rightarrow> cuint \<Rightarrow> cuint" where
  "bitvec_mask_loop 0 m = m"
| "bitvec_mask_loop (Suc i) m = bitvec_mask_loop i (drop_bit 1 m OR push_bit (unat (NUM_BITS - 1)) 1)"

definition bitvec_set_size :: "cuint \<Rightarrow> bitvec_ctx" where
  "bitvec_set_size n =
     \<lparr>bitvec_size = (n + NUM_BITS - 1) div NUM_BITS,
      bitvec_valid_bits = n,
      bitvec_mask = NOT (if n mod NUM_BITS \<noteq> 0
                         then ucast (bitvec_mask_loop (unat (NUM_BITS - n mod NUM_BITS)) 0) else 0)\<rparr>"

definition bitvec_init :: "bitvec_ctx \<Rightarrow> BitVecT" where
  "bitvec_init ctx = replicate (unat (bitvec_size ctx)) 0"

definition bitvec_copy :: "bitvec_ctx \<Rightarrow> BitVecT \<Rightarrow> BitVecT option" where
  "bitvec_copy ctx from =
     (if unat (bitvec_size ctx) \<le> length from then Some (take (unat (bitvec_size ctx)) from) else None)"

definition bitvec_replace :: "bitvec_ctx \<Rightarrow> BitVecT \<Rightarrow> BitVecT \<Rightarrow> BitVecT option" where
  "bitvec_replace ctx to from =
     (let n = unat (bitvec_size ctx) in
      if n \<le> length from \<and> n \<le> length to then Some (take n from @ drop n to) else None)"

definition bitvec_empty :: "bitvec_ctx \<Rightarrow> BitVecT \<Rightarrow> BitVecT option" where
  "bitvec_empty ctx bitvec =
     (let n = unat (bitvec_size ctx) in
      if n \<le> length bitvec then Some (replicate n 0 @ drop n bitvec) else None)"

fun bitvec_is_empty_loop :: "nat \<Rightarrow> byte list \<Rightarrow> bool option" where
  "bitvec_is_empty_loop 0 bits = Some True"
| "bitvec_is_empty_loop (Suc bytes) [] = None"
| "bitvec_is_empty_loop (Suc bytes) (b # bits) = (if b \<noteq> 0 then Some False else bitvec_is_empty_loop bytes bits)"

definition bitvec_is_empty :: "bitvec_ctx \<Rightarrow> BitVecT \<Rightarrow> bool option" where
  "bitvec_is_empty ctx bitvec = bitvec_is_empty_loop (unat (bitvec_size ctx)) bitvec"

fun bitvec_is_full_loop :: "byte \<Rightarrow> nat \<Rightarrow> byte list \<Rightarrow> bool option" where
  "bitvec_is_full_loop m 0 bits = Some True"
| "bitvec_is_full_loop m (Suc bytes) [] = None"
| "bitvec_is_full_loop m (Suc bytes) (b # bits) =
     (let b = (if bytes = 0 then b OR NOT m else b) in
      if NOT b \<noteq> 0 then Some False else bitvec_is_full_loop m bytes bits)"

definition bitvec_is_full :: "bitvec_ctx \<Rightarrow> BitVecT \<Rightarrow> bool option" where
  "bitvec_is_full ctx bitvec = bitvec_is_full_loop (bitvec_mask ctx) (unat (bitvec_size ctx)) bitvec"

definition bitvec_byte :: "cuint \<Rightarrow> nat" where
  "bitvec_byte i = unat (i div NUM_BITS)"

definition bitvec_bit :: "cuint \<Rightarrow> byte" where
  "bitvec_bit i = push_bit (unat (i mod NUM_BITS)) 1"

definition bitvec_set :: "bitvec_ctx \<Rightarrow> BitVecT \<Rightarrow> cuint \<Rightarrow> BitVecT option" where
  "bitvec_set ctx bitvec i =
     (if i < bitvec_valid_bits ctx \<and> bitvec_byte i < length bitvec
      then Some (bitvec[bitvec_byte i := bitvec ! bitvec_byte i OR bitvec_bit i]) else None)"

definition bitvec_is_set :: "bitvec_ctx \<Rightarrow> BitVecT \<Rightarrow> cuint \<Rightarrow> bool option" where
  "bitvec_is_set ctx bitvec i =
     (if i < bitvec_valid_bits ctx \<and> bitvec_byte i < length bitvec
      then Some (bitvec ! bitvec_byte i AND bitvec_bit i \<noteq> 0) else None)"

fun bitvec_or_loop :: "nat \<Rightarrow> byte list \<Rightarrow> byte list \<Rightarrow> byte list option" where
  "bitvec_or_loop 0 to from = Some to"
| "bitvec_or_loop (Suc bytes) (t # to) (f # from) = map_option (Cons (t OR f)) (bitvec_or_loop bytes to from)"
| "bitvec_or_loop (Suc bytes) to from = None"

definition bitvec_or :: "bitvec_ctx \<Rightarrow> BitVecT \<Rightarrow> BitVecT \<Rightarrow> BitVecT option" where
  "bitvec_or ctx to from = bitvec_or_loop (unat (bitvec_size ctx)) to from"

fun bitvec_and_loop :: "nat \<Rightarrow> byte list \<Rightarrow> byte list \<Rightarrow> byte list option" where
  "bitvec_and_loop 0 to from = Some to"
| "bitvec_and_loop (Suc bytes) (t # to) (f # from) = map_option (Cons (t AND f)) (bitvec_and_loop bytes to from)"
| "bitvec_and_loop (Suc bytes) to from = None"

definition bitvec_and :: "bitvec_ctx \<Rightarrow> BitVecT \<Rightarrow> BitVecT \<Rightarrow> BitVecT option" where
  "bitvec_and ctx to from = bitvec_and_loop (unat (bitvec_size ctx)) to from"

fun bitvec_not_loop :: "nat \<Rightarrow> byte list \<Rightarrow> byte list option" where
  "bitvec_not_loop 0 to = Some to"
| "bitvec_not_loop (Suc bytes) [] = None"
| "bitvec_not_loop (Suc bytes) (t # to) = map_option (Cons (NOT t)) (bitvec_not_loop bytes to)"

text \<open>The mask is applied to the last byte whatever the size is.\<close>

definition bitvec_not :: "bitvec_ctx \<Rightarrow> BitVecT \<Rightarrow> BitVecT option" where
  "bitvec_not ctx to =
     (case bitvec_not_loop (unat (bitvec_size ctx)) to of
        None \<Rightarrow> None
      | Some to \<Rightarrow>
          (let i = unat (bitvec_size ctx - 1) in
           if i < length to then Some (to[i := to ! i AND bitvec_mask ctx]) else None))"

fun bitvec_equal_loop :: "nat \<Rightarrow> byte list \<Rightarrow> byte list \<Rightarrow> bool option" where
  "bitvec_equal_loop 0 a b = Some True"
| "bitvec_equal_loop (Suc bytes) (x # a) (y # b) = (if x \<noteq> y then Some False else bitvec_equal_loop bytes a b)"
| "bitvec_equal_loop (Suc bytes) a b = None"

definition bitvec_equal :: "bitvec_ctx \<Rightarrow> BitVecT \<Rightarrow> BitVecT \<Rightarrow> bool option" where
  "bitvec_equal ctx a b = bitvec_equal_loop (unat (bitvec_size ctx)) a b"

fun bitvec_intersects_loop :: "nat \<Rightarrow> byte list \<Rightarrow> byte list \<Rightarrow> bool option" where
  "bitvec_intersects_loop 0 a b = Some False"
| "bitvec_intersects_loop (Suc bytes) (x # a) (y # b) =
     (if x AND y \<noteq> 0 then Some True else bitvec_intersects_loop bytes a b)"
| "bitvec_intersects_loop (Suc bytes) a b = None"

definition bitvec_intersects :: "bitvec_ctx \<Rightarrow> BitVecT \<Rightarrow> BitVecT \<Rightarrow> bool option" where
  "bitvec_intersects ctx a b = bitvec_intersects_loop (unat (bitvec_size ctx)) a b"

text \<open>The loops over the bits from \<open>i\<close> on; \<open>n\<close> is the number of bits left.\<close>

fun bitvec_num_bits_loop :: "bitvec_ctx \<Rightarrow> BitVecT \<Rightarrow> nat \<Rightarrow> cuint \<Rightarrow> cuint \<Rightarrow> cuint option" where
  "bitvec_num_bits_loop ctx bitvec 0 i num_bits = Some num_bits"
| "bitvec_num_bits_loop ctx bitvec (Suc n) i num_bits =
     (case bitvec_is_set ctx bitvec i of
        None \<Rightarrow> None
      | Some b \<Rightarrow> bitvec_num_bits_loop ctx bitvec n (i + 1) (if b then num_bits + 1 else num_bits))"

definition bitvec_num_bits :: "bitvec_ctx \<Rightarrow> BitVecT \<Rightarrow> cuint option" where
  "bitvec_num_bits ctx bitvec = bitvec_num_bits_loop ctx bitvec (unat (bitvec_valid_bits ctx)) 0 0"

fun bitvec_find_bit :: "bitvec_ctx \<Rightarrow> BitVecT \<Rightarrow> nat \<Rightarrow> cuint \<Rightarrow> cuint option option" where
  "bitvec_find_bit ctx bitvec 0 i = Some None"
| "bitvec_find_bit ctx bitvec (Suc n) i =
     (case bitvec_is_set ctx bitvec i of
        None \<Rightarrow> None
      | Some b \<Rightarrow> if b then Some (Some i) else bitvec_find_bit ctx bitvec n (i + 1))"

definition bitvec_first_bit :: "bitvec_ctx \<Rightarrow> BitVecT \<Rightarrow> cuint option" where
  "bitvec_first_bit ctx bitvec =
     map_option (case_option (bitvec_valid_bits ctx) id)
       (bitvec_find_bit ctx bitvec (unat (bitvec_valid_bits ctx)) 0)"

text \<open>The next bit behind \<open>next_ref\<close>, or none.\<close>

definition bitvec_next_bit :: "bitvec_ctx \<Rightarrow> BitVecT \<Rightarrow> cuint \<Rightarrow> cuint option option" where
  "bitvec_next_bit ctx bitvec next_ref =
     bitvec_find_bit ctx bitvec (unat (bitvec_valid_bits ctx) - unat (next_ref + 1)) (next_ref + 1)"

text \<open>The separators between the indices depend on how many are still to come.\<close>

fun write_bitvec_loop :: "bitvec_ctx \<Rightarrow> BitVecT \<Rightarrow> nat \<Rightarrow> cuint \<Rightarrow> cuint \<Rightarrow> (OStreamT, unit) prog" where
  "write_bitvec_loop ctx bitvec 0 i num_bits_set = ret ()"
| "write_bitvec_loop ctx bitvec (Suc n) i num_bits_set =
     bind (defined (bitvec_is_set ctx bitvec i)) (\<lambda>b.
     if b then
       bind (write_unsigned i) (\<lambda>_.
       let num_bits_set = num_bits_set - 1 in
       bind (if num_bits_set = 1 then write_cstring (str '' & '')
             else if num_bits_set \<noteq> 0 then write_cstring (str '', '') else ret ()) (\<lambda>_.
       write_bitvec_loop ctx bitvec n (i + 1) num_bits_set))
     else write_bitvec_loop ctx bitvec n (i + 1) num_bits_set)"

definition write_bitvec_indices :: "bitvec_ctx \<Rightarrow> BitVecT \<Rightarrow> (OStreamT, unit) prog" where
  "write_bitvec_indices ctx bitvec =
     bind (defined (bitvec_num_bits ctx bitvec)) (\<lambda>num_bits_set.
     write_bitvec_loop ctx bitvec (unat (bitvec_valid_bits ctx)) 0 num_bits_set)"

section \<open>Representation\<close>

text \<open>The numbers in a vector, and the vectors that hold only numbers below the bound.\<close>

definition bits_of :: "BitVecT \<Rightarrow> nat set" where
  "bits_of v = {i. i div 8 < length v \<and> bit (v ! (i div 8)) (i mod 8)}"

definition bitvec_ok :: "nat \<Rightarrow> BitVecT \<Rightarrow> bool" where
  "bitvec_ok n v \<longleftrightarrow> length v = (n + 7) div 8 \<and> bits_of v \<subseteq> {..<n}"

lemma mask_loop: "r < 8 \<Longrightarrow> r \<noteq> 0 \<Longrightarrow> NOT (ucast (bitvec_mask_loop (8 - r) 0)) = (mask r :: byte)"
proof -
  assume "r < 8" "r \<noteq> 0"
  then consider "r = 1" | "r = 2" | "r = 3" | "r = 4" | "r = 5" | "r = 6" | "r = 7" by linarith
  then show ?thesis by cases (simp; code_simp)+
qed

lemma unat_8: "unat (8 :: cuint) = 8"
  by simp

lemma set_size_simps:
  assumes "unat n + 7 < 2 ^ 32"
  shows "unat (bitvec_size (bitvec_set_size n)) = (unat n + 7) div 8"
    "bitvec_valid_bits (bitvec_set_size n) = n"
    "bitvec_mask (bitvec_set_size n) = (if unat n mod 8 = 0 then - 1 else mask (unat n mod 8))"
proof -
  have "unat (n + 7) = unat n + 7" using assms by (simp add: unat_word_ariths)
  then show "unat (bitvec_size (bitvec_set_size n)) = (unat n + 7) div 8"
    by (simp add: bitvec_set_size_def NUM_BITS_def algebra_simps) (simp only: unat_div unat_8)
  show "bitvec_valid_bits (bitvec_set_size n) = n" by (simp add: bitvec_set_size_def)
  have m: "unat (n mod 8) = unat n mod 8" by (simp only: unat_mod unat_8)
  then have "n mod 8 = 0 \<longleftrightarrow> unat n mod 8 = 0" by (metis unat_eq_zero)
  moreover have "unat (8 - n mod 8) = 8 - unat n mod 8"
    using m by (subst unat_sub) (simp_all add: word_le_nat_alt)
  ultimately show "bitvec_mask (bitvec_set_size n) = (if unat n mod 8 = 0 then - 1 else mask (unat n mod 8))"
    using mask_loop[of "unat n mod 8"] by (simp add: bitvec_set_size_def NUM_BITS_def)
qed

lemma nth_byte_lt: "(i::nat) < n \<Longrightarrow> i div 8 < (n + 7) div 8"
  by linarith

lemma bits_ofI: "length v = length w \<Longrightarrow> (\<And>i. i div 8 < length v \<Longrightarrow> bit (v ! (i div 8)) (i mod 8) = bit (w ! (i div 8)) (i mod 8))
   \<Longrightarrow> bits_of v = bits_of w"
  by (auto simp: bits_of_def)

lemma byte_eqI: "(\<And>j. j < 8 \<Longrightarrow> bit (a :: byte) j = bit b j) \<Longrightarrow> a = b"
  by (rule bit_word_eqI) simp

lemma bits_of_inject:
  assumes "bits_of v = bits_of w" "length v = length w"
  shows "v = w"
proof (rule nth_equalityI[OF assms(2)])
  fix k assume k: "k < length v"
  show "v ! k = w ! k"
  proof (rule byte_eqI)
    fix j :: nat assume j: "j < 8"
    then have "(8 * k + j) div 8 = k" "(8 * k + j) mod 8 = j" by simp_all
    with assms k show "bit (v ! k) j = bit (w ! k) j"
      unfolding bits_of_def by (metis (mono_tags, lifting) mem_Collect_eq)
  qed
qed

section \<open>The loops\<close>

lemma or_loop: "length to = n \<Longrightarrow> length src = n \<Longrightarrow> bitvec_or_loop n to src = Some (map2 (OR) to src)"
  by (induction n to src rule: bitvec_or_loop.induct) auto

lemma and_loop: "length to = n \<Longrightarrow> length src = n \<Longrightarrow> bitvec_and_loop n to src = Some (map2 (AND) to src)"
  by (induction n to src rule: bitvec_and_loop.induct) auto

lemma not_loop: "length to = n \<Longrightarrow> bitvec_not_loop n to = Some (map NOT to)"
  by (induction n to rule: bitvec_not_loop.induct) auto

lemma is_empty_loop: "length v = n \<Longrightarrow> bitvec_is_empty_loop n v = Some (\<forall>b\<in>set v. b = 0)"
  by (induction n v rule: bitvec_is_empty_loop.induct) auto

lemma equal_loop: "length a = n \<Longrightarrow> length b = n \<Longrightarrow> bitvec_equal_loop n a b = Some (a = b)"
  by (induction n a b rule: bitvec_equal_loop.induct) auto

lemma intersects_loop:
  "length a = n \<Longrightarrow> length b = n \<Longrightarrow> bitvec_intersects_loop n a b = Some (\<exists>x\<in>set (map2 (AND) a b). x \<noteq> 0)"
  by (induction n a b rule: bitvec_intersects_loop.induct) auto

lemma byte_zero: "b = (0 :: byte) \<longleftrightarrow> (\<forall>j<8. \<not> bit b j)"
  by (metis byte_eqI bit_0_eq bot_apply bot_bool_def)

lemma bits_of_empty: "bits_of v = {} \<longleftrightarrow> (\<forall>b\<in>set v. b = 0)"
proof
  assume e: "bits_of v = {}"
  show "\<forall>b\<in>set v. b = 0"
  proof
    fix b assume "b \<in> set v"
    then obtain k where k: "k < length v" "b = v ! k" by (auto simp: in_set_conv_nth)
    have "\<not> bit b j" if "j < 8" for j
    proof -
      have "8 * k + j \<notin> bits_of v" using e by simp
      with k that show ?thesis by (simp add: bits_of_def)
    qed
    then show "b = 0" by (simp add: byte_zero)
  qed
next
  assume z: "\<forall>b\<in>set v. b = 0"
  have "v ! (i div 8) = 0" if "i div 8 < length v" for i using z nth_mem[OF that] by blast
  then show "bits_of v = {}" by (auto simp: bits_of_def)
qed

lemma bits_of_or: "length a = length b \<Longrightarrow> bits_of (map2 (OR) a b) = bits_of a \<union> bits_of b"
  by (auto simp: bits_of_def bit_or_iff)

lemma bits_of_and: "length a = length b \<Longrightarrow> bits_of (map2 (AND) a b) = bits_of a \<inter> bits_of b"
  by (auto simp: bits_of_def bit_and_iff)

lemma bits_of_subset: "length v = (n + 7) div 8 \<Longrightarrow> bits_of v \<subseteq> {..<8 * ((n + 7) div 8)}"
  by (auto simp: bits_of_def)

text \<open>The last byte is the only one that may have bits at or above the bound.\<close>

lemma bytes_for: "(n + 7) div 8 = n div 8 + (if n mod 8 = 0 then 0 else 1)" for n :: nat
  by presburger

lemma last_byte:
  fixes i n :: nat
  assumes "i div 8 < (n + 7) div 8" "\<not> i < n"
  shows "i div 8 = (n + 7) div 8 - 1 \<and> n mod 8 \<noteq> 0 \<and> n mod 8 \<le> i mod 8"
proof -
  have "n div 8 \<le> i div 8" using assms(2) by (intro div_le_mono) simp
  with assms(1) have d: "i div 8 = n div 8" "n mod 8 \<noteq> 0" by (simp_all add: bytes_for split: if_splits)
  moreover have "n mod 8 \<le> i mod 8"
    using assms(2) d(1) div_mult_mod_eq[of i 8] div_mult_mod_eq[of n 8] by linarith
  ultimately show ?thesis by (simp add: bytes_for)
qed

lemma below_last:
  fixes i n :: nat
  assumes "i < n" "i div 8 = (n + 7) div 8 - 1"
  shows "n mod 8 = 0 \<or> i mod 8 < n mod 8"
proof (cases "n mod 8 = 0")
  case False
  then have "i div 8 = n div 8" using assms(2) by (simp add: bytes_for)
  then show ?thesis
    using assms(1) div_mult_mod_eq[of i 8] div_mult_mod_eq[of n 8] by linarith
qed simp

lemma byte_bit:
  "bitvec_byte i = unat i div 8" "bit (bitvec_bit i) j \<longleftrightarrow> j = unat i mod 8"
proof -
  show "bitvec_byte i = unat i div 8" by (simp only: bitvec_byte_def NUM_BITS_def unat_div unat_8)
  have "unat (i mod 8) = unat i mod 8" by (simp only: unat_mod unat_8)
  then show "bit (bitvec_bit i) j \<longleftrightarrow> j = unat i mod 8"
    using mod_less_divisor[of 8 "unat i"] by (auto simp: bitvec_bit_def NUM_BITS_def bit_exp_iff simp del: mod_less_divisor)
qed

section \<open>Contract\<close>

text \<open>
  Sets of numbers below \<open>n\<close>, the operations in the form the code has them: partial on representations,
  numbers as unsigned integers.
\<close>

locale bounded_set =
  fixes n :: nat
    and ok :: "'v \<Rightarrow> bool"
    and elems :: "'v \<Rightarrow> nat set"
    and empty :: 'v
    and add :: "'v \<Rightarrow> cuint \<Rightarrow> 'v option"
    and isin :: "'v \<Rightarrow> cuint \<Rightarrow> bool option"
    and union :: "'v \<Rightarrow> 'v \<Rightarrow> 'v option"
    and inter :: "'v \<Rightarrow> 'v \<Rightarrow> 'v option"
    and compl :: "'v \<Rightarrow> 'v option"
    and equal :: "'v \<Rightarrow> 'v \<Rightarrow> bool option"
  assumes bound: "n < 2 ^ 32"
    and below: "ok v \<Longrightarrow> elems v \<subseteq> {..<n}"
    and empty_ok: "ok empty" "elems empty = {}"
    and add_ok: "ok v \<Longrightarrow> unat i < n \<Longrightarrow> \<exists>w. add v i = Some w \<and> ok w \<and> elems w = insert (unat i) (elems v)"
    and isin_ok: "ok v \<Longrightarrow> unat i < n \<Longrightarrow> isin v i = Some (unat i \<in> elems v)"
    and union_ok: "ok v \<Longrightarrow> ok w \<Longrightarrow> \<exists>u. union v w = Some u \<and> ok u \<and> elems u = elems v \<union> elems w"
    and inter_ok: "ok v \<Longrightarrow> ok w \<Longrightarrow> \<exists>u. inter v w = Some u \<and> ok u \<and> elems u = elems v \<inter> elems w"
    and compl_ok: "ok v \<Longrightarrow> 0 < n \<Longrightarrow> \<exists>u. compl v = Some u \<and> ok u \<and> elems u = {..<n} - elems v"
    and equal_ok: "ok v \<Longrightarrow> ok w \<Longrightarrow> equal v w = Some (elems v = elems w)"
begin

text \<open>What a client builds from its operations.\<close>

fun add_all :: "'v \<Rightarrow> cuint list \<Rightarrow> 'v option" where
  "add_all v [] = Some v"
| "add_all v (i # is) = (case add v i of None \<Rightarrow> None | Some w \<Rightarrow> add_all w is)"

lemma add_all_ok:
  "ok v \<Longrightarrow> (\<And>i. i \<in> set is \<Longrightarrow> unat i < n) \<Longrightarrow> \<exists>w. add_all v is = Some w \<and> ok w \<and> elems w = elems v \<union> unat ` set is"
proof (induction "is" arbitrary: v)
  case (Cons i "is")
  obtain w where w: "add v i = Some w" "ok w" "elems w = insert (unat i) (elems v)"
    using add_ok[of v i] Cons.prems by auto
  then obtain u where "add_all w is = Some u" "ok u" "elems u = elems w \<union> unat ` set is"
    using Cons.IH[of w] Cons.prems(2) by auto
  with w show ?case by auto
qed simp

lemma finite_elems: "ok v \<Longrightarrow> finite (elems v)"
  using below finite_subset by blast

text \<open>A loop that unites sets until nothing changes comes to an end: every round that changes the set adds an element.\<close>

lemma union_grows:
  assumes "ok v" "ok w" "union v w = Some u" "equal u v = Some False"
  shows "card (elems v) < card (elems u)" "card (elems u) \<le> n"
proof -
  obtain u' where "union v w = Some u'" "ok u'" "elems u' = elems v \<union> elems w" using union_ok[OF assms(1,2)] by blast
  then have u: "ok u" "elems u = elems v \<union> elems w" using assms(3) by auto
  then have "elems v \<subset> elems u" using equal_ok[OF u(1) assms(1)] assms(4) by auto
  then show "card (elems v) < card (elems u)" by (rule psubset_card_mono[OF finite_elems[OF u(1)]])
  show "card (elems u) \<le> n" using card_mono[OF _ below[OF u(1)]] by simp
qed

end

section \<open>The vectors meet the contract\<close>

lemma set_ok:
  assumes "bitvec_ok (unat n) v" "unat i < unat n"
  shows "\<exists>w. bitvec_set (bitvec_set_size n) v i = Some w \<and> bitvec_ok (unat n) w \<and> bits_of w = insert (unat i) (bits_of v)"
proof -
  let ?k = "unat i div 8"
  have k: "?k < length v" using assms by (simp add: bitvec_ok_def nth_byte_lt)
  let ?w = "v[?k := v ! ?k OR bitvec_bit i]"
  have "j \<in> bits_of ?w \<longleftrightarrow> j = unat i \<or> j \<in> bits_of v" for j
  proof (cases "j div 8 = ?k")
    case True
    then have "j mod 8 = unat i mod 8 \<longleftrightarrow> j = unat i"
      by (metis div_mult_mod_eq)
    with True k show ?thesis by (auto simp: bits_of_def bit_or_iff byte_bit)
  next
    case False
    then show ?thesis by (auto simp: bits_of_def)
  qed
  then have "bits_of ?w = insert (unat i) (bits_of v)" by blast
  moreover have "bitvec_set (bitvec_set_size n) v i = Some ?w"
    using assms(2) k by (simp add: bitvec_set_def bitvec_set_size_def byte_bit word_less_nat_alt)
  ultimately show ?thesis using assms by (auto simp: bitvec_ok_def)
qed

lemma is_set_ok:
  assumes "bitvec_ok (unat n) v" "unat i < unat n"
  shows "bitvec_is_set (bitvec_set_size n) v i = Some (unat i \<in> bits_of v)"
proof -
  let ?k = "unat i div 8"
  have k: "?k < length v" using assms by (simp add: bitvec_ok_def nth_byte_lt)
  have "v ! ?k AND bitvec_bit i \<noteq> 0 \<longleftrightarrow> bit (v ! ?k) (unat i mod 8)"
    by (auto simp: byte_zero bit_and_iff byte_bit)
  then show ?thesis
    using assms(2) k by (simp add: bitvec_is_set_def bitvec_set_size_def byte_bit word_less_nat_alt bits_of_def)
qed

text \<open>The mask keeps, in the last byte, the bits below the bound.\<close>

lemma mask_keeps:
  fixes j n :: nat
  defines "m \<equiv> (if n mod 8 = 0 then - 1 else mask (n mod 8)) :: byte"
  assumes "j div 8 < (n + 7) div 8"
  shows "(j div 8 = (n + 7) div 8 - 1 \<longrightarrow> bit m (j mod 8)) \<longleftrightarrow> j < n"
proof -
  have "bit m (j mod 8) \<longleftrightarrow> n mod 8 = 0 \<or> j mod 8 < n mod 8" by (auto simp: m_def bit_mask_iff)
  then show ?thesis using last_byte[of j n] below_last[of j n] assms(2) by (cases "j < n") auto
qed

lemma not_ok:
  assumes "bitvec_ok (unat n) v" "0 < unat n" "unat n + 7 < 2 ^ 32"
  shows "\<exists>w. bitvec_not (bitvec_set_size n) v = Some w \<and> bitvec_ok (unat n) w \<and> bits_of w = {..<unat n} - bits_of v"
proof -
  let ?ctx = "bitvec_set_size n" and ?k = "(unat n + 7) div 8 - 1"
  let ?m = "if unat n mod 8 = 0 then - 1 else mask (unat n mod 8) :: byte"
  have len: "length v = (unat n + 7) div 8" using assms(1) by (simp add: bitvec_ok_def)
  have pos: "0 < (unat n + 7) div 8" using assms(2) by simp
  have size: "unat (bitvec_size ?ctx) = (unat n + 7) div 8" "bitvec_mask ?ctx = ?m"
    using set_size_simps[OF assms(3)] by simp_all
  have "unat (bitvec_size ?ctx - 1) = ?k"
    using size(1) pos by (subst unat_sub) (simp_all add: word_le_nat_alt)
  then have eq: "bitvec_not ?ctx v = Some ((map NOT v)[?k := NOT (v ! ?k) AND ?m])"
    using pos by (simp add: bitvec_not_def size not_loop len Let_def)
  let ?w = "(map NOT v)[?k := NOT (v ! ?k) AND ?m]"
  have "j \<in> bits_of ?w \<longleftrightarrow> j < unat n \<and> j \<notin> bits_of v" for j
  proof (cases "j div 8 < length v")
    case True
    then have "bit (?w ! (j div 8)) (j mod 8) \<longleftrightarrow> \<not> bit (v ! (j div 8)) (j mod 8) \<and> (j div 8 = ?k \<longrightarrow> bit ?m (j mod 8))"
      using len by (auto simp: nth_list_update bit_and_iff bit_not_iff)
    moreover have "(j div 8 = ?k \<longrightarrow> bit ?m (j mod 8)) \<longleftrightarrow> j < unat n"
      by (rule mask_keeps) (use True len in simp)
    ultimately show ?thesis using True by (auto simp: bits_of_def)
  next
    case False
    then show ?thesis using len nth_byte_lt[of j "unat n"] by (auto simp: bits_of_def)
  qed
  then have "bits_of ?w = {..<unat n} - bits_of v" by blast
  with eq len show ?thesis by (auto simp: bitvec_ok_def)
qed

text \<open>The sizes for which the number of bytes does not overflow.\<close>

lemma bitvec_bounded_set:
  assumes "unat n + 7 < 2 ^ 32"
  shows "bounded_set (unat n) (bitvec_ok (unat n)) bits_of (bitvec_init (bitvec_set_size n))
    (bitvec_set (bitvec_set_size n)) (bitvec_is_set (bitvec_set_size n)) (bitvec_or (bitvec_set_size n))
    (bitvec_and (bitvec_set_size n)) (bitvec_not (bitvec_set_size n)) (bitvec_equal (bitvec_set_size n))"
proof
  note size = set_size_simps(1)[OF assms]
  show "unat n < 2 ^ 32" using assms by simp
  show "bits_of v \<subseteq> {..<unat n}" if "bitvec_ok (unat n) v" for v using that by (simp add: bitvec_ok_def)
  have "bits_of (bitvec_init (bitvec_set_size n)) = {}" by (simp add: bits_of_empty bitvec_init_def)
  then show "bits_of (bitvec_init (bitvec_set_size n)) = {}" "bitvec_ok (unat n) (bitvec_init (bitvec_set_size n))"
    by (simp_all add: bitvec_ok_def bitvec_init_def size)
  fix v w :: BitVecT
  assume v: "bitvec_ok (unat n) v" and w: "bitvec_ok (unat n) w"
  then have len: "length v = (unat n + 7) div 8" "length w = (unat n + 7) div 8" by (simp_all add: bitvec_ok_def)
  show "\<exists>u. bitvec_or (bitvec_set_size n) v w = Some u \<and> bitvec_ok (unat n) u \<and> bits_of u = bits_of v \<union> bits_of w"
    using v w len by (simp add: bitvec_or_def size or_loop bits_of_or bitvec_ok_def)
  show "\<exists>u. bitvec_and (bitvec_set_size n) v w = Some u \<and> bitvec_ok (unat n) u \<and> bits_of u = bits_of v \<inter> bits_of w"
    using v w len by (auto simp: bitvec_and_def size and_loop bits_of_and bitvec_ok_def)
  show "bitvec_equal (bitvec_set_size n) v w = Some (bits_of v = bits_of w)"
    using len bits_of_inject[of v w] by (auto simp: bitvec_equal_def size equal_loop)
qed (use set_ok is_set_ok not_ok assms in auto)

text \<open>Every size the code can handle is \<open>fit n\<close> for some \<open>n\<close>.\<close>

definition fit :: "cuint \<Rightarrow> cuint" where
  "fit n = min n (UINT_MAX - 7)"

lemma unat_fit: "unat (fit n) + 7 < 2 ^ 32" "unat n + 7 < 2 ^ 32 \<Longrightarrow> fit n = n"
proof -
  have u: "unat (UINT_MAX - 7) = 4294967288" by (simp add: UINT_MAX_def)
  then show "unat (fit n) + 7 < 2 ^ 32" by (simp add: fit_def min_def word_le_nat_alt)
  show "unat n + 7 < 2 ^ 32 \<Longrightarrow> fit n = n" using u by (simp add: fit_def min_def word_le_nat_alt)
qed

interpretation bitvec: bounded_set "unat (fit n)" "bitvec_ok (unat (fit n))" bits_of
  "bitvec_init (bitvec_set_size (fit n))" "bitvec_set (bitvec_set_size (fit n))"
  "bitvec_is_set (bitvec_set_size (fit n))" "bitvec_or (bitvec_set_size (fit n))"
  "bitvec_and (bitvec_set_size (fit n))" "bitvec_not (bitvec_set_size (fit n))"
  "bitvec_equal (bitvec_set_size (fit n))" for n
  by (rule bitvec_bounded_set [OF unat_fit(1)])

section \<open>Queries and enumeration\<close>

lemma is_full_loop:
  assumes "length v = k" "0 < k"
  shows "bitvec_is_full_loop m k v = Some ((\<forall>b\<in>set (butlast v). b = - 1) \<and> last v OR NOT m = - 1)"
proof -
  have inv: "NOT b = 0 \<longleftrightarrow> b = - 1" for b :: byte by (metis bit.compl_zero bit.double_compl)
  show ?thesis
    using assms
  proof (induction m k v rule: bitvec_is_full_loop.induct)
    case (3 m bytes b bits)
    then show ?case by (cases bytes) (auto simp: inv)
  qed auto
qed

lemma find_bit:
  assumes "bitvec_ok (unat n) v" "unat i + k = unat n"
  shows "bitvec_find_bit (bitvec_set_size n) v k i =
    Some (if \<exists>j\<in>bits_of v. unat i \<le> j then Some (of_nat (LEAST j. j \<in> bits_of v \<and> unat i \<le> j)) else None)"
  using assms(2)
proof (induction k arbitrary: i)
  case 0
  then have "\<not> (\<exists>j\<in>bits_of v. unat i \<le> j)" using assms(1) by (auto simp: bitvec_ok_def)
  then show ?case by simp
next
  case (Suc k)
  then have lt: "unat i < unat n" by simp
  then have i1: "unat (i + 1) = unat i + 1" using unat_less_2_32[of n] by (simp add: unat_word_ariths)
  note is_set = is_set_ok[OF assms(1) lt]
  show ?case
  proof (cases "unat i \<in> bits_of v")
    case True
    then have "(LEAST j. j \<in> bits_of v \<and> unat i \<le> j) = unat i" by (intro Least_equality) auto
    with True is_set show ?thesis by auto
  next
    case False
    then have "j \<in> bits_of v \<and> unat i \<le> j \<longleftrightarrow> j \<in> bits_of v \<and> unat (i + 1) \<le> j" for j
      unfolding i1 by (metis Suc_eq_plus1 Suc_leD le_antisym not_less_eq_eq)
    then show ?thesis
      using False is_set Suc.IH[of "i + 1"] Suc.prems i1 by (simp add: Bex_def)
  qed
qed

lemma num_bits_loop:
  assumes "bitvec_ok (unat n) v" "unat i + k = unat n"
  shows "bitvec_num_bits_loop (bitvec_set_size n) v k i c = Some (c + of_nat (card {j \<in> bits_of v. unat i \<le> j}))"
  using assms(2)
proof (induction k arbitrary: i c)
  case 0
  then have "{j \<in> bits_of v. unat i \<le> j} = {}" using assms(1) by (auto simp: bitvec_ok_def)
  then have "card {j \<in> bits_of v. unat i \<le> j} = 0" by (simp only: card.empty)
  then show ?case by simp
next
  case (Suc k)
  then have lt: "unat i < unat n" by simp
  then have i1: "unat (i + 1) = unat i + 1" using unat_less_2_32[of n] by (simp add: unat_word_ariths)
  have fin: "finite {j \<in> bits_of v. unat (i + 1) \<le> j}"
    using assms(1) finite_subset[of "bits_of v" "{..<unat n}"] by (simp add: bitvec_ok_def)
  have "{j \<in> bits_of v. unat i \<le> j} =
      (if unat i \<in> bits_of v then insert (unat i) {j \<in> bits_of v. unat (i + 1) \<le> j} else {j \<in> bits_of v. unat (i + 1) \<le> j})"
    unfolding i1 by (auto simp: Suc_le_eq order.order_iff_strict)
  then have "card {j \<in> bits_of v. unat i \<le> j} =
      (if unat i \<in> bits_of v then 1 else 0) + card {j \<in> bits_of v. unat (i + 1) \<le> j}"
    using fin by (simp add: i1)
  then show ?case
    using is_set_ok[OF assms(1) lt] Suc.IH[of "i + 1"] Suc.prems i1 by simp
qed

lemma all_bytes:
  "(\<forall>k<l. f k = (- 1 :: byte)) \<longleftrightarrow> (\<forall>j. j div 8 < l \<longrightarrow> bit (f (j div 8)) (j mod 8))"
proof
  assume all: "\<forall>j. j div 8 < l \<longrightarrow> bit (f (j div 8)) (j mod 8)"
  show "\<forall>k<l. f k = - 1"
  proof (intro allI impI byte_eqI)
    fix k j :: nat assume "k < l" "j < 8"
    then show "bit (f k) j = bit (- 1 :: byte) j" using all[rule_format, of "8 * k + j"] by simp
  qed
qed auto

lemma is_full_ok:
  assumes "bitvec_ok (unat n) v" "0 < unat n" "unat n + 7 < 2 ^ 32"
  shows "bitvec_is_full (bitvec_set_size n) v = Some (bits_of v = {..<unat n})"
proof -
  let ?k = "(unat n + 7) div 8 - 1"
  let ?m = "if unat n mod 8 = 0 then - 1 else mask (unat n mod 8) :: byte"
  let ?b = "\<lambda>i. if i = ?k then v ! i OR NOT ?m else v ! i"
  have len: "length v = (unat n + 7) div 8" "0 < (unat n + 7) div 8" using assms by (simp_all add: bitvec_ok_def)
  then have "last v = v ! ?k" by (subst last_conv_nth) auto
  with len have "(\<forall>b\<in>set (butlast v). b = - 1) \<and> last v OR NOT ?m = - 1 \<longleftrightarrow> (\<forall>i<length v. ?b i = - 1)"
    by (auto simp: all_set_conv_all_nth nth_butlast)
  also have "\<dots> \<longleftrightarrow> (\<forall>j. j div 8 < length v \<longrightarrow> bit (?b (j div 8)) (j mod 8))"
    by (rule all_bytes)
  also have "\<dots> \<longleftrightarrow> (\<forall>j. j div 8 < length v \<longrightarrow> bit (v ! (j div 8)) (j mod 8) \<or> \<not> (j div 8 = ?k \<longrightarrow> bit ?m (j mod 8)))"
    by (intro all_cong1 imp_cong refl) (simp add: bit_or_iff bit_not_iff)
  also have "\<dots> \<longleftrightarrow> (\<forall>j. j div 8 < length v \<longrightarrow> bit (v ! (j div 8)) (j mod 8) \<or> \<not> j < unat n)"
    using mask_keeps[of _ "unat n"] len(1) by (intro all_cong1 imp_cong refl) simp
  also have "\<dots> \<longleftrightarrow> {..<unat n} \<subseteq> bits_of v"
    using nth_byte_lt[of _ "unat n"] len(1) by (auto simp: bits_of_def)
  also have "\<dots> \<longleftrightarrow> bits_of v = {..<unat n}" using assms(1) by (auto simp: bitvec_ok_def)
  finally show ?thesis
    using is_full_loop[OF len] set_size_simps[OF assms(3)] by (simp add: bitvec_is_full_def)
qed

lemma bits_of_Nil [simp]: "bits_of [] = {}"
  by (simp add: bits_of_def)

lemma is_full_or_empty:
  assumes "bitvec_ok (unat n) v" "unat n + 7 < 2 ^ 32"
  shows "bitvec_is_full (bitvec_set_size n) v = Some (bits_of v = {..<unat n})"
proof (cases "unat n = 0")
  case True
  with assms(1) have "bits_of v = {..<unat n}" by (auto simp: bitvec_ok_def)
  with True show ?thesis using set_size_simps(1)[OF assms(2)] by (simp add: bitvec_is_full_def)
qed (use is_full_ok[OF assms(1) _ assms(2)] in simp)

text \<open>
  Without a byte the last one does not exist: \<^verbatim>\<open>bits[bitvec_size - 1]\<close> is \<^verbatim>\<open>bits[UINT_MAX]\<close>.
\<close>

lemma not_nothing:
  assumes "bitvec_ok 0 v" "n = 0"
  shows "bitvec_not (bitvec_set_size n) v = None"
  using assms set_size_simps[of n] by (auto simp: bitvec_not_def bitvec_ok_def)

lemma beyond_bound:
  assumes "unat n \<le> unat i"
  shows "bitvec_is_set (bitvec_set_size n) v i = None" "bitvec_set (bitvec_set_size n) v i = None"
  using assms by (simp_all add: bitvec_is_set_def bitvec_set_def bitvec_set_size_def word_less_nat_alt)

lemma bitvec_laws:
  assumes "unat n + 7 < 2 ^ 32" "bitvec_ok (unat n) v" "bitvec_ok (unat n) w"
  shows "bitvec_is_set (bitvec_set_size n) v i = (if unat i < unat n then Some (unat i \<in> bits_of v) else None)"
    and "if unat i < unat n
      then \<exists>u. bitvec_set (bitvec_set_size n) v i = Some u \<and> bitvec_ok (unat n) u \<and> bits_of u = insert (unat i) (bits_of v)
      else bitvec_set (bitvec_set_size n) v i = None"
    and "\<exists>u. bitvec_or (bitvec_set_size n) v w = Some u \<and> bitvec_ok (unat n) u \<and> bits_of u = bits_of v \<union> bits_of w"
    and "\<exists>u. bitvec_and (bitvec_set_size n) v w = Some u \<and> bitvec_ok (unat n) u \<and> bits_of u = bits_of v \<inter> bits_of w"
    and "if 0 < unat n
      then \<exists>u. bitvec_not (bitvec_set_size n) v = Some u \<and> bitvec_ok (unat n) u \<and> bits_of u = {..<unat n} - bits_of v
      else bitvec_not (bitvec_set_size n) v = None"
    and "bitvec_equal (bitvec_set_size n) v w = Some (bits_of v = bits_of w)"
    and "bitvec_intersects (bitvec_set_size n) v w = Some (bits_of v \<inter> bits_of w \<noteq> {})"
    and "bitvec_is_empty (bitvec_set_size n) v = Some (bits_of v = {})"
    and "bitvec_is_full (bitvec_set_size n) v = Some (bits_of v = {..<unat n})"
    and "bitvec_num_bits (bitvec_set_size n) v = Some (of_nat (card (bits_of v)))"
    and "unat i < unat n \<Longrightarrow> bitvec_next_bit (bitvec_set_size n) v i =
      Some (if \<exists>j\<in>bits_of v. unat i < j then Some (of_nat (LEAST j. j \<in> bits_of v \<and> unat i < j)) else None)"
proof -
  have n: "fit n = n" using assms(1) by (rule unat_fit(2))
  note size = set_size_simps[OF assms(1)]
  have len: "length v = (unat n + 7) div 8" "length w = (unat n + 7) div 8" using assms(2,3) by (simp_all add: bitvec_ok_def)
  show "bitvec_is_set (bitvec_set_size n) v i = (if unat i < unat n then Some (unat i \<in> bits_of v) else None)"
    using bitvec.isin_ok[of n v i] beyond_bound(1)[of n i v] assms n by simp
  show "if unat i < unat n
      then \<exists>u. bitvec_set (bitvec_set_size n) v i = Some u \<and> bitvec_ok (unat n) u \<and> bits_of u = insert (unat i) (bits_of v)
      else bitvec_set (bitvec_set_size n) v i = None"
    using bitvec.add_ok[of n v i] beyond_bound(2)[of n i v] assms n by simp
  show "\<exists>u. bitvec_or (bitvec_set_size n) v w = Some u \<and> bitvec_ok (unat n) u \<and> bits_of u = bits_of v \<union> bits_of w"
    using bitvec.union_ok[of n v w] assms n by simp
  show "\<exists>u. bitvec_and (bitvec_set_size n) v w = Some u \<and> bitvec_ok (unat n) u \<and> bits_of u = bits_of v \<inter> bits_of w"
    using bitvec.inter_ok[of n v w] assms n by simp
  show "if 0 < unat n
      then \<exists>u. bitvec_not (bitvec_set_size n) v = Some u \<and> bitvec_ok (unat n) u \<and> bits_of u = {..<unat n} - bits_of v
      else bitvec_not (bitvec_set_size n) v = None"
    using bitvec.compl_ok[of n v] not_nothing[of v n] assms n by (auto simp: unat_eq_zero)
  show "bitvec_equal (bitvec_set_size n) v w = Some (bits_of v = bits_of w)"
    using bitvec.equal_ok[of n v w] assms n by simp
  show "bitvec_intersects (bitvec_set_size n) v w = Some (bits_of v \<inter> bits_of w \<noteq> {})"
    using len bits_of_empty[of "map2 (AND) v w"] by (simp add: bitvec_intersects_def size intersects_loop bits_of_and)
  show "bitvec_is_empty (bitvec_set_size n) v = Some (bits_of v = {})"
    using len by (simp add: bitvec_is_empty_def size is_empty_loop bits_of_empty)
  show "bitvec_is_full (bitvec_set_size n) v = Some (bits_of v = {..<unat n})"
    by (rule is_full_or_empty[OF assms(2,1)])
  show "bitvec_num_bits (bitvec_set_size n) v = Some (of_nat (card (bits_of v)))"
    using num_bits_loop[OF assms(2), of 0] by (simp add: bitvec_num_bits_def size)
  assume lt: "unat i < unat n"
  then have i1: "unat (i + 1) = unat i + 1" using unat_less_2_32[of n] by (simp add: unat_word_ariths)
  then show "bitvec_next_bit (bitvec_set_size n) v i =
      Some (if \<exists>j\<in>bits_of v. unat i < j then Some (of_nat (LEAST j. j \<in> bits_of v \<and> unat i < j)) else None)"
    using find_bit[OF assms(2), of "i + 1" "unat n - unat (i + 1)"] lt
    by (simp add: bitvec_next_bit_def size Suc_le_eq)
qed

text \<open>
  C40: The bit vectors are sets of numbers below the size that was set, which is any size, zero included, whose
  number of bytes does not overflow: union, intersection, equality, emptiness, fullness, disjointness,
  cardinality and the search for the next element are those of sets, no operation leaves the vector, and a
  number at or above the size fails the assertion. The complement is that of sets for a positive size only; at
  size zero it writes out of bounds.
\<close>

theorem bitvec_refines_sets:
  assumes "unat n + 7 < 2 ^ 32" "bitvec_ok (unat n) v" "bitvec_ok (unat n) w"
  shows "(bitvec_is_set (bitvec_set_size n) v i = (if unat i < unat n then Some (unat i \<in> bits_of v) else None)) \<and>
    (if unat i < unat n
      then \<exists>u. bitvec_set (bitvec_set_size n) v i = Some u \<and> bitvec_ok (unat n) u \<and> bits_of u = insert (unat i) (bits_of v)
      else bitvec_set (bitvec_set_size n) v i = None) \<and>
    (\<exists>u. bitvec_or (bitvec_set_size n) v w = Some u \<and> bitvec_ok (unat n) u \<and> bits_of u = bits_of v \<union> bits_of w) \<and>
    (\<exists>u. bitvec_and (bitvec_set_size n) v w = Some u \<and> bitvec_ok (unat n) u \<and> bits_of u = bits_of v \<inter> bits_of w) \<and>
    (if 0 < unat n
      then \<exists>u. bitvec_not (bitvec_set_size n) v = Some u \<and> bitvec_ok (unat n) u \<and> bits_of u = {..<unat n} - bits_of v
      else bitvec_not (bitvec_set_size n) v = None) \<and>
    (bitvec_equal (bitvec_set_size n) v w = Some (bits_of v = bits_of w)) \<and>
    (bitvec_intersects (bitvec_set_size n) v w = Some (bits_of v \<inter> bits_of w \<noteq> {})) \<and>
    (bitvec_is_empty (bitvec_set_size n) v = Some (bits_of v = {})) \<and>
    (bitvec_is_full (bitvec_set_size n) v = Some (bits_of v = {..<unat n})) \<and>
    (bitvec_num_bits (bitvec_set_size n) v = Some (of_nat (card (bits_of v)))) \<and>
    (unat i < unat n \<longrightarrow> bitvec_next_bit (bitvec_set_size n) v i =
      Some (if \<exists>j\<in>bits_of v. unat i < j then Some (of_nat (LEAST j. j \<in> bits_of v \<and> unat i < j)) else None))"
  by (intro conjI impI bitvec_laws[OF assms])

theorem bitvec_refines_sets_witness:
  "(\<exists>u. bitvec_not (bitvec_set_size 10) [5, 2] = Some u \<and> bits_of u = {..<10} - bits_of [5, 2]) \<and>
    bitvec_not (bitvec_set_size 0) [] = None"
proof -
  have "bits_of [5, 2] = {0, 2, 9}"
  proof -
    have "i \<in> bits_of [5, 2] \<longleftrightarrow> i \<in> {0, 2, 9}" for i
    proof (cases "i < 16")
      case True
      then have i: "i \<in> set [0..<16]" by simp
      have "\<forall>i\<in>set [0..<16]. (i div 8 < 2 \<and> bit ([5 :: byte, 2] ! (i div 8)) (i mod 8)) = (i = 0 \<or> i = 2 \<or> i = 9)"
        by code_simp
      from bspec[OF this i] show ?thesis by (simp add: bits_of_def numeral_2_eq_2)
    next
      case False
      then show ?thesis by (auto simp: bits_of_def)
    qed
    then show ?thesis by blast
  qed
  then have "bitvec_ok (unat (10 :: cuint)) [5, 2]" by (simp add: bitvec_ok_def)
  from bitvec_refines_sets[OF _ this this, of 0]
  have "\<exists>u. bitvec_not (bitvec_set_size 10) [5, 2] = Some u \<and> bits_of u = {..<10} - bits_of [5, 2]" by auto
  moreover have "bitvec_ok (unat (0 :: cuint)) []" by (simp add: bitvec_ok_def bits_of_def)
  from bitvec_refines_sets[OF _ this this, of 0] have "bitvec_not (bitvec_set_size 0) [] = None" by auto
  ultimately show ?thesis ..
qed

end
