(* ===== verification/Sid_Grammar.thy ===== *)
theory Sid_Grammar
  imports Errors Tables Exds_Bitvec
begin

text \<open>
  Grammars of the parser generator \<^verbatim>\<open>sid\<close>: items, alternatives, rules and entries of \<^verbatim>\<open>sid/src/adt\<close>, and the
  lists of entries of \<^verbatim>\<open>entry-list.c\<close>. A pointer to an entry is its index in the table that owns it, and a
  pointer to a rule is that of its entry, for each has a pointer to the other. Chains of items and of
  alternatives are lists. Of an entry the name and the mapping to an identifier of the output are left
  out, of a rule the scope, the cycle index and what is used only while the parser is written: the links
  of the traversals, the reference stacks, the labels and the call count.
\<close>

section \<open>Data\<close>

datatype EntryTypeT =
    ET_TYPE | ET_BASIC | ET_RULE | ET_ACTION | ET_NAME | ET_RENAME | ET_PREDICATE | ET_NON_LOCAL

record TypeTupleEntryT =
  tt_type :: "nat option"
  tt_name :: "nat option"
  tt_number :: cuint
  tt_reference :: bool
  tt_mutated :: bool
  tt_assign :: bool

type_synonym TypeTupleT = "TypeTupleEntryT list"

record NonLocalEntryT =
  nl_name :: nat
  nl_type :: nat
  nl_initialiser :: "nat option"

type_synonym NonLocalListT = "NonLocalEntryT list"

record ItemT =
  it_param :: TypeTupleT
  it_result :: TypeTupleT
  it_type :: EntryTypeT
  it_entry :: nat
  it_inlinable :: bool
  it_tail_call :: bool

record AltT =
  alt_names :: TypeTupleT
  alt_first_set :: BitVecT
  alt_items :: "ItemT list"

type_synonym EntryListT = "nat list"

datatype DFSStateT = DFS_UNTRACED | DFS_TRACING | DFS_CYCLING | DFS_TRACED

record RuleT =
  rl_param :: TypeTupleT
  rl_result :: TypeTupleT
  rl_non_locals :: NonLocalListT
  rl_defined :: bool
  rl_has_empty_alt :: bool
  rl_required :: bool
  rl_reverse_list :: EntryListT
  rl_dfs_state :: DFSStateT
  rl_no_cycles :: bool
  rl_computed_first_set :: bool
  rl_computing_first_set :: bool
  rl_first_set :: BitVecT
  rl_predicate_first :: EntryListT
  rl_see_through :: bool
  rl_priority :: cuint
  rl_factored :: bool
  rl_tail_group :: "nat option"
  rl_being_inlined :: bool
  rl_checked_for_inlining :: bool
  rl_call_list :: EntryListT
  rl_follow_set :: BitVecT
  rl_predicate_follow :: EntryListT
  rl_started_follows :: bool
  rl_see_through_alt :: "nat option"
  rl_needs_function :: bool
  rl_all_basics :: bool
  rl_being_output :: bool
  rl_handler :: "AltT option"
  rl_alts :: "AltT list"

record BasicT =
  bs_terminal :: cuint
  bs_result :: TypeTupleT
  bs_ignored :: bool

datatype entry_u = U_RULE RuleT | U_BASIC BasicT | U_OTHER

record EntryT =
  en_type :: EntryTypeT
  en_u :: entry_u

record sid_state = error_state +
  sid_bitvec :: bitvec_ctx
  sid_table :: "EntryT table"

definition item_create :: "EntryTypeT \<Rightarrow> nat \<Rightarrow> ItemT" where
  "item_create type entry =
     \<lparr>it_param = [], it_result = [], it_type = type, it_entry = entry, it_inlinable = False, it_tail_call = False\<rparr>"

definition alt_create :: "bitvec_ctx \<Rightarrow> AltT" where
  "alt_create ctx = \<lparr>alt_names = [], alt_first_set = bitvec_init ctx, alt_items = []\<rparr>"

definition alt_add_item :: "AltT \<Rightarrow> ItemT \<Rightarrow> AltT" where
  "alt_add_item alt item = alt\<lparr>alt_items := alt_items alt @ [item]\<rparr>"

text \<open>Allocated memory is cleared, so the fields that \<^verbatim>\<open>rule_create\<close> does not set start as false and zero.\<close>

definition rule_create :: "bitvec_ctx \<Rightarrow> RuleT" where
  "rule_create ctx =
     \<lparr>rl_param = [], rl_result = [], rl_non_locals = [], rl_defined = False, rl_has_empty_alt = False,
      rl_required = False, rl_reverse_list = [], rl_dfs_state = DFS_UNTRACED, rl_no_cycles = False,
      rl_computed_first_set = False, rl_computing_first_set = False, rl_first_set = bitvec_init ctx,
      rl_predicate_first = [], rl_see_through = False, rl_priority = 0, rl_factored = False,
      rl_tail_group = None, rl_being_inlined = False, rl_checked_for_inlining = False, rl_call_list = [],
      rl_follow_set = bitvec_init ctx, rl_predicate_follow = [], rl_started_follows = False,
      rl_see_through_alt = None, rl_needs_function = False, rl_all_basics = False, rl_being_output = False,
      rl_handler = None, rl_alts = []\<rparr>"

definition rule_add_alt :: "RuleT \<Rightarrow> AltT \<Rightarrow> RuleT" where
  "rule_add_alt rule alt = rule\<lparr>rl_alts := rl_alts rule @ [alt]\<rparr>"

definition rule_add_empty_alt :: "RuleT \<Rightarrow> RuleT" where
  "rule_add_empty_alt rule = rule\<lparr>rl_has_empty_alt := True\<rparr>"

definition rule_has_one_alt :: "RuleT \<Rightarrow> bool" where
  "rule_has_one_alt rule \<longleftrightarrow>
     rl_has_empty_alt rule \<and> rl_alts rule = [] \<or> \<not> rl_has_empty_alt rule \<and> (\<exists>alt. rl_alts rule = [alt])"

section \<open>entry-list.c\<close>

fun entry_list_find :: "EntryListT \<Rightarrow> nat \<Rightarrow> bool" where
  "entry_list_find [] entry = False"
| "entry_list_find (link # list) entry = (link = entry \<or> entry_list_find list entry)"

definition entry_list_add :: "EntryListT \<Rightarrow> nat \<Rightarrow> EntryListT" where
  "entry_list_add list entry = list @ [entry]"

fun entry_list_copy :: "EntryListT \<Rightarrow> EntryListT \<Rightarrow> EntryListT" where
  "entry_list_copy to [] = to"
| "entry_list_copy to (ptr # from) = entry_list_copy (entry_list_add to ptr) from"

definition entry_list_add_if_missing :: "EntryListT \<Rightarrow> nat \<Rightarrow> EntryListT" where
  "entry_list_add_if_missing list entry = (if \<not> entry_list_find list entry then entry_list_add list entry else list)"

definition entry_list_contains :: "EntryListT \<Rightarrow> nat \<Rightarrow> bool" where
  "entry_list_contains list entry = entry_list_find list entry"

fun entry_list_includes :: "EntryListT \<Rightarrow> EntryListT \<Rightarrow> bool" where
  "entry_list_includes list1 [] = True"
| "entry_list_includes list1 (ptr # list2) = (if \<not> entry_list_find list1 ptr then False else entry_list_includes list1 list2)"

fun entry_list_intersection_loop :: "EntryListT \<Rightarrow> EntryListT \<Rightarrow> EntryListT \<Rightarrow> EntryListT" where
  "entry_list_intersection_loop to [] list2 = to"
| "entry_list_intersection_loop to (ptr # list1) list2 =
     entry_list_intersection_loop (if entry_list_find list2 ptr then entry_list_add_if_missing to ptr else to) list1 list2"

definition entry_list_intersection :: "EntryListT \<Rightarrow> EntryListT \<Rightarrow> EntryListT" where
  "entry_list_intersection list1 list2 = entry_list_intersection_loop [] list1 list2"

fun entry_list_unlink_used :: "EntryListT \<Rightarrow> EntryListT \<Rightarrow> EntryListT" where
  "entry_list_unlink_used [] from = []"
| "entry_list_unlink_used (ptr # to) from =
     (if entry_list_find from ptr then entry_list_unlink_used to from else ptr # entry_list_unlink_used to from)"

fun entry_list_append :: "EntryListT \<Rightarrow> EntryListT \<Rightarrow> EntryListT" where
  "entry_list_append to [] = to"
| "entry_list_append to (ptr # from) = entry_list_append (entry_list_add_if_missing to ptr) from"

section \<open>Entries\<close>

definition entry_is_rule :: "EntryT \<Rightarrow> bool" where
  "entry_is_rule entry \<longleftrightarrow> en_type entry = ET_RULE"

definition entry_at :: "nat \<Rightarrow> ('z sid_state_scheme, EntryT) prog" where
  "entry_at entry = bind (gets (\<lambda>s. entries (sid_table s))) (\<lambda>es. index es entry)"

definition entry_get_rule :: "nat \<Rightarrow> ('z sid_state_scheme, RuleT) prog" where
  "entry_get_rule entry = bind (entry_at entry) (\<lambda>e. bind (check (entry_is_rule e)) (\<lambda>_.
     case en_u e of U_RULE rule \<Rightarrow> ret rule | _ \<Rightarrow> raise Undefined))"

definition entry_get_basic :: "nat \<Rightarrow> ('z sid_state_scheme, BasicT) prog" where
  "entry_get_basic entry = bind (entry_at entry) (\<lambda>e. bind (check (en_type e = ET_BASIC)) (\<lambda>_.
     case en_u e of U_BASIC basic \<Rightarrow> ret basic | _ \<Rightarrow> raise Undefined))"

text \<open>An assignment to a field of a rule.\<close>

definition rule_set :: "nat \<Rightarrow> (RuleT \<Rightarrow> RuleT) \<Rightarrow> ('z sid_state_scheme, unit) prog" where
  "rule_set rule f = bind (entry_get_rule rule) (\<lambda>r. modify (\<lambda>s. s\<lparr>sid_table :=
     table_set rule ((entries (sid_table s) ! rule)\<lparr>en_u := U_RULE (f r)\<rparr>) (sid_table s)\<rparr>))"

definition table_iter :: "(nat \<Rightarrow> ('z sid_state_scheme, unit) prog) \<Rightarrow> ('z sid_state_scheme, unit) prog" where
  "table_iter proc = bind (gets (\<lambda>s. contents (sid_table s))) (\<lambda>buckets.
     for_each buckets (\<lambda>chain. for_each chain proc))"

text \<open>The functions that the iterations over the table call: entries that are not rules are left alone.\<close>

definition on_rule :: "(nat \<Rightarrow> ('z sid_state_scheme, unit) prog) \<Rightarrow> nat \<Rightarrow> ('z sid_state_scheme, unit) prog" where
  "on_rule f entry = bind (entry_at entry) (\<lambda>e.
     if entry_is_rule e then bind (entry_get_rule entry) (\<lambda>_. f entry) else ret ())"

section \<open>Facts\<close>

lemma entry_list_find_iff [simp]: "entry_list_find list entry \<longleftrightarrow> entry \<in> set list"
  by (induction list) auto

lemma entry_list_copy_eq [simp]: "entry_list_copy to from = to @ from"
  by (induction to "from" rule: entry_list_copy.induct) (simp_all add: entry_list_add_def)

lemma set_entry_list_add [simp]:
  "set (entry_list_add list entry) = insert entry (set list)"
  "set (entry_list_add_if_missing list entry) = insert entry (set list)"
  by (auto simp: entry_list_add_def entry_list_add_if_missing_def)

lemma entry_list_includes_iff [simp]: "entry_list_includes list1 list2 \<longleftrightarrow> set list2 \<subseteq> set list1"
  by (induction list2) auto

lemma set_entry_list_append [simp]: "set (entry_list_append to from) = set to \<union> set from"
  by (induction to "from" rule: entry_list_append.induct) auto

lemma set_intersection_loop: "set (entry_list_intersection_loop to list1 list2) = set to \<union> (set list1 \<inter> set list2)"
  by (induction to list1 list2 rule: entry_list_intersection_loop.induct) auto

lemma set_entry_list_intersection [simp]: "set (entry_list_intersection list1 list2) = set list1 \<inter> set list2"
  by (simp add: entry_list_intersection_def set_intersection_loop)

lemma set_entry_list_unlink_used [simp]: "set (entry_list_unlink_used to from) = set to - set from"
  by (induction to) auto

section \<open>Access to rules\<close>

text \<open>The rule that a pointer leads to in a state, if it leads to one, and the state with another rule there.\<close>

definition rule_at :: "'z sid_state_scheme \<Rightarrow> nat \<Rightarrow> RuleT option" where
  "rule_at s x = (if x < length (entries (sid_table s)) \<and> en_type (entries (sid_table s) ! x) = ET_RULE
     then case en_u (entries (sid_table s) ! x) of U_RULE r \<Rightarrow> Some r | _ \<Rightarrow> None else None)"

definition rule_put :: "nat \<Rightarrow> RuleT \<Rightarrow> 'z sid_state_scheme \<Rightarrow> 'z sid_state_scheme" where
  "rule_put x r s = s\<lparr>sid_table := table_set x ((entries (sid_table s) ! x)\<lparr>en_u := U_RULE r\<rparr>) (sid_table s)\<rparr>"

lemma rule_at_Some:
  "rule_at s x = Some r \<longleftrightarrow> x < length (entries (sid_table s)) \<and> en_type (entries (sid_table s) ! x) = ET_RULE \<and>
     en_u (entries (sid_table s) ! x) = U_RULE r"
  by (auto simp: rule_at_def split: entry_u.splits)

lemma entry_get_rule_eq: "entry_get_rule x s = (case rule_at s x of Some r \<Rightarrow> (Ret r, s) | None \<Rightarrow> (Raise Undefined, s))"
proof (cases "x < length (entries (sid_table s))")
  case True
  then show ?thesis
    by (cases "en_u (entries (sid_table s) ! x)")
      (simp_all add: entry_get_rule_def entry_at_def rule_at_def entry_is_rule_def bind_def prog_simps)
qed (simp add: entry_get_rule_def entry_at_def rule_at_def bind_def prog_simps)

lemma rule_set_eq:
  "rule_set x f s = (case rule_at s x of Some r \<Rightarrow> (Ret (), rule_put x (f r) s) | None \<Rightarrow> (Raise Undefined, s))"
  by (cases "rule_at s x") (simp_all add: rule_set_def entry_get_rule_eq rule_put_def bind_def prog_simps)

lemma rule_put_simps [simp]:
  "sid_bitvec (rule_put x r s) = sid_bitvec s" "number_errors (rule_put x r s) = number_errors s"
  "exit_status (rule_put x r s) = exit_status s" "contents (sid_table (rule_put x r s)) = contents (sid_table s)"
  "entries (sid_table (rule_put x r s)) = (entries (sid_table s))[x := (entries (sid_table s) ! x)\<lparr>en_u := U_RULE r\<rparr>]"
  by (simp_all add: rule_put_def)

lemma rule_at_put: "rule_at s x = Some q \<Longrightarrow> rule_at (rule_put x r s) y = (if y = x then Some r else rule_at s y)"
  by (auto simp: rule_at_Some rule_at_def[of "rule_put x r s"] rule_at_def[of s] nth_list_update)

lemma rule_at_error_simps [simp]:
  "rule_at (s\<lparr>number_errors := n\<rparr>) x = rule_at s x" "rule_at (s\<lparr>exit_status := b\<rparr>) x = rule_at s x"
  by (simp_all add: rule_at_def)

end
