(* ===== verification/Sid_Check.thy ===== *)
theory Sid_Check
  imports Sid_Grammar
begin

text \<open>
  The checks of a grammar, \<^verbatim>\<open>sid/src/rules/rule-check.c\<close> and \<^verbatim>\<open>grammar_check_collisions\<close> of \<^verbatim>\<open>grammar.c\<close>: the
  first sets of the alternatives of a rule must be disjoint, the follow sets are computed and must not
  meet the first sets of see through rules, and then the alternatives get the sets by which the generated
  parser chooses between them. The lists of clashes, which only the messages show, are not modelled. One message
  is: that for a collision of predicates passes the rule for the key and the key for the rule, so printing it reads
  a rule as a key and dereferences a key as a rule, which is undefined.
\<close>

section \<open>First sets of the alternatives\<close>

text \<open>
  The loop over the items of an alternative: whether it is see through, the terminals and the predicates
  met so far. What is computed for a message is computed here too.
\<close>

fun check_items :: "bool \<Rightarrow> ItemT list \<Rightarrow> BitVecT \<Rightarrow> EntryListT \<Rightarrow> ('z sid_state_scheme, bool \<times> BitVecT \<times> EntryListT) prog" where
  "check_items initial [] test predicate_list = ret (True, test, predicate_list)"
| "check_items initial (item # items) test predicate_list = (case it_type item of
     ET_PREDICATE \<Rightarrow>
       bind (check initial) (\<lambda>_.
       if entry_list_contains predicate_list (it_entry item) then raise Undefined
       else ret (False, test, entry_list_add predicate_list (it_entry item)))
   | ET_ACTION \<Rightarrow> check_items False items test predicate_list
   | ET_RENAME \<Rightarrow> check_items False items test predicate_list
   | ET_BASIC \<Rightarrow>
       bind (entry_get_basic (it_entry item)) (\<lambda>basic.
       bind (gets sid_bitvec) (\<lambda>ctx.
       bind (defined (bitvec_is_set ctx test (bs_terminal basic))) (\<lambda>present.
       if \<not> present
       then bind (defined (bitvec_set ctx test (bs_terminal basic))) (\<lambda>test'. ret (False, test', predicate_list))
       else
         bind (defined (bitvec_set ctx (bitvec_init ctx) (bs_terminal basic))) (\<lambda>tmp.
         bind (defined (bitvec_and ctx tmp test)) (\<lambda>_.
         bind (error_msg ERR_SERIOUS) (\<lambda>_.
         ret (False, test, predicate_list)))))))
   | ET_RULE \<Rightarrow>
       bind (entry_get_rule (it_entry item)) (\<lambda>item_rule.
       bind (if entry_list_intersection predicate_list (rl_predicate_first item_rule) \<noteq> []
         then error_msg ERR_SERIOUS else ret ()) (\<lambda>_.
       let predicate_list' = entry_list_append predicate_list (rl_predicate_first item_rule) in
       bind (gets sid_bitvec) (\<lambda>ctx.
       bind (defined (bitvec_intersects ctx test (rl_first_set item_rule))) (\<lambda>clash.
       bind (if \<not> clash then defined (bitvec_or ctx test (rl_first_set item_rule))
         else
           bind (defined (bitvec_copy ctx (rl_first_set item_rule))) (\<lambda>tmp.
           bind (defined (bitvec_and ctx tmp test)) (\<lambda>_.
           bind (error_msg ERR_SERIOUS) (\<lambda>_. ret test)))) (\<lambda>test'.
       if rl_see_through item_rule then check_items False items test' predicate_list'
       else ret (False, test', predicate_list'))))))
   | _ \<Rightarrow> raise Undefined)"

fun check_alts :: "AltT list \<Rightarrow> bool \<Rightarrow> bool \<Rightarrow> BitVecT \<Rightarrow> EntryListT \<Rightarrow> ('z sid_state_scheme, unit) prog" where
  "check_alts [] is_empty is_empty_mesg_shown test predicate_list = ret ()"
| "check_alts (alt # alts) is_empty is_empty_mesg_shown test predicate_list =
     bind (check_items True (alt_items alt) test predicate_list) (\<lambda>(see_through, test', predicate_list').
     if \<not> see_through then check_alts alts is_empty is_empty_mesg_shown test' predicate_list'
     else if is_empty then
       bind (if \<not> is_empty_mesg_shown then error_msg ERR_SERIOUS else ret ()) (\<lambda>_.
       check_alts alts is_empty True test' predicate_list')
     else check_alts alts True is_empty_mesg_shown test' predicate_list')"

definition rule_check_first_set_1 :: "nat \<Rightarrow> ('z sid_state_scheme, unit) prog" where
  "rule_check_first_set_1 rule =
     bind (entry_get_rule rule) (\<lambda>r.
     bind (gets sid_bitvec) (\<lambda>ctx.
     check_alts (rl_alts r) (rl_has_empty_alt r) False (bitvec_init ctx) []))"

section \<open>Follow sets\<close>

text \<open>
  The recursive call of the function is an argument. The items are taken from the last to the first; the
  context is what can follow the item at hand.
\<close>

type_synonym 'z follow_call = "nat \<Rightarrow> BitVecT \<Rightarrow> EntryListT \<Rightarrow> ('z sid_state_scheme, unit) prog"

fun rule_compute_follow_set_3 :: "'z follow_call \<Rightarrow> ItemT list \<Rightarrow> BitVecT \<Rightarrow> EntryListT
    \<Rightarrow> ('z sid_state_scheme, BitVecT \<times> EntryListT) prog" where
  "rule_compute_follow_set_3 compute [] context pred_context = ret (context, pred_context)"
| "rule_compute_follow_set_3 compute (item # items) context pred_context =
     bind (rule_compute_follow_set_3 compute items context pred_context) (\<lambda>(context, pred_context).
     case it_type item of
       ET_PREDICATE \<Rightarrow> ret (context, entry_list_add [] (it_entry item))
     | ET_ACTION \<Rightarrow> ret (context, pred_context)
     | ET_RENAME \<Rightarrow> ret (context, pred_context)
     | ET_RULE \<Rightarrow>
         bind (entry_get_rule (it_entry item)) (\<lambda>_.
         bind (compute (it_entry item) context pred_context) (\<lambda>_.
         bind (entry_get_rule (it_entry item)) (\<lambda>rule.
         bind (gets sid_bitvec) (\<lambda>ctx.
         if rl_see_through rule then
           bind (defined (bitvec_or ctx context (rl_first_set rule))) (\<lambda>context'.
           ret (context', entry_list_append pred_context (rl_predicate_first rule)))
         else
           bind (defined (bitvec_replace ctx context (rl_first_set rule))) (\<lambda>context'.
           ret (context', entry_list_append [] (rl_predicate_first rule)))))))
     | ET_BASIC \<Rightarrow>
         bind (entry_get_basic (it_entry item)) (\<lambda>basic.
         bind (gets sid_bitvec) (\<lambda>ctx.
         bind (defined (bitvec_empty ctx context)) (\<lambda>empty.
         bind (defined (bitvec_set ctx empty (bs_terminal basic))) (\<lambda>context'.
         ret (context', pred_context)))))
     | _ \<Rightarrow> raise Undefined)"

definition rule_compute_follow_set_2 :: "'z follow_call \<Rightarrow> nat \<Rightarrow> AltT \<Rightarrow> ('z sid_state_scheme, unit) prog" where
  "rule_compute_follow_set_2 compute rule alt =
     bind (entry_get_rule rule) (\<lambda>r.
     bind (gets sid_bitvec) (\<lambda>ctx.
     bind (defined (bitvec_copy ctx (rl_follow_set r))) (\<lambda>tmp.
     bind (rule_compute_follow_set_3 compute (alt_items alt) tmp (entry_list_copy [] (rl_predicate_follow r))) (\<lambda>_.
     ret ()))))"

text \<open>The new follow set of the rule, and whether there is more to do.\<close>

definition follow_extend :: "nat \<Rightarrow> BitVecT \<Rightarrow> EntryListT \<Rightarrow> ('z sid_state_scheme, bool) prog" where
  "follow_extend rule context pred_context =
     bind (entry_get_rule rule) (\<lambda>r.
     bind (gets sid_bitvec) (\<lambda>ctx.
     if rl_started_follows r then
       bind (defined (bitvec_copy ctx (rl_follow_set r))) (\<lambda>test.
       bind (defined (bitvec_or ctx (rl_follow_set r) context)) (\<lambda>follow.
       bind (rule_set rule (\<lambda>r. r\<lparr>rl_follow_set := follow\<rparr>)) (\<lambda>_.
       bind (defined (bitvec_equal ctx test follow)) (\<lambda>same.
       if same \<and> entry_list_includes (rl_predicate_follow r) pred_context then ret False
       else bind (rule_set rule (\<lambda>r. r\<lparr>rl_predicate_follow := entry_list_append (rl_predicate_follow r) pred_context\<rparr>)) (\<lambda>_.
         ret True)))))
     else
       bind (defined (bitvec_replace ctx (rl_follow_set r) context)) (\<lambda>follow.
       bind (rule_set rule (\<lambda>r. r\<lparr>rl_follow_set := follow\<rparr>)) (\<lambda>_.
       bind (rule_set rule (\<lambda>r. r\<lparr>rl_predicate_follow := entry_list_append (rl_predicate_follow r) pred_context\<rparr>)) (\<lambda>_.
       bind (rule_set rule (\<lambda>r. r\<lparr>rl_started_follows := True\<rparr>)) (\<lambda>_.
       ret True))))))"

text \<open>A see through rule must not be followed by what it can start with; what does is taken from its first set.\<close>

definition follow_check :: "nat \<Rightarrow> ('z sid_state_scheme, unit) prog" where
  "follow_check rule =
     bind (entry_get_rule rule) (\<lambda>r.
     bind (gets sid_bitvec) (\<lambda>ctx.
     if rl_see_through r then
       bind (defined (bitvec_intersects ctx (rl_follow_set r) (rl_first_set r))) (\<lambda>clash.
       bind (if clash then
           bind (defined (bitvec_copy ctx (rl_follow_set r))) (\<lambda>test.
           bind (defined (bitvec_and ctx test (rl_first_set r))) (\<lambda>test.
           bind (error_msg ERR_SERIOUS) (\<lambda>_.
           bind (defined (bitvec_not ctx test)) (\<lambda>test.
           bind (defined (bitvec_and ctx (rl_first_set r) test)) (\<lambda>first.
           rule_set rule (\<lambda>r. r\<lparr>rl_first_set := first\<rparr>))))))
         else ret ()) (\<lambda>_.
       let tmp_list = entry_list_intersection (rl_predicate_follow r) (rl_predicate_first r) in
       if tmp_list \<noteq> [] then
         bind (error_msg ERR_SERIOUS) (\<lambda>_.
         rule_set rule (\<lambda>r. r\<lparr>rl_predicate_first := entry_list_unlink_used (rl_predicate_first r) tmp_list\<rparr>))
       else ret ()))
     else ret ()))"

definition follow_body :: "'z follow_call \<Rightarrow> 'z follow_call" where
  "follow_body compute rule context pred_context =
     bind (follow_extend rule context pred_context) (\<lambda>more.
     if \<not> more then ret ()
     else
       bind (follow_check rule) (\<lambda>_.
       bind (entry_get_rule rule) (\<lambda>r.
       bind (case rl_handler r of None \<Rightarrow> ret () | Some alt \<Rightarrow> rule_compute_follow_set_2 compute rule alt) (\<lambda>_.
       for_each (rl_alts r) (rule_compute_follow_set_2 compute rule)))))"

fun follow_bounded :: "nat \<Rightarrow> 'z follow_call" where
  "follow_bounded 0 rule context pred_context = raise Undefined"
| "follow_bounded (Suc n) rule context pred_context = follow_body (follow_bounded n) rule context pred_context"

text \<open>
  The bound on the depth of the calls: every call that goes on marks a rule as started or adds a symbol to
  its follow set, so it is the room that is left in these sets.
\<close>

definition bitvec_room :: "BitVecT \<Rightarrow> nat" where
  "bitvec_room v = length (filter (\<lambda>i. \<not> bit (v ! (i div 8)) (i mod 8)) [0..<8 * length v])"

definition rule_room :: "nat \<Rightarrow> RuleT \<Rightarrow> nat" where
  "rule_room l r = (if rl_started_follows r then 0 else 1) + bitvec_room (rl_follow_set r) +
     length (filter (\<lambda>p. p \<notin> set (rl_predicate_follow r)) [0..<l])"

definition follow_room :: "'z sid_state_scheme \<Rightarrow> nat" where
  "follow_room s = sum_list (map (\<lambda>e. case en_u e of U_RULE r \<Rightarrow> rule_room (length (entries (sid_table s))) r | _ \<Rightarrow> 0)
     (entries (sid_table s)))"

definition rule_compute_follow_set_1 :: "'z follow_call" where
  "rule_compute_follow_set_1 rule context pred_context s = follow_bounded (Suc (follow_room s)) rule context pred_context s"

section \<open>The sets of the alternatives\<close>

fun see_through_items :: "ItemT list \<Rightarrow> ('z sid_state_scheme, bool) prog" where
  "see_through_items [] = ret True"
| "see_through_items (item # items) =
     (if it_type item = ET_ACTION \<or> it_type item = ET_RENAME then see_through_items items
      else if it_type item \<noteq> ET_RULE then ret False
      else bind (entry_get_rule (it_entry item)) (\<lambda>item_rule.
        if \<not> rl_see_through item_rule then ret False else see_through_items items))"

fun see_through_loop :: "nat \<Rightarrow> AltT list \<Rightarrow> nat \<Rightarrow> ('z sid_state_scheme, unit) prog" where
  "see_through_loop rule [] i = ret ()"
| "see_through_loop rule (alt # alts) i = bind (see_through_items (alt_items alt)) (\<lambda>see_through.
     if see_through then rule_set rule (\<lambda>r. r\<lparr>rl_see_through_alt := Some i\<rparr>) else see_through_loop rule alts (Suc i))"

definition rule_compute_see_through_alt_1 :: "nat \<Rightarrow> ('z sid_state_scheme, unit) prog" where
  "rule_compute_see_through_alt_1 rule = bind (entry_get_rule rule) (\<lambda>r.
     if rl_has_empty_alt r then ret () else see_through_loop rule (rl_alts r) 0)"

fun alt_first_items :: "bool \<Rightarrow> ItemT list \<Rightarrow> BitVecT \<Rightarrow> ('z sid_state_scheme, bool \<times> BitVecT) prog" where
  "alt_first_items initial [] alt_firsts = ret (True, alt_firsts)"
| "alt_first_items initial (item # items) alt_firsts = (case it_type item of
     ET_PREDICATE \<Rightarrow> bind (check initial) (\<lambda>_. ret (False, alt_firsts))
   | ET_ACTION \<Rightarrow> alt_first_items False items alt_firsts
   | ET_RENAME \<Rightarrow> alt_first_items False items alt_firsts
   | ET_BASIC \<Rightarrow>
       bind (entry_get_basic (it_entry item)) (\<lambda>basic.
       bind (gets sid_bitvec) (\<lambda>ctx.
       bind (defined (bitvec_set ctx alt_firsts (bs_terminal basic))) (\<lambda>alt_firsts'.
       ret (False, alt_firsts'))))
   | ET_RULE \<Rightarrow>
       bind (entry_get_rule (it_entry item)) (\<lambda>item_rule.
       bind (gets sid_bitvec) (\<lambda>ctx.
       bind (defined (bitvec_or ctx alt_firsts (rl_first_set item_rule))) (\<lambda>alt_firsts'.
       if rl_see_through item_rule then alt_first_items False items alt_firsts' else ret (False, alt_firsts'))))
   | _ \<Rightarrow> raise Undefined)"

definition alt_first_step :: "nat \<Rightarrow> AltT \<Rightarrow> ('z sid_state_scheme, AltT) prog" where
  "alt_first_step rule alt =
     bind (alt_first_items True (alt_items alt) (alt_first_set alt)) (\<lambda>(see_through, alt_firsts).
     bind (gets sid_bitvec) (\<lambda>ctx.
     bind (entry_get_rule rule) (\<lambda>r.
     bind (if see_through then defined (bitvec_or ctx alt_firsts (rl_follow_set r)) else ret alt_firsts) (\<lambda>alt_firsts'.
     ret (alt\<lparr>alt_first_set := alt_firsts'\<rparr>)))))"

text \<open>Nothing reads the first sets of alternatives in this loop, so they are stored at its end.\<close>

definition rule_compute_alt_first_sets_1 :: "nat \<Rightarrow> ('z sid_state_scheme, unit) prog" where
  "rule_compute_alt_first_sets_1 rule = bind (entry_get_rule rule) (\<lambda>r.
     bind (collect (rl_alts r) (alt_first_step rule)) (\<lambda>alts.
     rule_set rule (\<lambda>r. r\<lparr>rl_alts := alts\<rparr>)))"

section \<open>The grammar\<close>

definition rule_check_first_set :: "nat \<Rightarrow> ('z sid_state_scheme, unit) prog" where
  "rule_check_first_set = on_rule rule_check_first_set_1"

definition rule_compute_follow_set :: "nat \<Rightarrow> ('z sid_state_scheme, unit) prog" where
  "rule_compute_follow_set = on_rule (\<lambda>rule. bind (gets sid_bitvec) (\<lambda>ctx.
     rule_compute_follow_set_1 rule (bitvec_init ctx) []))"

definition rule_compute_see_through_alt :: "nat \<Rightarrow> ('z sid_state_scheme, unit) prog" where
  "rule_compute_see_through_alt = on_rule rule_compute_see_through_alt_1"

definition rule_compute_alt_first_sets :: "nat \<Rightarrow> ('z sid_state_scheme, unit) prog" where
  "rule_compute_alt_first_sets = on_rule rule_compute_alt_first_sets_1"

definition grammar_check_collisions :: "('z sid_state_scheme, unit) prog" where
  "grammar_check_collisions =
     bind (table_iter rule_check_first_set) (\<lambda>_.
     bind (table_iter rule_compute_follow_set) (\<lambda>_.
     bind (table_iter rule_compute_see_through_alt) (\<lambda>_.
     table_iter rule_compute_alt_first_sets)))"

end
