(* ===== verification/Sid_Firsts.thy ===== *)
theory Sid_Firsts
  imports Sid_Grammar
begin

text \<open>
  The first sets of the rules of a grammar, \<^verbatim>\<open>sid/src/rules/rule-firsts.c\<close>. The function
  \<^verbatim>\<open>rule_compute_first_set_1\<close> calls itself for the rules it meets and marks the rules it is working on, so
  it is written here with a bound on the depth of the calls; the bound is the number of rules that are
  not marked, and the theorem at the end shows that with it the function satisfies the equation of the
  source, for every state.
\<close>

section \<open>Program\<close>

text \<open>The loop over the items of an alternative: whether the alternative is see through, and the priority.\<close>

fun first_items :: "(nat \<Rightarrow> ('z sid_state_scheme, unit) prog) \<Rightarrow> nat \<Rightarrow> bool \<Rightarrow> ItemT list \<Rightarrow> bool \<Rightarrow> cuint
    \<Rightarrow> ('z sid_state_scheme, bool \<times> cuint) prog" where
  "first_items compute rule initial [] no_action priority = ret (True, priority)"
| "first_items compute rule initial (item # items) no_action priority = (case it_type item of
     ET_PREDICATE \<Rightarrow>
       bind (if \<not> initial then error_msg ERR_FATAL else ret ()) (\<lambda>_.
       bind (rule_set rule (\<lambda>r. r\<lparr>rl_predicate_first := entry_list_add_if_missing (rl_predicate_first r) (it_entry item)\<rparr>)) (\<lambda>_.
       ret (False, priority)))
   | ET_RENAME \<Rightarrow> first_items compute rule False items False priority
   | ET_ACTION \<Rightarrow> first_items compute rule False items False priority
   | ET_RULE \<Rightarrow>
       bind (entry_get_rule (it_entry item)) (\<lambda>_.
       bind (compute (it_entry item)) (\<lambda>_.
       bind (entry_get_rule (it_entry item)) (\<lambda>item_rule.
       bind (if \<not> initial \<and> rl_predicate_first item_rule \<noteq> [] then error_msg ERR_FATAL else ret ()) (\<lambda>_.
       bind (gets sid_bitvec) (\<lambda>ctx.
       bind (entry_get_rule rule) (\<lambda>r.
       bind (defined (bitvec_or ctx (rl_first_set r) (rl_first_set item_rule))) (\<lambda>v.
       bind (rule_set rule (\<lambda>r. r\<lparr>rl_first_set := v\<rparr>)) (\<lambda>_.
       bind (rule_set rule (\<lambda>r. r\<lparr>rl_predicate_first :=
         entry_list_append (rl_predicate_first r) (rl_predicate_first item_rule)\<rparr>)) (\<lambda>_.
       let priority' = if rl_priority item_rule > priority \<and> no_action then rl_priority item_rule else priority in
       if rl_see_through item_rule then first_items compute rule False items no_action priority'
       else ret (False, priority'))))))))))
   | ET_BASIC \<Rightarrow>
       bind (entry_get_basic (it_entry item)) (\<lambda>basic.
       bind (gets sid_bitvec) (\<lambda>ctx.
       bind (entry_get_rule rule) (\<lambda>r.
       bind (defined (bitvec_set ctx (rl_first_set r) (bs_terminal basic))) (\<lambda>v.
       bind (rule_set rule (\<lambda>r. r\<lparr>rl_first_set := v\<rparr>)) (\<lambda>_.
       ret (False, priority))))))
   | _ \<Rightarrow> raise Undefined)"

fun first_alts :: "(nat \<Rightarrow> ('z sid_state_scheme, unit) prog) \<Rightarrow> nat \<Rightarrow> AltT list \<Rightarrow> cuint
    \<Rightarrow> ('z sid_state_scheme, cuint) prog" where
  "first_alts compute rule [] priority = ret priority"
| "first_alts compute rule (alt # alts) priority =
     bind (first_items compute rule True (alt_items alt) True priority) (\<lambda>(see_through, priority').
     bind (if see_through then rule_set rule (\<lambda>r. r\<lparr>rl_see_through := True\<rparr>) else ret ()) (\<lambda>_.
     first_alts compute rule alts priority'))"

text \<open>What is done once all alternatives have been looked at.\<close>

definition first_finish :: "nat \<Rightarrow> cuint \<Rightarrow> ('z sid_state_scheme, unit) prog" where
  "first_finish rule priority =
     bind (entry_get_rule rule) (\<lambda>r.
     bind (if rl_has_empty_alt r then rule_set rule (\<lambda>r. r\<lparr>rl_see_through := True\<rparr>) else ret ()) (\<lambda>_.
     bind (check (priority + 1 > 0)) (\<lambda>_.
     bind (rule_set rule (\<lambda>r. r\<lparr>rl_priority := priority + 1\<rparr>)) (\<lambda>_.
     bind (entry_get_rule rule) (\<lambda>r.
     bind (gets sid_bitvec) (\<lambda>ctx.
     bind (if rl_see_through r then defined (bitvec_is_full ctx (rl_first_set r)) else ret False) (\<lambda>redundant.
     bind (if redundant then error_msg ERR_FATAL else ret ()) (\<lambda>_.
     rule_set rule (\<lambda>r. r\<lparr>rl_computed_first_set := True\<rparr>)))))))))"

text \<open>The body of the function, with the recursive call as an argument.\<close>

definition first_body :: "(nat \<Rightarrow> ('z sid_state_scheme, unit) prog) \<Rightarrow> nat \<Rightarrow> ('z sid_state_scheme, unit) prog" where
  "first_body compute rule =
     bind (entry_get_rule rule) (\<lambda>r.
     if rl_computed_first_set r then ret ()
     else if rl_computing_first_set r then error_msg ERR_SERIOUS
     else
       bind (rule_set rule (\<lambda>r. r\<lparr>rl_computing_first_set := True\<rparr>)) (\<lambda>_.
       bind (first_alts compute rule (rl_alts r) 0) (\<lambda>priority.
       first_finish rule priority)))"

fun first_bounded :: "nat \<Rightarrow> nat \<Rightarrow> ('z sid_state_scheme, unit) prog" where
  "first_bounded 0 rule = raise Undefined"
| "first_bounded (Suc n) rule = first_body (first_bounded n) rule"

definition fresh_rule :: "EntryT \<Rightarrow> bool" where
  "fresh_rule e = (case en_u e of U_RULE r \<Rightarrow> \<not> rl_computed_first_set r \<and> \<not> rl_computing_first_set r | _ \<Rightarrow> False)"

definition fresh :: "'z sid_state_scheme \<Rightarrow> nat" where
  "fresh s = length (filter fresh_rule (entries (sid_table s)))"

definition rule_compute_first_set_1 :: "nat \<Rightarrow> ('z sid_state_scheme, unit) prog" where
  "rule_compute_first_set_1 rule s = first_bounded (Suc (fresh s)) rule s"

definition rule_compute_first_set :: "nat \<Rightarrow> ('z sid_state_scheme, unit) prog" where
  "rule_compute_first_set = on_rule rule_compute_first_set_1"

definition grammar_compute_first_sets :: "('z sid_state_scheme, unit) prog" where
  "grammar_compute_first_sets = table_iter rule_compute_first_set"

section \<open>The bound is enough\<close>

text \<open>No assignment in the program takes a mark away.\<close>

lemma keeps_fresh_set:
  assumes "\<And>r. rl_computed_first_set r \<longrightarrow> rl_computed_first_set (f r)" "\<And>r. rl_computing_first_set r \<longrightarrow> rl_computing_first_set (f r)"
  shows "keeps (\<lambda>s. fresh s \<le> k) (rule_set rule f)"
proof (rule keepsI)
  fix s :: "'a sid_state_scheme" and o' t
  assume k: "fresh s \<le> k" and m: "rule_set rule f s = (o', t)"
  show "fresh t \<le> k"
  proof (cases "rule_at s rule")
    case (Some r)
    then have "fresh (rule_put rule (f r) s) \<le> fresh s"
      unfolding fresh_def rule_put_simps rule_at_Some using assms[of r]
      by (intro filter_update_le) (auto simp: fresh_rule_def)
    then show ?thesis using k m Some by (simp add: rule_set_eq)
  qed (use k m in \<open>simp add: rule_set_eq\<close>)
qed

lemma keeps_fresh_error [keeps_intros]: "keeps (\<lambda>s. fresh s \<le> k) (error_msg e)"
  by (cases e) (auto simp: keeps_def error_msg_def bind_def prog_simps fresh_def)

lemma keeps_fresh_get [keeps_intros]:
  "keeps (\<lambda>s. fresh s \<le> k) (entry_get_rule x)" "keeps (\<lambda>s. fresh s \<le> k) (entry_get_basic x)"
  "keeps (\<lambda>s. fresh s \<le> k) (entry_at x)"
  by (auto simp: entry_get_rule_def entry_get_basic_def entry_at_def intro!: keeps_intros split: entry_u.split)

lemma keeps_first_items:
  assumes "\<And>x. keeps (\<lambda>s. fresh s \<le> k) (compute x)"
  shows "keeps (\<lambda>s. fresh s \<le> k) (first_items compute rule initial items no_action priority)"
proof (induction items arbitrary: initial no_action priority)
  case (Cons item items)
  then show ?case
    by (cases "it_type item") (auto simp: Let_def intro!: keeps_intros keeps_fresh_set assms)
qed (auto intro!: keeps_intros)

lemma keeps_first_alts:
  assumes "\<And>x. keeps (\<lambda>s. fresh s \<le> k) (compute x)"
  shows "keeps (\<lambda>s. fresh s \<le> k) (first_alts compute rule alts priority)"
  by (induction alts arbitrary: priority)
    (auto split: prod.splits intro!: keeps_intros keeps_fresh_set keeps_first_items assms)

lemma keeps_first_finish: "keeps (\<lambda>s. fresh s \<le> k) (first_finish rule priority)"
  by (auto simp: first_finish_def intro!: keeps_intros keeps_fresh_set)

lemma keeps_first_bounded: "keeps (\<lambda>s. fresh s \<le> k) (first_bounded n rule)"
proof (induction n arbitrary: rule)
  case (Suc n)
  then show ?case
    by (auto simp: first_body_def intro!: keeps_intros keeps_fresh_set keeps_first_alts keeps_first_finish)
qed (auto intro!: keeps_intros)

lemma fresh_computing:
  assumes "rule_at s rule = Some r" "\<not> rl_computed_first_set r" "\<not> rl_computing_first_set r"
  shows "fresh (rule_put rule (r\<lparr>rl_computing_first_set := True\<rparr>) s) < fresh s"
  using assms unfolding fresh_def rule_put_simps rule_at_Some
  by (intro filter_update_less) (auto simp: fresh_rule_def)

text \<open>Programs that agree where at most \<open>k\<close> rules are fresh.\<close>

definition agrees :: "nat \<Rightarrow> ('z sid_state_scheme, 'a) prog \<Rightarrow> ('z sid_state_scheme, 'a) prog \<Rightarrow> bool" where
  "agrees k m m' \<longleftrightarrow> (\<forall>s. fresh s \<le> k \<longrightarrow> m s = m' s)"

lemma agrees_refl: "agrees k m m"
  by (simp add: agrees_def)

lemma agrees_bind:
  assumes "agrees k m m'" "keeps (\<lambda>s. fresh s \<le> k) m" "\<And>x. agrees k (f x) (g x)"
  shows "agrees k (bind m f) (bind m' g)"
  unfolding agrees_def
proof (intro allI impI)
  fix s :: "'a sid_state_scheme"
  assume s: "fresh s \<le> k"
  then have m: "m s = m' s" using assms(1) by (simp add: agrees_def)
  show "bind m f s = bind m' g s"
  proof (cases "m s")
    case (Pair r t)
    then have "fresh t \<le> k" using keepsD[OF assms(2)] s by blast
    then show ?thesis using Pair m assms(3) by (cases r) (simp_all add: bind_def agrees_def)
  qed
qed

lemma agrees_first_items:
  assumes "\<And>x. keeps (\<lambda>s. fresh s \<le> k) (compute x)" "\<And>x. agrees k (compute x) (compute' x)"
  shows "agrees k (first_items compute rule initial items no_action priority)
    (first_items compute' rule initial items no_action priority)"
proof (induction items arbitrary: initial no_action priority)
  case (Cons item items)
  then show ?case
    by (cases "it_type item")
      (auto simp: Let_def agrees_refl intro!: agrees_bind keeps_intros keeps_fresh_set assms)
qed (simp add: agrees_refl)

lemma agrees_first_alts:
  assumes "\<And>x. keeps (\<lambda>s. fresh s \<le> k) (compute x)" "\<And>x. agrees k (compute x) (compute' x)"
  shows "agrees k (first_alts compute rule alts priority) (first_alts compute' rule alts priority)"
  by (induction alts arbitrary: priority)
    (auto simp: agrees_refl split: prod.splits
      intro!: agrees_bind keeps_intros keeps_fresh_set keeps_first_items agrees_first_items assms)

text \<open>The body calls itself only with fewer fresh rules.\<close>

lemma first_body_cong:
  assumes "\<And>x. keeps (\<lambda>s. fresh s \<le> k) (compute x)" "\<And>x. agrees k (compute x) (compute' x)" "fresh s \<le> Suc k"
  shows "first_body compute rule s = first_body compute' rule s"
proof (cases "rule_at s rule")
  case (Some r)
  show ?thesis
  proof (cases "rl_computed_first_set r \<or> rl_computing_first_set r")
    case False
    let ?t = "rule_put rule (r\<lparr>rl_computing_first_set := True\<rparr>) s"
    have "fresh ?t \<le> k" using fresh_computing[OF Some] False assms(3) by simp
    then have "first_alts compute rule (rl_alts r) 0 ?t = first_alts compute' rule (rl_alts r) 0 ?t"
      using agrees_first_alts[OF assms(1,2)] by (simp add: agrees_def)
    then show ?thesis using Some False
      by (simp add: first_body_def entry_get_rule_eq rule_set_eq bind_def)
  qed (use Some in \<open>auto simp: first_body_def entry_get_rule_eq bind_def\<close>)
qed (simp add: first_body_def entry_get_rule_eq bind_def)

lemma first_body_marked:
  assumes "fresh s = 0"
  shows "first_body compute rule s = first_body compute' rule s"
proof (cases "rule_at s rule")
  case (Some r)
  then have "rl_computed_first_set r \<or> rl_computing_first_set r" using fresh_computing[OF Some] assms by fastforce
  then show ?thesis using Some by (auto simp: first_body_def entry_get_rule_eq bind_def)
qed (simp add: first_body_def entry_get_rule_eq bind_def)

lemma first_bounded_enough:
  fixes s :: "'z sid_state_scheme"
  shows "fresh s \<le> n \<Longrightarrow> n \<le> m \<Longrightarrow> first_bounded (Suc m) rule s = first_bounded (Suc n) rule s"
proof (induction n arbitrary: m rule s)
  case 0
  then show ?case using first_body_marked[of s] by simp
next
  case (Suc n)
  then obtain m' where m: "m = Suc m'" by (cases m) auto
  have "agrees n (first_bounded (Suc m') x) (first_bounded (Suc n) x :: ('z sid_state_scheme, unit) prog)" for x
    unfolding agrees_def using Suc.IH[of _ m' x] Suc.prems(2) m by blast
  then have "first_body (first_bounded (Suc m')) rule s = first_body (first_bounded (Suc n)) rule s"
    using Suc.prems(1) by (intro first_body_cong[where k = n] keeps_first_bounded)
  then show ?case by (simp only: m first_bounded.simps(2)[of _ rule])
qed

text \<open>
  With the bound on the depth of its calls that it is given, the function satisfies the equation of the source,
  in which there is no bound.
\<close>

theorem rule_compute_first_set_1_unfold:
  "rule_compute_first_set_1 rule = first_body rule_compute_first_set_1 rule"
proof
  fix s :: "'a sid_state_scheme"
  show "rule_compute_first_set_1 rule s = first_body rule_compute_first_set_1 rule s"
  proof (cases "fresh s")
    case 0
    then show ?thesis using first_body_marked[of s] by (simp add: rule_compute_first_set_1_def)
  next
    case (Suc k)
    have "agrees k (first_bounded (Suc k) x) (rule_compute_first_set_1 x :: ('a sid_state_scheme, unit) prog)" for x
      unfolding agrees_def rule_compute_first_set_1_def by (blast intro: first_bounded_enough)
    then have "first_body (first_bounded (Suc k)) rule s = first_body rule_compute_first_set_1 rule s"
      using Suc by (intro first_body_cong[where k = k] keeps_first_bounded) auto
    then show ?thesis by (simp only: rule_compute_first_set_1_def[of rule s] Suc first_bounded.simps(2)[of "Suc k" rule])
  qed
qed

end
