(* ===== verification/Sid_Spec.thy ===== *)
theory Sid_Spec
  imports Sid_Grammar
begin

text \<open>
  What the grammars of \<^verbatim>\<open>sid\<close> mean: which rules can produce nothing, which symbols a rule can start with and
  which can follow it, as inductive predicates on the unchanging part of a grammar. A symbol is a
  terminal or a predicate; actions and renamings produce nothing.
\<close>

datatype sentry =
    S_RULE (s_empty: bool) (s_alts: "ItemT list list") (s_handler: "ItemT list option")
  | S_BASIC (s_terminal: cuint)
  | S_OTHER

definition skel :: "EntryT \<Rightarrow> sentry" where
  "skel e = (case (en_type e, en_u e) of
     (ET_RULE, U_RULE r) \<Rightarrow> S_RULE (rl_has_empty_alt r) (map alt_items (rl_alts r)) (map_option alt_items (rl_handler r))
   | (ET_BASIC, U_BASIC b) \<Rightarrow> S_BASIC (bs_terminal b)
   | _ \<Rightarrow> S_OTHER)"

definition grammar_of :: "'z sid_state_scheme \<Rightarrow> sentry list" where
  "grammar_of s = map skel (entries (sid_table s))"

definition is_rule :: "sentry list \<Rightarrow> nat \<Rightarrow> bool" where
  "is_rule G x \<longleftrightarrow> x < length G \<and> (case G ! x of S_RULE _ _ _ \<Rightarrow> True | _ \<Rightarrow> False)"

definition is_basic :: "sentry list \<Rightarrow> nat \<Rightarrow> bool" where
  "is_basic G x \<longleftrightarrow> x < length G \<and> (case G ! x of S_BASIC _ \<Rightarrow> True | _ \<Rightarrow> False)"

definition alts_of :: "sentry list \<Rightarrow> nat \<Rightarrow> ItemT list set" where
  "alts_of G x = set (s_alts (G ! x))"

datatype symbol = Term nat | Pred nat

section \<open>Rules that produce nothing\<close>

abbreviation silent :: "ItemT \<Rightarrow> bool" where
  "silent item \<equiv> it_type item = ET_ACTION \<or> it_type item = ET_RENAME"

inductive nullable :: "sentry list \<Rightarrow> nat \<Rightarrow> bool" for G where
  nullable_empty: "is_rule G x \<Longrightarrow> s_empty (G ! x) \<Longrightarrow> nullable G x"
| nullable_alt: "is_rule G x \<Longrightarrow> a \<in> alts_of G x \<Longrightarrow>
    (\<forall>item\<in>set a. silent item \<or> it_type item = ET_RULE \<and> nullable G (it_entry item)) \<Longrightarrow> nullable G x"

definition item_nullable :: "sentry list \<Rightarrow> ItemT \<Rightarrow> bool" where
  "item_nullable G item \<longleftrightarrow> silent item \<or> it_type item = ET_RULE \<and> nullable G (it_entry item)"

definition items_nullable :: "sentry list \<Rightarrow> ItemT list \<Rightarrow> bool" where
  "items_nullable G items \<longleftrightarrow> (\<forall>item\<in>set items. item_nullable G item)"

section \<open>Symbols that start a rule\<close>

inductive starts :: "sentry list \<Rightarrow> nat \<Rightarrow> symbol \<Rightarrow> bool" for G where
  starts_basic: "is_rule G x \<Longrightarrow> pre @ item # post \<in> alts_of G x \<Longrightarrow> items_nullable G pre \<Longrightarrow>
    it_type item = ET_BASIC \<Longrightarrow> starts G x (Term (unat (s_terminal (G ! it_entry item))))"
| starts_predicate: "is_rule G x \<Longrightarrow> pre @ item # post \<in> alts_of G x \<Longrightarrow> items_nullable G pre \<Longrightarrow>
    it_type item = ET_PREDICATE \<Longrightarrow> starts G x (Pred (it_entry item))"
| starts_rule: "is_rule G x \<Longrightarrow> pre @ item # post \<in> alts_of G x \<Longrightarrow> items_nullable G pre \<Longrightarrow>
    it_type item = ET_RULE \<Longrightarrow> starts G (it_entry item) t \<Longrightarrow> starts G x t"

text \<open>The symbols that start a sequence of items.\<close>

definition item_starts :: "sentry list \<Rightarrow> ItemT \<Rightarrow> symbol \<Rightarrow> bool" where
  "item_starts G item t \<longleftrightarrow>
     it_type item = ET_BASIC \<and> t = Term (unat (s_terminal (G ! it_entry item))) \<or>
     it_type item = ET_PREDICATE \<and> t = Pred (it_entry item) \<or>
     it_type item = ET_RULE \<and> starts G (it_entry item) t"

fun items_start :: "sentry list \<Rightarrow> ItemT list \<Rightarrow> symbol \<Rightarrow> bool" where
  "items_start G [] t = False"
| "items_start G (item # items) t = (item_starts G item t \<or> item_nullable G item \<and> items_start G items t)"

section \<open>Symbols that follow a rule\<close>

definition bodies_of :: "sentry list \<Rightarrow> nat \<Rightarrow> ItemT list set" where
  "bodies_of G x = alts_of G x \<union> set_option (s_handler (G ! x))"

inductive follows :: "sentry list \<Rightarrow> nat \<Rightarrow> symbol \<Rightarrow> bool" for G where
  follows_next: "is_rule G x \<Longrightarrow> pre @ item # post \<in> bodies_of G x \<Longrightarrow> it_type item = ET_RULE \<Longrightarrow>
    items_start G post t \<Longrightarrow> follows G (it_entry item) t"
| follows_end: "is_rule G x \<Longrightarrow> pre @ item # post \<in> bodies_of G x \<Longrightarrow> it_type item = ET_RULE \<Longrightarrow>
    items_nullable G post \<Longrightarrow> follows G x t \<Longrightarrow> follows G (it_entry item) t"

section \<open>Facts\<close>

lemma items_nullable_simps [simp]:
  "items_nullable G []" "items_nullable G (item # items) \<longleftrightarrow> item_nullable G item \<and> items_nullable G items"
  "items_nullable G (xs @ ys) \<longleftrightarrow> items_nullable G xs \<and> items_nullable G ys"
  by (auto simp: items_nullable_def)

lemma nullable_items: "is_rule G x \<Longrightarrow> a \<in> alts_of G x \<Longrightarrow> items_nullable G a \<Longrightarrow> nullable G x"
  by (rule nullable_alt) (auto simp: items_nullable_def item_nullable_def)

lemma starts_item:
  "is_rule G x \<Longrightarrow> pre @ item # post \<in> alts_of G x \<Longrightarrow> items_nullable G pre \<Longrightarrow> item_starts G item t \<Longrightarrow> starts G x t"
  by (auto simp: item_starts_def intro: starts.intros)

lemma items_start_iff:
  "items_start G items t \<longleftrightarrow> (\<exists>pre item post. items = pre @ item # post \<and> items_nullable G pre \<and> item_starts G item t)"
proof (induction items)
  case (Cons item items)
  show ?case
  proof
    assume "items_start G (item # items) t"
    then consider "item_starts G item t" | "item_nullable G item" "items_start G items t" by auto
    then show "\<exists>pre it post. item # items = pre @ it # post \<and> items_nullable G pre \<and> item_starts G it t"
    proof cases
      case 1
      then show ?thesis by (intro exI[of _ "[]"]) auto
    next
      case 2
      then obtain pre it post where "items = pre @ it # post" "items_nullable G pre" "item_starts G it t"
        using Cons.IH by blast
      then show ?thesis using 2 by (intro exI[of _ "item # pre"] exI[of _ it] exI[of _ post]) auto
    qed
  next
    assume "\<exists>pre it post. item # items = pre @ it # post \<and> items_nullable G pre \<and> item_starts G it t"
    then obtain pre it post where h: "item # items = pre @ it # post" "items_nullable G pre" "item_starts G it t" by blast
    then show "items_start G (item # items) t" using Cons.IH by (cases pre) auto
  qed
qed simp

lemma starts_iff: "starts G x t \<longleftrightarrow> is_rule G x \<and> (\<exists>a\<in>alts_of G x. items_start G a t)"
proof
  assume "starts G x t"
  then show "is_rule G x \<and> (\<exists>a\<in>alts_of G x. items_start G a t)"
    by cases (auto simp: items_start_iff item_starts_def intro!: bexI)
qed (auto simp: items_start_iff intro: starts_item)

lemma nullable_iff: "nullable G x \<longleftrightarrow> is_rule G x \<and> (s_empty (G ! x) \<or> (\<exists>a\<in>alts_of G x. items_nullable G a))"
proof
  assume "nullable G x"
  then show "is_rule G x \<and> (s_empty (G ! x) \<or> (\<exists>a\<in>alts_of G x. items_nullable G a))"
    by cases (auto simp: items_nullable_def item_nullable_def)
qed (auto intro: nullable_items nullable_empty)

section \<open>Well-formed grammars and states\<close>

definition item_ok :: "cuint \<Rightarrow> sentry list \<Rightarrow> ItemT \<Rightarrow> bool" where
  "item_ok n G item = (case it_type item of
     ET_RULE \<Rightarrow> is_rule G (it_entry item)
   | ET_BASIC \<Rightarrow> is_basic G (it_entry item) \<and> unat (s_terminal (G ! it_entry item)) < unat n
   | ET_PREDICATE \<Rightarrow> it_entry item < length G
   | ET_ACTION \<Rightarrow> True
   | ET_RENAME \<Rightarrow> True
   | _ \<Rightarrow> False)"

text \<open>\<open>n\<close> terminals, numbered from zero; the items lead to entries of their type.\<close>

definition grammar_ok :: "cuint \<Rightarrow> sentry list \<Rightarrow> bool" where
  "grammar_ok n G \<longleftrightarrow> 0 < unat n \<and> unat n + 7 < 2 ^ 32 \<and> length G < 2 ^ 32 - 1 \<and>
     (\<forall>x<length G. is_rule G x \<longrightarrow> (\<forall>a\<in>bodies_of G x. \<forall>item\<in>set a. item_ok n G item))"

definition rule_ok :: "cuint \<Rightarrow> nat \<Rightarrow> RuleT \<Rightarrow> bool" where
  "rule_ok n l r \<longleftrightarrow> bitvec_ok (unat n) (rl_first_set r) \<and> bitvec_ok (unat n) (rl_follow_set r) \<and>
     set (rl_predicate_first r) \<subseteq> {..<l} \<and> set (rl_predicate_follow r) \<subseteq> {..<l} \<and>
     (\<forall>alt\<in>set (rl_alts r). bitvec_ok (unat n) (alt_first_set alt))"

text \<open>Every entry is linked into the table.\<close>

definition all_linked :: "'z sid_state_scheme \<Rightarrow> bool" where
  "all_linked s \<longleftrightarrow> set (table_order (sid_table s)) = {..<length (entries (sid_table s))}"

definition sid_wf :: "cuint \<Rightarrow> sentry list \<Rightarrow> 'z sid_state_scheme \<Rightarrow> bool" where
  "sid_wf n G s \<longleftrightarrow> grammar_ok n G \<and> grammar_of s = G \<and> all_linked s \<and> sid_bitvec s = bitvec_set_size n \<and>
     (\<forall>x<length G. en_type (entries (sid_table s) ! x) = ET_RULE \<longrightarrow> rule_at s x \<noteq> None) \<and>
     (\<forall>x r. rule_at s x = Some r \<longrightarrow> rule_ok n (length G) r)"

lemma skel_rule: "skel e = S_RULE b as h \<longleftrightarrow> en_type e = ET_RULE \<and> (\<exists>r. en_u e = U_RULE r \<and> b = rl_has_empty_alt r \<and>
    as = map alt_items (rl_alts r) \<and> h = map_option alt_items (rl_handler r))"
  by (cases "en_type e"; cases "en_u e"; auto simp: skel_def)

lemma is_rule_iff: "is_rule (grammar_of s) x \<longleftrightarrow> (\<exists>r. rule_at s x = Some r)"
  by (cases "x < length (entries (sid_table s))"; cases "en_type (entries (sid_table s) ! x)"; cases "en_u (entries (sid_table s) ! x)")
    (auto simp: is_rule_def grammar_of_def rule_at_Some skel_def)

lemma skel_at: "rule_at s x = Some r \<Longrightarrow> grammar_of s ! x =
    S_RULE (rl_has_empty_alt r) (map alt_items (rl_alts r)) (map_option alt_items (rl_handler r))"
  by (simp add: rule_at_Some grammar_of_def skel_def)

lemma basic_at:
  assumes "is_basic (grammar_of s) x"
  obtains b where "entry_get_basic x s = (Ret b, s)" "bs_terminal b = s_terminal (grammar_of s ! x)"
proof -
  have x: "x < length (entries (sid_table s))" using assms by (simp add: is_basic_def grammar_of_def)
  then obtain b where "en_type (entries (sid_table s) ! x) = ET_BASIC" "en_u (entries (sid_table s) ! x) = U_BASIC b"
    using assms by (cases "en_type (entries (sid_table s) ! x)"; cases "en_u (entries (sid_table s) ! x)")
      (auto simp: is_basic_def grammar_of_def skel_def)
  then show thesis using x that
    by (simp add: entry_get_basic_def entry_at_def bind_def prog_simps grammar_of_def skel_def)
qed

lemma grammar_of_put:
  assumes "rule_at s x = Some r" "rl_has_empty_alt q = rl_has_empty_alt r"
    "map alt_items (rl_alts q) = map alt_items (rl_alts r)" "map_option alt_items (rl_handler q) = map_option alt_items (rl_handler r)"
  shows "grammar_of (rule_put x q s) = grammar_of s"
  using assms unfolding grammar_of_def rule_put_simps rule_at_Some
  by (intro map_list_update_same) (simp_all add: skel_def)

lemma grammar_of_error [simp]:
  "grammar_of (s\<lparr>number_errors := m\<rparr>) = grammar_of s" "grammar_of (s\<lparr>exit_status := b\<rparr>) = grammar_of s"
  by (simp_all add: grammar_of_def)

lemma all_linked_simps [simp]:
  "all_linked (s\<lparr>number_errors := m\<rparr>) = all_linked s" "all_linked (s\<lparr>exit_status := b\<rparr>) = all_linked s"
  "all_linked (rule_put x r s) = all_linked s"
  by (simp_all add: all_linked_def table_order_def)

lemma sid_wf_rule: "sid_wf n G s \<Longrightarrow> is_rule G x \<longleftrightarrow> (\<exists>r. rule_at s x = Some r)"
  using is_rule_iff[of s x] by (simp add: sid_wf_def)

lemma sid_wf_alts:
  assumes "sid_wf n G s" "rule_at s x = Some r"
  shows "G ! x = S_RULE (rl_has_empty_alt r) (map alt_items (rl_alts r)) (map_option alt_items (rl_handler r))"
    "is_rule G x" "alts_of G x = alt_items ` set (rl_alts r)"
    "bodies_of G x = alt_items ` set (rl_alts r) \<union> alt_items ` set_option (rl_handler r)"
  using assms skel_at[OF assms(2)] is_rule_iff[of s x]
  by (auto simp: sid_wf_def alts_of_def bodies_of_def option.set_map)

lemma sid_wf_item: "sid_wf n G s \<Longrightarrow> is_rule G x \<Longrightarrow> a \<in> bodies_of G x \<Longrightarrow> item \<in> set a \<Longrightarrow> item_ok n G item"
  by (auto simp: sid_wf_def grammar_ok_def is_rule_def)

lemma sid_wf_put:
  assumes "sid_wf n G s" "rule_at s x = Some r" "rl_has_empty_alt q = rl_has_empty_alt r"
    "map alt_items (rl_alts q) = map alt_items (rl_alts r)" "map_option alt_items (rl_handler q) = map_option alt_items (rl_handler r)"
    "rule_ok n (length G) q"
  shows "sid_wf n G (rule_put x q s)"
  using assms grammar_of_put[OF assms(2-5)]
  by (auto simp: sid_wf_def rule_at_put[OF assms(2)] nth_list_update rule_at_Some split: if_splits)

end
