(* ===== verification/Sid_First_Correct.thy ===== *)
theory Sid_First_Correct
  imports Sid_Firsts Sid_Spec
begin

text \<open>
  The first sets are right: when the computation ends without reporting an error, the first set of every
  rule is exactly the set of symbols the rule can start with, and the rule is see through exactly when it
  can produce nothing. The proof has an invariant: what is in a set belongs there, whatever happens, and
  what has been computed is closed under the alternatives, as long as no error is reported.
\<close>

section \<open>Outcomes\<close>

text \<open>
  A run that returns with \<open>Q\<close> or ends the process, with no undefined behaviour unless \<open>C\<close> holds.
\<close>

fun ends_unless :: "bool \<Rightarrow> ('a \<Rightarrow> 's \<Rightarrow> bool) \<Rightarrow> 'a outcome \<times> 's \<Rightarrow> bool" where
  "ends_unless C Q (Ret x, t) = Q x t"
| "ends_unless C Q (Raise e, t) = (e = Exit_Failure \<or> C \<and> e = Undefined)"

text \<open>The same without undefined behaviour.\<close>

abbreviation ends :: "('a \<Rightarrow> 's \<Rightarrow> bool) \<Rightarrow> 'a outcome \<times> 's \<Rightarrow> bool" where
  "ends \<equiv> ends_unless False"

lemma ends_bind: "ends_unless C R (m s) \<Longrightarrow> (\<And>x t. R x t \<Longrightarrow> ends_unless C Q (f x t)) \<Longrightarrow> ends_unless C Q (bind m f s)"
  by (auto simp: bind_def split: prod.splits outcome.splits)

lemma ends_mono: "ends_unless C R p \<Longrightarrow> (\<And>x t. R x t \<Longrightarrow> Q x t) \<Longrightarrow> ends_unless C Q p"
  by (cases p; cases "fst p") auto

lemma ends_unless_mono: "ends_unless C Q p \<Longrightarrow> (C \<Longrightarrow> D) \<Longrightarrow> ends_unless D Q p"
  by (cases p; cases "fst p") auto

lemma ends_for_each:
  "I s \<Longrightarrow> (\<And>x t. x \<in> set xs \<Longrightarrow> I t \<Longrightarrow> ends_unless C (\<lambda>_. I) (body x t)) \<Longrightarrow> ends_unless C (\<lambda>_. I) (for_each xs body s)"
  by (induction xs arbitrary: s) (auto simp: ret_def intro!: ends_bind[where R = "\<lambda>_. I"])

section \<open>Growing sets\<close>

text \<open>What the computation of first sets leaves alone.\<close>

definition rule_frame :: "RuleT \<Rightarrow> BitVecT \<times> EntryListT \<times> bool \<times> nat option \<times> AltT list" where
  "rule_frame r = (rl_follow_set r, rl_predicate_follow r, rl_started_follows r, rl_see_through_alt r, rl_alts r)"

definition rule_le :: "RuleT \<Rightarrow> RuleT \<Rightarrow> bool" where
  "rule_le r q \<longleftrightarrow> rule_frame q = rule_frame r \<and> bits_of (rl_first_set r) \<subseteq> bits_of (rl_first_set q) \<and>
     set (rl_predicate_first r) \<subseteq> set (rl_predicate_first q) \<and> (rl_see_through r \<longrightarrow> rl_see_through q) \<and>
     (rl_computed_first_set r \<longrightarrow> q = r) \<and>
     (rl_computing_first_set r \<and> \<not> rl_computed_first_set r \<longrightarrow> rl_computing_first_set q \<and> \<not> rl_computed_first_set q)"

definition grows :: "'z sid_state_scheme \<Rightarrow> 'z sid_state_scheme \<Rightarrow> bool" where
  "grows s t \<longleftrightarrow> number_errors s \<le> number_errors t \<and>
     (\<forall>x r. rule_at s x = Some r \<longrightarrow> (\<exists>q. rule_at t x = Some q \<and> rule_le r q))"

lemma rule_frame_simps [simp]:
  "rule_frame (r\<lparr>rl_first_set := v\<rparr>) = rule_frame r" "rule_frame (r\<lparr>rl_predicate_first := ps\<rparr>) = rule_frame r"
  "rule_frame (r\<lparr>rl_see_through := b\<rparr>) = rule_frame r" "rule_frame (r\<lparr>rl_priority := i\<rparr>) = rule_frame r"
  "rule_frame (r\<lparr>rl_computed_first_set := b\<rparr>) = rule_frame r" "rule_frame (r\<lparr>rl_computing_first_set := b\<rparr>) = rule_frame r"
  by (simp_all add: rule_frame_def)

lemma rule_le_refl [simp]: "rule_le r r"
  by (simp add: rule_le_def)

lemma rule_le_trans: "rule_le r q \<Longrightarrow> rule_le q p \<Longrightarrow> rule_le r p"
  by (auto simp: rule_le_def)

lemma grows_refl [simp]: "grows s s"
  by (simp add: grows_def)

lemma grows_trans: "grows s t \<Longrightarrow> grows t u \<Longrightarrow> grows s u"
  unfolding grows_def by (meson order.trans rule_le_trans)

lemma grows_at:
  assumes "grows s t" "rule_at s x = Some r"
  obtains q where "rule_at t x = Some q" "rule_le r q"
  using assms by (auto simp: grows_def)

lemma grows_computed: "grows s t \<Longrightarrow> rule_at s x = Some r \<Longrightarrow> rl_computed_first_set r \<Longrightarrow> rule_at t x = Some r"
  by (auto simp: grows_def rule_le_def)

lemma grows_put: "rule_at s x = Some r \<Longrightarrow> rule_le r q \<Longrightarrow> grows s (rule_put x q s)"
  by (auto simp: grows_def rule_at_put)

lemma grows_errors: "grows s t \<Longrightarrow> number_errors s \<le> number_errors t"
  by (simp add: grows_def)

section \<open>Invariant\<close>

definition computed :: "'z sid_state_scheme \<Rightarrow> nat" where
  "computed s = card {x. \<exists>r. rule_at s x = Some r \<and> rl_computed_first_set r}"

lemma finite_computed: "finite {x. \<exists>r. rule_at s x = Some r \<and> P r}"
  by (rule finite_subset[of _ "{..<length (entries (sid_table s))}"]) (auto simp: rule_at_Some)

lemma computed_mono: "grows s t \<Longrightarrow> computed s \<le> computed t"
  unfolding computed_def by (intro card_mono finite_computed) (blast dest: grows_computed)

lemma computed_le: "computed s \<le> length (entries (sid_table s))"
proof -
  have "computed s \<le> card {..<length (entries (sid_table s))}"
    unfolding computed_def by (rule card_mono) (auto simp: rule_at_Some)
  then show ?thesis by simp
qed

definition rule_sound :: "sentry list \<Rightarrow> nat \<Rightarrow> RuleT \<Rightarrow> bool" where
  "rule_sound G x r \<longleftrightarrow> (\<forall>t\<in>bits_of (rl_first_set r). starts G x (Term t)) \<and>
     (\<forall>p\<in>set (rl_predicate_first r). starts G x (Pred p)) \<and> (rl_see_through r \<longrightarrow> nullable G x)"

text \<open>
  The sets of rule \<open>r\<close> contain what the items give, up to the first one that is not see through, and the
  rules that are looked at have been computed; \<open>see\<close> holds if all items are see through.
\<close>

fun closed_items :: "'z sid_state_scheme \<Rightarrow> RuleT \<Rightarrow> bool \<Rightarrow> bool \<Rightarrow> ItemT list \<Rightarrow> bool" where
  "closed_items s r see initial [] = see"
| "closed_items s r see initial (item # items) = (case it_type item of
     ET_PREDICATE \<Rightarrow> initial \<and> it_entry item \<in> set (rl_predicate_first r)
   | ET_BASIC \<Rightarrow> unat (s_terminal (grammar_of s ! it_entry item)) \<in> bits_of (rl_first_set r)
   | ET_RULE \<Rightarrow> (\<exists>c. rule_at s (it_entry item) = Some c \<and> rl_computed_first_set c \<and>
       bits_of (rl_first_set c) \<subseteq> bits_of (rl_first_set r) \<and> set (rl_predicate_first c) \<subseteq> set (rl_predicate_first r) \<and>
       (initial \<or> rl_predicate_first c = []) \<and> (rl_see_through c \<longrightarrow> closed_items s r see False items))
   | _ \<Rightarrow> closed_items s r see False items)"

definition closed_rule :: "'z sid_state_scheme \<Rightarrow> RuleT \<Rightarrow> bool" where
  "closed_rule s r \<longleftrightarrow> (rl_has_empty_alt r \<longrightarrow> rl_see_through r) \<and>
     (\<forall>alt\<in>set (rl_alts r). closed_items s r (rl_see_through r) True (alt_items alt))"

definition first_inv :: "cuint \<Rightarrow> sentry list \<Rightarrow> nat \<Rightarrow> 'z sid_state_scheme \<Rightarrow> bool" where
  "first_inv n G N s \<longleftrightarrow> sid_wf n G s \<and> N \<le> number_errors s \<and>
     (\<forall>x r. rule_at s x = Some r \<longrightarrow> rule_sound G x r \<and> unat (rl_priority r) \<le> computed s \<and>
       (rl_computed_first_set r \<longrightarrow> number_errors s = N \<longrightarrow> closed_rule s r))"

definition keeps_computed :: "'z sid_state_scheme \<Rightarrow> 'z sid_state_scheme \<Rightarrow> bool" where
  "keeps_computed s t \<longleftrightarrow> (\<forall>x r. rule_at s x = Some r \<longrightarrow> rl_computed_first_set r \<longrightarrow> rule_at t x = Some r)"

lemma grows_keeps_computed: "grows s t \<Longrightarrow> keeps_computed s t"
  by (auto simp: keeps_computed_def dest: grows_computed)

lemma put_keeps_computed: "rule_at s x = Some r \<Longrightarrow> \<not> rl_computed_first_set r \<Longrightarrow> keeps_computed s (rule_put x q s)"
  by (auto simp: keeps_computed_def rule_at_put)

lemma closed_items_mono:
  assumes "keeps_computed s t" "grammar_of t = grammar_of s" "bits_of (rl_first_set r) \<subseteq> bits_of (rl_first_set q)"
    "set (rl_predicate_first r) \<subseteq> set (rl_predicate_first q)" "see \<Longrightarrow> see'"
  shows "closed_items s r see initial items \<Longrightarrow> closed_items t q see' initial items"
proof (induction items arbitrary: initial)
  case (Cons item items)
  show ?case
  proof (cases "it_type item = ET_RULE")
    case True
    then obtain c where c: "rule_at s (it_entry item) = Some c" "rl_computed_first_set c"
      "bits_of (rl_first_set c) \<subseteq> bits_of (rl_first_set r)" "set (rl_predicate_first c) \<subseteq> set (rl_predicate_first r)"
      "initial \<or> rl_predicate_first c = []" "rl_see_through c \<longrightarrow> closed_items s r see False items"
      using Cons.prems by auto
    then show ?thesis using True assms(1,3,4) Cons.IH by (auto simp: keeps_computed_def)
  next
    case False
    then show ?thesis using Cons assms by (cases "it_type item") auto
  qed
qed (use assms in simp)

lemma closed_rule_mono: "keeps_computed s t \<Longrightarrow> grammar_of t = grammar_of s \<Longrightarrow> closed_rule s r \<Longrightarrow> closed_rule t r"
  by (auto simp: closed_rule_def intro: closed_items_mono)

text \<open>An assignment to a rule that is being computed.\<close>

lemma first_inv_put:
  assumes inv: "first_inv n G N s" and x: "rule_at s x = Some r" "\<not> rl_computed_first_set r" "\<not> rl_computed_first_set q"
    and q: "rule_le r q" "rl_has_empty_alt q = rl_has_empty_alt r" "rl_alts q = rl_alts r" "rl_handler q = rl_handler r"
      "rule_ok n (length G) q" "rule_sound G x q" "unat (rl_priority q) \<le> computed s"
  shows "first_inv n G N (rule_put x q s)"
proof -
  let ?t = "rule_put x q s"
  have wf: "sid_wf n G s" "sid_wf n G ?t" using inv x q by (auto simp: first_inv_def intro!: sid_wf_put)
  have le: "grows s ?t" by (rule grows_put[OF x(1) q(1)])
  show ?thesis unfolding first_inv_def
  proof (intro conjI allI impI)
    fix y p assume p: "rule_at ?t y = Some p"
    then have "y = x \<and> p = q \<or> y \<noteq> x \<and> rule_at s y = Some p" by (auto simp: rule_at_put[OF x(1)] split: if_splits)
    then show "rule_sound G y p" "unat (rl_priority p) \<le> computed ?t"
      using inv q computed_mono[OF le] by (fastforce simp: first_inv_def)+
    assume e: "rl_computed_first_set p" "number_errors ?t = N"
    then have "rule_at s y = Some p" using x(3) \<open>y = x \<and> p = q \<or> y \<noteq> x \<and> rule_at s y = Some p\<close> by auto
    then have "closed_rule s p" using inv e by (simp add: first_inv_def)
    then show "closed_rule ?t p" using closed_rule_mono[OF put_keeps_computed[OF x(1,2)]] wf by (simp add: sid_wf_def)
  qed (use inv wf in \<open>auto simp: first_inv_def\<close>)
qed

section \<open>The loop over the items\<close>

lemma sid_bitvec_ops:
  assumes "sid_wf n G s" "bitvec_ok (unat n) v" "bitvec_ok (unat n) w"
  shows "\<exists>u. bitvec_or (sid_bitvec s) v w = Some u \<and> bitvec_ok (unat n) u \<and> bits_of u = bits_of v \<union> bits_of w"
    "unat i < unat n \<Longrightarrow> \<exists>u. bitvec_set (sid_bitvec s) v i = Some u \<and> bitvec_ok (unat n) u \<and> bits_of u = insert (unat i) (bits_of v)"
    "bitvec_is_full (sid_bitvec s) v = Some (bits_of v = {..<unat n})"
    "bitvec_intersects (sid_bitvec s) v w = Some (bits_of v \<inter> bits_of w \<noteq> {})"
    "bitvec_equal (sid_bitvec s) v w = Some (bits_of v = bits_of w)"
    "unat i < unat n \<Longrightarrow> bitvec_is_set (sid_bitvec s) v i = Some (unat i \<in> bits_of v)"
    "\<exists>u. bitvec_and (sid_bitvec s) v w = Some u \<and> bitvec_ok (unat n) u \<and> bits_of u = bits_of v \<inter> bits_of w"
    "\<exists>u. bitvec_not (sid_bitvec s) v = Some u \<and> bitvec_ok (unat n) u \<and> bits_of u = {..<unat n} - bits_of v"
proof -
  have n: "0 < unat n" "unat n + 7 < 2 ^ 32" "sid_bitvec s = bitvec_set_size n"
    using assms(1) by (auto simp: sid_wf_def grammar_ok_def)
  note laws = bitvec_laws[OF n(2) assms(2,3)]
  show "\<exists>u. bitvec_or (sid_bitvec s) v w = Some u \<and> bitvec_ok (unat n) u \<and> bits_of u = bits_of v \<union> bits_of w"
    "bitvec_is_full (sid_bitvec s) v = Some (bits_of v = {..<unat n})"
    "bitvec_intersects (sid_bitvec s) v w = Some (bits_of v \<inter> bits_of w \<noteq> {})"
    "bitvec_equal (sid_bitvec s) v w = Some (bits_of v = bits_of w)"
    "\<exists>u. bitvec_and (sid_bitvec s) v w = Some u \<and> bitvec_ok (unat n) u \<and> bits_of u = bits_of v \<inter> bits_of w"
    unfolding n(3) by (rule laws)+
  show "\<exists>u. bitvec_not (sid_bitvec s) v = Some u \<and> bitvec_ok (unat n) u \<and> bits_of u = {..<unat n} - bits_of v"
    using laws(5) n(1,3) by simp
  assume "unat i < unat n"
  then show "\<exists>u. bitvec_set (sid_bitvec s) v i = Some u \<and> bitvec_ok (unat n) u \<and> bits_of u = insert (unat i) (bits_of v)"
    "bitvec_is_set (sid_bitvec s) v i = Some (unat i \<in> bits_of v)"
    using laws(1,2)[of i] n(3) by simp_all
qed

lemma rule_put_put [simp]: "rule_put x q (rule_put x r s) = rule_put x q s"
  by (cases "x < length (entries (sid_table s))") (simp_all add: rule_put_def table_set_def list_update_beyond)

lemma fresh_put:
  assumes "rule_at s x = Some r" "rl_computing_first_set r" "rl_computing_first_set q"
  shows "fresh (rule_put x q s) \<le> fresh s"
  using assms unfolding fresh_def rule_put_simps rule_at_Some
  by (intro filter_update_le) (auto simp: fresh_rule_def)

definition computing :: "'z sid_state_scheme \<Rightarrow> nat \<Rightarrow> RuleT \<Rightarrow> bool" where
  "computing s x r \<longleftrightarrow> rule_at s x = Some r \<and> rl_computing_first_set r \<and> \<not> rl_computed_first_set r"

lemma computing_grows:
  assumes "grows s t" "computing s x r"
  obtains q where "computing t x q" "rule_le r q"
proof -
  have r: "rule_at s x = Some r" "rl_computing_first_set r" "\<not> rl_computed_first_set r" using assms(2) by (simp_all add: computing_def)
  obtain q where q: "rule_at t x = Some q" "rule_le r q" using grows_at[OF assms(1) r(1)] .
  then show thesis using r by (intro that[of q]) (simp_all add: computing_def rule_le_def)
qed

text \<open>What a state satisfies during the computation, and what it satisfies later.\<close>

definition first_state :: "cuint \<Rightarrow> sentry list \<Rightarrow> nat \<Rightarrow> nat \<Rightarrow> 'z sid_state_scheme \<Rightarrow> bool" where
  "first_state n G N k s \<longleftrightarrow> first_inv n G N s \<and> fresh s \<le> k"

lemma first_state_put:
  assumes "first_state n G N k s" "computing s x r"
    "rule_le r q" "rl_has_empty_alt q = rl_has_empty_alt r" "rl_alts q = rl_alts r" "rl_handler q = rl_handler r"
    "rule_ok n (length G) q" "rule_sound G x q" "unat (rl_priority q) \<le> computed s"
  shows "first_state n G N k (rule_put x q s) \<and> grows s (rule_put x q s) \<and> computing (rule_put x q s) x q"
proof -
  have r: "rule_at s x = Some r" "rl_computing_first_set r" "\<not> rl_computed_first_set r" using assms(2) by (auto simp: computing_def)
  then have q: "rl_computing_first_set q" "\<not> rl_computed_first_set q" using assms(3) by (auto simp: rule_le_def)
  then show ?thesis
    using first_inv_put[OF _ r(1,3) q(2) assms(3-9)] fresh_put[OF r(1,2) q(1)] grows_put[OF r(1) assms(3)] assms(1)
    by (auto simp: first_state_def computing_def rule_at_put[OF r(1)])
qed

definition items_result ::
  "cuint \<Rightarrow> sentry list \<Rightarrow> nat \<Rightarrow> nat \<Rightarrow> nat \<Rightarrow> bool \<Rightarrow> ItemT list \<Rightarrow> 'z sid_state_scheme \<Rightarrow> bool \<times> cuint \<Rightarrow> 'z sid_state_scheme \<Rightarrow> bool" where
  "items_result n G N k x initial items s = (\<lambda>(see, pr) t. first_state n G N k t \<and> grows s t \<and> unat pr \<le> computed t \<and>
     (see \<longrightarrow> items_nullable G items) \<and>
     (number_errors t = N \<longrightarrow> (\<exists>q. rule_at t x = Some q \<and> closed_items t q see initial items)))"

lemma first_rule_at:
  assumes "first_state n G N k s" "rule_at s x = Some r"
  shows "rule_ok n (length G) r" "rule_sound G x r" "unat (rl_priority r) \<le> computed s" "sid_wf n G s"
  using assms by (auto simp: first_state_def first_inv_def sid_wf_def)

lemma first_predicate_ok:
  assumes "first_state n G N k s" "computing s x r" "pre @ item # items \<in> alts_of G x" "items_nullable G pre"
    "it_type item = ET_PREDICATE" "unat priority \<le> computed s" "item_ok n G item"
  shows "ends (items_result n G N k x initial (item # items) s)
    (first_items compute x initial (item # items) no_action priority s)"
proof (cases initial)
  case True
  have r: "rule_at s x = Some r" using assms(2) by (simp add: computing_def)
  let ?q = "r\<lparr>rl_predicate_first := entry_list_add_if_missing (rl_predicate_first r) (it_entry item)\<rparr>"
  note at = first_rule_at[OF assms(1) r]
  have "starts G x (Pred (it_entry item))"
    using assms(3-5) sid_wf_alts(2)[OF at(4) r] by (auto intro: starts_predicate)
  then have "first_state n G N k (rule_put x ?q s) \<and> grows s (rule_put x ?q s) \<and> computing (rule_put x ?q s) x ?q"
    using at assms(2,5,7)
    by (intro first_state_put[OF assms(1,2)]) (auto simp: rule_le_def rule_ok_def rule_sound_def item_ok_def computing_def)
  then show ?thesis using True assms(5,6) r computed_mono[of s "rule_put x ?q s"]
    by (auto simp: rule_set_eq prog_simps items_result_def rule_at_put[OF r] bind_def)
qed (use assms(5) in \<open>simp add: error_msg_fatal bind_def\<close>)

lemma first_basic_ok:
  assumes "first_state n G N k s" "computing s x r" "pre @ item # items \<in> alts_of G x" "items_nullable G pre"
    "it_type item = ET_BASIC" "unat priority \<le> computed s" "item_ok n G item"
  shows "ends (items_result n G N k x initial (item # items) s)
    (first_items compute x initial (item # items) no_action priority s)"
proof -
  have r: "rule_at s x = Some r" using assms(2) by (simp add: computing_def)
  note at = first_rule_at[OF assms(1) r]
  let ?i = "s_terminal (G ! it_entry item)"
  have G: "grammar_of s = G" using at(4) by (simp add: sid_wf_def)
  obtain b where b: "entry_get_basic (it_entry item) s = (Ret b, s)" "bs_terminal b = ?i"
    using basic_at[of s "it_entry item"] assms(5,7) G by (auto simp: item_ok_def)
  obtain v where v: "bitvec_set (sid_bitvec s) (rl_first_set r) ?i = Some v" "bitvec_ok (unat n) v"
    "bits_of v = insert (unat ?i) (bits_of (rl_first_set r))"
    using sid_bitvec_ops(2)[OF at(4), of "rl_first_set r" "rl_first_set r" ?i] at(1) assms(5,7) by (auto simp: rule_ok_def item_ok_def)
  let ?q = "r\<lparr>rl_first_set := v\<rparr>"
  have "starts G x (Term (unat ?i))"
    using assms(3-5) sid_wf_alts(2)[OF at(4) r] by (auto intro: starts_basic)
  then have "first_state n G N k (rule_put x ?q s) \<and> grows s (rule_put x ?q s) \<and> computing (rule_put x ?q s) x ?q"
    using at assms(2,5,7) v
    by (intro first_state_put[OF assms(1,2)]) (auto simp: rule_le_def rule_ok_def rule_sound_def item_ok_def computing_def)
  moreover have "grammar_of (rule_put x ?q s) = G" using G by (simp add: grammar_of_put[OF r])
  ultimately show ?thesis using assms(5,6) r b v computed_mono[of s "rule_put x ?q s"]
    by (auto simp: entry_get_rule_eq rule_set_eq prog_simps items_result_def rule_at_put[OF r] bind_def)
qed

text \<open>What is promised of the recursive call.\<close>

definition computes :: "cuint \<Rightarrow> sentry list \<Rightarrow> nat \<Rightarrow> nat \<Rightarrow> (nat \<Rightarrow> ('z sid_state_scheme, unit) prog) \<Rightarrow> bool" where
  "computes n G N k compute \<longleftrightarrow> (\<forall>y s. first_state n G N k s \<longrightarrow> is_rule G y \<longrightarrow>
     ends (\<lambda>_ t. first_state n G N k t \<and> grows s t \<and>
       (number_errors t = N \<longrightarrow> (\<exists>c. rule_at t y = Some c \<and> rl_computed_first_set c))) (compute y s))"

text \<open>The sets of a rule taken over into those of the rule that starts with it.\<close>

lemma first_absorb:
  assumes s: "first_state n G N k s" and x: "computing s x r" and y: "rule_at s y = Some c"
    and pre: "pre @ item # items \<in> alts_of G x" "items_nullable G pre" "it_type item = ET_RULE" "it_entry item = y"
  shows "\<exists>v. bitvec_or (sid_bitvec s) (rl_first_set r) (rl_first_set c) = Some v \<and>
    bits_of (rl_first_set c) \<subseteq> bits_of v \<and>
    (let q = r\<lparr>rl_first_set := v, rl_predicate_first := entry_list_append (rl_predicate_first r) (rl_predicate_first c)\<rparr> in
     first_state n G N k (rule_put x q s) \<and> grows s (rule_put x q s) \<and> computing (rule_put x q s) x q)"
proof -
  have r: "rule_at s x = Some r" using x by (simp add: computing_def)
  note at = first_rule_at[OF s r] and at' = first_rule_at[OF s y]
  obtain v where v: "bitvec_or (sid_bitvec s) (rl_first_set r) (rl_first_set c) = Some v" "bitvec_ok (unat n) v"
    "bits_of v = bits_of (rl_first_set r) \<union> bits_of (rl_first_set c)"
    using sid_bitvec_ops(1)[OF at(4)] at(1) at'(1) by (meson rule_ok_def)
  have "starts G x t" if "starts G y t" for t
    using that pre sid_wf_alts(2)[OF at(4) r] by (auto intro: starts_rule)
  let ?q = "r\<lparr>rl_first_set := v, rl_predicate_first := entry_list_append (rl_predicate_first r) (rl_predicate_first c)\<rparr>"
  have "rule_le r ?q" "rule_ok n (length G) ?q" "rule_sound G x ?q"
    using v at at' x \<open>\<And>t. starts G y t \<Longrightarrow> starts G x t\<close>
    by (auto simp: rule_le_def rule_ok_def rule_sound_def computing_def)
  then have "first_state n G N k (rule_put x ?q s) \<and> grows s (rule_put x ?q s) \<and> computing (rule_put x ?q s) x ?q"
    using at by (intro first_state_put[OF s x]) auto
  then show ?thesis using v by (intro exI[of _ v]) (simp add: Let_def)
qed

lemma first_rule_close:
  assumes t: "first_state n G N k t" "grows s t" "rule_at t (it_entry item) = Some c" "number_errors t = N \<Longrightarrow> rl_computed_first_set c"
    and w: "grows t w" "computing w x q"
    and q: "bits_of (rl_first_set c) \<subseteq> bits_of (rl_first_set q)" "set (rl_predicate_first c) \<subseteq> set (rl_predicate_first q)"
    and ty: "it_type item = ET_RULE"
    and u: "first_state n G N k u" "grows w u" "unat p \<le> computed u" "see \<longrightarrow> items_nullable G (item # items)"
      "initial \<or> rl_predicate_first c = []"
      "number_errors u = N \<Longrightarrow> rl_see_through c \<Longrightarrow> \<exists>q. rule_at u x = Some q \<and> closed_items u q see False items"
  shows "items_result n G N k x initial (item # items) s (see, p) u"
proof -
  have su: "grows s u" using t(2) w(1) u(2) by (blast intro: grows_trans)
  obtain q' where q': "computing u x q'" "rule_le q q'" using computing_grows[OF u(2) w(2)] .
  then have x: "rule_at u x = Some q'" by (simp add: computing_def)
  have "closed_items u q' see initial (item # items)" if N: "number_errors u = N"
  proof -
    have "number_errors t = N"
      using t(1) grows_errors[OF w(1)] grows_errors[OF u(2)] N by (simp add: first_state_def first_inv_def)
    then have c: "rl_computed_first_set c" by (rule t(4))
    then have "rule_at u (it_entry item) = Some c"
      using grows_computed[OF grows_trans[OF w(1) u(2)] t(3)] by blast
    then show ?thesis using c q q'(2) u(5) u(6)[OF N] x ty by (auto simp: rule_le_def)
  qed
  then show ?thesis using u su x by (auto simp: items_result_def)
qed

lemma first_rule_ok:
  assumes compute: "computes n G N k compute" and s: "first_state n G N k s" and x: "computing s x r"
    and pre: "pre @ item # items \<in> alts_of G x" "items_nullable G pre" and ty: "it_type item = ET_RULE"
    and pr: "unat priority \<le> computed s" and ok: "item_ok n G item"
    and IH: "\<And>t q pr. first_state n G N k t \<Longrightarrow> computing t x q \<Longrightarrow> (pre @ [item]) @ items \<in> alts_of G x \<Longrightarrow>
      items_nullable G (pre @ [item]) \<Longrightarrow> unat pr \<le> computed t \<Longrightarrow>
      ends (items_result n G N k x False items t) (first_items compute x False items no_action pr t)"
  shows "ends (items_result n G N k x initial (item # items) s)
    (first_items compute x initial (item # items) no_action priority s)"
proof -
  let ?y = "it_entry item"
  have wf: "sid_wf n G s" using s by (simp add: first_state_def first_inv_def)
  have y: "is_rule G ?y" using ok ty by (simp add: item_ok_def)
  then obtain c0 where c0: "rule_at s ?y = Some c0" using sid_wf_rule[OF wf] by blast
  show ?thesis
    apply (simp add: ty)
    apply (rule ends_bind[where R = "\<lambda>_ t. t = s"])
     apply (simp add: entry_get_rule_eq c0)
    apply (rule ends_bind[where R = "\<lambda>_ t. first_state n G N k t \<and> grows s t \<and>
       (number_errors t = N \<longrightarrow> (\<exists>c. rule_at t ?y = Some c \<and> rl_computed_first_set c))"])
    subgoal using compute s y by (simp add: computes_def)
    subgoal premises that for _ _ _ t
    proof -
      have t: "first_state n G N k t" "grows s t" "number_errors t = N \<Longrightarrow> \<exists>c. rule_at t ?y = Some c \<and> rl_computed_first_set c"
        using that by auto
      obtain c where c: "rule_at t ?y = Some c" using grows_at[OF t(2) c0] .
      obtain r' where r': "computing t x r'" using computing_grows[OF t(2) x] .
      then have at: "rule_at t x = Some r'" by (simp add: computing_def)
      obtain v where v: "bitvec_or (sid_bitvec t) (rl_first_set r') (rl_first_set c) = Some v"
        "bits_of (rl_first_set c) \<subseteq> bits_of v"
        "let q = r'\<lparr>rl_first_set := v, rl_predicate_first := entry_list_append (rl_predicate_first r') (rl_predicate_first c)\<rparr> in
          first_state n G N k (rule_put x q t) \<and> grows t (rule_put x q t) \<and> computing (rule_put x q t) x q"
        using first_absorb[OF t(1) r' c pre ty refl] by auto
      define q where "q = r'\<lparr>rl_first_set := v, rl_predicate_first := entry_list_append (rl_predicate_first r') (rl_predicate_first c)\<rparr>"
      define p where "p = (if rl_priority c > priority \<and> no_action then rl_priority c else priority)"
      let ?w = "rule_put x q t"
      have w: "first_state n G N k ?w" "grows t ?w" "computing ?w x q" using v(3) by (simp_all add: q_def Let_def)
      have p: "unat p \<le> computed ?w"
        using pr first_rule_at(3)[OF t(1) c] computed_mono[OF t(2)] computed_mono[OF w(2)] by (simp add: p_def)
      have q: "bits_of (rl_first_set c) \<subseteq> bits_of (rl_first_set q)" "set (rl_predicate_first c) \<subseteq> set (rl_predicate_first q)"
        using v(2) by (auto simp: q_def)
      have C: "rl_computed_first_set c" if "number_errors t = N" using t(3)[OF that] c by auto
      note step = first_rule_close[OF t(1,2) c C w(2,3) q ty]
      show ?thesis
      proof (cases "initial \<or> rl_predicate_first c = []")
        case True
        show ?thesis
        proof (cases "rl_see_through c")
          case see: True
          then have "nullable G ?y" using first_rule_at(2)[OF t(1) c] by (simp add: rule_sound_def)
          then have null: "item_nullable G item" using ty by (simp add: item_nullable_def)
          have "ends (items_result n G N k x False items ?w) (first_items compute x False items no_action p ?w)"
            using null pre p w by (intro IH) auto
          then have "ends (items_result n G N k x initial (item # items) s) (first_items compute x False items no_action p ?w)"
            using null True by (elim ends_mono) (auto simp: items_result_def[of _ _ _ _ _ False] intro!: step)
          then show ?thesis using True see v(1)
            by (elim disjE) (simp_all add: entry_get_rule_eq c at prog_simps bind_def rule_set_eq rule_at_put[OF at] q_def p_def Let_def)
        next
          case see: False
          have "items_result n G N k x initial (item # items) s (False, p) ?w"
            using True see w p by (intro step) auto
          then show ?thesis using True see v(1)
            by (elim disjE) (simp_all add: entry_get_rule_eq c at prog_simps bind_def rule_set_eq rule_at_put[OF at] q_def p_def Let_def)
        qed
      qed (simp add: entry_get_rule_eq c error_msg_fatal bind_def)
    qed
    done
qed

lemma first_items_ok:
  assumes "computes n G N k compute"
  shows "first_state n G N k s \<Longrightarrow> computing s x r \<Longrightarrow> pre @ items \<in> alts_of G x \<Longrightarrow> items_nullable G pre \<Longrightarrow>
    unat priority \<le> computed s \<Longrightarrow>
    ends (items_result n G N k x initial items s) (first_items compute x initial items no_action priority s)"
proof (induction items arbitrary: s r pre initial no_action priority)
  case Nil
  then show ?case by (auto simp: prog_simps items_result_def computing_def)
next
  case (Cons item items)
  have x: "rule_at s x = Some r" using Cons.prems(2) by (simp add: computing_def)
  have wf: "sid_wf n G s" using Cons.prems(1) by (simp add: first_state_def first_inv_def)
  have ok: "item_ok n G item"
    using Cons.prems(3) sid_wf_alts(2)[OF wf x] by (intro sid_wf_item[OF wf]) (auto simp: bodies_of_def)
  have silent: "ends (items_result n G N k x initial (item # items) s) (first_items compute x initial (item # items) no_action priority s)"
    if "silent item"
  proof -
    have "ends (items_result n G N k x False items s) (first_items compute x False items False priority s)"
      using Cons.prems that by (intro Cons.IH[of s r "pre @ [item]"]) (auto simp: item_nullable_def)
    then have "ends (items_result n G N k x initial (item # items) s) (first_items compute x False items False priority s)"
      using that by (elim ends_mono) (auto simp: items_result_def item_nullable_def)
    then show ?thesis using that by auto
  qed
  show ?case
  proof (cases "it_type item")
    case ET_RULE
    show ?thesis
      by (rule first_rule_ok[OF assms Cons.prems(1-4) ET_RULE Cons.prems(5) ok]) (rule Cons.IH)
  next
    case ET_PREDICATE
    show ?thesis by (rule first_predicate_ok[OF Cons.prems(1-4) ET_PREDICATE Cons.prems(5) ok])
  next
    case ET_BASIC
    show ?thesis by (rule first_basic_ok[OF Cons.prems(1-4) ET_BASIC Cons.prems(5) ok])
  qed (use silent ok in \<open>auto simp: item_ok_def\<close>)
qed

section \<open>The alternatives and the rule\<close>

definition alts_result ::
  "cuint \<Rightarrow> sentry list \<Rightarrow> nat \<Rightarrow> nat \<Rightarrow> nat \<Rightarrow> AltT list \<Rightarrow> 'z sid_state_scheme \<Rightarrow> cuint \<Rightarrow> 'z sid_state_scheme \<Rightarrow> bool" where
  "alts_result n G N k x alts s pr t \<longleftrightarrow> first_state n G N k t \<and> grows s t \<and> unat pr \<le> computed t \<and>
     (number_errors t = N \<longrightarrow> (\<exists>q. rule_at t x = Some q \<and>
       (\<forall>alt\<in>set alts. closed_items t q (rl_see_through q) True (alt_items alt))))"

lemma first_state_see:
  assumes "first_state n G N k s" "computing s x r" "nullable G x"
  shows "first_state n G N k (rule_put x (r\<lparr>rl_see_through := True\<rparr>) s) \<and> grows s (rule_put x (r\<lparr>rl_see_through := True\<rparr>) s) \<and>
    computing (rule_put x (r\<lparr>rl_see_through := True\<rparr>) s) x (r\<lparr>rl_see_through := True\<rparr>)"
proof -
  have "rule_at s x = Some r" using assms(2) by (simp add: computing_def)
  note at = first_rule_at[OF assms(1) this]
  show ?thesis using at assms
    by (intro first_state_put) (auto simp: rule_le_def rule_ok_def rule_sound_def computing_def)
qed

text \<open>The mark that an alternative is see through.\<close>

lemma first_mark_ok:
  assumes "items_result n G N k x True items s (see, pr) t" "computing s x r" "items \<in> alts_of G x"
  shows "ends (\<lambda>_ u. first_state n G N k u \<and> grows s u \<and> (\<exists>q. computing u x q) \<and> unat pr \<le> computed u \<and>
      (number_errors u = N \<longrightarrow> (\<exists>q. rule_at u x = Some q \<and> closed_items u q (rl_see_through q) True items)))
    ((if see then rule_set x (\<lambda>r. r\<lparr>rl_see_through := True\<rparr>) else ret ()) t)"
proof -
  have t: "first_state n G N k t" "grows s t" "unat pr \<le> computed t" "see \<Longrightarrow> items_nullable G items"
    "number_errors t = N \<Longrightarrow> \<exists>q. rule_at t x = Some q \<and> closed_items t q see True items"
    using assms(1) by (auto simp: items_result_def)
  obtain q where q: "computing t x q" using computing_grows[OF t(2) assms(2)] .
  then have x: "rule_at t x = Some q" by (simp add: computing_def)
  note wf = first_rule_at(4)[OF t(1) x]
  show ?thesis
  proof (cases see)
    case True
    let ?q = "q\<lparr>rl_see_through := True\<rparr>"
    let ?u = "rule_put x ?q t"
    have "nullable G x" using t(4) True assms(3) sid_wf_alts(2)[OF wf x] by (blast intro: nullable_items)
    then have u: "first_state n G N k ?u" "grows t ?u" "computing ?u x ?q" using first_state_see[OF t(1) q] by auto
    have "grammar_of ?u = grammar_of t" by (simp add: grammar_of_put[OF x])
    then have "closed_items t q True True items \<Longrightarrow> closed_items ?u ?q True True items"
      by (rule closed_items_mono[OF grows_keeps_computed[OF u(2)]]) auto
    then show ?thesis using True t u x grows_trans[OF t(2) u(2)] computed_mono[OF u(2)] by (auto simp: rule_set_eq rule_at_put[OF x])
  next
    case False
    have "closed_items t q False True items \<Longrightarrow> closed_items t q (rl_see_through q) True items"
      by (rule closed_items_mono[of t t q q False]) (auto simp: keeps_computed_def)
    then show ?thesis using False t q x by (auto simp: prog_simps)
  qed
qed

lemma first_alts_ok:
  assumes "computes n G N k compute"
  shows "first_state n G N k s \<Longrightarrow> computing s x r \<Longrightarrow> alt_items ` set alts \<subseteq> alts_of G x \<Longrightarrow> unat priority \<le> computed s \<Longrightarrow>
    ends (alts_result n G N k x alts s) (first_alts compute x alts priority s)"
proof (induction alts arbitrary: s r priority)
  case Nil
  then show ?case by (auto simp: prog_simps alts_result_def computing_def)
next
  case (Cons alt alts)
  have 1: "ends (items_result n G N k x True (alt_items alt) s) (first_items compute x True (alt_items alt) True priority s)"
    using Cons.prems by (intro first_items_ok[OF assms, where pre = "[]"]) auto
  show ?case
    unfolding first_alts.simps
  proof (rule ends_bind, rule 1, clarify)
    fix see p t assume t: "items_result n G N k x True (alt_items alt) s (see, p) t"
    show "ends (alts_result n G N k x (alt # alts) s)
      (bind (if see then rule_set x (\<lambda>r. r\<lparr>rl_see_through := True\<rparr>) else ret ()) (\<lambda>_. first_alts compute x alts p) t)"
    proof (rule ends_bind, rule first_mark_ok[OF t Cons.prems(2)], goal_cases)
      case 1
      then show ?case using Cons.prems(3) by auto
    next
      case (2 _ u)
      then obtain q where q: "computing u x q" by blast
      have "ends (alts_result n G N k x alts u) (first_alts compute x alts p u)"
        using 2 Cons.prems(3) by (intro Cons.IH[OF _ q]) auto
      then show ?case
      proof (rule ends_mono)
        fix p' v assume v: "alts_result n G N k x alts u p' v"
        have g: "grows u v" "first_state n G N k v" using v by (auto simp: alts_result_def)
        have "closed_items v q' (rl_see_through q') True (alt_items alt)"
          if "number_errors v = N" "rule_at v x = Some q'" for q'
        proof -
          have "number_errors u = N" using 2 that(1) grows_errors[OF g(1)] by (simp add: first_state_def first_inv_def)
          then obtain q where "rule_at u x = Some q" "closed_items u q (rl_see_through q) True (alt_items alt)" using 2 by blast
          moreover from this grows_at[OF g(1)] that(2) have "rule_le q q'" by fastforce
          moreover have "grammar_of v = grammar_of u" using 2 g(2) by (simp add: first_state_def first_inv_def sid_wf_def)
          ultimately show ?thesis
            using closed_items_mono[OF grows_keeps_computed[OF g(1)], of q q' "rl_see_through q" "rl_see_through q'" True "alt_items alt"]
            by (auto simp: rule_le_def)
        qed
        then show "alts_result n G N k x (alt # alts) s p' v"
          using v 2 grows_trans[of s u v] by (auto simp: alts_result_def)
      qed
    qed
  qed
qed

text \<open>The end of the computation of a rule.\<close>

definition finished :: "RuleT \<Rightarrow> cuint \<Rightarrow> RuleT" where
  "finished q p = (if rl_has_empty_alt q then q\<lparr>rl_see_through := True\<rparr> else q)\<lparr>rl_priority := p + 1, rl_computed_first_set := True\<rparr>"

lemma finished_simps [simp]:
  "rl_has_empty_alt (finished q p) = rl_has_empty_alt q" "rl_alts (finished q p) = rl_alts q"
  "rl_handler (finished q p) = rl_handler q" "rl_first_set (finished q p) = rl_first_set q"
  "rl_predicate_first (finished q p) = rl_predicate_first q" "rl_follow_set (finished q p) = rl_follow_set q"
  "rl_predicate_follow (finished q p) = rl_predicate_follow q" "rl_computing_first_set (finished q p) = rl_computing_first_set q"
  "rule_frame (finished q p) = rule_frame q" "rl_computed_first_set (finished q p)" "rl_priority (finished q p) = p + 1"
  "rl_see_through (finished q p) \<longleftrightarrow> rl_see_through q \<or> rl_has_empty_alt q"
  by (simp_all add: finished_def)

lemma first_finish_eq:
  assumes "rule_at t x = Some q" "sid_wf n G t" "unat p < 2 ^ 32 - 1"
  shows "ends (\<lambda>_ u. u = rule_put x (finished q p) t) (first_finish x p t)"
proof -
  have "bitvec_ok (unat n) (rl_first_set q)" using assms(1,2) by (auto simp: sid_wf_def rule_ok_def)
  then have full: "bitvec_is_full (sid_bitvec t) (rl_first_set q) = Some (bits_of (rl_first_set q) = {..<unat n})"
    using sid_bitvec_ops(3)[OF assms(2)] by blast
  have "unat (p + 1) = unat p + 1" using assms(3) by (simp add: unat_word_ariths)
  then have "p + 1 > 0" by (simp add: word_less_nat_alt)
  then show ?thesis using assms(1) full
    by (cases "rl_has_empty_alt q"; cases "rl_see_through q"; cases "bits_of (rl_first_set q) = {..<unat n}")
      (simp_all add: first_finish_def entry_get_rule_eq rule_set_eq rule_at_put prog_simps bind_def error_msg_fatal finished_def)
qed

lemma computed_put:
  assumes "rule_at t x = Some q" "\<not> rl_computed_first_set q" "rl_computed_first_set q'"
  shows "computed (rule_put x q' t) = Suc (computed t)"
proof -
  have "{y. \<exists>r. rule_at (rule_put x q' t) y = Some r \<and> rl_computed_first_set r} =
    insert x {y. \<exists>r. rule_at t y = Some r \<and> rl_computed_first_set r}"
    using assms by (auto simp: rule_at_put[OF assms(1)])
  then show ?thesis using assms(1,2) by (simp add: computed_def finite_computed)
qed

lemma first_inv_finished:
  assumes t: "first_inv n G N t" "computing t x q" "unat p \<le> computed t"
    and closed: "number_errors t = N \<Longrightarrow> \<forall>alt\<in>set (rl_alts q). closed_items t q (rl_see_through q) True (alt_items alt)"
  shows "first_inv n G N (rule_put x (finished q p) t)"
proof -
  let ?q = "finished q p"
  let ?u = "rule_put x ?q t"
  have x: "rule_at t x = Some q" "\<not> rl_computed_first_set q" using t(2) by (auto simp: computing_def)
  have inv: "sid_wf n G t" "rule_sound G x q" "rule_ok n (length G) q" using t(1) x by (auto simp: first_inv_def sid_wf_def)
  have u: "computed ?u = Suc (computed t)" by (rule computed_put[OF x]) simp
  have wf: "sid_wf n G ?u" using inv x by (intro sid_wf_put) (auto simp: rule_ok_def)
  have kc: "keeps_computed t ?u" by (rule put_keeps_computed[OF x])
  have g: "grammar_of ?u = grammar_of t" using inv wf by (simp add: sid_wf_def)
  have sound: "rule_sound G x ?q"
    using inv(2) sid_wf_alts(1,2)[OF inv(1) x(1)] by (auto simp: rule_sound_def intro: nullable_empty)
  have "closed_rule ?u ?q" if N: "number_errors t = N"
  proof -
    have "closed_items ?u ?q (rl_see_through ?q) True (alt_items alt)" if "alt \<in> set (rl_alts q)" for alt
      by (rule closed_items_mono[OF kc g, of q _ "rl_see_through q"]) (use closed[OF N] that in auto)
    then show ?thesis by (simp add: closed_rule_def)
  qed
  moreover have "unat (p + 1) \<le> Suc (computed t)"
  proof -
    have "unat (p + 1) = (unat p + 1) mod 2 ^ 32" using unat_word_ariths(1)[of p 1] by simp
    also have "\<dots> \<le> unat p + 1" by (rule mod_less_eq_dividend)
    finally show ?thesis using t(3) by simp
  qed
  ultimately show ?thesis
    using t(1) wf sound u closed_rule_mono[OF kc g]
    by (auto simp: first_inv_def rule_at_put[OF x(1)] split: if_splits) (fastforce)+
qed

lemma first_finish_ok:
  assumes s: "rule_at s x = Some r" "\<not> rl_computing_first_set r" "\<not> rl_computed_first_set r" "grows s t"
    and t: "first_state n G N k t" "computing t x q" "unat p \<le> computed t"
    and closed: "number_errors t = N \<Longrightarrow> \<forall>alt\<in>set (rl_alts q). closed_items t q (rl_see_through q) True (alt_items alt)"
  shows "ends (\<lambda>_ u. first_state n G N k u \<and> grows s u \<and> (\<exists>c. rule_at u x = Some c \<and> rl_computed_first_set c)) (first_finish x p t)"
proof -
  have x: "rule_at t x = Some q" "rl_computing_first_set q" using t(2) by (auto simp: computing_def)
  note wf = first_rule_at(4)[OF t(1) x(1)]
  have "computed t < 2 ^ 32 - 1" using computed_le[of t] wf by (auto simp: sid_wf_def grammar_ok_def grammar_of_def)
  then have p: "unat p < 2 ^ 32 - 1" using t(3) by simp
  have "rule_le r q" using grows_at[OF s(4,1)] x(1) by auto
  then have "rule_le r (finished q p)" using s(2,3) by (auto simp: rule_le_def)
  then have "grows s (rule_put x (finished q p) t)"
    using s(1,4) by (auto simp: grows_def rule_at_put[OF x(1)])
  moreover have "first_state n G N k (rule_put x (finished q p) t)"
    using first_inv_finished[OF _ t(2,3) closed] t(1) fresh_put[OF x, of "finished q p"] x(2) by (simp add: first_state_def)
  ultimately show ?thesis
    by (intro ends_mono[OF first_finish_eq[OF x(1) wf p]]) (simp add: rule_at_put[OF x(1)])
qed

definition rule_result :: "cuint \<Rightarrow> sentry list \<Rightarrow> nat \<Rightarrow> nat \<Rightarrow> nat \<Rightarrow> 'z sid_state_scheme \<Rightarrow> unit \<Rightarrow> 'z sid_state_scheme \<Rightarrow> bool" where
  "rule_result n G N k x s = (\<lambda>_ t. first_state n G N k t \<and> grows s t \<and>
     (number_errors t = N \<longrightarrow> (\<exists>c. rule_at t x = Some c \<and> rl_computed_first_set c)))"

lemma first_marked_ok:
  assumes "first_state n G N k s" "rule_at s x = Some r" "rl_computed_first_set r \<or> rl_computing_first_set r"
  shows "ends (rule_result n G N k x s) (first_body compute x s)"
proof (cases "rl_computed_first_set r")
  case True
  then show ?thesis using assms by (simp add: first_body_def entry_get_rule_eq bind_def prog_simps rule_result_def)
next
  case False
  let ?t = "s\<lparr>exit_status := True, number_errors := number_errors s + 1\<rparr>"
  have "first_inv n G N ?t" using assms(1) by (auto simp: first_state_def first_inv_def sid_wf_def computed_def)
  moreover have "grows s ?t" by (auto simp: grows_def)
  moreover have "number_errors ?t \<noteq> N" using assms(1) by (simp add: first_state_def first_inv_def)
  ultimately show ?thesis using assms False
    by (simp add: first_body_def entry_get_rule_eq bind_def prog_simps error_msg_serious rule_result_def first_state_def fresh_def)
qed

lemma first_fresh_ok:
  assumes compute: "computes n G N k compute" and s: "first_state n G N (Suc k) s"
    and x: "rule_at s x = Some r" "\<not> rl_computed_first_set r" "\<not> rl_computing_first_set r"
  shows "ends (rule_result n G N (Suc k) x s) (first_body compute x s)"
proof -
  let ?r = "r\<lparr>rl_computing_first_set := True\<rparr>"
  let ?t = "rule_put x ?r s"
  have inv: "first_inv n G N s" using s by (simp add: first_state_def)
  note at = first_rule_at[OF s x(1)]
  have le: "rule_le r ?r" using x by (simp add: rule_le_def)
  have t: "first_state n G N k ?t" "grows s ?t" "computing ?t x ?r"
    using first_inv_put[OF inv x(1,2) _ le] at fresh_computing[OF x] s grows_put[OF x(1) le] x
    by (auto simp: first_state_def computing_def rule_ok_def rule_sound_def rule_at_put[OF x(1)])
  have alts: "ends (alts_result n G N k x (rl_alts r) ?t) (first_alts compute x (rl_alts r) 0 ?t)"
    using sid_wf_alts(3)[OF at(4) x(1)] by (intro first_alts_ok[OF compute t(1,3)]) auto
  have "ends (rule_result n G N (Suc k) x s) (bind (first_alts compute x (rl_alts r) 0) (first_finish x) ?t)"
  proof (rule ends_bind, rule alts)
    fix p u assume u: "alts_result n G N k x (rl_alts r) ?t p u"
    then have u': "first_state n G N k u" "grows ?t u" "unat p \<le> computed u" by (auto simp: alts_result_def)
    obtain q where q: "computing u x q" using computing_grows[OF u'(2) t(3)] .
    have wf: "sid_wf n G u" using u'(1) by (simp add: first_state_def first_inv_def)
    have xq: "rule_at u x = Some q" using q by (simp add: computing_def)
    have "map alt_items (rl_alts q) = map alt_items (rl_alts r)"
      using sid_wf_alts(1)[OF at(4) x(1)] sid_wf_alts(1)[OF wf xq] by simp
    then have "alt_items ` set (rl_alts q) = alt_items ` set (rl_alts r)" by (metis list.set_map)
    moreover have "number_errors u = N \<Longrightarrow> \<forall>a\<in>alt_items ` set (rl_alts r). closed_items u q (rl_see_through q) True a"
      using u xq by (auto simp: alts_result_def)
    ultimately have "number_errors u = N \<Longrightarrow> \<forall>alt\<in>set (rl_alts q). closed_items u q (rl_see_through q) True (alt_items alt)"
      by (metis imageI)
    then have "ends (\<lambda>_ v. first_state n G N k v \<and> grows s v \<and> (\<exists>c. rule_at v x = Some c \<and> rl_computed_first_set c)) (first_finish x p u)"
      using grows_trans[OF t(2) u'(2)] x by (intro first_finish_ok[OF x(1) _ _ _ u'(1) q u'(3)]) auto
    then show "ends (rule_result n G N (Suc k) x s) (first_finish x p u)"
      by (rule ends_mono) (auto simp: rule_result_def first_state_def)
  qed
  then show ?thesis using x by (simp add: first_body_def entry_get_rule_eq rule_set_eq bind_def)
qed

lemma first_state_rule: "first_state n G N k s \<Longrightarrow> is_rule G x \<Longrightarrow> \<exists>r. rule_at s x = Some r"
  using sid_wf_rule[of n G s x] by (simp add: first_state_def first_inv_def)

lemma computesD: "computes n G N k compute \<Longrightarrow> first_state n G N k s \<Longrightarrow> is_rule G x \<Longrightarrow> ends (rule_result n G N k x s) (compute x s)"
  by (simp add: computes_def rule_result_def)

lemma computesI:
  "(\<And>x s. first_state n G N k s \<Longrightarrow> is_rule G x \<Longrightarrow> ends (rule_result n G N k x s) (compute x s)) \<Longrightarrow> computes n G N k compute"
  by (simp add: computes_def rule_result_def)

lemma computes_bounded: "computes n G N k (first_bounded (Suc k))"
proof (induction k)
  case 0
  show ?case
  proof (rule computesI)
    fix y and s :: "'a sid_state_scheme"
    assume s: "first_state n G N 0 s" "is_rule G y"
    obtain r where r: "rule_at s y = Some r" using first_state_rule[OF s] by blast
    then have "rl_computed_first_set r \<or> rl_computing_first_set r"
      using fresh_computing[OF r] s(1) by (fastforce simp: first_state_def)
    then show "ends (rule_result n G N 0 y s) (first_bounded (Suc 0) y s)" using first_marked_ok[OF s(1) r] by simp
  qed
next
  case (Suc k)
  show ?case
  proof (rule computesI)
    fix y and s :: "'a sid_state_scheme"
    assume s: "first_state n G N (Suc k) s" "is_rule G y"
    obtain r where r: "rule_at s y = Some r" using first_state_rule[OF s] by blast
    show "ends (rule_result n G N (Suc k) y s) (first_bounded (Suc (Suc k)) y s)"
      unfolding first_bounded.simps(2)[of "Suc k"]
      using first_marked_ok[OF s(1) r] first_fresh_ok[OF Suc.IH s(1) r] by blast
  qed
qed

section \<open>The grammar\<close>

lemma table_iter_eq: "table_iter f s = for_each (table_order (sid_table s)) f s"
  by (simp add: table_iter_def for_each_concat table_order_def gets_def bind_def)

lemma entry_at_eq: "x < length (entries (sid_table s)) \<Longrightarrow> entry_at x s = (Ret (entries (sid_table s) ! x), s)"
  by (simp add: entry_at_def bind_def prog_simps)

lemma on_rule_ends:
  assumes "sid_wf n G s" "x < length G" "\<And>r. rule_at s x = Some r \<Longrightarrow> ends_unless C Q (f x s)" "rule_at s x = None \<Longrightarrow> Q () s"
  shows "ends_unless C Q (on_rule f x s)"
proof -
  have x: "x < length (entries (sid_table s))" using assms(1,2) by (auto simp: sid_wf_def grammar_of_def)
  show ?thesis
  proof (cases "rule_at s x")
    case (Some r)
    then have "entry_is_rule (entries (sid_table s) ! x)" by (simp add: rule_at_Some entry_is_rule_def)
    then show ?thesis using assms(3)[OF Some] Some by (simp add: on_rule_def entry_at_eq[OF x] entry_get_rule_eq bind_def)
  next
    case None
    then have "\<not> entry_is_rule (entries (sid_table s) ! x)" using assms(1,2) by (auto simp: sid_wf_def entry_is_rule_def)
    then show ?thesis using assms(4)[OF None] by (simp add: on_rule_def entry_at_eq[OF x] bind_def prog_simps)
  qed
qed

text \<open>An iteration over the table with a property of the entries visited so far.\<close>

lemma table_iter_ends:
  assumes wf: "sid_wf n G s" and start: "I {} s"
    and step: "\<And>X x t. I X t \<Longrightarrow> x < length G \<Longrightarrow> ends_unless C (\<lambda>_. I (insert x X)) (f x t)"
  shows "ends_unless C (\<lambda>_. I {..<length G}) (table_iter f s)"
proof -
  have loop: "set xs \<subseteq> {..<length G} \<Longrightarrow> I X t \<Longrightarrow> ends_unless C (\<lambda>_. I (X \<union> set xs)) (for_each xs f t)" for xs X t
  proof (induction xs arbitrary: X t)
    case (Cons x xs)
    show ?case unfolding for_each.simps
    proof (rule ends_bind, rule step)
      show "I X t" "x < length G" using Cons.prems by auto
      show "ends_unless C (\<lambda>_. I (X \<union> set (x # xs))) (for_each xs f u)" if "I (insert x X) u" for u
        using Cons.IH[of "insert x X" u] Cons.prems that by (simp add: Un_commute)
    qed
  qed (simp add: prog_simps)
  have "set (table_order (sid_table s)) = {..<length G}"
    using wf by (auto simp: sid_wf_def all_linked_def grammar_of_def)
  then show ?thesis using loop[of "table_order (sid_table s)" "{}" s] start by (simp add: table_iter_eq)
qed

definition first_visited :: "cuint \<Rightarrow> sentry list \<Rightarrow> nat \<Rightarrow> 'z sid_state_scheme \<Rightarrow> nat set \<Rightarrow> 'z sid_state_scheme \<Rightarrow> bool" where
  "first_visited n G N s X t \<longleftrightarrow> first_inv n G N t \<and> grows s t \<and>
     (number_errors t = N \<longrightarrow> (\<forall>x\<in>X. \<forall>c. rule_at t x = Some c \<longrightarrow> rl_computed_first_set c))"

lemma first_visited_grows:
  assumes "first_visited n G N s X t" "first_inv n G N u" "grows t u"
  shows "first_visited n G N s X u"
proof -
  have t: "first_inv n G N t" "grows s t" using assms(1) by (auto simp: first_visited_def)
  have "rl_computed_first_set c" if "number_errors u = N" "x \<in> X" "rule_at u x = Some c" for x c
  proof -
    have "number_errors t = N" using t(1) grows_errors[OF assms(3)] that(1) by (simp add: first_inv_def)
    moreover have "\<exists>b. rule_at t x = Some b"
      using t(1) assms(2) that(3) sid_wf_rule[of n G t x] sid_wf_rule[of n G u x] by (auto simp: first_inv_def)
    ultimately show ?thesis
      using that(2,3) assms(1) grows_computed[OF assms(3), of x] by (fastforce simp: first_visited_def)
  qed
  then show ?thesis using assms(2) grows_trans[OF t(2) assms(3)] by (auto simp: first_visited_def)
qed

lemma rule_compute_first_set_ok:
  assumes "first_visited n G N s X t" "x < length G"
  shows "ends (\<lambda>_. first_visited n G N s (insert x X)) (rule_compute_first_set x t)"
proof -
  have inv: "first_inv n G N t" and wf: "sid_wf n G t" using assms(1) by (auto simp: first_visited_def first_inv_def)
  show ?thesis unfolding rule_compute_first_set_def
  proof (rule on_rule_ends[OF wf assms(2)])
    fix r assume r: "rule_at t x = Some r"
    have "first_state n G N (fresh t) t" using inv by (simp add: first_state_def)
    then have "ends (rule_result n G N (fresh t) x t) (rule_compute_first_set_1 x t)"
      unfolding rule_compute_first_set_1_def by (rule computesD[OF computes_bounded _ sid_wf_alts(2)[OF wf r]])
    then show "ends (\<lambda>_. first_visited n G N s (insert x X)) (rule_compute_first_set_1 x t)"
    proof (rule ends_mono)
      fix u v assume "rule_result n G N (fresh t) x t u v"
      then show "first_visited n G N s (insert x X) v"
        using first_visited_grows[OF assms(1)] by (auto simp: rule_result_def first_state_def first_visited_def)
    qed
  next
    assume "rule_at t x = None"
    then show "first_visited n G N s (insert x X) t" using assms(1) by (auto simp: first_visited_def)
  qed
qed

section \<open>Completeness\<close>

text \<open>The first sets as the grammar has them.\<close>

definition first_correct :: "sentry list \<Rightarrow> nat \<Rightarrow> RuleT \<Rightarrow> bool" where
  "first_correct G x r \<longleftrightarrow> bits_of (rl_first_set r) = {t. starts G x (Term t)} \<and>
     set (rl_predicate_first r) = {p. starts G x (Pred p)} \<and> (rl_see_through r \<longleftrightarrow> nullable G x)"

lemma closed_items_reach:
  assumes "\<And>y c. rule_at s y = Some c \<Longrightarrow> nullable G y \<Longrightarrow> rl_see_through c" "items_nullable G pre"
  shows "closed_items s r see initial (pre @ items) \<Longrightarrow> closed_items s r see (initial \<and> pre = []) items"
  using assms(2)
proof (induction pre arbitrary: initial)
  case (Cons item pre)
  have "closed_items s r see False (pre @ items)"
    using Cons.prems assms(1) by (auto simp: item_nullable_def)
  then have "closed_items s r see (False \<and> pre = []) items" using Cons.prems(2) by (intro Cons.IH) auto
  then show ?case by simp
qed auto

definition closed_grammar :: "cuint \<Rightarrow> sentry list \<Rightarrow> 'z sid_state_scheme \<Rightarrow> bool" where
  "closed_grammar n G s \<longleftrightarrow> sid_wf n G s \<and> (\<forall>x r. rule_at s x = Some r \<longrightarrow> closed_rule s r)"

lemma closed_grammarD:
  assumes "closed_grammar n G s"
  shows "sid_wf n G s" "rule_at s x = Some r \<Longrightarrow> closed_rule s r"
  using assms by (auto simp: closed_grammar_def)

lemma see_through_complete:
  assumes "closed_grammar n G s"
  shows "nullable G x \<Longrightarrow> rule_at s x = Some r \<Longrightarrow> rl_see_through r"
proof (induction x arbitrary: r rule: nullable.induct)
  case (nullable_empty x)
  then show ?case using closed_grammarD(2)[OF assms, of x r] sid_wf_alts(1)[OF closed_grammarD(1)[OF assms], of x r]
    by (simp add: closed_rule_def)
next
  case (nullable_alt x a)
  obtain alt where alt: "alt \<in> set (rl_alts r)" "a = alt_items alt"
    using nullable_alt sid_wf_alts(3)[OF closed_grammarD(1)[OF assms]] by blast
  have "closed_items s r (rl_see_through r) i items \<Longrightarrow> set items \<subseteq> set a \<Longrightarrow> rl_see_through r" for items i
  proof (induction items arbitrary: i)
    case (Cons item items)
    have "silent item \<or> it_type item = ET_RULE \<and> (\<forall>c. rule_at s (it_entry item) = Some c \<longrightarrow> rl_see_through c)"
      using nullable_alt.IH Cons.prems(2) by auto
    then show ?case using Cons by auto
  qed auto
  then show ?case using closed_grammarD(2)[OF assms nullable_alt.prems] alt by (auto simp: closed_rule_def)
qed

lemma reach:
  assumes "closed_grammar n G s" "rule_at s x = Some r" "pre @ items \<in> alts_of G x" "items_nullable G pre"
  shows "closed_items s r (rl_see_through r) (pre = []) items"
proof -
  have "closed_items s r (rl_see_through r) True (pre @ items)"
    using closed_grammarD(2)[OF assms(1,2)] assms(3) sid_wf_alts(3)[OF closed_grammarD(1)[OF assms(1)] assms(2)]
    by (auto simp: closed_rule_def)
  then have "closed_items s r (rl_see_through r) (True \<and> pre = []) items"
    by (rule closed_items_reach[OF see_through_complete[OF assms(1)] assms(4), rotated 2])
  then show ?thesis by simp
qed

lemma starts_complete:
  assumes "closed_grammar n G s"
  shows "starts G x t \<Longrightarrow> rule_at s x = Some r \<Longrightarrow> case t of Term i \<Rightarrow> i \<in> bits_of (rl_first_set r) | Pred p \<Rightarrow> p \<in> set (rl_predicate_first r)"
proof (induction x t arbitrary: r rule: starts.induct)
  case (starts_basic x pre item post)
  then show ?case using reach[OF assms, of x r pre "item # post"] closed_grammarD(1)[OF assms] by (auto simp: sid_wf_def)
next
  case (starts_predicate x pre item post)
  then show ?case using reach[OF assms, of x r pre "item # post"] by auto
next
  case (starts_rule x pre item post t)
  then obtain c where c: "rule_at s (it_entry item) = Some c" "bits_of (rl_first_set c) \<subseteq> bits_of (rl_first_set r)"
    "set (rl_predicate_first c) \<subseteq> set (rl_predicate_first r)"
    using reach[OF assms, of x r pre "item # post"] by auto
  then show ?case using starts_rule.IH[OF c(1)] by (auto split: symbol.splits)
qed

lemma first_complete:
  assumes "closed_grammar n G s" "rule_at s x = Some r" "rule_sound G x r"
  shows "first_correct G x r"
  using assms(2,3) starts_complete[OF assms(1), of x "Term _"] starts_complete[OF assms(1), of x "Pred _"]
    see_through_complete[OF assms(1), of x]
  by (fastforce simp: first_correct_def rule_sound_def)

text \<open>A grammar whose first sets have not been looked at.\<close>

definition untouched :: "RuleT \<Rightarrow> bool" where
  "untouched r \<longleftrightarrow> bits_of (rl_first_set r) = {} \<and> rl_predicate_first r = [] \<and> \<not> rl_see_through r \<and>
     \<not> rl_computed_first_set r \<and> \<not> rl_computing_first_set r \<and> rl_priority r = 0"

lemma first_inv_start:
  assumes "sid_wf n G s" "\<And>x r. rule_at s x = Some r \<Longrightarrow> untouched r"
  shows "first_inv n G (number_errors s) s"
  using assms by (auto simp: first_inv_def untouched_def rule_sound_def)

text \<open>Each rule has been computed and is closed: the state at the end of the computation.\<close>

lemma first_sets_computed:
  assumes "sid_wf n G s" "\<And>x r. rule_at s x = Some r \<Longrightarrow> untouched r"
  shows "ends (\<lambda>_ t. first_inv n G (number_errors s) t \<and> grows s t \<and> (number_errors t = number_errors s \<longrightarrow>
    (\<forall>x c. rule_at t x = Some c \<longrightarrow> rl_computed_first_set c))) (grammar_compute_first_sets s)"
proof -
  have "ends (\<lambda>_. first_visited n G (number_errors s) s {..<length G}) (grammar_compute_first_sets s)"
    unfolding grammar_compute_first_sets_def using first_inv_start[OF assms]
    by (intro table_iter_ends[OF assms(1), where I = "first_visited n G (number_errors s) s"] rule_compute_first_set_ok)
      (auto simp: first_visited_def)
  then show ?thesis
  proof (rule ends_mono)
    fix u t assume t: "first_visited n G (number_errors s) s {..<length G} t"
    have "x < length G" if "rule_at t x = Some c" for x c
      using that t sid_wf_alts(2)[of n G t x c] by (auto simp: first_visited_def first_inv_def is_rule_def)
    then show "first_inv n G (number_errors s) t \<and> grows s t \<and> (number_errors t = number_errors s \<longrightarrow>
      (\<forall>x c. rule_at t x = Some c \<longrightarrow> rl_computed_first_set c))" using t by (auto simp: first_visited_def)
  qed
qed

lemma computed_correct:
  assumes "first_inv n G N t" "number_errors t = N" "\<And>x c. rule_at t x = Some c \<Longrightarrow> rl_computed_first_set c" "rule_at t x = Some r"
  shows "first_correct G x r"
proof -
  have "closed_grammar n G t" using assms(1-3) by (auto simp: first_inv_def closed_grammar_def)
  then show ?thesis using assms(1,4) by (auto intro: first_complete simp: first_inv_def)
qed

end
