(* ===== verification/Sid_Check_Correct.thy ===== *)
theory Sid_Check_Correct
  imports Sid_Check Sid_First_Correct
begin

text \<open>
  The checks of the alternatives: when \<^verbatim>\<open>rule_check_first_set\<close> reports nothing, no two alternatives of a rule
  can start with the same symbol, and at most one can produce nothing. The invariant here holds through all
  passes of \<^verbatim>\<open>grammar_check_collisions\<close>: which rules are see through does not change, and as long as no error is
  reported the first sets are right.
\<close>

section \<open>Invariant of the checks\<close>

definition syms :: "BitVecT \<Rightarrow> EntryListT \<Rightarrow> symbol set" where
  "syms v ps = Term ` bits_of v \<union> Pred ` set ps"

definition check_inv :: "cuint \<Rightarrow> sentry list \<Rightarrow> nat \<Rightarrow> 'z sid_state_scheme \<Rightarrow> bool" where
  "check_inv n G N s \<longleftrightarrow> sid_wf n G s \<and> N \<le> number_errors s \<and>
     (\<forall>x r. rule_at s x = Some r \<longrightarrow> (rl_see_through r \<longleftrightarrow> nullable G x) \<and>
       (\<not> rl_started_follows r \<longrightarrow> syms (rl_follow_set r) (rl_predicate_follow r) = {}) \<and>
       (number_errors s = N \<longrightarrow> first_correct G x r))"

text \<open>Predicates are met only at the start of an alternative.\<close>

definition predicates_initial :: "sentry list \<Rightarrow> bool" where
  "predicates_initial G \<longleftrightarrow> (\<forall>x pre item post. is_rule G x \<longrightarrow> pre @ item # post \<in> alts_of G x \<longrightarrow> items_nullable G pre \<longrightarrow>
     it_type item = ET_PREDICATE \<longrightarrow> pre = [])"

lemma syms_simps [simp]:
  "Term i \<in> syms v ps \<longleftrightarrow> i \<in> bits_of v" "Pred p \<in> syms v ps \<longleftrightarrow> p \<in> set ps"
  by (auto simp: syms_def)

lemma syms_eqI:
  "(\<And>i. Term i \<in> A \<longleftrightarrow> i \<in> bits_of v) \<Longrightarrow> (\<And>p. Pred p \<in> A \<longleftrightarrow> p \<in> set ps) \<Longrightarrow> A = syms v ps"
  by (auto simp: set_eq_iff) (metis symbol.exhaust syms_simps)+

lemma first_correct_syms: "first_correct G x r \<Longrightarrow> syms (rl_first_set r) (rl_predicate_first r) = {t. starts G x t}"
  by (rule sym, rule syms_eqI) (auto simp: first_correct_def)

lemma check_inv_at:
  assumes "check_inv n G N s" "rule_at s x = Some r"
  shows "sid_wf n G s" "rule_ok n (length G) r" "rl_see_through r \<longleftrightarrow> nullable G x" "number_errors s = N \<Longrightarrow> first_correct G x r"
  using assms by (auto simp: check_inv_def sid_wf_def)

text \<open>States that differ in the error counts only.\<close>

definition same_table :: "'z sid_state_scheme \<Rightarrow> 'z sid_state_scheme \<Rightarrow> bool" where
  "same_table s t \<longleftrightarrow> sid_table t = sid_table s \<and> sid_bitvec t = sid_bitvec s \<and> number_errors s \<le> number_errors t"

lemma same_table_refl [simp]: "same_table s s"
  by (simp add: same_table_def)

lemma same_table_trans: "same_table s t \<Longrightarrow> same_table t u \<Longrightarrow> same_table s u"
  by (auto simp: same_table_def)

lemma same_table_at: "same_table s t \<Longrightarrow> rule_at t = rule_at s"
  by (auto simp: same_table_def rule_at_def fun_eq_iff)

lemma same_table_inv: "same_table s t \<Longrightarrow> check_inv n G N s \<Longrightarrow> check_inv n G N t"
  using same_table_at[of s t] by (auto simp: check_inv_def sid_wf_def same_table_def grammar_of_def all_linked_def)

lemma serious_ends: "ends (\<lambda>_ t. same_table s t \<and> number_errors s < number_errors t) (error_msg ERR_SERIOUS s)"
  by (simp add: error_msg_serious same_table_def)

lemma serious_bind:
  "(\<And>u t. same_table s t \<Longrightarrow> number_errors s < number_errors t \<Longrightarrow> ends_unless C Q (f u t)) \<Longrightarrow> ends_unless C Q (bind (error_msg ERR_SERIOUS) f s)"
  by (simp add: error_msg_serious same_table_def bind_def)

lemma sid_bitvec_whole:
  assumes "sid_wf n G s"
  shows "bitvec_ok (unat n) (bitvec_init (sid_bitvec s))" "bits_of (bitvec_init (sid_bitvec s)) = {}"
    "bitvec_ok (unat n) v \<Longrightarrow> bitvec_copy (sid_bitvec s) v = Some v"
    "bitvec_ok (unat n) v \<Longrightarrow> bitvec_ok (unat n) w \<Longrightarrow> bitvec_replace (sid_bitvec s) v w = Some w"
    "bitvec_ok (unat n) v \<Longrightarrow> bitvec_empty (sid_bitvec s) v = Some (bitvec_init (sid_bitvec s))"
proof -
  have n: "sid_bitvec s = bitvec_set_size n" "unat n + 7 < 2 ^ 32" using assms by (auto simp: sid_wf_def grammar_ok_def)
  note size = set_size_simps[OF n(2)]
  show "bits_of (bitvec_init (sid_bitvec s)) = {}" by (auto simp: bitvec_init_def bits_of_def)
  then show "bitvec_ok (unat n) (bitvec_init (sid_bitvec s))" by (simp add: bitvec_ok_def n(1) bitvec_init_def size)
  show "bitvec_ok (unat n) v \<Longrightarrow> bitvec_copy (sid_bitvec s) v = Some v"
    "bitvec_ok (unat n) v \<Longrightarrow> bitvec_ok (unat n) w \<Longrightarrow> bitvec_replace (sid_bitvec s) v w = Some w"
    "bitvec_ok (unat n) v \<Longrightarrow> bitvec_empty (sid_bitvec s) v = Some (bitvec_init (sid_bitvec s))"
    by (simp_all add: n(1) size bitvec_ok_def bitvec_copy_def bitvec_replace_def bitvec_empty_def bitvec_init_def Let_def)
qed

section \<open>The loop over the items\<close>

definition check_result :: "cuint \<Rightarrow> sentry list \<Rightarrow> nat \<Rightarrow> ItemT list \<Rightarrow> BitVecT \<Rightarrow> EntryListT \<Rightarrow> 'z sid_state_scheme
    \<Rightarrow> bool \<times> BitVecT \<times> EntryListT \<Rightarrow> 'z sid_state_scheme \<Rightarrow> bool" where
  "check_result n G N items test ps s = (\<lambda>(see, test', ps') t. same_table s t \<and> bitvec_ok (unat n) test' \<and>
     (see \<longleftrightarrow> items_nullable G items) \<and>
     (number_errors t = N \<longrightarrow> syms test' ps' = syms test ps \<union> {t. items_start G items t} \<and>
       syms test ps \<inter> {t. items_start G items t} = {}))"

text \<open>The items begin with a predicate that has been met before: the message for this cannot be printed.\<close>

definition clashing :: "nat set \<Rightarrow> ItemT list \<Rightarrow> bool" where
  "clashing P items \<longleftrightarrow> (\<exists>item rest. items = item # rest \<and> it_type item = ET_PREDICATE \<and> it_entry item \<in> P)"

lemma check_predicate_ok:
  assumes "check_inv n G N s" "it_type item = ET_PREDICATE" "bitvec_ok (unat n) test" "initial"
  shows "ends_unless (clashing (set ps) (item # items)) (check_result n G N (item # items) test ps s)
    (check_items initial (item # items) test ps s)"
proof -
  have null: "\<not> item_nullable G item" and st: "item_starts G item = (\<lambda>t. t = Pred (it_entry item))"
    using assms(2) by (auto simp: item_nullable_def item_starts_def fun_eq_iff)
  show ?thesis
  proof (cases "it_entry item \<in> set ps")
    case True
    then show ?thesis using assms by (simp add: bind_def prog_simps entry_list_contains_def clashing_def)
  next
    case False
    then show ?thesis using assms null
      by (auto simp: bind_def prog_simps entry_list_contains_def check_result_def st syms_def)
  qed
qed

lemma check_basic_ok:
  assumes "check_inv n G N s" "it_type item = ET_BASIC" "bitvec_ok (unat n) test" "item_ok n G item"
  shows "ends (check_result n G N (item # items) test ps s) (check_items initial (item # items) test ps s)"
proof -
  let ?i = "s_terminal (G ! it_entry item)"
  have wf: "sid_wf n G s" using assms(1) by (simp add: check_inv_def)
  have null: "\<not> item_nullable G item" and st: "item_starts G item = (\<lambda>t. t = Term (unat ?i))"
    using assms(2) by (auto simp: item_nullable_def item_starts_def fun_eq_iff)
  have i: "unat ?i < unat n" and G: "grammar_of s = G" "is_basic G (it_entry item)"
    using assms(2,4) wf by (auto simp: item_ok_def sid_wf_def)
  obtain b where b: "entry_get_basic (it_entry item) s = (Ret b, s)" "bs_terminal b = ?i"
    using basic_at[of s "it_entry item"] G by auto
  have init: "bitvec_ok (unat n) (bitvec_init (sid_bitvec s))" by (rule sid_bitvec_whole(1)[OF wf])
  obtain v where v: "bitvec_set (sid_bitvec s) test ?i = Some v" "bitvec_ok (unat n) v" "bits_of v = insert (unat ?i) (bits_of test)"
    using sid_bitvec_ops(2)[OF wf assms(3,3) i] by blast
  obtain w where w: "bitvec_set (sid_bitvec s) (bitvec_init (sid_bitvec s)) ?i = Some w" "bitvec_ok (unat n) w"
    using sid_bitvec_ops(2)[OF wf init init i] by blast
  obtain u where u: "bitvec_and (sid_bitvec s) w test = Some u" using sid_bitvec_ops(7)[OF wf w(2) assms(3)] by blast
  note is_set = sid_bitvec_ops(6)[OF wf assms(3,3) i]
  show ?thesis
  proof (cases "unat ?i \<in> bits_of test")
    case True
    have "ends (check_result n G N (item # items) test ps s) (bind (error_msg ERR_SERIOUS) (\<lambda>_. ret (False, test, ps)) s)"
      using assms null by (intro serious_bind) (auto simp: prog_simps check_result_def check_inv_def)
    then show ?thesis using True assms(2) b is_set w u by (simp add: bind_def prog_simps)
  next
    case False
    then show ?thesis using assms null b v is_set
      by (auto simp: bind_def prog_simps check_result_def st syms_def)
  qed
qed

text \<open>A rule: its predicates and terminals are merged with those met before.\<close>

definition check_merge :: "RuleT \<Rightarrow> BitVecT \<Rightarrow> EntryListT \<Rightarrow> ('z sid_state_scheme, BitVecT) prog" where
  "check_merge c test ps =
     bind (if entry_list_intersection ps (rl_predicate_first c) \<noteq> [] then error_msg ERR_SERIOUS else ret ()) (\<lambda>_.
     bind (gets sid_bitvec) (\<lambda>ctx.
     bind (defined (bitvec_intersects ctx test (rl_first_set c))) (\<lambda>clash.
     if \<not> clash then defined (bitvec_or ctx test (rl_first_set c))
     else
       bind (defined (bitvec_copy ctx (rl_first_set c))) (\<lambda>tmp.
       bind (defined (bitvec_and ctx tmp test)) (\<lambda>_.
       bind (error_msg ERR_SERIOUS) (\<lambda>_. ret test))))))"

lemma check_items_rule:
  assumes "it_type item = ET_RULE" "rule_at s (it_entry item) = Some c"
  shows "check_items initial (item # items) test ps s = bind (check_merge c test ps) (\<lambda>test'.
    if rl_see_through c then check_items False items test' (entry_list_append ps (rl_predicate_first c))
    else ret (False, test', entry_list_append ps (rl_predicate_first c))) s"
  by (simp add: assms check_merge_def bind_assoc Let_def) (simp add: bind_def entry_get_rule_eq assms(2))

lemma check_merge_ok:
  assumes inv: "check_inv n G N s" and test: "bitvec_ok (unat n) test" and c: "bitvec_ok (unat n) (rl_first_set c)"
  shows "ends (\<lambda>test' t. same_table s t \<and> bitvec_ok (unat n) test' \<and> (number_errors t = N \<longrightarrow>
    syms test' (entry_list_append ps (rl_predicate_first c)) = syms test ps \<union> syms (rl_first_set c) (rl_predicate_first c) \<and>
    syms test ps \<inter> syms (rl_first_set c) (rl_predicate_first c) = {})) (check_merge c test ps s)"
  unfolding check_merge_def
proof (rule ends_bind)
  show "ends (\<lambda>_ t. same_table s t \<and> (number_errors t = N \<longrightarrow> set ps \<inter> set (rl_predicate_first c) = {}))
    ((if entry_list_intersection ps (rl_predicate_first c) \<noteq> [] then error_msg ERR_SERIOUS else ret ()) s)"
    using inv set_entry_list_intersection[of ps "rl_predicate_first c"] ends_mono[OF serious_ends[of s]]
    by (auto simp: prog_simps check_inv_def simp del: set_entry_list_intersection)
next
  fix x :: unit and t :: "'a sid_state_scheme"
  assume t: "same_table s t \<and> (number_errors t = N \<longrightarrow> set ps \<inter> set (rl_predicate_first c) = {})"
  then have it: "check_inv n G N t" using inv same_table_inv by blast
  then have wf: "sid_wf n G t" by (simp add: check_inv_def)
  obtain v where v: "bitvec_or (sid_bitvec t) test (rl_first_set c) = Some v" "bitvec_ok (unat n) v"
    "bits_of v = bits_of test \<union> bits_of (rl_first_set c)" using sid_bitvec_ops(1)[OF wf test c] by blast
  obtain w where w: "bitvec_and (sid_bitvec t) (rl_first_set c) test = Some w" using sid_bitvec_ops(7)[OF wf c test] by blast
  show "ends (\<lambda>test' t. same_table s t \<and> bitvec_ok (unat n) test' \<and> (number_errors t = N \<longrightarrow>
    syms test' (entry_list_append ps (rl_predicate_first c)) = syms test ps \<union> syms (rl_first_set c) (rl_predicate_first c) \<and>
    syms test ps \<inter> syms (rl_first_set c) (rl_predicate_first c) = {})) (bind (gets sid_bitvec) (\<lambda>ctx.
     bind (defined (bitvec_intersects ctx test (rl_first_set c))) (\<lambda>clash.
     if \<not> clash then defined (bitvec_or ctx test (rl_first_set c))
     else
       bind (defined (bitvec_copy ctx (rl_first_set c))) (\<lambda>tmp.
       bind (defined (bitvec_and ctx tmp test)) (\<lambda>_.
       bind (error_msg ERR_SERIOUS) (\<lambda>_. ret test))))) t)" (is "ends ?R _")
  proof (cases "bits_of test \<inter> bits_of (rl_first_set c) = {}")
    case True
    have "?R v t" using t v True by (auto simp: syms_def image_Un)
    then show ?thesis using True sid_bitvec_ops(4)[OF wf test c] v by (simp add: bind_def prog_simps)
  next
    case False
    have "ends ?R (bind (error_msg ERR_SERIOUS) (\<lambda>_. ret test) t)"
      using t it test by (intro serious_bind) (auto simp: prog_simps check_inv_def elim: same_table_trans)
    then show ?thesis using False sid_bitvec_ops(4)[OF wf test c] w sid_bitvec_whole(3)[OF wf c] by (simp add: bind_def prog_simps)
  qed
qed

lemma check_rule_ok:
  fixes s :: "'z sid_state_scheme"
  assumes inv: "check_inv n G N s" and ty: "it_type item = ET_RULE" and test: "bitvec_ok (unat n) test" and ok: "item_ok n G item"
    and IH: "\<And>(t :: 'z sid_state_scheme) test ps. check_inv n G N t \<Longrightarrow> bitvec_ok (unat n) test \<Longrightarrow> item_nullable G item \<Longrightarrow>
      ends (check_result n G N items test ps t) (check_items False items test ps t)"
  shows "ends (check_result n G N (item # items) test ps s) (check_items initial (item # items) test ps s)"
proof -
  let ?y = "it_entry item"
  have wf: "sid_wf n G s" using inv by (simp add: check_inv_def)
  obtain c where c: "rule_at s ?y = Some c" using sid_wf_rule[OF wf] ok ty by (auto simp: item_ok_def)
  note at = check_inv_at[OF inv c]
  have null: "item_nullable G item \<longleftrightarrow> rl_see_through c" using ty at(3) by (simp add: item_nullable_def)
  let ?S = "syms (rl_first_set c) (rl_predicate_first c)" and ?ps = "entry_list_append ps (rl_predicate_first c)"
  have st: "number_errors s = N \<Longrightarrow> {t. item_starts G item t} = ?S"
    using first_correct_syms[OF at(4)] ty by (simp add: item_starts_def)
  have "bitvec_ok (unat n) (rl_first_set c)" using at(2) by (simp add: rule_ok_def)
  note merge = check_merge_ok[OF inv test this, of ps]
  show ?thesis unfolding check_items_rule[OF ty c]
  proof (rule ends_bind, rule merge)
    fix test' t assume t: "same_table s t \<and> bitvec_ok (unat n) test' \<and> (number_errors t = N \<longrightarrow>
      syms test' ?ps = syms test ps \<union> ?S \<and> syms test ps \<inter> ?S = {})"
    have quiet: "number_errors s = N" if "same_table s u" "number_errors u = N" for u
      using inv that by (simp add: same_table_def check_inv_def)
    show "ends (check_result n G N (item # items) test ps s)
      ((if rl_see_through c then check_items False items test' ?ps else ret (False, test', ?ps)) t)"
    proof (cases "rl_see_through c")
      case True
      have "ends (check_result n G N items test' ?ps t) (check_items False items test' ?ps t)"
        using t inv True null by (intro IH) (auto intro: same_table_inv)
      then have "ends (check_result n G N (item # items) test ps s) (check_items False items test' ?ps t)"
      proof (rule ends_mono, clarify)
        fix see test'' ps'' u assume u: "check_result n G N items test' ?ps t (see, test'', ps'') u"
        then have su: "same_table s u" using t by (auto simp: check_result_def intro: same_table_trans)
        have "number_errors t = N" if "number_errors u = N"
          using u t inv that by (auto simp: check_result_def same_table_def check_inv_def)
        moreover have "{t. items_start G (item # items) t} = ?S \<union> {t. items_start G items t}" if "number_errors u = N"
          using st[OF quiet[OF su that]] True null by auto
        ultimately show "check_result n G N (item # items) test ps s (see, test'', ps'') u"
          using u t su True null by (simp add: check_result_def Un_assoc del: items_start.simps) blast
      qed
      then show ?thesis using True by simp
    next
      case False
      then have "{t. items_start G (item # items) t} = ?S" if "number_errors t = N"
        using st[OF quiet[OF _ that]] t null by auto
      then show ?thesis using t False null by (simp add: check_result_def prog_simps del: items_start.simps)
    qed
  qed
qed

lemma check_items_ok:
  fixes s :: "'z sid_state_scheme"
  assumes "predicates_initial G" "is_rule G x"
  shows "check_inv n G N s \<Longrightarrow> pre @ items \<in> alts_of G x \<Longrightarrow> items_nullable G pre \<Longrightarrow> initial = (pre = []) \<Longrightarrow>
    bitvec_ok (unat n) test \<Longrightarrow>
    ends_unless (pre = [] \<and> clashing (set ps) items) (check_result n G N items test ps s) (check_items initial items test ps s)"
proof (induction items arbitrary: s pre initial test ps)
  case Nil
  then show ?case by (simp add: prog_simps check_result_def)
next
  case (Cons item items)
  have wf: "sid_wf n G s" using Cons.prems(1) by (simp add: check_inv_def)
  have ok: "item_ok n G item"
    using Cons.prems(2) assms(2) by (intro sid_wf_item[OF wf assms(2)]) (auto simp: bodies_of_def)
  have IH: "ends (check_result n G N items test ps t) (check_items False items test ps t)"
    if "check_inv n G N t" "bitvec_ok (unat n) test" "item_nullable G item" for t :: "'z sid_state_scheme" and test ps
    using Cons.IH[of t "pre @ [item]" False test ps] that Cons.prems by auto
  have quiet: "ends Q r \<Longrightarrow> ends_unless C Q r" for C Q and r :: "(bool \<times> BitVecT \<times> EntryListT) outcome \<times> 'z sid_state_scheme"
    by (erule ends_unless_mono) simp
  show ?case
  proof (cases "it_type item")
    case ET_RULE
    show ?thesis by (rule quiet, rule check_rule_ok[OF Cons.prems(1) ET_RULE Cons.prems(5) ok IH])
  next
    case ET_PREDICATE
    then have init: "initial" using assms Cons.prems unfolding predicates_initial_def by blast
    then have "pre = []" using Cons.prems(4) by simp
    then show ?thesis using check_predicate_ok[OF Cons.prems(1) ET_PREDICATE Cons.prems(5) init] by simp
  next
    case ET_BASIC
    show ?thesis by (rule quiet, rule check_basic_ok[OF Cons.prems(1) ET_BASIC Cons.prems(5) ok])
  next
    case ET_ACTION
    then have "ends (check_result n G N (item # items) test ps s) (check_items initial (item # items) test ps s)"
      using Cons.prems IH by (auto simp: check_result_def item_nullable_def item_starts_def)
    then show ?thesis by (rule quiet)
  next
    case ET_RENAME
    then have "ends (check_result n G N (item # items) test ps s) (check_items initial (item # items) test ps s)"
      using Cons.prems IH by (auto simp: check_result_def item_nullable_def item_starts_def)
    then show ?thesis by (rule quiet)
  qed (use ok in \<open>simp_all add: item_ok_def\<close>)
qed

text \<open>
  Whatever has been reported, the predicates met so far are those the items can start with, as long as the rules
  have the right ones.
\<close>

definition predicates_right :: "sentry list \<Rightarrow> 'z sid_state_scheme \<Rightarrow> bool" where
  "predicates_right G s \<longleftrightarrow> (\<forall>x r. rule_at s x = Some r \<longrightarrow> (rl_see_through r \<longleftrightarrow> nullable G x) \<and>
     set (rl_predicate_first r) = {p. starts G x (Pred p)})"

lemma predicates_right_same: "rule_at t = rule_at s \<Longrightarrow> predicates_right G s \<Longrightarrow> predicates_right G t"
  by (simp add: predicates_right_def)

lemma entry_get_rule_Ret: "entry_get_rule x s = (Ret c, t) \<longleftrightarrow> t = s \<and> rule_at s x = Some c"
  by (cases "rule_at s x") (auto simp: entry_get_rule_eq)

lemma entry_get_basic_Ret: "entry_get_basic x s = (Ret b, t) \<Longrightarrow> t = s"
  by (auto simp: entry_get_basic_def entry_at_def bind_Ret_iff gets_def ret_def index_def raise_def check_def split: if_splits entry_u.splits)

lemma serious_Ret: "error_msg ERR_SERIOUS s = (Ret u, t) \<Longrightarrow> rule_at t = rule_at s"
  using serious_ends[of s] same_table_at[of s t] by auto

lemma defined_Ret_iff: "defined x s = (Ret y, t) \<longleftrightarrow> t = s \<and> x = Some y"
  by (auto simp: defined_def split: option.splits)

lemma check_merge_Ret:
  assumes "check_merge c test ps s = (Ret test', t)"
  shows "rule_at t = rule_at s"
  using assms
  by (auto simp: check_merge_def bind_Ret_iff gets_def ret_def defined_Ret_iff split: if_splits dest!: serious_Ret)

lemma check_items_preds:
  "check_items initial items test ps s = (Ret (see, test', ps'), t) \<Longrightarrow> predicates_right G s \<Longrightarrow>
     rule_at t = rule_at s \<and> set ps' = set ps \<union> {p. items_start G items (Pred p)} \<and> (initial \<longrightarrow> \<not> clashing (set ps) items)"
proof (induction items arbitrary: initial s test ps)
  case (Cons item items)
  show ?case
  proof (cases "it_type item")
    case ET_PREDICATE
    with Cons.prems show ?thesis
      by (auto simp: bind_Ret_iff prog_simps clashing_def item_starts_def item_nullable_def entry_list_contains_def split: if_splits)
  next
    case ET_BASIC
    with Cons.prems show ?thesis
      by (auto simp: bind_Ret_iff gets_def ret_def clashing_def item_starts_def item_nullable_def defined_Ret_iff
          split: if_splits dest!: serious_Ret entry_get_basic_Ret)
  next
    case ET_RULE
    let ?y = "it_entry item"
    obtain c where c: "rule_at s ?y = Some c"
      using Cons.prems(1) ET_RULE by (auto simp: bind_Ret_iff entry_get_rule_Ret)
    let ?ps = "entry_list_append ps (rl_predicate_first c)"
    obtain test1 u where m: "check_merge c test ps s = (Ret test1, u)"
      and r: "(if rl_see_through c then check_items False items test1 ?ps else ret (False, test1, ?ps)) u = (Ret (see, test', ps'), t)"
      using Cons.prems(1) unfolding check_items_rule[OF ET_RULE c] by (auto simp: bind_Ret_iff)
    have u: "rule_at u = rule_at s" "predicates_right G u"
      using check_merge_Ret[OF m] predicates_right_same[of u s G] Cons.prems(2) by auto
    have y: "rl_see_through c \<longleftrightarrow> item_nullable G item" "set (rl_predicate_first c) = {p. item_starts G item (Pred p)}"
      using Cons.prems(2) c ET_RULE by (auto simp: predicates_right_def item_nullable_def item_starts_def)
    have "rule_at t = rule_at u \<and> set ps' = set ?ps \<union> (if rl_see_through c then {p. items_start G items (Pred p)} else {})"
      using r Cons.IH[of False test1 ?ps u] u(2) by (auto simp: prog_simps split: if_splits)
    then show ?thesis using u(1) y ET_RULE by (auto simp: clashing_def)
  next
    case ET_ACTION
    with Cons.prems Cons.IH show ?thesis by (fastforce simp: clashing_def item_starts_def item_nullable_def)
  next
    case ET_RENAME
    with Cons.prems Cons.IH show ?thesis by (fastforce simp: clashing_def item_starts_def item_nullable_def)
  qed (use Cons.prems in \<open>simp_all add: prog_simps\<close>)
qed (auto simp: prog_simps clashing_def)

section \<open>The alternatives of a rule\<close>

text \<open>No alternative begins with a predicate of \<open>P\<close> or one that an alternative before it can start with.\<close>

fun clash_free :: "sentry list \<Rightarrow> nat set \<Rightarrow> ItemT list list \<Rightarrow> bool" where
  "clash_free G P [] \<longleftrightarrow> True"
| "clash_free G P (a # as) \<longleftrightarrow> \<not> clashing P a \<and> clash_free G (P \<union> {p. items_start G a (Pred p)}) as"

lemma clash_free_iff:
  "clash_free G P as \<longleftrightarrow> (\<forall>j<length as. \<forall>item items. as ! j = item # items \<longrightarrow> it_type item = ET_PREDICATE \<longrightarrow>
     it_entry item \<notin> P \<and> (\<forall>i<j. \<not> items_start G (as ! i) (Pred (it_entry item))))"
proof (induction as arbitrary: P)
  case (Cons a as)
  show ?case
    unfolding clash_free.simps Cons.IH length_Cons All_less_Suc2 by (auto simp: clashing_def)
qed simp

lemma check_alts_Ret:
  "check_alts alts is_empty shown test ps s = (Ret u, t) \<Longrightarrow> predicates_right G s \<Longrightarrow>
     rule_at t = rule_at s \<and> clash_free G (set ps) (map alt_items alts)"
proof (induction alts arbitrary: is_empty shown test ps s)
  case (Cons alt alts)
  obtain see test' ps' v where c: "check_items True (alt_items alt) test ps s = (Ret (see, test', ps'), v)"
    and r: "(if \<not> see then check_alts alts is_empty shown test' ps'
        else if is_empty then bind (if \<not> shown then error_msg ERR_SERIOUS else ret ()) (\<lambda>_. check_alts alts is_empty True test' ps')
        else check_alts alts True shown test' ps') v = (Ret u, t)"
    using Cons.prems(1) by (auto simp: bind_Ret_iff)
  note items = check_items_preds[OF c Cons.prems(2)]
  obtain w e h where w: "rule_at w = rule_at v" "check_alts alts e h test' ps' w = (Ret u, t)"
    using r by (cases shown) (auto simp: bind_Ret_iff ret_def split: if_splits dest!: serious_Ret)
  with items have "predicates_right G w" using predicates_right_same[of w s G] Cons.prems(2) by simp
  from Cons.IH[OF w(2) this] w(1) items show ?case by simp
qed (simp add: prog_simps)

definition apart :: "sentry list \<Rightarrow> ItemT list \<Rightarrow> ItemT list \<Rightarrow> bool" where
  "apart G a b \<longleftrightarrow> {t. items_start G a t} \<inter> {t. items_start G b t} = {} \<and> \<not> (items_nullable G a \<and> items_nullable G b)"

definition alts_result_check :: "cuint \<Rightarrow> sentry list \<Rightarrow> nat \<Rightarrow> AltT list \<Rightarrow> bool \<Rightarrow> BitVecT \<Rightarrow> EntryListT \<Rightarrow> 'z sid_state_scheme
    \<Rightarrow> unit \<Rightarrow> 'z sid_state_scheme \<Rightarrow> bool" where
  "alts_result_check n G N alts is_empty test ps s = (\<lambda>_ t. same_table s t \<and> (number_errors t = N \<longrightarrow>
     (\<forall>a\<in>alt_items ` set alts. syms test ps \<inter> {t. items_start G a t} = {} \<and> (is_empty \<longrightarrow> \<not> items_nullable G a)) \<and>
     sorted_wrt (apart G) (map alt_items alts)))"

lemma check_alts_step:
  assumes inv: "check_inv n G N s"
    and t: "check_result n G N (alt_items alt) test ps s (see, test', ps') t" "same_table t t'"
      "number_errors t' = N \<Longrightarrow> see \<Longrightarrow> \<not> is_empty"
    and u: "alts_result_check n G N alts (is_empty \<or> see) test' ps' t' r u"
  shows "alts_result_check n G N (alt # alts) is_empty test ps s r u"
proof -
  have "same_table s u" using t(1,2) u by (auto simp: check_result_def alts_result_check_def intro: same_table_trans)
  moreover have "(\<forall>a\<in>alt_items ` set (alt # alts). syms test ps \<inter> {t. items_start G a t} = {} \<and> (is_empty \<longrightarrow> \<not> items_nullable G a)) \<and>
     sorted_wrt (apart G) (map alt_items (alt # alts))" if N: "number_errors u = N"
  proof -
    have q: "number_errors t = N" "number_errors t' = N"
      using inv t u N by (auto simp: check_result_def alts_result_check_def same_table_def check_inv_def)
    have 1: "syms test' ps' = syms test ps \<union> {t. items_start G (alt_items alt) t}"
      "syms test ps \<inter> {t. items_start G (alt_items alt) t} = {}" "see \<longleftrightarrow> items_nullable G (alt_items alt)"
      using t(1) q(1) by (auto simp: check_result_def)
    have 2: "\<And>a. a \<in> alt_items ` set alts \<Longrightarrow> syms test' ps' \<inter> {t. items_start G a t} = {} \<and> (is_empty \<or> see \<longrightarrow> \<not> items_nullable G a)"
      "sorted_wrt (apart G) (map alt_items alts)" using u N by (auto simp: alts_result_check_def)
    have "apart G (alt_items alt) a" if "a \<in> alt_items ` set alts" for a
      using 1 2(1)[OF that] unfolding apart_def by blast
    moreover have "syms test ps \<inter> {t. items_start G a t} = {} \<and> (is_empty \<longrightarrow> \<not> items_nullable G a)" if "a \<in> alt_items ` set alts" for a
      using 1(1) 2(1)[OF that] by blast
    ultimately show ?thesis using 1 2(2) t(3)[OF q(2)] by auto
  qed
  ultimately show ?thesis by (simp add: alts_result_check_def)
qed

text \<open>What a run has returned may be used of its result.\<close>

lemma ends_eq: "ends_unless C Q p \<Longrightarrow> ends_unless C (\<lambda>x t. Q x t \<and> p = (Ret x, t)) p"
  by (cases p; cases "fst p") auto

lemma check_alts_ok:
  assumes "predicates_initial G" "is_rule G x"
  shows "check_inv n G N s \<Longrightarrow> predicates_right G s \<Longrightarrow> alt_items ` set alts \<subseteq> alts_of G x \<Longrightarrow> bitvec_ok (unat n) test \<Longrightarrow>
    (shown \<Longrightarrow> N < number_errors s) \<Longrightarrow>
    ends_unless (\<not> clash_free G (set ps) (map alt_items alts)) (alts_result_check n G N alts is_empty test ps s) (check_alts alts is_empty shown test ps s)"
proof (induction alts arbitrary: s is_empty shown test ps)
  case Nil
  then show ?case by (simp add: prog_simps alts_result_check_def)
next
  case (Cons alt alts)
  let ?C = "\<not> clash_free G (set ps) (map alt_items (alt # alts))"
  have "ends_unless (clashing (set ps) (alt_items alt)) (check_result n G N (alt_items alt) test ps s) (check_items True (alt_items alt) test ps s)"
    using Cons.prems check_items_ok[OF assms, of n N s "[]" "alt_items alt" True test ps] by simp
  then have "ends_unless ?C (check_result n G N (alt_items alt) test ps s) (check_items True (alt_items alt) test ps s)"
    by (rule ends_unless_mono) simp
  note 1 = ends_eq[OF this]
  show ?case unfolding check_alts.simps
  proof (rule ends_bind, rule 1, clarify)
    fix see test' ps' t assume t: "check_result n G N (alt_items alt) test ps s (see, test', ps') t"
      and eq: "check_items True (alt_items alt) test ps s = (Ret (see, test', ps'), t)"
    then have st: "same_table s t" and ok: "bitvec_ok (unat n) test'" by (auto simp: check_result_def)
    note items = check_items_preds[OF eq Cons.prems(2)]
    have go: "ends_unless ?C (alts_result_check n G N (alt # alts) is_empty test ps s) (check_alts alts (is_empty \<or> see) shown' test' ps' t')"
      if t': "same_table t t'" "shown' \<Longrightarrow> N < number_errors t'" "number_errors t' = N \<Longrightarrow> see \<Longrightarrow> \<not> is_empty" for shown' and t' :: "'a sid_state_scheme"
    proof (rule ends_mono[OF ends_unless_mono[OF Cons.IH]])
      show "check_inv n G N t'" using Cons.prems(1) st t'(1) by (blast intro: same_table_inv same_table_trans)
      show "predicates_right G t'" using predicates_right_same[of t' s G] same_table_at[OF t'(1)] items Cons.prems(2) by simp
      show "bitvec_ok (unat n) test'" "alt_items ` set alts \<subseteq> alts_of G x" using ok Cons.prems(3) by auto
      show "?C" if "\<not> clash_free G (set ps') (map alt_items alts)" using that items by simp
      show "alts_result_check n G N (alt # alts) is_empty test ps s r u"
        if "alts_result_check n G N alts (is_empty \<or> see) test' ps' t' r u" for r u
        by (rule check_alts_step[OF Cons.prems(1) t t'(1,3) that])
    qed (rule t'(2))
    have sh: "shown \<Longrightarrow> N < number_errors t" using Cons.prems(5) st by (auto simp: same_table_def)
    show "ends_unless ?C (alts_result_check n G N (alt # alts) is_empty test ps s)
      ((if \<not> see then check_alts alts is_empty shown test' ps'
        else if is_empty then bind (if \<not> shown then error_msg ERR_SERIOUS else ret ()) (\<lambda>_. check_alts alts is_empty True test' ps')
        else check_alts alts True shown test' ps') t)"
    proof (cases "see \<and> is_empty")
      case True
      have "N \<le> number_errors t" using Cons.prems(1) st by (simp add: check_inv_def same_table_def)
      then have "ends_unless ?C (alts_result_check n G N (alt # alts) is_empty test ps s)
        (bind (if \<not> shown then error_msg ERR_SERIOUS else ret ()) (\<lambda>_. check_alts alts is_empty True test' ps') t)"
        using go[of t True] go[of _ True] sh True by (cases shown) (auto intro!: serious_bind)
      then show ?thesis using True by simp
    next
      case False
      then show ?thesis using go[of t shown] sh by (auto simp del: clash_free.simps list.map)
    qed
  qed
qed

definition rule_apart :: "sentry list \<Rightarrow> nat \<Rightarrow> bool" where
  "rule_apart G x \<longleftrightarrow> sorted_wrt (apart G) (s_alts (G ! x)) \<and>
     (s_empty (G ! x) \<longrightarrow> (\<forall>a\<in>alts_of G x. \<not> items_nullable G a))"

lemma rule_check_first_set_1_ok:
  assumes "predicates_initial G" "check_inv n G N s" "predicates_right G s" "rule_at s x = Some r"
  shows "ends_unless (\<not> clash_free G {} (s_alts (G ! x)))
    (\<lambda>_ t. same_table s t \<and> clash_free G {} (s_alts (G ! x)) \<and> (number_errors t = N \<longrightarrow> rule_apart G x)) (rule_check_first_set_1 x s)"
proof -
  have wf: "sid_wf n G s" using assms(2) by (simp add: check_inv_def)
  note alts = sid_wf_alts[OF wf assms(4)]
  have "ends_unless (\<not> clash_free G {} (map alt_items (rl_alts r))) (alts_result_check n G N (rl_alts r) (rl_has_empty_alt r) (bitvec_init (sid_bitvec s)) [] s)
    (check_alts (rl_alts r) (rl_has_empty_alt r) False (bitvec_init (sid_bitvec s)) [] s)"
    using alts sid_bitvec_whole(1)[OF wf] check_alts_ok[OF assms(1) _ assms(2,3), where x = x and ps = "[]" and shown = False] by auto
  from ends_eq[OF this] show ?thesis using assms(4) alts
    by (simp add: rule_check_first_set_1_def entry_get_rule_eq bind_def prog_simps)
      (auto elim!: ends_mono simp: alts_result_check_def rule_apart_def dest!: check_alts_Ret [OF _ assms(3)])
qed

text \<open>
  Two alternatives of a rule of which the later one begins with a predicate that the earlier one can start with.
\<close>

definition predicate_clash :: "sentry list \<Rightarrow> bool" where
  "predicate_clash G \<longleftrightarrow> (\<exists>x i j item items. x < length G \<and> is_rule G x \<and> i < j \<and> j < length (s_alts (G ! x)) \<and>
     s_alts (G ! x) ! j = item # items \<and> it_type item = ET_PREDICATE \<and> items_start G (s_alts (G ! x) ! i) (Pred (it_entry item)))"

lemma predicate_clash_iff: "predicate_clash G \<longleftrightarrow> (\<exists>x<length G. is_rule G x \<and> \<not> clash_free G {} (s_alts (G ! x)))"
  unfolding predicate_clash_def clash_free_iff by blast

text \<open>The first pass: the alternatives of all rules.\<close>

lemma check_first_sets_ok:
  assumes "predicates_initial G" "check_inv n G N s" "predicates_right G s"
  shows "ends_unless (predicate_clash G) (\<lambda>_ t. same_table s t \<and> \<not> predicate_clash G \<and>
    (number_errors t = N \<longrightarrow> (\<forall>x<length G. is_rule G x \<longrightarrow> rule_apart G x))) (table_iter rule_check_first_set s)"
proof -
  define I where "I = (\<lambda>X t. same_table s t \<and> (\<forall>x\<in>X. is_rule G x \<longrightarrow> clash_free G {} (s_alts (G ! x))) \<and>
    (number_errors t = N \<longrightarrow> (\<forall>x\<in>X. is_rule G x \<longrightarrow> rule_apart G x)))"
  have "ends_unless (predicate_clash G) (\<lambda>_. I {..<length G}) (table_iter rule_check_first_set s)"
  proof (rule table_iter_ends)
    show "sid_wf n G s" using assms(2) by (simp add: check_inv_def)
    show "I {} s" by (simp add: I_def)
    fix X x and t :: "'a sid_state_scheme" assume t: "I X t" "x < length G"
    then have st: "same_table s t" by (simp add: I_def)
    have it: "check_inv n G N t" "predicates_right G t"
      using same_table_inv[OF st assms(2)] predicates_right_same[OF same_table_at[OF st] assms(3)] by simp_all
    then have wf: "sid_wf n G t" by (simp add: check_inv_def)
    show "ends_unless (predicate_clash G) (\<lambda>_. I (insert x X)) (rule_check_first_set x t)"
      unfolding rule_check_first_set_def
    proof (rule on_rule_ends[OF wf t(2)])
      fix r assume r: "rule_at t x = Some r"
      have rule: "is_rule G x" using sid_wf_alts(2)[OF wf r] by simp
      show "ends_unless (predicate_clash G) (\<lambda>_. I (insert x X)) (rule_check_first_set_1 x t)"
      proof (rule ends_mono[OF ends_unless_mono[OF rule_check_first_set_1_ok[OF assms(1) it r]]])
        show "predicate_clash G" if "\<not> clash_free G {} (s_alts (G ! x))" using that t(2) rule by (auto simp: predicate_clash_iff)
        fix v u assume u: "same_table t u \<and> clash_free G {} (s_alts (G ! x)) \<and> (number_errors u = N \<longrightarrow> rule_apart G x)"
        then have "number_errors t = N" if "number_errors u = N" using it that by (auto simp: check_inv_def same_table_def)
        then show "I (insert x X) u" using t(1) u by (auto simp: I_def intro: same_table_trans)
      qed
    next
      assume "rule_at t x = None"
      then show "I (insert x X) t" using t(1) sid_wf_rule[OF wf, of x] by (auto simp: I_def)
    qed
  qed
  then show ?thesis by (rule ends_mono) (auto simp: I_def predicate_clash_iff)
qed

end
