(* ===== verification/Sid_Follow_Correct.thy ===== *)
theory Sid_Follow_Correct
  imports Sid_Check_Correct
begin

text \<open>
  The follow sets: the recursion ends, and when it reports nothing the follow set of every rule contains all
  symbols that can follow the rule, and no see through rule can be followed by a symbol it can start with.
  A call may return before a rule is done, because an outer call is still working on it. So the property
  that carries the proof is that each rule is as it was, or is covered: what its follow set implies for the
  rules in its alternatives is in their follow sets.
\<close>

section \<open>The bound\<close>

lemma bitvec_room_mono:
  assumes "length w = length v" "bits_of v \<subseteq> bits_of w"
  shows "bitvec_room w \<le> bitvec_room v" "bits_of v \<noteq> bits_of w \<Longrightarrow> bitvec_room w < bitvec_room v"
proof -
  have in_bits: "i \<in> bits_of u \<longleftrightarrow> i < 8 * length u \<and> bit (u ! (i div 8)) (i mod 8)" for i u
    by (auto simp: bits_of_def)
  have le: "\<not> bit (v ! (i div 8)) (i mod 8)" if "\<not> bit (w ! (i div 8)) (i mod 8)" "i < 8 * length w" for i
    using that assms in_bits[of i v] in_bits[of i w] by auto
  then show "bitvec_room w \<le> bitvec_room v" unfolding bitvec_room_def assms(1)[symmetric]
    by (intro filter_mono_length) auto
  assume "bits_of v \<noteq> bits_of w"
  then obtain i where "i \<in> bits_of w" "i \<notin> bits_of v" using assms(2) by blast
  then show "bitvec_room w < bitvec_room v" unfolding bitvec_room_def assms(1)[symmetric]
    using le in_bits[of i w] in_bits[of i v] assms(1) by (intro filter_strict_length[of _ _ _ i]) auto
qed

lemma rule_room_mono:
  assumes "length (rl_follow_set q) = length (rl_follow_set r)" "bits_of (rl_follow_set r) \<subseteq> bits_of (rl_follow_set q)"
    "set (rl_predicate_follow r) \<subseteq> set (rl_predicate_follow q)" "rl_started_follows r \<Longrightarrow> rl_started_follows q"
    "set (rl_predicate_follow q) \<subseteq> {..<l}"
  shows "rule_room l q \<le> rule_room l r"
    "\<not> rl_started_follows r \<and> rl_started_follows q \<or> bits_of (rl_follow_set r) \<noteq> bits_of (rl_follow_set q) \<or>
      set (rl_predicate_follow r) \<noteq> set (rl_predicate_follow q) \<Longrightarrow> rule_room l q < rule_room l r"
proof -
  let ?f = "\<lambda>r. length (filter (\<lambda>p. p \<notin> set (rl_predicate_follow r)) [0..<l])"
  have 1: "bitvec_room (rl_follow_set q) \<le> bitvec_room (rl_follow_set r)"
    "bits_of (rl_follow_set r) \<noteq> bits_of (rl_follow_set q) \<Longrightarrow> bitvec_room (rl_follow_set q) < bitvec_room (rl_follow_set r)"
    using bitvec_room_mono[OF assms(1,2)] by auto
  have 2: "?f q \<le> ?f r" using assms(3) by (intro filter_mono_length) auto
  have 3: "?f q < ?f r" if neq: "set (rl_predicate_follow r) \<noteq> set (rl_predicate_follow q)"
  proof -
    obtain p where "p \<in> set (rl_predicate_follow q)" "p \<notin> set (rl_predicate_follow r)" using neq assms(3) by blast
    then show ?thesis using assms(3,5) by (intro filter_strict_length[of _ _ _ p]) auto
  qed
  show "rule_room l q \<le> rule_room l r" using 1 2 assms(4) by (auto simp: rule_room_def)
  assume "\<not> rl_started_follows r \<and> rl_started_follows q \<or> bits_of (rl_follow_set r) \<noteq> bits_of (rl_follow_set q) \<or>
      set (rl_predicate_follow r) \<noteq> set (rl_predicate_follow q)"
  then show "rule_room l q < rule_room l r"
  proof (elim disjE)
    assume "bits_of (rl_follow_set r) \<noteq> bits_of (rl_follow_set q)"
    then show ?thesis using 1(2) 2 assms(4) by (auto simp: rule_room_def)
  next
    assume "set (rl_predicate_follow r) \<noteq> set (rl_predicate_follow q)"
    then show ?thesis using 1(1) 3 assms(4) by (auto simp: rule_room_def)
  qed (use 1(1) 2 in \<open>auto simp: rule_room_def\<close>)
qed

lemma follow_room_put:
  assumes "rule_at s x = Some r"
  shows "follow_room (rule_put x q s) + rule_room (length (entries (sid_table s))) r =
    follow_room s + rule_room (length (entries (sid_table s))) q"
proof -
  let ?es = "entries (sid_table s)"
  let ?f = "\<lambda>e. case en_u e of U_RULE r \<Rightarrow> rule_room (length ?es) r | _ \<Rightarrow> 0"
  have x: "x < length ?es" "?f (?es ! x) = rule_room (length ?es) r" using assms by (auto simp: rule_at_Some)
  have "?f (?es ! x) \<le> sum_list (map ?f ?es)" using x(1) by (intro member_le_sum_list) auto
  then show ?thesis
    using x sum_list_update[of x "map ?f ?es" "rule_room (length ?es) q"]
    unfolding follow_room_def rule_put_simps length_list_update by (simp add: map_update)
qed

lemma follow_room_same:
  assumes "sid_table t = sid_table s"
  shows "follow_room t = follow_room s"
  unfolding follow_room_def assms ..

section \<open>Covered rules\<close>

definition Fol :: "'z sid_state_scheme \<Rightarrow> nat \<Rightarrow> symbol set" where
  "Fol s x = (case rule_at s x of Some r \<Rightarrow> syms (rl_follow_set r) (rl_predicate_follow r) | None \<Rightarrow> {})"

definition started :: "'z sid_state_scheme \<Rightarrow> nat \<Rightarrow> bool" where
  "started s x = (case rule_at s x of Some r \<Rightarrow> rl_started_follows r | None \<Rightarrow> False)"

text \<open>What the context \<open>C\<close> of a body implies for the rules in it.\<close>

definition covers :: "sentry list \<Rightarrow> 'z sid_state_scheme \<Rightarrow> symbol set \<Rightarrow> ItemT list \<Rightarrow> bool" where
  "covers G s C a \<longleftrightarrow> (\<forall>pre item post. a = pre @ item # post \<longrightarrow> it_type item = ET_RULE \<longrightarrow>
     {t. items_start G post t} \<subseteq> Fol s (it_entry item) \<and> (items_nullable G post \<longrightarrow> C \<subseteq> Fol s (it_entry item)))"

definition covered :: "sentry list \<Rightarrow> 'z sid_state_scheme \<Rightarrow> nat \<Rightarrow> bool" where
  "covered G s x \<longleftrightarrow> (\<forall>a\<in>bodies_of G x. covers G s (Fol s x) a) \<and> (nullable G x \<longrightarrow> Fol s x \<inter> {t. starts G x t} = {})"

text \<open>What the computation of follow sets leaves alone.\<close>

definition alts_frame :: "RuleT \<Rightarrow> AltT list \<times> nat option" where
  "alts_frame r = (rl_alts r, rl_see_through_alt r)"

definition follow_rel :: "cuint \<Rightarrow> sentry list \<Rightarrow> nat \<Rightarrow> 'z sid_state_scheme \<Rightarrow> 'z sid_state_scheme \<Rightarrow> bool" where
  "follow_rel n G N s t \<longleftrightarrow> check_inv n G N t \<and> number_errors s \<le> number_errors t \<and> follow_room t \<le> follow_room s \<and>
     (\<forall>x. Fol s x \<subseteq> Fol t x \<and> (started s x \<longrightarrow> started t x) \<and> map_option alts_frame (rule_at t x) = map_option alts_frame (rule_at s x)) \<and>
     (number_errors t = N \<longrightarrow> (\<forall>x. Fol t x = Fol s x \<and> started t x = started s x \<or> covered G t x))"

lemma covers_Nil [simp]: "covers G s C []"
  by (simp add: covers_def)

lemma covers_Cons: "covers G s C (item # items) \<longleftrightarrow> covers G s C items \<and> (it_type item = ET_RULE \<longrightarrow>
    {t. items_start G items t} \<subseteq> Fol s (it_entry item) \<and> (items_nullable G items \<longrightarrow> C \<subseteq> Fol s (it_entry item)))"
proof
  assume c: "covers G s C (item # items)"
  have "covers G s C items" unfolding covers_def
  proof (intro allI impI)
    fix pre it post assume "items = pre @ it # post" "it_type it = ET_RULE"
    then show "{t. items_start G post t} \<subseteq> Fol s (it_entry it) \<and> (items_nullable G post \<longrightarrow> C \<subseteq> Fol s (it_entry it))"
      using c[unfolded covers_def, rule_format, of "item # pre" it post] by simp
  qed
  then show "covers G s C items \<and> (it_type item = ET_RULE \<longrightarrow>
    {t. items_start G items t} \<subseteq> Fol s (it_entry item) \<and> (items_nullable G items \<longrightarrow> C \<subseteq> Fol s (it_entry item)))"
    using c[unfolded covers_def, rule_format, of "[]" item items] by simp
next
  assume c: "covers G s C items \<and> (it_type item = ET_RULE \<longrightarrow>
    {t. items_start G items t} \<subseteq> Fol s (it_entry item) \<and> (items_nullable G items \<longrightarrow> C \<subseteq> Fol s (it_entry item)))"
  show "covers G s C (item # items)" unfolding covers_def
  proof (intro allI impI)
    fix pre it post assume "item # items = pre @ it # post" "it_type it = ET_RULE"
    then show "{t. items_start G post t} \<subseteq> Fol s (it_entry it) \<and> (items_nullable G post \<longrightarrow> C \<subseteq> Fol s (it_entry it))"
      using c by (cases pre) (auto simp: covers_def)
  qed
qed

lemma covers_mono: "(\<And>x. Fol s x \<subseteq> Fol t x) \<Longrightarrow> covers G s C a \<Longrightarrow> covers G t C a"
  by (induction a) (auto simp: covers_Cons)

lemma covered_mono: "(\<And>x. Fol s x \<subseteq> Fol t x) \<Longrightarrow> Fol t z = Fol s z \<Longrightarrow> covered G s z \<Longrightarrow> covered G t z"
  unfolding covered_def using covers_mono[of s t G] by auto

lemma follow_rel_refl: "check_inv n G N s \<Longrightarrow> follow_rel n G N s s"
  by (simp add: follow_rel_def)

lemma follow_rel_quiet: "follow_rel n G N s t \<Longrightarrow> check_inv n G N s \<Longrightarrow> number_errors t = N \<Longrightarrow> number_errors s = N"
  by (simp add: follow_rel_def check_inv_def)

lemma follow_rel_trans:
  assumes s: "check_inv n G N s" and 1: "follow_rel n G N s t" and 2: "follow_rel n G N t u"
  shows "follow_rel n G N s u"
proof -
  have "check_inv n G N t" using 1 by (simp add: follow_rel_def)
  have "Fol u x = Fol s x \<and> started u x = started s x \<or> covered G u x" if N: "number_errors u = N" for x
  proof -
    have "number_errors t = N" by (rule follow_rel_quiet[OF 2 \<open>check_inv n G N t\<close> N])
    then have "Fol t x = Fol s x \<and> started t x = started s x \<or> covered G t x"
      "Fol u x = Fol t x \<and> started u x = started t x \<or> covered G u x" "\<And>x. Fol t x \<subseteq> Fol u x"
      using 1 2 N by (auto simp: follow_rel_def)
    then show ?thesis using covered_mono[of t u x G] by auto
  qed
  then show ?thesis using 1 2 by (fastforce simp: follow_rel_def)
qed

section \<open>The items of a body\<close>

definition context_ok :: "cuint \<Rightarrow> sentry list \<Rightarrow> BitVecT \<Rightarrow> EntryListT \<Rightarrow> bool" where
  "context_ok n G c p \<longleftrightarrow> bitvec_ok (unat n) c \<and> set p \<subseteq> {..<length G}"

text \<open>What is promised of the recursive call.\<close>

definition follow_computes :: "cuint \<Rightarrow> sentry list \<Rightarrow> nat \<Rightarrow> nat \<Rightarrow> 'z follow_call \<Rightarrow> bool" where
  "follow_computes n G N k compute \<longleftrightarrow> (\<forall>y c p s. check_inv n G N s \<longrightarrow> follow_room s \<le> k \<longrightarrow> is_rule G y \<longrightarrow> context_ok n G c p \<longrightarrow>
     ends (\<lambda>_ t. follow_rel n G N s t \<and> (number_errors t = N \<longrightarrow> syms c p \<subseteq> Fol t y \<and> started t y)) (compute y c p s))"

definition follow_result :: "cuint \<Rightarrow> sentry list \<Rightarrow> nat \<Rightarrow> ItemT list \<Rightarrow> symbol set \<Rightarrow> 'z sid_state_scheme
    \<Rightarrow> BitVecT \<times> EntryListT \<Rightarrow> 'z sid_state_scheme \<Rightarrow> bool" where
  "follow_result n G N items C s = (\<lambda>(c, p) t. follow_rel n G N s t \<and> context_ok n G c p \<and>
     (number_errors t = N \<longrightarrow> {t. items_start G items t} \<subseteq> syms c p \<and> (items_nullable G items \<longrightarrow> C \<subseteq> syms c p) \<and> covers G t C items))"

lemma follow_rule_close:
  assumes s: "check_inv n G N s" and u: "follow_result n G N items C s (c, p) u" and ty: "it_type item = ET_RULE"
    and t: "follow_rel n G N u t" "number_errors t = N \<Longrightarrow> syms c p \<subseteq> Fol t (it_entry item)" and r: "rule_at t (it_entry item) = Some r"
    and c': "context_ok n G c' p'"
      "syms c' p' = syms (rl_first_set r) (rl_predicate_first r) \<union> (if rl_see_through r then syms c p else {})"
  shows "follow_result n G N (item # items) C s (c', p') t"
proof -
  have su: "follow_rel n G N s u" "check_inv n G N u" using u by (auto simp: follow_result_def follow_rel_def)
  have it: "check_inv n G N t" using t by (simp add: follow_rel_def)
  note at = check_inv_at[OF it r]
  have null: "item_nullable G item \<longleftrightarrow> rl_see_through r" using ty at(3) by (simp add: item_nullable_def)
  have "{t. items_start G (item # items) t} \<subseteq> syms c' p' \<and> (items_nullable G (item # items) \<longrightarrow> C \<subseteq> syms c' p') \<and>
    covers G t C (item # items)" if N: "number_errors t = N"
  proof -
    have "number_errors u = N" using follow_rel_quiet[OF t(1) su(2) N] .
    then have "{t. items_start G items t} \<subseteq> syms c p" "items_nullable G items \<longrightarrow> C \<subseteq> syms c p" "covers G u C items"
      using u by (auto simp: follow_result_def)
    moreover have "covers G t C items" using t(1) calculation(3) covers_mono[of u t] by (auto simp: follow_rel_def)
    moreover have "{t. item_starts G item t} = syms (rl_first_set r) (rl_predicate_first r)"
      using first_correct_syms[OF at(4)[OF N]] ty by (simp add: item_starts_def)
    ultimately show ?thesis using t(2)[OF N] null c'(2) by (auto simp: covers_Cons)
  qed
  then show ?thesis using follow_rel_trans[OF s su(1) t(1)] c'(1) by (simp add: follow_result_def)
qed

lemma follow_rule_step:
  assumes compute: "follow_computes n G N k compute" and s: "check_inv n G N s" "follow_room s \<le> k"
    and u: "follow_result n G N items C s (c, p) u" and ty: "it_type item = ET_RULE" and ok: "item_ok n G item"
  shows "ends (follow_result n G N (item # items) C s) (bind (entry_get_rule (it_entry item)) (\<lambda>_.
         bind (compute (it_entry item) c p) (\<lambda>_.
         bind (entry_get_rule (it_entry item)) (\<lambda>rule.
         bind (gets sid_bitvec) (\<lambda>ctx.
         if rl_see_through rule then
           bind (defined (bitvec_or ctx c (rl_first_set rule))) (\<lambda>context'.
           ret (context', entry_list_append p (rl_predicate_first rule)))
         else
           bind (defined (bitvec_replace ctx c (rl_first_set rule))) (\<lambda>context'.
           ret (context', entry_list_append [] (rl_predicate_first rule)))))))
      u)"
proof -
  let ?y = "it_entry item"
  have iu: "check_inv n G N u" "follow_rel n G N s u" "context_ok n G c p" "follow_room u \<le> k"
    using u s(2) by (auto simp: follow_result_def follow_rel_def)
  have y: "is_rule G ?y" using ok ty by (simp add: item_ok_def)
  have wfu: "sid_wf n G u" using iu(1) by (simp add: check_inv_def)
  obtain r0 where r0: "rule_at u ?y = Some r0" using sid_wf_rule[OF wfu] y by blast
  have call: "ends (\<lambda>_ t. follow_rel n G N u t \<and> (number_errors t = N \<longrightarrow> syms c p \<subseteq> Fol t ?y \<and> started t ?y)) (compute ?y c p u)"
    using compute iu y by (simp add: follow_computes_def)
  show ?thesis
  proof (rule ends_bind[where R = "\<lambda>_ t. t = u"], simp add: entry_get_rule_eq r0, clarify, rule ends_bind, rule call)
    fix x and t :: "'a sid_state_scheme"
    assume t: "follow_rel n G N u t \<and> (number_errors t = N \<longrightarrow> syms c p \<subseteq> Fol t ?y \<and> started t ?y)"
    have it: "check_inv n G N t" using t by (simp add: follow_rel_def)
    then have wf: "sid_wf n G t" by (simp add: check_inv_def)
    obtain r where r: "rule_at t ?y = Some r" using sid_wf_rule[OF wf] y by blast
    note at = check_inv_at[OF it r]
    have rv: "bitvec_ok (unat n) (rl_first_set r)" "set (rl_predicate_first r) \<subseteq> {..<length G}" using at(2) by (auto simp: rule_ok_def)
    have tc: "follow_rel n G N u t" "number_errors t = N \<Longrightarrow> syms c p \<subseteq> Fol t ?y" using t by auto
    note fin = follow_rule_close[OF s(1) u ty tc r]
    obtain v where v: "bitvec_or (sid_bitvec t) c (rl_first_set r) = Some v" "bitvec_ok (unat n) v"
      "bits_of v = bits_of c \<union> bits_of (rl_first_set r)" using sid_bitvec_ops(1)[OF wf _ rv(1), of c] iu(3) by (auto simp: context_ok_def)
    have rep: "bitvec_replace (sid_bitvec t) c (rl_first_set r) = Some (rl_first_set r)"
      using sid_bitvec_whole(4)[OF wf _ rv(1), of c] iu(3) by (auto simp: context_ok_def)
    show "ends (follow_result n G N (item # items) C s) (bind (entry_get_rule ?y) (\<lambda>rule.
         bind (gets sid_bitvec) (\<lambda>ctx.
         if rl_see_through rule then
           bind (defined (bitvec_or ctx c (rl_first_set rule))) (\<lambda>context'.
           ret (context', entry_list_append p (rl_predicate_first rule)))
         else
           bind (defined (bitvec_replace ctx c (rl_first_set rule))) (\<lambda>context'.
           ret (context', entry_list_append [] (rl_predicate_first rule))))) t)"
      using v rep rv iu(3) r
      by (cases "rl_see_through r") (auto simp: bind_def entry_get_rule_eq prog_simps context_ok_def syms_def intro!: fin)
  qed
qed

lemma follow_basic_step:
  assumes s: "check_inv n G N s" and u: "follow_result n G N items C s (c, p) u" and ty: "it_type item = ET_BASIC" and ok: "item_ok n G item"
  shows "ends (follow_result n G N (item # items) C s) (bind (entry_get_basic (it_entry item)) (\<lambda>basic.
         bind (gets sid_bitvec) (\<lambda>ctx.
         bind (defined (bitvec_empty ctx c)) (\<lambda>empty.
         bind (defined (bitvec_set ctx empty (bs_terminal basic))) (\<lambda>context'.
         ret (context', p))))) u)"
proof -
  have iu: "check_inv n G N u" "context_ok n G c p" using u by (auto simp: follow_result_def follow_rel_def)
  have wf: "sid_wf n G u" using iu(1) by (simp add: check_inv_def)
  let ?i = "s_terminal (G ! it_entry item)"
  have i: "unat ?i < unat n" and G: "grammar_of u = G" "is_basic G (it_entry item)"
    using ty ok wf by (auto simp: item_ok_def sid_wf_def)
  obtain b where b: "entry_get_basic (it_entry item) u = (Ret b, u)" "bs_terminal b = ?i"
    using basic_at[of u "it_entry item"] G by auto
  note whole = sid_bitvec_whole[OF wf]
  obtain v where v: "bitvec_set (sid_bitvec u) (bitvec_init (sid_bitvec u)) ?i = Some v" "bitvec_ok (unat n) v"
    "bits_of v = insert (unat ?i) {}" using sid_bitvec_ops(2)[OF wf whole(1,1) i] whole(2) by auto
  have "{t. items_start G (item # items) t} = {Term (unat ?i)}" "\<not> item_nullable G item"
    using ty by (auto simp: item_starts_def item_nullable_def)
  then have "follow_result n G N (item # items) C s (v, p) u"
    using u v ty by (auto simp: follow_result_def context_ok_def covers_Cons)
  then show ?thesis using b v whole(5) iu(2) by (simp add: bind_def prog_simps context_ok_def)
qed

lemma follow_items_ok:
  assumes compute: "follow_computes n G N k compute" and s: "check_inv n G N s" "follow_room s \<le> k" and c: "context_ok n G c p"
  shows "(\<And>item. item \<in> set items \<Longrightarrow> item_ok n G item) \<Longrightarrow>
    ends (follow_result n G N items (syms c p) s) (rule_compute_follow_set_3 compute items c p s)"
proof (induction items)
  case Nil
  then show ?case using s c by (simp add: prog_simps follow_result_def follow_rel_refl)
next
  case (Cons item items)
  have ok: "item_ok n G item" using Cons.prems by simp
  have IH: "ends (follow_result n G N items (syms c p) s) (rule_compute_follow_set_3 compute items c p s)"
    using Cons by auto
  show ?case unfolding rule_compute_follow_set_3.simps
  proof (rule ends_bind, rule IH, clarify)
    fix c' p' u assume u: "follow_result n G N items (syms c p) s (c', p') u"
    note rule = follow_rule_step[OF compute s u _ ok] and basic = follow_basic_step[OF s(1) u _ ok]
    have silent: "follow_result n G N (item # items) (syms c p) s (c', p') u" if "silent item"
      using u that by (auto simp: follow_result_def covers_Cons item_nullable_def item_starts_def)
    have predicate: "follow_result n G N (item # items) (syms c p) s (c', entry_list_add [] (it_entry item)) u"
      if "it_type item = ET_PREDICATE"
      using u that ok by (auto simp: follow_result_def covers_Cons item_nullable_def item_starts_def context_ok_def item_ok_def)
    show "ends (follow_result n G N (item # items) (syms c p) s)
      ((case it_type item of
       ET_PREDICATE \<Rightarrow> ret (c', entry_list_add [] (it_entry item))
     | ET_ACTION \<Rightarrow> ret (c', p')
     | ET_RENAME \<Rightarrow> ret (c', p')
     | ET_RULE \<Rightarrow>
         bind (entry_get_rule (it_entry item)) (\<lambda>_.
         bind (compute (it_entry item) c' p') (\<lambda>_.
         bind (entry_get_rule (it_entry item)) (\<lambda>rule.
         bind (gets sid_bitvec) (\<lambda>ctx.
         if rl_see_through rule then
           bind (defined (bitvec_or ctx c' (rl_first_set rule))) (\<lambda>context'.
           ret (context', entry_list_append p' (rl_predicate_first rule)))
         else
           bind (defined (bitvec_replace ctx c' (rl_first_set rule))) (\<lambda>context'.
           ret (context', entry_list_append [] (rl_predicate_first rule)))))))
     | ET_BASIC \<Rightarrow>
         bind (entry_get_basic (it_entry item)) (\<lambda>basic.
         bind (gets sid_bitvec) (\<lambda>ctx.
         bind (defined (bitvec_empty ctx c')) (\<lambda>empty.
         bind (defined (bitvec_set ctx empty (bs_terminal basic))) (\<lambda>context'.
         ret (context', p')))))
     | _ \<Rightarrow> raise Undefined) u)"
      using rule basic silent predicate ok by (cases "it_type item") (simp_all add: ret_def item_ok_def)
  qed
qed

section \<open>The follow set of a rule\<close>

lemma check_inv_put:
  assumes inv: "check_inv n G N s" and x: "rule_at s x = Some r"
    and q: "rl_has_empty_alt q = rl_has_empty_alt r" "map alt_items (rl_alts q) = map alt_items (rl_alts r)"
      "rl_handler q = rl_handler r" "rl_see_through q = rl_see_through r"
      "rule_ok n (length G) q" "rl_started_follows q \<or> syms (rl_follow_set q) (rl_predicate_follow q) = {}"
      "number_errors s = N \<Longrightarrow> rl_first_set q = rl_first_set r \<and> rl_predicate_first q = rl_predicate_first r"
  shows "check_inv n G N (rule_put x q s)"
proof -
  have "sid_wf n G (rule_put x q s)" using inv x q by (intro sid_wf_put[OF _ x]) (auto simp: check_inv_def)
  then show ?thesis using inv x q
    by (auto simp: check_inv_def rule_at_put[OF x] first_correct_def)
qed

lemma Fol_put:
  assumes "rule_at s x = Some r"
  shows "Fol (rule_put x q s) z = (if z = x then syms (rl_follow_set q) (rl_predicate_follow q) else Fol s z)"
    "started (rule_put x q s) z = (if z = x then rl_started_follows q else started s z)"
    "g q = g r \<Longrightarrow> map_option g (rule_at (rule_put x q s) z) = map_option g (rule_at s z)"
  by (auto simp: Fol_def started_def rule_at_put[OF assms] assms)

text \<open>Adding the context to the follow set.\<close>

definition extended :: "cuint \<Rightarrow> sentry list \<Rightarrow> nat \<Rightarrow> nat \<Rightarrow> symbol set \<Rightarrow> 'z sid_state_scheme \<Rightarrow> bool \<Rightarrow> 'z sid_state_scheme \<Rightarrow> bool" where
  "extended n G N x C s go t \<longleftrightarrow> check_inv n G N t \<and> number_errors t = number_errors s \<and>
     (\<forall>z. map_option alts_frame (rule_at t z) = map_option alts_frame (rule_at s z)) \<and>
     (\<forall>z. z \<noteq> x \<longrightarrow> Fol t z = Fol s z \<and> started t z = started s z) \<and> Fol t x = Fol s x \<union> C \<and> started t x \<and>
     (if go then follow_room t < follow_room s else follow_room t \<le> follow_room s \<and> Fol t x = Fol s x \<and> started s x)"

lemma extended_put:
  assumes inv: "check_inv n G N s" and x: "rule_at s x = Some r"
    and q: "q = r\<lparr>rl_follow_set := v, rl_predicate_follow := ps, rl_started_follows := True\<rparr>"
    and v: "bitvec_ok (unat n) v" "set ps \<subseteq> {..<length G}" "syms v ps = Fol s x \<union> C"
    and go: "go \<longleftrightarrow> \<not> (rl_started_follows r \<and> bits_of v = bits_of (rl_follow_set r) \<and> set ps = set (rl_predicate_follow r))"
  shows "extended n G N x C s go (rule_put x q s)"
proof -
  have ok: "rule_ok n (length G) r" using inv x by (auto simp: check_inv_def sid_wf_def)
  then have okq: "rule_ok n (length G) q" using v q by (simp add: rule_ok_def)
  have F: "Fol s x = syms (rl_follow_set r) (rl_predicate_follow r)" "started s x = rl_started_follows r" using x by (auto simp: Fol_def started_def)
  have sub: "bits_of (rl_follow_set r) \<subseteq> bits_of v" "set (rl_predicate_follow r) \<subseteq> set ps"
    using v(3) F(1) by (auto simp: set_eq_iff) (metis UnI1 syms_simps)+
  have l: "length (entries (sid_table s)) = length G" using inv by (auto simp: check_inv_def sid_wf_def grammar_of_def)
  have len: "length v = length (rl_follow_set r)" using ok v(1) by (simp add: rule_ok_def bitvec_ok_def)
  have "rule_room (length G) q \<le> rule_room (length G) r" "go \<Longrightarrow> rule_room (length G) q < rule_room (length G) r"
    using rule_room_mono[of q r "length G"] sub len v(2) q go by auto
  then have "follow_room (rule_put x q s) \<le> follow_room s" "go \<Longrightarrow> follow_room (rule_put x q s) < follow_room s"
    using follow_room_put[OF x, of q] l by auto
  moreover have "Fol s x \<union> C = Fol s x" if "\<not> go" using that go v(3) F by (auto simp: syms_def)
  moreover have "check_inv n G N (rule_put x q s)" using okq q by (intro check_inv_put[OF inv x]) auto
  moreover have "alts_frame q = alts_frame r" using q by (simp add: alts_frame_def)
  ultimately show ?thesis using v(3) q go F Fol_put(1,2)[OF x, of q] Fol_put(3)[OF x, where q = q and g = alts_frame] by (auto simp: extended_def)
qed

lemma follow_extend_ok:
  assumes inv: "check_inv n G N s" and x: "rule_at s x = Some r" and c: "context_ok n G c p"
  shows "ends (extended n G N x (syms c p) s) (follow_extend x c p s)"
proof -
  have wf: "sid_wf n G s" using inv by (simp add: check_inv_def)
  have ok: "rule_ok n (length G) r" using inv x by (auto simp: check_inv_def sid_wf_def)
  have F: "Fol s x = syms (rl_follow_set r) (rl_predicate_follow r)" using x by (simp add: Fol_def)
  let ?ps = "entry_list_append (rl_predicate_follow r) p"
  have ps: "set ?ps \<subseteq> {..<length G}" using ok c by (auto simp: rule_ok_def context_ok_def)
  have bv: "bitvec_ok (unat n) c" "bitvec_ok (unat n) (rl_follow_set r)" using ok c by (auto simp: rule_ok_def context_ok_def)
  show ?thesis
  proof (cases "rl_started_follows r")
    case True
    obtain v where v: "bitvec_or (sid_bitvec s) (rl_follow_set r) c = Some v" "bitvec_ok (unat n) v"
      "bits_of v = bits_of (rl_follow_set r) \<union> bits_of c" using sid_bitvec_ops(1)[OF wf bv(2,1)] by blast
    note eq = sid_bitvec_ops(5)[OF wf bv(2) v(2)]
    show ?thesis
    proof (cases "bits_of (rl_follow_set r) = bits_of v \<and> set p \<subseteq> set (rl_predicate_follow r)")
      case same: True
      have "extended n G N x (syms c p) s False (rule_put x (r\<lparr>rl_follow_set := v\<rparr>) s)"
        using True same v bv ok F
        by (intro extended_put[OF inv x, where v = v and ps = "rl_predicate_follow r"]) (auto simp: rule_ok_def syms_def)
      then show ?thesis using True same v(1) eq sid_bitvec_whole(3)[OF wf bv(2)] x
        by (simp add: follow_extend_def entry_get_rule_eq rule_set_eq bind_def prog_simps)
    next
      case False
      have "extended n G N x (syms c p) s True (rule_put x (r\<lparr>rl_follow_set := v, rl_predicate_follow := ?ps\<rparr>) s)"
        using True False v F ps
        by (intro extended_put[OF inv x, where v = v and ps = ?ps]) (auto simp: syms_def)
      then show ?thesis using True False v(1) eq sid_bitvec_whole(3)[OF wf bv(2)] x
        by (auto simp: follow_extend_def entry_get_rule_eq rule_set_eq bind_def prog_simps rule_at_put[OF x])
    qed
  next
    case False
    then have e: "syms (rl_follow_set r) (rl_predicate_follow r) = {}" using inv x by (simp add: check_inv_def)
    have "extended n G N x (syms c p) s True (rule_put x (r\<lparr>rl_follow_set := c, rl_predicate_follow := ?ps, rl_started_follows := True\<rparr>) s)"
      using False F e ps bv by (intro extended_put[OF inv x, where v = c and ps = ?ps]) (auto simp: syms_def)
    then show ?thesis using False sid_bitvec_whole(4)[OF wf bv(2,1)] x
      by (simp add: follow_extend_def entry_get_rule_eq rule_set_eq bind_def prog_simps rule_at_put[OF x])
  qed
qed

text \<open>The check changes only first sets, and those only when it reports an error.\<close>

definition cut :: "cuint \<Rightarrow> sentry list \<Rightarrow> nat \<Rightarrow> 'z sid_state_scheme \<Rightarrow> 'z sid_state_scheme \<Rightarrow> bool" where
  "cut n G N s t \<longleftrightarrow> check_inv n G N t \<and> number_errors s \<le> number_errors t \<and> follow_room t = follow_room s \<and>
     (\<forall>z. Fol t z = Fol s z \<and> started t z = started s z \<and> map_option alts_frame (rule_at t z) = map_option alts_frame (rule_at s z))"

lemma cut_refl: "check_inv n G N s \<Longrightarrow> cut n G N s s"
  by (simp add: cut_def)

lemma cut_trans: "cut n G N s t \<Longrightarrow> cut n G N t u \<Longrightarrow> cut n G N s u"
  by (auto simp: cut_def)

lemma cut_same: "same_table s t \<Longrightarrow> check_inv n G N s \<Longrightarrow> cut n G N s t"
  using same_table_inv[of s t n G N] same_table_at[of s t] follow_room_same[of t s]
  by (auto simp: cut_def same_table_def Fol_def started_def)

lemma cut_put:
  assumes "check_inv n G N s" "rule_at s x = Some r" "N < number_errors s" "rule_ok n (length G) q"
    "q = r\<lparr>rl_first_set := rl_first_set q, rl_predicate_first := rl_predicate_first q\<rparr>"
  shows "cut n G N s (rule_put x q s)"
proof -
  have f: "rl_has_empty_alt q = rl_has_empty_alt r" "rl_alts q = rl_alts r" "rl_handler q = rl_handler r" "rl_see_through q = rl_see_through r"
    "rl_follow_set q = rl_follow_set r" "rl_predicate_follow q = rl_predicate_follow r" "rl_started_follows q = rl_started_follows r"
    "alts_frame q = alts_frame r"
    by (subst assms(5), simp add: alts_frame_def)+
  have "check_inv n G N (rule_put x q s)"
    using assms(1-4) f by (intro check_inv_put[OF assms(1,2)]) (auto simp: check_inv_def)
  moreover have "follow_room (rule_put x q s) = follow_room s"
    using follow_room_put[OF assms(2), of q] f by (simp add: rule_room_def)
  moreover have "Fol s x = syms (rl_follow_set r) (rl_predicate_follow r)" "started s x = rl_started_follows r"
    using assms(2) by (auto simp: Fol_def started_def)
  ultimately show ?thesis using f Fol_put(1,2)[OF assms(2), of q] Fol_put(3)[OF assms(2), where q = q and g = alts_frame] by (auto simp: cut_def)
qed

lemma cut_report:
  assumes "check_inv n G N s" "rule_at s x \<noteq> None"
    "\<And>r. g r = r\<lparr>rl_first_set := rl_first_set (g r), rl_predicate_first := rl_predicate_first (g r)\<rparr>"
    "\<And>r. rule_ok n (length G) r \<Longrightarrow> rule_ok n (length G) (g r)"
  shows "ends (\<lambda>_ t. cut n G N s t \<and> N < number_errors t) (bind (error_msg ERR_SERIOUS) (\<lambda>_. rule_set x g) s)"
proof (rule serious_bind)
  fix u and t :: "'a sid_state_scheme"
  assume t: "same_table s t" "number_errors s < number_errors t"
  obtain r where r: "rule_at t x = Some r" using assms(2) same_table_at[OF t(1)] by auto
  have it: "check_inv n G N t" "N < number_errors t" using same_table_inv[OF t(1) assms(1)] t assms(1) by (auto simp: check_inv_def)
  then have "rule_ok n (length G) (g r)" using r assms(4) by (auto simp: check_inv_def sid_wf_def)
  then have "cut n G N t (rule_put x (g r) t)" using it r assms(3) by (intro cut_put) auto
  then show "ends (\<lambda>_ t. cut n G N s t \<and> N < number_errors t) (rule_set x g t)"
    using r it(2) cut_same[OF t(1) assms(1)] by (auto simp: rule_set_eq intro: cut_trans)
qed

lemma follow_check_ok:
  assumes inv: "check_inv n G N s" and x: "rule_at s x = Some r"
  shows "ends (\<lambda>_ t. cut n G N s t \<and> (number_errors t = N \<longrightarrow> nullable G x \<longrightarrow> Fol t x \<inter> {t. starts G x t} = {})) (follow_check x s)"
proof (cases "rl_see_through r")
  case True
  have wf: "sid_wf n G s" using inv by (simp add: check_inv_def)
  have ok: "rule_ok n (length G) r" using inv x by (auto simp: check_inv_def sid_wf_def)
  have bv: "bitvec_ok (unat n) (rl_first_set r)" "bitvec_ok (unat n) (rl_follow_set r)" using ok by (auto simp: rule_ok_def)
  have F: "Fol s x = syms (rl_follow_set r) (rl_predicate_follow r)" using x by (simp add: Fol_def)
  let ?terms = "bits_of (rl_follow_set r) \<inter> bits_of (rl_first_set r) = {}" and ?preds = "set (rl_predicate_follow r) \<inter> set (rl_predicate_first r) = {}"
  let ?l = "entry_list_intersection (rl_predicate_follow r) (rl_predicate_first r)"
  obtain v where v: "bitvec_and (sid_bitvec s) (rl_follow_set r) (rl_first_set r) = Some v" "bitvec_ok (unat n) v"
    using sid_bitvec_ops(7)[OF wf bv(2,1)] by blast
  obtain w where w: "bitvec_not (sid_bitvec s) v = Some w" "bitvec_ok (unat n) w" using sid_bitvec_ops(8)[OF wf v(2,2)] by blast
  obtain f where f: "bitvec_and (sid_bitvec s) (rl_first_set r) w = Some f" "bitvec_ok (unat n) f"
    using sid_bitvec_ops(7)[OF wf bv(1) w(2)] by blast
  define terms where "terms = (if \<not> ?terms then bind (error_msg ERR_SERIOUS) (\<lambda>_. rule_set x (\<lambda>r. r\<lparr>rl_first_set := f\<rparr>)) else ret () :: ('a sid_state_scheme, unit) prog)"
  define preds where "preds = (if ?l \<noteq> [] then bind (error_msg ERR_SERIOUS) (\<lambda>_. rule_set x (\<lambda>r. r\<lparr>rl_predicate_first := entry_list_unlink_used (rl_predicate_first r) ?l\<rparr>))
     else ret () :: ('a sid_state_scheme, unit) prog)"
  have eq: "follow_check x s = bind terms (\<lambda>_. preds) s"
    using True v(1) w(1) f(1) sid_bitvec_ops(4)[OF wf bv(2,1)] sid_bitvec_whole(3)[OF wf bv(2)]
    by (simp add: follow_check_def entry_get_rule_eq x gets_def terms_def preds_def Let_def)
  have 1: "ends (\<lambda>_ t. cut n G N s t \<and> (number_errors t = N \<longrightarrow> ?terms)) (terms s)"
    using cut_report[OF inv, of x "\<lambda>r. r\<lparr>rl_first_set := f\<rparr>"] x f(2) cut_refl[OF inv]
    by (cases ?terms) (auto simp: terms_def prog_simps rule_ok_def elim!: ends_mono)
  have 2: "ends (\<lambda>_ u. cut n G N s u \<and> (number_errors u = N \<longrightarrow> nullable G x \<longrightarrow> Fol u x \<inter> {t. starts G x t} = {})) (preds t)"
    if t: "cut n G N s t \<and> (number_errors t = N \<longrightarrow> ?terms)" for t
  proof -
    have it: "check_inv n G N t" "is_rule G x" using t sid_wf_alts(2)[OF wf x] by (auto simp: cut_def)
    have "rule_at t x \<noteq> None" using it sid_wf_rule[of n G t x] by (auto simp: check_inv_def)
    then have "ends (\<lambda>_ u. cut n G N t u \<and> N < number_errors u) (preds t)" if "?l \<noteq> []"
      using cut_report[OF it(1), of x "\<lambda>r. r\<lparr>rl_predicate_first := entry_list_unlink_used (rl_predicate_first r) ?l\<rparr>"] that
      by (auto simp: preds_def rule_ok_def)
    moreover have "Fol t x \<inter> {t. starts G x t} = {}" if "?l = []" "number_errors t = N"
    proof -
      have "number_errors s = N" using t that(2) inv by (simp add: cut_def check_inv_def)
      then have "{t. starts G x t} = syms (rl_first_set r) (rl_predicate_first r)"
        using first_correct_syms[OF check_inv_at(4)[OF inv x]] by simp
      moreover have ?preds using that(1) set_entry_list_intersection[of "rl_predicate_follow r" "rl_predicate_first r"] by simp
      ultimately show ?thesis using t that(2) F by (auto simp: cut_def syms_def)
    qed
    ultimately show ?thesis
    proof (cases "?l = []")
      case False
      show ?thesis by (rule ends_mono[OF \<open>?l \<noteq> [] \<Longrightarrow> _\<close>[OF False]]) (use t in \<open>auto elim: cut_trans\<close>)
    qed (use t in \<open>simp add: preds_def prog_simps\<close>)
  qed
  show ?thesis unfolding eq by (rule ends_bind, rule 1, rule 2)
qed (use assms in \<open>simp add: follow_check_def entry_get_rule_eq bind_def prog_simps cut_refl check_inv_def\<close>)

section \<open>The bodies of a rule\<close>

lemma follow_set_2_ok:
  assumes compute: "follow_computes n G N k compute" and s: "check_inv n G N s" "follow_room s \<le> k"
    and x: "is_rule G x" "alt_items alt \<in> bodies_of G x"
  shows "ends (\<lambda>_ t. follow_rel n G N s t \<and> (number_errors t = N \<longrightarrow> covers G t (Fol s x) (alt_items alt)))
    (rule_compute_follow_set_2 compute x alt s)"
proof -
  have wf: "sid_wf n G s" using s(1) by (simp add: check_inv_def)
  obtain r where r: "rule_at s x = Some r" using sid_wf_rule[OF wf] x(1) by blast
  have ok: "rule_ok n (length G) r" using wf r by (auto simp: sid_wf_def)
  then have c: "context_ok n G (rl_follow_set r) (rl_predicate_follow r)" by (simp add: context_ok_def rule_ok_def)
  have F: "Fol s x = syms (rl_follow_set r) (rl_predicate_follow r)" using r by (simp add: Fol_def)
  have copy: "bitvec_copy (sid_bitvec s) (rl_follow_set r) = Some (rl_follow_set r)"
    using sid_bitvec_whole(3)[OF wf] c by (simp add: context_ok_def)
  have "ends (follow_result n G N (alt_items alt) (Fol s x) s)
    (rule_compute_follow_set_3 compute (alt_items alt) (rl_follow_set r) (rl_predicate_follow r) s)"
    unfolding F by (rule follow_items_ok[OF compute s c sid_wf_item[OF wf x]])
  then have "ends (\<lambda>_ t. follow_rel n G N s t \<and> (number_errors t = N \<longrightarrow> covers G t (Fol s x) (alt_items alt)))
    (bind (rule_compute_follow_set_3 compute (alt_items alt) (rl_follow_set r) (rl_predicate_follow r)) (\<lambda>_. ret ()) s)"
    by (rule ends_bind) (auto simp: follow_result_def prog_simps)
  then show ?thesis using r copy by (simp add: rule_compute_follow_set_2_def entry_get_rule_eq gets_def)
qed

text \<open>
  The loop over the bodies of rule \<open>x\<close>, from state \<open>s\<close>: the rule is covered, by a call that came in
  between, or its follow set is still that of \<open>s\<close> and the bodies \<open>D\<close> are done.
\<close>

definition bodies_done :: "cuint \<Rightarrow> sentry list \<Rightarrow> nat \<Rightarrow> nat \<Rightarrow> 'z sid_state_scheme \<Rightarrow> ItemT list set \<Rightarrow> 'z sid_state_scheme \<Rightarrow> bool" where
  "bodies_done n G N x s D t \<longleftrightarrow> follow_rel n G N s t \<and>
     (number_errors t = N \<longrightarrow> covered G t x \<or> Fol t x = Fol s x \<and> started t x = started s x \<and> (\<forall>a\<in>D. covers G t (Fol t x) a))"

lemma bodies_step:
  assumes compute: "follow_computes n G N k compute" and s: "check_inv n G N s" "follow_room s \<le> k"
    and x: "is_rule G x" "alt_items alt \<in> bodies_of G x" and t: "bodies_done n G N x s D t"
  shows "ends (\<lambda>_. bodies_done n G N x s (insert (alt_items alt) D)) (rule_compute_follow_set_2 compute x alt t)"
proof -
  have st: "follow_rel n G N s t" "check_inv n G N t" "follow_room t \<le> k" using t s(2) by (auto simp: bodies_done_def follow_rel_def)
  show ?thesis
  proof (rule ends_mono[OF follow_set_2_ok[OF compute st(2,3) x]])
    fix r and u :: "'a sid_state_scheme"
    assume u: "follow_rel n G N t u \<and> (number_errors u = N \<longrightarrow> covers G u (Fol t x) (alt_items alt))"
    have "covered G u x \<or> Fol u x = Fol s x \<and> started u x = started s x \<and> (\<forall>a\<in>insert (alt_items alt) D. covers G u (Fol u x) a)"
      if N: "number_errors u = N"
    proof -
      have tN: "number_errors t = N" using u st(2) N follow_rel_quiet by blast
      have mono: "\<And>z. Fol t z \<subseteq> Fol u z" using u by (simp add: follow_rel_def)
      have "Fol u x = Fol t x \<and> started u x = started t x \<or> covered G u x" using u N by (simp add: follow_rel_def)
      then show ?thesis
        using t tN u N covered_mono[of t u x G] covers_mono[of t u G "Fol t x"] mono by (auto simp: bodies_done_def)
    qed
    then show "bodies_done n G N x s (insert (alt_items alt) D) u"
      using follow_rel_trans[OF s(1) st(1)] u by (simp add: bodies_done_def)
  qed
qed

lemma bodies_loop:
  assumes "follow_computes n G N k compute" "check_inv n G N s" "follow_room s \<le> k" "is_rule G x"
  shows "alt_items ` set alts \<subseteq> bodies_of G x \<Longrightarrow> bodies_done n G N x s D t \<Longrightarrow>
    ends (\<lambda>_. bodies_done n G N x s (alt_items ` set alts \<union> D)) (for_each alts (rule_compute_follow_set_2 compute x) t)"
proof (induction alts arbitrary: D t)
  case (Cons alt alts)
  have alt: "alt_items alt \<in> bodies_of G x" using Cons.prems(1) by simp
  show ?case unfolding for_each.simps
  proof (rule ends_bind, rule bodies_step[OF assms alt Cons.prems(2)])
    fix r u assume "bodies_done n G N x s (insert (alt_items alt) D) u"
    then show "ends (\<lambda>_. bodies_done n G N x s (alt_items ` set (alt # alts) \<union> D)) (for_each alts (rule_compute_follow_set_2 compute x) u)"
      using Cons.IH[of "insert (alt_items alt) D" u] Cons.prems(1) by simp
  qed
qed (simp add: prog_simps)

section \<open>The recursion\<close>

definition follow_done :: "cuint \<Rightarrow> sentry list \<Rightarrow> nat \<Rightarrow> nat \<Rightarrow> symbol set \<Rightarrow> 'z sid_state_scheme \<Rightarrow> unit \<Rightarrow> 'z sid_state_scheme \<Rightarrow> bool" where
  "follow_done n G N x C s = (\<lambda>_ t. follow_rel n G N s t \<and> (number_errors t = N \<longrightarrow> C \<subseteq> Fol t x \<and> started t x))"

text \<open>The handler and the alternatives, once the follow set has grown from \<open>s\<close> to \<open>t\<close>.\<close>

lemma follow_bodies_ok:
  assumes compute: "follow_computes n G N k compute" and s: "check_inv n G N s" "is_rule G x"
    and e: "extended n G N x C s True e" and t: "cut n G N e t" "number_errors t = N \<Longrightarrow> nullable G x \<Longrightarrow> Fol t x \<inter> {t. starts G x t} = {}"
    and r: "rule_at t x = Some r" and k: "follow_room s \<le> Suc k"
  shows "ends (follow_done n G N x C s) (bind (case rl_handler r of None \<Rightarrow> ret () | Some alt \<Rightarrow> rule_compute_follow_set_2 compute x alt) (\<lambda>_.
       for_each (rl_alts r) (rule_compute_follow_set_2 compute x)) t)"
proof -
  have it: "check_inv n G N t" "follow_room t \<le> k" using t(1) e k by (auto simp: cut_def extended_def)
  have wf: "sid_wf n G t" using it(1) by (simp add: check_inv_def)
  note alts = sid_wf_alts[OF wf r]
  let ?h = "case rl_handler r of None \<Rightarrow> [] | Some alt \<Rightarrow> [alt]"
  have eq: "bind (case rl_handler r of None \<Rightarrow> ret () | Some alt \<Rightarrow> rule_compute_follow_set_2 compute x alt) (\<lambda>_.
       for_each (rl_alts r) (rule_compute_follow_set_2 compute x)) = for_each (?h @ rl_alts r) (rule_compute_follow_set_2 compute x)"
    by (cases "rl_handler r") simp_all
  have all: "alt_items ` set (?h @ rl_alts r) = bodies_of G x" using alts(4) by (auto split: option.splits)
  have "bodies_done n G N x t {} t" using it(1) by (simp add: bodies_done_def follow_rel_refl)
  then have "ends (\<lambda>_. bodies_done n G N x t (bodies_of G x)) (for_each (?h @ rl_alts r) (rule_compute_follow_set_2 compute x) t)"
    using bodies_loop[OF compute it s(2), of "?h @ rl_alts r" "{}" t] all by simp
  then show ?thesis unfolding eq
  proof (rule ends_mono)
    fix v u assume u: "bodies_done n G N x t (bodies_of G x) u"
    then have tu: "follow_rel n G N t u" by (simp add: bodies_done_def)
    have se: "\<And>z. z \<noteq> x \<Longrightarrow> Fol t z = Fol s z \<and> started t z = started s z" "Fol t x = Fol s x \<union> C" "started t x"
      "number_errors s \<le> number_errors t" "\<And>z. map_option alts_frame (rule_at t z) = map_option alts_frame (rule_at s z)"
      "follow_room t \<le> follow_room s" using e t(1) by (auto simp: extended_def cut_def)
    have "covered G u x" if N: "number_errors u = N"
    proof -
      have "number_errors t = N" by (rule follow_rel_quiet[OF tu it(1) N])
      then show ?thesis using u N t(2) by (auto simp: bodies_done_def covered_def)
    qed
    then have "\<forall>z. Fol u z = Fol s z \<and> started u z = started s z \<or> covered G u z" if "number_errors u = N"
      using tu that se(1) unfolding follow_rel_def by metis
    moreover have "Fol s z \<subseteq> Fol u z \<and> (started s z \<longrightarrow> started u z)" for z
      using tu se(1)[of z] se(2,3) by (cases "z = x") (auto simp: follow_rel_def)
    ultimately have "follow_rel n G N s u" using tu se(4-6) by (auto simp: follow_rel_def)
    moreover have "C \<subseteq> Fol u x \<and> started u x" using tu se(2,3) by (auto simp: follow_rel_def)
    ultimately show "follow_done n G N x C s v u" by (simp add: follow_done_def)
  qed
qed

lemma follow_body_ok:
  fixes s :: "'z sid_state_scheme" and compute :: "'z follow_call"
  assumes compute: "follow_room s = 0 \<or> follow_computes n G N (follow_room s - 1) compute" and s: "check_inv n G N s" "is_rule G x"
    and c: "context_ok n G c p"
  shows "ends (follow_done n G N x (syms c p) s) (follow_body compute x c p s)"
proof -
  have wf: "sid_wf n G s" using s(1) by (simp add: check_inv_def)
  obtain r where r: "rule_at s x = Some r" using sid_wf_rule[OF wf] s(2) by blast
  show ?thesis unfolding follow_body_def
  proof (rule ends_bind, rule follow_extend_ok[OF s(1) r c])
    fix go e assume e: "extended n G N x (syms c p) s go e"
    then have ie: "check_inv n G N e" by (simp add: extended_def)
    then obtain q where q: "rule_at e x = Some q" using sid_wf_rule[of n G e x] s(2) by (auto simp: check_inv_def)
    show "ends (follow_done n G N x (syms c p) s) ((if \<not> go then ret () else bind (follow_check x) (\<lambda>_.
      bind (entry_get_rule x) (\<lambda>r.
       bind (case rl_handler r of None \<Rightarrow> ret () | Some alt \<Rightarrow> rule_compute_follow_set_2 compute x alt) (\<lambda>_.
       for_each (rl_alts r) (rule_compute_follow_set_2 compute x))))) e)"
    proof (cases go)
      case False
      have "Fol e z = Fol s z \<and> started e z = started s z" for z using e False by (cases "z = x") (auto simp: extended_def)
      then have "follow_rel n G N s e" using e False by (auto simp: follow_rel_def extended_def)
      then show ?thesis using e False by (auto simp: follow_done_def prog_simps extended_def)
    next
      case True
      then have k: "follow_room s \<le> Suc (follow_room s - 1)" "follow_room s \<noteq> 0" using e by (auto simp: extended_def)
      then have compute': "follow_computes n G N (follow_room s - 1) compute" using compute by (elim disjE) simp_all
      have "ends (follow_done n G N x (syms c p) s) (bind (follow_check x) (\<lambda>_.
        bind (entry_get_rule x) (\<lambda>r.
         bind (case rl_handler r of None \<Rightarrow> ret () | Some alt \<Rightarrow> rule_compute_follow_set_2 compute x alt) (\<lambda>_.
         for_each (rl_alts r) (rule_compute_follow_set_2 compute x)))) e)"
      proof (rule ends_bind, rule follow_check_ok[OF ie q])
        fix v and t :: "'z sid_state_scheme"
        assume t: "cut n G N e t \<and> (number_errors t = N \<longrightarrow> nullable G x \<longrightarrow> Fol t x \<inter> {t. starts G x t} = {})"
        then obtain r where r: "rule_at t x = Some r" using sid_wf_rule[of n G t x] s(2) by (auto simp: cut_def check_inv_def)
        show "ends (follow_done n G N x (syms c p) s) (bind (entry_get_rule x) (\<lambda>r.
         bind (case rl_handler r of None \<Rightarrow> ret () | Some alt \<Rightarrow> rule_compute_follow_set_2 compute x alt) (\<lambda>_.
         for_each (rl_alts r) (rule_compute_follow_set_2 compute x))) t)"
          using follow_bodies_ok[OF compute' s _ _ _ r k(1), of "syms c p" e] e t True r by (simp add: entry_get_rule_eq)
      qed
      then show ?thesis using True by simp
    qed
  qed
qed

lemma follow_computesD: "follow_computes n G N k compute \<Longrightarrow> check_inv n G N s \<Longrightarrow> follow_room s \<le> k \<Longrightarrow> is_rule G x \<Longrightarrow>
    context_ok n G c p \<Longrightarrow> ends (follow_done n G N x (syms c p) s) (compute x c p s)"
  by (simp add: follow_computes_def follow_done_def)

lemma follow_computes_mono: "follow_computes n G N k compute \<Longrightarrow> j \<le> k \<Longrightarrow> follow_computes n G N j compute"
  by (auto simp: follow_computes_def)

lemma follow_computes_bounded: "follow_computes n G N k (follow_bounded (Suc k) :: 'z follow_call)"
proof (induction k)
  case 0
  have "ends (follow_done n G N y (syms c p) s) (follow_bounded (Suc 0) y c p s)"
    if "check_inv n G N s" "follow_room s \<le> 0" "is_rule G y" "context_ok n G c p" for y c p and s :: "'z sid_state_scheme"
    using follow_body_ok[of s n G N "follow_bounded 0" y c p] that by simp
  then show ?case by (simp add: follow_computes_def follow_done_def)
next
  case (Suc k)
  have "ends (follow_done n G N y (syms c p) s) (follow_bounded (Suc (Suc k)) y c p s)"
    if "check_inv n G N s" "follow_room s \<le> Suc k" "is_rule G y" "context_ok n G c p" for y c p and s :: "'z sid_state_scheme"
  proof -
    have "follow_computes n G N (follow_room s - 1) (follow_bounded (Suc k) :: 'z follow_call)"
      using that(2) by (intro follow_computes_mono[OF Suc.IH]) simp
    then show ?thesis unfolding follow_bounded.simps(2)[of "Suc k"] by (intro follow_body_ok disjI2 that(1,3,4))
  qed
  then show ?case by (simp add: follow_computes_def follow_done_def)
qed

section \<open>The pass over the grammar\<close>

definition follow_visited :: "cuint \<Rightarrow> sentry list \<Rightarrow> nat \<Rightarrow> 'z sid_state_scheme \<Rightarrow> nat set \<Rightarrow> 'z sid_state_scheme \<Rightarrow> bool" where
  "follow_visited n G N s X t \<longleftrightarrow> follow_rel n G N s t \<and>
     (number_errors t = N \<longrightarrow> (\<forall>x. started t x \<longrightarrow> covered G t x) \<and> (\<forall>x\<in>X. is_rule G x \<longrightarrow> started t x))"

lemma rule_compute_follow_set_ok:
  assumes s: "check_inv n G N s" and t: "follow_visited n G N s X t" and x: "x < length G"
  shows "ends (\<lambda>_. follow_visited n G N s (insert x X)) (rule_compute_follow_set x t)"
proof -
  have it: "check_inv n G N t" "follow_rel n G N s t" and wf: "sid_wf n G t"
    using t by (auto simp: follow_visited_def follow_rel_def check_inv_def)
  have c: "context_ok n G (bitvec_init (sid_bitvec t)) []" using sid_bitvec_whole(1)[OF wf] by (simp add: context_ok_def)
  show ?thesis unfolding rule_compute_follow_set_def
  proof (rule on_rule_ends[OF wf x])
    fix r assume r: "rule_at t x = Some r"
    have "ends (follow_done n G N x (syms (bitvec_init (sid_bitvec t)) []) t) (rule_compute_follow_set_1 x (bitvec_init (sid_bitvec t)) [] t)"
      unfolding rule_compute_follow_set_1_def
      by (rule follow_computesD[OF follow_computes_bounded it(1) order.refl sid_wf_alts(2)[OF wf r] c])
    then have "ends (\<lambda>_. follow_visited n G N s (insert x X)) (rule_compute_follow_set_1 x (bitvec_init (sid_bitvec t)) [] t)"
    proof (rule ends_mono)
      fix v u assume u: "follow_done n G N x (syms (bitvec_init (sid_bitvec t)) []) t v u"
      then have tu: "follow_rel n G N t u" by (simp add: follow_done_def)
      have "(\<forall>z. started u z \<longrightarrow> covered G u z) \<and> (\<forall>z\<in>insert x X. is_rule G z \<longrightarrow> started u z)" if N: "number_errors u = N"
      proof -
        have tN: "number_errors t = N" by (rule follow_rel_quiet[OF tu it(1) N])
        have "covered G u z" if "started u z" for z
        proof -
          have "Fol u z = Fol t z \<and> started u z = started t z \<or> covered G u z" "\<And>z. Fol t z \<subseteq> Fol u z" using tu N by (auto simp: follow_rel_def)
          moreover have "started t z \<Longrightarrow> covered G t z" using t tN by (simp add: follow_visited_def)
          ultimately show ?thesis using that covered_mono[of t u z G] by auto
        qed
        then show ?thesis using t tN tu u N by (auto simp: follow_visited_def follow_rel_def follow_done_def)
      qed
      then show "follow_visited n G N s (insert x X) u" using follow_rel_trans[OF s it(2) tu] by (simp add: follow_visited_def)
    qed
    then show "ends (\<lambda>_. follow_visited n G N s (insert x X)) (bind (gets sid_bitvec) (\<lambda>ctx. rule_compute_follow_set_1 x (bitvec_init ctx) []) t)"
      by (simp add: gets_def bind_def)
  next
    assume "rule_at t x = None"
    then show "follow_visited n G N s (insert x X) t" using t sid_wf_rule[OF wf, of x] by (auto simp: follow_visited_def)
  qed
qed

lemma follow_sets_ok:
  assumes "check_inv n G N s" "\<And>x. \<not> started s x"
  shows "ends (\<lambda>_ t. follow_rel n G N s t \<and> (number_errors t = N \<longrightarrow> (\<forall>x. is_rule G x \<longrightarrow> covered G t x))) (table_iter rule_compute_follow_set s)"
proof -
  have "sid_wf n G s" using assms(1) by (simp add: check_inv_def)
  moreover have "follow_visited n G N s {} s" using assms(1,2) by (simp add: follow_visited_def follow_rel_refl)
  ultimately have "ends (\<lambda>_. follow_visited n G N s {..<length G}) (table_iter rule_compute_follow_set s)"
    using rule_compute_follow_set_ok[OF assms(1)] by (intro table_iter_ends[where I = "follow_visited n G N s"]) auto
  then show ?thesis by (rule ends_mono) (auto simp: follow_visited_def is_rule_def)
qed

text \<open>A covered grammar has everything in its follow sets that can follow a rule.\<close>

lemma follows_covered:
  assumes "\<And>x. is_rule G x \<Longrightarrow> covered G t x"
  shows "follows G x y \<Longrightarrow> y \<in> Fol t x"
proof (induction x y rule: follows.induct)
  case (follows_next x pre item post y)
  then have "covers G t (Fol t x) (pre @ item # post)" using assms by (auto simp: covered_def)
  then show ?case using follows_next unfolding covers_def by blast
next
  case (follows_end x pre item post y)
  then have "covers G t (Fol t x) (pre @ item # post)" using assms by (auto simp: covered_def)
  then show ?case using follows_end unfolding covers_def by blast
qed

end
