(* ===== verification/Sid_LL1.thy ===== *)
theory Sid_LL1
  imports Sid_Follow_Correct
begin

text \<open>
  The result of the checks: a grammar that passes them is LL(1), and the sets stored with its alternatives
  let the generated parser choose between them by one symbol.
\<close>

section \<open>LL(1) grammars\<close>

text \<open>The symbols by which an alternative \<open>a\<close> of rule \<open>x\<close> is chosen; the empty alternative counts as one.\<close>

definition select :: "sentry list \<Rightarrow> nat \<Rightarrow> ItemT list \<Rightarrow> symbol \<Rightarrow> bool" where
  "select G x a t \<longleftrightarrow> items_start G a t \<or> items_nullable G a \<and> follows G x t"

definition alternatives :: "sentry list \<Rightarrow> nat \<Rightarrow> ItemT list list" where
  "alternatives G x = s_alts (G ! x) @ (if s_empty (G ! x) then [[]] else [])"

definition LL1 :: "sentry list \<Rightarrow> bool" where
  "LL1 G \<longleftrightarrow> (\<forall>x. is_rule G x \<longrightarrow> sorted_wrt (\<lambda>a b. (\<forall>t. \<not> (select G x a t \<and> select G x b t)) \<and>
     \<not> (items_nullable G a \<and> items_nullable G b)) (alternatives G x))"

lemma select_apart:
  assumes x: "is_rule G x" "a \<in> alts_of G x" "b \<in> alts_of G x" and ab: "apart G a b"
    and f: "nullable G x \<Longrightarrow> F \<inter> {t. starts G x t} = {}"
  shows "({t. items_start G a t} \<union> (if items_nullable G a then F else {})) \<inter>
    ({t. items_start G b t} \<union> (if items_nullable G b then F else {})) = {}"
proof -
  have st: "items_start G c t \<Longrightarrow> c \<in> alts_of G x \<Longrightarrow> starts G x t" for c t using x(1) starts_iff by blast
  have nu: "items_nullable G c \<Longrightarrow> c \<in> alts_of G x \<Longrightarrow> nullable G x" for c using x(1) nullable_items by blast
  show ?thesis using ab f st x(2,3) nu unfolding apart_def by (auto; blast)
qed

lemma checked_LL1:
  assumes apart: "\<And>x. is_rule G x \<Longrightarrow> rule_apart G x" and covered: "\<And>x. is_rule G x \<Longrightarrow> covered G s x"
  shows "LL1 G"
  unfolding LL1_def
proof (intro allI impI)
  fix x assume x: "is_rule G x"
  have f: "nullable G x \<Longrightarrow> Fol s x \<inter> {t. starts G x t} = {}" using covered[OF x] by (simp add: covered_def)
  have sel: "select G x a t \<Longrightarrow> t \<in> {t. items_start G a t} \<union> (if items_nullable G a then Fol s x else {})" for a t
    using follows_covered[OF covered] by (auto simp: select_def)
  have ap: "sorted_wrt (apart G) (s_alts (G ! x))" "s_empty (G ! x) \<Longrightarrow> a \<in> alts_of G x \<Longrightarrow> \<not> items_nullable G a" for a
    using apart[OF x] by (auto simp: rule_apart_def)
  have "sorted_wrt (\<lambda>a b. (\<forall>t. \<not> (select G x a t \<and> select G x b t)) \<and> \<not> (items_nullable G a \<and> items_nullable G b)) (s_alts (G ! x))"
  proof (rule sorted_wrt_mono_rel[OF _ ap(1)])
    fix a b assume ab: "a \<in> set (s_alts (G ! x))" "b \<in> set (s_alts (G ! x))" "apart G a b"
    have "({t. items_start G a t} \<union> (if items_nullable G a then Fol s x else {})) \<inter>
      ({t. items_start G b t} \<union> (if items_nullable G b then Fol s x else {})) = {}"
      using ab by (intro select_apart[OF x _ _ ab(3) f]) (auto simp: alts_of_def)
    then show "(\<forall>t. \<not> (select G x a t \<and> select G x b t)) \<and> \<not> (items_nullable G a \<and> items_nullable G b)"
      using sel ab(3) unfolding apart_def by blast
  qed
  moreover have "\<not> (select G x a t \<and> select G x [] t) \<and> \<not> items_nullable G a" if e: "s_empty (G ! x)" and a: "a \<in> set (s_alts (G ! x))" for a t
  proof -
    have null: "\<not> items_nullable G a" using ap(2) e a by (simp add: alts_of_def)
    moreover have "nullable G x" using x e by (rule nullable_empty)
    moreover have "items_start G a t \<Longrightarrow> starts G x t" using x a starts_iff by (auto simp: alts_of_def)
    ultimately show ?thesis using f follows_covered[OF covered, of x t] by (auto simp: select_def)
  qed
  ultimately show "sorted_wrt (\<lambda>a b. (\<forall>t. \<not> (select G x a t \<and> select G x b t)) \<and> \<not> (items_nullable G a \<and> items_nullable G b)) (alternatives G x)"
    by (auto simp: alternatives_def sorted_wrt_append)
qed

section \<open>The see through alternatives\<close>

definition see_alt :: "sentry list \<Rightarrow> nat \<Rightarrow> RuleT \<Rightarrow> bool" where
  "see_alt G x r = (case rl_see_through_alt r of
     None \<Rightarrow> s_empty (G ! x) \<or> \<not> nullable G x
   | Some i \<Rightarrow> \<not> s_empty (G ! x) \<and> i < length (s_alts (G ! x)) \<and> items_nullable G (s_alts (G ! x) ! i))"

lemma see_through_items_eq:
  assumes "check_inv n G N s" "\<And>item. item \<in> set items \<Longrightarrow> item_ok n G item"
  shows "see_through_items items s = (Ret (items_nullable G items), s)"
  using assms(2)
proof (induction items)
  case (Cons item items)
  have wf: "sid_wf n G s" using assms(1) by (simp add: check_inv_def)
  show ?case
  proof (cases "it_type item = ET_RULE")
    case True
    then have "is_rule G (it_entry item)" using Cons.prems[of item] by (simp add: item_ok_def)
    then obtain r where "rule_at s (it_entry item) = Some r" using sid_wf_rule[OF wf] by blast
    moreover from this have "rl_see_through r \<longleftrightarrow> item_nullable G item"
      using check_inv_at(3)[OF assms(1)] True by (simp add: item_nullable_def)
    ultimately show ?thesis using Cons True by (simp add: entry_get_rule_eq prog_simps bind_def)
  next
    case False
    then show ?thesis using Cons by (auto simp: item_nullable_def prog_simps)
  qed
qed (simp add: prog_simps)

lemma see_through_loop_eq:
  assumes "check_inv n G N s" "rule_at s x = Some r"
  shows "(\<And>alt item. alt \<in> set alts \<Longrightarrow> item \<in> set (alt_items alt) \<Longrightarrow> item_ok n G item) \<Longrightarrow>
    (\<exists>j<length alts. items_nullable G (alt_items (alts ! j)) \<and>
      see_through_loop x alts i s = (Ret (), rule_put x (r\<lparr>rl_see_through_alt := Some (i + j)\<rparr>) s)) \<or>
    (\<forall>alt\<in>set alts. \<not> items_nullable G (alt_items alt)) \<and> see_through_loop x alts i s = (Ret (), s)"
proof (induction alts arbitrary: i)
  case (Cons alt alts)
  have items: "see_through_items (alt_items alt) s = (Ret (items_nullable G (alt_items alt)), s)"
    using see_through_items_eq[OF assms(1)] Cons.prems by auto
  show ?case
  proof (cases "items_nullable G (alt_items alt)")
    case True
    then show ?thesis using items assms(2) by (intro disjI1 exI[of _ 0]) (simp add: bind_def rule_set_eq)
  next
    case False
    then have eq: "see_through_loop x (alt # alts) i s = see_through_loop x alts (Suc i) s" using items by (simp add: bind_def)
    have "(\<exists>j<length alts. items_nullable G (alt_items (alts ! j)) \<and>
      see_through_loop x alts (Suc i) s = (Ret (), rule_put x (r\<lparr>rl_see_through_alt := Some (Suc i + j)\<rparr>) s)) \<or>
      (\<forall>alt\<in>set alts. \<not> items_nullable G (alt_items alt)) \<and> see_through_loop x alts (Suc i) s = (Ret (), s)"
      by (rule Cons.IH) (rule Cons.prems, auto)
    then show ?thesis
    proof (elim disjE exE conjE)
      fix j assume "j < length alts" "items_nullable G (alt_items (alts ! j))"
        "see_through_loop x alts (Suc i) s = (Ret (), rule_put x (r\<lparr>rl_see_through_alt := Some (Suc i + j)\<rparr>) s)"
      then show ?thesis unfolding eq by (intro disjI1 exI[of _ "Suc j"]) simp
    qed (use False eq in \<open>auto simp del: see_through_loop.simps\<close>)
  qed
qed (simp add: prog_simps)

text \<open>Later passes leave the follow sets alone and report nothing.\<close>

definition settled :: "cuint \<Rightarrow> sentry list \<Rightarrow> nat \<Rightarrow> 'z sid_state_scheme \<Rightarrow> 'z sid_state_scheme \<Rightarrow> bool" where
  "settled n G N s t \<longleftrightarrow> check_inv n G N t \<and> number_errors t = number_errors s \<and> (\<forall>z. Fol t z = Fol s z)"

lemma settled_put:
  assumes st: "settled n G N s t" and x: "rule_at t x = Some r" and q: "rule_ok n (length G) q" "map alt_items (rl_alts q) = map alt_items (rl_alts r)"
    "q = r\<lparr>rl_see_through_alt := rl_see_through_alt q, rl_alts := rl_alts q\<rparr>"
  shows "settled n G N s (rule_put x q t)"
proof -
  have f: "rl_has_empty_alt q = rl_has_empty_alt r" "rl_handler q = rl_handler r" "rl_see_through q = rl_see_through r"
    "rl_follow_set q = rl_follow_set r" "rl_predicate_follow q = rl_predicate_follow r" "rl_started_follows q = rl_started_follows r"
    "rl_first_set q = rl_first_set r" "rl_predicate_first q = rl_predicate_first r"
    by (subst q(3), simp)+
  have it: "check_inv n G N t" using st by (simp add: settled_def)
  have "rl_started_follows r \<or> syms (rl_follow_set r) (rl_predicate_follow r) = {}" using it x by (auto simp: check_inv_def)
  then have "check_inv n G N (rule_put x q t)" using f q(1,2) by (intro check_inv_put[OF it x]) auto
  moreover have "Fol t x = syms (rl_follow_set r) (rl_predicate_follow r)" using x by (simp add: Fol_def)
  ultimately show ?thesis using st f Fol_put(1)[OF x, of q] by (simp add: settled_def)
qed

definition see_visited :: "cuint \<Rightarrow> sentry list \<Rightarrow> nat \<Rightarrow> 'z sid_state_scheme \<Rightarrow> nat set \<Rightarrow> 'z sid_state_scheme \<Rightarrow> bool" where
  "see_visited n G N s X t \<longleftrightarrow> settled n G N s t \<and> (\<forall>z. map_option rl_alts (rule_at t z) = map_option rl_alts (rule_at s z)) \<and>
     (\<forall>x r. rule_at t x = Some r \<longrightarrow> (if x \<in> X then see_alt G x r else rl_see_through_alt r = None))"

lemma rule_compute_see_through_alt_ok:
  assumes t: "see_visited n G N s X t" and x: "x < length G"
  shows "ends (\<lambda>_. see_visited n G N s (insert x X)) (rule_compute_see_through_alt x t)"
proof -
  have st: "settled n G N s t" and it: "check_inv n G N t" and wf: "sid_wf n G t"
    using t by (auto simp: see_visited_def settled_def check_inv_def)
  show ?thesis unfolding rule_compute_see_through_alt_def
  proof (rule on_rule_ends[OF wf x])
    fix r assume r: "rule_at t x = Some r"
    note alts = sid_wf_alts[OF wf r]
    have ok: "rule_ok n (length G) r" using wf r by (auto simp: sid_wf_def)
    have stay: "see_visited n G N s (insert x X) t" if "s_empty (G ! x) \<or> \<not> nullable G x"
    proof -
      have "if x \<in> X then see_alt G x r else rl_see_through_alt r = None" using t r by (auto simp: see_visited_def)
      then have "see_alt G x r" using that by (cases "x \<in> X") (simp_all add: see_alt_def)
      then show ?thesis using t r by (auto simp: see_visited_def)
    qed
    have "ends (\<lambda>_. see_visited n G N s (insert x X)) (see_through_loop x (rl_alts r) 0 t)" if e: "\<not> rl_has_empty_alt r"
    proof -
      have items: "\<And>alt item. alt \<in> set (rl_alts r) \<Longrightarrow> item \<in> set (alt_items alt) \<Longrightarrow> item_ok n G item"
        using sid_wf_item[OF wf alts(2)] alts(4) by blast
      consider j where "j < length (rl_alts r)" "items_nullable G (alt_items (rl_alts r ! j))"
          "see_through_loop x (rl_alts r) 0 t = (Ret (), rule_put x (r\<lparr>rl_see_through_alt := Some j\<rparr>) t)"
        | "\<forall>alt\<in>set (rl_alts r). \<not> items_nullable G (alt_items alt)" "see_through_loop x (rl_alts r) 0 t = (Ret (), t)"
        using see_through_loop_eq[OF it r, of "rl_alts r" 0] items by auto
      then show ?thesis
      proof cases
        case 1
        let ?q = "r\<lparr>rl_see_through_alt := Some j\<rparr>"
        have "settled n G N s (rule_put x ?q t)" using ok by (intro settled_put[OF st r]) (auto simp: rule_ok_def)
        moreover have "see_alt G x ?q" using 1 e alts(1) by (simp add: see_alt_def)
        ultimately show ?thesis using 1(3) t r Fol_put(3)[OF r, where q = ?q and g = rl_alts]
          by (auto simp: see_visited_def rule_at_put[OF r] split: if_splits)
      next
        case 2
        then have "\<not> nullable G x" using e alts(1,3) nullable_iff[of G x] by auto
        then show ?thesis using stay 2 by simp
      qed
    qed
    then show "ends (\<lambda>_. see_visited n G N s (insert x X)) (rule_compute_see_through_alt_1 x t)"
      using r stay alts(1) by (simp add: rule_compute_see_through_alt_1_def entry_get_rule_eq bind_def prog_simps)
  next
    assume "rule_at t x = None"
    then show "see_visited n G N s (insert x X) t" using t by (auto simp: see_visited_def)
  qed
qed

lemma see_through_alts_ok:
  assumes "check_inv n G N s" "\<And>x r. rule_at s x = Some r \<Longrightarrow> rl_see_through_alt r = None"
  shows "ends (\<lambda>_. see_visited n G N s {..<length G}) (table_iter rule_compute_see_through_alt s)"
proof (rule table_iter_ends[where I = "see_visited n G N s"])
  show "sid_wf n G s" using assms(1) by (simp add: check_inv_def)
  show "see_visited n G N s {} s" using assms by (auto simp: see_visited_def settled_def)
qed (rule rule_compute_see_through_alt_ok)

section \<open>The first sets of the alternatives\<close>

definition alt_items_result :: "cuint \<Rightarrow> sentry list \<Rightarrow> nat \<Rightarrow> ItemT list \<Rightarrow> BitVecT \<Rightarrow> 'z sid_state_scheme \<Rightarrow> bool \<times> BitVecT \<Rightarrow> 'z sid_state_scheme \<Rightarrow> bool" where
  "alt_items_result n G N items v s = (\<lambda>(see, w) t. t = s \<and> bitvec_ok (unat n) w \<and> (see \<longleftrightarrow> items_nullable G items) \<and>
     (number_errors s = N \<longrightarrow> bits_of w = bits_of v \<union> {i. items_start G items (Term i)}))"

lemma alt_first_items_ok:
  assumes s: "check_inv n G N s" and p: "predicates_initial G" "is_rule G x"
  shows "pre @ items \<in> alts_of G x \<Longrightarrow> items_nullable G pre \<Longrightarrow> initial = (pre = []) \<Longrightarrow> bitvec_ok (unat n) v \<Longrightarrow>
    ends (alt_items_result n G N items v s) (alt_first_items initial items v s)"
proof (induction items arbitrary: pre initial v)
  case Nil
  then show ?case by (simp add: prog_simps alt_items_result_def)
next
  case (Cons item items)
  have wf: "sid_wf n G s" using s by (simp add: check_inv_def)
  have ok: "item_ok n G item" using Cons.prems(1) p(2) by (intro sid_wf_item[OF wf p(2)]) (auto simp: bodies_of_def)
  have IH: "ends (alt_items_result n G N items w s) (alt_first_items False items w s)" if "bitvec_ok (unat n) w" "item_nullable G item" for w
    using that Cons.prems by (intro Cons.IH[of "pre @ [item]"]) auto
  show ?case
  proof (cases "it_type item")
    case ET_RULE
    then obtain r where r: "rule_at s (it_entry item) = Some r" using ok sid_wf_rule[OF wf] by (auto simp: item_ok_def)
    note at = check_inv_at[OF s r]
    have null: "item_nullable G item \<longleftrightarrow> rl_see_through r" using ET_RULE at(3) by (simp add: item_nullable_def)
    have st: "number_errors s = N \<Longrightarrow> {i. item_starts G item (Term i)} = bits_of (rl_first_set r)"
      using at(4) ET_RULE by (auto simp: item_starts_def first_correct_def)
    obtain w where w: "bitvec_or (sid_bitvec s) v (rl_first_set r) = Some w" "bitvec_ok (unat n) w" "bits_of w = bits_of v \<union> bits_of (rl_first_set r)"
      using sid_bitvec_ops(1)[OF wf Cons.prems(4)] at(2) by (meson rule_ok_def)
    show ?thesis
    proof (cases "rl_see_through r")
      case True
      have "ends (alt_items_result n G N (item # items) v s) (alt_first_items False items w s)"
        using IH[OF w(2)] True null st w(3) by (auto elim!: ends_mono simp: alt_items_result_def)
      then show ?thesis using ET_RULE True r w(1) by (simp add: entry_get_rule_eq gets_def)
    next
      case False
      then show ?thesis using ET_RULE r w null st by (auto simp: entry_get_rule_eq prog_simps alt_items_result_def bind_def)
    qed
  next
    case ET_BASIC
    let ?i = "s_terminal (G ! it_entry item)"
    have i: "unat ?i < unat n" and G: "grammar_of s = G" "is_basic G (it_entry item)" using ET_BASIC ok wf by (auto simp: item_ok_def sid_wf_def)
    obtain b where b: "entry_get_basic (it_entry item) s = (Ret b, s)" "bs_terminal b = ?i" using basic_at[of s "it_entry item"] G by auto
    obtain w where w: "bitvec_set (sid_bitvec s) v ?i = Some w" "bitvec_ok (unat n) w" "bits_of w = insert (unat ?i) (bits_of v)"
      using sid_bitvec_ops(2)[OF wf Cons.prems(4,4) i] by blast
    show ?thesis using ET_BASIC b w by (auto simp: bind_def prog_simps alt_items_result_def item_starts_def item_nullable_def)
  next
    case ET_PREDICATE
    then have initial using p Cons.prems unfolding predicates_initial_def by blast
    then show ?thesis using ET_PREDICATE Cons.prems(4) by (auto simp: bind_def prog_simps alt_items_result_def item_starts_def item_nullable_def)
  qed (use ok IH Cons.prems(4) in \<open>auto simp: item_ok_def alt_items_result_def item_nullable_def item_starts_def\<close>)
qed

text \<open>The set of an alternative, for the follow set \<open>F\<close> of its rule.\<close>

definition alt_symbols :: "sentry list \<Rightarrow> nat set \<Rightarrow> ItemT list \<Rightarrow> nat set" where
  "alt_symbols G F a = {i. items_start G a (Term i)} \<union> (if items_nullable G a then F else {})"

lemma alt_first_step_ok:
  assumes s: "check_inv n G N s" and p: "predicates_initial G" and r: "rule_at s x = Some r"
    and alt: "alt_items alt \<in> alts_of G x" "bitvec_ok (unat n) (alt_first_set alt)"
  shows "ends (\<lambda>q t. t = s \<and> alt_items q = alt_items alt \<and> bitvec_ok (unat n) (alt_first_set q) \<and>
    (number_errors s = N \<longrightarrow> bits_of (alt_first_set q) = bits_of (alt_first_set alt) \<union> alt_symbols G (bits_of (rl_follow_set r)) (alt_items alt)))
    (alt_first_step x alt s)"
proof -
  have wf: "sid_wf n G s" using s by (simp add: check_inv_def)
  have f: "bitvec_ok (unat n) (rl_follow_set r)" using wf r by (auto simp: sid_wf_def rule_ok_def)
  have items: "ends (alt_items_result n G N (alt_items alt) (alt_first_set alt) s) (alt_first_items True (alt_items alt) (alt_first_set alt) s)"
    using alt sid_wf_alts(2)[OF wf r] by (intro alt_first_items_ok[OF s p, where pre = "[]"]) auto
  show ?thesis unfolding alt_first_step_def
  proof (rule ends_bind, rule items, clarify)
    fix see v t assume t: "alt_items_result n G N (alt_items alt) (alt_first_set alt) s (see, v) t"
    then have v: "t = s" "bitvec_ok (unat n) v" "see \<longleftrightarrow> items_nullable G (alt_items alt)"
      "number_errors s = N \<longrightarrow> bits_of v = bits_of (alt_first_set alt) \<union> {i. items_start G (alt_items alt) (Term i)}"
      by (auto simp: alt_items_result_def)
    obtain w where w: "bitvec_or (sid_bitvec s) v (rl_follow_set r) = Some w" "bitvec_ok (unat n) w" "bits_of w = bits_of v \<union> bits_of (rl_follow_set r)"
      using sid_bitvec_ops(1)[OF wf v(2) f] by blast
    show "ends (\<lambda>q t. t = s \<and> alt_items q = alt_items alt \<and> bitvec_ok (unat n) (alt_first_set q) \<and>
      (number_errors s = N \<longrightarrow> bits_of (alt_first_set q) = bits_of (alt_first_set alt) \<union> alt_symbols G (bits_of (rl_follow_set r)) (alt_items alt)))
      (bind (gets sid_bitvec) (\<lambda>ctx. bind (entry_get_rule x) (\<lambda>r.
       bind (if see then defined (bitvec_or ctx v (rl_follow_set r)) else ret v) (\<lambda>alt_firsts'.
       ret (alt\<lparr>alt_first_set := alt_firsts'\<rparr>)))) t)"
      using v w r by (cases see) (auto simp: bind_def prog_simps entry_get_rule_eq alt_symbols_def)
  qed
qed

lemma collect_ends:
  assumes "\<And>x. x \<in> set xs \<Longrightarrow> ends (\<lambda>y t. t = s \<and> R x y) (f x s)"
  shows "ends (\<lambda>ys t. t = s \<and> list_all2 R xs ys) (collect xs f s)"
  using assms
proof (induction xs)
  case (Cons x xs)
  have IH: "ends (\<lambda>ys t. t = s \<and> list_all2 R xs ys) (collect xs f s)" using Cons by auto
  have x: "ends (\<lambda>y t. t = s \<and> R x y) (f x s)" using Cons.prems by simp
  show ?case unfolding collect.simps
  proof (rule ends_bind, rule x, clarify, rule ends_bind, rule IH, clarify)
    fix y ys assume "R x y" "list_all2 R xs ys"
    then show "ends (\<lambda>ys t. t = s \<and> list_all2 R (x # xs) ys) (ret (y # ys) s)" by (simp add: prog_simps)
  qed
qed (simp add: prog_simps)

definition alts_visited :: "cuint \<Rightarrow> sentry list \<Rightarrow> nat \<Rightarrow> 'z sid_state_scheme \<Rightarrow> nat set \<Rightarrow> 'z sid_state_scheme \<Rightarrow> bool" where
  "alts_visited n G N s X t \<longleftrightarrow> settled n G N s t \<and> (\<forall>x r. rule_at t x = Some r \<longrightarrow> see_alt G x r \<and> (number_errors s = N \<longrightarrow>
     (\<forall>alt\<in>set (rl_alts r). bits_of (alt_first_set alt) = (if x \<in> X then alt_symbols G (bits_of (rl_follow_set r)) (alt_items alt) else {}))))"

lemma rule_compute_alt_first_sets_ok:
  assumes p: "predicates_initial G" and t: "alts_visited n G N s X t" and x: "x < length G"
  shows "ends (\<lambda>_. alts_visited n G N s (insert x X)) (rule_compute_alt_first_sets x t)"
proof -
  have st: "settled n G N s t" and it: "check_inv n G N t" and wf: "sid_wf n G t" and e: "number_errors t = number_errors s"
    using t by (auto simp: alts_visited_def settled_def check_inv_def)
  show ?thesis unfolding rule_compute_alt_first_sets_def
  proof (rule on_rule_ends[OF wf x])
    fix r assume r: "rule_at t x = Some r"
    note alts = sid_wf_alts[OF wf r]
    have ok: "rule_ok n (length G) r" using wf r by (auto simp: sid_wf_def)
    define R where "R = (\<lambda>(alt :: AltT) (q :: AltT). alt_items q = alt_items alt \<and> bitvec_ok (unat n) (alt_first_set q) \<and> (number_errors t = N \<longrightarrow>
      bits_of (alt_first_set q) = bits_of (alt_first_set alt) \<union> alt_symbols G (bits_of (rl_follow_set r)) (alt_items alt)))"
    have "ends (\<lambda>q u. u = t \<and> R alt q) (alt_first_step x alt t)" if "alt \<in> set (rl_alts r)" for alt
      unfolding R_def using that alts(3) ok by (intro alt_first_step_ok[OF it p r]) (auto simp: rule_ok_def)
    then have step: "ends (\<lambda>as u. u = t \<and> list_all2 R (rl_alts r) as) (collect (rl_alts r) (alt_first_step x) t)" by (rule collect_ends)
    have "ends (\<lambda>_. alts_visited n G N s (insert x X)) (bind (collect (rl_alts r) (alt_first_step x)) (\<lambda>alts. rule_set x (\<lambda>r. r\<lparr>rl_alts := alts\<rparr>)) t)"
    proof (rule ends_bind, rule step, clarify)
      fix as assume as: "list_all2 R (rl_alts r) as"
      let ?q = "r\<lparr>rl_alts := as\<rparr>"
      have map: "map alt_items as = map alt_items (rl_alts r)"
        using as by (induction rule: list_all2_induct) (auto simp: R_def)
      have each: "\<exists>alt\<in>set (rl_alts r). R alt q" if "q \<in> set as" for q
        using as that by (metis in_set_conv_nth list_all2_conv_all_nth)
      have "settled n G N s (rule_put x ?q t)" using ok each map by (intro settled_put[OF st r]) (auto simp: rule_ok_def R_def)
      moreover have "see_alt G x ?q" using t r by (simp add: alts_visited_def see_alt_def)
      moreover have "bits_of (alt_first_set q) = alt_symbols G (bits_of (rl_follow_set r)) (alt_items q)" if "q \<in> set as" "number_errors s = N" for q
        using each[OF that(1)] that(2) t r e by (fastforce simp: alts_visited_def R_def split: if_splits)
      ultimately have "alts_visited n G N s (insert x X) (rule_put x ?q t)"
        using t by (auto simp: alts_visited_def rule_at_put[OF r] split: if_splits)
      then show "ends (\<lambda>_. alts_visited n G N s (insert x X)) (rule_set x (\<lambda>r. r\<lparr>rl_alts := as\<rparr>) t)" using r by (simp add: rule_set_eq)
    qed
    then show "ends (\<lambda>_. alts_visited n G N s (insert x X)) (rule_compute_alt_first_sets_1 x t)"
      using r by (simp add: rule_compute_alt_first_sets_1_def entry_get_rule_eq)
  next
    assume "rule_at t x = None"
    then show "alts_visited n G N s (insert x X) t" using t by (auto simp: alts_visited_def split: if_splits)
  qed
qed

section \<open>The checks as a whole\<close>

text \<open>What the computation of first sets gives to the checks.\<close>

lemma predicates_initial_closed:
  assumes "closed_grammar n G s"
  shows "predicates_initial G"
  unfolding predicates_initial_def
proof (intro allI impI)
  fix x pre item post
  assume h: "is_rule G x" "pre @ item # post \<in> alts_of G x" "items_nullable G pre" "it_type item = ET_PREDICATE"
  obtain r where r: "rule_at s x = Some r" using sid_wf_rule[OF closed_grammarD(1)[OF assms]] h(1) by blast
  have "closed_items s r (rl_see_through r) (pre = []) (item # post)" by (rule reach[OF assms r h(2,3)])
  then show "pre = []" using h(4) by simp
qed

definition unfollowed :: "RuleT \<Rightarrow> bool" where
  "unfollowed r \<longleftrightarrow> bits_of (rl_follow_set r) = {} \<and> rl_predicate_follow r = [] \<and> \<not> rl_started_follows r \<and>
     rl_see_through_alt r = None \<and> (\<forall>alt\<in>set (rl_alts r). bits_of (alt_first_set alt) = {})"

lemma unfollowed_le: "rule_le r q \<Longrightarrow> unfollowed r \<Longrightarrow> unfollowed q"
  by (simp add: rule_le_def rule_frame_def unfollowed_def)

lemma check_inv_start:
  assumes t: "first_inv n G N t" "grows s t" "number_errors t = N" "\<And>x c. rule_at t x = Some c \<Longrightarrow> rl_computed_first_set c"
    and s: "sid_wf n G s" "\<And>x r. rule_at s x = Some r \<Longrightarrow> unfollowed r"
  shows "check_inv n G N t" "predicates_initial G" "rule_at t x = Some r \<Longrightarrow> unfollowed r"
proof -
  have wf: "sid_wf n G t" using t(1) by (simp add: first_inv_def)
  have un: "unfollowed r" if r: "rule_at t x = Some r" for x r
  proof -
    obtain q where q: "rule_at s x = Some q" using sid_wf_rule[OF s(1)] sid_wf_alts(2)[OF wf r] by blast
    then show ?thesis using unfollowed_le[OF _ s(2)[OF q]] grows_at[OF t(2) q] r by auto
  qed
  have correct: "\<And>x r. rule_at t x = Some r \<Longrightarrow> first_correct G x r" using computed_correct[OF t(1,3,4)] .
  show "check_inv n G N t"
    using wf t(1) correct un by (auto simp: check_inv_def first_inv_def first_correct_def unfollowed_def syms_def)
  have "closed_grammar n G t" using t(1,3,4) by (auto simp: closed_grammar_def first_inv_def)
  then show "predicates_initial G" by (rule predicates_initial_closed)
  show "rule_at t x = Some r \<Longrightarrow> unfollowed r" by (rule un)
qed

definition checked :: "sentry list \<Rightarrow> 'z sid_state_scheme \<Rightarrow> bool" where
  "checked G t \<longleftrightarrow> (\<forall>x. is_rule G x \<longrightarrow> rule_apart G x \<and> covered G t x)"

lemma alts_sorted:
  assumes wf: "sid_wf n G t" and r: "rule_at t x = Some r" and c: "checked G t"
    and bits: "\<And>alt. alt \<in> set (rl_alts r) \<Longrightarrow> bits_of (alt_first_set alt) = alt_symbols G (bits_of (rl_follow_set r)) (alt_items alt)"
  shows "sorted_wrt (\<lambda>a b. bits_of (alt_first_set a) \<inter> bits_of (alt_first_set b) = {}) (rl_alts r)"
proof -
  note alts = sid_wf_alts[OF wf r]
  have F: "Term ` bits_of (rl_follow_set r) \<subseteq> Fol t x" using r by (auto simp: Fol_def syms_def)
  have f: "nullable G x \<Longrightarrow> Fol t x \<inter> {t. starts G x t} = {}" and ap: "sorted_wrt (apart G) (map alt_items (rl_alts r))"
    using c alts(1,2) by (auto simp: checked_def covered_def rule_apart_def)
  have in_sel: "Term i \<in> {t. items_start G a t} \<union> (if items_nullable G a then Fol t x else {})"
    if "i \<in> alt_symbols G (bits_of (rl_follow_set r)) a" for i a
    using that F by (auto simp: alt_symbols_def split: if_splits)
  have "sorted_wrt (\<lambda>a b. apart G (alt_items a) (alt_items b)) (rl_alts r)" using ap by (simp add: sorted_wrt_map)
  then show ?thesis
  proof (rule sorted_wrt_mono_rel[rotated])
    fix a b assume ab: "a \<in> set (rl_alts r)" "b \<in> set (rl_alts r)" "apart G (alt_items a) (alt_items b)"
    have "({t. items_start G (alt_items a) t} \<union> (if items_nullable G (alt_items a) then Fol t x else {})) \<inter>
      ({t. items_start G (alt_items b) t} \<union> (if items_nullable G (alt_items b) then Fol t x else {})) = {}"
      using ab alts(2,3) by (intro select_apart[OF _ _ _ ab(3) f]) auto
    then show "bits_of (alt_first_set a) \<inter> bits_of (alt_first_set b) = {}"
      using bits[OF ab(1)] bits[OF ab(2)] in_sel by blast
  qed
qed

definition passed :: "cuint \<Rightarrow> sentry list \<Rightarrow> nat \<Rightarrow> 'z sid_state_scheme \<Rightarrow> bool" where
  "passed n G N u \<longleftrightarrow> sid_wf n G u \<and> (number_errors u = N \<longrightarrow> checked G u \<and> (\<forall>x r. rule_at u x = Some r \<longrightarrow> see_alt G x r \<and>
     (\<forall>alt\<in>set (rl_alts r). bits_of (alt_first_set alt) = alt_symbols G (bits_of (rl_follow_set r)) (alt_items alt))))"

text \<open>The last two passes, after the follow sets.\<close>

lemma last_passes_ok:
  assumes p: "predicates_initial G" and s: "check_inv n G N s" "number_errors s = N \<Longrightarrow> checked G s"
    and un: "\<And>x r. rule_at s x = Some r \<Longrightarrow> rl_see_through_alt r = None \<and> (\<forall>alt\<in>set (rl_alts r). bits_of (alt_first_set alt) = {})"
  shows "ends (\<lambda>_. passed n G N) (bind (table_iter rule_compute_see_through_alt) (\<lambda>_. table_iter rule_compute_alt_first_sets) s)"
proof -
  have see: "ends (\<lambda>_. see_visited n G N s {..<length G}) (table_iter rule_compute_see_through_alt s)"
    using s(1) un by (intro see_through_alts_ok) auto
  show ?thesis
  proof (rule ends_bind, rule see)
    fix v t assume t: "see_visited n G N s {..<length G} t"
    then have it: "check_inv n G N t" "number_errors t = number_errors s" "\<And>z. Fol t z = Fol s z"
      "\<And>z. map_option rl_alts (rule_at t z) = map_option rl_alts (rule_at s z)" and wf: "sid_wf n G t"
      by (auto simp: see_visited_def settled_def check_inv_def)
    have at: "see_alt G x r \<and> (\<forall>alt\<in>set (rl_alts r). bits_of (alt_first_set alt) = {})" if r: "rule_at t x = Some r" for x r
    proof -
      have "x < length G" using sid_wf_alts(2)[OF wf r] by (simp add: is_rule_def)
      moreover obtain q where "rule_at s x = Some q" "rl_alts q = rl_alts r" using it(4)[of x] r by (cases "rule_at s x") auto
      ultimately show ?thesis using t r un[of x q] by (auto simp: see_visited_def split: if_splits)
    qed
    have "ends (\<lambda>_. alts_visited n G N t {..<length G}) (table_iter rule_compute_alt_first_sets t)"
    proof (rule table_iter_ends[OF wf, where I = "alts_visited n G N t"])
      show "alts_visited n G N t {} t" using it(1) at by (auto simp: alts_visited_def settled_def)
    qed (rule rule_compute_alt_first_sets_ok[OF p])
    then show "ends (\<lambda>_. passed n G N) (table_iter rule_compute_alt_first_sets t)"
    proof (rule ends_mono)
      fix v u assume u: "alts_visited n G N t {..<length G} u"
      then have wfu: "sid_wf n G u" and eu: "number_errors u = number_errors s" "\<And>z. Fol u z = Fol s z"
        using it(2,3) by (auto simp: alts_visited_def settled_def check_inv_def)
      have "checked G u" if "number_errors u = N"
        using s(2) that eu covered_mono[of s u _ G] by (auto simp: checked_def)
      moreover have "x < length G" if "rule_at u x = Some r" for x r using sid_wf_alts(2)[OF wfu that] by (simp add: is_rule_def)
      ultimately show "passed n G N u" using wfu u eu(1) it(2) by (auto simp: passed_def alts_visited_def)
    qed
  qed
qed

lemma check_collisions_ok:
  assumes p: "predicates_initial G" and s: "check_inv n G N s" "number_errors s = N"
    and un: "\<And>x r. rule_at s x = Some r \<Longrightarrow> unfollowed r"
  shows "ends_unless (predicate_clash G) (\<lambda>_ u. \<not> predicate_clash G \<and> passed n G N u) (grammar_check_collisions s)"
  unfolding grammar_check_collisions_def
proof (rule ends_bind, rule check_first_sets_ok[OF p s(1)])
  show "predicates_right G s" using s by (auto simp: predicates_right_def check_inv_def first_correct_def)
next
  fix v and t :: "'a sid_state_scheme"
  assume t: "same_table s t \<and> \<not> predicate_clash G \<and> (number_errors t = N \<longrightarrow> (\<forall>x<length G. is_rule G x \<longrightarrow> rule_apart G x))"
  then have it: "check_inv n G N t" and at: "rule_at t = rule_at s" using s(1) same_table_inv same_table_at by auto
  have ns: "\<not> started t x" for x using at un by (auto simp: started_def unfollowed_def split: option.splits)
  have "ends (\<lambda>_. passed n G N) (bind (table_iter rule_compute_follow_set) (\<lambda>_.
     bind (table_iter rule_compute_see_through_alt) (\<lambda>_. table_iter rule_compute_alt_first_sets)) t)"
  proof (rule ends_bind, rule follow_sets_ok[OF it ns])
    fix v and u :: "'a sid_state_scheme"
    assume u: "follow_rel n G N t u \<and> (number_errors u = N \<longrightarrow> (\<forall>x. is_rule G x \<longrightarrow> covered G u x))"
    show "ends (\<lambda>_. passed n G N) (bind (table_iter rule_compute_see_through_alt) (\<lambda>_. table_iter rule_compute_alt_first_sets) u)"
    proof (rule last_passes_ok[OF p])
      show "check_inv n G N u" using u by (simp add: follow_rel_def)
      have "number_errors u = N \<Longrightarrow> number_errors t = N" using u it follow_rel_quiet by blast
      then show "number_errors u = N \<Longrightarrow> checked G u" using t u by (auto simp: checked_def is_rule_def)
      fix x r assume r: "rule_at u x = Some r"
      have "map_option alts_frame (rule_at u x) = map_option alts_frame (rule_at t x)" using u by (simp add: follow_rel_def)
      then obtain q where "rule_at s x = Some q" "alts_frame q = alts_frame r" using r at by (cases "rule_at s x") auto
      then show "rl_see_through_alt r = None \<and> (\<forall>alt\<in>set (rl_alts r). bits_of (alt_first_set alt) = {})"
        using un[of x q] by (simp add: unfollowed_def alts_frame_def)
    qed
  qed
  then have "ends (\<lambda>_ u. \<not> predicate_clash G \<and> passed n G N u) (bind (table_iter rule_compute_follow_set) (\<lambda>_.
     bind (table_iter rule_compute_see_through_alt) (\<lambda>_. table_iter rule_compute_alt_first_sets)) t)"
    by (rule ends_mono) (use t in simp)
  then show "ends_unless (predicate_clash G) (\<lambda>_ u. \<not> predicate_clash G \<and> passed n G N u)
    (bind (table_iter rule_compute_follow_set) (\<lambda>_. bind (table_iter rule_compute_see_through_alt) (\<lambda>_. table_iter rule_compute_alt_first_sets)) t)"
    by (rule ends_unless_mono) simp
qed

end
