(* ===== verification/Sid_Parse.thy ===== *)
theory Sid_Parse
  imports Sid_LL1
begin

text \<open>
  Parse trees of a grammar and what LL(1) means for them: a sequence of symbols has at most one parse
  tree. Predicates appear in the sequence where they hold; actions and renamings leave no trace.
\<close>

datatype tree = Leaf symbol | Node nat nat "tree list"

text \<open>The tree of a rule names the rule and the number of the alternative.\<close>

inductive parse :: "sentry list \<Rightarrow> nat \<Rightarrow> symbol list \<Rightarrow> tree \<Rightarrow> bool"
  and parses :: "sentry list \<Rightarrow> ItemT list \<Rightarrow> symbol list \<Rightarrow> tree list \<Rightarrow> bool" for G where
  parse_rule: "is_rule G x \<Longrightarrow> i < length (alternatives G x) \<Longrightarrow> parses G (alternatives G x ! i) w ts \<Longrightarrow> parse G x w (Node x i ts)"
| parses_Nil: "parses G [] [] []"
| parses_silent: "silent item \<Longrightarrow> parses G items w ts \<Longrightarrow> parses G (item # items) w ts"
| parses_basic: "it_type item = ET_BASIC \<Longrightarrow> t = Term (unat (s_terminal (G ! it_entry item))) \<Longrightarrow> parses G items w ts \<Longrightarrow>
    parses G (item # items) (t # w) (Leaf t # ts)"
| parses_predicate: "it_type item = ET_PREDICATE \<Longrightarrow> t = Pred (it_entry item) \<Longrightarrow> parses G items w ts \<Longrightarrow>
    parses G (item # items) (t # w) (Leaf t # ts)"
| parses_rule: "it_type item = ET_RULE \<Longrightarrow> parse G (it_entry item) v tr \<Longrightarrow> parses G items w ts \<Longrightarrow>
    parses G (item # items) (v @ w) (tr # ts)"

inductive_cases parse_cases: "parse G x w tr"
inductive_cases parses_Nil_cases: "parses G [] w ts"
inductive_cases parses_Cons_cases: "parses G (item # items) w ts"

lemma alternatives_cases:
  assumes "i < length (alternatives G x)"
  obtains "alternatives G x ! i \<in> alts_of G x" | "s_empty (G ! x)" "alternatives G x ! i = []"
proof (cases "i < length (s_alts (G ! x))")
  case True
  then show thesis by (intro that(1)) (simp add: alternatives_def alts_of_def nth_append)
next
  case False
  then have "s_empty (G ! x)" "i = length (s_alts (G ! x))" using assms by (auto simp: alternatives_def split: if_splits)
  then show thesis by (intro that(2)) (simp_all add: alternatives_def)
qed

lemma parse_sound:
  "parse G x w tr \<Longrightarrow> case w of [] \<Rightarrow> nullable G x | t # _ \<Rightarrow> starts G x t"
  "parses G items w ts \<Longrightarrow> case w of [] \<Rightarrow> items_nullable G items | t # _ \<Rightarrow> items_start G items t"
proof (induction rule: parse_parses.inducts)
  case (parse_rule x i w ts)
  show ?case using parse_rule(2)
  proof (cases rule: alternatives_cases)
    case 1
    then show ?thesis using parse_rule starts_iff nullable_iff by (auto split: list.splits)
  next
    case 2
    then show ?thesis using parse_rule nullable_empty by (auto split: list.splits)
  qed
next
  case (parses_rule item v tr items w ts)
  then show ?case by (auto simp: item_starts_def item_nullable_def split: list.splits)
qed (auto simp: item_starts_def item_nullable_def split: list.splits)

text \<open>What may come behind the symbols of rule \<open>x\<close>.\<close>

definition continues :: "sentry list \<Rightarrow> nat \<Rightarrow> symbol list \<Rightarrow> bool" where
  "continues G x u \<longleftrightarrow> u = [] \<or> follows G x (hd u)"

lemma parses_select:
  assumes "parses G a w ts" "continues G x u" "w @ u = t # z"
  shows "select G x a t"
proof (cases w)
  case Nil
  then show ?thesis using assms parse_sound(2)[OF assms(1)] by (auto simp: select_def continues_def)
next
  case (Cons s v)
  then show ?thesis using assms parse_sound(2)[OF assms(1)] by (auto simp: select_def)
qed

lemma choice_unique:
  assumes "LL1 G" "is_rule G x" "i < length (alternatives G x)" "j < length (alternatives G x)"
    "parses G (alternatives G x ! i) w ts" "parses G (alternatives G x ! j) w' ts'"
    "w @ u = w' @ u'" "continues G x u" "continues G x u'"
  shows "i = j"
proof (rule ccontr)
  assume "i \<noteq> j"
  let ?R = "\<lambda>a b. (\<forall>t. \<not> (select G x a t \<and> select G x b t)) \<and> \<not> (items_nullable G a \<and> items_nullable G b)"
  have "sorted_wrt ?R (alternatives G x)" using assms(1,2) by (auto simp: LL1_def)
  then have R: "?R (alternatives G x ! i) (alternatives G x ! j)"
    using \<open>i \<noteq> j\<close> assms(3,4) sorted_wrt_nth_less[of ?R "alternatives G x"] by (cases i j rule: linorder_cases) blast+
  show False
  proof (cases "w @ u")
    case Nil
    then show False using assms(5-7) parse_sound(2)[OF assms(5)] parse_sound(2)[OF assms(6)] R by auto
  next
    case (Cons t z)
    then have "select G x (alternatives G x ! i) t" using parses_select[OF assms(5,8)] by blast
    moreover have "select G x (alternatives G x ! j) t" using parses_select[OF assms(6,9)] Cons assms(7) by simp
    ultimately show False using R by blast
  qed
qed

lemma continues_rule:
  assumes "is_rule G x" "pre @ item # items \<in> bodies_of G x" "it_type item = ET_RULE" "parses G items w ts" "continues G x u"
  shows "continues G (it_entry item) (w @ u)"
proof (cases w)
  case Nil
  then have "items_nullable G items" using parse_sound(2)[OF assms(4)] by simp
  then show ?thesis using Nil assms(5) follows_end[OF assms(1,2,3)] by (auto simp: continues_def)
next
  case (Cons t v)
  then have "items_start G items t" using parse_sound(2)[OF assms(4)] by simp
  then show ?thesis using Cons follows_next[OF assms(1,2,3)] by (auto simp: continues_def)
qed

text \<open>An LL(1) grammar gives every sequence of symbols at most one tree, whatever may follow it.\<close>

lemma LL1_unique:
  assumes "LL1 G"
  shows "parse G x w tr \<Longrightarrow> (\<And>w' tr' u u'. parse G x w' tr' \<Longrightarrow> w @ u = w' @ u' \<Longrightarrow> continues G x u \<Longrightarrow> continues G x u' \<Longrightarrow>
      w' = w \<and> tr' = tr)"
    "parses G items w ts \<Longrightarrow> (\<And>y pre w' ts' u u'. is_rule G y \<Longrightarrow> items \<noteq> [] \<longrightarrow> pre @ items \<in> bodies_of G y \<Longrightarrow> parses G items w' ts' \<Longrightarrow>
      w @ u = w' @ u' \<Longrightarrow> continues G y u \<Longrightarrow> continues G y u' \<Longrightarrow> w' = w \<and> ts' = ts)"
proof (induction rule: parse_parses.inducts)
  case (parse_rule x i w ts)
  from parse_rule.prems(1) obtain j ts' where j: "tr' = Node x j ts'" "j < length (alternatives G x)" "parses G (alternatives G x ! j) w' ts'"
    by (elim parse_cases) auto
  have "i = j" by (rule choice_unique[OF assms parse_rule(1,2) j(2) parse_rule(3) j(3) parse_rule.prems(2-4)])
  moreover have "alternatives G x ! i \<noteq> [] \<longrightarrow> [] @ alternatives G x ! i \<in> bodies_of G x"
    using parse_rule(2) by (cases rule: alternatives_cases) (auto simp: bodies_of_def)
  ultimately have "w' = w \<and> ts' = ts" using parse_rule(4)[OF parse_rule(1)] j(3) parse_rule.prems(2-4) by blast
  then show ?case using j(1) \<open>i = j\<close> by simp
next
  case parses_Nil
  then show ?case by (auto elim: parses_Nil_cases)
next
  case (parses_silent item items w ts)
  from parses_silent.prems(3) have "parses G items w' ts'" using parses_silent(1) by (elim parses_Cons_cases) auto
  then show ?case using parses_silent(3)[of y "pre @ [item]"] parses_silent.prems by simp
next
  case (parses_basic item t items w ts)
  from parses_basic.prems(3) obtain v vs where "w' = t # v" "ts' = Leaf t # vs" "parses G items v vs"
    using parses_basic(1,2) by (elim parses_Cons_cases) auto
  then show ?case using parses_basic(4)[of y "pre @ [item]" v vs u u'] parses_basic.prems by simp
next
  case (parses_predicate item t items w ts)
  from parses_predicate.prems(3) obtain v vs where "w' = t # v" "ts' = Leaf t # vs" "parses G items v vs"
    using parses_predicate(1,2) by (elim parses_Cons_cases) auto
  then show ?case using parses_predicate(4)[of y "pre @ [item]" v vs u u'] parses_predicate.prems by simp
next
  case (parses_rule item v tr items w ts)
  from parses_rule.prems(3) obtain v' tr' z zs where w': "w' = v' @ z" "ts' = tr' # zs" "parse G (it_entry item) v' tr'" "parses G items z zs"
    using parses_rule(1) by (elim parses_Cons_cases) auto
  have body: "pre @ item # items \<in> bodies_of G y" using parses_rule.prems(2) by simp
  have "continues G (it_entry item) (w @ u)" "continues G (it_entry item) (z @ u')"
    using continues_rule[OF parses_rule.prems(1) body parses_rule(1)] parses_rule(4) w'(4) parses_rule.prems(5,6) by blast+
  then have 1: "v' = v \<and> tr' = tr" using parses_rule(3)[OF w'(3)] parses_rule.prems(4) w'(1) by simp
  then have "z = w \<and> zs = ts"
    using parses_rule(5)[of y "pre @ [item]" z zs u u'] parses_rule.prems w' by simp
  then show ?case using 1 w' by simp
qed

lemma LL1_unambiguous: "LL1 G \<Longrightarrow> parse G x w tr \<Longrightarrow> parse G x w tr' \<Longrightarrow> tr' = tr"
  using LL1_unique(1)[of G x w tr w tr' "[]" "[]"] by (simp add: continues_def)

end
