(* ===== verification/Sid_Properties.thy ===== *)
theory Sid_Properties
  imports Sid_Parse
begin

text \<open>
  The properties of the grammar analysis of \<^verbatim>\<open>sid\<close>, and a grammar to try them on: lists of the first terminal,
  ended by the second.
\<close>

section \<open>A grammar\<close>

definition mk_alt :: "bitvec_ctx \<Rightarrow> ItemT list \<Rightarrow> AltT" where
  "mk_alt ctx items = foldl alt_add_item (alt_create ctx) items"

definition basic_entry :: "cuint \<Rightarrow> EntryT" where
  "basic_entry i = \<lparr>en_type = ET_BASIC, en_u = U_BASIC \<lparr>bs_terminal = i, bs_result = [], bs_ignored = False\<rparr>\<rparr>"

definition rule_entry :: "RuleT \<Rightarrow> EntryT" where
  "rule_entry r = \<lparr>en_type = ET_RULE, en_u = U_RULE r\<rparr>"

definition list_grammar :: sid_state where
  "list_grammar = (let ctx = bitvec_set_size 2 in
     \<lparr>exit_status = False, number_errors = 0, max_reported = ERROR_SEVERITY_INFORMATION, sid_bitvec = ctx,
      sid_table = \<lparr>entries = [basic_entry 0, basic_entry 1,
          rule_entry (rule_add_alt (rule_add_empty_alt (rule_create ctx)) (mk_alt ctx [item_create ET_BASIC 0, item_create ET_RULE 2])),
          rule_entry (rule_add_alt (rule_create ctx) (mk_alt ctx [item_create ET_RULE 2, item_create ET_BASIC 1]))],
        contents = [[3, 1], [], [0, 2]]\<rparr>\<rparr>)"


lemma init_2 [simp]: "bits_of (bitvec_init (bitvec_set_size 2)) = {}" "bitvec_ok 2 (bitvec_init (bitvec_set_size 2))"
proof -
  show e: "bits_of (bitvec_init (bitvec_set_size 2)) = {}" by (auto simp: bitvec_init_def bits_of_def)
  show "bitvec_ok 2 (bitvec_init (bitvec_set_size 2))"
    using e set_size_simps(1)[of 2] by (simp add: bitvec_ok_def bitvec_init_def)
qed

lemmas grammar_simps = rule_entry_def basic_entry_def rule_add_alt_def rule_add_empty_alt_def rule_create_def mk_alt_def alt_add_item_def
  alt_create_def item_create_def

lemma less_4: "(x :: nat) < 4 \<longleftrightarrow> x = 0 \<or> x = 1 \<or> x = 2 \<or> x = 3"
  by auto

lemma list_grammar_rules:
  assumes "rule_at list_grammar x = Some r"
  shows "untouched r \<and> unfollowed r" "rule_ok 2 4 r"
proof -
  have "length (entries (sid_table list_grammar)) = 4" by (simp add: list_grammar_def Let_def)
  then have "x < 4" using assms by (auto simp: rule_at_Some)
  then show "untouched r \<and> unfollowed r" "rule_ok 2 4 r"
    using assms by (auto simp: less_4 rule_at_Some list_grammar_def Let_def grammar_simps untouched_def unfollowed_def rule_ok_def)
qed

lemma list_grammar_wf: "sid_wf 2 (grammar_of list_grammar) list_grammar"
proof -
  have G: "grammar_of list_grammar = [S_BASIC 0, S_BASIC 1, S_RULE True [[item_create ET_BASIC 0, item_create ET_RULE 2]] None,
    S_RULE False [[item_create ET_RULE 2, item_create ET_BASIC 1]] None]"
    by (simp add: grammar_of_def list_grammar_def Let_def grammar_simps skel_def)
  have "item_ok 2 (grammar_of list_grammar) it" if "x < 4" "is_rule (grammar_of list_grammar) x" "a \<in> bodies_of (grammar_of list_grammar) x" "it \<in> set a" for x a it
    using that unfolding G by (auto simp: less_4 is_rule_def is_basic_def bodies_of_def alts_of_def item_ok_def item_create_def)
  moreover have l: "length (grammar_of list_grammar) = 4" by (simp add: G)
  ultimately have "grammar_ok 2 (grammar_of list_grammar)" by (auto simp: grammar_ok_def)
  moreover have "all_linked list_grammar"
    by (auto simp: all_linked_def table_order_def list_grammar_def Let_def)
  moreover have "rule_at list_grammar x \<noteq> None" if "x < 4" "en_type (entries (sid_table list_grammar) ! x) = ET_RULE" for x
    using that by (auto simp: less_4 rule_at_def list_grammar_def Let_def grammar_simps)
  moreover have "sid_bitvec list_grammar = bitvec_set_size 2" by (simp add: list_grammar_def Let_def)
  ultimately show ?thesis using list_grammar_rules(2) by (simp add: sid_wf_def l)
qed

lemma list_grammar_new: "\<forall>x r. rule_at list_grammar x = Some r \<longrightarrow> untouched r \<and> unfollowed r"
  using list_grammar_rules(1) by blast

section \<open>First sets\<close>

text \<open>
  C5: Computing the first sets of a grammar never goes wrong, whatever the grammar; and when it ends without
  reporting an error, then the first set of every rule is exactly the set of terminals that a derivation
  from the rule can start with, its predicates are those it can start with, and it is marked see through
  exactly when it can produce nothing.
\<close>

theorem first_sets_correct:
  assumes "sid_wf n G s" "\<forall>x r. rule_at s x = Some r \<longrightarrow> untouched r"
  shows "ends (\<lambda>_ t. number_errors t = number_errors s \<longrightarrow> grammar_of t = G \<and>
    (\<forall>x r. rule_at t x = Some r \<longrightarrow> bits_of (rl_first_set r) = {i. starts G x (Term i)} \<and>
      set (rl_predicate_first r) = {p. starts G x (Pred p)} \<and> (rl_see_through r \<longleftrightarrow> nullable G x)))
    (grammar_compute_first_sets s)"
proof (rule ends_mono[OF first_sets_computed[OF assms(1)]])
  show "untouched r" if "rule_at s x = Some r" for x r using assms(2) that by blast
  fix u t assume t: "first_inv n G (number_errors s) t \<and> grows s t \<and> (number_errors t = number_errors s \<longrightarrow>
    (\<forall>x c. rule_at t x = Some c \<longrightarrow> rl_computed_first_set c))"
  then show "number_errors t = number_errors s \<longrightarrow> grammar_of t = G \<and>
    (\<forall>x r. rule_at t x = Some r \<longrightarrow> bits_of (rl_first_set r) = {i. starts G x (Term i)} \<and>
      set (rl_predicate_first r) = {p. starts G x (Pred p)} \<and> (rl_see_through r \<longleftrightarrow> nullable G x))"
    using computed_correct[of n G "number_errors s" t] by (auto simp: first_correct_def first_inv_def sid_wf_def)
qed

theorem first_sets_correct_witness:
  "\<exists>t. grammar_compute_first_sets list_grammar = (Ret (), t) \<and>
    bits_of [3 :: byte] = {i. starts (grammar_of list_grammar) 3 (Term i)}"
proof -
  have run: "fst (grammar_compute_first_sets list_grammar) = Ret ()" by code_simp
  have quiet: "number_errors (snd (grammar_compute_first_sets list_grammar)) = number_errors list_grammar" by code_simp
  have first: "map_option rl_first_set (rule_at (snd (grammar_compute_first_sets list_grammar)) 3) = Some [3]" by code_simp
  obtain t where t: "grammar_compute_first_sets list_grammar = (Ret (), t)" using run by (cases "grammar_compute_first_sets list_grammar") auto
  then obtain r where "rule_at t 3 = Some r" "rl_first_set r = [3]" using first by auto
  then show ?thesis using first_sets_correct[OF list_grammar_wf] list_grammar_new quiet t by force
qed

section \<open>Checks\<close>

lemma checks_pass:
  assumes "sid_wf n G s" "\<forall>x r. rule_at s x = Some r \<longrightarrow> untouched r \<and> unfollowed r"
    "grammar_compute_first_sets s = (Ret (), t)" "number_errors t = number_errors s"
  shows "ends_unless (predicate_clash G) (\<lambda>_ u. \<not> predicate_clash G \<and> passed n G (number_errors s) u) (grammar_check_collisions t)"
proof -
  have "ends (\<lambda>_ t. first_inv n G (number_errors s) t \<and> grows s t \<and> (number_errors t = number_errors s \<longrightarrow>
    (\<forall>x c. rule_at t x = Some c \<longrightarrow> rl_computed_first_set c))) (Ret (), t)"
    using first_sets_computed[OF assms(1)] assms(2,3) by (metis (mono_tags, lifting))
  then have t: "first_inv n G (number_errors s) t" "grows s t" "\<And>x c. rule_at t x = Some c \<Longrightarrow> rl_computed_first_set c"
    using assms(4) by auto
  have un: "\<And>x r. rule_at s x = Some r \<Longrightarrow> unfollowed r" using assms(2) by blast
  have start: "check_inv n G (number_errors s) t" "predicates_initial G" "\<And>x r. rule_at t x = Some r \<Longrightarrow> unfollowed r"
    using check_inv_start[OF t(1,2) assms(4) _ assms(1)] t(3) un by blast+
  show ?thesis by (rule check_collisions_ok[OF start(2,1) assms(4)]) (rule start(3))
qed

lemma passed_LL1: "passed n G N u \<Longrightarrow> number_errors u = N \<Longrightarrow> LL1 G"
  using checked_LL1[of G u] by (auto simp: passed_def checked_def)

lemma passed_alts:
  assumes p: "passed n G N u" "number_errors u = N" and r: "rule_at u x = Some r"
  shows "\<forall>alt\<in>set (rl_alts r). {i. select G x (alt_items alt) (Term i)} \<subseteq> bits_of (alt_first_set alt)"
    "sorted_wrt (\<lambda>a b. bits_of (alt_first_set a) \<inter> bits_of (alt_first_set b) = {}) (rl_alts r)"
proof -
  have wf: "sid_wf n G u" and c: "checked G u" using p by (auto simp: passed_def)
  have bits: "bits_of (alt_first_set alt) = alt_symbols G (bits_of (rl_follow_set r)) (alt_items alt)"
    if "alt \<in> set (rl_alts r)" for alt using p r that by (simp add: passed_def)
  have cov: "is_rule G x \<Longrightarrow> covered G u x" for x using c by (simp add: checked_def)
  have "follows G x (Term i) \<Longrightarrow> i \<in> bits_of (rl_follow_set r)" for i
    using follows_covered[OF cov, of x "Term i"] r by (simp add: Fol_def)
  then show "\<forall>alt\<in>set (rl_alts r). {i. select G x (alt_items alt) (Term i)} \<subseteq> bits_of (alt_first_set alt)"
    using bits by (auto simp: select_def alt_symbols_def)
  show "sorted_wrt (\<lambda>a b. bits_of (alt_first_set a) \<inter> bits_of (alt_first_set b) = {}) (rl_alts r)"
    by (rule alts_sorted[OF wf r c bits])
qed



text \<open>A grammar with one rule, both of whose alternatives begin with the same predicate.\<close>

definition clash_grammar :: sid_state where
  "clash_grammar = (let ctx = bitvec_set_size 2 in
     \<lparr>exit_status = False, number_errors = 0, max_reported = ERROR_SEVERITY_INFORMATION, sid_bitvec = ctx,
      sid_table = \<lparr>entries = [basic_entry 0, \<lparr>en_type = ET_ACTION, en_u = U_OTHER\<rparr>,
          rule_entry (rule_add_alt (rule_add_alt (rule_create ctx) (mk_alt ctx [item_create ET_PREDICATE 1, item_create ET_BASIC 0]))
            (mk_alt ctx [item_create ET_PREDICATE 1]))],
        contents = [[1], [], [0, 2]]\<rparr>\<rparr>)"

lemma less_3: "(x :: nat) < 3 \<longleftrightarrow> x = 0 \<or> x = 1 \<or> x = 2"
  by auto

lemma clash_grammar_rules:
  assumes "rule_at clash_grammar x = Some r"
  shows "untouched r \<and> unfollowed r" "rule_ok 2 3 r"
proof -
  have "length (entries (sid_table clash_grammar)) = 3" by (simp add: clash_grammar_def Let_def)
  then have "x < 3" using assms by (auto simp: rule_at_Some)
  then show "untouched r \<and> unfollowed r" "rule_ok 2 3 r"
    using assms by (auto simp: less_3 rule_at_Some clash_grammar_def Let_def grammar_simps untouched_def unfollowed_def rule_ok_def)
qed

lemma clash_grammar_skel: "grammar_of clash_grammar = [S_BASIC 0, S_OTHER,
    S_RULE False [[item_create ET_PREDICATE 1, item_create ET_BASIC 0], [item_create ET_PREDICATE 1]] None]"
  by (simp add: grammar_of_def clash_grammar_def Let_def grammar_simps skel_def)

lemma clash_grammar_wf: "sid_wf 2 (grammar_of clash_grammar) clash_grammar"
proof -
  have "item_ok 2 (grammar_of clash_grammar) it"
    if "x < 3" "is_rule (grammar_of clash_grammar) x" "a \<in> bodies_of (grammar_of clash_grammar) x" "it \<in> set a" for x a it
    using that unfolding clash_grammar_skel
    by (auto simp: less_3 is_rule_def is_basic_def bodies_of_def alts_of_def item_ok_def item_create_def)
  moreover have l: "length (grammar_of clash_grammar) = 3" by (simp add: clash_grammar_skel)
  ultimately have "grammar_ok 2 (grammar_of clash_grammar)" by (auto simp: grammar_ok_def)
  moreover have "all_linked clash_grammar"
    by (auto simp: all_linked_def table_order_def clash_grammar_def Let_def)
  moreover have "rule_at clash_grammar x \<noteq> None" if "x < 3" "en_type (entries (sid_table clash_grammar) ! x) = ET_RULE" for x
    using that by (auto simp: less_3 rule_at_def clash_grammar_def Let_def grammar_simps)
  moreover have "sid_bitvec clash_grammar = bitvec_set_size 2" by (simp add: clash_grammar_def Let_def)
  ultimately show ?thesis using clash_grammar_rules(2) by (simp add: sid_wf_def l)
qed

lemma clash_grammar_new: "\<forall>x r. rule_at clash_grammar x = Some r \<longrightarrow> untouched r \<and> unfollowed r"
  using clash_grammar_rules(1) by blast



text \<open>
  C4: A grammar that passes the checks is unambiguous. When its first sets have been computed without an error and
  the checks, run directly behind that, return and report nothing, no sequence of terminals and predicates
  has two parse trees for the same rule, where a tree says for every rule in it which alternative was taken. The
  checks end otherwise only at the limit on errors or, when predicates clash, in undefined behaviour.
\<close>

theorem checked_grammar_is_unambiguous:
  assumes "sid_wf n G s" "\<forall>x r. rule_at s x = Some r \<longrightarrow> untouched r \<and> unfollowed r"
    "grammar_compute_first_sets s = (Ret (), t)" "number_errors t = number_errors s"
  shows "ends_unless (predicate_clash G) (\<lambda>_ u. number_errors u = number_errors s \<longrightarrow>
      (\<forall>x w tr tr'. parse G x w tr \<and> parse G x w tr' \<longrightarrow> tr' = tr)) (grammar_check_collisions t)"
  by (rule ends_mono[OF checks_pass[OF assms]]) (blast intro: LL1_unambiguous dest: passed_LL1)

theorem checked_grammar_is_unambiguous_witness:
  "\<exists>!tr. parse (grammar_of list_grammar) 3 [Term 0, Term 1] tr"
proof -
  let ?G = "grammar_of list_grammar"
  define t where "t = snd (grammar_compute_first_sets list_grammar)"
  have "fst (grammar_compute_first_sets list_grammar) = Ret ()" by code_simp
  then have run: "grammar_compute_first_sets list_grammar = (Ret (), t)" by (simp add: t_def prod_eq_iff)
  have quiet: "number_errors t = number_errors list_grammar" unfolding t_def by code_simp
  have "fst (grammar_check_collisions t) = Ret ()" "number_errors (snd (grammar_check_collisions t)) = number_errors list_grammar"
    unfolding t_def by code_simp+
  then have unique: "parse ?G x w tr \<Longrightarrow> parse ?G x w tr' \<Longrightarrow> tr' = tr" for x w tr tr'
    using checked_grammar_is_unambiguous[OF list_grammar_wf list_grammar_new run quiet] by (cases "grammar_check_collisions t") auto
  have G: "is_rule ?G 2" "is_rule ?G 3" "alternatives ?G 2 = [[item_create ET_BASIC 0, item_create ET_RULE 2], []]"
    "alternatives ?G 3 = [[item_create ET_RULE 2, item_create ET_BASIC 1]]" "s_terminal (?G ! 0) = 0" "s_terminal (?G ! 1) = 1"
    by code_simp+
  have "parse ?G 2 [] (Node 2 1 [])" using G by (intro parse_rule) (auto intro: parses_Nil)
  then have "parses ?G [item_create ET_BASIC 0, item_create ET_RULE 2] (Term 0 # [] @ []) [Leaf (Term 0), Node 2 1 []]"
    using G by (intro parses_basic parses_rule parses_Nil) (auto simp: item_create_def)
  then have "parse ?G 2 [Term 0] (Node 2 0 [Leaf (Term 0), Node 2 1 []])" using G by (intro parse_rule) auto
  then have "parses ?G [item_create ET_RULE 2, item_create ET_BASIC 1] ([Term 0] @ [Term 1])
    [Node 2 0 [Leaf (Term 0), Node 2 1 []], Leaf (Term 1)]"
    using G by (intro parses_rule parses_basic parses_Nil) (auto simp: item_create_def)
  then have "parse ?G 3 [Term 0, Term 1] (Node 3 0 [Node 2 0 [Leaf (Term 0), Node 2 1 []], Leaf (Term 1)])"
    using G by (intro parse_rule) auto
  then show ?thesis using unique by blast
qed

end
