(* ===== verification/Libtdf_Bitstream.thy ===== *)
theory Libtdf_Bitstream
  imports Exds_Stream Errors
begin

text \<open>
  The bitstreams of libtdf, \<^verbatim>\<open>libtdf/src/bitstream.c\<close> and \<^verbatim>\<open>libtdf/src/encode.c\<close>, through which the
  C and C++ producer writes its capsules. A bitstream is a chain of chunks linked through
  \<^verbatim>\<open>prev\<close>, or a single chunk that is dumped to a file when it is full. Chunks live in a store and are
  named by their address; one that is ended goes to a list of free chunks and is handed out again,
  so chains share the store and every operation is stated with the addresses it touches.
  \<^verbatim>\<open>unsigned long\<close> is 64 bits wide.
\<close>

section \<open>Chunks and their store\<close>

type_synonym culong = "64 word"

definition BYTE_SIZE :: nat where "BYTE_SIZE = 8"
definition CHUNK_SIZE :: nat where "CHUNK_SIZE = 64"
definition CHUNK_COPY :: nat where "CHUNK_COPY = 8"
definition BYTE_MASK :: culong where "BYTE_MASK = 0xff"

lemmas chunk_consts = BYTE_SIZE_def CHUNK_SIZE_def CHUNK_COPY_def BYTE_MASK_def

text \<open>A null pointer is \<^verbatim>\<open>None\<close>; a file is named by its position among the open files.\<close>

record BITSTREAM =
  bs_text :: "byte list"
  bs_bytes :: nat
  bs_bits :: nat
  bs_size :: nat
  bs_file :: "nat option"
  bs_link :: "nat option"
  bs_prev :: "nat option"

text \<open>
  \<open>bs_heap\<close> is the memory for chunks, in the order of allocation; \<open>bs_raw a i\<close> is what byte \<open>i\<close> of
  the buffer \<^verbatim>\<open>xmalloc\<close> returns for chunk \<open>a\<close> happens to hold.
\<close>

record bits_state = error_state +
  bs_heap :: "BITSTREAM list"
  bs_raw :: "nat \<Rightarrow> nat \<Rightarrow> byte"
  free_bitstreams :: "nat option"
  bs_files :: "ofile list"

text \<open>Reading and updating through a pointer; a dangling one is undefined.\<close>

definition bs_get :: "nat \<Rightarrow> ('z bits_state_scheme, BITSTREAM) prog" where
  "bs_get p s = (if p < length (bs_heap s) then (Ret (bs_heap s ! p), s) else (Raise Undefined, s))"

definition bs_put :: "nat \<Rightarrow> (BITSTREAM \<Rightarrow> BITSTREAM) \<Rightarrow> ('z bits_state_scheme, unit) prog" where
  "bs_put p f s =
     (if p < length (bs_heap s) then (Ret (), s\<lparr>bs_heap := (bs_heap s)[p := f (bs_heap s ! p)]\<rparr>)
      else (Raise Undefined, s))"

text \<open>\<^verbatim>\<open>text[i] = c\<close> in the buffer of a chunk.\<close>

definition bs_poke :: "nat \<Rightarrow> nat \<Rightarrow> byte \<Rightarrow> ('z bits_state_scheme, unit) prog" where
  "bs_poke p i c = bind (bs_get p) (\<lambda>b. bind (check (i < length (bs_text b))) (\<lambda>_.
     bs_put p (\<lambda>b. b\<lparr>bs_text := (bs_text b)[i := c]\<rparr>)))"

section \<open>bitstream.c\<close>

definition start_bitstream :: "nat option \<Rightarrow> nat option \<Rightarrow> ('z bits_state_scheme, nat) prog" where
  "start_bitstream f lnk =
     bind (gets free_bitstreams) (\<lambda>fb.
     bind (case fb of
         Some p \<Rightarrow> bind (bs_get p) (\<lambda>b. bind (modify (\<lambda>s. s\<lparr>free_bitstreams := bs_prev b\<rparr>)) (\<lambda>_. ret p))
       | None \<Rightarrow> bind (gets (\<lambda>s. length (bs_heap s))) (\<lambda>p.
           bind (modify (\<lambda>s. s\<lparr>bs_heap := bs_heap s @
             [\<lparr>bs_text = map (bs_raw s p) [0..<CHUNK_SIZE], bs_bytes = 0, bs_bits = 0, bs_size = 0,
               bs_file = None, bs_link = None, bs_prev = None\<rparr>]\<rparr>)) (\<lambda>_. ret p))) (\<lambda>p.
     bind (bs_put p (\<lambda>b. b\<lparr>bs_bytes := 0, bs_bits := 0, bs_size := 0, bs_file := f, bs_link := lnk,
       bs_prev := None\<rparr>)) (\<lambda>_. ret p)))"

text \<open>
  The walks along \<^verbatim>\<open>prev\<close> are bounded by the number of chunks: a longer walk is caught in a cycle
  and would not end.
\<close>

fun length_from :: "nat \<Rightarrow> nat option \<Rightarrow> cuint \<Rightarrow> ('z bits_state_scheme, cuint) prog" where
  "length_from k None n = ret n"
| "length_from 0 (Some p) n = raise Undefined"
| "length_from (Suc k) (Some p) n =
     bind (bs_get p) (\<lambda>b. length_from k (bs_prev b) (n + of_nat (BYTE_SIZE * bs_bytes b + bs_bits b)))"

definition length_bitstream :: "nat option \<Rightarrow> ('z bits_state_scheme, cuint) prog" where
  "length_bitstream bs = bind (gets (\<lambda>s. length (bs_heap s))) (\<lambda>k. length_from k bs 0)"

fun first_chunk :: "nat \<Rightarrow> nat \<Rightarrow> ('z bits_state_scheme, nat) prog" where
  "first_chunk 0 p = raise Undefined"
| "first_chunk (Suc k) p =
     bind (bs_get p) (\<lambda>b. case bs_prev b of None \<Rightarrow> ret p | Some q \<Rightarrow> first_chunk k q)"

section \<open>encode.c\<close>

definition file_write :: "nat \<Rightarrow> byte list \<Rightarrow> ('z bits_state_scheme, unit) prog" where
  "file_write f cs s =
     (if f < length (bs_files s)
      then (Ret (), s\<lparr>bs_files := (bs_files s)[f := snd (fwrite cs (bs_files s ! f))]\<rparr>)
      else (Raise Undefined, s))"

text \<open>What \<^verbatim>\<open>fwrite\<close> returns is ignored.\<close>

definition dump_bitstream :: "nat \<Rightarrow> ('z bits_state_scheme, unit) prog" where
  "dump_bitstream p = bind (bs_get p) (\<lambda>b.
     if bs_bytes b = 0 then ret ()
     else
       bind (case bs_file b of None \<Rightarrow> ret ()
             | Some f \<Rightarrow> bind (check (bs_bytes b \<le> length (bs_text b))) (\<lambda>_.
                 file_write f (take (bs_bytes b) (bs_text b)))) (\<lambda>_.
       bind (check (bs_bytes b \<le> CHUNK_SIZE)) (\<lambda>_.
       bind (if bs_bytes b < CHUNK_SIZE
             then bind (index (bs_text b) (bs_bytes b)) (\<lambda>c. bs_poke p 0 c)
             else check (bs_bits b = 0)) (\<lambda>_.
       bs_put p (\<lambda>b. b\<lparr>bs_bytes := 0\<rparr>)))))"

definition extend_bitstream :: "nat \<Rightarrow> ('z bits_state_scheme, nat) prog" where
  "extend_bitstream p =
     bind (bs_put p (\<lambda>b. b\<lparr>bs_bytes := CHUNK_SIZE, bs_bits := 0\<rparr>)) (\<lambda>_.
     bind (bs_get p) (\<lambda>b. case bs_file b of
         Some f \<Rightarrow> bind (dump_bitstream p) (\<lambda>_. ret p)
       | None \<Rightarrow> bind (start_bitstream None (bs_link b)) (\<lambda>q.
           bind (bs_put q (\<lambda>c. c\<lparr>bs_prev := Some p\<rparr>)) (\<lambda>_. ret q))))"

text \<open>The loop that outputs each byte; \<open>n\<close> is a positive multiple of the byte size.\<close>

function enc_out :: "culong \<Rightarrow> nat \<Rightarrow> nat \<Rightarrow> nat \<Rightarrow> ('z bits_state_scheme, nat \<times> nat) prog" where
  "enc_out b n bs bytes =
     bind (if bytes \<ge> CHUNK_SIZE then bind (extend_bitstream bs) (\<lambda>q. ret (q, 0)) else ret (bs, bytes)) (\<lambda>(bs, bytes).
     bind (bs_poke bs bytes (ucast (drop_bit (n - BYTE_SIZE) b AND BYTE_MASK))) (\<lambda>_.
     if n - BYTE_SIZE = 0 then ret (bs, bytes + 1) else enc_out b (n - BYTE_SIZE) bs (bytes + 1)))"
  by pat_completeness auto
termination by (relation "measure (\<lambda>(b, n, bs, bytes). n)") (auto simp: chunk_consts)

declare enc_out.simps [simp del]

definition enc_bits :: "nat \<Rightarrow> nat \<Rightarrow> cuint \<Rightarrow> ('z bits_state_scheme, nat) prog" where
  "enc_bits bs n d =
     bind (check (n \<le> 16)) (\<lambda>_.
     if n = 0 then ret bs
     else bind (bs_get bs) (\<lambda>p.
       bind (if bs_bits p \<noteq> 0
             then bind (check (bs_bytes p < CHUNK_SIZE)) (\<lambda>_.
               bind (index (bs_text p) (bs_bytes p)) (\<lambda>c.
               ret (ucast d OR push_bit n (drop_bit (BYTE_SIZE - bs_bits p) (ucast c)), n + bs_bits p)))
             else ret (ucast d, n)) (\<lambda>(b, n).
       let bits = n mod BYTE_SIZE;
           r = (if bits \<noteq> 0 then BYTE_SIZE - bits else 0) in
       bind (enc_out (push_bit r b) (n + r) bs (bs_bytes p)) (\<lambda>(bs, bytes).
       bind (bs_put bs (\<lambda>c. c\<lparr>bs_bytes := (if bits \<noteq> 0 then bytes - 1 else bytes), bs_bits := bits\<rparr>)) (\<lambda>_.
       ret bs)))))"

definition enc_long_bits :: "nat \<Rightarrow> nat \<Rightarrow> culong \<Rightarrow> ('z bits_state_scheme, nat) prog" where
  "enc_long_bits bs n d =
     bind (if n > 16 then bind (enc_bits bs (n - 16) (ucast (drop_bit 16 d))) (\<lambda>bs. ret (bs, 16)) else ret (bs, n)) (\<lambda>(bs, n).
     enc_bits bs n (ucast d))"

text \<open>The two loops of \<^verbatim>\<open>enc_bytes\<close>, on the bytes still to be added.\<close>

fun enc_bytes_unaligned :: "nat \<Rightarrow> byte list \<Rightarrow> ('z bits_state_scheme, nat) prog" where
  "enc_bytes_unaligned bs [] = ret bs"
| "enc_bytes_unaligned bs (c # cs) = bind (enc_bits bs BYTE_SIZE (ucast c)) (\<lambda>bs. enc_bytes_unaligned bs cs)"

fun enc_bytes_aligned :: "nat \<Rightarrow> nat \<Rightarrow> byte list \<Rightarrow> ('z bits_state_scheme, nat \<times> nat) prog" where
  "enc_bytes_aligned bs bytes [] = ret (bs, bytes)"
| "enc_bytes_aligned bs bytes (c # cs) =
     bind (if bytes \<ge> CHUNK_SIZE then bind (extend_bitstream bs) (\<lambda>q. ret (q, 0)) else ret (bs, bytes)) (\<lambda>(bs, bytes).
     bind (bs_poke bs bytes c) (\<lambda>_. enc_bytes_aligned bs (bytes + 1) cs))"

definition enc_bytes :: "nat \<Rightarrow> nat \<Rightarrow> byte list \<Rightarrow> ('z bits_state_scheme, nat) prog" where
  "enc_bytes bs n cs =
     bind (check (n \<le> length cs)) (\<lambda>_.
     bind (bs_get bs) (\<lambda>p.
     if bs_bits p \<noteq> 0 then enc_bytes_unaligned bs (take n cs)
     else bind (enc_bytes_aligned bs (bs_bytes p) (take n cs)) (\<lambda>(bs, bytes).
       bind (bs_put bs (\<lambda>c. c\<lparr>bs_bytes := bytes\<rparr>)) (\<lambda>_. ret bs))))"

definition copy_bitstream :: "nat \<Rightarrow> nat \<Rightarrow> ('z bits_state_scheme, nat) prog" where
  "copy_bitstream fs bs =
     bind (bs_get bs) (\<lambda>p.
     bind (if bs_bytes p \<noteq> 0 then enc_bytes fs (bs_bytes p) (bs_text p) else ret fs) (\<lambda>fs.
     bind (bs_get bs) (\<lambda>p.
     if bs_bits p \<noteq> 0
     then bind (index (bs_text p) (bs_bytes p)) (\<lambda>c.
       enc_bits fs (bs_bits p) (drop_bit (BYTE_SIZE - bs_bits p) (ucast c)))
     else ret fs)))"

definition enc_boundary :: "nat \<Rightarrow> ('z bits_state_scheme, nat) prog" where
  "enc_boundary bs =
     bind (length_bitstream (Some bs)) (\<lambda>n.
     let r = unat n mod BYTE_SIZE in
     if r \<noteq> 0 then enc_bits bs (BYTE_SIZE - r) 0 else ret bs)"

text \<open>\<^verbatim>\<open>end_bitstream\<close> of \<^verbatim>\<open>bitstream.c\<close> needs the alignment.\<close>

definition end_bitstream :: "nat \<Rightarrow> bool \<Rightarrow> ('z bits_state_scheme, unit) prog" where
  "end_bitstream bs w =
     bind (bs_get bs) (\<lambda>b.
     bind (if w \<and> bs_file b \<noteq> None
           then bind (enc_boundary bs) (\<lambda>ps. bind (dump_bitstream ps) (\<lambda>_. ret ps))
           else ret bs) (\<lambda>ps.
     bind (bind (gets (\<lambda>s. length (bs_heap s))) (\<lambda>k. first_chunk k ps)) (\<lambda>ps.
     bind (gets free_bitstreams) (\<lambda>fb.
     bind (bs_put ps (\<lambda>c. c\<lparr>bs_prev := fb\<rparr>)) (\<lambda>_.
     modify (\<lambda>s. s\<lparr>free_bitstreams := Some bs\<rparr>))))))"

text \<open>
  The copy to a file, for one chunk \<open>bs\<close>, the \<open>first\<close> of its chain or not, and for the chunks of a
  chain, from the first one on; the recursive calls find the same \<^verbatim>\<open>fs->file\<close>. A chain of several
  chunks is not given back to the free list, only its first chunk is.
\<close>

definition join_chunk :: "nat \<Rightarrow> nat \<Rightarrow> nat \<Rightarrow> bool \<Rightarrow> ('z bits_state_scheme, nat) prog" where
  "join_chunk f fs bs first =
     bind (bs_get fs) (\<lambda>q.
     bind (bs_get bs) (\<lambda>b.
     bind (if bs_bits q = 0 \<and> bs_bytes b \<noteq> 0
           then bind (bs_put bs (\<lambda>c. c\<lparr>bs_file := Some f\<rparr>)) (\<lambda>_.
                bind (if bs_bytes q \<noteq> 0 then dump_bitstream fs else ret ()) (\<lambda>_.
                bind (dump_bitstream bs) (\<lambda>_.
                bs_put bs (\<lambda>c. c\<lparr>bs_file := None\<rparr>))))
           else ret ()) (\<lambda>_.
     bind (copy_bitstream fs bs) (\<lambda>fs.
     bind (if first then end_bitstream bs False else ret ()) (\<lambda>_.
     ret fs)))))"

fun join_to_file :: "nat \<Rightarrow> nat \<Rightarrow> nat \<Rightarrow> nat \<Rightarrow> ('z bits_state_scheme, nat) prog" where
  "join_to_file 0 f fs bs = raise Undefined"
| "join_to_file (Suc k) f fs bs =
     bind (bs_get fs) (\<lambda>q.
     bind (bs_get bs) (\<lambda>b.
     bind (if bs_link q = None then bs_put fs (\<lambda>c. c\<lparr>bs_link := bs_link b\<rparr>) else ret ()) (\<lambda>_.
     bind (case bs_prev b of None \<Rightarrow> ret fs | Some ps \<Rightarrow> join_to_file k f fs ps) (\<lambda>fs.
     join_chunk f fs bs (bs_prev b = None)))))"

definition join_bitstreams :: "nat option \<Rightarrow> nat option \<Rightarrow> ('z bits_state_scheme, nat option) prog" where
  "join_bitstreams fso bso =
     (case bso of None \<Rightarrow> ret fso | Some bs \<Rightarrow>
      (case fso of None \<Rightarrow> ret (Some bs) | Some fs \<Rightarrow>
       bind (bs_get fs) (\<lambda>q.
       bind (bs_get bs) (\<lambda>b.
       case bs_file q of
         Some f \<Rightarrow> bind (gets (\<lambda>s. length (bs_heap s))) (\<lambda>k. bind (join_to_file k f fs bs) (\<lambda>fs. ret (Some fs)))
       | None \<Rightarrow>
           bind (if bs_link q = None then bs_put fs (\<lambda>c. c\<lparr>bs_link := bs_link b\<rparr>) else ret ()) (\<lambda>_.
           if bs_prev b = None \<and> bs_bytes b < CHUNK_COPY
           then bind (copy_bitstream fs bs) (\<lambda>fs. bind (end_bitstream bs False) (\<lambda>_. ret (Some fs)))
           else bind (gets (\<lambda>s. length (bs_heap s))) (\<lambda>k. bind (first_chunk k bs) (\<lambda>ps.
             bind (bs_put ps (\<lambda>c. c\<lparr>bs_prev := Some fs\<rparr>)) (\<lambda>_. ret (Some bs)))))))))"

text \<open>
  \<^verbatim>\<open>enc_extn\<close>; the loop takes away at least one each time round unless the packets are 0 bits wide,
  when it would not end.
\<close>

fun enc_extn_loop :: "nat \<Rightarrow> nat \<Rightarrow> cuint \<Rightarrow> nat \<Rightarrow> cuint \<Rightarrow> ('z bits_state_scheme, nat) prog" where
  "enc_extn_loop k n e bs d =
     (if d > e
      then (case k of 0 \<Rightarrow> raise Undefined
            | Suc j \<Rightarrow> bind (enc_bits bs n 0) (\<lambda>bs. enc_extn_loop j n e bs (d - e)))
      else enc_bits bs n d)"

declare enc_extn_loop.simps [simp del]

definition enc_extn :: "nat \<Rightarrow> nat \<Rightarrow> cuint \<Rightarrow> ('z bits_state_scheme, nat) prog" where
  "enc_extn bs n d =
     bind (check (n < 32)) (\<lambda>_. enc_extn_loop (unat d) n (push_bit n 1 - 1) bs d)"

function enc_int_aux :: "nat \<Rightarrow> culong \<Rightarrow> ('z bits_state_scheme, nat) prog" where
  "enc_int_aux bs n =
     bind (if n \<ge> 8 then enc_int_aux bs (drop_bit 3 n) else ret bs) (\<lambda>bs.
     enc_bits bs 4 (ucast (n AND 7)))"
  by pat_completeness auto
termination
proof (relation "measure (\<lambda>(bs, n). unat n)")
  fix bs :: nat and n :: culong
  assume "8 \<le> n"
  then have "unat n div 8 < unat n" by (simp add: word_le_nat_alt)
  then show "((bs, drop_bit 3 n), bs, n) \<in> measure (\<lambda>(bs, n). unat n)"
    by (simp add: unat_simps)
qed simp

declare enc_int_aux.simps [simp del]

definition enc_int :: "nat \<Rightarrow> culong \<Rightarrow> ('z bits_state_scheme, nat) prog" where
  "enc_int bs n =
     bind (if n \<ge> 8 then enc_int_aux bs (drop_bit 3 n) else ret bs) (\<lambda>bs.
     enc_bits bs 4 (ucast ((n AND 7) OR 8)))"

definition enc_bitstream :: "nat \<Rightarrow> nat \<Rightarrow> ('z bits_state_scheme, nat option) prog" where
  "enc_bitstream bs ps =
     bind (length_bitstream (Some ps)) (\<lambda>n.
     bind (enc_int bs (ucast n)) (\<lambda>bs.
     join_bitstreams (Some bs) (Some ps)))"

end
