(* ===== verification/Libtdf_Bits.thy ===== *)
theory Libtdf_Bits
  imports Libtdf_Bitstream
begin

text \<open>
  What a bitstream holds: the bits of a word and of a sequence of bytes, most significant first, the
  bits of a chain of chunks, the well-formedness of a chain, and the relation between the states
  before and after an operation that appends bits to one chain and leaves all others alone.
\<close>

section \<open>Bits of words and bytes\<close>

definition word_bits :: "nat \<Rightarrow> 'a::len word \<Rightarrow> bool list" where
  "word_bits n w = map (bit w) (rev [0..<n])"

definition bytes_bits :: "byte list \<Rightarrow> bool list" where
  "bytes_bits cs = concat (map (word_bits 8) cs)"

lemma length_word_bits [simp]: "length (word_bits n w) = n"
  by (simp add: word_bits_def)

lemma word_bits_0 [simp]: "word_bits 0 w = []"
  by (simp add: word_bits_def)

lemma word_bits_Suc: "word_bits (Suc n) w = bit w n # word_bits n w"
  by (simp add: word_bits_def)

lemma nth_word_bits: "i < n \<Longrightarrow> word_bits n w ! i = bit w (n - Suc i)"
  by (simp add: word_bits_def rev_nth)

lemma rev_nth_word_bits: "i < n \<Longrightarrow> rev (word_bits n w) ! i = bit w i"
  by (simp add: word_bits_def rev_map)

lemma word_bits_eqI: "(\<And>i. i < n \<Longrightarrow> bit v i = bit w i) \<Longrightarrow> word_bits n v = word_bits n w"
  by (simp add: word_bits_def)

lemma word_bits_add: "word_bits (m + n) w = word_bits m (drop_bit n w) @ word_bits n w"
  by (rule nth_equalityI) (auto simp: nth_word_bits nth_append bit_drop_bit_eq intro!: arg_cong[where f = "bit w"])

lemma word_bits_push:
  fixes w :: "'a::len word"
  assumes "m + r \<le> LENGTH('a)"
  shows "word_bits (m + r) (push_bit r w) = word_bits m w @ replicate r False"
  using assms by (intro nth_equalityI) (auto simp: nth_word_bits nth_append bit_push_bit_iff)

lemma word_bits_byte: "word_bits 8 (ucast (drop_bit n (b::culong) AND 0xff) :: byte) = word_bits 8 (drop_bit n b)"
proof (rule word_bits_eqI)
  fix i :: nat
  assume "i < 8"
  moreover have eq: "(0xff :: culong) = mask 8" by (simp add: mask_eq_exp_minus_1)
  ultimately show "bit (ucast (drop_bit n b AND 0xff) :: byte) i = bit (drop_bit n b) i"
    unfolding eq by (simp add: bit_ucast_iff bit_and_iff bit_mask_iff)
qed

lemma bytes_bits_simps [simp]:
  "bytes_bits [] = []" "bytes_bits (c # cs) = word_bits 8 c @ bytes_bits cs"
  "bytes_bits (as @ bs) = bytes_bits as @ bytes_bits bs"
  by (simp_all add: bytes_bits_def)

lemma length_bytes_bits [simp]: "length (bytes_bits cs) = 8 * length cs"
  by (induction cs) auto

lemma take_bytes_bits: "take (8 * n) (bytes_bits cs) = bytes_bits (take n cs)"
proof (induction cs arbitrary: n)
  case (Cons c cs)
  then show ?case by (cases n) (auto simp: take_append)
qed simp

lemma take_bytes_bits_odd:
  "n < length cs \<Longrightarrow> k \<le> 8 \<Longrightarrow> take (8 * n + k) (bytes_bits cs) = bytes_bits (take n cs) @ take k (word_bits 8 (cs ! n))"
proof (induction cs arbitrary: n)
  case (Cons c cs)
  then show ?case by (cases n) (auto simp: take_append)
qed simp

lemma take_word_bits: "k \<le> n \<Longrightarrow> take k (word_bits n w) = word_bits k (drop_bit (n - k) w)"
  using word_bits_add[of k "n - k" w] by simp

section \<open>Contents of a chain\<close>

definition chunk_bits :: "BITSTREAM \<Rightarrow> bool list" where
  "chunk_bits b = take (8 * bs_bytes b + bs_bits b) (bytes_bits (bs_text b))"

definition chunk_ok :: "BITSTREAM \<Rightarrow> bool" where
  "chunk_ok b \<longleftrightarrow> length (bs_text b) = 64 \<and> bs_bytes b \<le> 64 \<and> bs_bits b < 8 \<and> (bs_bits b \<noteq> 0 \<longrightarrow> bs_bytes b < 64)"

fun chain :: "BITSTREAM list \<Rightarrow> nat option \<Rightarrow> nat list \<Rightarrow> bool" where
  "chain h p [] \<longleftrightarrow> p = None"
| "chain h p (a # C) \<longleftrightarrow> p = Some a \<and> a < length h \<and> chain h (bs_prev (h ! a)) C"

definition chain_bits :: "BITSTREAM list \<Rightarrow> nat list \<Rightarrow> bool list" where
  "chain_bits h C = concat (map (\<lambda>a. chunk_bits (h ! a)) (rev C))"

text \<open>The bits of a stream are those already dumped to its file and those still in its chunks.\<close>

definition dumped_bits :: "'z bits_state_scheme \<Rightarrow> nat option \<Rightarrow> bool list" where
  "dumped_bits s fo = (case fo of None \<Rightarrow> [] | Some f \<Rightarrow> bytes_bits (of_data (bs_files s ! f)))"

definition stream_bits :: "'z bits_state_scheme \<Rightarrow> nat list \<Rightarrow> bool list" where
  "stream_bits s C = dumped_bits s (bs_file (bs_heap s ! hd C)) @ chain_bits (bs_heap s) C"

definition stream :: "'z bits_state_scheme \<Rightarrow> nat list \<Rightarrow> bool" where
  "stream s C \<longleftrightarrow> C \<noteq> [] \<and> chain (bs_heap s) (Some (hd C)) C \<and> distinct C \<and>
     (\<forall>a\<in>set C. chunk_ok (bs_heap s ! a)) \<and>
     (case bs_file (bs_heap s ! hd C) of None \<Rightarrow> True
      | Some f \<Rightarrow> tl C = [] \<and> f < length (bs_files s) \<and> of_limit (bs_files s ! f) = None)"

definition free_ok :: "'z bits_state_scheme \<Rightarrow> nat list \<Rightarrow> bool" where
  "free_ok s F \<longleftrightarrow> chain (bs_heap s) (free_bitstreams s) F \<and> distinct F \<and>
     (\<forall>a\<in>set F. length (bs_text (bs_heap s ! a)) = 64)"

definition store :: "'z bits_state_scheme \<Rightarrow> nat list \<Rightarrow> nat list \<Rightarrow> bool" where
  "store s C F \<longleftrightarrow> stream s C \<and> free_ok s F \<and> set C \<inter> set F = {}"

lemma chain_less: "chain h p C \<Longrightarrow> a \<in> set C \<Longrightarrow> a < length h"
  by (induction C arbitrary: p) auto

lemma chain_cong:
  "chain h p C \<Longrightarrow> (\<And>a. a \<in> set C \<Longrightarrow> a < length h' \<and> bs_prev (h' ! a) = bs_prev (h ! a)) \<Longrightarrow> chain h' p C"
  by (induction C arbitrary: p) auto

lemma chain_append: "chain h p (A @ [a]) \<Longrightarrow> bs_prev (h ! a) = None"
  by (induction A arbitrary: p) auto

lemma chain_unique: "chain h p A \<Longrightarrow> chain h p B \<Longrightarrow> A = B"
proof (induction A arbitrary: p B)
  case Nil
  then show ?case by (cases B) auto
next
  case (Cons a A)
  then show ?case by (cases B) auto
qed

lemma chain_bits_cong: "(\<And>a. a \<in> set C \<Longrightarrow> h' ! a = h ! a) \<Longrightarrow> chain_bits h' C = chain_bits h C"
  by (auto simp: chain_bits_def intro!: arg_cong [where f = concat])

lemma chain_bits_simps [simp]:
  "chain_bits h [] = []" "chain_bits h (a # C) = chain_bits h C @ chunk_bits (h ! a)"
  "chain_bits h (A @ B) = chain_bits h B @ chain_bits h A"
  by (simp_all add: chain_bits_def)

lemma length_chunk_bits: "chunk_ok b \<Longrightarrow> length (chunk_bits b) = 8 * bs_bytes b + bs_bits b"
  by (auto simp: chunk_ok_def chunk_bits_def)

lemma streamD:
  assumes "stream s C"
  shows "C = hd C # tl C" "hd C < length (bs_heap s)" "chunk_ok (bs_heap s ! hd C)" "hd C \<notin> set (tl C)"
    "chain (bs_heap s) (bs_prev (bs_heap s ! hd C)) (tl C)" "distinct C" "C \<noteq> []" "hd C \<in> set C"
  using assms by (cases C; auto simp: stream_def)+

section \<open>Appending to a chain\<close>

text \<open>
  \<open>encodes s C F s' C' F' w\<close>: from \<open>s\<close> with the stream \<open>C\<close> and the free chunks \<open>F\<close> to \<open>s'\<close> with \<open>C'\<close> and
  \<open>F'\<close>, the bits \<open>w\<close> have been appended; a stream with a file keeps its chunk; only chunks of \<open>C\<close> and \<open>F\<close> and new ones were touched, and of the
  files only that of the stream.
\<close>

definition frame :: "'z bits_state_scheme \<Rightarrow> nat set \<Rightarrow> nat option \<Rightarrow> 'z bits_state_scheme \<Rightarrow> bool" where
  "frame s A fo s' \<longleftrightarrow>
     s' = s\<lparr>bs_heap := bs_heap s', free_bitstreams := free_bitstreams s', bs_files := bs_files s'\<rparr> \<and>
     length (bs_heap s) \<le> length (bs_heap s') \<and>
     (\<forall>a < length (bs_heap s). a \<notin> A \<longrightarrow> bs_heap s' ! a = bs_heap s ! a) \<and>
     length (bs_files s') = length (bs_files s) \<and>
     (\<forall>f. fo \<noteq> Some f \<longrightarrow> bs_files s' ! f = bs_files s ! f)"

definition within :: "'z bits_state_scheme \<Rightarrow> nat set \<Rightarrow> 'z bits_state_scheme \<Rightarrow> nat set \<Rightarrow> bool" where
  "within s A s' B \<longleftrightarrow> B \<subseteq> A \<union> {length (bs_heap s) ..< length (bs_heap s')}"

definition stream_file :: "'z bits_state_scheme \<Rightarrow> nat list \<Rightarrow> nat option" where
  "stream_file s C = bs_file (bs_heap s ! hd C)"

definition stream_link :: "'z bits_state_scheme \<Rightarrow> nat list \<Rightarrow> nat option" where
  "stream_link s C = bs_link (bs_heap s ! hd C)"

definition encodes ::
  "'z bits_state_scheme \<Rightarrow> nat list \<Rightarrow> nat list \<Rightarrow> 'z bits_state_scheme \<Rightarrow> nat list \<Rightarrow> nat list \<Rightarrow> bool list \<Rightarrow> bool" where
  "encodes s C F s' C' F' w \<longleftrightarrow>
     store s' C' F' \<and> stream_bits s' C' = stream_bits s C @ w \<and>
     stream_file s' C' = stream_file s C \<and> stream_link s' C' = stream_link s C \<and>
     (stream_file s C \<noteq> None \<longrightarrow> C' = C \<and> F' = F) \<and>
     frame s (set C \<union> set F) (stream_file s C) s' \<and> within s (set C \<union> set F) s' (set C' \<union> set F')"

lemma frame_refl: "frame s A fo s"
  by (simp add: frame_def)

lemma frame_mono: "frame s A fo s' \<Longrightarrow> A \<subseteq> B \<Longrightarrow> frame s B fo s'"
  by (auto simp: frame_def)

lemma frame_trans:
  assumes "frame s A fo s1" "frame s1 B fo s2" "within s A s1 B"
  shows "frame s A fo s2"
proof -
  have "bs_heap s2 ! a = bs_heap s ! a" if "a < length (bs_heap s)" "a \<notin> A" for a
  proof -
    have "a \<notin> B" using that assms(3) by (auto simp: within_def)
    then show ?thesis using that assms by (auto simp: frame_def)
  qed
  moreover have "s2 = s\<lparr>bs_heap := bs_heap s2, free_bitstreams := free_bitstreams s2, bs_files := bs_files s2\<rparr>"
  proof -
    have "s2 = s1\<lparr>bs_heap := bs_heap s2, free_bitstreams := free_bitstreams s2, bs_files := bs_files s2\<rparr>"
      using assms(2) by (simp add: frame_def)
    also have "s1 = s\<lparr>bs_heap := bs_heap s1, free_bitstreams := free_bitstreams s1, bs_files := bs_files s1\<rparr>"
      using assms(1) by (simp add: frame_def)
    finally show ?thesis by simp
  qed
  ultimately show ?thesis using assms unfolding frame_def by (metis le_trans)
qed

lemma within_trans: "within s A s1 B \<Longrightarrow> within s1 B s2 D \<Longrightarrow> length (bs_heap s) \<le> length (bs_heap s1) \<Longrightarrow>
    length (bs_heap s1) \<le> length (bs_heap s2) \<Longrightarrow> within s A s2 D"
  by (fastforce simp: within_def)

lemma encodes_refl: "store s C F \<Longrightarrow> encodes s C F s C F []"
  by (simp add: encodes_def frame_refl within_def)

lemma encodes_trans:
  assumes "encodes s C F s1 C1 F1 v" "encodes s1 C1 F1 s2 C2 F2 w"
  shows "encodes s C F s2 C2 F2 (v @ w)"
proof -
  have "length (bs_heap s) \<le> length (bs_heap s1)" "length (bs_heap s1) \<le> length (bs_heap s2)"
    using assms by (auto simp: encodes_def frame_def)
  with assms show ?thesis
    unfolding encodes_def by (auto intro: frame_trans within_trans)
qed

lemma encodesD:
  assumes "encodes s C F s' C' F' w"
  shows "store s' C' F'" "stream s' C'" "stream_bits s' C' = stream_bits s C @ w"
    "frame s (set C \<union> set F) (stream_file s C) s'" "within s (set C \<union> set F) s' (set C' \<union> set F')"
    "stream_file s' C' = stream_file s C" "stream_link s' C' = stream_link s C"
    "stream_file s C = Some f \<Longrightarrow> C' = C \<and> F' = F"
  using assms by (simp_all add: encodes_def store_def)

text \<open>A stream of other chunks is not affected.\<close>

lemma frame_stream:
  assumes "frame s A fo s'" "stream s D" "set D \<inter> A = {}" "\<And>f. fo = Some f \<Longrightarrow> stream_file s D \<noteq> Some f"
  shows "stream s' D" "stream_bits s' D = stream_bits s D" "stream_file s' D = stream_file s D" "stream_link s' D = stream_link s D"
proof -
  have eq: "bs_heap s' ! a = bs_heap s ! a" "a < length (bs_heap s')" if "a \<in> set D" for a
    using that assms chain_less[of "bs_heap s" "Some (hd D)" D a] by (auto simp: frame_def stream_def)
  have hd: "bs_heap s' ! hd D = bs_heap s ! hd D" using eq(1) streamD(8)[OF assms(2)] .
  have ch: "chain (bs_heap s') (Some (hd D)) D"
    by (rule chain_cong[of "bs_heap s"]) (use assms(2) eq in \<open>auto simp: stream_def\<close>)
  have fl: "bs_files s' ! f = bs_files s ! f" if "bs_file (bs_heap s ! hd D) = Some f" for f
    using assms(1,4) that by (auto simp: frame_def stream_file_def)
  show "stream s' D"
    using assms(1,2) ch eq(1) hd fl by (auto simp: stream_def frame_def split: option.splits)
  show "stream_bits s' D = stream_bits s D"
    using hd fl eq(1) by (auto simp: stream_bits_def dumped_bits_def intro!: chain_bits_cong split: option.splits)
  show "stream_file s' D = stream_file s D" "stream_link s' D = stream_link s D"
    using hd by (simp_all add: stream_file_def stream_link_def)
qed

end
