(* ===== verification/Libtdf_Encode.thy ===== *)
theory Libtdf_Encode
  imports Libtdf_Bits
begin

text \<open>
  Correctness of the encoding routines of libtdf on well-formed chains: each appends exactly its bits
  and touches no other chunk.
\<close>

section \<open>The chunk at the end of a chain\<close>

definition prefix_bits :: "'z bits_state_scheme \<Rightarrow> nat list \<Rightarrow> bool list" where
  "prefix_bits s C = dumped_bits s (stream_file s C) @ chain_bits (bs_heap s) (tl C)"

lemma stream_bits_prefix: "stream s C \<Longrightarrow> stream_bits s C = prefix_bits s C @ chunk_bits (bs_heap s ! hd C)"
  by (cases C) (auto simp: stream_def stream_bits_def prefix_bits_def stream_file_def)

text \<open>The state with the chunk \<open>a\<close> replaced.\<close>

definition set_chunk :: "nat \<Rightarrow> BITSTREAM \<Rightarrow> 'z bits_state_scheme \<Rightarrow> 'z bits_state_scheme" where
  "set_chunk a b s = s\<lparr>bs_heap := (bs_heap s)[a := b]\<rparr>"

lemma set_chunk_simps [simp]:
  "length (bs_heap (set_chunk a b s)) = length (bs_heap s)" "bs_files (set_chunk a b s) = bs_files s"
  "free_bitstreams (set_chunk a b s) = free_bitstreams s" "bs_raw (set_chunk a b s) = bs_raw s"
  "a < length (bs_heap s) \<Longrightarrow> bs_heap (set_chunk a b s) ! a = b"
  "c \<noteq> a \<Longrightarrow> bs_heap (set_chunk a b s) ! c = bs_heap s ! c"
  "set_chunk a b (set_chunk a b' s) = set_chunk a b s"
  by (simp_all add: set_chunk_def)

lemma set_chunk_id [simp]: "set_chunk a (bs_heap s ! a) s = s"
  by (simp add: set_chunk_def)

lemma bs_put_eq: "a < length (bs_heap s) \<Longrightarrow> bs_put a f s = (Ret (), set_chunk a (f (bs_heap s ! a)) s)"
  by (simp add: bs_put_def set_chunk_def)

lemma bs_get_eq: "a < length (bs_heap s) \<Longrightarrow> bs_get a s = (Ret (bs_heap s ! a), s)"
  by (simp add: bs_get_def)

lemma bind_bs_get [simp]: "a < length (bs_heap s) \<Longrightarrow> bind (bs_get a) f s = f (bs_heap s ! a) s"
  by (simp add: bs_get_eq)

lemma bind_bs_put [simp]:
  "a < length (bs_heap s) \<Longrightarrow> bind (bs_put a f) k s = k () (set_chunk a (f (bs_heap s ! a)) s)"
  by (simp add: bs_put_eq)

lemma bind_prog_simps [simp]:
  "bind (gets f) k s = k (f s) s" "bind (modify g) k1 s = k1 () (g s)" "bind (ret x) k2 s = k2 x s"
  "B \<Longrightarrow> bind (check B) k1 s = k1 () s"
  by (simp_all add: bind_def gets_def modify_def ret_def check_def)

lemma bs_poke_eq:
  "a < length (bs_heap s) \<Longrightarrow> i < length (bs_text (bs_heap s ! a)) \<Longrightarrow>
   bs_poke a i c s = (Ret (), set_chunk a ((bs_heap s ! a)\<lparr>bs_text := (bs_text (bs_heap s ! a))[i := c]\<rparr>) s)"
  by (simp add: bs_poke_def bs_put_eq)

text \<open>Replacing the chunk at the end of a chain by one with the same links.\<close>

definition same_links :: "BITSTREAM \<Rightarrow> BITSTREAM \<Rightarrow> bool" where
  "same_links b c \<longleftrightarrow> bs_prev b = bs_prev c \<and> bs_file b = bs_file c \<and> bs_link b = bs_link c"

lemma free_ok_frame:
  assumes "frame s A fo s'" "free_ok s F" "set F \<inter> A = {}" "free_bitstreams s' = free_bitstreams s"
  shows "free_ok s' F"
proof -
  have eq: "bs_heap s' ! a = bs_heap s ! a" "a < length (bs_heap s')" if "a \<in> set F" for a
    using that assms chain_less[of "bs_heap s" "free_bitstreams s" F a] by (auto simp: frame_def free_ok_def)
  have "chain (bs_heap s') (free_bitstreams s') F"
    unfolding assms(4)
    by (rule chain_cong[of "bs_heap s"]) (use assms(2) eq in \<open>auto simp: free_ok_def\<close>)
  then show ?thesis using assms(2) eq by (auto simp: free_ok_def)
qed

lemma frame_set_chunk: "frame s {a} fo (set_chunk a b s)"
  by (simp add: frame_def set_chunk_def)

lemma set_head:
  assumes st: "store s C F" and b: "chunk_ok b" "same_links b (bs_heap s ! hd C)"
  shows "store (set_chunk (hd C) b s) C F" "prefix_bits (set_chunk (hd C) b s) C = prefix_bits s C"
    "stream_file (set_chunk (hd C) b s) C = stream_file s C" "stream_link (set_chunk (hd C) b s) C = stream_link s C"
    "stream_bits (set_chunk (hd C) b s) C = prefix_bits s C @ chunk_bits b"
proof -
  let ?s = "set_chunk (hd C) b s"
  have C: "stream s C" using st by (simp add: store_def)
  note D = streamD[OF C]
  have ch: "chain (bs_heap ?s) (Some (hd C)) C"
    by (rule chain_cong[of "bs_heap s"])
      (use C D(2) b(2) chain_less in \<open>auto simp: stream_def same_links_def set_chunk_def nth_list_update\<close>)
  have S: "stream ?s C"
    using C D(2) ch b by (auto simp: stream_def same_links_def set_chunk_def nth_list_update split: option.splits)
  have "free_ok ?s F"
    by (rule free_ok_frame[OF frame_set_chunk]) (use st D(8) in \<open>auto simp: store_def\<close>)
  with S st show "store ?s C F" by (simp add: store_def)
  show f: "stream_file ?s C = stream_file s C" "stream_link ?s C = stream_link s C"
    using D(2) b(2) by (simp_all add: stream_file_def stream_link_def same_links_def)
  have "chain_bits (bs_heap ?s) (tl C) = chain_bits (bs_heap s) (tl C)"
    using D(4) by (intro chain_bits_cong) (metis set_chunk_simps(6))
  with f show p: "prefix_bits ?s C = prefix_bits s C"
    by (simp add: prefix_bits_def dumped_bits_def cong: option.case_cong)
  show "stream_bits ?s C = prefix_bits s C @ chunk_bits b"
    using stream_bits_prefix[OF S] p D(2) by simp
qed

lemma encodes_head:
  assumes st: "store s C F" and b: "chunk_ok b" "same_links b (bs_heap s ! hd C)"
    and w: "chunk_bits b = chunk_bits (bs_heap s ! hd C) @ w"
  shows "encodes s C F (set_chunk (hd C) b s) C F w"
proof -
  have "stream s C" using st by (simp add: store_def)
  then have "hd C \<in> set C" "stream_bits s C = prefix_bits s C @ chunk_bits (bs_heap s ! hd C)"
    using streamD(8) stream_bits_prefix by blast+
  then show ?thesis
    using set_head[OF st b] w by (auto simp: encodes_def within_def intro: frame_mono[OF frame_set_chunk])
qed

section \<open>New chunks and full ones\<close>

lemma start_bitstream_fresh:
  assumes "free_ok s F"
  obtains p s' F' where "start_bitstream f lnk s = (Ret p, s')" "free_ok s' F'" "p \<notin> set F'" "p < length (bs_heap s')"
    "frame s (set F) None s'" "within s (set F) s' (insert p (set F'))" "bs_files s' = bs_files s"
    "chunk_ok (bs_heap s' ! p)" "bs_bytes (bs_heap s' ! p) = 0" "bs_bits (bs_heap s' ! p) = 0"
    "bs_file (bs_heap s' ! p) = f" "bs_link (bs_heap s' ! p) = lnk" "bs_prev (bs_heap s' ! p) = None"
proof (cases F)
  case Nil
  let ?p = "length (bs_heap s)"
  let ?b = "\<lparr>bs_text = map (bs_raw s ?p) [0..<CHUNK_SIZE], bs_bytes = 0, bs_bits = 0, bs_size = 0,
               bs_file = f, bs_link = lnk, bs_prev = None\<rparr>"
  let ?s = "s\<lparr>bs_heap := bs_heap s @ [?b]\<rparr>"
  have free: "free_bitstreams s = None" using assms Nil by (simp add: free_ok_def)
  have "start_bitstream f lnk s = (Ret ?p, ?s)"
    using free by (simp add: start_bitstream_def set_chunk_def ret_def)
  moreover have "free_ok ?s []" "chunk_ok ?b" using free by (simp_all add: free_ok_def chunk_ok_def chunk_consts)
  moreover have "frame s (set F) None ?s" by (auto simp: frame_def nth_append)
  ultimately show thesis using that[of ?p ?s "[]"] by (simp add: within_def)
next
  case (Cons p F')
  let ?b = "(bs_heap s ! p)\<lparr>bs_bytes := 0, bs_bits := 0, bs_size := 0, bs_file := f, bs_link := lnk, bs_prev := None\<rparr>"
  let ?s = "set_chunk p ?b (s\<lparr>free_bitstreams := bs_prev (bs_heap s ! p)\<rparr>)"
  have free: "free_bitstreams s = Some p" "p < length (bs_heap s)" "p \<notin> set F'"
    "length (bs_text (bs_heap s ! p)) = 64" "chain (bs_heap s) (bs_prev (bs_heap s ! p)) F'"
    "distinct F'" "\<forall>a\<in>set F'. length (bs_text (bs_heap s ! a)) = 64"
    using assms Cons by (auto simp: free_ok_def)
  have "start_bitstream f lnk s = (Ret p, ?s)"
    using free by (simp add: start_bitstream_def ret_def)
  moreover have "chain (bs_heap ?s) (bs_prev (bs_heap s ! p)) F'"
    by (rule chain_cong[OF free(5)]) (use free chain_less in \<open>auto simp: set_chunk_def nth_list_update\<close>)
  then have "free_ok ?s F'" using free by (auto simp: free_ok_def set_chunk_def nth_list_update)
  moreover have "frame s (set F) None ?s" using Cons by (simp add: frame_def set_chunk_def)
  ultimately show thesis
    using that[of p ?s F'] free Cons by (simp add: within_def chunk_ok_def set_chunk_def subset_insertI)
qed

text \<open>What is left of a chunk when its bytes have been dumped.\<close>

definition dumped :: "BITSTREAM \<Rightarrow> BITSTREAM" where
  "dumped b = b\<lparr>bs_text := (if bs_bytes b < 64 then (bs_text b)[0 := bs_text b ! bs_bytes b] else bs_text b), bs_bytes := 0\<rparr>"

lemma dumped_facts:
  assumes "chunk_ok b"
  shows "chunk_ok (dumped b)" "same_links (dumped b) b" "bs_bytes (dumped b) = 0" "bs_bits (dumped b) = bs_bits b"
    "chunk_bits b = bytes_bits (take (bs_bytes b) (bs_text b)) @ chunk_bits (dumped b)"
proof -
  show "chunk_ok (dumped b)" "same_links (dumped b) b" "bs_bytes (dumped b) = 0" "bs_bits (dumped b) = bs_bits b"
    using assms by (auto simp: dumped_def chunk_ok_def same_links_def)
  show "chunk_bits b = bytes_bits (take (bs_bytes b) (bs_text b)) @ chunk_bits (dumped b)"
  proof (cases "bs_bytes b < 64")
    case True
    have "length ((bs_text b)[0 := bs_text b ! bs_bytes b]) = 64" using assms by (simp add: chunk_ok_def)
    then have "chunk_bits (dumped b) = take (bs_bits b) (word_bits 8 (bs_text b ! bs_bytes b))"
      using True assms take_bytes_bits_odd[of 0 "(bs_text b)[0 := bs_text b ! bs_bytes b]" "bs_bits b"]
      by (simp add: chunk_bits_def dumped_def chunk_ok_def)
    then show ?thesis
      using True assms by (simp add: chunk_bits_def chunk_ok_def take_bytes_bits_odd)
  next
    case False
    then have "bs_bits b = 0" using assms by (auto simp: chunk_ok_def)
    then show ?thesis using False by (simp add: chunk_bits_def dumped_def take_bytes_bits)
  qed
qed

definition dump_to :: "nat option \<Rightarrow> byte list \<Rightarrow> 'z bits_state_scheme \<Rightarrow> 'z bits_state_scheme" where
  "dump_to fo cs s = (case fo of None \<Rightarrow> s
     | Some f \<Rightarrow> s\<lparr>bs_files := (bs_files s)[f := (bs_files s ! f)\<lparr>of_data := of_data (bs_files s ! f) @ cs\<rparr>]\<rparr>)"

lemma dump_to_heap [simp]: "bs_heap (dump_to fo cs s) = bs_heap s" "free_bitstreams (dump_to fo cs s) = free_bitstreams s"
  by (simp_all add: dump_to_def split: option.splits)

lemma dump_bitstream_eq:
  assumes p: "p < length (bs_heap s)" and b: "chunk_ok (bs_heap s ! p)" "bs_bytes (bs_heap s ! p) \<noteq> 0"
    and f: "\<And>f. bs_file (bs_heap s ! p) = Some f \<Longrightarrow> f < length (bs_files s) \<and> of_limit (bs_files s ! f) = None"
  shows "dump_bitstream p s = (Ret (), set_chunk p (dumped (bs_heap s ! p))
    (dump_to (bs_file (bs_heap s ! p)) (take (bs_bytes (bs_heap s ! p)) (bs_text (bs_heap s ! p))) s))"
proof -
  let ?b = "bs_heap s ! p"
  let ?s = "dump_to (bs_file ?b) (take (bs_bytes ?b) (bs_text ?b)) s"
  have wr: "(case bs_file ?b of None \<Rightarrow> ret () | Some f \<Rightarrow> bind (check (bs_bytes ?b \<le> length (bs_text ?b))) (\<lambda>_.
      file_write f (take (bs_bytes ?b) (bs_text ?b)))) s = (Ret (), ?s)"
    using b(1) f by (auto simp: dump_to_def ret_def file_write_def fwrite_def chunk_ok_def split: option.splits)
  show ?thesis
  proof (cases "bs_bytes ?b < 64")
    case True
    have "bs_text ?b \<noteq> []" using b(1) by (auto simp: chunk_ok_def)
    then show ?thesis
      using True p b wr
      by (simp add: dump_bitstream_def chunk_consts chunk_ok_def bs_poke_eq bs_put_eq dumped_def)
  next
    case False
    then have "bs_bits ?b = 0" using b(1) by (auto simp: chunk_ok_def)
    then show ?thesis
      using p b wr False by (simp add: dump_bitstream_def chunk_consts chunk_ok_def bs_put_eq dumped_def)
  qed
qed

text \<open>The state a routine aims at when it has filled the chunk \<open>a\<close> up to byte \<open>n\<close>.\<close>

definition filled :: "nat \<Rightarrow> nat \<Rightarrow> 'z bits_state_scheme \<Rightarrow> 'z bits_state_scheme" where
  "filled a n s = set_chunk a ((bs_heap s ! a)\<lparr>bs_bytes := n, bs_bits := 0\<rparr>) s"

lemma filled_simps [simp]:
  "length (bs_heap (filled a n s)) = length (bs_heap s)"
  "a < length (bs_heap s) \<Longrightarrow> bs_heap (filled a n s) ! a = (bs_heap s ! a)\<lparr>bs_bytes := n, bs_bits := 0\<rparr>"
  "a < length (bs_heap s) \<Longrightarrow> filled a n (filled a m s) = filled a n s"
  by (simp_all add: filled_def)

lemma storeD:
  assumes "store s C F"
  shows "stream s C" "free_ok s F" "set C \<inter> set F = {}" "hd C < length (bs_heap s)" "chunk_ok (bs_heap s ! hd C)"
    "C \<noteq> []" "hd C \<in> set C"
  using assms streamD[of s C] by (auto simp: store_def)

lemma dump_correct:
  assumes st: "store s C F" and fl: "stream_file s C = Some f"
  obtains s' where "dump_bitstream (hd C) s = (Ret (), s')" "encodes s C F s' C F []"
    "bs_bytes (bs_heap s' ! hd C) = 0" "bs_bits (bs_heap s' ! hd C) = bs_bits (bs_heap s ! hd C)"
proof (cases "bs_bytes (bs_heap s ! hd C) = 0")
  case True
  then show thesis
    using that[of s] st storeD(4)[OF st] by (simp add: dump_bitstream_def encodes_refl ret_def)
next
  case False
  let ?a = "hd C" and ?b = "bs_heap s ! hd C"
  let ?cs = "take (bs_bytes ?b) (bs_text ?b)"
  let ?s1 = "dump_to (Some f) ?cs s :: 'a bits_state_scheme"
  let ?s' = "set_chunk ?a (dumped ?b) ?s1"
  note D = storeD[OF st]
  have f: "bs_file ?b = Some f" "f < length (bs_files s)" "of_limit (bs_files s ! f) = None" "tl C = []"
    using fl D(1) by (auto simp: stream_file_def stream_def)
  have eq: "dump_bitstream ?a s = (Ret (), ?s')"
    using dump_bitstream_eq[OF D(4,5) False] f by simp
  have st1: "store ?s1 C F"
    using st f by (auto simp: store_def stream_def free_ok_def dump_to_def nth_list_update)
  note dm = dumped_facts[OF D(5)]
  have pre: "prefix_bits ?s1 C = prefix_bits s C @ bytes_bits ?cs"
    using f by (simp add: prefix_bits_def stream_file_def dumped_bits_def dump_to_def)
  have "stream_bits ?s' C = stream_bits s C"
    using set_head(5)[OF st1, of "dumped ?b"] dm(1,2) pre stream_bits_prefix[OF D(1)] dm(5) by simp
  moreover have "frame s (set C \<union> set F) (Some f) ?s'"
    using D(4,7) f by (auto simp: frame_def set_chunk_def dump_to_def nth_list_update)
  ultimately have "encodes s C F ?s' C F []"
    using set_head(1,3,4)[OF st1, of "dumped ?b"] dm(1,2) fl f
    by (simp add: encodes_def within_def stream_file_def stream_link_def)
  with eq show thesis using that[of ?s'] D(4) dm(3,4) by simp
qed

lemma extend_correct:
  assumes st: "store (filled a 64 s) C F" and a: "a = hd C"
  obtains s' C' F' where "extend_bitstream a s = (Ret (hd C'), s')" "encodes (filled a 64 s) C F s' C' F' []"
    "bs_bytes (bs_heap s' ! hd C') = 0" "bs_bits (bs_heap s' ! hd C') = 0"
proof -
  let ?s = "filled a 64 s"
  note D = storeD[OF st]
  have len: "a < length (bs_heap s)" using D(4) a by simp
  have put: "extend_bitstream a s = (case bs_file (bs_heap s ! a) of
         Some f \<Rightarrow> bind (dump_bitstream a) (\<lambda>_. ret a)
       | None \<Rightarrow> bind (start_bitstream None (bs_link (bs_heap s ! a))) (\<lambda>q.
           bind (bs_put q (\<lambda>c. c\<lparr>bs_prev := Some a\<rparr>)) (\<lambda>_. ret q))) ?s"
    using len by (simp add: extend_bitstream_def filled_def chunk_consts split: option.splits)
  show thesis
  proof (cases "bs_file (bs_heap s ! a)")
    case (Some f)
    then have "stream_file ?s C = Some f" using a len by (simp add: stream_file_def)
    from dump_correct[OF st this] obtain s' where s': "dump_bitstream a ?s = (Ret (), s')" "encodes ?s C F s' C F []"
      "bs_bytes (bs_heap s' ! hd C) = 0" "bs_bits (bs_heap s' ! hd C) = bs_bits (bs_heap ?s ! hd C)"
      using a by blast
    with put Some a len show thesis by (intro that[of C s' F]) (simp_all add: ret_def)
  next
    case None
    from start_bitstream_fresh[OF D(2), of None "bs_link (bs_heap s ! a)"] obtain q s1 F'
      where q: "start_bitstream None (bs_link (bs_heap s ! a)) ?s = (Ret q, s1)" "free_ok s1 F'" "q \<notin> set F'"
        "q < length (bs_heap s1)" "frame ?s (set F) None s1" "within ?s (set F) s1 (insert q (set F'))"
        "bs_files s1 = bs_files ?s" "chunk_ok (bs_heap s1 ! q)" "bs_bytes (bs_heap s1 ! q) = 0"
        "bs_bits (bs_heap s1 ! q) = 0" "bs_file (bs_heap s1 ! q) = None"
        "bs_link (bs_heap s1 ! q) = bs_link (bs_heap s ! a)" "bs_prev (bs_heap s1 ! q) = None"
      by blast
    let ?c = "(bs_heap s1 ! q)\<lparr>bs_prev := Some a\<rparr>"
    let ?s' = "set_chunk q ?c s1"
    have run: "extend_bitstream a s = (Ret q, ?s')"
      using put None q(1,4) by (simp add: ret_def)
    have "set C \<inter> set F = {}" using D(3) .
    from frame_stream[OF q(5) D(1) this] have st1: "stream s1 C" "stream_bits s1 C = stream_bits ?s C"
      "stream_file s1 C = stream_file ?s C" "stream_link s1 C = stream_link ?s C" by simp_all
    have nq: "q \<notin> set C" "set F' \<inter> set C = {}"
      using q(6) D(3) chain_less[of "bs_heap ?s" "Some (hd C)" C] D(1)
      unfolding within_def stream_def by fastforce+
    have fr: "frame s1 {q} None ?s'" by (rule frame_set_chunk)
    have st2: "stream ?s' C" "stream_bits ?s' C = stream_bits ?s C"
      using frame_stream[OF fr st1(1)] nq(1) st1(2) by simp_all
    have F2: "free_ok ?s' F'" using free_ok_frame[OF fr q(2)] q(3) by simp
    have sl: "stream_link ?s C = bs_link (bs_heap s ! a)" "stream_file ?s C = None"
      using a len None by (simp_all add: stream_link_def stream_file_def)
    have S: "stream ?s' (q # C)"
      using st2(1) nq(1) q a D(6) by (auto simp: stream_def chunk_ok_def chain.simps)
    have "stream_bits ?s' (q # C) = stream_bits ?s' C @ chunk_bits ?c"
      using stream_bits_prefix[OF S] frame_stream(3)[OF fr st1(1)] nq(1) st1(3) sl(2) q(4,11)
      by (simp add: prefix_bits_def stream_bits_def stream_file_def)
    then have B: "stream_bits ?s' (q # C) = stream_bits ?s C"
      using st2(2) q(9,10) by (simp add: chunk_bits_def)
    have "frame ?s (set F \<union> set C) None ?s'"
    proof (rule frame_trans)
      show "frame ?s (set F \<union> set C) None s1" using q(5) by (rule frame_mono) simp
      show "frame s1 ({q} \<union> set C) None ?s'" using fr by (rule frame_mono) simp
      show "within ?s (set F \<union> set C) s1 ({q} \<union> set C)" using q(6) by (auto simp: within_def)
    qed
    moreover have "within ?s (set C \<union> set F) ?s' (set (q # C) \<union> set F')"
      using q(6) by (auto simp: within_def)
    ultimately have "encodes ?s C F ?s' (q # C) F' []"
      using S F2 B nq q(3) sl q(4,11,12) by (auto simp: encodes_def store_def stream_file_def stream_link_def Un_commute)
    with run q show thesis by (intro that[of "q # C" ?s' F']) simp_all
  qed
qed

section \<open>Bytes and bits\<close>

lemma filled_encodes_byte:
  assumes st: "store (filled a n s) C F" and a: "a = hd C" and n: "n < 64"
  shows "bs_poke a n c s = (Ret (), set_chunk a ((bs_heap s ! a)\<lparr>bs_text := (bs_text (bs_heap s ! a))[n := c]\<rparr>) s)"
    "encodes (filled a n s) C F (filled a (n + 1) (snd (bs_poke a n c s))) C F (word_bits 8 c)"
proof -
  let ?b = "bs_heap s ! a"
  note D = storeD[OF st]
  have a': "a < length (bs_heap s)" using D(4) a by simp
  have t: "length (bs_text ?b) = 64" using D(5) a a' by (simp add: chunk_ok_def)
  show run: "bs_poke a n c s = (Ret (), set_chunk a (?b\<lparr>bs_text := (bs_text ?b)[n := c]\<rparr>) s)"
    using a' t n by (simp add: bs_poke_eq)
  let ?new = "?b\<lparr>bs_text := (bs_text ?b)[n := c], bs_bytes := n + 1, bs_bits := 0\<rparr>"
  have eq: "filled a (n + 1) (snd (bs_poke a n c s)) = set_chunk (hd C) ?new (filled a n s)"
    using run a a' by (simp add: filled_def)
  have "take (n + 1) ((bs_text ?b)[n := c]) = take n (bs_text ?b) @ [c]"
    using t n by (simp add: take_Suc_conv_app_nth)
  then have "chunk_bits ?new = chunk_bits (?b\<lparr>bs_bytes := n, bs_bits := 0\<rparr>) @ word_bits 8 c"
    using take_bytes_bits[of "n + 1" "(bs_text ?b)[n := c]"] take_bytes_bits[of n "bs_text ?b"]
    by (simp add: chunk_bits_def)
  then show "encodes (filled a n s) C F (filled a (n + 1) (snd (bs_poke a n c s))) C F (word_bits 8 c)"
    unfolding eq using encodes_head[OF st, of ?new] a a' n t by (simp add: chunk_ok_def same_links_def)
qed

text \<open>Making room for a byte, the first half of the loops that output bytes.\<close>

lemma room_correct:
  assumes st: "store (filled a n s) C F" and a: "a = hd C"
  obtains s' C' F' n' where
    "(if n \<ge> CHUNK_SIZE then bind (extend_bitstream a) (\<lambda>q. ret (q, 0)) else ret (a, n)) s = (Ret (hd C', n'), s')"
    "encodes (filled a n s) C F (filled (hd C') n' s') C' F' []" "n' < 64"
    "bs_bits (bs_heap s ! a) = 0 \<longrightarrow> bs_bits (bs_heap s' ! hd C') = 0"
proof (cases "n < 64")
  case True
  then show thesis using that[of C n s F] st a by (simp add: encodes_refl ret_def chunk_consts)
next
  case False
  with storeD(4,5)[OF st] a have n: "n = 64" by (simp add: chunk_ok_def)
  from extend_correct[OF st[unfolded n] a] obtain s' C' F'
    where e: "extend_bitstream a s = (Ret (hd C'), s')" "encodes (filled a 64 s) C F s' C' F' []"
      "bs_bytes (bs_heap s' ! hd C') = 0" "bs_bits (bs_heap s' ! hd C') = 0" by blast
  then have "(bs_heap s' ! hd C')\<lparr>bs_bytes := 0, bs_bits := 0\<rparr> = bs_heap s' ! hd C'" by simp
  then have "filled (hd C') 0 s' = s'" by (simp add: filled_def)
  with e n show thesis by (intro that[of C' 0 s' F']) (simp_all add: chunk_consts ret_def)
qed

lemma enc_out_correct:
  "store (filled a n s) C F \<Longrightarrow> a = hd C \<Longrightarrow>
   \<exists>s' C' F' n'. enc_out b (8 * Suc k) a n s = (Ret (hd C', n'), s') \<and>
     encodes (filled a n s) C F (filled (hd C') n' s') C' F' (word_bits (8 * Suc k) b) \<and> 0 < n'"
proof (induction k arbitrary: a n s C F)
  case (0 a n s C F)
  obtain s1 C1 F1 n1 where r:
    "(if n \<ge> CHUNK_SIZE then bind (extend_bitstream a) (\<lambda>q. ret (q, 0)) else ret (a, n)) s = (Ret (hd C1, n1), s1)"
    "encodes (filled a n s) C F (filled (hd C1) n1 s1) C1 F1 []" "n1 < 64"
    "bs_bits (bs_heap s ! a) = 0 \<longrightarrow> bs_bits (bs_heap s1 ! hd C1) = 0"
    by (rule room_correct[OF 0])
  let ?c = "ucast (drop_bit 0 b AND BYTE_MASK) :: byte"
  note st1 = encodesD(1)[OF r(2)]
  note p = filled_encodes_byte[OF st1 refl r(3), of ?c]
  have "word_bits 8 ?c = word_bits 8 b"
    using word_bits_byte[of 0 b] by (simp only: BYTE_MASK_def drop_bit_0 id_apply)
  with encodes_trans[OF r(2) p(2)] r(1) p(1) show ?case
    by (subst enc_out.simps) (auto simp: chunk_consts ret_def)
next
  case (Suc k a n s C F)
  obtain s1 C1 F1 n1 where r:
    "(if n \<ge> CHUNK_SIZE then bind (extend_bitstream a) (\<lambda>q. ret (q, 0)) else ret (a, n)) s = (Ret (hd C1, n1), s1)"
    "encodes (filled a n s) C F (filled (hd C1) n1 s1) C1 F1 []" "n1 < 64"
    "bs_bits (bs_heap s ! a) = 0 \<longrightarrow> bs_bits (bs_heap s1 ! hd C1) = 0"
    by (rule room_correct[OF Suc.prems])
  let ?c = "ucast (drop_bit (8 * Suc k) b AND BYTE_MASK) :: byte"
  note st1 = encodesD(1)[OF r(2)]
  note p = filled_encodes_byte[OF st1 refl r(3), of ?c]
  obtain s2 where pk: "bs_poke (hd C1) n1 ?c s1 = (Ret (), s2)" using p(1) by blast
  with p(2) have p2: "encodes (filled (hd C1) n1 s1) C1 F1 (filled (hd C1) (n1 + 1) s2) C1 F1 (word_bits 8 ?c)" by simp
  note e2 = encodes_trans[OF r(2) p2]
  from Suc.IH[OF encodesD(1)[OF e2] refl] obtain s' C' F' n' where
    ih: "enc_out b (8 * Suc k) (hd C1) (n1 + 1) s2 = (Ret (hd C', n'), s')"
    "encodes (filled (hd C1) (n1 + 1) s2) C1 F1 (filled (hd C') n' s') C' F' (word_bits (8 * Suc k) b)" "0 < n'" by blast
  have w: "word_bits (8 * Suc (Suc k)) b = word_bits 8 ?c @ word_bits (8 * Suc k) b"
    using word_bits_add[of 8 "8 * Suc k" b] word_bits_byte[of "8 * Suc k" b] by (simp add: BYTE_MASK_def)
  have n: "8 * Suc (Suc k) - BYTE_SIZE = 8 * Suc k" "8 * Suc k \<noteq> 0" by (simp_all add: chunk_consts)
  have "enc_out b (8 * Suc (Suc k)) a n s = (Ret (hd C', n'), s')"
    unfolding enc_out.simps[of b "8 * Suc (Suc k)"] n if_not_P[OF n(2)]
    by (simp only: bind_def r(1) pk prod.case outcome.case ih(1))
  with encodes_trans[OF e2 ih(2)] ih(3) w show ?case by auto
qed

end
