(* ===== verification/Libtdf_Ops.thy ===== *)
theory Libtdf_Ops
  imports Libtdf_Encode
begin

text \<open>
  The encoding routines append exactly their bits: \<^verbatim>\<open>enc_bits\<close> and the routines over it, bytes, and
  the joining and copying of chains.
\<close>

section \<open>enc_bits\<close>

lemma encodes_retouch:
  assumes st: "store s C F" and b0: "chunk_ok b0" "same_links b0 (bs_heap s ! hd C)"
    and e: "encodes (set_chunk (hd C) b0 s) C F t C' F' w"
    and b1: "chunk_ok b1" "same_links b1 (bs_heap t ! hd C')"
    and bits: "stream_bits (set_chunk (hd C') b1 t) C' = stream_bits s C @ v"
  shows "encodes s C F (set_chunk (hd C') b1 t) C' F' v"
proof -
  let ?s = "set_chunk (hd C) b0 s" and ?u = "set_chunk (hd C') b1 t"
  let ?A = "set C \<union> set F" and ?B = "set C' \<union> set F'"
  note E = encodesD[OF e]
  have hd: "hd C \<in> set C" "hd C' \<in> set C'" using storeD(7)[OF st] storeD(7)[OF E(1)] by simp_all
  have fo: "stream_file ?s C = stream_file s C" using set_head(3)[OF st b0] .
  have "frame s ?A (stream_file s C) ?s" using hd by (intro frame_mono[OF frame_set_chunk]) simp
  then have f1: "frame s ?A (stream_file s C) t"
    by (rule frame_trans) (use E(4) fo in \<open>auto simp: within_def\<close>)
  have w1: "within s ?A t ?B" using E(5) by (simp add: within_def)
  have f2: "frame s ?A (stream_file s C) ?u"
    by (rule frame_trans[OF f1 _ w1]) (use hd in \<open>auto intro: frame_mono[OF frame_set_chunk]\<close>)
  show ?thesis
    using set_head(1,3,4)[OF E(1) b1] set_head(3,4)[OF st b0] E(6-8) f2 w1 bits
    by (auto simp: encodes_def within_def)
qed

text \<open>The bits of \<open>d\<close> above its lowest \<open>n\<close> that would fall on what is already there are there.\<close>

definition clean :: "bool list \<Rightarrow> nat \<Rightarrow> 'a::len word \<Rightarrow> bool" where
  "clean B n d \<longleftrightarrow> (\<forall>j < length B. bit d (n + j) \<longrightarrow> rev B ! j)"

lemma bit_less_power:
  fixes d :: "'a::len word"
  assumes "unat d < 2 ^ n" "n \<le> i"
  shows "\<not> bit d i"
proof
  assume "bit d i"
  then have "bit (unat d) i" by (simp add: bit_unsigned_iff)
  then have "2 ^ i \<le> unat d" by (metis bit_iff_odd div_less even_zero not_le)
  moreover have "(2::nat) ^ n \<le> 2 ^ i" using assms(2) by (rule power_increasing) simp
  ultimately show False using assms(1) by linarith
qed

lemma clean_small: "unat d < 2 ^ n \<Longrightarrow> clean B n d"
  by (simp add: clean_def bit_less_power)

lemma word_bits_or_push:
  fixes d :: cuint and c :: byte
  assumes "k < 8" "n \<le> 16" "\<And>j. j < k \<Longrightarrow> bit d (n + j) \<Longrightarrow> bit c (8 - k + j)"
  shows "word_bits (k + n) (ucast d OR push_bit n (drop_bit (8 - k) (ucast c)) :: culong)
    = word_bits k (drop_bit (8 - k) c) @ word_bits n d" (is "word_bits (k + n) ?b = _")
proof -
  have "word_bits n ?b = word_bits n d"
    using assms(2) by (intro word_bits_eqI) (auto simp: bit_or_iff bit_push_bit_iff bit_ucast_iff)
  moreover have "word_bits k (drop_bit n ?b) = word_bits k (drop_bit (8 - k) c)"
    using assms by (intro word_bits_eqI)
      (auto simp: bit_or_iff bit_push_bit_iff bit_ucast_iff bit_drop_bit_eq)
  ultimately show ?thesis by (simp add: word_bits_add)
qed

lemma enc_bits_clean:
  assumes st: "store s C F" and n: "n \<le> 16" and cl: "clean (stream_bits s C) n d"
  shows "\<exists>s' C' F'. enc_bits (hd C) n d s = (Ret (hd C'), s') \<and> encodes s C F s' C' F' (word_bits n d)"
proof (cases "n = 0")
  case True
  then have "enc_bits (hd C) n d s = (Ret (hd C), s)" by (simp add: enc_bits_def ret_def)
  with True encodes_refl[OF st] show ?thesis by auto
next
  case False
  let ?a = "hd C" and ?p = "bs_heap s ! hd C"
  let ?k = "bs_bits ?p" and ?n = "bs_bytes ?p"
  note D = storeD[OF st]
  define odd where "odd = word_bits ?k (drop_bit (8 - ?k) (bs_text ?p ! ?n))"
  let ?b0 = "?p\<lparr>bs_bytes := ?n, bs_bits := 0\<rparr>"
  have p: "length (bs_text ?p) = 64" "?n \<le> 64" "?k < 8" "?k \<noteq> 0 \<Longrightarrow> ?n < 64" using D(5) by (auto simp: chunk_ok_def)
  have b0: "chunk_ok ?b0" "same_links ?b0 ?p" using D(5) by (auto simp: chunk_ok_def same_links_def)
  have odd: "chunk_bits ?p = chunk_bits ?b0 @ odd"
  proof (cases "?k = 0")
    case False
    then show ?thesis
      using p by (simp add: chunk_bits_def odd_def take_bytes_bits_odd take_bytes_bits take_word_bits)
  qed (simp add: chunk_bits_def odd_def)
  define b :: culong where "b = (if ?k \<noteq> 0 then ucast d OR push_bit n (drop_bit (BYTE_SIZE - ?k) (ucast (bs_text ?p ! ?n))) else ucast d)"
  have b: "word_bits (?k + n) b = odd @ word_bits n d"
  proof (cases "?k = 0")
    case True
    then show ?thesis using n by (auto simp: b_def odd_def bit_ucast_iff intro!: word_bits_eqI)
  next
    case False
    have "bit (bs_text ?p ! ?n) (8 - ?k + j)" if j: "j < ?k" "bit d (n + j)" for j
    proof -
      have B: "stream_bits s C = (prefix_bits s C @ chunk_bits ?b0) @ odd"
        using stream_bits_prefix[OF D(1)] odd by simp
      have "rev (stream_bits s C) ! j"
        using cl j by (auto simp: clean_def B odd_def)
      then have "rev odd ! j" unfolding B using j(1) by (simp add: nth_append odd_def)
      then show ?thesis
        using j(1) by (simp add: odd_def rev_nth_word_bits bit_drop_bit_eq add.commute)
    qed
    with word_bits_or_push[of ?k n d] False p(3) n show ?thesis by (simp add: b_def odd_def chunk_consts)
  qed
  define N where "N = n + ?k"
  define r where "r = (if N mod 8 \<noteq> 0 then 8 - N mod 8 else 0)"
  have N: "0 < N" "N \<le> 23" using False n p(3) by (simp_all add: N_def)
  obtain m where m: "N + r = 8 * Suc m"
  proof -
    have "(N + r) mod 8 = 0" by (simp add: r_def) presburger
    then obtain q where "N + r = 8 * q" by auto
    with N show thesis using that[of "q - 1"] by (cases q) auto
  qed
  have r: "N + r \<le> 64" using N by (auto simp: r_def)
  have fill: "filled ?a ?n s = set_chunk ?a ?b0 s" by (simp add: filled_def)
  note h0 = set_head[OF st b0]
  from enc_out_correct[of ?a ?n s C F "push_bit r b" m] h0(1) fill obtain s' C' F' n' where
    e: "enc_out (push_bit r b) (N + r) ?a ?n s = (Ret (hd C', n'), s')"
    "encodes (set_chunk ?a ?b0 s) C F (filled (hd C') n' s') C' F' (word_bits (N + r) (push_bit r b))" "0 < n'"
    unfolding m by auto
  let ?t = "filled (hd C') n' s'"
  let ?b1 = "(bs_heap s' ! hd C')\<lparr>bs_bytes := (if N mod 8 \<noteq> 0 then n' - 1 else n'), bs_bits := N mod 8\<rparr>"
  note E = encodesD[OF e(2)]
  have a': "hd C' < length (bs_heap s')" using storeD(4)[OF E(1)] by simp
  have t: "bs_heap ?t ! hd C' = (bs_heap s' ! hd C')\<lparr>bs_bytes := n', bs_bits := 0\<rparr>" using a' by simp
  have ok: "chunk_ok ((bs_heap s' ! hd C')\<lparr>bs_bytes := n', bs_bits := 0\<rparr>)" using storeD(5)[OF E(1)] t by simp
  have b1: "chunk_ok ?b1" "same_links ?b1 (bs_heap ?t ! hd C')"
    using ok e(3) t by (auto simp: chunk_ok_def same_links_def)
  have cut: "chunk_bits (bs_heap ?t ! hd C') = chunk_bits ?b1 @ drop (8 * n' - r) (bytes_bits (take n' (bs_text (bs_heap s' ! hd C'))))"
  proof -
    have "8 * (if N mod 8 \<noteq> 0 then n' - 1 else n') + N mod 8 = 8 * n' - r" using e(3) by (auto simp: r_def)
    then have "chunk_bits ?b1 = take (8 * n' - r) (bytes_bits (bs_text (bs_heap s' ! hd C')))"
      by (simp add: chunk_bits_def)
    also have "\<dots> = take (8 * n' - r) (bytes_bits (take n' (bs_text (bs_heap s' ! hd C'))))"
      by (simp add: min_def flip: take_bytes_bits)
    finally show ?thesis unfolding t by (simp add: chunk_bits_def take_bytes_bits)
  qed
  have len: "length (drop (8 * n' - r) (bytes_bits (take n' (bs_text (bs_heap s' ! hd C'))))) = r"
    using ok e(3) by (auto simp: chunk_ok_def r_def)
  have "stream_bits ?t C' = prefix_bits ?t C' @ chunk_bits ?b1 @ drop (8 * n' - r) (bytes_bits (take n' (bs_text (bs_heap s' ! hd C'))))"
    using stream_bits_prefix[OF E(2)] cut by simp
  moreover have "stream_bits ?t C' = prefix_bits s C @ chunk_bits ?b0 @ (odd @ word_bits n d) @ replicate r False"
    using E(3) h0(5) word_bits_push[of N r b] r b by (simp add: N_def add.commute)
  ultimately have "prefix_bits ?t C' @ chunk_bits ?b1 = stream_bits s C @ word_bits n d"
    using len stream_bits_prefix[OF D(1)] odd append_eq_append_conv[of _ "replicate r False"]
    by (simp flip: append_assoc)
  then have "stream_bits (set_chunk (hd C') ?b1 ?t) C' = stream_bits s C @ word_bits n d"
    using set_head(5)[OF E(1) b1] by simp
  from encodes_retouch[OF st b0 e(2) b1 this]
  have fin: "encodes s C F (set_chunk (hd C') ?b1 s') C' F' (word_bits n d)" using a' by (simp add: filled_def)
  have "enc_bits ?a n d s = (Ret (hd C'), set_chunk (hd C') ?b1 s')"
  proof -
    have "enc_bits ?a n d s = bind (enc_out (push_bit r b) (N + r) ?a ?n) (\<lambda>(bs, bytes).
        bind (bs_put bs (\<lambda>c. c\<lparr>bs_bytes := (if N mod 8 \<noteq> 0 then bytes - 1 else bytes), bs_bits := N mod 8\<rparr>)) (\<lambda>_. ret bs)) s"
      using n False D(4) p by (cases "?k = 0") (simp_all add: enc_bits_def b_def N_def r_def chunk_consts Let_def bind_assoc)
    then show ?thesis using e(1) a' by (simp add: ret_def)
  qed
  with fin show ?thesis by blast
qed

section \<open>Programs that append\<close>

definition appends ::
  "('z bits_state_scheme, nat) prog \<Rightarrow> bool list \<Rightarrow> 'z bits_state_scheme \<Rightarrow> nat list \<Rightarrow> nat list \<Rightarrow> bool" where
  "appends m w s C F \<longleftrightarrow> (\<exists>s' C' F'. m s = (Ret (hd C'), s') \<and> encodes s C F s' C' F' w)"

named_theorems append_intros \<open>what the encoding routines append\<close>

lemma appendsE:
  assumes "appends m w s C F"
  obtains s' C' F' where "m s = (Ret (hd C'), s')" "encodes s C F s' C' F' w" "store s' C' F'"
proof -
  from assms obtain s' C' F' where "m s = (Ret (hd C'), s')" "encodes s C F s' C' F' w"
    unfolding appends_def by blast
  with encodesD(1) that show thesis by blast
qed

lemma appends_ret: "store s C F \<Longrightarrow> appends (ret (hd C)) [] s C F"
  unfolding appends_def ret_def using encodes_refl by blast

lemma appends_bind:
  assumes "appends m v s C F"
    and "\<And>s' C' F'. encodes s C F s' C' F' v \<Longrightarrow> store s' C' F' \<Longrightarrow> appends (k (hd C')) w s' C' F'"
  shows "appends (bind m k) (v @ w) s C F"
proof -
  from assms(1) obtain s1 C1 F1 where 1: "m s = (Ret (hd C1), s1)" "encodes s C F s1 C1 F1 v" "store s1 C1 F1"
    by (rule appendsE)
  from assms(2)[OF 1(2,3)] obtain s2 C2 F2 where "k (hd C1) s1 = (Ret (hd C2), s2)" "encodes s1 C1 F1 s2 C2 F2 w"
    by (auto simp: appends_def)
  with 1 encodes_trans[OF 1(2)] show ?thesis by (fastforce simp: appends_def bind_def)
qed

lemma appends_eq: "appends m w s C F \<Longrightarrow> m s = m' s \<Longrightarrow> appends m' w s C F"
  by (simp add: appends_def)

lemma appends_clean:
  "store s C F \<Longrightarrow> n \<le> 16 \<Longrightarrow> clean (stream_bits s C) n d \<Longrightarrow> appends (enc_bits (hd C) n d) (word_bits n d) s C F"
  using enc_bits_clean by (fastforce simp: appends_def)

lemma enc_bits_appends [append_intros]:
  "store s C F \<Longrightarrow> n \<le> 16 \<Longrightarrow> unat d < 2 ^ n \<Longrightarrow> appends (enc_bits (hd C) n d) (word_bits n d) s C F"
  by (rule appends_clean) (simp_all add: clean_small)

lemma word_bits_ucast:
  "n \<le> LENGTH('b) \<Longrightarrow> word_bits n (ucast (w::'a::len word) :: 'b::len word) = word_bits n w"
  by (rule word_bits_eqI) (simp add: bit_ucast_iff)

text \<open>
  The second half of \<^verbatim>\<open>enc_long_bits\<close> passes the whole of \<open>d\<close>: the bits above the lowest 16 fall on
  those that the first half has just written.
\<close>

lemma enc_long_bits_appends [append_intros]:
  fixes d :: culong
  assumes st: "store s C F" and n: "n \<le> 32" and d: "unat d < 2 ^ n"
  shows "appends (enc_long_bits (hd C) n d) (word_bits n d) s C F"
proof (cases "n > 16")
  case False
  then have w: "word_bits n (ucast d :: cuint) = word_bits n d" by (intro word_bits_ucast) simp
  have "(2::nat) ^ n \<le> 2 ^ 32" using n by (rule power_increasing) simp
  then have "unat (ucast d :: cuint) < 2 ^ n" using d by (simp add: unsigned_ucast_eq take_bit_eq_mod)
  from enc_bits_appends[OF st _ this] False w show ?thesis
    by (simp add: enc_long_bits_def appends_def)
next
  case True
  define e :: cuint where "e = ucast (drop_bit 16 d)"
  have be: "bit e i = bit d (16 + i)" if "i < 32" for i
    using that by (simp add: e_def bit_ucast_iff bit_drop_bit_eq add.commute)
  have lo: "unat e < 2 ^ (n - 16)"
  proof -
    have "unat e = unat d div 2 ^ 16 mod 2 ^ 32"
      by (simp add: e_def unsigned_ucast_eq take_bit_eq_mod unat_simps)
    also have "\<dots> \<le> unat d div 2 ^ 16" by simp
    also have "\<dots> < 2 ^ (n - 16)"
    proof (rule less_mult_imp_div_less)
      have "(2::nat) ^ (n - 16) * 2 ^ 16 = 2 ^ n" using True by (simp only: power_add[symmetric]) simp
      with d show "unat d < 2 ^ (n - 16) * 2 ^ 16" by simp
    qed
    finally show ?thesis .
  qed
  have hi: "word_bits (n - 16) e = word_bits (n - 16) (drop_bit 16 d)"
    unfolding e_def using n by (intro word_bits_ucast) simp
  have w: "word_bits n d = word_bits (n - 16) e @ word_bits 16 (ucast d :: cuint)"
    using word_bits_add[of "n - 16" 16 d] True hi word_bits_ucast[of 16 d, where 'b = 32] by simp
  have "appends (bind (enc_bits (hd C) (n - 16) e) (\<lambda>bs. enc_bits bs 16 (ucast d)))
      (word_bits (n - 16) e @ word_bits 16 (ucast d :: cuint)) s C F"
  proof (rule appends_bind)
    show "appends (enc_bits (hd C) (n - 16) e) (word_bits (n - 16) e) s C F"
      using st n lo by (intro append_intros) simp_all
    fix s' C' F'
    assume e': "encodes s C F s' C' F' (word_bits (n - 16) e)" and st': "store s' C' F'"
    have "clean (stream_bits s' C') 16 (ucast d :: cuint)"
      unfolding clean_def encodesD(3)[OF e']
    proof (intro allI impI)
      fix j
      assume j: "bit (ucast d :: cuint) (16 + j)"
      then have dj: "bit d (16 + j)" "j < 16" by (simp_all add: bit_ucast_iff)
      then have "j < n - 16" using bit_less_power[OF d, of "16 + j"] True by linarith
      then show "rev (stream_bits s C @ word_bits (n - 16) e) ! j"
        using dj be[of j] by (simp add: nth_append rev_nth_word_bits)
    qed
    then show "appends (enc_bits (hd C') 16 (ucast d)) (word_bits 16 (ucast d :: cuint)) s' C' F'"
      using st' by (intro appends_clean) simp_all
  qed
  then show ?thesis using True w
    by (simp add: enc_long_bits_def appends_def e_def bind_assoc)
qed

section \<open>Bytes\<close>

lemma enc_bytes_unaligned_appends:
  "store s C F \<Longrightarrow> appends (enc_bytes_unaligned (hd C) cs) (bytes_bits cs) s C F"
proof (induction cs arbitrary: s C F)
  case Nil
  then show ?case by (simp add: appends_ret)
next
  case (Cons c cs)
  have w: "word_bits 8 (ucast c :: cuint) = word_bits 8 c" by (rule word_bits_ucast) simp
  have "appends (enc_bits (hd C) 8 (ucast c)) (word_bits 8 c) s C F"
    using enc_bits_appends[OF Cons.prems, of 8 "ucast c"] unat_less_256[of c] w by (simp add: unat_simps)
  from appends_bind[OF this Cons.IH] show ?case by (simp add: BYTE_SIZE_def)
qed

lemma enc_bytes_aligned_appends:
  "store (filled a n s) C F \<Longrightarrow> a = hd C \<Longrightarrow>
   \<exists>s' C' F' n'. enc_bytes_aligned a n cs s = (Ret (hd C', n'), s') \<and>
     encodes (filled a n s) C F (filled (hd C') n' s') C' F' (bytes_bits cs) \<and>
     (bs_bits (bs_heap s ! a) = 0 \<longrightarrow> bs_bits (bs_heap s' ! hd C') = 0)"
proof (induction cs arbitrary: a n s C F)
  case Nil
  then show ?case using encodes_refl[OF Nil(1)] by (auto simp: ret_def)
next
  case (Cons c cs a n s C F)
  obtain s1 C1 F1 n1 where r:
    "(if n \<ge> CHUNK_SIZE then bind (extend_bitstream a) (\<lambda>q. ret (q, 0)) else ret (a, n)) s = (Ret (hd C1, n1), s1)"
    "encodes (filled a n s) C F (filled (hd C1) n1 s1) C1 F1 []" "n1 < 64"
    "bs_bits (bs_heap s ! a) = 0 \<longrightarrow> bs_bits (bs_heap s1 ! hd C1) = 0"
    by (rule room_correct[OF Cons.prems])
  note p = filled_encodes_byte[OF encodesD(1)[OF r(2)] refl r(3), of c]
  obtain s2 where pk: "bs_poke (hd C1) n1 c s1 = (Ret (), s2)"
    "bs_bits (bs_heap s2 ! hd C1) = bs_bits (bs_heap s1 ! hd C1)"
    using p(1) storeD(4)[OF encodesD(1)[OF r(2)]] by simp
  with p(2) have p2: "encodes (filled (hd C1) n1 s1) C1 F1 (filled (hd C1) (n1 + 1) s2) C1 F1 (word_bits 8 c)" by simp
  note e2 = encodes_trans[OF r(2) p2]
  from Cons.IH[OF encodesD(1)[OF e2] refl] obtain s' C' F' n' where
    ih: "enc_bytes_aligned (hd C1) (n1 + 1) cs s2 = (Ret (hd C', n'), s')"
    "encodes (filled (hd C1) (n1 + 1) s2) C1 F1 (filled (hd C') n' s') C' F' (bytes_bits cs)"
    "bs_bits (bs_heap s2 ! hd C1) = 0 \<longrightarrow> bs_bits (bs_heap s' ! hd C') = 0" by (elim exE conjE) (rule that)
  have "enc_bytes_aligned a n (c # cs) s = (Ret (hd C', n'), s')"
    unfolding enc_bytes_aligned.simps(2) by (simp only: bind_def r(1) pk(1) prod.case outcome.case ih(1))
  with encodes_trans[OF e2 ih(2)] r(4) pk(2) ih(3) show ?case by auto
qed

lemma enc_bytes_appends [append_intros]:
  assumes st: "store s C F" and n: "n \<le> length cs"
  shows "appends (enc_bytes (hd C) n cs) (bytes_bits (take n cs)) s C F"
proof (cases "bs_bits (bs_heap s ! hd C) = 0")
  case False
  then have "enc_bytes (hd C) n cs s = enc_bytes_unaligned (hd C) (take n cs) s"
    using n storeD(4)[OF st] by (simp add: enc_bytes_def)
  then show ?thesis using enc_bytes_unaligned_appends[OF st] by (simp add: appends_def)
next
  case True
  let ?p = "bs_heap s ! hd C"
  note D = storeD[OF st]
  have "?p\<lparr>bs_bytes := bs_bytes ?p, bs_bits := 0\<rparr> = ?p" using True by simp
  then have id: "filled (hd C) (bs_bytes ?p) s = s" by (simp add: filled_def)
  from enc_bytes_aligned_appends[of "hd C" "bs_bytes ?p" s C F "take n cs"] st id obtain s' C' F' n' where
    e: "enc_bytes_aligned (hd C) (bs_bytes ?p) (take n cs) s = (Ret (hd C', n'), s')"
    "encodes s C F (filled (hd C') n' s') C' F' (bytes_bits (take n cs))"
    "bs_bits (bs_heap s' ! hd C') = 0" using True by auto
  let ?b = "(bs_heap s' ! hd C')\<lparr>bs_bytes := n'\<rparr>"
  have a': "hd C' < length (bs_heap s')" using storeD(4)[OF encodesD(1)[OF e(2)]] by simp
  have "enc_bytes (hd C) n cs s = (Ret (hd C'), set_chunk (hd C') ?b s')"
    using n D(4) True e(1) a' by (simp add: enc_bytes_def ret_def)
  moreover have "?b = (bs_heap s' ! hd C')\<lparr>bs_bytes := n', bs_bits := 0\<rparr>" using e(3) by simp
  ultimately show ?thesis using e(2) unfolding appends_def filled_def by auto
qed

section \<open>Alignment\<close>

definition pad_bits :: "nat \<Rightarrow> bool list" where
  "pad_bits l = replicate ((8 - l mod 8) mod 8) False"

lemma length_pad_bits: "(l + length (pad_bits l)) mod 8 = 0"
proof -
  define q r where "q = l div 8" and "r = l mod 8"
  have l: "l = 8 * q + r" and r: "r < 8" by (simp_all add: q_def r_def)
  show ?thesis
  proof (cases "r = 0")
    case False
    then have "l + (8 - r) mod 8 = 8 * (q + 1)" using l r by simp
    then show ?thesis using r_def by (metis length_replicate mod_mult_self1_is_0 pad_bits_def)
  qed (simp add: pad_bits_def r_def)
qed

lemma word_bits_zero [simp]: "word_bits n 0 = replicate n False"
  by (rule nth_equalityI) (simp_all add: nth_word_bits)

lemma length_from_chain:
  "chain (bs_heap s) p C \<Longrightarrow> length C \<le> k \<Longrightarrow> \<forall>a\<in>set C. chunk_ok (bs_heap s ! a) \<Longrightarrow>
   length_from k p n s = (Ret (n + of_nat (length (chain_bits (bs_heap s) C))), s)"
proof (induction C arbitrary: k p n)
  case Nil
  then show ?case by (simp add: ret_def)
next
  case (Cons a C)
  then show ?case by (cases k) (simp_all add: length_chunk_bits BYTE_SIZE_def algebra_simps)
qed

lemma chain_short: "chain h p C \<Longrightarrow> distinct C \<Longrightarrow> length C \<le> length h"
proof -
  assume C: "chain h p C" "distinct C"
  then have "card (set C) \<le> card {..<length h}" by (intro card_mono) (auto dest: chain_less)
  with C show ?thesis by (simp add: distinct_card)
qed

lemma length_bitstream_eq:
  assumes "stream s C"
  shows "length_bitstream (Some (hd C)) s = (Ret (of_nat (length (chain_bits (bs_heap s) C))), s)"
proof -
  have "length C \<le> length (bs_heap s)" using assms chain_short by (auto simp: stream_def)
  then show ?thesis
    using assms length_from_chain[of s "Some (hd C)" C "length (bs_heap s)" 0]
    by (simp add: length_bitstream_def stream_def)
qed

lemma stream_length_mod: "length (chain_bits (bs_heap s) C) mod 8 = length (stream_bits s C) mod 8"
  by (auto simp: stream_bits_def dumped_bits_def split: option.splits)

lemma enc_boundary_appends [append_intros]:
  assumes st: "store s C F"
  shows "appends (enc_boundary (hd C)) (pad_bits (length (stream_bits s C))) s C F"
proof -
  let ?r = "length (stream_bits s C) mod 8"
  have r: "unat (of_nat (length (chain_bits (bs_heap s) C)) :: cuint) mod 8 = ?r"
    using stream_length_mod[of s C] by (simp add: unat_of_nat mod_mod_cancel)
  have eq: "enc_boundary (hd C) s = (if ?r \<noteq> 0 then enc_bits (hd C) (8 - ?r) 0 else ret (hd C)) s"
    using length_bitstream_eq[OF storeD(1)[OF st]] r by (simp add: enc_boundary_def Let_def BYTE_SIZE_def)
  show ?thesis
  proof (cases "?r = 0")
    case True
    then show ?thesis using eq appends_ret[OF st] by (simp add: appends_def pad_bits_def)
  next
    case False
    then show ?thesis
      using eq enc_bits_appends[OF st, of "8 - ?r" 0] by (simp add: appends_def pad_bits_def)
  qed
qed

section \<open>Integers\<close>

fun octal_bits :: "nat \<Rightarrow> bool list" where
  "octal_bits n = (if n \<ge> 8 then octal_bits (n div 8) else []) @ word_bits 4 (of_nat (n mod 8) :: cuint)"

declare octal_bits.simps [simp del]

definition int_bits :: "nat \<Rightarrow> bool list" where
  "int_bits n = (if n \<ge> 8 then octal_bits (n div 8) else []) @ word_bits 4 (of_nat (n mod 8 + 8) :: cuint)"

lemma unat_of_nat_small: "m < 256 \<Longrightarrow> unat (of_nat m :: cuint) = m"
  by (simp add: unat_of_nat)

lemma unat_and_7_long: "unat ((n::culong) AND 7) = unat n mod 8"
  using unat_and_mask[of n 3] by (simp add: mask_eq_exp_minus_1)

lemma ucast_octal: "ucast ((n::culong) AND 7) = (of_nat (unat n mod 8) :: cuint)"
  by (simp add: unat_and_7_long word_unat_eq_iff unsigned_ucast_eq take_bit_eq_mod unat_of_nat)

lemma unat_octal_or: "unat (((n::culong) AND 7) OR 8) = unat n mod 8 + 8"
proof -
  have "(n AND 7) AND 8 = 0" by (simp add: and.assoc)
  from unat_or_disjoint[OF this] show ?thesis by (simp add: unat_and_7_long)
qed

lemma ucast_octal_or: "ucast (((n::culong) AND 7) OR 8) = (of_nat (unat n mod 8 + 8) :: cuint)"
  by (rule word_eq_unatI, subst unat_of_nat_small) (simp_all add: unat_octal_or unsigned_ucast_eq take_bit_eq_mod)

lemma octal_less: "n mod 8 < 16 \<and> n mod 8 + 8 < (16::nat)"
  by simp

lemma long_ge_8: "8 \<le> n \<longleftrightarrow> 8 \<le> unat (n::culong)"
  by (simp add: word_le_nat_alt)

lemma enc_int_aux_appends: "store s C F \<Longrightarrow> appends (enc_int_aux (hd C) n) (octal_bits (unat n)) s C F"
proof (induction "hd C" n arbitrary: s C F rule: enc_int_aux.induct)
  case (1 n C s F)
  have d: "unat (of_nat (unat n mod 8) :: cuint) < 2 ^ 4" by (subst unat_of_nat_small) simp_all
  have fst: "appends (if n \<ge> 8 then enc_int_aux (hd C) (drop_bit 3 n) else ret (hd C))
      (if unat n \<ge> 8 then octal_bits (unat n div 8) else []) s C F"
  proof (cases "n \<ge> 8")
    case True
    then show ?thesis using "1.hyps"[OF True refl "1.prems"] by (simp add: long_ge_8 unat_simps)
  next
    case False
    then show ?thesis using appends_ret[OF "1.prems"] by (simp add: long_ge_8)
  qed
  show ?case
    unfolding enc_int_aux.simps[of "hd C" n] octal_bits.simps[of "unat n"] ucast_octal
    using d by (intro appends_bind[OF fst] append_intros) simp_all
qed

lemma enc_int_appends [append_intros]:
  assumes st: "store s C F"
  shows "appends (enc_int (hd C) n) (int_bits (unat n)) s C F"
proof -
  have d: "unat (of_nat (unat n mod 8 + 8) :: cuint) < 2 ^ 4" by (subst unat_of_nat_small) simp_all
  have fst: "appends (if n \<ge> 8 then enc_int_aux (hd C) (drop_bit 3 n) else ret (hd C))
      (if unat n \<ge> 8 then octal_bits (unat n div 8) else []) s C F"
    using enc_int_aux_appends[OF st, of "drop_bit 3 n"] appends_ret[OF st] by (simp add: long_ge_8 unat_simps)
  show ?thesis
    unfolding enc_int_def int_bits_def ucast_octal_or
    using d by (intro appends_bind[OF fst] append_intros) simp_all
qed

text \<open>The extended encoding: a packet of zeros for each multiple of the greatest packet.\<close>

function extn_bits :: "nat \<Rightarrow> nat \<Rightarrow> bool list" where
  "extn_bits n d = (if n = 0 \<or> d < 2 ^ n then word_bits n (of_nat d :: cuint)
     else replicate n False @ extn_bits n (d - (2 ^ n - 1)))"
  by pat_completeness auto
termination
proof (relation "measure snd")
  fix n d :: nat
  assume "\<not> (n = 0 \<or> d < 2 ^ n)"
  then have "1 < (2::nat) ^ n" "2 ^ n \<le> d" using one_less_power[of "2::nat" n] by simp_all
  then show "((n, d - (2 ^ n - 1)), n, d) \<in> measure snd" by simp
qed simp

declare extn_bits.simps [simp del]

lemma enc_extn_loop_appends:
  assumes n: "0 < n" "n \<le> 16" and e: "unat e = 2 ^ n - 1"
    and st: "store (s :: 'z bits_state_scheme) C F" and k: "unat d \<le> k"
  shows "appends (enc_extn_loop k n e (hd C) d) (extn_bits n (unat d)) s C F"
proof -
  have gt: "e < d \<longleftrightarrow> 2 ^ n \<le> unat d" for d :: cuint
    unfolding word_less_nat_alt e by (auto simp: less_eq_Suc_le)
  {
    fix s :: "'z bits_state_scheme" and C F k and d :: cuint
    assume st: "store s C F" and small: "unat d < 2 ^ n"
    have "appends (enc_bits (hd C) n d) (word_bits n d) s C F" using st n small by (intro append_intros) simp_all
    then have "appends (enc_extn_loop k n e (hd C) d) (extn_bits n (unat d)) s C F"
      using small by (subst enc_extn_loop.simps, subst extn_bits.simps) (simp add: gt not_le)
  } note base = this
  show ?thesis
    using st k
  proof (induction k arbitrary: s C F d)
  case 0
  then show ?case using base[of s C F d] by simp
  next
  case (Suc k)
  show ?case
  proof (cases "unat d < 2 ^ n")
    case True
    then show ?thesis using base Suc.prems by blast
  next
    case False
    have two: "2 \<le> (2::nat) ^ n" using n by (cases n) simp_all
    have le: "e \<le> d" using False unfolding word_le_nat_alt e by simp
    have sub: "unat (d - e) = unat d - (2 ^ n - 1)"
      using unat_sub[OF le] e by simp
    have "unat (d - e) \<le> k"
      unfolding sub using Suc.prems(2) two False by linarith
    then have step: "store (s' :: 'z bits_state_scheme) C' F' \<Longrightarrow> appends (enc_extn_loop k n e (hd C') (d - e))
        (extn_bits n (unat d - (2 ^ n - 1))) s' C' F'" for s' C' F'
      using Suc.IH[of s' C' F' "d - e"] sub by simp
    have "appends (enc_bits (hd C) n 0) (replicate n False) s C F"
      using enc_bits_appends[OF Suc.prems(1), of n 0] n by simp
    from appends_bind[OF this step] show ?thesis
      using False n by (subst enc_extn_loop.simps, subst extn_bits.simps) (simp add: gt)
  qed
qed
qed

lemma enc_extn_appends [append_intros]:
  assumes st: "store s C F" and n: "0 < n" "n \<le> 16"
  shows "appends (enc_extn (hd C) n d) (extn_bits n (unat d)) s C F"
proof -
  have "(2::nat) ^ n \<le> 2 ^ 16" using n by (intro power_increasing) simp_all
  then have lt: "(2::nat) ^ n < 2 ^ 32" by (rule le_less_trans) simp
  have e1: "unat (push_bit n 1 :: cuint) = 2 ^ n" unfolding unat_push_bit using lt by simp
  have "(1 :: cuint) \<le> push_bit n 1" unfolding word_le_nat_alt e1 by simp
  from unat_sub[OF this] have "unat (push_bit n 1 - 1 :: cuint) = 2 ^ n - 1" unfolding e1 by simp
  from enc_extn_loop_appends[OF n this st order_refl] show ?thesis
    using n by (simp add: enc_extn_def appends_def)
qed

end
