(* ===== verification/Libtdf_Join.thy ===== *)
theory Libtdf_Join
  imports Libtdf_Ops
begin

text \<open>
  Joining, copying and ending bitstreams: operations on two chains at once. Whatever way
  \<^verbatim>\<open>join_bitstreams\<close> takes -- copying to a file, copying a small chunk, or linking the chains -- the
  result holds the bits of the first followed by those of the second.
\<close>

section \<open>Operations that touch more than one chain\<close>

text \<open>Like \<^const>\<open>encodes\<close>, with the touched chunks \<open>A\<close> given, and without the linkage.\<close>

definition moves ::
  "'z bits_state_scheme \<Rightarrow> nat set \<Rightarrow> nat list \<Rightarrow> nat list \<Rightarrow> 'z bits_state_scheme \<Rightarrow> nat list \<Rightarrow> nat list \<Rightarrow> bool list \<Rightarrow> bool" where
  "moves s A C F s' C' F' w \<longleftrightarrow>
     store s' C' F' \<and> stream_bits s' C' = stream_bits s C @ w \<and> stream_file s' C' = stream_file s C \<and>
     frame s A (stream_file s C) s' \<and> within s A s' (set C' \<union> set F')"

lemma movesD:
  assumes "moves s A C F s' C' F' w"
  shows "store s' C' F'" "stream s' C'" "stream_bits s' C' = stream_bits s C @ w" "stream_file s' C' = stream_file s C"
    "frame s A (stream_file s C) s'" "within s A s' (set C' \<union> set F')" "length (bs_heap s) \<le> length (bs_heap s')"
  using assms by (simp_all add: moves_def store_def frame_def)

lemma encodes_moves: "encodes s C F s' C' F' w \<Longrightarrow> set C \<union> set F \<subseteq> A \<Longrightarrow> moves s A C F s' C' F' w"
  by (auto simp: encodes_def moves_def within_def intro: frame_mono)

lemma moves_trans:
  assumes "moves s A C F s1 C1 F1 v" "moves s1 B C1 F1 s2 C2 F2 w" "within s A s1 B"
  shows "moves s A C F s2 C2 F2 (v @ w)"
proof -
  have "frame s1 B (stream_file s C) s2" using assms(1,2) by (simp add: moves_def)
  then have "frame s A (stream_file s C) s2" using assms(1,3) frame_trans by (auto simp: moves_def)
  moreover have "within s A s2 (set C2 \<union> set F2)"
    using within_trans[OF assms(3)] assms(1,2) by (auto simp: moves_def frame_def)
  ultimately show ?thesis using assms(1,2) by (simp add: moves_def)
qed

lemma moves_same: "moves s A C F s1 C1 F1 v \<Longrightarrow> moves s1 A C1 F1 s2 C2 F2 w \<Longrightarrow> moves s A C F s2 C2 F2 (v @ w)"
  by (rule moves_trans) (auto simp: within_def)

lemma moves_refl: "store s C F \<Longrightarrow> set C \<union> set F \<subseteq> A \<Longrightarrow> moves s A C F s C F []"
  by (rule encodes_moves[OF encodes_refl])

lemma moves_mono: "moves s A C F s' C' F' w \<Longrightarrow> A \<subseteq> B \<Longrightarrow> moves s B C F s' C' F' w"
  by (auto simp: moves_def within_def intro: frame_mono)

lemma moves_frame:
  assumes "moves s A C F s' C' F' w" "d \<notin> A" "d < length (bs_heap s)"
  shows "bs_heap s' ! d = bs_heap s ! d" "d < length (bs_heap s')"
  using assms by (auto simp: moves_def frame_def)

text \<open>Changing a chunk of another chain.\<close>

lemma moves_other:
  assumes st: "store s C F" and d: "d \<notin> set C \<union> set F" "d \<in> A" "set C \<union> set F \<subseteq> A"
  shows "moves s A C F (set_chunk d b s) C F []"
proof -
  let ?s = "set_chunk d b s"
  have fr: "frame s {d} None ?s" by (rule frame_set_chunk)
  have "stream s C" "set C \<inter> {d} = {}" using storeD(1)[OF st] d(1) by auto
  from frame_stream[OF fr this] have "stream ?s C" "stream_bits ?s C = stream_bits s C" "stream_file ?s C = stream_file s C"
    by simp_all
  moreover have "free_ok ?s F" by (rule free_ok_frame[OF fr storeD(2)[OF st]]) (use d(1) in auto)
  moreover have "frame s A (stream_file s C) ?s" using d(2) by (intro frame_mono[OF frame_set_chunk]) simp
  ultimately show ?thesis using st d by (auto simp: moves_def store_def within_def)
qed

text \<open>Setting the linkage of the chunk at the end.\<close>

lemma moves_link:
  assumes st: "store s C F" and A: "set C \<union> set F \<subseteq> A"
  shows "moves s A C F (set_chunk (hd C) ((bs_heap s ! hd C)\<lparr>bs_link := l\<rparr>) s) C F []"
proof -
  let ?b = "(bs_heap s ! hd C)\<lparr>bs_link := l\<rparr>"
  let ?s = "set_chunk (hd C) ?b s"
  note D = storeD[OF st]
  have eq: "bs_text (bs_heap ?s ! a) = bs_text (bs_heap s ! a)" "bs_bytes (bs_heap ?s ! a) = bs_bytes (bs_heap s ! a)"
    "bs_bits (bs_heap ?s ! a) = bs_bits (bs_heap s ! a)" "bs_prev (bs_heap ?s ! a) = bs_prev (bs_heap s ! a)"
    "bs_file (bs_heap ?s ! a) = bs_file (bs_heap s ! a)" for a
    using D(4) by (cases "a = hd C"; simp)+
  have "chain (bs_heap ?s) (Some (hd C)) C"
    by (rule chain_cong[of "bs_heap s"]) (use D(1) chain_less eq in \<open>auto simp: stream_def\<close>)
  then have S: "stream ?s C" using D(1) eq by (auto simp: stream_def chunk_ok_def split: option.splits)
  have B: "stream_bits ?s C = stream_bits s C"
    using eq by (simp add: stream_bits_def dumped_bits_def chain_bits_def chunk_bits_def cong: option.case_cong)
  have "free_ok ?s F"
    by (rule free_ok_frame[OF frame_set_chunk D(2)]) (use D(3,7) in auto)
  moreover have "frame s A (stream_file s C) ?s" using D(7) A by (intro frame_mono[OF frame_set_chunk]) auto
  ultimately show ?thesis
    using S B D(3) eq(5) A by (auto simp: moves_def store_def within_def stream_file_def)
qed

section \<open>Copying a chunk\<close>

lemma copy_appends:
  assumes st: "store s C F" and d: "d < length (bs_heap s)" "chunk_ok (bs_heap s ! d)" "d \<notin> set C \<union> set F"
  shows "appends (copy_bitstream (hd C) d) (chunk_bits (bs_heap s ! d)) s C F"
proof -
  let ?b = "bs_heap s ! d"
  let ?k = "bs_bits ?b" and ?n = "bs_bytes ?b"
  have b: "length (bs_text ?b) = 64" "?n \<le> 64" "?k < 8" "?k \<noteq> 0 \<Longrightarrow> ?n < 64" using d(2) by (auto simp: chunk_ok_def)
  define w where "w = word_bits ?k (drop_bit (8 - ?k) (bs_text ?b ! ?n))"
  have bits: "chunk_bits ?b = bytes_bits (take ?n (bs_text ?b)) @ w"
  proof (cases "?k = 0")
    case False
    then show ?thesis using b by (simp add: chunk_bits_def w_def take_bytes_bits_odd take_word_bits)
  qed (simp add: chunk_bits_def w_def take_bytes_bits)
  have fst: "appends (if ?n \<noteq> 0 then enc_bytes (hd C) ?n (bs_text ?b) else ret (hd C)) (bytes_bits (take ?n (bs_text ?b))) s C F"
    using enc_bytes_appends[OF st, of ?n "bs_text ?b"] appends_ret[OF st] b by simp
  have "appends (bind (if ?n \<noteq> 0 then enc_bytes (hd C) ?n (bs_text ?b) else ret (hd C)) (\<lambda>fs.
      bind (bs_get d) (\<lambda>p. if bs_bits p \<noteq> 0
        then bind (index (bs_text p) (bs_bytes p)) (\<lambda>c.
          enc_bits fs (bs_bits p) (drop_bit (BYTE_SIZE - bs_bits p) (ucast c)))
        else ret fs))) (bytes_bits (take ?n (bs_text ?b)) @ w) s C F"
  proof (rule appends_bind[OF fst])
    fix s' C' F'
    assume e: "encodes s C F s' C' F' (bytes_bits (take ?n (bs_text ?b)))" and st': "store s' C' F'"
    have d': "bs_heap s' ! d = ?b" "d < length (bs_heap s')"
      using encodesD(4)[OF e] d by (auto simp: frame_def)
    show "appends (bind (bs_get d) (\<lambda>p. if bs_bits p \<noteq> 0
        then bind (index (bs_text p) (bs_bytes p)) (\<lambda>c.
          enc_bits (hd C') (bs_bits p) (drop_bit (BYTE_SIZE - bs_bits p) (ucast c)))
        else ret (hd C'))) w s' C' F'"
    proof (cases "?k = 0")
      case True
      then show ?thesis using d' appends_ret[OF st'] by (simp add: appends_def w_def)
    next
      case False
      let ?c = "bs_text ?b ! ?n"
      let ?v = "drop_bit (8 - ?k) (ucast ?c) :: cuint"
      have "unat ?v = unat ?c div 2 ^ (8 - ?k)" by (simp add: unat_simps)
      also have "\<dots> < 2 ^ ?k"
      proof (rule less_mult_imp_div_less)
        have "(2::nat) ^ ?k * 2 ^ (8 - ?k) = 2 ^ 8" using b(3) by (simp only: power_add[symmetric]) simp
        with unat_less_256[of ?c] show "unat ?c < 2 ^ ?k * 2 ^ (8 - ?k)" by simp
      qed
      finally have v: "unat ?v < 2 ^ ?k" .
      have "word_bits ?k ?v = w"
        unfolding w_def by (intro word_bits_eqI) (use b(3) in \<open>auto simp: bit_drop_bit_eq bit_ucast_iff\<close>)
      then show ?thesis
        using d' False b enc_bits_appends[OF st' _ v] by (simp add: appends_def BYTE_SIZE_def)
    qed
  qed
  then show ?thesis using d(1) bits by (simp add: copy_bitstream_def appends_def)
qed

section \<open>Ending a bitstream\<close>

lemma first_chunk_eq:
  "chain (bs_heap s) (Some p) C \<Longrightarrow> length C \<le> k \<Longrightarrow> first_chunk k p s = (Ret (last C), s)"
proof (induction C arbitrary: k p)
  case (Cons a C)
  then obtain j where k: "k = Suc j" by (cases k) auto
  show ?case
  proof (cases C)
    case Nil
    then show ?thesis using Cons.prems k by (simp add: ret_def)
  next
    case (Cons c C')
    then show ?thesis using Cons.IH[of c j] Cons.prems k by simp
  qed
qed simp

lemma chain_link:
  "chain h p C \<Longrightarrow> C \<noteq> [] \<Longrightarrow> distinct C \<Longrightarrow> chain h q D \<Longrightarrow> set C \<inter> set D = {} \<Longrightarrow>
   chain (h[last C := (h ! last C)\<lparr>bs_prev := q\<rparr>]) p (C @ D)"
proof (induction C arbitrary: p)
  case (Cons a C)
  have "last (a # C) \<notin> set D" using last_in_set[of "a # C"] Cons.prems(5) by blast
  then have D: "chain (h[last (a # C) := (h ! last (a # C))\<lparr>bs_prev := q\<rparr>]) q D"
    by (intro chain_cong[OF Cons.prems(4)]) (metis length_list_update nth_list_update_neq chain_less Cons.prems(4))
  show ?case
  proof (cases "C = []")
    case True
    then show ?thesis using Cons.prems D by simp
  next
    case False
    then have "last C \<noteq> a" using Cons.prems(3) by auto
    then show ?thesis using False Cons.IH[of "bs_prev (h ! a)"] Cons.prems by simp
  qed
qed simp

text \<open>A chain without a file, or whose file is not to be written, goes to the list of free chunks.\<close>

definition freed :: "nat list \<Rightarrow> 'z bits_state_scheme \<Rightarrow> 'z bits_state_scheme" where
  "freed D s = set_chunk (last D) ((bs_heap s ! last D)\<lparr>bs_prev := free_bitstreams s\<rparr>) (s\<lparr>free_bitstreams := Some (hd D)\<rparr>)"

lemma end_bitstream_free:
  assumes D: "D \<noteq> []" "chain (bs_heap s) (Some (hd D)) D" "distinct D" "\<forall>a\<in>set D. length (bs_text (bs_heap s ! a)) = 64"
    and F: "free_ok s F" "set D \<inter> set F = {}"
  shows "end_bitstream (hd D) False s = (Ret (), freed D s)" "free_ok (freed D s) (D @ F)"
proof -
  have "hd D \<in> set D" "last D \<in> set D" using D(1) by simp_all
  then have len: "hd D < length (bs_heap s)" "last D < length (bs_heap s)"
    using chain_less[OF D(2)] by blast+
  show "end_bitstream (hd D) False s = (Ret (), freed D s)"
    using len first_chunk_eq[OF D(2) chain_short[OF D(2,3)]]
    by (simp add: end_bitstream_def set_chunk_def freed_def modify_def)
  have "chain (bs_heap (freed D s)) (Some (hd D)) (D @ F)"
    using chain_link[OF D(2,1,3), of "free_bitstreams s" F] F by (simp add: free_ok_def set_chunk_def freed_def)
  then show "free_ok (freed D s) (D @ F)"
    using D F len by (auto simp: free_ok_def set_chunk_def freed_def nth_list_update)
qed

lemma moves_freed:
  assumes st: "store s C F"
    and D: "D \<noteq> []" "chain (bs_heap s) (Some (hd D)) D" "distinct D" "\<forall>a\<in>set D. length (bs_text (bs_heap s ! a)) = 64"
    and disj: "set D \<inter> (set C \<union> set F) = {}" and A: "set D \<union> set C \<union> set F \<subseteq> A"
  shows "moves s A C F (freed D s) C (D @ F) []"
proof -
  note S = storeD[OF st]
  have F: "free_ok (freed D s) (D @ F)" using end_bitstream_free(2)[OF D S(2)] disj by auto
  have "last D \<in> set D" using D(1) by simp
  have fr: "frame s {last D} None (freed D s)" by (simp add: frame_def freed_def set_chunk_def)
  have "set C \<inter> {last D} = {}" using disj \<open>last D \<in> set D\<close> by auto
  from frame_stream[OF fr S(1) this] have "stream (freed D s) C" "stream_bits (freed D s) C = stream_bits s C"
    "stream_file (freed D s) C = stream_file s C" by simp_all
  moreover have "frame s A (stream_file s C) (freed D s)"
    using A \<open>last D \<in> set D\<close> chain_less[OF D(2)] by (auto simp: frame_def freed_def set_chunk_def nth_list_update)
  ultimately show ?thesis using F S(3) disj A by (auto simp: moves_def store_def within_def)
qed

section \<open>Joining\<close>

lemma dump_other:
  assumes st: "store s C F" and f: "stream_file s C = Some f" and e: "chunk_bits (bs_heap s ! hd C) = []"
    and d: "d < length (bs_heap s)" "chunk_ok (bs_heap s ! d)" "bs_bytes (bs_heap s ! d) \<noteq> 0" "bs_file (bs_heap s ! d) = Some f"
    and A: "d \<notin> set C \<union> set F" "insert d (set C \<union> set F) \<subseteq> A"
  obtains s' where "dump_bitstream d s = (Ret (), s')" "bs_heap s' ! d = dumped (bs_heap s ! d)"
    "length (bs_heap s') = length (bs_heap s)"
    "moves s A C F s' C F (bytes_bits (take (bs_bytes (bs_heap s ! d)) (bs_text (bs_heap s ! d))))"
proof -
  let ?cs = "take (bs_bytes (bs_heap s ! d)) (bs_text (bs_heap s ! d))"
  let ?t = "dump_to (Some f) ?cs s :: 'a bits_state_scheme"
  let ?s = "set_chunk d (dumped (bs_heap s ! d)) ?t"
  note S = storeD[OF st]
  have fl: "bs_file (bs_heap s ! hd C) = Some f" "f < length (bs_files s)" "of_limit (bs_files s ! f) = None" "tl C = []"
    using S(1) f by (auto simp: stream_def stream_file_def)
  have run: "dump_bitstream d s = (Ret (), ?s)"
    using dump_bitstream_eq[OF d(1-3)] d(4) fl(2,3) by simp
  have st1: "store ?t C F"
    using st fl by (auto simp: store_def stream_def free_ok_def dump_to_def nth_list_update)
  have "stream_bits s C = dumped_bits s (Some f)"
    using stream_bits_prefix[OF S(1)] e f fl(4) by (simp add: prefix_bits_def)
  moreover have "stream_bits ?t C = dumped_bits ?t (Some f)"
    using stream_bits_prefix[OF storeD(1)[OF st1]] e f fl(4) by (simp add: prefix_bits_def stream_file_def)
  moreover have "dumped_bits ?t (Some f) = dumped_bits s (Some f) @ bytes_bits ?cs"
    using fl(2) by (simp add: dumped_bits_def dump_to_def)
  ultimately have m1: "moves s A C F ?t C F (bytes_bits ?cs)"
    using st1 f A fl(1) by (auto simp: moves_def stream_file_def frame_def dump_to_def within_def)
  have "moves ?t A C F ?s C F []" by (rule moves_other[OF st1]) (use A in auto)
  from moves_same[OF m1 this] run d(1) show thesis by (intro that[of ?s]) simp_all
qed

lemma join_chunk_moves:
  assumes st: "store s C F" and f: "stream_file s C = Some f"
    and d: "d < length (bs_heap s)" "chunk_ok (bs_heap s ! d)" "d \<notin> set C \<union> set F" "first \<Longrightarrow> bs_prev (bs_heap s ! d) = None"
  shows "\<exists>s' C' F'. join_chunk f (hd C) d first s = (Ret (hd C'), s') \<and>
    moves s (insert d (set C \<union> set F)) C F s' C' F' (chunk_bits (bs_heap s ! d))"
proof -
  let ?A = "insert d (set C \<union> set F)" and ?b = "bs_heap s ! d" and ?q = "bs_heap s ! hd C"
  note S = storeD[OF st]
  define dump where "dump = (if bs_bits ?q = 0 \<and> bs_bytes ?b \<noteq> 0
           then bind (bs_put d (\<lambda>c. c\<lparr>bs_file := Some f\<rparr>)) (\<lambda>_.
                bind (if bs_bytes ?q \<noteq> 0 then dump_bitstream (hd C) else ret ()) (\<lambda>_.
                bind (dump_bitstream d) (\<lambda>_.
                bs_put d (\<lambda>c. c\<lparr>bs_file := None\<rparr>))))
           else ret () :: ('a bits_state_scheme, unit) prog)"
  have "\<exists>s1 w1. dump s = (Ret (), s1) \<and> moves s ?A C F s1 C F w1 \<and> d < length (bs_heap s1) \<and>
      chunk_ok (bs_heap s1 ! d) \<and> bs_prev (bs_heap s1 ! d) = bs_prev ?b \<and> chunk_bits ?b = w1 @ chunk_bits (bs_heap s1 ! d)"
  proof (cases "bs_bits ?q = 0 \<and> bs_bytes ?b \<noteq> 0")
    case False
    have "dump s = (Ret (), s)" unfolding dump_def if_not_P[OF False] by (simp add: ret_def)
    moreover have "moves s ?A C F s C F []" by (rule moves_refl[OF st]) auto
    ultimately show ?thesis using d by auto
  next
    case True
    let ?s1 = "set_chunk d (?b\<lparr>bs_file := Some f\<rparr>) s"
    have nd: "hd C \<noteq> d" using d(3) S(7) by auto
    have m1: "moves s ?A C F ?s1 C F []" by (rule moves_other[OF st]) (use d(3) in auto)
    note st1 = movesD(1)[OF m1]
    have f1: "stream_file ?s1 C = Some f" using movesD(4)[OF m1] f by simp
    obtain s2 where s2: "(if bs_bytes ?q \<noteq> 0 then dump_bitstream (hd C) else ret ()) ?s1 = (Ret (), s2)"
      "moves ?s1 (set C \<union> set F) C F s2 C F []" "chunk_bits (bs_heap s2 ! hd C) = []"
    proof (cases "bs_bytes ?q = 0")
      case True
      have "chunk_bits (bs_heap ?s1 ! hd C) = []" using True \<open>bs_bits ?q = 0 \<and> _\<close> nd by (simp add: chunk_bits_def)
      moreover have "moves ?s1 (set C \<union> set F) C F ?s1 C F []" by (rule moves_refl[OF st1]) auto
      ultimately show thesis using True by (intro that[of ?s1]) (simp_all add: ret_def)
    next
      case False
      from dump_correct[OF st1 f1] obtain t where t: "dump_bitstream (hd C) ?s1 = (Ret (), t)" "encodes ?s1 C F t C F []"
        "bs_bytes (bs_heap t ! hd C) = 0" "bs_bits (bs_heap t ! hd C) = bs_bits (bs_heap ?s1 ! hd C)" by blast
      moreover have "bs_bits (bs_heap t ! hd C) = 0" using t(4) nd True by simp
      ultimately show thesis using False by (intro that[of t] encodes_moves) (auto simp: chunk_bits_def)
    qed
    note st2 = movesD(1)[OF s2(2)]
    have d2: "bs_heap s2 ! d = ?b\<lparr>bs_file := Some f\<rparr>" "d < length (bs_heap s2)"
      using moves_frame[OF s2(2), of d] d(1,3) by simp_all
    have f2: "stream_file s2 C = Some f" using movesD(4)[OF s2(2)] f1 by simp
    have ok2: "chunk_ok (bs_heap s2 ! d)" "bs_bytes (bs_heap s2 ! d) \<noteq> 0" "bs_file (bs_heap s2 ! d) = Some f"
      using d(2) True by (simp_all add: d2 chunk_ok_def)
    from dump_other[OF st2 f2 s2(3) d2(2) ok2 d(3) order_refl] obtain s3 where
      s3: "dump_bitstream d s2 = (Ret (), s3)" "bs_heap s3 ! d = dumped (bs_heap s2 ! d)"
      "length (bs_heap s3) = length (bs_heap s2)"
      "moves s2 ?A C F s3 C F (bytes_bits (take (bs_bytes (bs_heap s2 ! d)) (bs_text (bs_heap s2 ! d))))"
      by blast
    let ?b3 = "(bs_heap s3 ! d)\<lparr>bs_file := None\<rparr>"
    let ?s4 = "set_chunk d ?b3 s3"
    have m4: "moves s3 ?A C F ?s4 C F []" by (rule moves_other[OF movesD(1)[OF s3(4)]]) (use d(3) in auto)
    have "dump s = (Ret (), ?s4)"
      unfolding dump_def if_P[OF True] using d(1) s2(1) s3 d2(2) by (simp add: bs_put_eq)
    moreover have "moves s ?A C F ?s4 C F (bytes_bits (take (bs_bytes ?b) (bs_text ?b)))"
      using moves_same[OF moves_same[OF moves_same[OF m1 moves_mono[OF s2(2) subset_insertI]] s3(4)] m4] d2(1) by simp
    moreover have "chunk_ok ?b3" "bs_prev ?b3 = bs_prev ?b"
      using dumped_facts(1,2)[OF ok2(1)] s3(2) d2(1) by (simp_all add: chunk_ok_def same_links_def)
    moreover have "chunk_bits ?b = bytes_bits (take (bs_bytes ?b) (bs_text ?b)) @ chunk_bits ?b3"
      using dumped_facts(5)[OF ok2(1)] s3(2) d2(1) by (simp add: chunk_bits_def)
    ultimately show ?thesis using d2(2) s3(3) by auto
  qed
  then obtain s1 w1 where s1: "dump s = (Ret (), s1)" "moves s ?A C F s1 C F w1" "d < length (bs_heap s1)"
      "chunk_ok (bs_heap s1 ! d)" "bs_prev (bs_heap s1 ! d) = bs_prev ?b" "chunk_bits ?b = w1 @ chunk_bits (bs_heap s1 ! d)"
    by blast
  note st1 = movesD(1)[OF s1(2)]
  obtain s2 C2 F2 where s2: "copy_bitstream (hd C) d s1 = (Ret (hd C2), s2)"
    "encodes s1 C F s2 C2 F2 (chunk_bits (bs_heap s1 ! d))" "store s2 C2 F2"
    by (rule appendsE[OF copy_appends[OF st1 s1(3,4) d(3)]])
  have m2: "moves s1 ?A C F s2 C2 F2 (chunk_bits (bs_heap s1 ! d))" by (rule encodes_moves[OF s2(2)]) auto
  have m12: "moves s ?A C F s2 C2 F2 (chunk_bits ?b)" using moves_same[OF s1(2) m2] s1(6) by simp
  have d2: "bs_heap s2 ! d = bs_heap s1 ! d" "d < length (bs_heap s2)" "d \<notin> set C2 \<union> set F2"
    using encodesD(4,5)[OF s2(2)] d(3) s1(3) by (auto simp: frame_def within_def)
  have run: "join_chunk f (hd C) d first s =
      bind (if first then end_bitstream d False else ret ()) (\<lambda>_. ret (hd C2)) s2"
  proof -
    have "join_chunk f (hd C) d first s = bind dump (\<lambda>_. bind (copy_bitstream (hd C) d) (\<lambda>fs.
        bind (if first then end_bitstream d False else ret ()) (\<lambda>_. ret fs))) s"
      unfolding join_chunk_def dump_def by (simp only: bind_bs_get[OF S(4)] bind_bs_get[OF d(1)])
    with s1(1) s2(1) show ?thesis by simp
  qed
  show ?thesis
  proof (cases first)
    case False
    then show ?thesis using run m12 by (auto simp: ret_def)
  next
    case True
    have D: "[d] \<noteq> []" "chain (bs_heap s2) (Some (hd [d])) [d]" "distinct [d]"
      "\<forall>a\<in>set [d]. length (bs_text (bs_heap s2 ! a)) = 64"
      using d2 s1(4,5) d(4)[OF True] by (simp_all add: chunk_ok_def)
    have "moves s2 (insert d (set C2 \<union> set F2)) C2 F2 (freed [d] s2) C2 ([d] @ F2) []"
      using moves_freed[OF s2(3) D, of "insert d (set C2 \<union> set F2)"] d2(3) by auto
    from moves_trans[OF m12 this] have "moves s ?A C F (freed [d] s2) C2 ([d] @ F2) (chunk_bits ?b)"
      using movesD(6)[OF m12] by (simp add: within_def)
    moreover have "end_bitstream d False s2 = (Ret (), freed [d] s2)"
      using end_bitstream_free(1)[OF D storeD(2)[OF s2(3)]] d2(3) by simp
    ultimately show ?thesis using run True by (auto simp: ret_def)
  qed
qed

lemma join_to_file_moves:
  "store s C F \<Longrightarrow> stream_file s C = Some f \<Longrightarrow> chain (bs_heap s) (Some (hd D)) D \<Longrightarrow> D \<noteq> [] \<Longrightarrow> distinct D \<Longrightarrow>
   \<forall>a\<in>set D. chunk_ok (bs_heap s ! a) \<Longrightarrow> set D \<inter> (set C \<union> set F) = {} \<Longrightarrow> length D \<le> k \<Longrightarrow>
   \<exists>s' C' F'. join_to_file k f (hd C) (hd D) s = (Ret (hd C'), s') \<and>
     moves s (set C \<union> set F \<union> set D) C F s' C' F' (chain_bits (bs_heap s) D)"
proof (induction D arbitrary: k s C F)
  case (Cons d D)
  note st = \<open>store s C F\<close> and f = \<open>stream_file s C = Some f\<close>
  from Cons.prems obtain j where k: "k = Suc j" "length D \<le> j" by (cases k) auto
  let ?A = "set C \<union> set F \<union> set (d # D)" and ?b = "bs_heap s ! d"
  have d: "d < length (bs_heap s)" "d \<notin> set C \<union> set F" "d \<notin> set D" "chain (bs_heap s) (bs_prev ?b) D" "chunk_ok ?b"
    using Cons.prems by auto
  note S = storeD[OF st]
  obtain s1 where s1: "(if bs_link (bs_heap s ! hd C) = None then bs_put (hd C) (\<lambda>c. c\<lparr>bs_link := bs_link ?b\<rparr>) else ret ()) s
      = (Ret (), s1)" "moves s (set C \<union> set F) C F s1 C F []"
  proof (cases "bs_link (bs_heap s ! hd C) = None")
    case True
    then show thesis
      using that moves_link[OF st order_refl, of "bs_link ?b"] S(4) by (simp add: bs_put_eq)
  next
    case False
    then show thesis using moves_refl[OF st order_refl] by (intro that[of s]) (auto simp: ret_def)
  qed
  note st1 = movesD(1)[OF s1(2)]
  have f1: "stream_file s1 C = Some f" using movesD(4)[OF s1(2)] f by simp
  have keep1: "bs_heap s1 ! a = bs_heap s ! a" "a < length (bs_heap s1)" if "a \<in> set (d # D)" for a
    using that moves_frame[OF s1(2), of a] chain_less[OF Cons.prems(3)] Cons.prems(7) by auto
  have "\<exists>s2 C2 F2. (case bs_prev ?b of None \<Rightarrow> ret (hd C) | Some ps \<Rightarrow> join_to_file j f (hd C) ps) s1 = (Ret (hd C2), s2) \<and>
     moves s1 (set C \<union> set F \<union> set D) C F s2 C2 F2 (chain_bits (bs_heap s) D)"
  proof (cases "D = []")
    case True
    then show ?thesis using d(4) moves_refl[OF st1 order_refl] by (auto simp: ret_def)
  next
    case False
    then have p: "bs_prev ?b = Some (hd D)" using d(4) by (cases D) auto
    have "chain (bs_heap s1) (Some (hd D)) D"
      using d(4) unfolding p by (rule chain_cong) (use keep1 in auto)
    from Cons.IH[OF st1 f1 this False _ _ _ k(2)] Cons.prems keep1 show ?thesis
      using p by (simp add: chain_bits_cong[of D "bs_heap s1" "bs_heap s"])
  qed
  then obtain s2 C2 F2 where s2: "(case bs_prev ?b of None \<Rightarrow> ret (hd C) | Some ps \<Rightarrow> join_to_file j f (hd C) ps) s1 = (Ret (hd C2), s2)"
     "moves s1 (set C \<union> set F \<union> set D) C F s2 C2 F2 (chain_bits (bs_heap s) D)" by blast
  have m2: "moves s ?A C F s2 C2 F2 (chain_bits (bs_heap s) D)"
    using moves_same[OF moves_mono[OF s1(2)] moves_mono[OF s2(2)], of ?A] by auto
  have d2: "bs_heap s2 ! d = ?b" "d < length (bs_heap s2)"
    using moves_frame[OF s2(2), of d] d keep1[of d] by auto
  have "d \<notin> set C2 \<union> set F2"
    using movesD(6)[OF s2(2)] d keep1(2)[of d] by (auto simp: within_def)
  moreover have "stream_file s2 C2 = Some f" using movesD(4)[OF s2(2)] f1 by simp
  ultimately obtain s3 C3 F3 where s3: "join_chunk f (hd C2) d (bs_prev ?b = None) s2 = (Ret (hd C3), s3)"
    "moves s2 (insert d (set C2 \<union> set F2)) C2 F2 s3 C3 F3 (chunk_bits ?b)"
    using join_chunk_moves[OF movesD(1)[OF s2(2)], of f d "bs_prev ?b = None"] d2 d(5) by auto
  have "within s ?A s2 (insert d (set C2 \<union> set F2))" using movesD(6)[OF m2] by (simp add: within_def)
  from moves_trans[OF m2 s3(2) this] have "moves s ?A C F s3 C3 F3 (chain_bits (bs_heap s) (d # D))" by simp
  moreover have "join_to_file k f (hd C) (hd (d # D)) s = (Ret (hd C3), s3)"
    unfolding k(1) join_to_file.simps list.sel bind_bs_get[OF S(4)] bind_bs_get[OF d(1)]
    by (simp only: bind_def s1(1) s2(1) s3(1) outcome.case prod.case)
  ultimately show ?case by blast
qed simp

lemma store_other:
  assumes "moves s A C F s' C' F' w" "stream s D" "set D \<inter> A = {}" "stream_file s D = None"
  shows "stream s' D" "stream_bits s' D = stream_bits s D" "stream_file s' D = None" "set D \<inter> (set C' \<union> set F') = {}"
proof -
  have "frame s A (stream_file s C) s'" using assms(1) by (simp add: moves_def)
  from frame_stream[OF this assms(2,3)] assms(4) show "stream s' D" "stream_bits s' D = stream_bits s D" "stream_file s' D = None"
    by auto
  have "a < length (bs_heap s)" if "a \<in> set D" for a using that assms(2) chain_less by (auto simp: stream_def)
  then show "set D \<inter> (set C' \<union> set F') = {}" using movesD(6)[OF assms(1)] assms(3) by (fastforce simp: within_def)
qed

lemma stream_bits_chain: "stream_file s D = None \<Longrightarrow> stream_bits s D = chain_bits (bs_heap s) D"
  by (simp add: stream_bits_def stream_file_def dumped_bits_def)

lemma join_linked:
  assumes st: "store s C F" and D: "stream s D" "stream_file s D = None" "set D \<inter> (set C \<union> set F) = {}"
    and C: "stream_file s C = None"
  shows "moves s (set C \<union> set F \<union> set D) C F
    (set_chunk (last D) ((bs_heap s ! last D)\<lparr>bs_prev := Some (hd C)\<rparr>) s) (D @ C) F (stream_bits s D)"
    (is "moves s ?A C F ?s _ _ _")
proof -
  let ?b = "(bs_heap s ! last D)\<lparr>bs_prev := Some (hd C)\<rparr>"
  note S = storeD[OF st]
  have ne: "D \<noteq> []" "chain (bs_heap s) (Some (hd D)) D" "distinct D" using D(1) by (auto simp: stream_def)
  have l: "last D \<in> set D" "last D < length (bs_heap s)" using ne(1) chain_less[OF ne(2)] by auto
  have eq: "bs_text (bs_heap ?s ! a) = bs_text (bs_heap s ! a)" "bs_bytes (bs_heap ?s ! a) = bs_bytes (bs_heap s ! a)"
    "bs_bits (bs_heap ?s ! a) = bs_bits (bs_heap s ! a)" "bs_file (bs_heap ?s ! a) = bs_file (bs_heap s ! a)" for a
    using l(2) by (cases "a = last D"; simp)+
  have "chain (bs_heap ?s) (Some (hd D)) (D @ C)"
    using chain_link[OF ne(2,1,3), of "Some (hd C)" C] S(1) D(3) by (auto simp: stream_def set_chunk_def)
  moreover have "bs_file (bs_heap ?s ! hd D) = None" using eq(4) D(2) by (simp add: stream_file_def)
  ultimately have DC: "stream ?s (D @ C)"
    using ne S(1) D(1,3) eq by (auto simp: stream_def chunk_ok_def)
  have "stream_bits ?s (D @ C) = stream_bits s C @ stream_bits s D"
    using ne(1) D(2) C eq by (simp add: stream_bits_chain stream_bits_def dumped_bits_def stream_file_def chain_bits_def chunk_bits_def)
  moreover have "free_ok ?s F" by (rule free_ok_frame[OF frame_set_chunk S(2)]) (use l D(3) in auto)
  moreover have "frame s ?A (stream_file s C) ?s" using l by (intro frame_mono[OF frame_set_chunk]) auto
  ultimately show ?thesis
    using DC ne(1) D(2,3) C eq(4) S(3) by (auto simp: moves_def store_def within_def stream_file_def)
qed

theorem join_correct:
  assumes st: "store s C F" and D: "stream s D" "stream_file s D = None" "set D \<inter> (set C \<union> set F) = {}"
  shows "\<exists>s' C' F'. join_bitstreams (Some (hd C)) (Some (hd D)) s = (Ret (Some (hd C')), s') \<and>
    moves s (set C \<union> set F \<union> set D) C F s' C' F' (stream_bits s D)"
proof -
  let ?A = "set C \<union> set F \<union> set D" and ?q = "bs_heap s ! hd C" and ?b = "bs_heap s ! hd D"
  note S = storeD[OF st] and T = streamD[OF D(1)]
  have ne: "chain (bs_heap s) (Some (hd D)) D" "distinct D" "\<forall>a\<in>set D. chunk_ok (bs_heap s ! a)" using D(1) by (auto simp: stream_def)
  show ?thesis
  proof (cases "stream_file s C")
    case (Some f)
    from join_to_file_moves[OF st this ne(1) T(7) ne(2,3) D(3) chain_short[OF ne(1,2)]] obtain s' C' F' where
      "join_to_file (length (bs_heap s)) f (hd C) (hd D) s = (Ret (hd C'), s')"
      "moves s ?A C F s' C' F' (chain_bits (bs_heap s) D)" by blast
    then show ?thesis
      using Some S(4) T(2) D(2) by (auto simp: join_bitstreams_def stream_file_def stream_bits_def dumped_bits_def ret_def)
  next
    case None
    obtain s1 where s1: "(if bs_link ?q = None then bs_put (hd C) (\<lambda>c. c\<lparr>bs_link := bs_link ?b\<rparr>) else ret ()) s
        = (Ret (), s1)" "moves s (set C \<union> set F) C F s1 C F []" "length (bs_heap s1) = length (bs_heap s)"
    proof (cases "bs_link ?q = None")
      case True
      then show thesis
        using that[of "set_chunk (hd C) (?q\<lparr>bs_link := bs_link ?b\<rparr>) s"] moves_link[OF st order_refl, of "bs_link ?b"] S(4)
        by (simp add: bs_put_eq)
    next
      case False
      then show thesis using moves_refl[OF st order_refl] by (intro that[of s]) (auto simp: ret_def)
    qed
    note st1 = movesD(1)[OF s1(2)]
    note D1 = store_other[OF s1(2) D(1) _ D(2)]
    have D1': "stream s1 D" "stream_bits s1 D = stream_bits s D" "stream_file s1 D = None" using D1 D(3) by simp_all
    have keep: "bs_heap s1 ! a = bs_heap s ! a" "a < length (bs_heap s1)" if "a \<in> set D" for a
      using that moves_frame[OF s1(2), of a] chain_less[OF ne(1)] D(3) by auto
    have C1: "stream_file s1 C = None" using movesD(4)[OF s1(2)] None by simp
    have run: "join_bitstreams (Some (hd C)) (Some (hd D)) s =
      (if bs_prev ?b = None \<and> bs_bytes ?b < CHUNK_COPY
           then bind (copy_bitstream (hd C) (hd D)) (\<lambda>fs. bind (end_bitstream (hd D) False) (\<lambda>_. ret (Some fs)))
           else bind (gets (\<lambda>s. length (bs_heap s))) (\<lambda>k. bind (first_chunk k (hd D)) (\<lambda>ps.
             bind (bs_put ps (\<lambda>c. c\<lparr>bs_prev := Some (hd C)\<rparr>)) (\<lambda>_. ret (Some (hd D)))))) s1"
    proof -
      have "bs_file ?q = None" using None by (simp add: stream_file_def)
      then show ?thesis
        unfolding join_bitstreams_def option.case bind_bs_get[OF S(4)] bind_bs_get[OF T(2)]
        by (simp only: option.case bind_def[of "if _ then _ else _"] s1(1) outcome.case prod.case)
    qed
    show ?thesis
    proof (cases "bs_prev ?b = None \<and> bs_bytes ?b < CHUNK_COPY")
      case True
      then have Dd: "D = [hd D]" using T(1,5) by (cases "tl D") auto
      have d: "hd D < length (bs_heap s1)" "chunk_ok (bs_heap s1 ! hd D)" "hd D \<notin> set C \<union> set F"
        using keep T(3,8) D(3) by auto
      obtain s2 C2 F2 where s2: "copy_bitstream (hd C) (hd D) s1 = (Ret (hd C2), s2)"
        "encodes s1 C F s2 C2 F2 (chunk_bits (bs_heap s1 ! hd D))" "store s2 C2 F2"
        by (rule appendsE[OF copy_appends[OF st1 d]])
      have m2: "moves s1 (set C \<union> set F) C F s2 C2 F2 (chunk_bits (bs_heap s1 ! hd D))" by (rule encodes_moves[OF s2(2)]) simp
      have bits: "chunk_bits (bs_heap s1 ! hd D) = stream_bits s D"
        using D1'(2,3) Dd by (metis chain_bits_simps(1,2) append_Nil stream_bits_chain)
      have m12: "moves s (set C \<union> set F) C F s2 C2 F2 (stream_bits s D)" using moves_same[OF s1(2) m2] bits by simp
      have D2: "stream s2 D" "set D \<inter> (set C2 \<union> set F2) = {}" using store_other[OF m2 D1'(1) D(3) D1'(3)] by simp_all
      have D2': "D \<noteq> []" "chain (bs_heap s2) (Some (hd D)) D" "distinct D" "\<forall>a\<in>set D. length (bs_text (bs_heap s2 ! a)) = 64"
        using D2(1) by (auto simp: stream_def chunk_ok_def)
      let ?B = "set C2 \<union> set F2 \<union> set D"
      have m3: "moves s2 ?B C2 F2 (freed D s2) C2 (D @ F2) []"
        by (rule moves_freed[OF s2(3) D2' D2(2)]) auto
      have "moves s ?A C F (freed D s2) C2 (D @ F2) (stream_bits s D)"
        using moves_trans[OF moves_mono[OF m12, of ?A] m3] movesD(6)[OF m12] by (auto simp: within_def)
      moreover have "set D \<inter> set F2 = {}" using D2(2) by auto
      note end_bitstream_free(1)[OF D2' storeD(2)[OF s2(3)] this]
      ultimately show ?thesis unfolding run if_P[OF True] using s2(1) by (auto simp: ret_def)
    next
      case False
      have "first_chunk (length (bs_heap s1)) (hd D) s1 = (Ret (last D), s1)"
        using D1'(1) chain_short by (intro first_chunk_eq) (auto simp: stream_def)
      then have "join_bitstreams (Some (hd C)) (Some (hd D)) s =
          (Ret (Some (hd (D @ C))), set_chunk (last D) ((bs_heap s1 ! last D)\<lparr>bs_prev := Some (hd C)\<rparr>) s1)"
        unfolding run if_not_P[OF False] using keep(2)[of "last D"] T(7) by (simp add: ret_def)
      moreover have "moves s ?A C F (set_chunk (last D) ((bs_heap s1 ! last D)\<lparr>bs_prev := Some (hd C)\<rparr>) s1) (D @ C) F (stream_bits s D)"
        using moves_same[OF moves_mono[OF s1(2), of ?A] join_linked[OF st1 D1'(1,3) D(3) C1]] D1'(2) by auto
      ultimately show ?thesis by blast
    qed
  qed
qed

section \<open>Writing a stream in front of its length, and ending a file\<close>

lemma enc_bitstream_moves:
  assumes st: "store s C F" and D: "stream s D" "stream_file s D = None" "set D \<inter> (set C \<union> set F) = {}"
    and len: "length (stream_bits s D) < 2 ^ 32"
  shows "\<exists>s' C' F'. enc_bitstream (hd C) (hd D) s = (Ret (Some (hd C')), s') \<and>
    moves s (set C \<union> set F \<union> set D) C F s' C' F' (int_bits (length (stream_bits s D)) @ stream_bits s D)"
proof -
  let ?l = "length (stream_bits s D)" and ?A = "set C \<union> set F \<union> set D"
  have n: "length_bitstream (Some (hd D)) s = (Ret (of_nat ?l), s)"
    using length_bitstream_eq[OF D(1)] stream_bits_chain[OF D(2)] by simp
  have u: "unat (ucast (of_nat ?l :: cuint) :: culong) = ?l"
    using len by (simp add: unsigned_ucast_eq take_bit_eq_mod unat_of_nat)
  obtain s1 C1 F1 where s1: "enc_int (hd C) (ucast (of_nat ?l :: cuint)) s = (Ret (hd C1), s1)"
    "encodes s C F s1 C1 F1 (int_bits ?l)" "store s1 C1 F1"
    by (rule appendsE[OF enc_int_appends[OF st, of "ucast (of_nat ?l :: cuint)", unfolded u]])
  have m1: "moves s (set C \<union> set F) C F s1 C1 F1 (int_bits ?l)" by (rule encodes_moves[OF s1(2)]) simp
  note D1 = store_other[OF m1 D(1,3,2)]
  from join_correct[OF s1(3) D1(1,3,4)] obtain s2 C2 F2 where s2:
    "join_bitstreams (Some (hd C1)) (Some (hd D)) s1 = (Ret (Some (hd C2)), s2)"
    "moves s1 (set C1 \<union> set F1 \<union> set D) C1 F1 s2 C2 F2 (stream_bits s1 D)" by blast
  have "moves s ?A C F s2 C2 F2 (int_bits ?l @ stream_bits s D)"
    using moves_trans[OF moves_mono[OF m1, of ?A] s2(2)] movesD(6)[OF m1] D1(2) by (auto simp: within_def)
  moreover have "enc_bitstream (hd C) (hd D) s = (Ret (Some (hd C2)), s2)"
    using n s1(1) s2(1) by (simp add: enc_bitstream_def)
  ultimately show ?thesis by blast
qed

theorem end_file_correct:
  assumes st: "store s C F" and f: "stream_file s C = Some f"
  shows "\<exists>s'. end_bitstream (hd C) True s = (Ret (), s') \<and> free_ok s' (C @ F) \<and>
    bytes_bits (of_data (bs_files s' ! f)) = stream_bits s C @ pad_bits (length (stream_bits s C))"
proof -
  let ?w = "stream_bits s C @ pad_bits (length (stream_bits s C))"
  note S = storeD[OF st]
  obtain s1 C1 F1 where s1': "enc_boundary (hd C) s = (Ret (hd C1), s1)"
    "encodes s C F s1 C1 F1 (pad_bits (length (stream_bits s C)))" "store s1 C1 F1"
    by (rule appendsE[OF enc_boundary_appends[OF st]])
  have s1: "enc_boundary (hd C) s = (Ret (hd C), s1)" "encodes s C F s1 C F (pad_bits (length (stream_bits s C)))" "store s1 C F"
    using s1' encodesD(8)[OF s1'(2) f] by simp_all
  have f1: "stream_file s1 C = Some f" using encodesD(6)[OF s1(2)] f by simp
  from dump_correct[OF s1(3) f1] obtain s2 where s2: "dump_bitstream (hd C) s1 = (Ret (), s2)" "encodes s1 C F s2 C F []"
    "bs_bytes (bs_heap s2 ! hd C) = 0" "bs_bits (bs_heap s2 ! hd C) = bs_bits (bs_heap s1 ! hd C)" by blast
  note st2 = encodesD(1)[OF s2(2)]
  have f2: "stream_file s2 C = Some f" using encodesD(6)[OF s2(2)] f1 by simp
  have w: "stream_bits s2 C = ?w" using encodesD(3)[OF s2(2)] encodesD(3)[OF s1(2)] by simp
  have len: "length ?w mod 8 = 0" using length_pad_bits[of "length (stream_bits s C)"] by simp
  have ok: "chunk_ok (bs_heap s2 ! hd C)" using storeD(5)[OF st2] .
  have C: "C = [hd C]" using storeD(1)[OF st2] f2 by (cases C) (auto simp: stream_def stream_file_def)
  have eq: "stream_bits s2 C = bytes_bits (of_data (bs_files s2 ! f)) @ chunk_bits (bs_heap s2 ! hd C)"
    using f2 by (subst C) (simp add: stream_bits_def stream_file_def dumped_bits_def)
  have "length (chunk_bits (bs_heap s2 ! hd C)) = bs_bits (bs_heap s2 ! hd C)"
    using length_chunk_bits[OF ok] s2(3) by simp
  moreover have "length (stream_bits s2 C) mod 8 = 0" using w len by simp
  ultimately have "bs_bits (bs_heap s2 ! hd C) mod 8 = 0" unfolding eq by simp
  then have "bs_bits (bs_heap s2 ! hd C) = 0" using ok by (simp add: chunk_ok_def)
  then have "chunk_bits (bs_heap s2 ! hd C) = []" using s2(3) by (simp add: chunk_bits_def)
  then have data: "bytes_bits (of_data (bs_files s2 ! f)) = ?w" using eq w by simp
  have D2: "C \<noteq> []" "chain (bs_heap s2) (Some (hd C)) C" "distinct C" "\<forall>a\<in>set C. length (bs_text (bs_heap s2 ! a)) = 64"
    using storeD(1)[OF st2] by (auto simp: stream_def chunk_ok_def)
  have "end_bitstream (hd C) True s = end_bitstream (hd C) False s2"
    using S(4) storeD(4)[OF st2] f s1(1) s2(1) by (simp add: end_bitstream_def stream_file_def bind_assoc)
  then have "end_bitstream (hd C) True s = (Ret (), freed C s2)"
    using end_bitstream_free(1)[OF D2 storeD(2,3)[OF st2]] by simp
  moreover have "free_ok (freed C s2) (C @ F)" using end_bitstream_free(2)[OF D2 storeD(2,3)[OF st2]] .
  ultimately show ?thesis using data by (auto simp: freed_def)
qed

text \<open>A new stream on an empty file, or without a file.\<close>

lemma start_file_store:
  assumes "free_ok s F" "f < length (bs_files s)" "bs_files s ! f = \<lparr>of_data = [], of_limit = None\<rparr>"
  shows "\<exists>s' C F'. start_bitstream (Some f) lnk s = (Ret (hd C), s') \<and> store s' C F' \<and> stream_bits s' C = [] \<and>
    stream_file s' C = Some f \<and> frame s (set F) None s' \<and> within s (set F) s' (set C \<union> set F')"
proof -
  from start_bitstream_fresh[OF assms(1), of "Some f" lnk] obtain p s' F' where p:
    "start_bitstream (Some f) lnk s = (Ret p, s')" "free_ok s' F'" "p \<notin> set F'" "p < length (bs_heap s')"
    "frame s (set F) None s'" "within s (set F) s' (insert p (set F'))" "bs_files s' = bs_files s"
    "chunk_ok (bs_heap s' ! p)" "bs_bytes (bs_heap s' ! p) = 0" "bs_bits (bs_heap s' ! p) = 0"
    "bs_file (bs_heap s' ! p) = Some f" "bs_link (bs_heap s' ! p) = lnk" "bs_prev (bs_heap s' ! p) = None" by blast
  show ?thesis
    by (rule exI[of _ s'], rule exI[of _ "[p]"], rule exI[of _ F'])
      (use p assms in \<open>auto simp: store_def stream_def stream_bits_def dumped_bits_def chunk_bits_def stream_file_def\<close>)
qed

lemma start_stream_store:
  assumes "free_ok s F"
  shows "\<exists>s' C F'. start_bitstream None lnk s = (Ret (hd C), s') \<and> store s' C F' \<and> stream_bits s' C = [] \<and>
    stream_file s' C = None \<and> stream_link s' C = lnk \<and> frame s (set F) None s' \<and> within s (set F) s' (set C \<union> set F')"
proof -
  from start_bitstream_fresh[OF assms(1), of None lnk] obtain p s' F' where p:
    "start_bitstream None lnk s = (Ret p, s')" "free_ok s' F'" "p \<notin> set F'" "p < length (bs_heap s')"
    "frame s (set F) None s'" "within s (set F) s' (insert p (set F'))" "bs_files s' = bs_files s"
    "chunk_ok (bs_heap s' ! p)" "bs_bytes (bs_heap s' ! p) = 0" "bs_bits (bs_heap s' ! p) = 0"
    "bs_file (bs_heap s' ! p) = None" "bs_link (bs_heap s' ! p) = lnk" "bs_prev (bs_heap s' ! p) = None" by blast
  show ?thesis
    by (rule exI[of _ s'], rule exI[of _ "[p]"], rule exI[of _ F'])
      (use p assms in \<open>auto simp: store_def stream_def stream_bits_def dumped_bits_def chunk_bits_def stream_file_def stream_link_def\<close>)
qed

end
