(* ===== verification/Producer_Names.thy ===== *)
theory Producer_Names
  imports Libtdf_Join
begin

text \<open>
  How the C and C++ producer writes strings and external names, \<^verbatim>\<open>tdfc2/src/common/output/encode.c\<close>
  and \<^verbatim>\<open>enc_name\<close> of \<^verbatim>\<open>output/capsule.c\<close>, with the conversion to ASCII of \<^verbatim>\<open>parse/char.c\<close>. A string
  is the list of the bytes in front of its null byte.
\<close>

section \<open>parse/char.c\<close>

definition NO_CHAR :: nat where "NO_CHAR = 256"

text \<open>The variables of \<^verbatim>\<open>char.c\<close> and of \<^verbatim>\<open>mangle.c\<close> that the output routines read.\<close>

record names_state = bits_state +
  is_ascii :: bool
  to_ascii_tab :: "byte list"
  mangle_length :: culong

definition to_ascii :: "byte list \<Rightarrow> culong \<Rightarrow> culong" where
  "to_ascii tab c = (if unat c < NO_CHAR then ucast (tab ! unat c) else c)"

text \<open>
  \<^verbatim>\<open>init_ascii\<close> fills the table from that of \<^verbatim>\<open>char.h\<close>, whose entry for an ASCII code is the native
  character, or the null byte (\<^verbatim>\<open>char_illegal\<close>).
\<close>

fun init_ascii_loop :: "nat \<Rightarrow> byte list \<Rightarrow> byte list \<Rightarrow> bool \<Rightarrow> byte list \<times> byte list \<times> bool" where
  "init_ascii_loop 0 from_tab to_tab asc = (from_tab, to_tab, asc)"
| "init_ascii_loop (Suc k) from_tab to_tab asc =
     (let c = NO_CHAR - Suc k;
          a = (if from_tab ! c = 0 then of_nat c else from_tab ! c) in
      init_ascii_loop k (from_tab[c := a]) (to_tab[unat a := of_nat c]) (asc \<and> a = of_nat c))"

definition init_ascii :: "byte list \<Rightarrow> byte list \<times> byte list \<times> bool" where
  "init_ascii from_tab = init_ascii_loop NO_CHAR from_tab (map of_nat [0..<NO_CHAR]) True"

section \<open>output/encode.c\<close>

definition enc_ascii :: "nat \<Rightarrow> nat \<Rightarrow> byte list \<Rightarrow> ('z names_state_scheme, nat) prog" where
  "enc_ascii bs n cs = bind (gets is_ascii) (\<lambda>asc.
     if asc then enc_bytes bs n cs
     else bind (check (n \<le> length cs)) (\<lambda>_. bind (gets to_ascii_tab) (\<lambda>tab.
       bind (bs_get bs) (\<lambda>p.
       let ds = map (\<lambda>c. ucast (to_ascii tab (ucast c))) (take n cs) in
       if bs_bits p \<noteq> 0 then enc_bytes_unaligned bs ds
       else bind (enc_bytes_aligned bs (bs_bytes p) ds) (\<lambda>(bs, bytes).
         bind (bs_put bs (\<lambda>c. c\<lparr>bs_bytes := bytes\<rparr>)) (\<lambda>_. ret bs))))))"

definition enc_ident :: "nat \<Rightarrow> byte list \<Rightarrow> nat \<Rightarrow> ('z names_state_scheme, nat) prog" where
  "enc_ident bs s n =
     bind (enc_int bs (of_nat BYTE_SIZE)) (\<lambda>bs.
     bind (enc_int bs (of_nat n)) (\<lambda>bs.
     bind (enc_boundary bs) (\<lambda>bs.
     enc_ascii bs n s)))"

definition enc_tdfstring :: "nat \<Rightarrow> nat \<Rightarrow> byte list \<Rightarrow> ('z names_state_scheme, nat) prog" where
  "enc_tdfstring bs n s =
     bind (enc_int bs (of_nat BYTE_SIZE)) (\<lambda>bs.
     bind (enc_int bs (of_nat n)) (\<lambda>bs.
     enc_ascii bs n s))"

definition enc_ustring :: "nat \<Rightarrow> byte list \<Rightarrow> ('z names_state_scheme, nat) prog" where
  "enc_ustring bs s =
     bind (enc_int bs (of_nat BYTE_SIZE)) (\<lambda>bs.
     bind (enc_int bs (of_nat (length s))) (\<lambda>bs.
     enc_ascii bs (length s) s))"

section \<open>enc_name\<close>

definition space :: byte where "space = 32"

text \<open>The components between spaces, and their number as the first loop counts it.\<close>

fun count_components :: "byte list \<Rightarrow> cuint \<Rightarrow> cuint" where
  "count_components [] u = u + 1"
| "count_components (c # cs) u = (if c = space then count_components cs (u + 1) else count_components cs u)"

function enc_components :: "nat \<Rightarrow> byte list \<Rightarrow> ('z names_state_scheme, nat) prog" where
  "enc_components bs s =
     (if space \<notin> set s then enc_ident bs s (length s)
      else let n = length (takeWhile (\<lambda>c. c \<noteq> space) s) in
        bind (enc_ident bs s n) (\<lambda>bs. enc_components bs (drop (n + 1) s)))"
  by pat_completeness auto
termination
  by (relation "measure (\<lambda>(bs, s). length s)") (auto dest: length_pos_if_in_set)

declare enc_components.simps [simp del]

text \<open>\<open>tag\<close> tells whether the name is that of a tag, \<^verbatim>\<open>v == VAR_tag\<close>.\<close>

definition enc_name :: "nat \<Rightarrow> byte list \<Rightarrow> bool \<Rightarrow> ('z names_state_scheme, nat) prog" where
  "enc_name bs s tag =
     (let u = count_components s 0 in
      if u = 1 then
        bind (gets mangle_length) (\<lambda>ml.
        let n = (if tag \<and> length s > unat ml then unat ml else length s) in
        bind (enc_bits bs 2 1) (\<lambda>bs.
        bind (enc_boundary bs) (\<lambda>bs.
        enc_ident bs s n)))
      else
        bind (enc_bits bs 2 2) (\<lambda>bs.
        bind (enc_boundary bs) (\<lambda>bs.
        bind (enc_int bs (ucast u)) (\<lambda>bs.
        enc_components bs s))))"

end
