(* ===== verification/Producer_Codec.thy ===== *)
theory Producer_Codec
  imports Producer_Names Io_Properties
begin

text \<open>
  The producer's encoding routines against the linker's reader: what the routines of libtdf and of the
  producer append to a bitstream is the encoding, in half bytes, from which the reader of
  \<^verbatim>\<open>tld/src/adt/tdf-read.c\<close> gets the same data back.
\<close>

section \<open>Bits and half bytes\<close>

definition nib_bits :: "nat list \<Rightarrow> bool list" where
  "nib_bits ns = concat (map (\<lambda>n. word_bits 4 (of_nat n :: cuint)) ns)"

lemma nib_bits_simps [simp]:
  "nib_bits [] = []" "nib_bits (n # ns) = word_bits 4 (of_nat n :: cuint) @ nib_bits ns"
  "nib_bits (ms @ ns) = nib_bits ms @ nib_bits ns"
  by (simp_all add: nib_bits_def)

lemma length_nib_bits [simp]: "length (nib_bits ns) = 4 * length ns"
  by (induction ns) auto

lemma octal_bits_nib: "octal_bits n = nib_bits (octal n)"
proof (induction n rule: octal.induct)
  case (1 n)
  then show ?case by (subst octal.simps, subst octal_bits.simps) (auto simp: not_less)
qed

lemma int_bits_nib: "int_bits n = nib_bits (int_nibbles n)"
  by (simp add: int_bits_def int_nibbles_def octal_bits_nib not_less)

lemma bit_word_of_nat: "bit (of_nat n :: 'a::len word) i \<longleftrightarrow> i < LENGTH('a) \<and> bit n i"
  by transfer (simp add: bit_take_bit_iff bit_of_nat_iff_bit)

lemma word_bits_byte_nib: "word_bits 8 (c :: byte) = nib_bits (byte_nibbles c)"
proof -
  have hi: "word_bits 4 (drop_bit 4 c) = word_bits 4 (of_nat (unat c div 16) :: cuint)"
  proof (rule word_bits_eqI)
    fix i :: nat assume "i < 4"
    moreover have "bit (unat c div 16) i = bit (unat c) (i + 4)"
      using bit_drop_bit_eq[of 4 "unat c"] by (simp add: drop_bit_eq_div fun_eq_iff add.commute)
    ultimately show "bit (drop_bit 4 c) i = bit (of_nat (unat c div 16) :: cuint) i"
      by (simp add: bit_drop_bit_eq bit_word_of_nat bit_unsigned_iff add.commute)
  qed
  have lo: "word_bits 4 c = word_bits 4 (of_nat (unat c mod 16) :: cuint)"
  proof (rule word_bits_eqI)
    fix i :: nat assume "i < 4"
    moreover have "bit (unat c mod 16) i = (i < 4 \<and> bit (unat c) i)"
      using bit_take_bit_iff[of 4 "unat c" i] by (simp add: take_bit_eq_mod)
    ultimately show "bit c i = bit (of_nat (unat c mod 16) :: cuint) i"
      by (simp add: bit_word_of_nat bit_unsigned_iff)
  qed
  show ?thesis
    using word_bits_add[of 4 4 c] hi lo by (simp add: byte_nibbles_def)
qed

lemma bytes_bits_nib: "bytes_bits cs = nib_bits (bytes_nibbles cs)"
  by (induction cs) (simp_all add: word_bits_byte_nib byte_nibbles_def)

lemma nib_eq:
  assumes "word_bits 4 (of_nat m :: cuint) = word_bits 4 (of_nat n :: cuint)" "m < 16" "n < 16"
  shows "m = n"
proof -
  have "(of_nat m :: cuint) = of_nat n"
  proof (rule bit_word_eqI)
    fix i assume "i < LENGTH(32)"
    show "bit (of_nat m :: cuint) i = bit (of_nat n :: cuint) i"
    proof (cases "i < 4")
      case True
      then show ?thesis using assms(1) rev_nth_word_bits[of i 4] by metis
    next
      case False
      have "unat (of_nat m :: cuint) < 2 ^ 4" "unat (of_nat n :: cuint) < 2 ^ 4"
        using assms(2,3) by (simp_all add: unat_of_nat_small)
      then show ?thesis using False bit_less_power[of _ 4 i] by (metis not_less)
    qed
  qed
  then have "unat (of_nat m :: cuint) = unat (of_nat n :: cuint)" by simp
  then show ?thesis using assms(2,3) by (simp add: unat_of_nat_small)
qed

lemma nib_bits_inject:
  "nib_bits ms = nib_bits ns \<Longrightarrow> \<forall>m\<in>set ms. m < 16 \<Longrightarrow> \<forall>n\<in>set ns. n < 16 \<Longrightarrow> ms = ns"
proof (induction ms arbitrary: ns)
  case Nil
  then show ?case by (cases ns) (auto dest: arg_cong[where f = length])
next
  case (Cons m ms)
  then show ?case by (cases ns) (auto dest: arg_cong[where f = length] simp: nib_eq)
qed

lemma bytes_nibbles_less: "n \<in> set (bytes_nibbles cs) \<Longrightarrow> n < 16"
  using unat_less_256 by (induction cs) (auto simp: less_mult_imp_div_less)

lemma int_nibbles_less: "n \<in> set (int_nibbles m) \<Longrightarrow> n < 16"
  by (auto simp: int_nibbles_def split: if_splits dest: octal_digits)

section \<open>What a routine produces\<close>

text \<open>
  \<open>produces P m f\<close>: on a stream of whole half bytes, in a state with \<open>P\<close>, the routine \<open>m\<close> appends the
  half bytes that the encoding \<open>f\<close> has at this alignment. \<open>P\<close> is about the variables the routine reads.
\<close>

definition stable :: "('z bits_state_scheme \<Rightarrow> bool) \<Rightarrow> bool" where
  "stable P \<longleftrightarrow> (\<forall>s h fr fl. P s \<longrightarrow> P (s\<lparr>bs_heap := h, free_bitstreams := fr, bs_files := fl\<rparr>))"

definition produces ::
  "('z bits_state_scheme \<Rightarrow> bool) \<Rightarrow> (nat \<Rightarrow> ('z bits_state_scheme, nat) prog) \<Rightarrow> enc \<Rightarrow> bool" where
  "produces P m f \<longleftrightarrow> (\<forall>a. \<forall>n\<in>set (f a). n < 16) \<and> (\<forall>s C F ns. P s \<longrightarrow> store s C F \<longrightarrow> stream_bits s C = nib_bits ns \<longrightarrow>
     appends (m (hd C)) (nib_bits (f (even (length ns)))) s C F)"

named_theorems produce_intros \<open>what the producer's routines produce\<close>

lemma stableD: "stable P \<Longrightarrow> P s \<Longrightarrow> frame s A fo s' \<Longrightarrow> P s'"
proof -
  assume P: "stable P" "P s" and fr: "frame s A fo s'"
  from fr have "s' = s\<lparr>bs_heap := bs_heap s', free_bitstreams := free_bitstreams s', bs_files := bs_files s'\<rparr>"
    by (simp add: frame_def)
  with P show "P s'" unfolding stable_def by metis
qed

lemma producesI:
  assumes "\<And>a n. n \<in> set (f a) \<Longrightarrow> n < 16"
    and "\<And>s C F ns. P s \<Longrightarrow> store s C F \<Longrightarrow> stream_bits s C = nib_bits ns \<Longrightarrow>
      appends (m (hd C)) (nib_bits (f (even (length ns)))) s C F"
  shows "produces P m f"
  using assms by (simp add: produces_def)

lemma producesD:
  "produces P m f \<Longrightarrow> P s \<Longrightarrow> store s C F \<Longrightarrow> stream_bits s C = nib_bits ns \<Longrightarrow>
     appends (m (hd C)) (nib_bits (f (even (length ns)))) s C F"
  "produces P m f \<Longrightarrow> n \<in> set (f a) \<Longrightarrow> n < 16"
  by (auto simp: produces_def)

lemma produces_bind [produce_intros]:
  assumes "stable P" "produces P m f" "produces P k g"
  shows "produces P (\<lambda>bs. bind (m bs) k) (code_seq f g)"
proof (rule producesI)
  show "n < 16" if "n \<in> set (code_seq f g a)" for a n
    using that producesD(2)[OF assms(2)] producesD(2)[OF assms(3)] by (auto simp: code_seq_def)
  fix s :: "'a bits_state_scheme" and C F ns
  assume s: "P s" "store s C F" "stream_bits s C = nib_bits ns"
  let ?ms = "f (even (length ns))"
  have "appends (bind (m (hd C)) k) (nib_bits ?ms @ nib_bits (g (even (length ns) = even (length ?ms)))) s C F"
  proof (rule appends_bind)
    show "appends (m (hd C)) (nib_bits ?ms) s C F" by (rule producesD(1)[OF assms(2) s])
    fix s' C' F'
    assume e: "encodes s C F s' C' F' (nib_bits ?ms)" and st: "store s' C' F'"
    have "P s'" using stableD[OF assms(1) s(1)] encodesD(4)[OF e] by blast
    moreover have "stream_bits s' C' = nib_bits (ns @ ?ms)" using encodesD(3)[OF e] s(3) by simp
    moreover have "even (length (ns @ ?ms)) = (even (length ns) = even (length ?ms))" by simp
    ultimately show "appends (k (hd C')) (nib_bits (g (even (length ns) = even (length ?ms)))) s' C' F'"
      using producesD(1)[OF assms(3) _ st, of "ns @ ?ms"] by simp
  qed
  then show "appends (bind (m (hd C)) k) (nib_bits (code_seq f g (even (length ns)))) s C F"
    by (simp add: code_seq_def)
qed

lemma produces_ret [produce_intros]: "produces P ret code_empty"
  by (rule producesI) (simp_all add: code_empty_def appends_ret)

lemma produces_eq: "produces P m f \<Longrightarrow> (\<And>bs s. P s \<Longrightarrow> m' bs s = m bs s) \<Longrightarrow> produces P m' f"
  by (simp add: produces_def appends_def)

lemma produces_int [produce_intros]:
  assumes "unat n < 2 ^ 32"
  shows "produces P (\<lambda>bs. enc_int bs n) (code_int (ucast n))"
proof -
  have "unat (ucast n :: cuint) = unat n" using assms by (simp add: unsigned_ucast_eq take_bit_eq_mod)
  then show ?thesis
    by (intro producesI) (auto simp: code_int_def int_bits_nib[symmetric] intro!: append_intros dest: int_nibbles_less)
qed

lemma pad_bits_nib: "pad_bits (4 * k) = nib_bits (code_pad (even k))"
proof -
  have "(4 * k) mod 8 = 4 * (k mod 2)" by (rule mult_mod_right[of 4 k 2, simplified, symmetric])
  then show ?thesis by (auto simp: pad_bits_def code_pad_def even_iff_mod_2_eq_zero odd_iff_mod_2_eq_one)
qed

lemma produces_boundary [produce_intros]: "produces P enc_boundary code_pad"
proof (rule producesI)
  fix s :: "'a bits_state_scheme" and C F ns
  assume "store s C F" "stream_bits s C = nib_bits ns"
  then show "appends (enc_boundary (hd C)) (nib_bits (code_pad (even (length ns)))) s C F"
    using enc_boundary_appends[of s C F] by (simp add: pad_bits_nib)
qed (simp add: code_pad_def split: if_splits)

text \<open>The two bits that tell simple names from unique ones, and the padding after them.\<close>

lemma word_bits_sort: "unat d < 4 \<Longrightarrow> word_bits 2 d @ [False, False] = word_bits 4 (of_nat (4 * unat d) :: cuint)" for d :: cuint
proof -
  assume d: "unat d < 4"
  have "(of_nat (4 * unat d) :: cuint) = push_bit 2 d"
  proof (rule word_eq_unatI)
    have "unat (of_nat (4 * unat d) :: cuint) = 4 * unat d" using d by (intro unat_of_nat_small) simp
    then show "unat (of_nat (4 * unat d) :: cuint) = unat (push_bit 2 d)" unfolding unat_push_bit using d by simp
  qed
  moreover have "replicate 2 False = [False, False]" by (simp add: numeral_2_eq_2)
  ultimately show ?thesis using word_bits_push[of 2 2 d] by simp
qed

lemma produces_sort [produce_intros]:
  assumes d: "unat d < 4"
  shows "produces P (\<lambda>bs. bind (enc_bits bs 2 d) enc_boundary) (code_seq (code_nibble (of_nat (4 * unat d))) code_pad)"
proof (rule producesI)
  have u: "unat (of_nat (4 * unat d) :: cuint) = 4 * unat d" using d by (intro unat_of_nat_small) simp
  show "n < 16" if "n \<in> set (code_seq (code_nibble (of_nat (4 * unat d))) code_pad a)" for a n
    using that d u by (auto simp: code_seq_def code_nibble_def code_pad_def split: if_splits)
  fix s :: "'a bits_state_scheme" and C F ns
  assume st: "store s C F" and s: "stream_bits s C = nib_bits ns"
  have "appends (bind (enc_bits (hd C) 2 d) enc_boundary) (word_bits 2 d @ pad_bits (4 * length ns + 2)) s C F"
  proof (rule appends_bind)
    show "appends (enc_bits (hd C) 2 d) (word_bits 2 d) s C F" using st d by (intro append_intros) simp_all
    fix s' C' F'
    assume "encodes s C F s' C' F' (word_bits 2 d)" "store s' C' F'"
    then show "appends (enc_boundary (hd C')) (pad_bits (4 * length ns + 2)) s' C' F'"
      using enc_boundary_appends[of s' C' F'] encodesD(3)[of s C F s' C' F'] s by simp
  qed
  moreover have "pad_bits (4 * length ns + 2) = [False, False] @ nib_bits (code_pad (even (Suc (length ns))))"
  proof (cases "even (length ns)")
    have r: "replicate 6 False = [False, False] @ replicate 4 False" by (simp add: numeral_eq_Suc)
    case True
    then obtain k where "length ns = 2 * k" by (rule evenE)
    then have "4 * length ns + 2 = 2 + 8 * k" by simp
    then have "(4 * length ns + 2) mod 8 = 2" using mod_mult_self2[of 2 8 k] by simp
    then show ?thesis using True r by (simp add: pad_bits_def code_pad_def)
  next
    have r: "replicate 2 False = [False, False]" by (simp add: numeral_eq_Suc)
    case False
    then obtain k where "length ns = 2 * k + 1" by (rule oddE)
    then have "4 * length ns + 2 = 6 + 8 * k" by simp
    then have "(4 * length ns + 2) mod 8 = 6" using mod_mult_self2[of 6 8 k] by simp
    then show ?thesis using False r by (simp add: pad_bits_def code_pad_def)
  qed
  moreover have "nib_bits (code_seq (code_nibble (of_nat (4 * unat d))) code_pad (even (length ns)))
      = (word_bits 2 d @ [False, False]) @ nib_bits (code_pad (even (Suc (length ns))))"
    unfolding word_bits_sort[OF d] using u by (simp add: code_seq_def code_nibble_def)
  ultimately show "appends (bind (enc_bits (hd C) 2 d) enc_boundary)
      (nib_bits (code_seq (code_nibble (of_nat (4 * unat d))) code_pad (even (length ns)))) s C F"
    by simp
qed

section \<open>Strings and names\<close>

text \<open>On a host whose characters are ASCII, with the given bound on the length of the names of tags.\<close>

definition native :: "culong \<Rightarrow> 'z names_state_scheme \<Rightarrow> bool" where
  "native ml s \<longleftrightarrow> is_ascii s \<and> mangle_length s = ml"

lemma stable_native [produce_intros]: "stable (native ml)"
  by (simp add: stable_def native_def)

lemma code_seq_assoc: "code_seq (code_seq f g) h = code_seq f (code_seq g h)"
proof -
  have "((x = p) = q) = (x = (p = q))" for x p q :: bool by auto
  then show ?thesis by (simp add: code_seq_def fun_eq_iff)
qed

lemma produces_ascii [produce_intros]:
  "n \<le> length cs \<Longrightarrow> produces (native ml) (\<lambda>bs. enc_ascii bs n cs) (\<lambda>a. bytes_nibbles (take n cs))"
proof (rule producesI)
  fix s :: "'a names_state_scheme" and C F ns
  assume n: "n \<le> length cs" and s: "native ml s" "store s C F"
  have "enc_ascii (hd C) n cs s = enc_bytes (hd C) n cs s" using s(1) by (simp add: enc_ascii_def native_def)
  then show "appends (enc_ascii (hd C) n cs) (nib_bits (bytes_nibbles (take n cs))) s C F"
    using enc_bytes_appends[OF s(2) n] by (simp add: appends_def bytes_bits_nib)
qed (rule bytes_nibbles_less)

lemma produces_nat [produce_intros]: "n < 2 ^ 32 \<Longrightarrow> produces P (\<lambda>bs. enc_int bs (of_nat n)) (code_int (of_nat n))"
proof -
  assume n: "n < 2 ^ 32"
  then have "unat (of_nat n :: culong) = n" by (simp add: unat_of_nat)
  moreover from this have "(ucast (of_nat n :: culong) :: cuint) = of_nat n"
    using n by (intro word_eq_unatI) (simp add: unsigned_ucast_eq take_bit_eq_mod unat_of_nat)
  ultimately show ?thesis using produces_int[of "of_nat n" P] n by simp
qed

lemma ucast_long: "unat (ucast (u::cuint) :: culong) = unat u" "(ucast (ucast (u::cuint) :: culong) :: cuint) = u"
proof -
  show 1: "unat (ucast u :: culong) = unat u"
    using unat_less_2_32[of u] by (simp add: unsigned_ucast_eq take_bit_eq_mod)
  show "(ucast (ucast u :: culong) :: cuint) = u"
  proof (rule word_eq_unatI)
    have "unat (ucast (ucast u :: culong) :: cuint) = take_bit 32 (unat (ucast u :: culong))"
      by (subst unsigned_ucast_eq) simp
    then show "unat (ucast (ucast u :: culong) :: cuint) = unat u"
      unfolding 1 using unat_less_2_32[of u] by (simp add: take_bit_eq_mod)
  qed
qed

lemma produces_ident [produce_intros]:
  assumes "n \<le> length cs" "n < 2 ^ 32"
  shows "produces (native ml) (\<lambda>bs. enc_ident bs cs n) (code_string (take n cs))"
proof -
  have "produces (native ml) (\<lambda>bs. enc_ident bs cs n)
      (code_seq (code_int (of_nat 8)) (code_seq (code_int (of_nat n)) (code_seq code_pad (\<lambda>a. bytes_nibbles (take n cs)))))"
    unfolding enc_ident_def BYTE_SIZE_def using assms by (intro produce_intros) simp_all
  moreover have "length (take n cs) = n" using assms(1) by simp
  ultimately show ?thesis by (simp only: code_string_def code_bytes_def of_nat_numeral)
qed

text \<open>The name of the linker that a string of the producer stands for.\<close>

function split_spaces :: "byte list \<Rightarrow> byte list list" where
  "split_spaces s = (if space \<notin> set s then [s]
     else let n = length (takeWhile (\<lambda>c. c \<noteq> space) s) in take n s # split_spaces (drop (n + 1) s))"
  by pat_completeness auto
termination
  by (relation "measure length") (auto dest: length_pos_if_in_set)

declare split_spaces.simps [simp del]

definition linker_name :: "nat \<Rightarrow> bool \<Rightarrow> byte list \<Rightarrow> NameKeyT" where
  "linker_name ml tag s = (if space \<notin> set s then KT_STRING (if tag then take ml s else s) else KT_UNIQUE (split_spaces s))"

lemma count_components_eq: "count_components s u = u + of_nat (Suc (length (filter (\<lambda>c. c = space) s)))"
  by (induction s arbitrary: u) (simp_all add: add.commute add.left_commute)

lemma length_split_spaces: "length (split_spaces s) = Suc (length (filter (\<lambda>c. c = space) s))"
proof (induction s rule: split_spaces.induct)
  case (1 s)
  let ?t = "takeWhile (\<lambda>c. c \<noteq> space) s" and ?d = "dropWhile (\<lambda>c. c \<noteq> space) s"
  show ?case
  proof (cases "space \<in> set s")
    case False
    then show ?thesis by (subst split_spaces.simps) (auto simp: filter_empty_conv)
  next
    case True
    have t: "filter (\<lambda>c. c = space) ?t = []" by (auto simp: filter_empty_conv dest: set_takeWhileD)
    have d: "?d = space # drop (length ?t + 1) s"
    proof -
      have "?d \<noteq> []" using True by (auto simp: dropWhile_eq_Nil_conv)
      moreover from this have "hd ?d = space" using hd_dropWhile[of "\<lambda>c. c \<noteq> space" s] by simp
      moreover have "tl ?d = drop (length ?t + 1) s" by (simp add: dropWhile_eq_drop tl_drop drop_Suc)
      ultimately show ?thesis by (metis list.collapse)
    qed
    have "filter (\<lambda>c. c = space) s = filter (\<lambda>c. c = space) (?t @ ?d)" by simp
    also have "\<dots> = space # filter (\<lambda>c. c = space) (drop (length ?t + 1) s)"
      unfolding filter_append t by (subst d) simp
    finally show ?thesis using True 1[OF _ refl] by (subst split_spaces.simps) (simp add: Let_def)
  qed
qed

lemma produces_components: "length s < 2 ^ 32 \<Longrightarrow>
  produces (native ml :: 'z names_state_scheme \<Rightarrow> bool) (\<lambda>bs. enc_components bs s) (code_list code_string (split_spaces s))"
proof (induction s rule: split_spaces.induct)
  case (1 s)
  let ?n = "length (takeWhile (\<lambda>c. c \<noteq> space) s)"
  show ?case
  proof (cases "space \<in> set s")
    case False
    then have "produces (native ml :: 'z names_state_scheme \<Rightarrow> bool) (\<lambda>bs. enc_components bs s) (code_string s)"
      using produces_ident[of "length s" s ml] "1.prems" by (simp add: enc_components.simps[of _ s])
    then show ?thesis using False by (subst split_spaces.simps) simp
  next
    case True
    have n: "?n \<le> length s" by (rule length_takeWhile_le)
    have "produces (native ml :: 'z names_state_scheme \<Rightarrow> bool) (\<lambda>bs. enc_components bs (drop (?n + 1) s)) (code_list code_string (split_spaces (drop (?n + 1) s)))"
      using "1.IH"[OF _ refl] True "1.prems" by simp
    from produces_bind[OF stable_native produces_ident[OF n] this] n "1.prems" True show ?thesis
      by (subst split_spaces.simps) (simp add: enc_components.simps[of _ s] Let_def)
  qed
qed

lemma produces_name [produce_intros]:
  assumes s: "length s < 2 ^ 32"
  shows "produces (native ml :: 'z names_state_scheme \<Rightarrow> bool) (\<lambda>bs. enc_name bs s tag) (code_name (linker_name (unat ml) tag s))"
proof -
  let ?k = "length (filter (\<lambda>c. c = space) s)"
  have k: "?k < 2 ^ 32" using s length_filter_le[of "\<lambda>c. c = space" s] by linarith
  have one: "count_components s 0 = 1 \<longleftrightarrow> space \<notin> set s"
  proof -
    have "count_components s 0 = 1 \<longleftrightarrow> (of_nat ?k :: cuint) = 0" by (simp add: count_components_eq)
    also have "\<dots> \<longleftrightarrow> unat (of_nat ?k :: cuint) = 0" by (simp only: unat_eq_0)
    also have "\<dots> \<longleftrightarrow> ?k = 0" using k by (simp only: unat_of_nat_cuint)
    finally show ?thesis by (auto simp: filter_empty_conv)
  qed
  show ?thesis
  proof (cases "space \<in> set s")
    case False
    let ?n = "if tag \<and> length s > unat ml then unat ml else length s"
    have "produces (native ml :: 'z names_state_scheme \<Rightarrow> bool) (\<lambda>bs. bind (bind (enc_bits bs 2 1) enc_boundary) (\<lambda>bs. enc_ident bs s ?n))
       (code_seq (code_seq (code_nibble (of_nat (4 * unat (1::cuint)))) code_pad) (code_string (take ?n s)))"
      using s by (intro produce_intros) simp_all
    moreover have "take ?n s = (if tag then take (unat ml) s else s)" by simp
    ultimately have "produces (native ml :: 'z names_state_scheme \<Rightarrow> bool) (\<lambda>bs. bind (bind (enc_bits bs 2 1) enc_boundary) (\<lambda>bs. enc_ident bs s ?n))
       (code_name (linker_name (unat ml) tag s))"
      using False by (simp add: linker_name_def code_seq_assoc)
    then show ?thesis
      by (rule produces_eq) (use False one in \<open>simp add: enc_name_def native_def bind_assoc\<close>)
  next
    case True
    have "count_components s 0 = of_nat (length (split_spaces s))"
      by (simp add: count_components_eq length_split_spaces)
    then have u: "unat (ucast (count_components s 0) :: culong) = unat (count_components s 0)"
      "(ucast (ucast (count_components s 0) :: culong) :: cuint) = of_nat (length (split_spaces s))"
      by (simp_all add: ucast_long)
    have "produces (native ml :: 'z names_state_scheme \<Rightarrow> bool) (\<lambda>bs. bind (bind (enc_bits bs 2 2) enc_boundary)
         (\<lambda>bs. bind (enc_int bs (ucast (count_components s 0))) (\<lambda>bs. enc_components bs s)))
       (code_seq (code_seq (code_nibble (of_nat (4 * unat (2::cuint)))) code_pad)
         (code_seq (code_int (of_nat (length (split_spaces s)))) (code_list code_string (split_spaces s))))"
      using s u(1) unat_less_2_32[of "count_components s 0"]
      by (intro produces_bind produce_intros produces_components stable_native
          produces_int[of "ucast (count_components s 0)", unfolded u(2)]) simp_all
    then have "produces (native ml :: 'z names_state_scheme \<Rightarrow> bool) (\<lambda>bs. bind (bind (enc_bits bs 2 2) enc_boundary)
         (\<lambda>bs. bind (enc_int bs (ucast (count_components s 0))) (\<lambda>bs. enc_components bs s)))
       (code_name (linker_name (unat ml) tag s))"
      using True by (simp add: linker_name_def code_seq_assoc)
    then show ?thesis
      by (rule produces_eq) (use True one in \<open>simp add: enc_name_def bind_assoc Let_def\<close>)
  qed
qed

text \<open>Names of a length that fits in the numbers that announce it are sound for the linker.\<close>

lemma split_spaces_short: "c \<in> set (split_spaces s) \<Longrightarrow> length c \<le> length s"
proof (induction s arbitrary: c rule: split_spaces.induct)
  case (1 s)
  show ?case
  proof (cases "space \<in> set s")
    case False
    then show ?thesis using "1.prems" by (subst (asm) split_spaces.simps) simp
  next
    case True
    with "1.prems" consider "c = take (length (takeWhile (\<lambda>c. c \<noteq> space) s)) s"
      | "c \<in> set (split_spaces (drop (length (takeWhile (\<lambda>c. c \<noteq> space) s) + 1) s))"
      by (subst (asm) split_spaces.simps) (auto simp: Let_def)
    then show ?thesis using "1.IH"[OF _ refl, of c] True by cases (simp, fastforce)
  qed
qed

lemma linker_name_ok: "length s < 2 ^ 32 - 1 \<Longrightarrow> name_ok (linker_name ml tag s)"
proof -
  assume s: "length s < 2 ^ 32 - 1"
  have "length (split_spaces s) \<le> Suc (length s)" by (simp add: length_split_spaces)
  with s show ?thesis by (auto simp: linker_name_def string_ok_def dest: split_spaces_short)
qed

section \<open>Files\<close>

text \<open>A routine on a fresh file: what the file holds in the end.\<close>

definition to_file :: "nat \<Rightarrow> (nat \<Rightarrow> ('z bits_state_scheme, nat) prog) \<Rightarrow> ('z bits_state_scheme, unit) prog" where
  "to_file f m = bind (start_bitstream (Some f) None) (\<lambda>bs. bind (m bs) (\<lambda>bs. end_bitstream bs True))"

lemma produces_file:
  assumes m: "produces P m f" and P: "stable P" "P s"
    and s: "free_ok s F" "fl < length (bs_files s)" "bs_files s ! fl = \<lparr>of_data = [], of_limit = None\<rparr>"
  shows "\<exists>s'. to_file fl m s = (Ret (), s') \<and> bytes_nibbles (of_data (bs_files s' ! fl)) = code_seq f code_pad True"
proof -
  from start_file_store[OF s] obtain s1 C1 F1 where s1: "start_bitstream (Some fl) None s = (Ret (hd C1), s1)" "store s1 C1 F1"
    "stream_bits s1 C1 = nib_bits []" "stream_file s1 C1 = Some fl" "frame s (set F) None s1" by (metis nib_bits_simps(1))
  have P1: "P s1" using stableD[OF P s1(5)] .
  have ap: "appends (m (hd C1)) (nib_bits (f True)) s1 C1 F1" using producesD(1)[OF m P1 s1(2,3)] by simp
  obtain s2 C2 F2 where s2: "m (hd C1) s1 = (Ret (hd C2), s2)" "encodes s1 C1 F1 s2 C2 F2 (nib_bits (f True))" "store s2 C2 F2"
    by (rule appendsE[OF ap])
  have b2: "stream_bits s2 C2 = nib_bits (f True)" "stream_file s2 C2 = Some fl"
    using encodesD(3,6)[OF s2(2)] s1(3,4) by simp_all
  from end_file_correct[OF s2(3) b2(2)] obtain s3 where s3: "end_bitstream (hd C2) True s2 = (Ret (), s3)"
    "bytes_bits (of_data (bs_files s3 ! fl)) = stream_bits s2 C2 @ pad_bits (length (stream_bits s2 C2))" by blast
  have "bytes_bits (of_data (bs_files s3 ! fl)) = nib_bits (code_seq f code_pad True)"
    using s3(2) b2(1) by (simp add: pad_bits_nib code_seq_def)
  then have "bytes_nibbles (of_data (bs_files s3 ! fl)) = code_seq f code_pad True"
    unfolding bytes_bits_nib
    by (rule nib_bits_inject) (auto simp: code_seq_def code_pad_def dest: bytes_nibbles_less producesD(2)[OF m] split: if_splits)
  then show ?thesis using s1(1) s2(1) s3(1) by (auto simp: to_file_def bind_def)
qed

lemma code_file_reads:
  assumes rf: "reads r f x" and d: "bytes_nibbles data = code_seq f code_pad True"
    and t: "rd_sound (reader t)" "rd_new_byte (reader t)" "rd_rest (reader t) = data @ rest"
  shows "\<exists>t'. bind r (\<lambda>x. bind tdf_read_align (\<lambda>_. ret x)) t = (Ret x, t') \<and> rd_rest (reader t') = rest"
proof -
  have al: "even (length (code_seq f code_pad True))" by (simp add: code_seq_def code_pad_def)
  have rp: "reads (bind r (\<lambda>x. bind tdf_read_align (\<lambda>_. ret x))) (code_seq f code_pad) x"
    using reads_bind[OF rf reads_bind[OF reads_align reads_ret]] by simp
  have "rd_nibbles (reader t) = code_seq f code_pad (rd_new_byte (reader t)) @ bytes_nibbles rest"
    using t d by (simp add: rd_nibbles_def)
  from readsD[OF rp t(1) this] obtain r' where
    r': "bind r (\<lambda>x. bind tdf_read_align (\<lambda>_. ret x)) t = (Ret x, t\<lparr>reader := r'\<rparr>)"
    "advances (reader t) (code_seq f code_pad True) r'" using t(2) by auto
  have "rd_new_byte r'" using advances_aligned[OF r'(2)] al t(2) by simp
  then have "rd_rest r' = rest"
    using r'(2) t d by (simp add: advances_def rd_nibbles_def bytes_nibbles_inject)
  with r'(1) show ?thesis by auto
qed

end
