(* ===== verification/Producer_Properties.thy ===== *)
theory Producer_Properties
  imports Producer_Codec
begin

text \<open>
  What libtdf promises to the producer, and what the producer and the linker promise to each other:
  sequences of encoding calls reach the file bit for bit, joined bitstreams are concatenated, and names
  written by the producer are read by the linker.
\<close>

section \<open>Sequences of encoding calls\<close>

datatype enc_call =
    BITS nat cuint
  | LONG_BITS nat culong
  | BYTES "byte list"
  | EXTN nat cuint
  | INTEGER culong
  | BOUNDARY

fun enc_run :: "enc_call list \<Rightarrow> nat \<Rightarrow> ('z bits_state_scheme, nat) prog" where
  "enc_run [] bs = ret bs"
| "enc_run (c # cs) bs = bind (case c of
       BITS n d \<Rightarrow> enc_bits bs n d
     | LONG_BITS n d \<Rightarrow> enc_long_bits bs n d
     | BYTES s \<Rightarrow> enc_bytes bs (length s) s
     | EXTN n d \<Rightarrow> enc_extn bs n d
     | INTEGER n \<Rightarrow> enc_int bs n
     | BOUNDARY \<Rightarrow> enc_boundary bs) (\<lambda>bs. enc_run cs bs)"

text \<open>The limits the comments of the routines state, and the bits a call stands for after \<open>l\<close> bits.\<close>

fun call_ok :: "enc_call \<Rightarrow> bool" where
  "call_ok (BITS n d) = (n \<le> 16 \<and> unat d < 2 ^ n)"
| "call_ok (LONG_BITS n d) = (n \<le> 32 \<and> unat d < 2 ^ n)"
| "call_ok (EXTN n d) = (0 < n \<and> n \<le> 16)"
| "call_ok _ = True"

fun call_bits :: "nat \<Rightarrow> enc_call \<Rightarrow> bool list" where
  "call_bits l (BITS n d) = word_bits n d"
| "call_bits l (LONG_BITS n d) = word_bits n d"
| "call_bits l (BYTES s) = bytes_bits s"
| "call_bits l (EXTN n d) = extn_bits n (unat d)"
| "call_bits l (INTEGER n) = int_bits (unat n)"
| "call_bits l BOUNDARY = pad_bits l"

fun calls_bits :: "nat \<Rightarrow> enc_call list \<Rightarrow> bool list" where
  "calls_bits l [] = []"
| "calls_bits l (c # cs) = call_bits l c @ calls_bits (l + length (call_bits l c)) cs"

lemma enc_run_appends:
  "store s C F \<Longrightarrow> list_all call_ok cs \<Longrightarrow> appends (enc_run cs (hd C)) (calls_bits (length (stream_bits s C)) cs) s C F"
proof (induction cs arbitrary: s C F)
  case Nil
  then show ?case by (simp add: appends_ret)
next
  case (Cons c cs)
  show ?case
    unfolding enc_run.simps calls_bits.simps
  proof (rule appends_bind)
    show "appends (case c of BITS n d \<Rightarrow> enc_bits (hd C) n d | LONG_BITS n d \<Rightarrow> enc_long_bits (hd C) n d
        | BYTES s \<Rightarrow> enc_bytes (hd C) (length s) s | EXTN n d \<Rightarrow> enc_extn (hd C) n d
        | INTEGER n \<Rightarrow> enc_int (hd C) n | BOUNDARY \<Rightarrow> enc_boundary (hd C)) (call_bits (length (stream_bits s C)) c) s C F"
      using Cons.prems enc_bytes_appends[OF Cons.prems(1) order_refl]
      by (cases c) (auto intro!: append_intros)
    fix s' C' F'
    assume "encodes s C F s' C' F' (call_bits (length (stream_bits s C)) c)" "store s' C' F'"
    then show "appends (enc_run cs (hd C')) (calls_bits (length (stream_bits s C) + length (call_bits (length (stream_bits s C)) c)) cs) s' C' F'"
      using Cons.IH[of s' C' F'] Cons.prems(2) encodesD(3)[of s C F s' C' F'] by simp
  qed
qed

text \<open>
  C6: Whatever sequence of encoding calls within their stated limits is made on a new bitstream with a
  file, ending the bitstream leaves exactly the bits of the calls in the file, padded to a whole
  number of bytes: no chunk boundary, dump or move of odd bits loses or disturbs one.
\<close>

theorem encoded_calls_reach_file:
  assumes "list_all call_ok cs"
    and "free_ok s F" "f < length (bs_files s)" "bs_files s ! f = \<lparr>of_data = [], of_limit = None\<rparr>"
  shows "\<exists>s'. to_file f (enc_run cs) s = (Ret (), s') \<and>
    bytes_bits (of_data (bs_files s' ! f)) = calls_bits 0 cs @ pad_bits (length (calls_bits 0 cs))"
proof -
  from start_file_store[OF assms(2-4)] obtain s1 C1 F1 where s1: "start_bitstream (Some f) None s = (Ret (hd C1), s1)"
    "store s1 C1 F1" "stream_bits s1 C1 = []" "stream_file s1 C1 = Some f" by blast
  obtain s2 C2 F2 where s2: "enc_run cs (hd C1) s1 = (Ret (hd C2), s2)"
    "encodes s1 C1 F1 s2 C2 F2 (calls_bits (length (stream_bits s1 C1)) cs)" "store s2 C2 F2"
    by (rule appendsE[OF enc_run_appends[OF s1(2) assms(1)]])
  have b: "stream_bits s2 C2 = calls_bits 0 cs" "stream_file s2 C2 = Some f"
    using encodesD(3,6)[OF s2(2)] s1(3,4) by simp_all
  from end_file_correct[OF s2(3) b(2)] b(1) s1(1) s2(1) show ?thesis by (auto simp: to_file_def bind_def)
qed

definition bits_start :: bits_state where
  "bits_start = \<lparr>exit_status = False, number_errors = 0, max_reported = ERROR_SEVERITY_INFORMATION,
     bs_heap = [], bs_raw = (\<lambda>_ _. 0xAA), free_bitstreams = None, bs_files = [\<lparr>of_data = [], of_limit = None\<rparr>]\<rparr>"

lemma bits_start_ok:
  "free_ok bits_start []" "0 < length (bs_files bits_start)" "bs_files bits_start ! 0 = \<lparr>of_data = [], of_limit = None\<rparr>"
  by (simp_all add: bits_start_def free_ok_def)

theorem encoded_calls_reach_file_witness:
  "\<exists>s'. to_file 0 (enc_run [INTEGER 300, BITS 3 5, LONG_BITS 20 0xABCDE, BOUNDARY, BYTES (replicate 100 7)]) bits_start = (Ret (), s') \<and>
    bytes_bits (of_data (bs_files s' ! 0)) =
      calls_bits 0 [INTEGER 300, BITS 3 5, LONG_BITS 20 0xABCDE, BOUNDARY, BYTES (replicate 100 7)] @
      pad_bits (length (calls_bits 0 [INTEGER 300, BITS 3 5, LONG_BITS 20 0xABCDE, BOUNDARY, BYTES (replicate 100 7)]))"
  using encoded_calls_reach_file[OF _ bits_start_ok, of "[INTEGER 300, BITS 3 5, LONG_BITS 20 0xABCDE, BOUNDARY, BYTES (replicate 100 7)]"]
  by simp

section \<open>Joining\<close>

text \<open>
  C9: Joining two bitstreams, the second of them without a file, gives one that holds the bits of the
  first followed by those of the second, whichever of copying to the file, copying a small chunk
  and linking the chains is done; the file of the first is kept, and no bitstream without a file
  whose chunks are apart from both and from the free chunks changes.
\<close>

theorem join_bitstreams_concatenates:
  assumes "store s C F" "stream s D" "stream_file s D = None" "set D \<inter> (set C \<union> set F) = {}"
  shows "\<exists>s' C' F'. join_bitstreams (Some (hd C)) (Some (hd D)) s = (Ret (Some (hd C')), s') \<and>
    store s' C' F' \<and> stream_bits s' C' = stream_bits s C @ stream_bits s D \<and> stream_file s' C' = stream_file s C \<and>
    (\<forall>E. stream s E \<and> stream_file s E = None \<and> set E \<inter> (set C \<union> set F \<union> set D) = {} \<longrightarrow>
      stream s' E \<and> stream_bits s' E = stream_bits s E \<and> set E \<inter> (set C' \<union> set F') = {})"
proof -
  from join_correct[OF assms] obtain s' C' F' where j: "join_bitstreams (Some (hd C)) (Some (hd D)) s = (Ret (Some (hd C')), s')"
    "moves s (set C \<union> set F \<union> set D) C F s' C' F' (stream_bits s D)" by blast
  then show ?thesis using movesD[OF j(2)] store_other[OF j(2)] by blast
qed

text \<open>Two chunks, one of them with an odd number of bits.\<close>

definition two_chunks :: bits_state where
  "two_chunks = bits_start\<lparr>bs_heap :=
     [\<lparr>bs_text = replicate 64 0xF0, bs_bytes = 1, bs_bits = 3, bs_size = 0, bs_file = None, bs_link = None, bs_prev = None\<rparr>,
      \<lparr>bs_text = replicate 64 0xCC, bs_bytes = 20, bs_bits = 0, bs_size = 0, bs_file = None, bs_link = None, bs_prev = None\<rparr>]\<rparr>"

theorem join_bitstreams_concatenates_witness:
  "\<exists>s' C'. join_bitstreams (Some 0) (Some 1) two_chunks = (Ret (Some (hd C')), s') \<and>
    stream_bits s' C' = stream_bits two_chunks [0] @ stream_bits two_chunks [1]"
proof -
  have "store two_chunks [0] []" "stream two_chunks [1]" "stream_file two_chunks [1] = None"
    by (simp_all add: two_chunks_def bits_start_def store_def stream_def free_ok_def chunk_ok_def stream_file_def)
  from join_bitstreams_concatenates[OF this] show ?thesis by auto
qed

section \<open>Names\<close>

text \<open>The producer writing a list of names, each marked as that of a tag or not.\<close>

fun enc_names :: "(byte list \<times> bool) list \<Rightarrow> nat \<Rightarrow> ('z names_state_scheme, nat) prog" where
  "enc_names [] bs = ret bs"
| "enc_names ((s, tag) # ns) bs = bind (enc_name bs s tag) (\<lambda>bs. enc_names ns bs)"

lemma produces_names:
  "\<forall>(s, tag)\<in>set ns. length s < 2 ^ 32 \<Longrightarrow>
   produces (native ml :: 'z names_state_scheme \<Rightarrow> bool) (\<lambda>bs. enc_names ns bs)
     (code_list code_name (map (\<lambda>(s, tag). linker_name (unat ml) tag s) ns))"
proof (induction ns)
  case Nil
  then show ?case using produces_ret by simp
next
  case (Cons n ns)
  obtain s tag where n: "n = (s, tag)" by (cases n)
  from Cons have "produces (native ml :: 'z names_state_scheme \<Rightarrow> bool) (\<lambda>bs. enc_names ns bs)
     (code_list code_name (map (\<lambda>(s, tag). linker_name (unat ml) tag s) ns))" by simp
  from produces_bind[OF stable_native produces_name this, of s tag] Cons.prems show ?case by (simp add: n)
qed

text \<open>
  C7: A list of names written by the producer is read by the linker as the names they stand for, on a
  host with ASCII characters: a string without spaces as the simple name, cut to the maximal length
  if it names a tag, and a string with spaces as the unique name of the components between them.
\<close>

theorem producer_names_read_by_linker:
  assumes ns: "\<forall>(n, tag)\<in>set ns. length n < 2 ^ 32 - 1"
    and s: "native ml s" "free_ok s F" "f < length (bs_files s)" "bs_files s ! f = \<lparr>of_data = [], of_limit = None\<rparr>"
  shows "\<exists>s'. to_file f (enc_names ns) s = (Ret (), s') \<and>
    (\<forall>(t :: 'y io_state_scheme) rest. rd_sound (reader t) \<and> rd_new_byte (reader t) \<and>
        rd_rest (reader t) = of_data (bs_files s' ! f) @ rest \<longrightarrow>
      (\<exists>t'. bind (collect ns (\<lambda>_. tdf_read_name)) (\<lambda>ks. bind tdf_read_align (\<lambda>_. ret ks)) t
         = (Ret (map (\<lambda>(n, tag). linker_name (unat ml) tag n) ns), t') \<and> rd_rest (reader t') = rest))"
proof -
  let ?ks = "map (\<lambda>(n, tag). linker_name (unat ml) tag n) ns"
  have "produces (native ml) (\<lambda>bs. enc_names ns bs) (code_list code_name ?ks)"
    by (rule produces_names) (use ns in fastforce)
  from produces_file[OF this stable_native s] obtain s' where s': "to_file f (enc_names ns) s = (Ret (), s')"
    "bytes_nibbles (of_data (bs_files s' ! f)) = code_seq (code_list code_name ?ks) code_pad True" by blast
  have "reads (collect ns (\<lambda>_. tdf_read_name) :: ('y io_state_scheme, NameKeyT list) prog) (code_list code_name ?ks) ?ks"
    by (rule reads_collect) (use ns linker_name_ok in \<open>auto intro!: reads_name\<close>)
  from code_file_reads[OF this s'(2)] s'(1) show ?thesis by blast
qed

definition names_start :: names_state where
  "names_start = bits_state.extend bits_start \<lparr>is_ascii = True, to_ascii_tab = map of_nat [0..<256], mangle_length = 31\<rparr>"

theorem producer_names_read_by_linker_witness:
  "\<exists>data t'. bind (collect [1, 2::nat] (\<lambda>_. tdf_read_name)) (\<lambda>ks. bind tdf_read_align (\<lambda>_. ret ks)) (io_start data)
     = (Ret [KT_STRING (str ''main''), KT_UNIQUE [str ''a'', str ''bc'']], t')"
proof -
  let ?ns = "[(str ''main'', True), (str ''a bc'', False)]"
  have s: "native 31 names_start" "free_ok names_start []" "0 < length (bs_files names_start)"
    "bs_files names_start ! 0 = \<lparr>of_data = [], of_limit = None\<rparr>"
    by (simp_all add: names_start_def bits_start_def native_def free_ok_def bits_state.defs)
  have ns: "\<forall>(n, tag)\<in>set ?ns. length n < 2 ^ 32 - 1" by (simp add: str_def)
  have nm: "linker_name 31 True (str ''main'') = KT_STRING (str ''main'')"
    "linker_name 31 False (str ''a bc'') = KT_UNIQUE [str ''a'', str ''bc'']"
    by (simp_all add: linker_name_def str_def space_def split_spaces.simps of_char_def)
  from producer_names_read_by_linker[OF ns s, where 'y = unit] obtain s' :: names_state where
    r: "\<forall>(t :: io_state) rest. rd_sound (reader t) \<and> rd_new_byte (reader t) \<and>
        rd_rest (reader t) = of_data (bs_files s' ! 0) @ rest \<longrightarrow>
      (\<exists>t'. bind (collect ?ns (\<lambda>_. tdf_read_name)) (\<lambda>ks. bind tdf_read_align (\<lambda>_. ret ks)) t
         = (Ret (map (\<lambda>(n, tag). linker_name (unat (31 :: culong)) tag n) ?ns), t') \<and> rd_rest (reader t') = rest)"
    by blast
  have "\<exists>t'. bind (collect ?ns (\<lambda>_. tdf_read_name)) (\<lambda>ks. bind tdf_read_align (\<lambda>_. ret ks)) (io_start (of_data (bs_files s' ! 0)))
      = (Ret (map (\<lambda>(n, tag). linker_name (unat (31 :: culong)) tag n) ?ns), t')"
    using r[rule_format, of "io_start (of_data (bs_files s' ! 0))" "[]"] by auto
  then show ?thesis by (auto simp: nm)
qed

end
