(* ===== verification/Producer_Linkage.thy ===== *)
theory Producer_Linkage
  imports Producer_Names Exds_Ostream
begin

text \<open>
  The linkage tables of the C and C++ producer, \<^verbatim>\<open>tdfc2/src/common/output/capsule.c\<close>: the external
  (capsule) numbers of tokens, tags and the like, their internal numbers in each unit, their usage, and
  the units of each kind. A bitstream's \<^verbatim>\<open>link\<close> is the position of its linkage among all linkages; the
  linkages are never freed, so the list of all of them is the store itself.
\<close>

section \<open>Data\<close>

definition LINK_NONE :: culong where "LINK_NONE = 0xffffffff"
definition LINK_EXTERN :: culong where "LINK_EXTERN = 0x80000000"
definition LINK_TOKDEF :: culong where "LINK_TOKDEF = 0xfffffffd"

definition USAGE_NONE :: byte where "USAGE_NONE = 0"
definition USAGE_USE :: byte where "USAGE_USE = 1"
definition USAGE_DECL :: byte where "USAGE_DECL = 2"
definition USAGE_DEFN :: byte where "USAGE_DEFN = 4"
definition USAGE_COMMON :: byte where "USAGE_COMMON = 8"

lemmas usage_values = USAGE_NONE_def USAGE_USE_def USAGE_DECL_def USAGE_DEFN_def USAGE_COMMON_def

text \<open>The values of the enumeration of variables, and the number of equations.\<close>

definition VAR_tag :: nat where "VAR_tag = 0"
definition VAR_token :: nat where "VAR_token = 1"
definition VAR_dgtag :: nat where "VAR_dgtag = 4"
definition VAR_no :: nat where "VAR_no = 5"
definition VAR_label :: nat where "VAR_label = 6"
definition VAR_total :: nat where "VAR_total = 7"
definition EQN_tld :: nat where "EQN_tld = 0"
definition EQN_versions :: nat where "EQN_versions = 1"
definition EQN_no :: nat where "EQN_no = 11"

lemmas var_defs = VAR_tag_def VAR_token_def VAR_dgtag_def VAR_no_def VAR_label_def VAR_total_def
  EQN_tld_def EQN_versions_def EQN_no_def

record EQN_INFO =
  eq_name :: "byte list"
  eq_labels :: bool
  eq_count :: bool
  eq_pres :: "nat option list"
  eq_units :: "nat list"

record VAR_INFO =
  vi_name :: "byte list"
  vi_no :: culong
  vi_sz :: nat
  vi_present :: bool
  vi_names :: "byte list option list"
  vi_uses :: "byte list"
  vi_diags :: "culong list option"

record LINKAGE =
  lk_no :: "culong list"
  lk_no_map :: "culong list"
  lk_map :: "culong list list"
  lk_count :: culong
  lk_create :: bool

text \<open>
  An identifier of the producer, as far as its linkage goes: the identifier it stands for, its number,
  and the mark \<^verbatim>\<open>dspec_done\<close> of its storage.
\<close>

record IDENT =
  id_alias :: nat
  id_no :: culong
  id_done :: bool

record capsule_vars = names_state +
  vars :: "VAR_INFO list"
  eqns :: "EQN_INFO list"
  all_links :: "LINKAGE list"
  idents :: "IDENT list"
  pending_funcs :: "nat list"
  scope_reports :: nat
  dummy_token :: culong
  anon_no :: culong
  uniq_string :: "byte list"
  output_tdf :: bool
  output_capsule :: bool
  output_all :: bool
  output_diag :: nat
  output_new_diag :: nat
  written_capsule :: bool
  tdf_file :: "nat option"

text \<open>The initial tables. The name of labels stands at position 5, not at \<^verbatim>\<open>VAR_label\<close>.\<close>

definition eqns_init :: "EQN_INFO list" where
  "eqns_init = map (\<lambda>(name, labels, cnt). \<lparr>eq_name = str name, eq_labels = labels, eq_count = cnt, eq_pres = [], eq_units = []\<rparr>)
     [(''tld'', False, False), (''versions'', False, True), (''tokdec'', False, True), (''tokdef'', True, True),
      (''aldef'', True, True), (''diagtype'', True, True), (''tagdec'', True, True), (''diagdef'', True, True),
      (''dgcompunit'', True, True), (''tagdef'', True, True), (''linkinfo'', True, True)]"

definition var_init :: "byte list \<Rightarrow> VAR_INFO" where
  "var_init name = \<lparr>vi_name = name, vi_no = 0, vi_sz = 0, vi_present = False, vi_names = [], vi_uses = [], vi_diags = None\<rparr>"

definition vars_init :: "VAR_INFO list" where
  "vars_init = map (\<lambda>name. var_init (str name))
     [''tag'', ''token'', ''alignment'', ''diagtag'', ''dgtag'', ''label'', '''']"

section \<open>Access to the tables\<close>

definition var_get :: "nat \<Rightarrow> ('z capsule_vars_scheme, VAR_INFO) prog" where
  "var_get v = bind (gets vars) (\<lambda>vs. index vs v)"

definition var_put :: "nat \<Rightarrow> (VAR_INFO \<Rightarrow> VAR_INFO) \<Rightarrow> ('z capsule_vars_scheme, unit) prog" where
  "var_put v f = bind (var_get v) (\<lambda>var. modify (\<lambda>s. s\<lparr>vars := (vars s)[v := f var]\<rparr>))"

definition eqn_get :: "nat \<Rightarrow> ('z capsule_vars_scheme, EQN_INFO) prog" where
  "eqn_get u = bind (gets eqns) (\<lambda>es. index es u)"

definition link_get :: "nat \<Rightarrow> ('z capsule_vars_scheme, LINKAGE) prog" where
  "link_get l = bind (gets all_links) (\<lambda>ls. index ls l)"

definition link_put :: "nat \<Rightarrow> (LINKAGE \<Rightarrow> LINKAGE) \<Rightarrow> ('z capsule_vars_scheme, unit) prog" where
  "link_put l f = bind (link_get l) (\<lambda>lnk. modify (\<lambda>s. s\<lparr>all_links := (all_links s)[l := f lnk]\<rparr>))"

text \<open>The linkage of a bitstream, \<^verbatim>\<open>(LINKAGE *) bs->link\<close>; using a null one is undefined.\<close>

definition bs_linkage :: "nat \<Rightarrow> ('z capsule_vars_scheme, nat) prog" where
  "bs_linkage bs = bind (bs_get bs) (\<lambda>b. defined (bs_link b))"

section \<open>Linkages and external numbers\<close>

definition start_linkage :: "bool \<Rightarrow> ('z capsule_vars_scheme, nat) prog" where
  "start_linkage create =
     bind (gets vars) (\<lambda>vs. bind (gets (\<lambda>s. length (all_links s))) (\<lambda>l.
     bind (modify (\<lambda>s. s\<lparr>all_links := all_links s @
       [\<lparr>lk_no = replicate VAR_total 0, lk_no_map = replicate VAR_no 0,
         lk_map = map (\<lambda>var. replicate (vi_sz var) LINK_NONE) (take VAR_no vs),
         lk_count = 0, lk_create = create\<rparr>]\<rparr>)) (\<lambda>_.
     start_bitstream None (Some l))))"

definition extend_linkage :: "nat \<Rightarrow> ('z capsule_vars_scheme, unit) prog" where
  "extend_linkage v =
     bind (var_get v) (\<lambda>var. bind (gets output_diag) (\<lambda>diag.
     let realloc = (diag \<noteq> 0 \<and> (v = VAR_tag \<or> v = VAR_token));
         new = replicate 100 LINK_NONE in
     bind (check (realloc \<or> vi_diags var = None)) (\<lambda>_.
     bind (var_put v (\<lambda>var. var\<lparr>
         vi_sz := vi_sz var + 100,
         vi_names := vi_names var @ replicate 100 None,
         vi_uses := vi_uses var @ replicate 100 USAGE_NONE,
         vi_diags := (if realloc then Some ((case vi_diags var of None \<Rightarrow> [] | Some d \<Rightarrow> d) @ new) else None)\<rparr>)) (\<lambda>_.
     modify (\<lambda>s. s\<lparr>all_links := map (\<lambda>lnk. lnk\<lparr>lk_map := (lk_map lnk)[v := lk_map lnk ! v @ new]\<rparr>) (all_links s)\<rparr>)))))"

definition capsule_no :: "byte list option \<Rightarrow> nat \<Rightarrow> ('z capsule_vars_scheme, culong) prog" where
  "capsule_no s v =
     bind (var_get v) (\<lambda>var.
     let n = vi_no var in
     bind (var_put v (\<lambda>var. var\<lparr>vi_no := n + 1\<rparr>)) (\<lambda>_.
     bind (if unat n \<ge> vi_sz var then extend_linkage v else ret ()) (\<lambda>_.
     bind (var_get v) (\<lambda>var.
     bind (check (unat n < length (vi_uses var) \<and> unat n < length (vi_names var))) (\<lambda>_.
     bind (var_put v (\<lambda>var. var\<lparr>vi_uses := (vi_uses var)[unat n := USAGE_USE],
         vi_names := (vi_names var)[unat n := s], vi_present := True\<rparr>)) (\<lambda>_.
     ret (n OR LINK_EXTERN)))))))"

text \<open>The second component is the old name, which the code assigns to \<^verbatim>\<open>*ps\<close>.\<close>

definition capsule_name :: "culong \<Rightarrow> byte list option \<Rightarrow> nat \<Rightarrow> ('z capsule_vars_scheme, culong \<times> byte list option) prog" where
  "capsule_name n s v =
     (if n = LINK_NONE then bind (capsule_no s v) (\<lambda>n. ret (n, s))
      else let m = unat (n AND NOT LINK_EXTERN) in
        bind (check (n AND LINK_EXTERN \<noteq> 0)) (\<lambda>_.
        bind (var_get v) (\<lambda>var.
        bind (index (vi_names var) m) (\<lambda>old.
        bind (var_put v (\<lambda>var. var\<lparr>vi_names := (vi_names var)[m := s]\<rparr>)) (\<lambda>_.
        ret (n, old))))))"

text \<open>The mangled name of the identifier is an argument; \<^verbatim>\<open>mangle.c\<close> is not modelled.\<close>

definition id_get :: "nat \<Rightarrow> ('z capsule_vars_scheme, IDENT) prog" where
  "id_get i = bind (gets idents) (\<lambda>is. index is i)"

definition id_set_no :: "nat \<Rightarrow> culong \<Rightarrow> ('z capsule_vars_scheme, unit) prog" where
  "id_set_no i n = bind (id_get i) (\<lambda>d. modify (\<lambda>s. s\<lparr>idents := (idents s)[i := d\<lparr>id_no := n\<rparr>]\<rparr>))"

definition capsule_id :: "(nat \<Rightarrow> nat \<Rightarrow> byte list option) \<Rightarrow> nat \<Rightarrow> nat \<Rightarrow> ('z capsule_vars_scheme, bool) prog" where
  "capsule_id mangle_name i v =
     bind (id_get i) (\<lambda>d. let lid = id_alias d in
     bind (id_get lid) (\<lambda>ld. let n = id_no ld in
     if n = LINK_NONE then
       bind (capsule_no (mangle_name lid v) v) (\<lambda>n.
       bind (id_set_no lid n) (\<lambda>_. bind (id_set_no i n) (\<lambda>_. ret True)))
     else bind (check (n AND LINK_EXTERN \<noteq> 0)) (\<lambda>_. ret False)))"

section \<open>Internal numbers\<close>

text \<open>\<^verbatim>\<open>n = (lnk->no[v])++\<close>, in \<open>link_no\<close> and \<open>unit_no\<close>, with the variable marked present.\<close>

definition next_unit_no :: "nat \<Rightarrow> nat \<Rightarrow> ('z capsule_vars_scheme, culong) prog" where
  "next_unit_no l v =
     bind (link_get l) (\<lambda>lnk.
     bind (index (lk_no lnk) v) (\<lambda>n.
     bind (link_put l (\<lambda>lnk. lnk\<lparr>lk_no := (lk_no lnk)[v := n + 1]\<rparr>)) (\<lambda>_. ret n)))"

definition set_present :: "nat \<Rightarrow> ('z capsule_vars_scheme, unit) prog" where
  "set_present v = var_put v (\<lambda>var. var\<lparr>vi_present := True\<rparr>)"

definition link_no :: "nat \<Rightarrow> culong \<Rightarrow> nat \<Rightarrow> ('z capsule_vars_scheme, culong) prog" where
  "link_no bs n v =
     bind (bs_linkage bs) (\<lambda>l. bind (link_get l) (\<lambda>lnk.
     let m = unat (n AND NOT LINK_EXTERN) in
     bind (index (lk_map lnk) v) (\<lambda>mp. bind (index mp m) (\<lambda>n.
     if n = LINK_NONE then
       bind (next_unit_no l v) (\<lambda>n.
       bind (link_put l (\<lambda>lnk. lnk\<lparr>lk_map := (lk_map lnk)[v := (lk_map lnk ! v)[m := n]],
         lk_no_map := (lk_no_map lnk)[v := lk_no_map lnk ! v + 1]\<rparr>)) (\<lambda>_.
       bind (set_present v) (\<lambda>_. ret n)))
     else ret n))))"

text \<open>A null identifier is \<^verbatim>\<open>None\<close>. \<open>def\<close> is the parameter that silences the report of a token out of scope.\<close>

definition unit_no :: "nat \<Rightarrow> nat option \<Rightarrow> nat \<Rightarrow> bool \<Rightarrow> ('z capsule_vars_scheme, culong) prog" where
  "unit_no bs io v def =
     (case io of
        None \<Rightarrow> bind (bs_linkage bs) (\<lambda>l. bind (next_unit_no l v) (\<lambda>n. bind (set_present v) (\<lambda>_. ret n)))
      | Some i \<Rightarrow>
          bind (id_get i) (\<lambda>d. let lid = id_alias d in
          bind (id_get lid) (\<lambda>ld. let n = id_no ld in
          if n = LINK_NONE then
            bind (bs_linkage bs) (\<lambda>l. bind (next_unit_no l v) (\<lambda>n.
            bind (id_set_no lid n) (\<lambda>_. bind (id_set_no i n) (\<lambda>_.
            bind (set_present v) (\<lambda>_.
            bind (if \<not> def then modify (\<lambda>s. s\<lparr>scope_reports := scope_reports s + 1\<rparr>) else ret ()) (\<lambda>_.
            ret n))))))
          else
            bind (if n = LINK_TOKDEF then
                bind (modify (\<lambda>s. s\<lparr>scope_reports := scope_reports s + 1\<rparr>)) (\<lambda>_.
                bind (gets dummy_token) (\<lambda>n. bind (id_set_no i n) (\<lambda>_. ret n)))
              else ret n) (\<lambda>n.
            if n AND LINK_EXTERN \<noteq> 0 then link_no bs n v else ret n))))"

definition no_labels :: "nat \<Rightarrow> ('z capsule_vars_scheme, culong) prog" where
  "no_labels bs = bind (bs_linkage bs) (\<lambda>l. bind (link_get l) (\<lambda>lnk. index (lk_no lnk) VAR_label))"

definition clear_no :: "nat option \<Rightarrow> ('z capsule_vars_scheme, unit) prog" where
  "clear_no io =
     (case io of None \<Rightarrow> ret ()
      | Some i \<Rightarrow> bind (id_get i) (\<lambda>d. let lid = id_alias d; clear = (\<lambda>d. d\<lparr>id_no := LINK_NONE, id_done := False\<rparr>) in
          bind (modify (\<lambda>s. s\<lparr>idents := (idents s)[i := clear (idents s ! i)]\<rparr>)) (\<lambda>_.
          if lid \<noteq> i then bind (id_get lid) (\<lambda>ld. modify (\<lambda>s. s\<lparr>idents := (idents s)[lid := clear ld]\<rparr>)) else ret ())))"

text \<open>The diagnostic tags of external identifiers.\<close>

definition set_diag_tag :: "(nat \<Rightarrow> nat \<Rightarrow> byte list option) \<Rightarrow> nat \<Rightarrow> nat \<Rightarrow> culong \<Rightarrow> ('z capsule_vars_scheme, unit) prog" where
  "set_diag_tag mangle_name i v m =
     bind (id_get i) (\<lambda>d.
     bind (if id_no d = LINK_NONE then
         bind (capsule_id mangle_name i v) (\<lambda>_.
         bind (modify (\<lambda>s. s\<lparr>pending_funcs := i # pending_funcs s\<rparr>)) (\<lambda>_.
         bind (id_get i) (\<lambda>d. ret (id_no d))))
       else ret (id_no d)) (\<lambda>n.
     bind (var_get v) (\<lambda>var.
     bind (defined (vi_diags var)) (\<lambda>diags.
     let k = unat (n AND NOT LINK_EXTERN) in
     bind (check (k < length diags)) (\<lambda>_.
     var_put v (\<lambda>var. var\<lparr>vi_diags := Some (diags[k := m])\<rparr>))))))"

definition get_diag_tag :: "nat \<Rightarrow> nat \<Rightarrow> ('z capsule_vars_scheme, culong) prog" where
  "get_diag_tag i v =
     bind (id_get i) (\<lambda>d. let n = id_no d in
     if n = LINK_NONE then ret LINK_NONE
     else bind (var_get v) (\<lambda>var. bind (defined (vi_diags var)) (\<lambda>diags.
       index diags (unat (n AND NOT LINK_EXTERN)))))"

section \<open>Usage\<close>

definition record_usage :: "culong \<Rightarrow> nat \<Rightarrow> cuint \<Rightarrow> ('z capsule_vars_scheme, unit) prog" where
  "record_usage n v u =
     (let m = unat (n AND NOT LINK_EXTERN) in
      bind (var_get v) (\<lambda>var. bind (index (vi_uses var) m) (\<lambda>w.
      var_put v (\<lambda>var. var\<lparr>vi_uses := (vi_uses var)[m := ucast (ucast w OR u)]\<rparr>))))"

definition find_usage :: "culong \<Rightarrow> nat \<Rightarrow> ('z capsule_vars_scheme, cuint) prog" where
  "find_usage n v =
     bind (var_get v) (\<lambda>var. bind (index (vi_uses var) (unat (n AND NOT LINK_EXTERN))) (\<lambda>w. ret (ucast w)))"

definition clear_usage :: "culong \<Rightarrow> nat \<Rightarrow> ('z capsule_vars_scheme, unit) prog" where
  "clear_usage n v =
     (let m = unat (n AND NOT LINK_EXTERN) in
      bind (var_get v) (\<lambda>var. bind (index (vi_uses var) m) (\<lambda>_.
      var_put v (\<lambda>var. var\<lparr>vi_uses := (vi_uses var)[m := USAGE_NONE]\<rparr>))))"

definition count_item :: "nat \<Rightarrow> ('z capsule_vars_scheme, unit) prog" where
  "count_item bs = bind (bs_linkage bs) (\<lambda>l. link_put l (\<lambda>lnk. lnk\<lparr>lk_count := lk_count lnk + 1\<rparr>))"

section \<open>Units\<close>

text \<open>\<^verbatim>\<open>CONS_bits\<close> puts the new unit in front, so the lists are in reverse order.\<close>

definition add_unit :: "nat \<Rightarrow> nat option \<Rightarrow> nat option \<Rightarrow> ('z capsule_vars_scheme, unit) prog" where
  "add_unit u bso ps =
     (case bso of None \<Rightarrow> ret ()
      | Some bs \<Rightarrow>
          bind (bs_get bs) (\<lambda>b.
          bind (case bs_link b of None \<Rightarrow> ret True
                | Some l \<Rightarrow> bind (link_get l) (\<lambda>lnk. ret (lk_count lnk \<noteq> 0 \<or> ps \<noteq> None))) (\<lambda>add.
          if add then
            bind (eqn_get u) (\<lambda>eqn.
            modify (\<lambda>s. s\<lparr>eqns := (eqns s)[u := eqn\<lparr>eq_units := bs # eq_units eqn, eq_pres := ps # eq_pres eqn\<rparr>]\<rparr>))
          else ret ())))"

definition make_tld_unit :: "('z capsule_vars_scheme, nat) prog" where
  "make_tld_unit = bind (start_bitstream None None) (\<lambda>bs. enc_int bs 1)"

definition enc_version :: "nat \<Rightarrow> ('z capsule_vars_scheme, nat) prog" where
  "enc_version bs = bind (gets output_new_diag) (\<lambda>d.
     let v = (if d = 0 then 0 else 1) in
     bind (enc_int bs 4) (\<lambda>bs. enc_int bs v))"

text \<open>\<open>vers\<close> is what \<^verbatim>\<open>tdfc2_report_version\<close> returns.\<close>

definition make_version_unit :: "byte list \<Rightarrow> ('z capsule_vars_scheme, nat) prog" where
  "make_version_unit vers =
     bind (start_linkage True) (\<lambda>bs.
     bind (enc_bits bs 1 1) (\<lambda>bs.
     bind (enc_version bs) (\<lambda>bs.
     bind (count_item bs) (\<lambda>_.
     bind (gets output_all) (\<lambda>all_out.
     if all_out then
       bind (enc_extn bs 1 2) (\<lambda>bs.
       bind (enc_bits bs 3 4) (\<lambda>bs.
       bind (enc_ustring bs vers) (\<lambda>bs.
       bind (count_item bs) (\<lambda>_. ret bs))))
     else ret bs)))))"

end
