(* ===== verification/Producer_Capsule.thy ===== *)
theory Producer_Capsule
  imports Producer_Linkage
begin

text \<open>
  Writing the capsule, \<^verbatim>\<open>write_capsule_body\<close> and \<^verbatim>\<open>write_capsule\<close> of
  \<^verbatim>\<open>tdfc2/src/common/output/capsule.c\<close>. The units that \<^verbatim>\<open>make_capsule_units\<close> creates or completes
  come from the rest of the producer; that call is an argument.
\<close>

section \<open>Names for undefined objects\<close>

text \<open>\<^verbatim>\<open>mangle_anon\<close> of \<^verbatim>\<open>output/mangle.c\<close>, with its buffer of 50 bytes.\<close>

definition mangle_anon :: "('z capsule_vars_scheme, byte list) prog" where
  "mangle_anon =
     bind (gets anon_no) (\<lambda>n. bind (gets uniq_string) (\<lambda>uniq.
     let buff = str ''__'' @ decimal (unat n) @ str ''_'' @ uniq in
     bind (modify (\<lambda>s. s\<lparr>anon_no := n + 1\<rparr>)) (\<lambda>_.
     bind (check (length buff < 50)) (\<lambda>_. ret buff))))"

section \<open>The body of a capsule\<close>

text \<open>Counting and naming, for the loops over the variables and equations.\<close>

definition present_vars :: "('z capsule_vars_scheme, nat list) prog" where
  "present_vars = gets (\<lambda>s. filter (\<lambda>i. vi_present (vars s ! i)) [0..<VAR_no])"

definition used_eqns :: "('z capsule_vars_scheme, nat list) prog" where
  "used_eqns = gets (\<lambda>s. filter (\<lambda>i. eq_units (eqns s ! i) \<noteq> []) [0..<EQN_no])"

text \<open>A loop that hands a bitstream from round to round.\<close>

fun for_bs :: "'a list \<Rightarrow> (nat \<Rightarrow> 'a \<Rightarrow> ('z bits_state_scheme, nat) prog) \<Rightarrow> nat \<Rightarrow> ('z bits_state_scheme, nat) prog" where
  "for_bs [] body bs = ret bs"
| "for_bs (x # xs) body bs = bind (body bs x) (\<lambda>bs. for_bs xs body bs)"

definition write_eqn_names :: "nat \<Rightarrow> nat list \<Rightarrow> ('z capsule_vars_scheme, nat) prog" where
  "write_eqn_names bs us =
     bind (enc_int bs (of_nat (length us))) (\<lambda>bs.
     for_bs us (\<lambda>bs i. bind (eqn_get i) (\<lambda>eqn. enc_ident bs (eq_name eqn) (length (eq_name eqn)))) bs)"

definition write_var_names :: "nat \<Rightarrow> nat list \<Rightarrow> ('z capsule_vars_scheme, nat) prog" where
  "write_var_names bs vs =
     bind (enc_int bs (of_nat (length vs))) (\<lambda>bs.
     for_bs vs (\<lambda>bs i. bind (var_get i) (\<lambda>var.
       bind (enc_ident bs (vi_name var) (length (vi_name var))) (\<lambda>bs. enc_int bs (vi_no var)))) bs)"

text \<open>The first pass over the external identifiers of a variable: \<open>no_ext\<close> of those from \<open>k\<close> on.\<close>

definition check_extern :: "nat \<Rightarrow> nat \<Rightarrow> ('z capsule_vars_scheme, nat) prog" where
  "check_extern i k =
     bind (var_get i) (\<lambda>var.
     bind (index (vi_names var) k) (\<lambda>s. bind (index (vi_uses var) k) (\<lambda>u.
     if u \<noteq> USAGE_NONE then
       bind (case s of
           Some _ \<Rightarrow> ret (1, u)
         | None \<Rightarrow>
             if u AND USAGE_DEFN = 0 then
               if u AND USAGE_DECL \<noteq> 0 \<and> i = VAR_dgtag then
                 let u = u OR USAGE_DEFN in
                 bind (var_put i (\<lambda>var. var\<lparr>vi_uses := (vi_uses var)[k := u]\<rparr>)) (\<lambda>_. ret (0, u))
               else
                 let u = u OR USAGE_DECL in
                 bind (error_msg ERR_INTERNAL) (\<lambda>_.
                 bind mangle_anon (\<lambda>name.
                 bind (var_put i (\<lambda>var. var\<lparr>vi_names := (vi_names var)[k := Some name]\<rparr>)) (\<lambda>_.
                 bind (var_put i (\<lambda>var. var\<lparr>vi_uses := (vi_uses var)[k := u]\<rparr>)) (\<lambda>_. ret (1, u)))))
             else ret (0, u)) (\<lambda>(no_ext, u).
       bind (if i = VAR_tag \<and> u AND USAGE_DECL = 0 then error_msg ERR_INTERNAL else ret ()) (\<lambda>_.
       ret no_ext))
     else bind (var_put i (\<lambda>var. var\<lparr>vi_names := (vi_names var)[k := None]\<rparr>)) (\<lambda>_. ret 0))))"

fun check_externs :: "nat \<Rightarrow> nat list \<Rightarrow> ('z capsule_vars_scheme, nat) prog" where
  "check_externs i [] = ret 0"
| "check_externs i (k # ks) = bind (check_extern i k) (\<lambda>m. bind (check_externs i ks) (\<lambda>n. ret (m + n)))"

text \<open>The second pass: the usage goes to the linker information unit \<open>ts\<close>, number and name to \<open>bs\<close>.\<close>

definition written_use :: "byte \<Rightarrow> byte" where
  "written_use u =
     (if u AND USAGE_COMMON \<noteq> 0
      then if u AND USAGE_DEFN \<noteq> 0 then u AND NOT USAGE_DEFN else u AND NOT USAGE_COMMON
      else u)"

definition write_extern :: "nat \<Rightarrow> nat \<Rightarrow> nat \<Rightarrow> nat \<Rightarrow> ('z capsule_vars_scheme, nat \<times> nat) prog" where
  "write_extern i ts bs k =
     bind (var_get i) (\<lambda>var.
     bind (index (vi_names var) k) (\<lambda>s.
     case s of None \<Rightarrow> ret (ts, bs)
     | Some name \<Rightarrow>
         bind (index (vi_uses var) k) (\<lambda>u.
         bind (enc_int ts (ucast (written_use u))) (\<lambda>ts.
         bind (enc_int bs (of_nat k)) (\<lambda>bs.
         bind (enc_name bs name (i = VAR_tag)) (\<lambda>bs.
         ret (ts, bs)))))))"

fun write_externs_loop :: "nat \<Rightarrow> nat \<Rightarrow> nat \<Rightarrow> nat list \<Rightarrow> ('z capsule_vars_scheme, nat \<times> nat) prog" where
  "write_externs_loop i ts bs [] = ret (ts, bs)"
| "write_externs_loop i ts bs (k # ks) = bind (write_extern i ts bs k) (\<lambda>(ts, bs). write_externs_loop i ts bs ks)"

fun write_externs :: "nat \<Rightarrow> nat \<Rightarrow> nat list \<Rightarrow> ('z capsule_vars_scheme, nat \<times> nat) prog" where
  "write_externs ts bs [] = ret (ts, bs)"
| "write_externs ts bs (i # vs) =
     bind (var_get i) (\<lambda>var.
     bind (check_externs i [0..<unat (vi_no var)]) (\<lambda>no_ext.
     bind (enc_int bs (of_nat no_ext)) (\<lambda>bs.
     bind (write_externs_loop i ts bs [0..<unat (vi_no var)]) (\<lambda>(ts, bs).
     write_externs ts bs vs))))"

text \<open>The linkage of a unit, for the variables that are present: how many numbers, and which are external.\<close>

definition write_counts :: "nat \<Rightarrow> LINKAGE \<Rightarrow> nat list \<Rightarrow> ('z capsule_vars_scheme, nat) prog" where
  "write_counts bs lnk vs = for_bs vs (\<lambda>bs j. bind (index (lk_no lnk) j) (\<lambda>nj. enc_int bs nj)) bs"

definition write_links :: "nat \<Rightarrow> LINKAGE \<Rightarrow> nat list \<Rightarrow> ('z capsule_vars_scheme, nat) prog" where
  "write_links bs lnk vs = for_bs vs (\<lambda>bs j.
     bind (var_get j) (\<lambda>var.
     bind (index (lk_map lnk) j) (\<lambda>mp. bind (index (lk_no_map lnk) j) (\<lambda>no_map.
     bind (enc_int bs no_map) (\<lambda>bs.
     for_bs [0..<unat (vi_no var)] (\<lambda>bs k.
       bind (index mp k) (\<lambda>nk.
       if nk \<noteq> LINK_NONE then bind (enc_int bs nk) (\<lambda>bs. enc_int bs (of_nat k)) else ret bs)) bs))))) bs"

text \<open>The extra information in front of a unit; a result of \<^verbatim>\<open>join_bitstreams\<close> that is null is not used.\<close>

definition unit_contents :: "nat \<Rightarrow> LINKAGE \<Rightarrow> bool \<Rightarrow> bool \<Rightarrow> nat option \<Rightarrow> nat \<Rightarrow> ('z capsule_vars_scheme, nat) prog" where
  "unit_contents l lnk labels cnt vs us =
     (if lk_create lnk \<and> (labels \<or> cnt \<or> vs \<noteq> None) then
        bind (start_bitstream None (Some l)) (\<lambda>ws.
        bind (if labels then bind (index (lk_no lnk) VAR_label) (\<lambda>no_labs. enc_int ws no_labs) else ret ws) (\<lambda>ws.
        bind (join_bitstreams (Some ws) vs) (\<lambda>wso. bind (defined wso) (\<lambda>ws.
        bind (if cnt then enc_int ws (lk_count lnk) else ret ws) (\<lambda>ws.
        bind (join_bitstreams (Some ws) (Some us)) (\<lambda>uso. defined uso))))))
      else ret us)"

definition write_unit :: "nat \<Rightarrow> bool \<Rightarrow> bool \<Rightarrow> nat list \<Rightarrow> nat \<Rightarrow> nat \<times> nat option \<Rightarrow> ('z capsule_vars_scheme, nat) prog" where
  "write_unit no_vars labels cnt vars_present bs = (\<lambda>(us, vs).
     bind (bs_get us) (\<lambda>b.
     bind (case bs_link b of
         Some l \<Rightarrow>
           bind (link_get l) (\<lambda>lnk.
           bind (enc_int bs (of_nat no_vars)) (\<lambda>bs.
           bind (write_counts bs lnk vars_present) (\<lambda>bs.
           bind (enc_int bs (of_nat no_vars)) (\<lambda>bs.
           bind (write_links bs lnk vars_present) (\<lambda>bs.
           bind (unit_contents l lnk labels cnt vs us) (\<lambda>us.
           ret (bs, us)))))))
       | None \<Rightarrow>
           bind (enc_bits bs 4 8) (\<lambda>bs. bind (enc_bits bs 4 8) (\<lambda>bs. ret (bs, us)))) (\<lambda>(bs, us).
     bind (enc_boundary us) (\<lambda>us.
     bind (length_bitstream (Some us)) (\<lambda>ub.
     bind (enc_int bs (ucast (ub div of_nat BYTE_SIZE))) (\<lambda>bs.
     bind (enc_boundary bs) (\<lambda>bs.
     bind (join_bitstreams (Some bs) (Some us)) defined)))))))"

text \<open>
  The units of an equation: the list of more than one unit is reversed in place, the list of the
  bitstreams that precede them is not.
\<close>

definition write_eqn :: "nat \<Rightarrow> nat list \<Rightarrow> nat \<Rightarrow> nat \<Rightarrow> ('z capsule_vars_scheme, nat) prog" where
  "write_eqn no_vars vars_present bs i =
     bind (eqn_get i) (\<lambda>eqn.
     let us = (if length (eq_units eqn) > 1 then rev (eq_units eqn) else eq_units eqn) in
     bind (modify (\<lambda>s. s\<lparr>eqns := (eqns s)[i := eqn\<lparr>eq_units := us\<rparr>]\<rparr>)) (\<lambda>_.
     bind (enc_int bs (of_nat (length us))) (\<lambda>bs.
     bind (check (length us \<le> length (eq_pres eqn))) (\<lambda>_.
     for_bs (zip us (eq_pres eqn)) (write_unit no_vars (eq_labels eqn) (eq_count eqn) vars_present) bs))))"

text \<open>
  The body after the call of \<^verbatim>\<open>make_capsule_units\<close>. Without a present variable there is no linker
  information unit, \<open>ts\<close> is null and nothing is written to it; \<open>bs\<close> stands in for it.
\<close>

definition write_capsule_body :: "nat \<Rightarrow> ('z capsule_vars_scheme, nat) prog" where
  "write_capsule_body bs =
     bind present_vars (\<lambda>vs.
     let no_vars = length vs in
     bind (if no_vars \<noteq> 0 then bind make_tld_unit (\<lambda>ts. bind (add_unit EQN_tld (Some ts) None) (\<lambda>_. ret (Some ts)))
           else ret None) (\<lambda>to.
     bind used_eqns (\<lambda>us.
     bind (write_eqn_names bs us) (\<lambda>bs.
     bind (write_var_names bs vs) (\<lambda>bs.
     bind (enc_int bs (of_nat no_vars)) (\<lambda>bs.
     bind (case to of
         None \<Rightarrow> ret bs
       | Some t \<Rightarrow>
           bind (write_externs t bs vs) (\<lambda>(ts, bs).
           bind (if ts \<noteq> t then
               bind (eqn_get EQN_tld) (\<lambda>eqn. bind (check (eq_units eqn \<noteq> [])) (\<lambda>_.
               modify (\<lambda>s. s\<lparr>eqns := (eqns s)[EQN_tld := eqn\<lparr>eq_units := butlast (eq_units eqn) @ [ts]\<rparr>]\<rparr>)))
             else ret ()) (\<lambda>_.
           ret bs))) (\<lambda>bs.
     bind (enc_int bs (of_nat (length us))) (\<lambda>bs.
     for_bs us (write_eqn no_vars vs) bs))))))))"

section \<open>The capsule\<close>

text \<open>
  \<^verbatim>\<open>open_output\<close> gives the file at \<open>tdf_file\<close>; when it fails the program ends through
  \<^verbatim>\<open>term_error\<close>, whose other output is not modelled.
\<close>

definition write_capsule :: "('z capsule_vars_scheme, unit) prog \<Rightarrow> ('z capsule_vars_scheme, unit) prog" where
  "write_capsule make_capsule_units =
     bind (gets output_tdf) (\<lambda>tdf. bind (gets written_capsule) (\<lambda>written.
     if tdf \<and> \<not> written then
       bind (modify (\<lambda>s. s\<lparr>written_capsule := True\<rparr>)) (\<lambda>_.
       bind (gets tdf_file) (\<lambda>fo. case fo of
         None \<Rightarrow> raise Exit_Failure
       | Some f \<Rightarrow>
           bind (start_bitstream (Some f) None) (\<lambda>bs.
           bind (enc_bits bs 8 0x54) (\<lambda>bs. bind (enc_bits bs 8 0x44) (\<lambda>bs.
           bind (enc_bits bs 8 0x46) (\<lambda>bs. bind (enc_bits bs 8 0x43) (\<lambda>bs.
           bind (enc_version bs) (\<lambda>bs.
           bind (enc_boundary bs) (\<lambda>bs.
           bind (gets output_capsule) (\<lambda>cap.
           bind (if cap then bind make_capsule_units (\<lambda>_. write_capsule_body bs)
             else bind (enc_bits bs 4 8) (\<lambda>bs. bind (enc_bits bs 4 8) (\<lambda>bs.
               bind (enc_bits bs 4 8) (\<lambda>bs. enc_bits bs 4 8)))) (\<lambda>bs.
           end_bitstream bs True)))))))))))
     else ret ()))"

end
