(* ===== verification/Producer_Numbers.thy ===== *)
theory Producer_Numbers
  imports Producer_Linkage Libtdf_Join
begin

text \<open>
  The invariant of the producer's linkage tables: the tables of a variable have room for all its
  external numbers, and in every unit the internal numbers of one kind of variable are distinct and
  below their count. Every operation keeps it as long as the numbers stay below the marks
  \<^verbatim>\<open>LINK_NONE\<close> and \<^verbatim>\<open>LINK_EXTERN\<close>.
\<close>

section \<open>The invariant\<close>

definition var_ok :: "VAR_INFO \<Rightarrow> bool" where
  "var_ok var \<longleftrightarrow> length (vi_names var) = vi_sz var \<and> length (vi_uses var) = vi_sz var \<and> unat (vi_no var) \<le> vi_sz var"

definition numbers_ok :: "nat \<Rightarrow> culong list \<Rightarrow> bool" where
  "numbers_ok n mp \<longleftrightarrow> (\<forall>m < length mp. mp ! m \<noteq> LINK_NONE \<longrightarrow> unat (mp ! m) < n) \<and>
     (\<forall>m < length mp. \<forall>k < length mp. mp ! m = mp ! k \<and> mp ! m \<noteq> LINK_NONE \<longrightarrow> m = k)"

definition link_ok :: "VAR_INFO list \<Rightarrow> LINKAGE \<Rightarrow> bool" where
  "link_ok vs lnk \<longleftrightarrow> length (lk_no lnk) = VAR_total \<and> length (lk_no_map lnk) = VAR_no \<and> length (lk_map lnk) = VAR_no \<and>
     (\<forall>v < VAR_no. length (lk_map lnk ! v) = vi_sz (vs ! v) \<and> numbers_ok (unat (lk_no lnk ! v)) (lk_map lnk ! v) \<and>
       lk_no_map lnk ! v = of_nat (length (filter (\<lambda>n. n \<noteq> LINK_NONE) (lk_map lnk ! v))))"

definition linkage_ok :: "'z capsule_vars_scheme \<Rightarrow> bool" where
  "linkage_ok s \<longleftrightarrow> length (vars s) = VAR_total \<and> (\<forall>v < VAR_no. var_ok (vars s ! v)) \<and>
     (\<forall>v < VAR_total. vi_diags (vars s ! v) \<noteq> None \<longrightarrow> output_diag s \<noteq> 0 \<and> (v = VAR_tag \<or> v = VAR_token)) \<and>
     (\<forall>lnk\<in>set (all_links s). link_ok (vars s) lnk)"

text \<open>Numbers the marks leave room for.\<close>

definition room :: "'z capsule_vars_scheme \<Rightarrow> bool" where
  "room s \<longleftrightarrow> (\<forall>v < VAR_total. unat (vi_no (vars s ! v)) < 2 ^ 31) \<and>
     (\<forall>lnk\<in>set (all_links s). \<forall>v < VAR_total. unat (lk_no lnk ! v) < 2 ^ 32 - 1)"

text \<open>A number a unit has given out stays.\<close>

definition tables_grow :: "'z capsule_vars_scheme \<Rightarrow> 'z capsule_vars_scheme \<Rightarrow> bool" where
  "tables_grow s s' \<longleftrightarrow> length (all_links s) \<le> length (all_links s') \<and>
     (\<forall>l < length (all_links s). \<forall>v < VAR_no. \<forall>m < length (lk_map (all_links s ! l) ! v).
        m < length (lk_map (all_links s' ! l) ! v) \<and>
        (lk_map (all_links s ! l) ! v ! m \<noteq> LINK_NONE \<longrightarrow> lk_map (all_links s' ! l) ! v ! m = lk_map (all_links s ! l) ! v ! m))"

lemma tables_grow_same: "map lk_map (all_links s') = map lk_map (all_links s) \<Longrightarrow> tables_grow s s'"
  unfolding tables_grow_def by (metis length_map nth_map order_refl)

lemma tables_grow_refl: "tables_grow s s"
  by (rule tables_grow_same) simp

lemma tables_grow_trans: "tables_grow s t \<Longrightarrow> tables_grow t u \<Longrightarrow> tables_grow s u"
  unfolding tables_grow_def by (intro conjI allI impI) (fastforce intro: order_trans)+

lemma VAR_less [simp]: "v < VAR_no \<Longrightarrow> v < VAR_total"
  by (simp add: var_defs)

lemma unat_LINK_NONE: "unat LINK_NONE = 2 ^ 32 - 1"
  by (simp add: LINK_NONE_def)

lemma numbers_ok_append: "numbers_ok n mp \<Longrightarrow> numbers_ok n (mp @ replicate k LINK_NONE)"
  unfolding numbers_ok_def by (auto simp: nth_append)

lemma numbers_ok_none: "numbers_ok n (replicate k LINK_NONE)"
  by (simp add: numbers_ok_def)

lemma numbers_ok_mono: "numbers_ok n mp \<Longrightarrow> n \<le> n' \<Longrightarrow> numbers_ok n' mp"
  by (fastforce simp: numbers_ok_def)

lemma numbers_ok_new:
  assumes "numbers_ok n mp" "m < length mp" "unat x = n"
  shows "numbers_ok (Suc n) (mp[m := x])"
  using assms unfolding numbers_ok_def by (auto simp: nth_list_update less_Suc_eq split: if_splits)

lemma filter_new:
  "m < length mp \<Longrightarrow> mp ! m = LINK_NONE \<Longrightarrow> x \<noteq> LINK_NONE \<Longrightarrow>
   length (filter (\<lambda>n. n \<noteq> LINK_NONE) (mp[m := x])) = Suc (length (filter (\<lambda>n. n \<noteq> LINK_NONE) mp))"
proof (induction mp arbitrary: m)
  case (Cons n mp)
  then show ?case by (cases m) auto
qed simp

section \<open>Access to the tables\<close>

lemma var_get_eq: "v < length (vars s) \<Longrightarrow> var_get v s = (Ret (vars s ! v), s)"
  by (simp add: var_get_def)

lemma var_put_eq: "v < length (vars s) \<Longrightarrow> var_put v f s = (Ret (), s\<lparr>vars := (vars s)[v := f (vars s ! v)]\<rparr>)"
  by (simp add: var_put_def var_get_def modify_def)

lemma link_get_eq: "l < length (all_links s) \<Longrightarrow> link_get l s = (Ret (all_links s ! l), s)"
  by (simp add: link_get_def)

lemma link_put_eq: "l < length (all_links s) \<Longrightarrow> link_put l f s = (Ret (), s\<lparr>all_links := (all_links s)[l := f (all_links s ! l)]\<rparr>)"
  by (simp add: link_put_def link_get_def modify_def)

lemma bind_var_get [simp]: "v < length (vars s) \<Longrightarrow> bind (var_get v) k s = k (vars s ! v) s"
  by (simp add: var_get_eq)

lemma bind_var_put [simp]:
  "v < length (vars s) \<Longrightarrow> bind (var_put v f) k s = k () (s\<lparr>vars := (vars s)[v := f (vars s ! v)]\<rparr>)"
  by (simp add: var_put_eq)

lemma bind_link_get [simp]: "l < length (all_links s) \<Longrightarrow> bind (link_get l) k s = k (all_links s ! l) s"
  by (simp add: link_get_eq)

lemma bind_link_put [simp]:
  "l < length (all_links s) \<Longrightarrow> bind (link_put l f) k s = k () (s\<lparr>all_links := (all_links s)[l := f (all_links s ! l)]\<rparr>)"
  by (simp add: link_put_eq)

section \<open>External numbers\<close>

lemma link_ok_extend:
  assumes l: "link_ok vs lnk" and v: "v < VAR_no" and vs: "length vs = VAR_total"
    and sz: "vi_sz var = vi_sz (vs ! v) + 100"
  shows "link_ok (vs[v := var]) (lnk\<lparr>lk_map := (lk_map lnk)[v := lk_map lnk ! v @ replicate 100 LINK_NONE]\<rparr>)"
  using assms by (auto simp: link_ok_def nth_list_update numbers_ok_append)

lemma link_ok_var: "link_ok vs lnk \<Longrightarrow> v < length vs \<Longrightarrow> vi_sz var = vi_sz (vs ! v) \<Longrightarrow> link_ok (vs[v := var]) lnk"
  by (auto simp: link_ok_def nth_list_update)

text \<open>The state after \<^const>\<open>extend_linkage\<close>.\<close>

definition extended_var :: "'z capsule_vars_scheme \<Rightarrow> nat \<Rightarrow> VAR_INFO \<Rightarrow> VAR_INFO" where
  "extended_var s v var = var\<lparr>vi_sz := vi_sz var + 100, vi_names := vi_names var @ replicate 100 None,
     vi_uses := vi_uses var @ replicate 100 USAGE_NONE,
     vi_diags := (if output_diag s \<noteq> 0 \<and> (v = VAR_tag \<or> v = VAR_token)
       then Some ((case vi_diags var of None \<Rightarrow> [] | Some d \<Rightarrow> d) @ replicate 100 LINK_NONE) else None)\<rparr>"

definition extended_links :: "nat \<Rightarrow> LINKAGE list \<Rightarrow> LINKAGE list" where
  "extended_links v ls = map (\<lambda>lnk. lnk\<lparr>lk_map := (lk_map lnk)[v := lk_map lnk ! v @ replicate 100 LINK_NONE]\<rparr>) ls"

definition tables_extended :: "nat \<Rightarrow> 'z capsule_vars_scheme \<Rightarrow> 'z capsule_vars_scheme" where
  "tables_extended v s = s\<lparr>vars := (vars s)[v := extended_var s v (vars s ! v)], all_links := extended_links v (all_links s)\<rparr>"

lemma extend_linkage_eq:
  assumes "v < length (vars s)" "vi_diags (vars s ! v) \<noteq> None \<longrightarrow> output_diag s \<noteq> 0 \<and> (v = VAR_tag \<or> v = VAR_token)"
  shows "extend_linkage v s = (Ret (), tables_extended v s)"
  using assms by (auto simp: extend_linkage_def Let_def modify_def tables_extended_def extended_var_def extended_links_def)

lemma extended_var_no: "(extended_var s v var)\<lparr>vi_no := n\<rparr> = extended_var s v (var\<lparr>vi_no := n\<rparr>)"
  by (cases var) (simp add: extended_var_def)

lemma tables_extended_no:
  assumes "v < length (vars s)"
  shows "tables_extended v (s\<lparr>vars := (vars s)[v := (vars s ! v)\<lparr>vi_no := n\<rparr>]\<rparr>) =
    (tables_extended v s)\<lparr>vars := (vars (tables_extended v s))[v := (vars (tables_extended v s) ! v)\<lparr>vi_no := n\<rparr>]\<rparr>"
  using assms by (cases s) (simp add: tables_extended_def extended_var_no, simp add: extended_var_def)

lemma tables_extended_ok:
  assumes ok: "linkage_ok s" and v: "v < VAR_no"
  shows "linkage_ok (tables_extended v s)"
  unfolding linkage_ok_def
proof (intro conjI ballI allI impI)
  have len: "v < length (vars s)" "length (vars s) = VAR_total" using ok v by (auto simp: linkage_ok_def)
  show "length (vars (tables_extended v s)) = VAR_total" using len by (simp add: tables_extended_def)
  show "var_ok (vars (tables_extended v s) ! u)" if "u < VAR_no" for u
    using ok v that len by (auto simp: linkage_ok_def var_ok_def nth_list_update tables_extended_def extended_var_def)
  show "output_diag (tables_extended v s) \<noteq> 0" "u = VAR_tag \<or> u = VAR_token"
    if "u < VAR_total" "vi_diags (vars (tables_extended v s) ! u) \<noteq> None" for u
    using that ok len(1) by (auto simp: linkage_ok_def nth_list_update tables_extended_def extended_var_def split: if_splits)
  show "link_ok (vars (tables_extended v s)) lnk" if "lnk \<in> set (all_links (tables_extended v s))" for lnk
    using that ok v len by (auto simp: linkage_ok_def tables_extended_def extended_var_def extended_links_def intro!: link_ok_extend)
qed

lemma tables_grow_extended:
  assumes "linkage_ok s" "v < VAR_no"
  shows "tables_grow s (tables_extended v s)"
  using assms by (auto simp: tables_grow_def tables_extended_def extended_links_def linkage_ok_def link_ok_def nth_list_update nth_append)

lemma capsule_no_ok:
  assumes ok: "linkage_ok s" and v: "v < VAR_no" and rm: "room s"
  obtains s' where "capsule_no nm v s = (Ret (vi_no (vars s ! v) OR LINK_EXTERN), s')" "linkage_ok s'" "tables_grow s s'"
    "vi_no (vars s' ! v) = vi_no (vars s ! v) + 1" "vi_names (vars s' ! v) ! unat (vi_no (vars s ! v)) = nm"
    "vi_uses (vars s' ! v) ! unat (vi_no (vars s ! v)) = USAGE_USE" "vi_present (vars s' ! v)"
proof -
  let ?n = "vi_no (vars s ! v)"
  have len: "v < length (vars s)" "length (vars s) = VAR_total" using ok v by (auto simp: linkage_ok_def)
  have n: "unat ?n < 2 ^ 31" using rm v by (simp add: room_def)
  have n1: "unat (?n + 1) = unat ?n + 1"
    using n by (simp add: unat_word_ariths(1))
  let ?s1 = "s\<lparr>vars := (vars s)[v := (vars s ! v)\<lparr>vi_no := ?n + 1\<rparr>]\<rparr>"
  have "\<exists>s2. (if unat ?n \<ge> vi_sz (vars s ! v) then extend_linkage v else ret ()) ?s1 = (Ret (), s2) \<and> linkage_ok s2 \<and> tables_grow s s2 \<and>
      vi_no (vars s2 ! v) = ?n + 1"
  proof (cases "unat ?n \<ge> vi_sz (vars s ! v)")
    case False
    have "linkage_ok ?s1"
      using ok v VAR_less[OF v] len False n1 by (auto simp: linkage_ok_def var_ok_def nth_list_update simp del: VAR_less intro!: link_ok_var split: if_splits)
    then show ?thesis using False len by (simp add: ret_def tables_grow_same)
  next
    case True
    let ?t = "(tables_extended v s)\<lparr>vars := (vars (tables_extended v s))[v := (vars (tables_extended v s) ! v)\<lparr>vi_no := ?n + 1\<rparr>]\<rparr>"
    have lt: "v < length (vars (tables_extended v s))" using len(1) by (simp add: tables_extended_def)
    have sz: "unat ?n = vi_sz (vars s ! v)" "vi_sz (vars (tables_extended v s) ! v) = vi_sz (vars s ! v) + 100"
      using True ok v len(1) by (auto simp: linkage_ok_def var_ok_def tables_extended_def extended_var_def)
    have "linkage_ok ?t"
      using tables_extended_ok[OF ok v] v VAR_less[OF v] lt n1 sz
      by (auto simp: linkage_ok_def var_ok_def nth_list_update simp del: VAR_less intro!: link_ok_var split: if_splits)
    moreover have "tables_extended v ?s1 = ?t" by (rule tables_extended_no[OF len(1)])
    moreover have "extend_linkage v ?s1 = (Ret (), tables_extended v ?s1)"
      using ok len(1) by (intro extend_linkage_eq) (auto simp: linkage_ok_def)
    moreover have "tables_grow s ?t" using tables_grow_extended[OF ok v] by (simp add: tables_grow_def)
    ultimately show ?thesis using True lt by auto
  qed
  then obtain s2 where s2: "(if unat ?n \<ge> vi_sz (vars s ! v) then extend_linkage v else ret ()) ?s1 = (Ret (), s2)" "linkage_ok s2"
      "tables_grow s s2" "vi_no (vars s2 ! v) = ?n + 1" by blast
  have l2: "v < length (vars s2)" and sz2: "length (vi_uses (vars s2 ! v)) = vi_sz (vars s2 ! v)"
    "length (vi_names (vars s2 ! v)) = vi_sz (vars s2 ! v)" "unat ?n < vi_sz (vars s2 ! v)"
    using s2(2,4) v n1 by (auto simp: linkage_ok_def var_ok_def)
  let ?s3 = "s2\<lparr>vars := (vars s2)[v := (vars s2 ! v)\<lparr>vi_uses := (vi_uses (vars s2 ! v))[unat ?n := USAGE_USE],
      vi_names := (vi_names (vars s2 ! v))[unat ?n := nm], vi_present := True\<rparr>]\<rparr>"
  have "linkage_ok ?s3"
    using s2(2) v VAR_less[OF v] l2 by (auto simp: linkage_ok_def var_ok_def nth_list_update simp del: VAR_less intro!: link_ok_var split: if_splits)
  moreover have "capsule_no nm v s = (Ret (?n OR LINK_EXTERN), ?s3)"
    unfolding capsule_no_def bind_var_get[OF len(1)] Let_def bind_var_put[OF len(1)]
    by (simp only: bind_def[of "if _ then _ else _"] s2(1) outcome.case prod.case)
      (use l2 sz2 in \<open>simp add: ret_def\<close>)
  moreover have "tables_grow s ?s3" using s2(3) by (simp add: tables_grow_def)
  ultimately show thesis using s2(4) l2 sz2 by (intro that[of ?s3]) simp_all
qed

section \<open>Internal numbers\<close>

lemma next_unit_no_Ret:
  "next_unit_no l v s = (Ret n, s') \<longleftrightarrow> l < length (all_links s) \<and> v < length (lk_no (all_links s ! l)) \<and>
     n = lk_no (all_links s ! l) ! v \<and>
     s' = s\<lparr>all_links := (all_links s)[l := (all_links s ! l)\<lparr>lk_no := (lk_no (all_links s ! l))[v := n + 1]\<rparr>]\<rparr>"
  by (auto simp: next_unit_no_def link_get_def link_put_def index_def bind_def prog_simps split: if_splits)

lemma set_present_Ret:
  "set_present v s = (Ret u, s') \<longleftrightarrow> v < length (vars s) \<and> s' = s\<lparr>vars := (vars s)[v := (vars s ! v)\<lparr>vi_present := True\<rparr>]\<rparr>"
  by (auto simp: set_present_def var_put_def var_get_def index_def bind_def prog_simps split: if_splits)

lemma bs_linkage_Ret: "bs_linkage bs s = (Ret l, s') \<longleftrightarrow> bs < length (bs_heap s) \<and> bs_link (bs_heap s ! bs) = Some l \<and> s' = s"
  by (auto simp: bs_linkage_def bs_get_def bind_def prog_simps split: option.splits)

lemma linkage_ok_vars:
  assumes "linkage_ok s" "v < length (vars s)" "vi_sz var = vi_sz (vars s ! v)" "v < VAR_no \<Longrightarrow> var_ok var"
    "vi_diags var \<noteq> None \<longrightarrow> vi_diags (vars s ! v) \<noteq> None"
  shows "linkage_ok (s\<lparr>vars := (vars s)[v := var]\<rparr>)"
  using assms by (auto simp: linkage_ok_def nth_list_update intro!: link_ok_var split: if_splits)

lemma linkage_ok_link:
  assumes "linkage_ok s" "link_ok (vars s) lnk"
  shows "linkage_ok (s\<lparr>all_links := (all_links s)[l := lnk]\<rparr>)"
  using assms set_update_subset_insert[of "all_links s" l lnk] by (auto simp: linkage_ok_def)

lemma linkage_ok_present: "linkage_ok s \<Longrightarrow> set_present v s = (Ret u, s') \<Longrightarrow> linkage_ok s'"
  by (auto simp: set_present_Ret linkage_ok_def[of s] var_ok_def intro!: linkage_ok_vars)

lemma link_ok_next:
  assumes "link_ok vs lnk" "unat (lk_no lnk ! v) < 2 ^ 32 - 1"
  shows "link_ok vs (lnk\<lparr>lk_no := (lk_no lnk)[v := lk_no lnk ! v + 1]\<rparr>)"
proof -
  have "unat (lk_no lnk ! v + 1) = Suc (unat (lk_no lnk ! v))" using assms(2) by (simp add: unat_word_ariths(1))
  then have "numbers_ok (unat (lk_no lnk ! v)) mp \<Longrightarrow> numbers_ok (unat (lk_no lnk ! v + 1)) mp" for mp
    using numbers_ok_mono by fastforce
  then show ?thesis
    using assms(1) by (cases "v < VAR_total") (auto simp: link_ok_def nth_list_update list_update_beyond split: if_splits)
qed

text \<open>What the new number does to a linkage.\<close>

definition numbered :: "nat \<Rightarrow> nat \<Rightarrow> LINKAGE \<Rightarrow> LINKAGE" where
  "numbered v m lnk = lnk\<lparr>lk_no := (lk_no lnk)[v := lk_no lnk ! v + 1],
     lk_map := (lk_map lnk)[v := (lk_map lnk ! v)[m := lk_no lnk ! v]],
     lk_no_map := (lk_no_map lnk)[v := lk_no_map lnk ! v + 1]\<rparr>"

lemma numbered_ok:
  assumes ok: "link_ok vs lnk" and v: "v < VAR_no" and m: "m < length (lk_map lnk ! v)" "lk_map lnk ! v ! m = LINK_NONE"
    and rm: "unat (lk_no lnk ! v) < 2 ^ 32 - 1"
  shows "link_ok vs (numbered v m lnk)"
proof -
  let ?n = "lk_no lnk ! v"
  have n1: "unat (?n + 1) = Suc (unat ?n)" using rm by (simp add: unat_word_ariths(1))
  have nn: "?n \<noteq> LINK_NONE" using rm unat_LINK_NONE by (metis less_irrefl)
  have num: "numbers_ok (unat (?n + 1)) ((lk_map lnk ! v)[m := ?n])"
    unfolding n1 using ok v m(1) by (intro numbers_ok_new) (auto simp: link_ok_def)
  show ?thesis
    using ok v num filter_new[OF m nn] by (auto simp: link_ok_def numbered_def nth_list_update)
qed

lemma link_no_Ret:
  assumes "link_no bs n v s = (Ret r, s')" "linkage_ok s" "room s"
  obtains l where "bs < length (bs_heap s)" "bs_link (bs_heap s ! bs) = Some l" "l < length (all_links s)" "v < VAR_no"
    "unat (n AND NOT LINK_EXTERN) < length (lk_map (all_links s ! l) ! v)"
    "lk_map (all_links s ! l) ! v ! unat (n AND NOT LINK_EXTERN) \<noteq> LINK_NONE \<Longrightarrow>
       r = lk_map (all_links s ! l) ! v ! unat (n AND NOT LINK_EXTERN) \<and> s' = s"
    "lk_map (all_links s ! l) ! v ! unat (n AND NOT LINK_EXTERN) = LINK_NONE \<Longrightarrow>
       r = lk_no (all_links s ! l) ! v \<and>
       s' = s\<lparr>vars := (vars s)[v := (vars s ! v)\<lparr>vi_present := True\<rparr>],
         all_links := (all_links s)[l := numbered v (unat (n AND NOT LINK_EXTERN)) (all_links s ! l)]\<rparr>"
proof -
  let ?m = "unat (n AND NOT LINK_EXTERN)"
  from assms(1) obtain l where l: "bs < length (bs_heap s)" "bs_link (bs_heap s ! bs) = Some l" "l < length (all_links s)"
    "v < length (lk_map (all_links s ! l))" "?m < length (lk_map (all_links s ! l) ! v)"
    by (auto simp: link_no_def bind_Ret_iff bs_linkage_Ret link_get_def index_def Let_def gets_def split: if_splits)
  let ?lnk = "all_links s ! l"
  have lk: "link_ok (vars s) ?lnk" "length (vars s) = VAR_total" using assms(2) l(3) by (auto simp: linkage_ok_def)
  have v: "v < VAR_no" using l(4) lk by (simp add: link_ok_def)
  have run: "link_no bs n v s = (if lk_map ?lnk ! v ! ?m = LINK_NONE then
       bind (next_unit_no l v) (\<lambda>n.
       bind (link_put l (\<lambda>lnk. lnk\<lparr>lk_map := (lk_map lnk)[v := (lk_map lnk ! v)[?m := n]],
         lk_no_map := (lk_no_map lnk)[v := lk_no_map lnk ! v + 1]\<rparr>)) (\<lambda>_.
       bind (set_present v) (\<lambda>_. ret n)))
     else ret (lk_map ?lnk ! v ! ?m)) s"
    using l by (simp add: link_no_def bs_linkage_def bs_get_eq bind_assoc Let_def)
  show thesis
  proof (rule that[OF l(1-3) v l(5)])
    show "r = lk_map ?lnk ! v ! ?m \<and> s' = s" if "lk_map ?lnk ! v ! ?m \<noteq> LINK_NONE"
      using that assms(1) unfolding run by (auto simp: ret_def)
    assume none: "lk_map ?lnk ! v ! ?m = LINK_NONE"
    have "v < length (lk_no ?lnk)" "v < length (vars s)" using lk v by (simp_all add: link_ok_def)
    then show "r = lk_no ?lnk ! v \<and> s' = s\<lparr>vars := (vars s)[v := (vars s ! v)\<lparr>vi_present := True\<rparr>],
         all_links := (all_links s)[l := numbered v ?m ?lnk]\<rparr>"
      using assms(1) none l(3) unfolding run
      by (auto simp: bind_Ret_iff next_unit_no_Ret set_present_Ret link_put_eq ret_def numbered_def)
  qed
qed

lemma tables_grow_numbered:
  assumes "linkage_ok s" "l < length (all_links s)" "v < VAR_no" "lk_map (all_links s ! l) ! v ! m = LINK_NONE"
  shows "tables_grow s (s\<lparr>all_links := (all_links s)[l := numbered v m (all_links s ! l)]\<rparr>)"
  using assms
  by (auto simp: tables_grow_def numbered_def nth_list_update linkage_ok_def link_ok_def) (metis nth_list_update_neq)

lemma link_no_keeps:
  assumes "link_no bs n v s = (Ret r, s')" "linkage_ok s" "room s"
  shows "linkage_ok s' \<and> tables_grow s s'"
proof -
  let ?m = "unat (n AND NOT LINK_EXTERN)"
  obtain l where l: "l < length (all_links s)" "v < VAR_no" "?m < length (lk_map (all_links s ! l) ! v)"
    "lk_map (all_links s ! l) ! v ! ?m \<noteq> LINK_NONE \<Longrightarrow> s' = s"
    "lk_map (all_links s ! l) ! v ! ?m = LINK_NONE \<Longrightarrow> s' = s\<lparr>vars := (vars s)[v := (vars s ! v)\<lparr>vi_present := True\<rparr>],
         all_links := (all_links s)[l := numbered v ?m (all_links s ! l)]\<rparr>"
    by (rule link_no_Ret[OF assms]) blast
  show ?thesis
  proof (cases "lk_map (all_links s ! l) ! v ! ?m = LINK_NONE")
    case True
    have "link_ok (vars s) (all_links s ! l)" "unat (lk_no (all_links s ! l) ! v) < 2 ^ 32 - 1"
      using assms(2,3) l(1,2) by (auto simp: linkage_ok_def room_def)
    then have 1: "linkage_ok (s\<lparr>all_links := (all_links s)[l := numbered v ?m (all_links s ! l)]\<rparr>)"
      using numbered_ok[OF _ l(2,3) True] assms(2) by (intro linkage_ok_link) auto
    have "length (vars s) = VAR_total" "var_ok (vars s ! v)" using assms(2) l(2) by (auto simp: linkage_ok_def)
    with linkage_ok_vars[OF 1, of v "(vars s ! v)\<lparr>vi_present := True\<rparr>"] l(2)
    have "linkage_ok (s\<lparr>all_links := (all_links s)[l := numbered v ?m (all_links s ! l)],
        vars := (vars s)[v := (vars s ! v)\<lparr>vi_present := True\<rparr>]\<rparr>)"
      by (simp add: var_ok_def)
    moreover have "s' = s\<lparr>all_links := (all_links s)[l := numbered v ?m (all_links s ! l)],
        vars := (vars s)[v := (vars s ! v)\<lparr>vi_present := True\<rparr>]\<rparr>"
      unfolding l(5)[OF True] by (cases s) simp
    ultimately show ?thesis using tables_grow_numbered[OF assms(2) l(1,2) True] by (simp add: tables_grow_def)
  qed (use l(4) assms(2) in \<open>simp add: tables_grow_refl\<close>)
qed

section \<open>The operations keep the invariant\<close>

text \<open>
  A quiet operation keeps the invariant and the room for numbers, a numbering one keeps the invariant
  when there was room before it.
\<close>

definition quiet :: "('z capsule_vars_scheme, 'a) prog \<Rightarrow> bool" where
  "quiet p \<longleftrightarrow> (\<forall>s r s'. p s = (Ret r, s') \<longrightarrow> linkage_ok s \<longrightarrow>
     linkage_ok s' \<and> tables_grow s s' \<and> room s' = room s)"

definition numbering :: "('z capsule_vars_scheme, 'a) prog \<Rightarrow> bool" where
  "numbering p \<longleftrightarrow> (\<forall>s r s'. p s = (Ret r, s') \<longrightarrow> linkage_ok s \<longrightarrow> room s \<longrightarrow>
     linkage_ok s' \<and> tables_grow s s')"

named_theorems quiet_intros
named_theorems numbering_intros

lemma quiet_bind: "quiet p \<Longrightarrow> (\<And>x. quiet (k x)) \<Longrightarrow> quiet (bind p k)"
  unfolding quiet_def bind_Ret_iff by (metis tables_grow_trans)

lemma numbering_bind1: "quiet p \<Longrightarrow> (\<And>x. numbering (k x)) \<Longrightarrow> numbering (bind p k)"
  unfolding quiet_def numbering_def bind_Ret_iff by (metis tables_grow_trans)

lemma numbering_bind2: "numbering p \<Longrightarrow> (\<And>x. quiet (k x)) \<Longrightarrow> numbering (bind p k)"
  unfolding quiet_def numbering_def bind_Ret_iff by (metis tables_grow_trans)

lemma quiet_numbering: "quiet p \<Longrightarrow> numbering p"
  by (auto simp: quiet_def numbering_def)

lemma quiet_basic [quiet_intros]:
  "quiet (ret x)" "quiet (gets g)" "quiet (check b)" "quiet (defined xo)" "quiet (index xs n)"
  by (auto simp: quiet_def prog_simps tables_grow_refl split: if_splits option.splits)

lemma quiet_if [quiet_intros]: "(b \<Longrightarrow> quiet p) \<Longrightarrow> (\<not> b \<Longrightarrow> quiet q) \<Longrightarrow> quiet (if b then p else q)"
  by simp

lemma quiet_idents [quiet_intros]: "quiet (modify (\<lambda>s. s\<lparr>idents := f s\<rparr>))"
  "quiet (modify (\<lambda>s. s\<lparr>scope_reports := g s\<rparr>))" "quiet (modify (\<lambda>s. s\<lparr>pending_funcs := h s\<rparr>))"
  by (auto simp: quiet_def prog_simps linkage_ok_def room_def intro!: tables_grow_same)

lemma quiet_bs_get [quiet_intros]: "quiet (bs_get p)"
  by (auto simp: quiet_def bs_get_def tables_grow_refl split: if_splits)

lemma quiet_access [quiet_intros]: "quiet (id_get i)" "quiet (var_get v)" "quiet (link_get l)" "quiet (bs_linkage bs)"
  unfolding id_get_def var_get_def link_get_def bs_linkage_def by (intro quiet_bind quiet_intros)+

lemma quiet_id_set_no [quiet_intros]: "quiet (id_set_no i n)"
  unfolding id_set_no_def by (intro quiet_bind quiet_intros)

lemma room_vars:
  "vi_no var = vi_no (vars s ! v) \<Longrightarrow> room (s\<lparr>vars := (vars s)[v := var]\<rparr>) = room s"
  by (cases "v < length (vars s)") (simp_all add: room_def nth_list_update if_distrib[of vi_no] list_update_beyond cong: if_cong)

lemma quiet_var_put:
  assumes "\<And>var. vi_sz (f var) = vi_sz var" "\<And>var. var_ok var \<Longrightarrow> var_ok (f var)"
    "\<And>var. vi_diags (f var) = vi_diags var" "\<And>var. vi_no (f var) = vi_no var"
  shows "quiet (var_put v f)"
  unfolding quiet_def
proof (intro allI impI)
  fix s s' :: "'a capsule_vars_scheme" and r
  assume "var_put v f s = (Ret r, s')" and ok: "linkage_ok s"
  then have v: "v < length (vars s)" and s': "s' = s\<lparr>vars := (vars s)[v := f (vars s ! v)]\<rparr>"
    by (auto simp: var_put_def bind_Ret_iff var_get_def index_def prog_simps split: if_splits)
  have "linkage_ok s'" unfolding s'
    using ok v assms by (intro linkage_ok_vars) (auto simp: linkage_ok_def)
  then show "linkage_ok s' \<and> tables_grow s s' \<and> room s' = room s"
    unfolding s' using assms(4) by (simp add: room_vars tables_grow_same)
qed

lemma quiet_set_present [quiet_intros]: "quiet (set_present v)"
  unfolding set_present_def by (rule quiet_var_put) (simp_all add: var_ok_def)

lemma numbering_if [numbering_intros]: "(b \<Longrightarrow> numbering p) \<Longrightarrow> (\<not> b \<Longrightarrow> numbering q) \<Longrightarrow> numbering (if b then p else q)"
  by simp

lemma next_unit_no_keeps: "next_unit_no l v s = (Ret n, s') \<Longrightarrow> linkage_ok s \<Longrightarrow> room s \<Longrightarrow>
   linkage_ok s' \<and> tables_grow s s'"
proof -
  assume n: "next_unit_no l v s = (Ret n, s')" and ok: "linkage_ok s" "room s"
  from n have l: "l < length (all_links s)" "v < length (lk_no (all_links s ! l))" by (simp_all add: next_unit_no_Ret)
  have "link_ok (vars s) (all_links s ! l)" using ok(1) l(1) by (simp add: linkage_ok_def)
  moreover from this have "v < VAR_total" using l(2) by (simp add: link_ok_def)
  then have "unat (lk_no (all_links s ! l) ! v) < 2 ^ 32 - 1" using ok(2) l(1) by (simp add: room_def)
  ultimately show ?thesis
    using n linkage_ok_link[OF ok(1) link_ok_next] by (simp add: next_unit_no_Ret tables_grow_same map_update list_update_same_conv)
qed

lemma numbering_next [numbering_intros]: "numbering (next_unit_no l v)"
  unfolding numbering_def using next_unit_no_keeps by blast

lemma numbering_link_no [numbering_intros]: "numbering (link_no bs n v)"
  unfolding numbering_def using link_no_keeps by blast

lemma numbering_unit_no [numbering_intros]: "numbering (unit_no bs io v def)"
proof (cases io)
  case None
  show ?thesis unfolding unit_no_def None option.case
    by (intro numbering_bind1[OF quiet_access(4)] numbering_bind2[OF numbering_next] quiet_bind quiet_intros)
next
  case (Some i)
  let ?def = "if \<not> def then modify (\<lambda>s. s\<lparr>scope_reports := scope_reports s + 1\<rparr>) else ret ()"
  show ?thesis unfolding unit_no_def Some option.case Let_def
    by (intro numbering_bind1[OF quiet_access(1)] numbering_bind1[OF quiet_access(4)] numbering_bind1[OF quiet_if]
        numbering_bind2[OF numbering_next] numbering_intros quiet_bind quiet_intros quiet_numbering[OF quiet_basic(1)])
qed

lemma numbering_capsule_no: "v < VAR_no \<Longrightarrow> numbering (capsule_no nm v)"
  unfolding numbering_def using capsule_no_ok by (metis Pair_inject)

lemma numbering_capsule_id: "v < VAR_no \<Longrightarrow> numbering (capsule_id mangle i v)"
  unfolding capsule_id_def Let_def
  by (intro numbering_bind1[OF quiet_access(1)] numbering_if numbering_bind2[OF numbering_capsule_no]
      quiet_bind quiet_intros quiet_numbering[OF quiet_bind])

lemma numbering_capsule_name: "v < VAR_no \<Longrightarrow> numbering (capsule_name n nm v)"
  unfolding capsule_name_def Let_def
  by (intro numbering_if numbering_bind2[OF numbering_capsule_no] quiet_bind quiet_intros quiet_var_put
      quiet_numbering[OF quiet_bind]) (simp_all add: var_ok_def)

lemma quiet_usage [quiet_intros]: "quiet (record_usage n v u)" "quiet (find_usage n v)" "quiet (clear_usage n v)"
  unfolding record_usage_def find_usage_def clear_usage_def Let_def
  by (intro quiet_bind quiet_intros quiet_var_put; simp add: var_ok_def)+

lemma start_bitstream_tables:
  assumes "start_bitstream f lnk s = (Ret p, s')"
  shows "vars s' = vars s" "all_links s' = all_links s" "output_diag s' = output_diag s"
  using assms by (auto simp: start_bitstream_def bind_Ret_iff bs_get_def bs_put_def prog_simps split: option.splits if_splits)

lemma start_linkage_Ret:
  assumes "start_linkage create s = (Ret p, s')"
  shows "vars s' = vars s" "output_diag s' = output_diag s"
    "all_links s' = all_links s @ [\<lparr>lk_no = replicate VAR_total 0, lk_no_map = replicate VAR_no 0,
         lk_map = map (\<lambda>var. replicate (vi_sz var) LINK_NONE) (take VAR_no (vars s)), lk_count = 0, lk_create = create\<rparr>]"
  using assms by (auto simp: start_linkage_def bind_Ret_iff prog_simps start_bitstream_tables[of _ _ _ p s'])

lemma quiet_start_linkage [quiet_intros]: "quiet (start_linkage create)"
  unfolding quiet_def
proof (intro allI impI)
  fix s s' :: "'a capsule_vars_scheme" and p
  assume run: "start_linkage create s = (Ret p, s')" and ok: "linkage_ok s"
  have "length (vars s) = VAR_total" using ok by (simp add: linkage_ok_def)
  then have "link_ok (vars s) \<lparr>lk_no = replicate VAR_total 0, lk_no_map = replicate VAR_no 0,
         lk_map = map (\<lambda>var. replicate (vi_sz var) LINK_NONE) (take VAR_no (vars s)), lk_count = 0, lk_create = create\<rparr>"
    by (simp add: link_ok_def numbers_ok_none min_def var_defs)
  then show "linkage_ok s' \<and> tables_grow s s' \<and> room s' = room s"
    using ok start_linkage_Ret[OF run] by (simp add: linkage_ok_def room_def tables_grow_def nth_append)
qed

lemma ball_set_nth: "(\<forall>x\<in>set xs. P x) \<longleftrightarrow> (\<forall>i < length xs. P (xs ! i))"
  by (metis in_set_conv_nth)

lemma quiet_count_item [quiet_intros]: "quiet (count_item bs)"
proof -
  have "quiet (link_put l (\<lambda>lnk. lnk\<lparr>lk_count := lk_count lnk + 1\<rparr>))" for l
    unfolding quiet_def
  proof (intro allI impI)
    fix s s' :: "'b capsule_vars_scheme" and r
    assume p: "link_put l (\<lambda>lnk. lnk\<lparr>lk_count := lk_count lnk + 1\<rparr>) s = (Ret r, s')" and ok: "linkage_ok s"
    let ?lnk = "all_links s ! l"
    from p have l: "l < length (all_links s)" and s': "s' = s\<lparr>all_links := (all_links s)[l := ?lnk\<lparr>lk_count := lk_count ?lnk + 1\<rparr>]\<rparr>"
      by (auto simp: link_put_def bind_Ret_iff link_get_def index_def prog_simps split: if_splits)
    have "link_ok (vars s) ?lnk" using ok l by (simp add: linkage_ok_def)
    then have "linkage_ok s'" unfolding s' using ok by (intro linkage_ok_link) (simp_all add: link_ok_def)
    moreover have "room s' = room s"
      unfolding s' room_def ball_set_nth using l
      by (simp add: nth_list_update if_distrib[of lk_no] cong: if_cong)
    moreover have "tables_grow s s'"
      unfolding s' using l by (simp add: tables_grow_same map_update list_update_same_conv)
    ultimately show "linkage_ok s' \<and> tables_grow s s' \<and> room s' = room s" by simp
  qed
  then show ?thesis unfolding count_item_def by (intro quiet_bind quiet_intros)
qed

end
