(* ===== verification/Unit_Numbers.thy ===== *)
theory Unit_Numbers
  imports Producer_Numbers
begin

text \<open>
  The numbering operations of the producer as a step relation: whatever the order in which units are
  started, capsule numbers made, names given and numbers asked for, one unit gives different numbers
  to different externals and always the same number to the same one.
\<close>

section \<open>The steps\<close>

text \<open>
  One completed call. The condition \<^const>\<open>room\<close> says that fewer than \<open>2 ^ 31\<close> externals of a kind and
  fewer than \<open>2 ^ 32 - 1\<close> numbers of a unit have been given out; the last rule stands for everything that leaves the tables
  alone, the encoding of bits above all.
\<close>

inductive tables_step :: "(nat \<Rightarrow> nat \<Rightarrow> byte list option) \<Rightarrow> 'z capsule_vars_scheme \<Rightarrow> 'z capsule_vars_scheme \<Rightarrow> bool"
  for mangle where
  start: "start_linkage create s = (Ret p, s') \<Longrightarrow> tables_step mangle s s'"
| capsule: "room s \<Longrightarrow> v < VAR_no \<Longrightarrow> capsule_no nm v s = (Ret n, s') \<Longrightarrow> tables_step mangle s s'"
| name: "room s \<Longrightarrow> v < VAR_no \<Longrightarrow> capsule_name n nm v s = (Ret r, s') \<Longrightarrow> tables_step mangle s s'"
| ident: "room s \<Longrightarrow> v < VAR_no \<Longrightarrow> capsule_id mangle i v s = (Ret b, s') \<Longrightarrow> tables_step mangle s s'"
| link: "room s \<Longrightarrow> link_no bs n v s = (Ret r, s') \<Longrightarrow> tables_step mangle s s'"
| unit: "room s \<Longrightarrow> unit_no bs io v def s = (Ret r, s') \<Longrightarrow> tables_step mangle s s'"
| clear: "clear_no io s = (Ret u, s') \<Longrightarrow> tables_step mangle s s'"
| usage: "record_usage n v w s = (Ret u, s') \<Longrightarrow> tables_step mangle s s'"
| unused: "clear_usage n v s = (Ret u, s') \<Longrightarrow> tables_step mangle s s'"
| count: "count_item bs s = (Ret u, s') \<Longrightarrow> tables_step mangle s s'"
| other: "vars s' = vars s \<Longrightarrow> all_links s' = all_links s \<Longrightarrow> output_diag s' = output_diag s \<Longrightarrow> tables_step mangle s s'"

definition tables_start :: "'z capsule_vars_scheme \<Rightarrow> bool" where
  "tables_start s \<longleftrightarrow> vars s = vars_init \<and> all_links s = []"

definition tables_reachable :: "(nat \<Rightarrow> nat \<Rightarrow> byte list option) \<Rightarrow> 'z capsule_vars_scheme \<Rightarrow> bool" where
  "tables_reachable mangle s \<longleftrightarrow> (\<exists>s0. tables_start s0 \<and> (tables_step mangle)\<^sup>*\<^sup>* s0 s)"

section \<open>The invariant\<close>

lemma linkage_ok_start: "tables_start s \<Longrightarrow> linkage_ok s"
proof -
  assume s: "tables_start s"
  have "vi_sz (vars s ! v) = 0 \<and> vi_names (vars s ! v) = [] \<and> vi_uses (vars s ! v) = [] \<and> vi_no (vars s ! v) = 0 \<and>
      vi_diags (vars s ! v) = None" if "v < VAR_total" for v
    using that s unfolding tables_start_def vars_init_def
    by (auto simp: var_init_def var_defs nth_Cons' simp del: VAR_less)
  then show ?thesis using s VAR_less unfolding linkage_ok_def var_ok_def tables_start_def by (auto simp: vars_init_def var_defs)
qed

lemma quiet_clear_no [quiet_intros]: "quiet (clear_no io)"
proof (cases io)
  case (Some i)
  show ?thesis unfolding clear_no_def Some option.case Let_def by (intro quiet_bind quiet_intros)
qed (simp add: clear_no_def quiet_intros)

lemma step_keeps:
  assumes "tables_step mangle s s'" "linkage_ok s"
  shows "linkage_ok s' \<and> tables_grow s s'"
  using assms(1)
proof cases
  case (start create p) then show ?thesis using assms(2) quiet_start_linkage unfolding quiet_def by blast
next
  case (capsule v nm n) then show ?thesis using assms(2) numbering_capsule_no unfolding numbering_def by blast
next
  case (name v n nm r) then show ?thesis using assms(2) numbering_capsule_name unfolding numbering_def by blast
next
  case (ident v i b) then show ?thesis using assms(2) numbering_capsule_id unfolding numbering_def by blast
next
  case (link bs n v r) then show ?thesis using assms(2) numbering_link_no unfolding numbering_def by blast
next
  case (unit bs io v def r) then show ?thesis using assms(2) numbering_unit_no unfolding numbering_def by blast
next
  case (clear io u) then show ?thesis using assms(2) quiet_clear_no unfolding quiet_def by blast
next
  case (usage n v w u) then show ?thesis using assms(2) quiet_usage(1) unfolding quiet_def by blast
next
  case (unused n v u) then show ?thesis using assms(2) quiet_usage(3) unfolding quiet_def by blast
next
  case (count bs u) then show ?thesis using assms(2) quiet_count_item unfolding quiet_def by blast
next
  case other then show ?thesis using assms(2) by (simp add: linkage_ok_def tables_grow_same)
qed

lemma steps_keep:
  assumes "(tables_step mangle)\<^sup>*\<^sup>* s s'" "linkage_ok s"
  shows "linkage_ok s' \<and> tables_grow s s'"
  using assms by (induction rule: rtranclp_induct) (auto simp: tables_grow_refl dest: step_keeps intro: tables_grow_trans)

lemma reachable_ok: "tables_reachable mangle s \<Longrightarrow> linkage_ok s"
  using linkage_ok_start steps_keep unfolding tables_reachable_def by blast

text \<open>A number given out is in the map.\<close>

lemma link_no_entry:
  assumes "link_no bs n v s = (Ret r, s')" "linkage_ok s" "room s" "bs_link (bs_heap s ! bs) = Some l"
  shows "l < length (all_links s')" "unat (n AND NOT LINK_EXTERN) < length (lk_map (all_links s' ! l) ! v)"
    "lk_map (all_links s' ! l) ! v ! unat (n AND NOT LINK_EXTERN) = r" "r \<noteq> LINK_NONE" "v < VAR_no"
proof -
  let ?m = "unat (n AND NOT LINK_EXTERN)"
  obtain l' where l': "bs_link (bs_heap s ! bs) = Some l'" "l' < length (all_links s)" "v < VAR_no"
    "?m < length (lk_map (all_links s ! l') ! v)"
    "lk_map (all_links s ! l') ! v ! ?m \<noteq> LINK_NONE \<Longrightarrow> r = lk_map (all_links s ! l') ! v ! ?m \<and> s' = s"
    "lk_map (all_links s ! l') ! v ! ?m = LINK_NONE \<Longrightarrow> r = lk_no (all_links s ! l') ! v \<and>
       s' = s\<lparr>vars := (vars s)[v := (vars s ! v)\<lparr>vi_present := True\<rparr>],
         all_links := (all_links s)[l' := numbered v ?m (all_links s ! l')]\<rparr>"
    by (rule link_no_Ret[OF assms(1-3)]) blast
  have l: "l' = l" using l'(1) assms(4) by simp
  note l' = l'[unfolded l]
  have len: "length (lk_map (all_links s ! l)) = VAR_no" and no: "unat (lk_no (all_links s ! l) ! v) < 2 ^ 32 - 1"
    using assms(2,3) l'(2,3) by (auto simp: linkage_ok_def link_ok_def room_def)
  have "lk_no (all_links s ! l) ! v \<noteq> LINK_NONE" using no unat_LINK_NONE by (metis less_irrefl)
  then have "l < length (all_links s') \<and> ?m < length (lk_map (all_links s' ! l) ! v) \<and>
      lk_map (all_links s' ! l) ! v ! ?m = r \<and> r \<noteq> LINK_NONE"
  proof (cases "lk_map (all_links s ! l) ! v ! ?m = LINK_NONE")
    case True
    from l'(6)[OF True] have "r = lk_no (all_links s ! l) ! v"
      "all_links s' = (all_links s)[l := numbered v ?m (all_links s ! l)]" by simp_all
    with l'(2-4) len \<open>lk_no (all_links s ! l) ! v \<noteq> LINK_NONE\<close> show ?thesis by (simp add: numbered_def)
  next
    case False
    with l'(5)[OF False] l'(2,4) show ?thesis by simp
  qed
  then show "l < length (all_links s')" "?m < length (lk_map (all_links s' ! l) ! v)"
    "lk_map (all_links s' ! l) ! v ! ?m = r" "r \<noteq> LINK_NONE" by blast+
  show "v < VAR_no" by (rule l'(3))
qed

section \<open>The property\<close>

text \<open>C8: In one unit, two requests for the number of an external, at any two times, give the same
  number if and only if they ask for the same external: a number never changes once it is given out,
  and no two externals share one, however many units, externals and requests come between.\<close>

theorem unit_numbers_injective:
  assumes "tables_reachable mangle s" "room s" "link_no bs n v s = (Ret r, s1)"
    and "(tables_step mangle)\<^sup>*\<^sup>* s1 s2" "room s2" "link_no bs' n' v s2 = (Ret r', s3)"
    and "bs_link (bs_heap s2 ! bs') = bs_link (bs_heap s ! bs)"
  shows "r = r' \<longleftrightarrow> n AND NOT LINK_EXTERN = n' AND NOT LINK_EXTERN"
proof -
  let ?m = "unat (n AND NOT LINK_EXTERN)" and ?k = "unat (n' AND NOT LINK_EXTERN)"
  have ok: "linkage_ok s" by (rule reachable_ok[OF assms(1)])
  obtain l where l: "bs_link (bs_heap s ! bs) = Some l" by (rule link_no_Ret[OF assms(3) ok assms(2)]) blast
  have ok1: "linkage_ok s1" using link_no_keeps[OF assms(3) ok assms(2)] by blast
  have ok2: "linkage_ok s2" and g2: "tables_grow s1 s2" using steps_keep[OF assms(4) ok1] by blast+
  have ok3: "linkage_ok s3" and g3: "tables_grow s2 s3" using link_no_keeps[OF assms(6) ok2 assms(5)] by blast+
  note e1 = link_no_entry[OF assms(3) ok assms(2) l]
  note e3 = link_no_entry[OF assms(6) ok2 assms(5) assms(7)[unfolded l]]
  have m: "?m < length (lk_map (all_links s3 ! l) ! v)" "lk_map (all_links s3 ! l) ! v ! ?m = r"
    using tables_grow_trans[OF g2 g3] e1 by (auto simp: tables_grow_def)
  have "numbers_ok (unat (lk_no (all_links s3 ! l) ! v)) (lk_map (all_links s3 ! l) ! v)"
    using ok3 e3(1,5) by (simp add: linkage_ok_def link_ok_def)
  then have "r = r' \<longleftrightarrow> ?m = ?k" using m e1(4) e3(2-4) by (auto simp: numbers_ok_def)
  then show ?thesis by (simp only: word_unat_eq_iff)
qed

text \<open>Two named tags in one unit, the second of them asked for first.\<close>

definition tables_empty :: capsule_vars where
  "tables_empty = \<lparr>exit_status = False, number_errors = 0, max_reported = ERROR_SEVERITY_INFORMATION,
     bs_heap = [], bs_raw = (\<lambda>_ _. 0), free_bitstreams = None, bs_files = [],
     is_ascii = True, to_ascii_tab = [], mangle_length = 300,
     vars = vars_init, eqns = eqns_init, all_links = [], idents = [], pending_funcs = [], scope_reports = 0,
     dummy_token = 0, anon_no = 0, uniq_string = [], output_tdf = True, output_capsule = True, output_all = False,
     output_diag = 0, output_new_diag = 0, written_capsule = False, tdf_file = None\<rparr>"

definition tables_run :: "capsule_vars \<Rightarrow> (capsule_vars, 'a) prog \<Rightarrow> capsule_vars" where
  "tables_run s p = snd (p s)"

definition tables_two :: capsule_vars where
  "tables_two = tables_run (tables_run (tables_run tables_empty (capsule_no (Some (str ''x'')) VAR_tag))
     (capsule_no (Some (str ''y'')) VAR_tag)) (start_linkage False)"

lemma tables_run_step:
  "(case fst (p s) of Ret _ \<Rightarrow> True | Raise _ \<Rightarrow> False) \<Longrightarrow> \<exists>r. p s = (Ret r, tables_run s p)"
  by (cases "p s") (auto simp: tables_run_def split: outcome.splits)

lemmas tables_simps = tables_two_def tables_empty_def tables_run_def capsule_no_def var_get_def var_put_def extend_linkage_def
  start_linkage_def start_bitstream_def link_no_def next_unit_no_def set_present_def link_get_def link_put_def bs_linkage_def
  bs_get_def bs_put_def bind_def prog_simps Let_def vars_init_def var_init_def

lemma room_small: "room tables_empty" "room (tables_run tables_empty (capsule_no (Some (str ''x'')) VAR_tag))" "room tables_two"
  by (simp_all add: tables_simps room_def var_defs nth_Cons' less_Suc_eq numeral_eq_Suc[of "num.One"])

lemma tables_two_reachable: "tables_reachable (\<lambda>_ _. None) tables_two"
proof -
  let ?x = "capsule_no (Some (str ''x'')) VAR_tag :: (capsule_vars, _) prog"
  let ?y = "capsule_no (Some (str ''y'')) VAR_tag :: (capsule_vars, _) prog"
  let ?s1 = "tables_run tables_empty ?x" and ?step = "tables_step (\<lambda>_ _. None)"
  let ?s2 = "tables_run ?s1 ?y"
  have "\<exists>r. ?x tables_empty = (Ret r, ?s1)" "\<exists>r. ?y ?s1 = (Ret r, ?s2)"
    "\<exists>r. start_linkage False ?s2 = (Ret r, tables_run ?s2 (start_linkage False))"
    by (rule tables_run_step, simp add: tables_simps var_defs)+
  moreover have "VAR_tag < VAR_no" by (simp add: var_defs)
  ultimately have "?step tables_empty ?s1" "?step ?s1 ?s2" "?step ?s2 tables_two"
    using room_small(1,2) unfolding tables_two_def by (blast intro: tables_step.capsule tables_step.start)+
  moreover have "tables_start tables_empty" by (simp add: tables_start_def tables_empty_def)
  ultimately show ?thesis unfolding tables_reachable_def by (blast intro: rtranclp.intros)
qed

theorem unit_numbers_injective_witness:
  "\<exists>r s1 r' s2. link_no 0 (LINK_EXTERN OR 1) VAR_tag tables_two = (Ret r, s1) \<and>
     link_no 0 LINK_EXTERN VAR_tag s1 = (Ret r', s2) \<and> r \<noteq> r'"
proof -
  let ?p = "link_no 0 (LINK_EXTERN OR 1) VAR_tag :: (capsule_vars, _) prog"
  let ?q = "link_no 0 LINK_EXTERN VAR_tag :: (capsule_vars, _) prog"
  let ?s1 = "tables_run tables_two ?p"
  have "\<exists>r. ?p tables_two = (Ret r, ?s1)" "\<exists>r. ?q ?s1 = (Ret r, tables_run ?s1 ?q)"
    by (rule tables_run_step, simp add: tables_simps var_defs LINK_EXTERN_def LINK_NONE_def)+
  then obtain r r' where p: "?p tables_two = (Ret r, ?s1)" and q: "?q ?s1 = (Ret r', tables_run ?s1 ?q)" by blast
  have "room ?s1" "bs_link (bs_heap ?s1 ! 0) = bs_link (bs_heap tables_two ! 0)"
    by (simp_all add: tables_simps room_def var_defs LINK_EXTERN_def LINK_NONE_def nth_Cons' nth_list_update less_Suc_eq
        numeral_eq_Suc[of "num.One"])
  from unit_numbers_injective[OF tables_two_reachable room_small(3) p rtranclp.rtrancl_refl this(1) q this(2)]
  have "r \<noteq> r'" by (simp add: LINK_EXTERN_def)
  with p q show ?thesis by blast
qed

end
