(* ===== verification/Spec2Isabelle.thy ===== *)
theory Spec2Isabelle
  imports Renames Args Library Linker Io_Properties String_Properties Table_Properties Tld_Unit
    Capsule_Properties Link_Properties Reporting Rename_Properties Unit_Set_File Main_Properties Sid_Properties
    Producer_Properties Producer_Capsule Unit_Numbers
begin

text \<open>
  A verification development of three programs of TenDRA with the parts of their libraries \<^verbatim>\<open>src/libexds\<close>,
  \<^verbatim>\<open>src/libtdf\<close> and \<^verbatim>\<open>src/shared\<close> that they run on: \<^verbatim>\<open>tld\<close>, the TDF linker (\<^verbatim>\<open>src/tld\<close>), whole; the grammar analysis
  of \<^verbatim>\<open>sid\<close>, the parser generator (\<^verbatim>\<open>src/sid\<close>), which builds the parsers of the compilers; and the output of
  capsules by \<^verbatim>\<open>tdfc2\<close>, the C and C++ producer (\<^verbatim>\<open>src/tdfc2\<close>), whose capsules the linker reads.

  \<^bold>\<open>The linker.\<close> TDF capsules are the object files of the TenDRA compilers. A capsule declares shapes
  (kinds of names such as tags and tokens), the external names of each shape, what it uses, declares
  and defines (the linker information unit \<^verbatim>\<open>tld\<close>), and units of code that refer to names by numbers local to
  the unit. \<^verbatim>\<open>tld\<close> links capsules into one capsule (\<^verbatim>\<open>frontend/linker.c\<close>): it applies renames, reads the
  capsules and the indices of libraries, loads from the libraries the capsules that define what is
  missing, hides or keeps names, and writes the result. Its other modes build a library of capsules
  (\<^verbatim>\<open>builder.c\<close>), extract capsules from one (\<^verbatim>\<open>extract.c\<close>) and list one (\<^verbatim>\<open>contents.c\<close>).

  \<^bold>\<open>The parser generator.\<close> \<^verbatim>\<open>sid\<close> reads a grammar of rules with alternatives of items (terminals, rules, actions,
  predicates, renamings), rewrites it, computes the first sets of the rules (\<^verbatim>\<open>rules/rule-firsts.c\<close>), checks that the
  grammar is LL(1) and computes the follow sets and the sets of the alternatives (\<^verbatim>\<open>rules/rule-check.c\<close>), and
  writes a parser that chooses alternatives by these sets. Sets of terminals are the bit vectors of libexds.

  \<^bold>\<open>The producer.\<close> \<^verbatim>\<open>tdfc2\<close> encodes declarations and definitions as bits into one bitstream per unit. A bitstream
  of \<^verbatim>\<open>libtdf\<close> is a chain of chunks of 64 bytes, or one chunk that is dumped to a file when it is full. The tables of
  \<^verbatim>\<open>output/capsule.c\<close> number tags and tokens, in the capsule and again in every unit, and collect the units, which
  \<^verbatim>\<open>write_capsule\<close> joins behind a header in the format that the linker reads.

  \<^bold>\<open>Model of the language.\<close> Theory \<open>Prelude\<close>. A C function that touches global state or may fail is a
  program \<open>'s \<Rightarrow> 'a outcome \<times> 's\<close>: it returns a value or leaves through an exception of libexds, through
  \<^verbatim>\<open>exit\<close>, or through \<open>Undefined\<close>, which stands for everything C leaves undefined in this code and for failed
  assertions: null and dangling pointers, indices out of range. \<open>unsigned\<close> is \<open>32 word\<close>, \<open>char\<close> is \<open>8 word\<close>, \<open>size_t\<close>
  lengths of things in memory are natural numbers. Pointers to table entries are indices into the table
  that owns them. Memory is assumed not to run out; deallocation has no model. A counted string is a list of bytes:
  that the empty one has null contents is not modelled, and block operations of the C library on zero bytes do
  nothing. A message has no text, but one whose arguments are of the wrong types (the collision of predicates
  in \<open>Sid_Check\<close>) is \<open>Undefined\<close>, and so is \<^verbatim>\<open>isspace\<close> of a character of eight bits (\<open>Text_Input\<close>), since plain
  \<^verbatim>\<open>char\<close> is signed. The global and static
  variables form one record that grows along the theories: \<open>error_state\<close>, \<open>io_state\<close>, \<open>capsule_state\<close>,
  \<open>library_state\<close>, \<open>main_state\<close>; that of \<^verbatim>\<open>sid\<close> is \<open>sid_state\<close>, and those of
  the producer are \<open>bits_state\<close>, \<open>names_state\<close> and \<open>capsule_vars\<close>. Loops are structural recursion or \<open>function\<close>s with a termination
  proof. Two functions of \<^verbatim>\<open>sid\<close> that call themselves through the grammar carry a bound on the depth of the calls: the
  number of rules not yet marked for first sets (\<open>Sid_Firsts\<close>, where the equation without the bound is proved for
  every state), and the room left in the follow sets (\<open>Sid_Check\<close>). Running out of a bound is \<open>Undefined\<close>, which is
  proved not to happen. The walks along the chunks of a bitstream are bounded by the number of chunks in the store,
  which a chain of distinct chunks cannot exceed; \<^verbatim>\<open>unsigned long\<close> is \<open>64 word\<close>.

  \<^bold>\<open>Theories, bottom up.\<close>
  \<^item> \<open>Errors\<close>: \<^verbatim>\<open>shared/src/error.c\<close> (exit status, count and limit of serious errors) and the severity
    recorded by \<^verbatim>\<open>libexds/src/error.c\<close>.
  \<^item> \<open>Exds_String\<close>, \<open>Exds_Stream\<close>, \<open>Exds_Istream\<close>, \<open>Exds_Ostream\<close>: \<^verbatim>\<open>dstring.c\<close>, \<^verbatim>\<open>cstring.c\<close>, \<^verbatim>\<open>syntax.c\<close>; \<^verbatim>\<open>bistream.c\<close>,
    \<^verbatim>\<open>bostream.c\<close> over a model of \<^verbatim>\<open>stdio\<close> files that may fail, on reading, on writing when the buffer is
    flushed, and on closing; \<^verbatim>\<open>istream.c\<close> with its buffer and macros; \<^verbatim>\<open>ostream.c\<close>.
    Locale \<open>char_buffer\<close> is the contract of a growing buffer, \<open>byte_source\<close> that of an input stream.
  \<^item> \<open>Name_Key\<close>: \<^verbatim>\<open>adt/name-key.c\<close>, external names as keys.
  \<^item> \<open>Tdf_Io\<close>: \<^verbatim>\<open>adt/tdf-read.c\<close>, \<^verbatim>\<open>adt/tdf-write.c\<close>, \<^verbatim>\<open>tdf.c\<close>. \<open>Tdf_Codec\<close> relates both to half bytes; locale
    \<open>tdf_codec\<close> is the contract of a writer and its reader, interpreted for integers, strings and names.
    \<open>Frames\<close> says what input leaves alone.
  \<^item> \<open>Tables\<close>: the chained hash tables, locale \<open>chained_table\<close>, a finite map. \<open>Names\<close>: \<^verbatim>\<open>name-entry.c\<close>,
    \<^verbatim>\<open>name-table.c\<close>. \<open>Renames\<close>: correctness of renaming. \<open>Maps\<close>, \<open>Shapes\<close>, \<open>Units\<close>: the files
    \<^verbatim>\<open>map-*.c\<close>, \<^verbatim>\<open>shape-*.c\<close>, \<^verbatim>\<open>unit-*.c\<close>, each table an interpretation. \<open>Shape_Facts\<close>: well-formed shapes.
  \<^item> \<open>Capsule\<close>: \<^verbatim>\<open>adt/capsule.c\<close>, reading and writing; \<open>Unit_Set_File\<close>: its reader of unit set files.
    \<open>Reading\<close> and \<open>Capsule_Safety\<close> hold the invariant of reading and its triples, \<open>Capsule_Frame\<close> (locale
    \<open>capsule_frame\<close>) what reading leaves alone.
  \<^item> \<open>Args\<close>: \<^verbatim>\<open>adt/arg-data.c\<close>, \<^verbatim>\<open>file-name.c\<close>, \<^verbatim>\<open>cstring-list.c\<close>. \<open>Text_Input\<close>, \<open>Rename_File\<close>: \<^verbatim>\<open>rename-file.c\<close>.
  \<^item> \<open>Library\<close>: \<^verbatim>\<open>adt/library.c\<close>. \<open>Resolve\<close>: the loops that load library capsules. \<open>Linker\<close>: the four modes.
  \<^item> \<open>Arg_Parse\<close>: \<^verbatim>\<open>arg-parse.c\<close> and the named strings of \<^verbatim>\<open>libexds/src/error.c\<close>. \<open>Tld_Main\<close>: \<^verbatim>\<open>main.c\<close>, which ties
    the modes together.
  \<^item> \<open>Exds_Bitvec\<close>: \<^verbatim>\<open>bitvec.c\<close>, locale \<open>bounded_set\<close>. \<open>Sid_Grammar\<close>: the data of grammars (\<^verbatim>\<open>sid/src/adt\<close>). \<open>Sid_Firsts\<close>: \<^verbatim>\<open>rule-firsts.c\<close>.
    \<open>Sid_Check\<close>: \<^verbatim>\<open>rule-check.c\<close>. \<open>Sid_Spec\<close>: what rules can produce, start with and be followed by, as inductive
    predicates. \<open>Sid_First_Correct\<close>, \<open>Sid_Check_Correct\<close>, \<open>Sid_Follow_Correct\<close>, \<open>Sid_LL1\<close>: the invariants of the passes.
    \<open>Sid_Parse\<close>: parse trees, and that LL(1) grammars are unambiguous.
  \<^item> \<open>Libtdf_Bitstream\<close>: \<^verbatim>\<open>libtdf/src/bitstream.c\<close>, \<^verbatim>\<open>encode.c\<close>, over a store of chunks with addresses. \<open>Libtdf_Bits\<close>: the bits a
    chain stands for, and what an operation may touch. \<open>Libtdf_Encode\<close>, \<open>Libtdf_Ops\<close>, \<open>Libtdf_Join\<close>: every operation
    appends exactly its bits. \<open>Producer_Names\<close>: \<^verbatim>\<open>tdfc2/src/common/output/encode.c\<close>, \<^verbatim>\<open>parse/char.c\<close> and \<^verbatim>\<open>enc_name\<close>; \<open>Producer_Codec\<close> relates them
    to the half bytes of \<open>Tdf_Codec\<close>. \<open>Producer_Linkage\<close>, \<open>Producer_Capsule\<close>: \<^verbatim>\<open>output/capsule.c\<close>, its tables and the
    writing of a capsule. \<open>Producer_Numbers\<close>: the invariant of the tables; \<open>Unit_Numbers\<close>: the operations as steps.
  \<^item> The properties stand in \<open>Io_Properties\<close>, \<open>String_Properties\<close>, \<open>Table_Properties\<close>, \<open>Tld_Unit\<close>, \<open>Renames\<close>,
    \<open>Rename_Properties\<close>, \<open>Unit_Set_File\<close>, \<open>Capsule_Properties\<close>, \<open>Link_Properties\<close>, \<open>Reporting\<close>,
    \<open>Main_Properties\<close>, \<open>Exds_Bitvec\<close>, \<open>Sid_Properties\<close>, \<open>Producer_Properties\<close> and \<open>Unit_Numbers\<close>.

  \<^bold>\<open>What is shown.\<close> Encodings: what is written is read back, for sequences of integers, strings, names and
  for the capsule header; numbers out of range and cut off are errors; predicted sizes are exact, so the
  linker information unit announces its length correctly; a header of another major version is refused. Containers: dynamic strings, hash tables and
  link arrays refine lists and finite maps. Reading: a capsule can be read from any bytes without
  undefined behaviour (up to the null contents of empty strings), the tables keep their invariant, and usages of a name merge to what the linking
  rules say. Renames: chains resolve to their ends, cycles are reported exactly when there are any, rename
  files are parsed as documented, and unit set files are checked before they are used. Resolution: a
  library capsule is loaded only for a name that needs it and only once; the loop is a run of calls that look at
  one queued name each, and when it returns no name is left in a queue. Command line: which option a long name selects, and that options are carried out
  in order and leave exactly the file names. Errors: the limit of twenty, that the modes of the
  linker do what they would do without the guards between their phases, and that a run with serious errors exits with success. Grammars: bit vectors are
  sets; first sets are computed exactly; a grammar that passes the checks is LL(1) and unambiguous, and its alternatives
  carry disjoint sets that hold every terminal by which they must be chosen; one whose predicates clash runs into
  undefined behaviour instead of a report. Bitstreams: what is encoded reaches the
  file bit by bit, joining concatenates, and the names the producer writes are those the linker reads. Numbers: in a
  unit, different externals have different numbers, and a number does not change.

  \<^bold>\<open>Not modelled.\<close> \<^verbatim>\<open>debug.c\<close> and \<^verbatim>\<open>fmt.c\<close> of \<^verbatim>\<open>tld\<close>: traces and the formatting of messages. Message texts, file times and
  directories. \<^verbatim>\<open>isspace\<close> is that of the C locale. Of \<^verbatim>\<open>sid\<close>: the readers, left recursion elimination,
  factorisation, inlining and the output, and the lists of clashes in messages. Of \<^verbatim>\<open>libtdf\<close>: the decoder, which reads a
  variable that is never set. Of \<^verbatim>\<open>tdfc2\<close>: parsing, the construction of the program, the units it puts into a capsule
  (\<^verbatim>\<open>make_capsule_units\<close> is an argument of \<^verbatim>\<open>write_capsule\<close>) and the mangling of names. The other programs of the
  repository (installers, the lexer generator, drivers, TDF notation tools) are separate programs
  that share no state with these three.
\<close>

end
